(* ===== verification/RFed_Prelude.thy ===== *)
theory RFed_Prelude
  imports Complex_Main "HOL-Library.Word" "HOL-Library.AList" "HOL-Library.Multiset"
    "HOL-Library.List_Lexorder" "HOL-Library.Product_Lexorder"
begin

text \<open>
  The vocabulary every component of the node shares: byte strings, clock readings, the
  hash maps of the Rust code, the iterator functions the code calls, and the two
  interfaces several components implement (a table with one row per key, and a store
  whose memory is mirrored on disk).

  A \<^typ>\<open>real\<close> stands for an \<open>f64\<close> of seconds: the code only compares, adds and
  subtracts its clock readings, and rounding is not modelled. Each reading of the clock
  is an argument of the operation that makes it.

  A \<open>HashMap\<close> is an association list with distinct keys (\<open>AList\<close> of the library).
  The position of a key in the list stands for the unspecified iteration order of the
  hash map; the theorems hold for every list, so for every order.
\<close>

section \<open>Types\<close>

type_synonym u8 = "8 word"
type_synonym bytes = "u8 list"
type_synonym secs = real
type_synonym ('k, 'v) hmap = "('k \<times> 'v) list"

text \<open>The levels of \<open>reticulum_rust::log\<close> the node uses.\<close>

datatype log_level = LOG_ERROR | LOG_WARNING | LOG_NOTICE | LOG_DEBUG

named_theorems hmap_simps "lookup and key facts of the hash maps"

section \<open>Hash maps\<close>

abbreviation hget :: "('k, 'v) hmap \<Rightarrow> 'k \<Rightarrow> 'v option" where
  "hget m k \<equiv> map_of m k"

abbreviation hput :: "'k \<Rightarrow> 'v \<Rightarrow> ('k, 'v) hmap \<Rightarrow> ('k, 'v) hmap" where
  "hput \<equiv> AList.update"

abbreviation hdel :: "'k \<Rightarrow> ('k, 'v) hmap \<Rightarrow> ('k, 'v) hmap" where
  "hdel \<equiv> AList.delete"

definition hkeys_distinct :: "('k, 'v) hmap \<Rightarrow> bool" where
  "hkeys_distinct m \<longleftrightarrow> distinct (map fst m)"

text \<open>
  What the code relies on when it calls \<open>insert\<close>, \<open>remove\<close> and \<open>get\<close> on a map.
\<close>

locale key_value_map =
  fixes empty :: "'m" and put :: "'k \<Rightarrow> 'v \<Rightarrow> 'm \<Rightarrow> 'm" and del :: "'k \<Rightarrow> 'm \<Rightarrow> 'm"
    and get :: "'m \<Rightarrow> 'k \<Rightarrow> 'v option" and inv :: "'m \<Rightarrow> bool"
  assumes get_empty: "get empty k = None"
    and get_put: "get (put a v m) k = (if k = a then Some v else get m k)"
    and get_del: "get (del a m) k = (if k = a then None else get m k)"
    and inv_empty: "inv empty"
    and inv_put: "inv m \<Longrightarrow> inv (put a v m)"
    and inv_del: "inv m \<Longrightarrow> inv (del a m)"
begin

lemma get_put_same [simp]: "get (put a v m) a = Some v"
  by (simp add: get_put)

lemma get_put_other [simp]: "k \<noteq> a \<Longrightarrow> get (put a v m) k = get m k"
  by (simp add: get_put)

lemma get_del_same [simp]: "get (del a m) a = None"
  by (simp add: get_del)

lemma get_put_del: "get (del a (put a v m)) = get (del a m)"
  by (rule ext) (simp add: get_put get_del)

lemma get_put_put: "get (put a v (put a w m)) = get (put a v m)"
  by (rule ext) (simp add: get_put)

lemma dom_put: "dom (get (put a v m)) = insert a (dom (get m))"
  by (auto simp: dom_def get_put)

lemma dom_del: "dom (get (del a m)) = dom (get m) - {a}"
  by (auto simp: dom_def get_del split: if_splits)

end

interpretation hm: key_value_map "[]" hput hdel hget hkeys_distinct
  by unfold_locales
    (auto simp: AList.update_conv' AList.delete_conv' hkeys_distinct_def
      AList.distinct_update AList.distinct_delete)

declare hm.get_put [hmap_simps] hm.get_del [hmap_simps]

lemma hput_new: "hget m k = None \<Longrightarrow> hput k v m = m @ [(k, v)]"
  by (induction m) (auto split: if_splits)

lemma hget_mem: "hget m k = Some v \<Longrightarrow> (k, v) \<in> set m"
  by (rule map_of_SomeD)

lemma hget_mem_iff: "hkeys_distinct m \<Longrightarrow> hget m k = Some v \<longleftrightarrow> (k, v) \<in> set m"
  by (simp add: hkeys_distinct_def)

lemma hkeys_distinct_Cons:
  "hkeys_distinct ((k, v) # m) \<longleftrightarrow> k \<notin> fst ` set m \<and> hkeys_distinct m"
  by (auto simp: hkeys_distinct_def image_iff)

lemma hdel_absent: "k \<notin> fst ` set m \<Longrightarrow> hdel k m = m"
  by (induction m) auto

lemma set_hdel: "set (hdel k m) = {p \<in> set m. fst p \<noteq> k}"
  by (auto simp: AList.delete_eq)

lemma set_hput:
  "hkeys_distinct m \<Longrightarrow> set (hput k v m) = insert (k, v) {p \<in> set m. fst p \<noteq> k}"
  by (induction m) (auto simp: hkeys_distinct_def image_iff)

text \<open>A value of a map split off its list, and the map with that value replaced.\<close>

lemma hget_split:
  assumes "hkeys_distinct m" and "hget m k = Some v"
  obtains xs ys where "m = xs @ (k, v) # ys" and "k \<notin> fst ` set xs" and "k \<notin> fst ` set ys"
proof -
  from assms(2) have "(k, v) \<in> set m" by (rule hget_mem)
  then obtain xs ys where "m = xs @ (k, v) # ys" by (meson split_list)
  with assms(1) that show thesis by (force simp: hkeys_distinct_def)
qed

lemma hput_split:
  "k \<notin> fst ` set xs \<Longrightarrow> hput k w (xs @ (k, v) # ys) = xs @ (k, w) # ys"
  by (induction xs) auto

lemma hdel_split:
  "k \<notin> fst ` set xs \<Longrightarrow> k \<notin> fst ` set ys \<Longrightarrow> hdel k (xs @ (k, v) # ys) = xs @ ys"
  by (induction xs) (auto simp: hdel_absent)

lemma hget_split_eq: "k \<notin> fst ` set xs \<Longrightarrow> hget (xs @ (k, v) # ys) k = Some v"
  by (induction xs) auto

section \<open>Iterator functions of the code\<close>

text \<open>\<open>iter().position(p)\<close> and \<open>remove(at)\<close> on a vector.\<close>

fun position :: "('a \<Rightarrow> bool) \<Rightarrow> 'a list \<Rightarrow> nat option" where
  "position p [] = None"
| "position p (x # xs) = (if p x then Some 0 else map_option Suc (position p xs))"

definition remove_at :: "nat \<Rightarrow> 'a list \<Rightarrow> 'a list" where
  "remove_at n xs = take n xs @ drop (Suc n) xs"

lemma position_None_iff: "position p xs = None \<longleftrightarrow> (\<forall>x \<in> set xs. \<not> p x)"
  by (induction xs) auto

lemma position_Some:
  "position p xs = Some n \<Longrightarrow> n < length xs \<and> p (xs ! n) \<and> (\<forall>i < n. \<not> p (xs ! i))"
proof (induction xs arbitrary: n)
  case (Cons x xs)
  then show ?case
    by (auto simp: less_Suc_eq_0_disj nth_Cons' split: if_splits)
qed simp

text \<open>With one row per key, updating the row found at its position updates the row of that key.\<close>

lemma position_update:
  "distinct (map key xs) \<Longrightarrow> position (\<lambda>x. key x = k) xs = Some i \<Longrightarrow>
    xs[i := f (xs ! i)] = map (\<lambda>x. if key x = k then f x else x) xs"
proof (induction xs arbitrary: i)
  case (Cons x xs)
  show ?case
  proof (cases "key x = k")
    case True
    from Cons.prems(1) True have "k \<notin> key ` set xs" by simp
    then have "\<forall>y \<in> set xs. key y \<noteq> k" by (metis image_eqI)
    then have "map (\<lambda>x. if key x = k then f x else x) xs = xs" by (intro map_idI) auto
    with True Cons.prems show ?thesis by simp
  next
    case False
    with Cons.prems obtain j where "position (\<lambda>x. key x = k) xs = Some j" "i = Suc j" by auto
    with False Cons show ?thesis by simp
  qed
qed simp

text \<open>
  Inserting a row under a unique key: \<open>upd old new\<close> replaces the row that has the key, a
  row with a new key goes last. The SQL upserts and the vectors searched by \<open>position\<close> do it.
\<close>

definition upsert :: "('a \<Rightarrow> 'k) \<Rightarrow> ('a \<Rightarrow> 'a \<Rightarrow> 'a) \<Rightarrow> 'a \<Rightarrow> 'a list \<Rightarrow> 'a list" where
  "upsert key upd x xs = (if key x \<in> key ` set xs
     then map (\<lambda>q. if key q = key x then upd q x else q) xs else xs @ [x])"

lemma upsert_at_position:
  assumes "distinct (map key xs)"
  shows "(case position (\<lambda>q. key q = key x) xs of None \<Rightarrow> xs @ [x] | Some i \<Rightarrow> xs[i := upd (xs ! i) x]) = upsert key upd x xs"
proof (cases "position (\<lambda>q. key q = key x) xs")
  case None
  then have "key x \<notin> key ` set xs" unfolding position_None_iff by (metis imageE)
  with None show ?thesis by (simp add: upsert_def)
next
  case (Some i)
  from position_Some [OF Some] have "key x \<in> key ` set xs" by (metis imageI nth_mem)
  with Some position_update [OF assms Some, of "\<lambda>q. upd q x"] show ?thesis by (simp add: upsert_def)
qed

lemma upsert_keys_list:
  assumes "\<And>q. key q = key x \<Longrightarrow> key (upd q x) = key x"
  shows "map key (upsert key upd x xs) = (if key x \<in> key ` set xs then map key xs else map key xs @ [key x])"
  using assms by (auto simp: upsert_def intro: map_cong)

lemma upsert_distinct:
  "(\<And>q. key q = key x \<Longrightarrow> key (upd q x) = key x) \<Longrightarrow> distinct (map key xs) \<Longrightarrow> distinct (map key (upsert key upd x xs))"
  by (simp add: upsert_keys_list)

lemma upsert_keys:
  assumes "\<And>q. key q = key x \<Longrightarrow> key (upd q x) = key x"
  shows "key ` set (upsert key upd x xs) = insert (key x) (key ` set xs)"
proof -
  have "map key (upsert key upd x xs) = (if key x \<in> key ` set xs then map key xs else map key xs @ [key x])"
    using assms by (rule upsert_keys_list)
  then have "set (map key (upsert key upd x xs)) = insert (key x) (set (map key xs))" by auto
  then show ?thesis by simp
qed

lemma filter_upsert:
  assumes upd: "\<And>q. key q = key x \<Longrightarrow> key (upd q x) = key x" and "key x \<noteq> k"
  shows "filter (\<lambda>q. key q \<noteq> k) (upsert key upd x xs) = upsert key upd x (filter (\<lambda>q. key q \<noteq> k) xs)"
proof -
  have mem: "key x \<in> key ` set (filter (\<lambda>q. key q \<noteq> k) xs) \<longleftrightarrow> key x \<in> key ` set xs"
    using assms(2) by auto
  have "filter (\<lambda>q. key q \<noteq> k) (map (\<lambda>q. if key q = key x then upd q x else q) xs)
      = map (\<lambda>q. if key q = key x then upd q x else q) (filter (\<lambda>q. key q \<noteq> k) xs)"
    using assms by (induction xs) auto
  with mem assms(2) show ?thesis by (simp add: upsert_def)
qed

lemma upsert_others:
  assumes "\<And>q. key q = key x \<Longrightarrow> key (upd q x) = key x"
  shows "filter (\<lambda>q. key q \<noteq> key x) (upsert key upd x xs) = filter (\<lambda>q. key q \<noteq> key x) xs"
proof -
  have "filter (\<lambda>q. key q \<noteq> key x) (map (\<lambda>q. if key q = key x then upd q x else q) xs) = filter (\<lambda>q. key q \<noteq> key x) xs"
    using assms by (induction xs) auto
  then show ?thesis by (simp add: upsert_def)
qed

lemma upsert_pred: "(\<forall>q \<in> set xs. P q) \<Longrightarrow> P x \<Longrightarrow> (\<And>q. P q \<Longrightarrow> P (upd q x)) \<Longrightarrow> q \<in> set (upsert key upd x xs) \<Longrightarrow> P q"
  by (auto simp: upsert_def split: if_splits)

text \<open>Upserting the image of a row in the images of the rows.\<close>

lemma upsert_mirror:
  assumes "\<forall>q \<in> set xs. key' (g q) = key' (g x) \<longleftrightarrow> key q = key x" and "\<And>q. upd' (g q) (g x) = g (upd q x)"
  shows "upsert key' upd' (g x) (map g xs) = map g (upsert key upd x xs)"
proof -
  have mem: "key' (g x) \<in> key' ` set (map g xs) \<longleftrightarrow> key x \<in> key ` set xs"
    using assms(1) unfolding set_map image_image image_iff by (metis (no_types, lifting))
  have "map (\<lambda>q. if key' q = key' (g x) then upd' q (g x) else q) (map g xs) = map g (map (\<lambda>q. if key q = key x then upd q x else q) xs)"
    using assms by (induction xs) auto
  with mem show ?thesis unfolding upsert_def by (simp del: map_map)
qed

lemma remove_at_mset:
  "n < length xs \<Longrightarrow> mset xs = add_mset (xs ! n) (mset (remove_at n xs))"
  by (metis add_mset_add_single append_Cons append_Nil id_take_nth_drop mset.simps(2) mset_append
      remove_at_def union_mset_add_mset_right)

lemma length_remove_at [simp]: "n < length xs \<Longrightarrow> length (remove_at n xs) = length xs - 1"
  by (simp add: remove_at_def)

lemma set_remove_at_subset: "set (remove_at n xs) \<subseteq> set xs"
  by (auto simp: remove_at_def dest: in_set_takeD in_set_dropD)

lemma length_filter_eq: "length (filter p xs) = length xs \<Longrightarrow> filter p xs = xs"
  by (metis filter_id_conv length_filter_less less_irrefl)

text \<open>\<open>iter().filter(|x| seen.insert(x))\<close>: the first occurrence of each element.\<close>

definition first_occurrences :: "'a list \<Rightarrow> 'a list" where
  "first_occurrences xs = rev (remdups (rev xs))"

lemma set_first_occurrences [simp]: "set (first_occurrences xs) = set xs"
  by (simp add: first_occurrences_def)

lemma distinct_first_occurrences [simp]: "distinct (first_occurrences xs)"
  by (simp add: first_occurrences_def)

text \<open>
  \<open>iter().max_by(cmp)\<close>: Rust keeps the last of several maxima. \<open>le a b\<close> is
  \<open>cmp(a, b) != Greater\<close>.
\<close>

fun max_by :: "('a \<Rightarrow> 'a \<Rightarrow> bool) \<Rightarrow> 'a list \<Rightarrow> 'a option" where
  "max_by le [] = None"
| "max_by le (x # xs) = Some (fold (\<lambda>y best. if le best y then y else best) xs x)"

lemma max_by_None_iff [simp]: "max_by le xs = None \<longleftrightarrow> xs = []"
  by (cases xs) auto

lemma fold_max_mem: "fold (\<lambda>y best. if le best y then y else best) xs x \<in> insert x (set xs)"
proof (induction xs arbitrary: x)
  case (Cons y ys)
  from Cons.IH [of "if le x y then y else x"] show ?case by auto
qed simp

lemma max_by_mem: "max_by le xs = Some x \<Longrightarrow> x \<in> set xs"
  by (cases xs) (use fold_max_mem [of le] in auto)

lemma fold_max_ge:
  assumes trans: "\<And>a b c. le a b \<Longrightarrow> le b c \<Longrightarrow> le a c" and total: "\<And>a b. le a b \<or> le b a"
  shows "y \<in> insert x (set xs) \<Longrightarrow> le y (fold (\<lambda>y best. if le best y then y else best) xs x)"
proof (induction xs arbitrary: x y)
  case Nil
  then show ?case using total by auto
next
  case (Cons z zs)
  let ?b = "if le x z then z else x"
  let ?r = "fold (\<lambda>y best. if le best y then y else best) zs ?b"
  have b: "le x ?b" "le z ?b" using total by auto
  have r: "le ?b ?r" by (rule Cons.IH) simp
  show ?case
  proof (cases "y \<in> set zs")
    case True
    then show ?thesis using Cons.IH [of y ?b] by simp
  next
    case False
    then have "le y ?b" using Cons.prems b by (elim insertE) auto
    from trans [OF this r] show ?thesis by simp
  qed
qed

lemma max_by_ge:
  assumes "\<And>a b c. le a b \<Longrightarrow> le b c \<Longrightarrow> le a c" and "\<And>a b. le a b \<or> le b a"
    and "max_by le xs = Some m" and "y \<in> set xs"
  shows "le y m"
  using assms(3,4) fold_max_ge [of le, OF assms(1,2)] by (cases xs) auto

section \<open>Tables with one row per key\<close>

text \<open>
  The contract the registration tables of the node share (notify registrations, distro
  devices, stored distro announces): a row is found by its key, putting a key leaves
  every other row as it was, deleting removes exactly the rows of that key.
\<close>

locale keyed_table =
  fixes rows :: "'s \<Rightarrow> 'r list" and key :: "'r \<Rightarrow> 'k"
    and put :: "'k \<Rightarrow> 'v \<Rightarrow> 's \<Rightarrow> 's" and del :: "'k \<Rightarrow> 's \<Rightarrow> 's"
  assumes keys_put: "key ` set (rows (put k v s)) = insert k (key ` set (rows s))"
    and distinct_put: "distinct (map key (rows s)) \<Longrightarrow> distinct (map key (rows (put k v s)))"
    and others_put: "filter (\<lambda>r. key r \<noteq> k) (rows (put k v s)) = filter (\<lambda>r. key r \<noteq> k) (rows s)"
    and rows_del: "rows (del k s) = filter (\<lambda>r. key r \<noteq> k) (rows s)"
begin

lemma del_absent: "k \<notin> key ` set (rows (del k s))"
  by (auto simp: rows_del)

lemma del_put: "rows (del k (put k v s)) = rows (del k s)"
  by (simp add: rows_del others_put)

lemma del_other: "k \<noteq> k' \<Longrightarrow> k' \<in> key ` set (rows (del k s)) \<longleftrightarrow> k' \<in> key ` set (rows s)"
  by (auto simp: rows_del)

lemma distinct_del: "distinct (map key (rows s)) \<Longrightarrow> distinct (map key (rows (del k s)))"
  by (simp add: rows_del distinct_map_filter)

lemma one_row_per_key:
  "distinct (map key (rows s)) \<Longrightarrow> r \<in> set (rows s) \<Longrightarrow> r' \<in> set (rows s) \<Longrightarrow>
    key r = key r' \<Longrightarrow> r = r'"
  by (simp add: distinct_map inj_on_def)

lemma put_row:
  assumes "distinct (map key (rows s))"
  shows "\<exists>!r. r \<in> set (rows (put k v s)) \<and> key r = k"
proof -
  from keys_put [of k v s] have "k \<in> key ` set (rows (put k v s))" by simp
  with one_row_per_key [OF distinct_put [OF assms]] show ?thesis by blast
qed

lemma put_keeps_others:
  "key r \<noteq> k \<Longrightarrow> r \<in> set (rows (put k v s)) \<longleftrightarrow> r \<in> set (rows s)"
proof -
  assume r: "key r \<noteq> k"
  have "r \<in> set (filter (\<lambda>r. key r \<noteq> k) (rows (put k v s)))
      \<longleftrightarrow> r \<in> set (filter (\<lambda>r. key r \<noteq> k) (rows s))"
    by (simp only: others_put)
  with r show ?thesis by simp
qed

end

section \<open>Stores mirrored on disk\<close>

text \<open>
  The contract the tables with a database share: an operation that keeps memory and rows
  equal entry by entry, rows that read back as the entries they were written from. What it
  gives is that a restart after any run finds the entries the run left.
\<close>

locale mirrored_store =
  fixes entries :: "'s \<Rightarrow> 'e list" and rows :: "'s \<Rightarrow> 'r list option"
    and to_row :: "'e \<Rightarrow> 'r" and of_row :: "'r \<Rightarrow> 'e" and wf :: "'s \<Rightarrow> bool" and step :: "'s \<Rightarrow> 's \<Rightarrow> bool"
  assumes wf_step: "step s s' \<Longrightarrow> wf s \<Longrightarrow> wf s'"
    and mirror_step: "step s s' \<Longrightarrow> wf s \<Longrightarrow> rows s = Some (map to_row (entries s)) \<Longrightarrow>
      rows s' = Some (map to_row (entries s'))"
    and read_back: "wf s \<Longrightarrow> e \<in> set (entries s) \<Longrightarrow> of_row (to_row e) = e"
begin

lemma run_wf: "step\<^sup>*\<^sup>* s s' \<Longrightarrow> wf s \<Longrightarrow> wf s'"
  by (induction rule: rtranclp_induct) (auto intro: wf_step)

lemma run_mirror:
  "step\<^sup>*\<^sup>* s s' \<Longrightarrow> wf s \<Longrightarrow> rows s = Some (map to_row (entries s)) \<Longrightarrow>
    rows s' = Some (map to_row (entries s'))"
proof (induction rule: rtranclp_induct)
  case (step y z)
  then have "wf y" by (blast intro: run_wf)
  from mirror_step [OF step(2) this] step show ?case by blast
qed simp

lemma restart_reads_entries:
  assumes "step\<^sup>*\<^sup>* s s'" and "wf s" and "rows s = Some (map to_row (entries s))"
  shows "map_option (map of_row) (rows s') = Some (entries s')"
  using run_mirror [OF assms] read_back [OF run_wf [OF assms(1,2)]] by (simp add: map_idI)

end

end
