(* ===== verification/StoreDb.thy ===== *)
theory StoreDb
  imports RFed_Prelude
begin

text \<open>
  \<open>rfed/src/store_db.rs\<close>: how a store writes its database and how the old msgpack file
  is imported. A database is the value of its table; whether SQLite carries a statement
  out is outside the program, so each transaction takes its result as an argument.
\<close>

section \<open>Transactions\<close>

text \<open>
  What becomes of a transaction: committed; a statement failed, so the closure returned
  early; or every statement ran and the commit failed. The last two roll back.
\<close>

datatype txn = Committed | StatementFailed | CommitFailed

definition write_one :: "txn \<Rightarrow> ('d \<Rightarrow> 'd) \<Rightarrow> 'd option \<Rightarrow> 'd option" where
  "write_one r change conn = (case conn of
      None \<Rightarrow> None
    | Some d \<Rightarrow> (case r of Committed \<Rightarrow> Some (change d) | StatementFailed \<Rightarrow> Some d | CommitFailed \<Rightarrow> Some d))"

definition write_all :: "txn \<Rightarrow> ('d \<Rightarrow> 'd) \<Rightarrow> 'd option \<Rightarrow> 'd option" where
  "write_all r change conn = write_one r change conn"

lemma write_one_simps [simp]:
  "write_one r change None = None"
  "write_one Committed change (Some d) = Some (change d)"
  "write_one StatementFailed change (Some d) = Some d"
  "write_one CommitFailed change (Some d) = Some d"
  by (simp_all add: write_one_def)

lemma write_all_eq [simp]: "write_all r change conn = write_one r change conn"
  by (simp add: write_all_def)

lemma write_one_None_iff [simp]: "write_one r change conn = None \<longleftrightarrow> conn = None"
  by (cases conn; cases r) simp_all

section \<open>Opening a database\<close>

text \<open>
  \<open>open\<close>: the first attempt, and when it fails the file is set aside and a fresh one is
  tried. \<open>first\<close> and \<open>second\<close> are what \<open>open_at\<close> gives at each attempt.
\<close>

definition open_db :: "(string + 'd) \<Rightarrow> (string + 'd) \<Rightarrow> 'd option" where
  "open_db first second = (case first of
      Inr conn \<Rightarrow> Some conn
    | Inl _ \<Rightarrow> (case second of Inr conn \<Rightarrow> Some conn | Inl _ \<Rightarrow> None))"

section \<open>The old msgpack file\<close>

text \<open>What is at the old file's path: nothing, a file that decodes, one that does not.\<close>

datatype 'v legacy_file = NoFile | Decodes 'v | Undecodable

text \<open>What the import did with the file: renamed as imported or unreadable, or left.\<close>

datatype file_fate = NothingThere | RenamedImported | RenamedUnreadable | LeftInPlace

fun import_legacy :: "txn \<Rightarrow> ('v \<Rightarrow> 'd \<Rightarrow> 'd) \<Rightarrow> 'v legacy_file \<Rightarrow> 'd \<Rightarrow> 'd \<times> file_fate" where
  "import_legacy r ins NoFile d = (d, NothingThere)"
| "import_legacy r ins (Decodes v) d =
     (case r of
        Committed \<Rightarrow> (ins v d, RenamedImported)
      | StatementFailed \<Rightarrow> (d, LeftInPlace)
      | CommitFailed \<Rightarrow> (d, LeftInPlace))"
| "import_legacy r ins Undecodable d = (d, RenamedUnreadable)"

definition read_legacy :: "'v legacy_file \<Rightarrow> string + 'v" where
  "read_legacy f = (case f of Decodes v \<Rightarrow> Inr v | NoFile \<Rightarrow> Inl ''no such file'' | Undecodable \<Rightarrow> Inl ''decode'')"

text \<open>The file is put out of the way only when its rows are in the database or it is unreadable.\<close>

lemma import_legacy_never_loses:
  "import_legacy r ins (Decodes v) d = (d', fate) \<Longrightarrow>
    (d' = ins v d \<and> fate = RenamedImported) \<or> (d' = d \<and> fate = LeftInPlace)"
  by (cases r) auto

end
