(* ===== verification/DeferredQueue.thy ===== *)
theory DeferredQueue
  imports StoreDb
begin

text \<open>
  \<open>rfed/src/deferred_queue.rs\<close>: the queue of blobs held for subscribers that could not
  be reached. \<open>deferred_queue\<close> is \<open>DeferredQueue\<close> (the buckets, the pages pulls hold,
  the counters, the tickets in flight, the database rows); each operation is one
  definition with the code's name. An operation that writes takes the result of its
  transaction (\<^typ>\<open>txn\<close>) as an argument, and where the code needs them the row id SQLite
  gives (\<open>nid\<close>) and the clock reading.
\<close>

section \<open>State\<close>

record pending_blob =
  pb_channel :: bytes
  pb_blob :: bytes
  pb_enqueued_at :: secs
  pb_id :: int
  pb_ticket :: nat

record deferred_row =
  dr_id :: int
  dr_subscriber :: bytes
  dr_channel :: bytes
  dr_blob :: bytes
  dr_enqueued_at :: secs

record deferred_entry =
  de_subscriber :: bytes
  de_channel :: bytes
  de_blob :: bytes
  de_enqueued_at :: secs

datatype enqueue_outcome =
    Queued
  | QueuedEvictingOldest bytes
  | QueuedEvictingFullest bytes bytes
  | RefusedGlobalLimit

definition outcome_queued :: "enqueue_outcome \<Rightarrow> bool" where
  "outcome_queued r \<longleftrightarrow> r \<noteq> RefusedGlobalLimit"

record held_page =
  hp_subscriber :: bytes
  hp_blobs :: "pending_blob list"

record deferred_queue =
  dq_queue :: "(bytes, pending_blob list) hmap"
  dq_held :: "(nat, held_page) hmap"
  dq_next_page :: nat
  dq_next_ticket :: nat
  dq_in_flight :: "nat set"
  dq_db :: "deferred_row list option"
  dq_global_limit :: nat

section \<open>Rows\<close>

definition insert_row :: "int \<Rightarrow> bytes \<Rightarrow> bytes \<Rightarrow> bytes \<Rightarrow> secs \<Rightarrow> deferred_row list \<Rightarrow> deferred_row list" where
  "insert_row i sub chan blob t rows =
     rows @ [\<lparr>dr_id = i, dr_subscriber = sub, dr_channel = chan, dr_blob = blob, dr_enqueued_at = t\<rparr>]"

definition delete_row :: "int \<Rightarrow> deferred_row list \<Rightarrow> deferred_row list" where
  "delete_row i rows = filter (\<lambda>r. dr_id r \<noteq> i) rows"

definition delete_rows :: "txn \<Rightarrow> pending_blob list \<Rightarrow> deferred_queue \<Rightarrow> deferred_queue" where
  "delete_rows r removed q = q\<lparr>dq_db := write_all r
     (fold (\<lambda>pb rows. delete_row (pb_id pb) rows) (filter (\<lambda>pb. pb_id pb \<noteq> 0) removed)) (dq_db q)\<rparr>"

section \<open>Loading\<close>

definition read_row :: "deferred_row \<Rightarrow> (bytes, pending_blob list) hmap \<Rightarrow> (bytes, pending_blob list) hmap" where
  "read_row r m = hput (dr_subscriber r)
     ((case hget m (dr_subscriber r) of None \<Rightarrow> [] | Some b \<Rightarrow> b) @
       [\<lparr>pb_channel = dr_channel r, pb_blob = dr_blob r, pb_enqueued_at = dr_enqueued_at r,
         pb_id = dr_id r, pb_ticket = 0\<rparr>]) m"

text \<open>\<open>reads\<close> is how many rows the query gives before it fails, \<open>None\<close> when it does not.\<close>

definition read_all :: "nat option \<Rightarrow> deferred_row list \<Rightarrow> (bytes, pending_blob list) hmap" where
  "read_all reads rows = fold read_row
     (case reads of None \<Rightarrow> sort_key dr_id rows | Some n \<Rightarrow> take n (sort_key dr_id rows)) []"

definition legacy_push :: "deferred_entry \<Rightarrow> (bytes, pending_blob list) hmap \<Rightarrow> (bytes, pending_blob list) hmap" where
  "legacy_push e m = hput (de_subscriber e)
     ((case hget m (de_subscriber e) of None \<Rightarrow> [] | Some b \<Rightarrow> b) @
       [\<lparr>pb_channel = de_channel e, pb_blob = de_blob e, pb_enqueued_at = de_enqueued_at e,
         pb_id = 0, pb_ticket = 0\<rparr>]) m"

fun ticket_bucket :: "nat \<Rightarrow> pending_blob list \<Rightarrow> pending_blob list" where
  "ticket_bucket n [] = []"
| "ticket_bucket n (pb # b) = pb\<lparr>pb_ticket := n\<rparr> # ticket_bucket (Suc n) b"

fun ticket_buckets :: "nat \<Rightarrow> (bytes, pending_blob list) hmap \<Rightarrow> (bytes, pending_blob list) hmap \<times> nat" where
  "ticket_buckets n [] = ([], n)"
| "ticket_buckets n ((s, b) # m) =
     (let (m', n') = ticket_buckets (n + length b) m in ((s, ticket_bucket n b) # m', n'))"

definition import_entries :: "(deferred_row list \<Rightarrow> int) \<Rightarrow> deferred_entry list \<Rightarrow> deferred_row list \<Rightarrow> deferred_row list" where
  "import_entries nid old rows = fold (\<lambda>e rows. insert_row (nid rows) (de_subscriber e) (de_channel e)
     (de_blob e) (de_enqueued_at e) rows) old rows"

definition load :: "(deferred_row list \<Rightarrow> int) \<Rightarrow> txn \<Rightarrow> nat option \<Rightarrow> deferred_row list option \<Rightarrow>
    deferred_entry list legacy_file \<Rightarrow> deferred_queue" where
  "load nid r reads opened legacy =
     (let (db, m) = (case opened of
            Some rows \<Rightarrow>
              (let rows' = fst (import_legacy r (import_entries nid) legacy rows)
               in (Some rows', read_all reads rows'))
          | None \<Rightarrow> (None, fold legacy_push (case read_legacy legacy of Inr old \<Rightarrow> old | Inl _ \<Rightarrow> []) []));
          (m', next_ticket) = ticket_buckets 1 m
      in \<lparr>dq_queue = m', dq_held = [], dq_next_page = 1, dq_next_ticket = next_ticket,
          dq_in_flight = {}, dq_db = db, dq_global_limit = 4096\<rparr>)"

section \<open>Enqueue\<close>

definition total_len :: "deferred_queue \<Rightarrow> nat" where
  "total_len q = sum_list (map (\<lambda>(_, b). length b) (dq_queue q))
     + sum_list (map (\<lambda>(_, p). length (hp_blobs p)) (dq_held q))"

definition bucket_full :: "bytes \<Rightarrow> nat \<Rightarrow> deferred_queue \<Rightarrow> bool" where
  "bucket_full sub cap q = (case hget (dq_queue q) sub of None \<Rightarrow> False | Some b \<Rightarrow> b \<noteq> [] \<and> cap \<le> length b)"

definition fuller :: "bytes \<times> nat \<times> secs \<Rightarrow> bytes \<times> nat \<times> secs \<Rightarrow> bool" where
  "fuller a b = (case a of (_, n, t) \<Rightarrow> case b of (_, n', t') \<Rightarrow> n < n' \<or> (n = n' \<and> t' \<le> t))"

definition pop_oldest_of_fullest ::
    "(bytes, pending_blob list) hmap \<Rightarrow> ((bytes \<times> pending_blob) \<times> (bytes, pending_blob list) hmap) option" where
  "pop_oldest_of_fullest m =
     (case max_by fuller (List.map_filter
         (\<lambda>(s, b). case b of [] \<Rightarrow> None | e # _ \<Rightarrow> Some (s, length b, pb_enqueued_at e)) m) of
        None \<Rightarrow> None
      | Some (fullest, _) \<Rightarrow>
          (case hget m fullest of
             None \<Rightarrow> None
           | Some [] \<Rightarrow> None
           | Some (old # b) \<Rightarrow> Some ((fullest, old), if b = [] then hdel fullest m else hput fullest b m)))"

definition evict_for_enqueue :: "bytes \<Rightarrow> nat \<Rightarrow> deferred_queue \<Rightarrow>
    (pending_blob option \<times> enqueue_outcome \<times> (bytes, pending_blob list) hmap) option" where
  "evict_for_enqueue sub cap q =
     (if bucket_full sub cap q then
        (case hget (dq_queue q) sub of
           Some (old # b) \<Rightarrow> Some (Some old, QueuedEvictingOldest (pb_channel old), hput sub b (dq_queue q))
         | _ \<Rightarrow> Some (None, Queued, dq_queue q))
      else if dq_global_limit q \<le> total_len q then
        (case pop_oldest_of_fullest (dq_queue q) of
           None \<Rightarrow> None
         | Some ((s, old), m) \<Rightarrow> Some (Some old, QueuedEvictingFullest s (pb_channel old), m))
      else Some (None, Queued, dq_queue q))"

definition enqueue :: "(deferred_row list \<Rightarrow> int) \<Rightarrow> txn \<Rightarrow> secs \<Rightarrow> bytes \<Rightarrow> bytes \<Rightarrow> bytes \<Rightarrow> nat \<Rightarrow>
    deferred_queue \<Rightarrow> enqueue_outcome \<times> deferred_queue" where
  "enqueue nid r t sub chan blob cap q =
     (case evict_for_enqueue sub cap q of
        None \<Rightarrow> (RefusedGlobalLimit, q)
      | Some (evicted, outcome, m) \<Rightarrow>
          (let after_delete = (\<lambda>rows. case evicted of
                  Some old \<Rightarrow> if pb_id old \<noteq> 0 then delete_row (pb_id old) rows else rows
                | None \<Rightarrow> rows);
               i = (case dq_db q of
                      None \<Rightarrow> 0
                    | Some rows \<Rightarrow> if r = StatementFailed then 0 else nid (after_delete rows));
               db = write_all r (\<lambda>rows. insert_row i sub chan blob t (after_delete rows)) (dq_db q);
               ticket = dq_next_ticket q;
               bucket = (case hget m sub of None \<Rightarrow> [] | Some b \<Rightarrow> b)
           in (outcome, q\<lparr>dq_queue := hput sub (bucket @ [\<lparr>pb_channel = chan, pb_blob = blob,
                             pb_enqueued_at = t, pb_id = i, pb_ticket = ticket\<rparr>]) m,
                          dq_next_ticket := Suc ticket, dq_db := db\<rparr>)))"

section \<open>Tallies and log lines\<close>

record enqueue_tally =
  et_queued :: nat
  et_evicted :: nat
  et_evicted_fullest :: nat
  et_refused :: nat

definition tally_default :: enqueue_tally where
  "tally_default = \<lparr>et_queued = 0, et_evicted = 0, et_evicted_fullest = 0, et_refused = 0\<rparr>"

fun tally_add :: "enqueue_tally \<Rightarrow> enqueue_outcome \<Rightarrow> enqueue_tally" where
  "tally_add y Queued = y\<lparr>et_queued := et_queued y + 1\<rparr>"
| "tally_add y (QueuedEvictingOldest _) = y\<lparr>et_queued := et_queued y + 1, et_evicted := et_evicted y + 1\<rparr>"
| "tally_add y (QueuedEvictingFullest _ _) =
     y\<lparr>et_queued := et_queued y + 1, et_evicted_fullest := et_evicted_fullest y + 1\<rparr>"
| "tally_add y RefusedGlobalLimit = y\<lparr>et_refused := et_refused y + 1\<rparr>"

text \<open>Each blob comes with the transaction result and the clock reading of its own enqueue.\<close>

fun enqueue_all :: "(deferred_row list \<Rightarrow> int) \<Rightarrow> bytes \<Rightarrow> ((txn \<times> secs) \<times> bytes \<times> bytes) list \<Rightarrow> nat \<Rightarrow>
    enqueue_tally \<Rightarrow> deferred_queue \<Rightarrow> enqueue_tally \<times> deferred_queue" where
  "enqueue_all nid sub [] cap y q = (y, q)"
| "enqueue_all nid sub (((r, t), chan, blob) # bs) cap y q =
     (let (outcome, q') = enqueue nid r t sub chan blob cap q
      in enqueue_all nid sub bs cap (tally_add y outcome) q')"

datatype loss_line = NotQueued nat | OldestEvicted nat | FullestEvicted nat

definition loss_lines :: "enqueue_tally \<Rightarrow> (log_level \<times> loss_line) list" where
  "loss_lines y =
     (if et_refused y > 0 then [(LOG_WARNING, NotQueued (et_refused y))] else []) @
     (if et_evicted y > 0 then [(LOG_NOTICE, OldestEvicted (et_evicted y))] else []) @
     (if et_evicted_fullest y > 0 then [(LOG_NOTICE, FullestEvicted (et_evicted_fullest y))] else [])"

section \<open>Counting and draining\<close>

definition bucket_of :: "(bytes, pending_blob list) hmap \<Rightarrow> bytes \<Rightarrow> pending_blob list" where
  "bucket_of m sub = (case hget m sub of None \<Rightarrow> [] | Some b \<Rightarrow> b)"

definition count_matching :: "bytes \<Rightarrow> bytes \<Rightarrow> deferred_queue \<Rightarrow> nat" where
  "count_matching sub routing q = (case hget (dq_queue q) sub of
      None \<Rightarrow> 0 | Some b \<Rightarrow> length (filter (\<lambda>e. pb_channel e = routing) b))"

definition delete_if_any :: "txn \<Rightarrow> pending_blob list \<Rightarrow> deferred_queue \<Rightarrow> deferred_queue" where
  "delete_if_any r removed q = (if removed \<noteq> [] then delete_rows r removed q else q)"

definition drain :: "txn \<Rightarrow> bytes \<Rightarrow> deferred_queue \<Rightarrow> pending_blob list \<times> deferred_queue" where
  "drain r sub q =
     (let removed = (case hget (dq_queue q) sub of None \<Rightarrow> [] | Some b \<Rightarrow> b)
      in (removed, delete_if_any r removed (q\<lparr>dq_queue := hdel sub (dq_queue q)\<rparr>)))"

definition drain_batch :: "txn \<Rightarrow> bytes \<Rightarrow> nat \<Rightarrow> deferred_queue \<Rightarrow> pending_blob list \<times> deferred_queue" where
  "drain_batch r sub mx q =
     (case hget (dq_queue q) sub of
        None \<Rightarrow> ([], q)
      | Some b \<Rightarrow>
          (let n = min (length b) mx; removed = take n b; kept = drop n b
           in (removed, delete_if_any r removed
                 (q\<lparr>dq_queue := (if kept = [] then hdel sub (dq_queue q) else hput sub kept (dq_queue q))\<rparr>))))"

fun drain_loop :: "(bytes \<Rightarrow> bool) \<Rightarrow> nat \<Rightarrow> pending_blob list \<Rightarrow> pending_blob list \<Rightarrow> pending_blob list \<Rightarrow>
    pending_blob list \<times> pending_blob list" where
  "drain_loop wanted mx [] removed kept = (removed, kept)"
| "drain_loop wanted mx (e # b) removed kept =
     (if length removed < mx \<and> wanted (pb_channel e) then drain_loop wanted mx b (removed @ [e]) kept
      else drain_loop wanted mx b removed (kept @ [e]))"

definition drain_matching_batch :: "txn \<Rightarrow> bytes \<Rightarrow> (bytes \<Rightarrow> bool) \<Rightarrow> nat \<Rightarrow> deferred_queue \<Rightarrow>
    pending_blob list \<times> deferred_queue" where
  "drain_matching_batch r sub wanted mx q =
     (case hget (dq_queue q) sub of
        None \<Rightarrow> ([], q)
      | Some b \<Rightarrow>
          (let (removed, kept) = drain_loop wanted mx b [] []
           in (removed, delete_if_any r removed
                 (q\<lparr>dq_queue := (if kept = [] then hdel sub (dq_queue q) else hput sub kept (dq_queue q))\<rparr>))))"

definition drain_channel_batch :: "txn \<Rightarrow> bytes \<Rightarrow> bytes \<Rightarrow> nat \<Rightarrow> deferred_queue \<Rightarrow>
    pending_blob list \<times> deferred_queue" where
  "drain_channel_batch r sub chan mx q = drain_matching_batch r sub (\<lambda>routing. routing = chan) mx q"

definition has_pending :: "bytes \<Rightarrow> deferred_queue \<Rightarrow> bool" where
  "has_pending sub q = (case hget (dq_queue q) sub of None \<Rightarrow> False | Some b \<Rightarrow> b \<noteq> [])"

definition has_pending_matching :: "bytes \<Rightarrow> (bytes \<Rightarrow> bool) \<Rightarrow> deferred_queue \<Rightarrow> bool" where
  "has_pending_matching sub wanted q = (case hget (dq_queue q) sub of
      None \<Rightarrow> False | Some b \<Rightarrow> list_ex (\<lambda>e. wanted (pb_channel e)) b)"

definition has_pending_channel :: "bytes \<Rightarrow> bytes \<Rightarrow> deferred_queue \<Rightarrow> bool" where
  "has_pending_channel sub chan q = has_pending_matching sub (\<lambda>routing. routing = chan) q"

section \<open>Pages\<close>

text \<open>The loop of \<open>take_page\<close>: its entries still to look at, and \<open>taken\<close>, \<open>kept\<close>, \<open>spent\<close>, \<open>full\<close>.\<close>

fun take_loop :: "(bytes \<Rightarrow> bool) \<Rightarrow> nat \<Rightarrow> nat \<Rightarrow> (pending_blob \<Rightarrow> nat) \<Rightarrow> pending_blob list \<Rightarrow>
    pending_blob list \<Rightarrow> pending_blob list \<Rightarrow> nat \<Rightarrow> bool \<Rightarrow> pending_blob list \<times> pending_blob list" where
  "take_loop wanted mx budget cost [] taken kept spent full = (taken, kept)"
| "take_loop wanted mx budget cost (e # b) taken kept spent full =
     (if \<not> full \<and> length taken < mx \<and> wanted (pb_channel e) then
        (if taken = [] \<or> spent + cost e \<le> budget
         then take_loop wanted mx budget cost b (taken @ [e]) kept (spent + cost e) full
         else take_loop wanted mx budget cost b taken (kept @ [e]) spent True)
      else take_loop wanted mx budget cost b taken (kept @ [e]) spent full)"

definition take_page :: "bytes \<Rightarrow> (bytes \<Rightarrow> bool) \<Rightarrow> nat \<Rightarrow> nat \<Rightarrow> (pending_blob \<Rightarrow> nat) \<Rightarrow> deferred_queue \<Rightarrow>
    (nat \<times> pending_blob list) \<times> deferred_queue" where
  "take_page sub wanted mx budget cost q =
     (case hget (dq_queue q) sub of
        None \<Rightarrow> ((0, []), q)
      | Some b \<Rightarrow>
          (let (taken, kept) = take_loop wanted mx budget cost b [] [] 0 False;
               m = (if kept = [] then hdel sub (dq_queue q) else hput sub kept (dq_queue q))
           in if taken = [] then ((0, []), q\<lparr>dq_queue := m\<rparr>)
              else (let i = dq_next_page q
                    in ((i, taken), q\<lparr>dq_queue := m, dq_next_page := Suc i,
                          dq_held := hput i \<lparr>hp_subscriber = sub, hp_blobs = taken\<rparr> (dq_held q)\<rparr>))))"

definition settle_page :: "txn \<Rightarrow> nat \<Rightarrow> bool \<Rightarrow> deferred_queue \<Rightarrow> (bytes \<times> nat) option \<times> deferred_queue" where
  "settle_page r i proved q =
     (case hget (dq_held q) i of
        None \<Rightarrow> (None, q)
      | Some page \<Rightarrow>
          (let q' = q\<lparr>dq_held := hdel i (dq_held q)\<rparr>;
               bucket = (case hget (dq_queue q) (hp_subscriber page) of None \<Rightarrow> [] | Some b \<Rightarrow> b)
           in (Some (hp_subscriber page, length (hp_blobs page)),
               if proved then delete_rows r (hp_blobs page) q'
               else q'\<lparr>dq_queue := hput (hp_subscriber page)
                      (fold (\<lambda>blob b. blob # b) (rev (hp_blobs page)) bucket) (dq_queue q)\<rparr>)))"

section \<open>The announce flush\<close>

definition flush_copies :: "bytes \<Rightarrow> (bytes \<Rightarrow> bool) \<Rightarrow> deferred_queue \<Rightarrow> pending_blob list \<times> deferred_queue" where
  "flush_copies sub wanted q =
     (case hget (dq_queue q) sub of
        None \<Rightarrow> ([], q)
      | Some b \<Rightarrow>
          (let copies = filter (\<lambda>e. wanted (pb_channel e) \<and> pb_ticket e \<notin> dq_in_flight q) b
           in (copies, q\<lparr>dq_in_flight := dq_in_flight q \<union> pb_ticket ` set copies\<rparr>)))"

text \<open>The page of \<open>sub\<close> that holds \<open>ticket\<close>, its entry taken out: the \<open>find_map\<close> of \<open>confirm\<close>.\<close>

fun confirm_held :: "bytes \<Rightarrow> nat \<Rightarrow> (nat, held_page) hmap \<Rightarrow> pending_blob option \<times> (nat, held_page) hmap" where
  "confirm_held sub ticket [] = (None, [])"
| "confirm_held sub ticket ((i, page) # h) =
     (if hp_subscriber page = sub then
        (case position (\<lambda>e. pb_ticket e = ticket) (hp_blobs page) of
           Some j \<Rightarrow> (Some (hp_blobs page ! j),
                       (i, page\<lparr>hp_blobs := remove_at j (hp_blobs page)\<rparr>) # h)
         | None \<Rightarrow> (let (e, h') = confirm_held sub ticket h in (e, (i, page) # h')))
      else (let (e, h') = confirm_held sub ticket h in (e, (i, page) # h')))"

definition confirm :: "txn \<Rightarrow> bytes \<Rightarrow> nat \<Rightarrow> deferred_queue \<Rightarrow> bool \<times> deferred_queue" where
  "confirm r sub ticket q =
     (let in_flight = dq_in_flight q - {ticket};
          (removed, m) = (case hget (dq_queue q) sub of
             None \<Rightarrow> (None, dq_queue q)
           | Some b \<Rightarrow>
               (let (e, b') = (case position (\<lambda>e. pb_ticket e = ticket) b of
                        None \<Rightarrow> (None, b) | Some j \<Rightarrow> (Some (b ! j), remove_at j b))
                in (e, if b' = [] then hdel sub (dq_queue q) else hput sub b' (dq_queue q))));
          (removed', h) = (case removed of
             Some e \<Rightarrow> (Some e, dq_held q)
           | None \<Rightarrow> confirm_held sub ticket (dq_held q));
          q' = q\<lparr>dq_in_flight := in_flight, dq_queue := m, dq_held := h\<rparr>
      in case removed' of
           Some e \<Rightarrow> (True, delete_rows r [e] q')
         | None \<Rightarrow> (False, q'))"

definition release :: "bytes \<Rightarrow> nat \<Rightarrow> deferred_queue \<Rightarrow> bool \<times> deferred_queue" where
  "release sub ticket q =
     ((case hget (dq_queue q) sub of None \<Rightarrow> False | Some b \<Rightarrow> list_ex (\<lambda>e. pb_ticket e = ticket) b),
      q\<lparr>dq_in_flight := dq_in_flight q - {ticket}\<rparr>)"

section \<open>Expiry\<close>

record expired =
  ex_subscriber :: bytes
  ex_routing :: bytes
  ex_count :: nat

definition expired_owned :: "secs \<Rightarrow> (bytes, pending_blob list) hmap \<Rightarrow> (bytes \<times> pending_blob) list" where
  "expired_owned threshold m =
     concat (map (\<lambda>(s, b). map (Pair s) (filter (\<lambda>e. \<not> threshold \<le> pb_enqueued_at e) b)) m)"

definition evict_expired :: "txn \<Rightarrow> secs \<Rightarrow> secs \<Rightarrow> deferred_queue \<Rightarrow> expired list \<times> deferred_queue" where
  "evict_expired r t max_age q =
     (let threshold = t - max_age;
          gone = expired_owned threshold (dq_queue q);
          keys = map (\<lambda>(s, e). (s, pb_channel e)) gone;
          kept = map (\<lambda>(s, b). (s, filter (\<lambda>e. threshold \<le> pb_enqueued_at e) b)) (dq_queue q);
          ids = map (\<lambda>(s, e). pb_id e) gone;
          q' = q\<lparr>dq_queue := filter (\<lambda>(_, b). b \<noteq> []) kept\<rparr>
      in (map (\<lambda>k. \<lparr>ex_subscriber = fst k, ex_routing = snd k, ex_count = count_list keys k\<rparr>)
            (remdups (sort keys)),
          if ids \<noteq> [] then q'\<lparr>dq_db := write_all r (fold delete_row (filter (\<lambda>i. i \<noteq> 0) ids)) (dq_db q)\<rparr>
          else q'))"

datatype expiry_line = DistroExpired nat bytes bytes secs | BlobsExpired nat bytes bytes secs

definition expiry_lines :: "expired list \<Rightarrow> (bytes \<Rightarrow> bool) \<Rightarrow> secs \<Rightarrow> (log_level \<times> expiry_line) list" where
  "expiry_lines ex is_distro max_age = map (\<lambda>e.
     if is_distro (ex_routing e)
     then (LOG_WARNING, DistroExpired (ex_count e) (ex_subscriber e) (ex_routing e) max_age)
     else (LOG_NOTICE, BlobsExpired (ex_count e) (ex_subscriber e) (ex_routing e) max_age)) ex"

end
