(* ===== verification/DeferredQueue_Inv.thy ===== *)
theory DeferredQueue_Inv
  imports DeferredQueue
begin

text \<open>
  What the deferred queue keeps true: \<open>owned q\<close> lists every entry with its subscriber,
  the buckets' and the held pages'. \<open>dq_keys\<close> (the maps are maps, page ids are fresh),
  \<open>dq_tickets\<close> (a ticket names one entry) and \<open>dq_mirror\<close> (the database holds exactly the
  rows of the owned entries) are kept by every operation; \<open>dq_step\<close> is any of them.
\<close>

section \<open>The entries a queue owns\<close>

definition queue_owned :: "(bytes, pending_blob list) hmap \<Rightarrow> (bytes \<times> pending_blob) list" where
  "queue_owned m = concat (map (\<lambda>(s, b). map (Pair s) b) m)"

definition held_owned :: "(nat, held_page) hmap \<Rightarrow> (bytes \<times> pending_blob) list" where
  "held_owned h = concat (map (\<lambda>(_, p). map (Pair (hp_subscriber p)) (hp_blobs p)) h)"

definition owned :: "deferred_queue \<Rightarrow> (bytes \<times> pending_blob) list" where
  "owned q = queue_owned (dq_queue q) @ held_owned (dq_held q)"

definition row_of :: "bytes \<times> pending_blob \<Rightarrow> deferred_row" where
  "row_of e = \<lparr>dr_id = pb_id (snd e), dr_subscriber = fst e, dr_channel = pb_channel (snd e),
     dr_blob = pb_blob (snd e), dr_enqueued_at = pb_enqueued_at (snd e)\<rparr>"

abbreviation ticket_of :: "bytes \<times> pending_blob \<Rightarrow> nat" where
  "ticket_of e \<equiv> pb_ticket (snd e)"

lemma row_of_id [simp]: "dr_id (row_of e) = pb_id (snd e)"
  by (simp add: row_of_def)

lemma queue_owned_simps [simp]:
  "queue_owned [] = []"
  "queue_owned ((s, b) # m) = map (Pair s) b @ queue_owned m"
  "queue_owned (m @ m') = queue_owned m @ queue_owned m'"
  by (simp_all add: queue_owned_def)

lemma held_owned_simps [simp]:
  "held_owned [] = []"
  "held_owned ((i, p) # h) = map (Pair (hp_subscriber p)) (hp_blobs p) @ held_owned h"
  "held_owned (h @ h') = held_owned h @ held_owned h'"
  by (simp_all add: held_owned_def)

lemma bucket_of_simps [simp]:
  "hget m s = None \<Longrightarrow> bucket_of m s = []"
  "hget m s = Some b \<Longrightarrow> bucket_of m s = b"
  by (simp_all add: bucket_of_def)

lemma total_len_owned: "total_len q = length (owned q)"
proof -
  have "length (queue_owned m) = sum_list (map (\<lambda>(_, b). length b) m)" for m
    by (induction m) auto
  moreover have "length (held_owned h) = sum_list (map (\<lambda>(_, p). length (hp_blobs p)) h)" for h
    by (induction h) auto
  ultimately show ?thesis by (simp add: total_len_def owned_def)
qed

lemma mset_queue_put:
  "mset (queue_owned (hput s b m)) + mset (map (Pair s) (bucket_of m s)) =
    mset (queue_owned m) + mset (map (Pair s) b)"
  by (induction m) (auto simp: bucket_of_def add.assoc add.commute add.left_commute split: option.splits)

lemma queue_owned_del_absent: "s \<notin> fst ` set m \<Longrightarrow> queue_owned (hdel s m) = queue_owned m"
  by (simp add: hdel_absent)

lemma mset_queue_del:
  "hkeys_distinct m \<Longrightarrow>
    mset (queue_owned (hdel s m)) + mset (map (Pair s) (bucket_of m s)) = mset (queue_owned m)"
proof (induction m)
  case (Cons p m)
  obtain k v where p: "p = (k, v)" by (cases p)
  show ?case
  proof (cases "k = s")
    case True
    with Cons.prems p have "s \<notin> fst ` set m" by (simp add: hkeys_distinct_Cons)
    then show ?thesis using p True by (simp add: hdel_absent)
  next
    case False
    with Cons p have IH: "mset (queue_owned (hdel s m)) + mset (map (Pair s) (bucket_of m s)) = mset (queue_owned m)"
      by (simp add: hkeys_distinct_Cons)
    have "bucket_of (p # m) s = bucket_of m s" using p False by (simp add: bucket_of_def)
    with IH p False show ?thesis by (simp add: add.assoc)
  qed
qed simp

lemma mset_held_put_new:
  "hget h i = None \<Longrightarrow>
    mset (held_owned (hput i p h)) = mset (held_owned h) + mset (map (Pair (hp_subscriber p)) (hp_blobs p))"
  by (simp add: hput_new)

lemma mset_held_del:
  assumes "hkeys_distinct h" and "hget h i = Some p"
  shows "mset (held_owned h) = mset (held_owned (hdel i h)) + mset (map (Pair (hp_subscriber p)) (hp_blobs p))"
proof -
  from assms obtain xs ys where "h = xs @ (i, p) # ys" "i \<notin> fst ` set xs" "i \<notin> fst ` set ys"
    by (rule hget_split)
  then show ?thesis by (simp add: hdel_split)
qed

text \<open>A bucket taken apart and put back with some of its entries removed.\<close>

lemma mset_queue_shrink:
  assumes "hkeys_distinct m" and "hget m s = Some b" and "mset b = mset removed + mset kept"
  shows "mset (queue_owned (if kept = [] then hdel s m else hput s kept m)) + mset (map (Pair s) removed)
    = mset (queue_owned m)"
proof (cases "kept = []")
  case True
  with assms(3) have "mset (map (Pair s) b) = mset (map (Pair s) removed)" by (simp add: mset_map)
  with True mset_queue_del [OF assms(1), of s] assms(2) show ?thesis by simp
next
  case False
  have "mset (map (Pair s) b) = mset (map (Pair s) removed) + mset (map (Pair s) kept)"
    using assms(3) by (simp add: mset_map)
  with mset_queue_put [of s kept m] assms(2) False show ?thesis
    by (simp add: add.assoc [symmetric])
qed

section \<open>Well-formedness\<close>

definition dq_keys :: "deferred_queue \<Rightarrow> bool" where
  "dq_keys q \<longleftrightarrow> hkeys_distinct (dq_queue q) \<and> hkeys_distinct (dq_held q) \<and> 0 < dq_next_page q \<and>
     (\<forall>i \<in> fst ` set (dq_held q). 0 < i \<and> i < dq_next_page q)"

definition dq_tickets :: "deferred_queue \<Rightarrow> bool" where
  "dq_tickets q \<longleftrightarrow> 0 < dq_next_ticket q \<and> distinct (map ticket_of (owned q)) \<and>
     (\<forall>e \<in> set (owned q). 0 < ticket_of e \<and> ticket_of e < dq_next_ticket q) \<and>
     (\<forall>n \<in> dq_in_flight q. n < dq_next_ticket q)"

definition dq_mirror :: "deferred_queue \<Rightarrow> bool" where
  "dq_mirror q \<longleftrightarrow> (case dq_db q of None \<Rightarrow> True
     | Some rows \<Rightarrow> mset rows = mset (map row_of (owned q)) \<and> distinct (map dr_id rows) \<and>
                    (\<forall>r \<in> set rows. 0 < dr_id r))"

definition dq_wf :: "deferred_queue \<Rightarrow> bool" where
  "dq_wf q \<longleftrightarrow> dq_keys q \<and> dq_tickets q"

text \<open>What SQLite documents of the row id it gives: positive, larger than every one in use.\<close>

definition rowid_spec :: "(deferred_row list \<Rightarrow> int) \<Rightarrow> bool" where
  "rowid_spec nid \<longleftrightarrow> (\<forall>rows. 0 < nid rows \<and> (\<forall>r \<in> set rows. dr_id r < nid rows))"

definition max_rowid :: "deferred_row list \<Rightarrow> int" where
  "max_rowid rows = fold (\<lambda>r n. max n (dr_id r + 1)) rows 1"

lemma max_rowid_spec: "rowid_spec max_rowid"
proof -
  have "n \<le> fold (\<lambda>r n. max n (dr_id r + 1)) rows n \<and>
      (\<forall>r \<in> set rows. dr_id r < fold (\<lambda>r n. max n (dr_id r + 1)) rows n)" for rows n
  proof (induction rows arbitrary: n)
    case (Cons r rows)
    from Cons [of "max n (dr_id r + 1)"] show ?case by auto
  qed simp
  note bounds = this
  show ?thesis unfolding rowid_spec_def max_rowid_def
  proof (intro allI)
    fix rows
    from bounds [of 1 rows] show "0 < fold (\<lambda>r n. max n (dr_id r + 1)) rows 1 \<and>
        (\<forall>r \<in> set rows. dr_id r < fold (\<lambda>r n. max n (dr_id r + 1)) rows 1)" by auto
  qed
qed

lemma dq_tickets_shrink:
  assumes "dq_tickets q" and "mset (owned q') \<subseteq># mset (owned q)"
    and "dq_next_ticket q' = dq_next_ticket q" and "dq_in_flight q' \<subseteq> dq_in_flight q"
  shows "dq_tickets q'"
proof -
  obtain ex where ex: "mset (owned q) = mset (owned q' @ ex)"
    using assms(2) by (metis mset_append ex_mset mset_subset_eq_exists_conv)
  then have "mset (map ticket_of (owned q)) = mset (map ticket_of (owned q' @ ex))"
    by (simp add: mset_map)
  then have "distinct (map ticket_of (owned q' @ ex))"
    using assms(1) mset_eq_imp_distinct_iff by (fastforce simp: dq_tickets_def)
  moreover have "set (owned q') \<subseteq> set (owned q)"
    using assms(2) by (metis set_mset_mono set_mset_mset)
  ultimately show ?thesis using assms by (auto simp: dq_tickets_def)
qed

section \<open>Deleting rows\<close>

lemma fold_delete_row:
  "fold (\<lambda>pb rows. delete_row (pb_id pb) rows) xs rows = filter (\<lambda>r. dr_id r \<notin> pb_id ` set xs) rows"
  by (induction xs arbitrary: rows) (auto simp: delete_row_def intro: filter_cong)

lemma fold_delete_ids: "fold delete_row is rows = filter (\<lambda>r. dr_id r \<notin> set is) rows"
  by (induction "is" arbitrary: rows) (auto simp: delete_row_def intro: filter_cong)

lemma del_mirror:
  assumes rows: "mset rows = mset (map row_of (gone @ kept))" and dist: "distinct (map dr_id rows)"
  shows "mset (filter (\<lambda>r. dr_id r \<notin> (\<lambda>e. pb_id (snd e)) ` set gone) rows) = mset (map row_of kept)"
proof -
  let ?P = "\<lambda>r. dr_id r \<notin> (\<lambda>e. pb_id (snd e)) ` set gone"
  have "mset (map dr_id rows) = mset (map dr_id (map row_of (gone @ kept)))"
    using rows by (simp add: mset_map multiset.map_comp)
  with dist have "distinct (map dr_id (map row_of (gone @ kept)))"
    using mset_eq_imp_distinct_iff by blast
  then have apart: "(\<lambda>e. pb_id (snd e)) ` set gone \<inter> (\<lambda>e. pb_id (snd e)) ` set kept = {}"
    by (simp add: comp_def)
  have "mset (filter ?P rows) = filter_mset ?P (mset (map row_of gone)) + filter_mset ?P (mset (map row_of kept))"
    by (simp add: mset_filter rows del: mset_map)
  moreover have "filter_mset ?P (mset (map row_of gone)) = {#}"
    by (auto simp: filter_mset_eq_conv simp flip: mset_filter)
  moreover have "filter_mset ?P (mset (map row_of kept)) = mset (map row_of kept)"
    using apart by (auto simp: filter_mset_eq_conv simp flip: mset_filter)
  ultimately show ?thesis by simp
qed

text \<open>
  The mirror after some entries left both the queue and the database: \<open>ids\<close> are the rows
  the operation deletes, every entry gone is in the queue before and not after.
\<close>

lemma dq_mirror_delete:
  assumes mirror: "dq_mirror q" and db: "dq_db q = Some rows"
    and own: "mset (owned q) = mset gone + mset (owned q')"
    and db': "dq_db q' = Some (filter (\<lambda>r. dr_id r \<notin> (\<lambda>e. pb_id (snd e)) ` set gone) rows)"
  shows "dq_mirror q'"
proof -
  from mirror db own have rows: "mset rows = mset (map row_of (gone @ owned q'))"
    and dist: "distinct (map dr_id rows)" and pos: "\<forall>r \<in> set rows. 0 < dr_id r"
    by (auto simp: dq_mirror_def mset_map)
  from del_mirror [OF rows dist] dist pos db' show ?thesis
    by (auto simp: dq_mirror_def distinct_map_filter)
qed

lemma dq_mirror_ids:
  assumes "dq_mirror q" and "dq_db q = Some rows" and "e \<in> set (owned q)"
  shows "0 < pb_id (snd e)"
proof -
  from assms(1,2) have "mset rows = mset (map row_of (owned q))" and pos: "\<forall>r \<in> set rows. 0 < dr_id r"
    by (auto simp: dq_mirror_def)
  from mset_eq_setD [OF this(1)] assms(3) have "row_of e \<in> set rows" by simp
  with pos show ?thesis by fastforce
qed

end
