(* ===== verification/DeferredQueue_Steps.thy ===== *)
theory DeferredQueue_Steps
  imports DeferredQueue_Inv
begin

text \<open>
  Each operation of the deferred queue seen from its entries: which entries leave, which
  come, in which order. The step relation \<open>dq_step\<close> is any operation with any argument.
\<close>

section \<open>The loops\<close>

lemma drain_loop_spec:
  "drain_loop wanted mx b removed kept = (r, k) \<Longrightarrow>
    r = removed @ take (mx - length removed) (filter (\<lambda>e. wanted (pb_channel e)) b) \<and>
    filter (\<lambda>e. wanted (pb_channel e)) k = filter (\<lambda>e. wanted (pb_channel e)) kept
      @ drop (mx - length removed) (filter (\<lambda>e. wanted (pb_channel e)) b) \<and>
    filter (\<lambda>e. \<not> wanted (pb_channel e)) k = filter (\<lambda>e. \<not> wanted (pb_channel e)) (kept @ b)"
proof (induction wanted mx b removed kept rule: drain_loop.induct)
  case (2 wanted mx e b removed kept)
  show ?case
  proof (cases "length removed < mx \<and> wanted (pb_channel e)")
    case True
    then have "mx - length removed = Suc (mx - Suc (length removed))" by arith
    with True 2 show ?thesis by simp
  next
    case False
    with 2 show ?thesis by (cases "wanted (pb_channel e)") auto
  qed
qed simp

lemma take_loop_full: "take_loop wanted mx budget cost b taken kept spent True = (taken, kept @ b)"
  by (induction b arbitrary: kept) auto

lemma take_loop_split:
  "take_loop wanted mx budget cost b taken kept spent full = (t, k) \<Longrightarrow>
    (\<exists>n. t = taken @ take n (filter (\<lambda>e. wanted (pb_channel e)) b) \<and>
      filter (\<lambda>e. wanted (pb_channel e)) k = filter (\<lambda>e. wanted (pb_channel e)) kept
        @ drop n (filter (\<lambda>e. wanted (pb_channel e)) b)) \<and>
    filter (\<lambda>e. \<not> wanted (pb_channel e)) k = filter (\<lambda>e. \<not> wanted (pb_channel e)) (kept @ b)"
proof (induction wanted mx budget cost b taken kept spent full rule: take_loop.induct)
  case (1 wanted mx budget cost taken kept spent full)
  then show ?case by auto
next
  case (2 wanted mx budget cost e b taken kept spent full)
  let ?w = "filter (\<lambda>e. wanted (pb_channel e)) b"
  consider (take) "\<not> full" "length taken < mx" "wanted (pb_channel e)" "taken = [] \<or> spent + cost e \<le> budget"
    | (over) "\<not> full" "length taken < mx" "wanted (pb_channel e)" "\<not> (taken = [] \<or> spent + cost e \<le> budget)"
    | (pass) "full \<or> mx \<le> length taken" "wanted (pb_channel e)"
    | (other) "\<not> wanted (pb_channel e)"
    by linarith
  then show ?case
  proof cases
    case take
    then obtain n where "t = (taken @ [e]) @ take n ?w" "filter (\<lambda>e. wanted (pb_channel e)) k
          = filter (\<lambda>e. wanted (pb_channel e)) kept @ drop n ?w"
        "filter (\<lambda>e. \<not> wanted (pb_channel e)) k = filter (\<lambda>e. \<not> wanted (pb_channel e)) (kept @ b)"
      using 2 by auto
    with take show ?thesis by (auto intro!: exI [of _ "Suc n"])
  next
    case over
    then have "t = taken" "k = (kept @ [e]) @ b" using 2(4) by (auto simp: take_loop_full)
    with over show ?thesis by (auto intro!: exI [of _ 0])
  next
    case pass
    then have "t = taken \<and> filter (\<lambda>e. wanted (pb_channel e)) k = filter (\<lambda>e. wanted (pb_channel e)) (kept @ [e]) @ ?w
        \<and> filter (\<lambda>e. \<not> wanted (pb_channel e)) k = filter (\<lambda>e. \<not> wanted (pb_channel e)) (kept @ [e] @ b)"
    proof -
      have stuck: "full \<or> mx \<le> length taken \<Longrightarrow>
          take_loop wanted mx budget cost b taken kept spent full = (taken, kept @ b)" for b kept
        by (induction b arbitrary: kept) auto
      have "take_loop wanted mx budget cost (e # b) taken kept spent full = (taken, kept @ e # b)"
        by (rule stuck [OF pass(1)])
      with 2(4) have "t = taken" "k = kept @ e # b" by auto
      then show ?thesis by simp
    qed
    with pass show ?thesis by (auto intro!: exI [of _ 0])
  next
    case other
    with 2 show ?thesis by auto
  qed
qed

lemma mset_filter_split:
  "filter P k = xs \<Longrightarrow> filter (\<lambda>x. \<not> P x) k = ys \<Longrightarrow> mset k = mset xs + mset ys"
  by (metis mset_filter multiset_partition)

lemma take_loop_mset:
  assumes "take_loop wanted mx budget cost b taken kept spent full = (t, k)"
  shows "mset t + mset k = mset taken + mset kept + mset b"
proof -
  let ?W = "\<lambda>e. wanted (pb_channel e)"
  from take_loop_split [OF assms] obtain n where t: "t = taken @ take n (filter ?W b)"
    and k: "filter ?W k = filter ?W kept @ drop n (filter ?W b)"
      "filter (\<lambda>e. \<not> ?W e) k = filter (\<lambda>e. \<not> ?W e) (kept @ b)" by blast
  have "mset (filter ?W b) = mset (take n (filter ?W b)) + mset (drop n (filter ?W b))"
    by (metis append_take_drop_id mset_append)
  moreover have "mset b = mset (filter ?W b) + mset (filter (\<lambda>e. \<not> ?W e) b)"
    "mset kept = mset (filter ?W kept) + mset (filter (\<lambda>e. \<not> ?W e) kept)"
    by (rule mset_filter_split; simp)+
  ultimately show ?thesis using mset_filter_split [OF k] by (simp add: t del: mset_filter)
qed

lemma take_loop_budget:
  "take_loop wanted mx budget cost b taken kept spent full = (t, k) \<Longrightarrow> spent = sum_list (map cost taken) \<Longrightarrow>
    length taken \<le> mx \<Longrightarrow> length taken \<le> 1 \<or> spent \<le> budget \<Longrightarrow>
    length t \<le> mx \<and> (length t \<le> 1 \<or> sum_list (map cost t) \<le> budget)"
  by (induction wanted mx budget cost b taken kept spent full rule: take_loop.induct)
    (auto split: if_splits)

lemma take_loop_maximal:
  "take_loop wanted mx budget cost b taken kept spent False = (t, k) \<Longrightarrow> spent = sum_list (map cost taken) \<Longrightarrow>
    filter (\<lambda>e. wanted (pb_channel e)) kept = [] \<or> mx \<le> length taken \<Longrightarrow>
    filter (\<lambda>e. wanted (pb_channel e)) k \<noteq> [] \<Longrightarrow>
    mx \<le> length t \<or> (t \<noteq> [] \<and> budget < sum_list (map cost t) + cost (hd (filter (\<lambda>e. wanted (pb_channel e)) k)))"
proof (induction b arbitrary: taken kept spent)
  case Nil
  then show ?case by auto
next
  case (Cons e b)
  show ?case
  proof (cases "length taken < mx \<and> wanted (pb_channel e)")
    case True
    show ?thesis
    proof (cases "taken = [] \<or> spent + cost e \<le> budget")
      case fits: True
      with True Cons.prems(1)
      have "take_loop wanted mx budget cost b (taken @ [e]) kept (spent + cost e) False = (t, k)" by simp
      from Cons.IH [OF this] True Cons.prems show ?thesis by auto
    next
      case False
      with True Cons.prems have "t = taken" "k = (kept @ [e]) @ b" by (auto simp: take_loop_full)
      with False True Cons.prems show ?thesis by auto
    qed
  next
    case False
    with Cons.prems(1) have rec: "take_loop wanted mx budget cost b taken (kept @ [e]) spent False = (t, k)"
      by (auto split: if_splits)
    from Cons.IH [OF rec] False Cons.prems show ?thesis by auto
  qed
qed

lemma drain_loop_mset:
  assumes "drain_loop wanted mx b [] [] = (r, k)"
  shows "mset b = mset r + mset k"
proof -
  let ?W = "\<lambda>e. wanted (pb_channel e)"
  from drain_loop_spec [OF assms] have r: "r = take mx (filter ?W b)"
    and k: "filter ?W k = drop mx (filter ?W b)" "filter (\<lambda>e. \<not> ?W e) k = filter (\<lambda>e. \<not> ?W e) b"
    by auto
  have "mset (filter ?W b) = mset r + mset (drop mx (filter ?W b))"
    unfolding r by (metis append_take_drop_id mset_append)
  moreover have "mset b = mset (filter ?W b) + mset (filter (\<lambda>e. \<not> ?W e) b)"
    by (rule mset_filter_split; simp)
  ultimately show ?thesis using mset_filter_split [OF k] by (simp del: mset_filter)
qed

lemma fold_push_front: "fold (\<lambda>blob b. blob # b) (rev xs) b = xs @ b"
  by (induction xs arbitrary: b) auto

section \<open>Enqueue\<close>

definition evicted_from :: "bytes \<Rightarrow> enqueue_outcome \<Rightarrow> bytes" where
  "evicted_from sub out = (case out of QueuedEvictingFullest s _ \<Rightarrow> s | _ \<Rightarrow> sub)"

definition evicted_entry :: "bytes \<Rightarrow> enqueue_outcome \<Rightarrow> pending_blob option \<Rightarrow> (bytes \<times> pending_blob) list" where
  "evicted_entry sub out ev = (case ev of None \<Rightarrow> [] | Some old \<Rightarrow> [(evicted_from sub out, old)])"

lemma pop_oldest_some:
  assumes "hkeys_distinct m" and "pop_oldest_of_fullest m = Some ((s, old), m')"
  shows "mset (queue_owned m) = add_mset (s, old) (mset (queue_owned m')) \<and> hkeys_distinct m'
    \<and> (\<exists>b. hget m s = Some (old # b) \<and> bucket_of m' s = b)"
proof -
  from assms(2) obtain n t b where max: "hget m s = Some (old # b)"
    and m': "m' = (if b = [] then hdel s m else hput s b m)"
    by (auto simp: pop_oldest_of_fullest_def split: option.splits list.splits)
  have "mset (queue_owned m') + mset (map (Pair s) [old]) = mset (queue_owned m)"
    unfolding m' by (rule mset_queue_shrink [OF assms(1) max]) simp
  then have "mset (queue_owned m) = add_mset (s, old) (mset (queue_owned m'))" by simp
  moreover have "bucket_of m' s = b" by (simp add: m' bucket_of_def hmap_simps)
  ultimately show ?thesis using max assms(1) by (auto simp: m' hm.inv_put hm.inv_del)
qed

lemma evict_for_enqueue_cases:
  assumes "evict_for_enqueue sub cap q = Some (evicted, out, m)"
  obtains (oldest) old b where "hget (dq_queue q) sub = Some (old # b)" and "cap \<le> length (old # b)"
      and "evicted = Some old" and "out = QueuedEvictingOldest (pb_channel old)"
      and "m = hput sub b (dq_queue q)"
  | (fullest) s old where "\<not> bucket_full sub cap q" and "dq_global_limit q \<le> total_len q"
      and "pop_oldest_of_fullest (dq_queue q) = Some ((s, old), m)"
      and "evicted = Some old" and "out = QueuedEvictingFullest s (pb_channel old)"
  | (none) "\<not> bucket_full sub cap q" and "total_len q < dq_global_limit q"
      and "evicted = None" and "out = Queued" and "m = dq_queue q"
proof (cases "bucket_full sub cap q")
  case True
  then obtain old b where b: "hget (dq_queue q) sub = Some (old # b)" "cap \<le> length (old # b)"
    by (auto simp: bucket_full_def neq_Nil_conv split: option.splits)
  with True assms have "evicted = Some old" "out = QueuedEvictingOldest (pb_channel old)"
      "m = hput sub b (dq_queue q)"
    by (auto simp: evict_for_enqueue_def)
  with b oldest show thesis by blast
next
  case False
  show thesis
  proof (cases "dq_global_limit q \<le> total_len q")
    case True
    show thesis
    proof (cases "pop_oldest_of_fullest (dq_queue q)")
      case None
      with True False assms show thesis by (simp add: evict_for_enqueue_def)
    next
      case (Some x)
      obtain s old m' where "x = ((s, old), m')" by (metis surj_pair)
      with Some True False assms fullest show thesis by (simp add: evict_for_enqueue_def)
    qed
  next
    case le: False
    with False assms none show thesis by (simp add: evict_for_enqueue_def)
  qed
qed

lemma evict_for_enqueue_some:
  assumes keys: "dq_keys q" and ev: "evict_for_enqueue sub cap q = Some (evicted, out, m)"
  shows "mset (queue_owned (dq_queue q)) = mset (evicted_entry sub out evicted) + mset (queue_owned m)
    \<and> hkeys_distinct m \<and> out \<noteq> RefusedGlobalLimit"
proof -
  from keys have d: "hkeys_distinct (dq_queue q)" by (simp add: dq_keys_def)
  from ev show ?thesis
  proof (cases rule: evict_for_enqueue_cases)
    case (oldest old b)
    have "mset (queue_owned (hput sub b (dq_queue q))) + mset (map (Pair sub) (old # b))
        = mset (queue_owned (dq_queue q)) + mset (map (Pair sub) b)"
      using mset_queue_put [of sub b "dq_queue q"] oldest(1) by simp
    then have "mset (queue_owned (dq_queue q)) = add_mset (sub, old) (mset (queue_owned m))"
      using oldest(5) by simp
    with oldest d show ?thesis by (simp add: evicted_entry_def evicted_from_def hm.inv_put)
  next
    case (fullest s old)
    from pop_oldest_some [OF d fullest(3)] fullest(4,5) show ?thesis
      by (simp add: evicted_entry_def evicted_from_def)
  next
    case none
    with d show ?thesis by (simp add: evicted_entry_def)
  qed
qed

text \<open>
  What an enqueue that was not refused did: the entries before, less the one evicted, plus
  one new entry at the back of the subscriber's bucket under a fresh ticket.
\<close>

lemma enqueue_some:
  assumes keys: "dq_keys q" and enq: "enqueue nid r t sub chan blob cap q = (out, q')"
    and out: "out \<noteq> RefusedGlobalLimit"
  obtains evicted m i where "evict_for_enqueue sub cap q = Some (evicted, out, m)"
    and "i = (case dq_db q of None \<Rightarrow> 0 | Some rows \<Rightarrow> if r = StatementFailed then 0
          else nid (case evicted of Some old \<Rightarrow> if pb_id old \<noteq> 0 then delete_row (pb_id old) rows else rows
            | None \<Rightarrow> rows))"
    and "q' = q\<lparr>dq_queue := hput sub (bucket_of m sub @ [\<lparr>pb_channel = chan, pb_blob = blob,
             pb_enqueued_at = t, pb_id = i, pb_ticket = dq_next_ticket q\<rparr>]) m,
           dq_next_ticket := Suc (dq_next_ticket q),
           dq_db := write_all r (\<lambda>rows. insert_row i sub chan blob t
             (case evicted of Some old \<Rightarrow> if pb_id old \<noteq> 0 then delete_row (pb_id old) rows else rows
              | None \<Rightarrow> rows)) (dq_db q)\<rparr>"
proof (cases "evict_for_enqueue sub cap q")
  case None
  with enq out show ?thesis by (simp add: enqueue_def)
next
  case (Some e)
  obtain evicted o' m where e: "e = (evicted, o', m)" by (cases e)
  with Some enq have "o' = out" by (simp add: enqueue_def Let_def)
  with Some e enq show ?thesis
    by (intro that [of evicted m]) (auto simp: enqueue_def Let_def bucket_of_def)
qed

lemma enqueue_fields:
  assumes keys: "dq_keys q" and enq: "enqueue nid r t sub chan blob cap q = (out, q')"
    and out: "out \<noteq> RefusedGlobalLimit"
  obtains evicted m i where "evict_for_enqueue sub cap q = Some (evicted, out, m)"
    and "dq_queue q' = hput sub (bucket_of m sub @ [\<lparr>pb_channel = chan, pb_blob = blob,
           pb_enqueued_at = t, pb_id = i, pb_ticket = dq_next_ticket q\<rparr>]) m"
    and "dq_held q' = dq_held q" and "dq_next_page q' = dq_next_page q"
    and "dq_next_ticket q' = Suc (dq_next_ticket q)" and "dq_in_flight q' = dq_in_flight q"
    and "dq_global_limit q' = dq_global_limit q"
    and "i = (case dq_db q of None \<Rightarrow> 0 | Some rows \<Rightarrow> if r = StatementFailed then 0
          else nid (case evicted of Some old \<Rightarrow> if pb_id old \<noteq> 0 then delete_row (pb_id old) rows else rows
            | None \<Rightarrow> rows))"
    and "dq_db q' = write_one r (\<lambda>rows. insert_row i sub chan blob t
             (case evicted of Some old \<Rightarrow> if pb_id old \<noteq> 0 then delete_row (pb_id old) rows else rows
              | None \<Rightarrow> rows)) (dq_db q)"
proof -
  from enqueue_some [OF keys enq out] obtain evicted m i where
      ev: "evict_for_enqueue sub cap q = Some (evicted, out, m)"
    and i: "i = (case dq_db q of None \<Rightarrow> 0 | Some rows \<Rightarrow> if r = StatementFailed then 0
          else nid (case evicted of Some old \<Rightarrow> if pb_id old \<noteq> 0 then delete_row (pb_id old) rows else rows
            | None \<Rightarrow> rows))"
    and q': "q' = q\<lparr>dq_queue := hput sub (bucket_of m sub @ [\<lparr>pb_channel = chan, pb_blob = blob,
             pb_enqueued_at = t, pb_id = i, pb_ticket = dq_next_ticket q\<rparr>]) m,
           dq_next_ticket := Suc (dq_next_ticket q),
           dq_db := write_all r (\<lambda>rows. insert_row i sub chan blob t
             (case evicted of Some old \<Rightarrow> if pb_id old \<noteq> 0 then delete_row (pb_id old) rows else rows
              | None \<Rightarrow> rows)) (dq_db q)\<rparr>"
    by blast
  show thesis by (rule that [OF ev _ _ _ _ _ _ i]) (simp_all add: q')
qed

lemma enqueue_refused: "enqueue nid r t sub chan blob cap q = (RefusedGlobalLimit, q') \<Longrightarrow> dq_keys q \<Longrightarrow> q' = q"
  using evict_for_enqueue_some [of q sub cap]
  by (fastforce simp: enqueue_def Let_def split: option.splits)

lemma enqueue_owned:
  assumes keys: "dq_keys q" and enq: "enqueue nid r t sub chan blob cap q = (out, q')"
    and out: "out \<noteq> RefusedGlobalLimit"
  obtains evicted i where "mset (evicted_entry sub out evicted) + mset (owned q') = mset (owned q) +
      {#(sub, \<lparr>pb_channel = chan, pb_blob = blob, pb_enqueued_at = t, pb_id = i, pb_ticket = dq_next_ticket q\<rparr>)#}"
    and "evict_for_enqueue sub cap q \<noteq> None" and "dq_held q' = dq_held q"
proof -
  obtain evicted m i
    where ev: "evict_for_enqueue sub cap q = Some (evicted, out, m)"
      and q': "dq_queue q' = hput sub (bucket_of m sub @ [\<lparr>pb_channel = chan, pb_blob = blob,
           pb_enqueued_at = t, pb_id = i, pb_ticket = dq_next_ticket q\<rparr>]) m" "dq_held q' = dq_held q"
    by (rule enqueue_fields [OF keys enq out]) (rule that, assumption+)
  let ?new = "(sub, \<lparr>pb_channel = chan, pb_blob = blob, pb_enqueued_at = t, pb_id = i, pb_ticket = dq_next_ticket q\<rparr>)"
  have "mset (queue_owned (dq_queue q')) = mset (queue_owned m) + {#?new#}"
    using mset_queue_put [of sub "bucket_of m sub @ [snd ?new]" m] by (simp add: q' mset_map)
  with evict_for_enqueue_some [OF keys ev] have "mset (evicted_entry sub out evicted) + mset (owned q')
      = mset (owned q) + {#?new#}"
    by (simp add: owned_def q')
  with ev q' that show ?thesis by blast
qed

section \<open>Operations entries leave by\<close>

text \<open>
  \<open>dq_leaves r q gone q'\<close>: the entries \<open>gone\<close> left the queue, nothing came, and their rows
  (those that were stored) are what the transaction \<open>r\<close> deletes.
\<close>

definition stored_ids :: "(bytes \<times> pending_blob) list \<Rightarrow> int set" where
  "stored_ids gone = {i \<in> (\<lambda>e. pb_id (snd e)) ` set gone. i \<noteq> 0}"

lemma stored_ids_simps [simp]: "stored_ids [] = {}"
  "stored_ids (map (Pair s) xs) = {i \<in> pb_id ` set xs. i \<noteq> 0}"
  by (simp_all add: stored_ids_def image_image)

definition dq_leaves :: "txn \<Rightarrow> deferred_queue \<Rightarrow> (bytes \<times> pending_blob) list \<Rightarrow> deferred_queue \<Rightarrow> bool" where
  "dq_leaves r q gone q' \<longleftrightarrow> mset (owned q) = mset gone + mset (owned q') \<and>
     dq_next_ticket q' = dq_next_ticket q \<and> dq_in_flight q' \<subseteq> dq_in_flight q \<and>
     dq_global_limit q' = dq_global_limit q \<and> dq_keys q' \<and>
     dq_db q' = write_one r (filter (\<lambda>row. dr_id row \<notin> stored_ids gone)) (dq_db q)"

lemma write_one_filter_True [simp]: "write_one r (filter (\<lambda>x. True)) db = db"
  by (cases db; cases r) simp_all

lemma leaves_tickets: "dq_leaves r q gone q' \<Longrightarrow> dq_tickets q \<Longrightarrow> dq_tickets q'"
  by (rule dq_tickets_shrink) (auto simp: dq_leaves_def)

lemma leaves_mirror:
  assumes leaves: "dq_leaves Committed q gone q'" and mirror: "dq_mirror q"
  shows "dq_mirror q'"
proof (cases "dq_db q")
  case None
  with leaves show ?thesis by (simp add: dq_leaves_def dq_mirror_def)
next
  case (Some rows)
  from leaves have own: "mset (owned q) = mset gone + mset (owned q')" by (simp add: dq_leaves_def)
  then have sub: "set gone \<subseteq> set (owned q)" by (metis mset_append mset_eq_setD set_append sup_ge1)
  have "\<forall>e \<in> set gone. pb_id (snd e) \<noteq> 0"
  proof
    fix e assume "e \<in> set gone"
    with sub have "e \<in> set (owned q)" by blast
    from dq_mirror_ids [OF mirror Some this] show "pb_id (snd e) \<noteq> 0" by simp
  qed
  then have "stored_ids gone = (\<lambda>e. pb_id (snd e)) ` set gone"
    by (auto simp: stored_ids_def)
  with leaves Some have "dq_db q' = Some (filter (\<lambda>row. dr_id row \<notin> (\<lambda>e. pb_id (snd e)) ` set gone) rows)"
    by (simp add: dq_leaves_def)
  from dq_mirror_delete [OF mirror Some own this] show ?thesis .
qed

lemma delete_rows_db:
  "dq_db (delete_rows r removed q) = write_one r
     (filter (\<lambda>row. dr_id row \<notin> stored_ids (map (Pair s) removed))) (dq_db q)"
proof -
  have "fold (\<lambda>pb rows. delete_row (pb_id pb) rows) (filter (\<lambda>pb. pb_id pb \<noteq> 0) removed)
      = filter (\<lambda>row. dr_id row \<notin> pb_id ` set (filter (\<lambda>pb. pb_id pb \<noteq> 0) removed))"
    by (rule ext) (rule fold_delete_row)
  moreover have "pb_id ` set (filter (\<lambda>pb. pb_id pb \<noteq> 0) removed) = stored_ids (map (Pair s) removed)" by auto
  ultimately show ?thesis unfolding delete_rows_def write_all_eq by simp
qed

lemma delete_rows_frame [simp]:
  "dq_queue (delete_rows r removed q) = dq_queue q" "dq_held (delete_rows r removed q) = dq_held q"
  "dq_next_page (delete_rows r removed q) = dq_next_page q"
  "dq_next_ticket (delete_rows r removed q) = dq_next_ticket q"
  "dq_in_flight (delete_rows r removed q) = dq_in_flight q"
  "dq_global_limit (delete_rows r removed q) = dq_global_limit q"
  "owned (delete_rows r removed q) = owned q" "dq_keys (delete_rows r removed q) = dq_keys q"
  by (simp_all add: delete_rows_def owned_def dq_keys_def)

lemma delete_if_any_frame [simp]:
  "dq_queue (delete_if_any r removed q) = dq_queue q" "dq_held (delete_if_any r removed q) = dq_held q"
  "dq_next_page (delete_if_any r removed q) = dq_next_page q"
  "dq_next_ticket (delete_if_any r removed q) = dq_next_ticket q"
  "dq_in_flight (delete_if_any r removed q) = dq_in_flight q"
  "dq_global_limit (delete_if_any r removed q) = dq_global_limit q"
  "owned (delete_if_any r removed q) = owned q" "dq_keys (delete_if_any r removed q) = dq_keys q"
  by (simp_all add: delete_if_any_def)

lemma delete_if_any_db:
  "dq_db (delete_if_any r removed q) = write_one r
     (filter (\<lambda>row. dr_id row \<notin> stored_ids (map (Pair s) removed))) (dq_db q)"
proof (cases "removed = []")
  case True
  then show ?thesis by (simp add: delete_if_any_def)
next
  case False
  then show ?thesis unfolding delete_if_any_def using delete_rows_db [of r removed q s] by simp
qed

text \<open>A bucket split into what leaves and what stays: the shape of every drain.\<close>

lemma leaves_bucket:
  assumes keys: "dq_keys q" and b: "hget (dq_queue q) sub = Some b" and split: "mset b = mset removed + mset kept"
    and q': "q' = delete_if_any r removed
      (q\<lparr>dq_queue := (if kept = [] then hdel sub (dq_queue q) else hput sub kept (dq_queue q))\<rparr>)"
  shows "dq_leaves r q (map (Pair sub) removed) q'"
proof -
  from keys have d: "hkeys_distinct (dq_queue q)" by (simp add: dq_keys_def)
  from mset_queue_shrink [OF d b split] have "mset (owned q) = mset (map (Pair sub) removed) + mset (owned q')"
    by (simp add: q' owned_def add.commute)
  moreover have "dq_keys q'" using keys by (auto simp: q' dq_keys_def hm.inv_put hm.inv_del)
  moreover have "dq_db q' = write_one r (filter (\<lambda>row. dr_id row \<notin>
      stored_ids (map (Pair sub) removed))) (dq_db q)"
    using delete_if_any_db [of r removed "q\<lparr>dq_queue := (if kept = [] then hdel sub (dq_queue q) else hput sub kept (dq_queue q))\<rparr>" sub]
    by (simp add: q')
  ultimately show ?thesis by (simp add: dq_leaves_def q')
qed

lemma leaves_nothing: "dq_keys q \<Longrightarrow> dq_leaves r q [] q"
  by (simp add: dq_leaves_def)

lemma drain_leaves:
  assumes "dq_keys q" and "drain r sub q = (removed, q')"
  shows "dq_leaves r q (map (Pair sub) removed) q' \<and> removed = bucket_of (dq_queue q) sub"
proof (cases "hget (dq_queue q) sub")
  case None
  then have "hdel sub (dq_queue q) = dq_queue q" by (simp add: hdel_absent map_of_eq_None_iff)
  with None assms leaves_nothing show ?thesis by (simp add: drain_def delete_if_any_def)
next
  case (Some b)
  with assms(2) have "removed = b" "q' = delete_if_any r b (q\<lparr>dq_queue := hdel sub (dq_queue q)\<rparr>)"
    by (auto simp: drain_def)
  with Some leaves_bucket [OF assms(1) Some, of b "[]" q' r] show ?thesis by simp
qed

lemma drain_batch_leaves:
  assumes "dq_keys q" and "drain_batch r sub mx q = (removed, q')"
  shows "dq_leaves r q (map (Pair sub) removed) q' \<and> removed = take mx (bucket_of (dq_queue q) sub)"
proof (cases "hget (dq_queue q) sub")
  case None
  with assms leaves_nothing show ?thesis by (simp add: drain_batch_def)
next
  case (Some b)
  let ?n = "min (length b) mx"
  have split: "mset b = mset (take ?n b) + mset (drop ?n b)"
    by (metis append_take_drop_id mset_append)
  have "take ?n b = take mx b" by (simp add: min_def)
  with Some assms(2) leaves_bucket [OF assms(1) Some split, of q' r] show ?thesis
    by (auto simp: drain_batch_def Let_def)
qed

lemma drain_matching_leaves:
  assumes "dq_keys q" and "drain_matching_batch r sub wanted mx q = (removed, q')"
  shows "dq_leaves r q (map (Pair sub) removed) q' \<and>
    removed = take mx (filter (\<lambda>e. wanted (pb_channel e)) (bucket_of (dq_queue q) sub)) \<and>
    filter (\<lambda>e. \<not> wanted (pb_channel e)) (bucket_of (dq_queue q') sub) =
      filter (\<lambda>e. \<not> wanted (pb_channel e)) (bucket_of (dq_queue q) sub) \<and>
    filter (\<lambda>e. wanted (pb_channel e)) (bucket_of (dq_queue q') sub) =
      drop mx (filter (\<lambda>e. wanted (pb_channel e)) (bucket_of (dq_queue q) sub))"
proof (cases "hget (dq_queue q) sub")
  case None
  with assms leaves_nothing show ?thesis by (simp add: drain_matching_batch_def)
next
  case (Some b)
  obtain rem kept where loop: "drain_loop wanted mx b [] [] = (rem, kept)" by (cases "drain_loop wanted mx b [] []")
  with Some assms(2) have rem: "removed = rem" and q': "q' = delete_if_any r rem
      (q\<lparr>dq_queue := (if kept = [] then hdel sub (dq_queue q) else hput sub kept (dq_queue q))\<rparr>)"
    by (auto simp: drain_matching_batch_def)
  have "bucket_of (dq_queue q') sub = kept" by (simp add: q' bucket_of_def hmap_simps)
  with drain_loop_spec [OF loop] Some rem leaves_bucket [OF assms(1) Some drain_loop_mset [OF loop] q']
  show ?thesis by simp
qed

lemma take_page_leaves:
  assumes keys: "dq_keys q" and take: "take_page sub wanted mx budget cost q = ((i, page), q')"
  shows "dq_leaves r q [] q'"
proof (cases "hget (dq_queue q) sub")
  case None
  with assms leaves_nothing show ?thesis by (simp add: take_page_def)
next
  case (Some b)
  from keys have d: "hkeys_distinct (dq_queue q)" and fresh: "hget (dq_held q) (dq_next_page q) = None"
    by (auto simp: dq_keys_def map_of_eq_None_iff)
  obtain taken kept where loop: "take_loop wanted mx budget cost b [] [] 0 False = (taken, kept)"
    by (cases "take_loop wanted mx budget cost b [] [] 0 False")
  let ?m = "if kept = [] then hdel sub (dq_queue q) else hput sub kept (dq_queue q)"
  have own: "mset (queue_owned ?m) + mset (map (Pair sub) taken) = mset (queue_owned (dq_queue q))"
    by (rule mset_queue_shrink [OF d Some]) (use take_loop_mset [OF loop] in simp)
  have m: "hkeys_distinct ?m" using d by (simp add: hm.inv_put hm.inv_del)
  show ?thesis
  proof (cases "taken = []")
    case True
    with Some loop take have "q' = q\<lparr>dq_queue := ?m\<rparr>" by (simp add: take_page_def)
    with own m True keys show ?thesis by (simp add: dq_leaves_def owned_def dq_keys_def)
  next
    case False
    let ?h = "hput (dq_next_page q) \<lparr>hp_subscriber = sub, hp_blobs = taken\<rparr> (dq_held q)"
    from False Some loop take have q': "q' = q\<lparr>dq_queue := ?m, dq_next_page := Suc (dq_next_page q), dq_held := ?h\<rparr>"
      by (auto simp: take_page_def Let_def)
    have "mset (held_owned ?h) = mset (held_owned (dq_held q)) + mset (map (Pair sub) taken)"
      using mset_held_put_new [OF fresh, of "\<lparr>hp_subscriber = sub, hp_blobs = taken\<rparr>"] by simp
    with own have "mset (owned q) = mset (owned q')" by (simp add: owned_def q' add.commute add.left_commute)
    moreover have "fst ` set ?h = insert (dq_next_page q) (fst ` set (dq_held q))"
      by (simp add: hput_new [OF fresh])
    then have "dq_keys q'" using keys m by (auto simp: q' dq_keys_def hm.inv_put)
    ultimately show ?thesis by (simp add: dq_leaves_def q')
  qed
qed

lemma settle_leaves:
  assumes keys: "dq_keys q" and settle: "settle_page r i proved q = (res, q')"
  shows "\<exists>gone. dq_leaves r q gone q' \<and> (gone = [] \<or> proved)"
proof (cases "hget (dq_held q) i")
  case None
  with assms leaves_nothing show ?thesis by (auto simp: settle_page_def)
next
  case (Some page)
  from keys have d: "hkeys_distinct (dq_held q)" by (simp add: dq_keys_def)
  let ?gone = "map (Pair (hp_subscriber page)) (hp_blobs page)"
  let ?h = "hdel i (dq_held q)"
  have own: "mset (held_owned (dq_held q)) = mset (held_owned ?h) + mset ?gone"
    by (rule mset_held_del [OF d Some])
  have hk: "hkeys_distinct ?h" "set ?h \<subseteq> set (dq_held q)"
    using d by (auto simp: hm.inv_del set_hdel)
  show ?thesis
  proof (cases proved)
    case True
    with Some settle have q': "q' = delete_rows r (hp_blobs page) (q\<lparr>dq_held := ?h\<rparr>)"
      by (simp add: settle_page_def Let_def)
    have "mset (owned q) = mset ?gone + mset (owned q')" using own by (simp add: owned_def q')
    moreover have "dq_keys q'" using keys hk by (auto simp: q' dq_keys_def)
    moreover have "dq_db q' = write_one r (filter (\<lambda>row. dr_id row \<notin>
        stored_ids ?gone)) (dq_db q)"
      using delete_rows_db [of r "hp_blobs page" "q\<lparr>dq_held := ?h\<rparr>" "hp_subscriber page"] by (simp add: q')
    ultimately have "dq_leaves r q ?gone q'" by (simp add: dq_leaves_def q')
    with True show ?thesis by blast
  next
    case False
    let ?s = "hp_subscriber page"
    let ?m = "hput ?s (hp_blobs page @ bucket_of (dq_queue q) ?s) (dq_queue q)"
    from False Some settle have q': "q' = q\<lparr>dq_held := ?h, dq_queue := ?m\<rparr>"
      by (simp add: settle_page_def Let_def fold_push_front bucket_of_def)
    have "mset (queue_owned ?m) = mset (queue_owned (dq_queue q)) + mset ?gone"
      using mset_queue_put [of ?s "hp_blobs page @ bucket_of (dq_queue q) ?s" "dq_queue q"] by simp
    with own have "mset (owned q) = mset (owned q')" by (simp add: owned_def q')
    moreover have "dq_keys q'" using keys hk by (auto simp: q' dq_keys_def hm.inv_put)
    ultimately have "dq_leaves r q [] q'" by (simp add: dq_leaves_def q')
    then show ?thesis by blast
  qed
qed

end
