(* ===== verification/DeferredQueue_Runs.thy ===== *)
theory DeferredQueue_Runs
  imports DeferredQueue_Steps
begin

text \<open>
  The remaining operations of the deferred queue seen from their entries (confirm, release,
  expiry, the announce flush, loading), the step relation \<open>dq_step\<close> that is any operation
  with any argument, and the invariants of every reachable queue by rule induction.
\<close>

section \<open>Confirm\<close>

lemma remove_at_split:
  assumes "position p b = Some j"
  shows "mset b = mset [b ! j] + mset (remove_at j b)" and "p (b ! j)"
  using position_Some [OF assms] remove_at_mset [of j b] by auto

lemma fst_confirm_held: "map fst (snd (confirm_held sub ticket h)) = map fst h"
  by (induction h) (auto split: option.splits prod.splits)

lemma confirm_held_mset:
  "confirm_held sub ticket h = (e, h') \<Longrightarrow>
    mset (held_owned h) = mset (map (Pair sub) (case e of None \<Rightarrow> [] | Some x \<Rightarrow> [x])) + mset (held_owned h')
    \<and> (\<forall>x. e = Some x \<longrightarrow> pb_ticket x = ticket)"
proof (induction h arbitrary: e h')
  case Nil
  then show ?case by auto
next
  case (Cons ip h)
  obtain i page where ip: "ip = (i, page)" by (cases ip)
  obtain e2 h2 where rec: "confirm_held sub ticket h = (e2, h2)" by (cases "confirm_held sub ticket h")
  show ?case
  proof (cases "hp_subscriber page = sub \<and> position (\<lambda>e. pb_ticket e = ticket) (hp_blobs page) \<noteq> None")
    case True
    then obtain j where j: "position (\<lambda>e. pb_ticket e = ticket) (hp_blobs page) = Some j" by auto
    with True Cons.prems ip have "e = Some (hp_blobs page ! j)"
      "h' = (i, page\<lparr>hp_blobs := remove_at j (hp_blobs page)\<rparr>) # h" by auto
    with True ip remove_at_split [OF j] show ?thesis by (simp add: mset_map)
  next
    case False
    with Cons.prems rec ip have "e = e2" "h' = (i, page) # h2" by (auto split: option.splits if_splits)
    with Cons.IH [OF rec] ip show ?thesis by (auto simp: add.commute add.left_commute)
  qed
qed

lemma confirm_held_None:
  "confirm_held sub ticket h = (None, h') \<Longrightarrow> h' = h \<and> (sub, ticket) \<notin> (\<lambda>e. (fst e, ticket_of e)) ` set (held_owned h)"
proof (induction h arbitrary: h')
  case (Cons ip h)
  obtain i page where ip: "ip = (i, page)" by (cases ip)
  obtain e2 h2 where rec: "confirm_held sub ticket h = (e2, h2)" by (cases "confirm_held sub ticket h")
  with Cons.prems ip have "e2 = None" "h' = (i, page) # h2"
      and "hp_subscriber page = sub \<Longrightarrow> position (\<lambda>e. pb_ticket e = ticket) (hp_blobs page) = None"
    by (auto split: option.splits if_splits)
  with Cons.IH rec ip show ?case by (auto simp: position_None_iff)
qed simp

text \<open>What \<open>confirm\<close> takes out: at most one entry, of this subscriber and with this ticket.\<close>

lemma confirm_leaves:
  assumes keys: "dq_keys q" and con: "confirm r sub ticket q = (found, q')"
  obtains gone where "dq_leaves r q (map (Pair sub) gone) q'" and "found \<longleftrightarrow> gone \<noteq> []"
    and "length gone \<le> 1" and "\<forall>e \<in> set gone. pb_ticket e = ticket"
proof -
  from keys have d: "hkeys_distinct (dq_queue q)" and dh: "hkeys_distinct (dq_held q)"
    by (simp_all add: dq_keys_def)
  let ?b = "bucket_of (dq_queue q) sub"
  let ?pos = "position (\<lambda>e. pb_ticket e = ticket) ?b"
  let ?drop = "\<lambda>b'. if b' = [] then hdel sub (dq_queue q) else hput sub b' (dq_queue q)"
  show thesis
  proof (cases ?pos)
    case (Some j)
    then obtain b where b: "hget (dq_queue q) sub = Some b" by (cases "hget (dq_queue q) sub") auto
    from con b Some have q': "q' = delete_rows r [?b ! j] (q\<lparr>dq_in_flight := dq_in_flight q - {ticket},
          dq_queue := ?drop (remove_at j ?b)\<rparr>)" and found
      by (auto simp: confirm_def Let_def)
    note sp = remove_at_split [OF Some]
    from sp(1) b have "mset b = mset [?b ! j] + mset (remove_at j ?b)" by simp
    from mset_queue_shrink [OF d b this] have own: "mset (owned q) = mset (map (Pair sub) [?b ! j]) + mset (owned q')"
      by (simp add: q' owned_def)
    have "dq_keys q'" using keys by (auto simp: q' dq_keys_def hm.inv_put hm.inv_del)
    moreover have "dq_db q' = write_one r (filter (\<lambda>row. dr_id row \<notin> stored_ids (map (Pair sub) [?b ! j]))) (dq_db q)"
      unfolding q' by (subst delete_rows_db [of _ _ _ sub]) simp
    ultimately have "dq_leaves r q (map (Pair sub) [?b ! j]) q'" using own by (auto simp: dq_leaves_def q')
    with \<open>found\<close> sp(2) that show thesis by force
  next
    case None
    obtain e h where ch: "confirm_held sub ticket (dq_held q) = (e, h)"
      by (cases "confirm_held sub ticket (dq_held q)")
    let ?m = "case hget (dq_queue q) sub of None \<Rightarrow> dq_queue q | Some b \<Rightarrow> ?drop b"
    let ?gone = "case e of None \<Rightarrow> [] | Some x \<Rightarrow> [x]"
    let ?q1 = "q\<lparr>dq_in_flight := dq_in_flight q - {ticket}, dq_queue := ?m, dq_held := h\<rparr>"
    from con None ch have q': "q' = (case e of None \<Rightarrow> ?q1 | Some x \<Rightarrow> delete_rows r [x] ?q1)"
        and found: "found \<longleftrightarrow> e \<noteq> None"
      by (auto simp: confirm_def Let_def bucket_of_def split: option.splits)
    have m: "mset (queue_owned ?m) = mset (queue_owned (dq_queue q))" and dm: "hkeys_distinct ?m"
      using d mset_queue_shrink [OF d, of sub _ "[]"] by (auto simp: hm.inv_put hm.inv_del split: option.splits)
    from fst_confirm_held [of sub ticket "dq_held q"] ch have fh: "map fst h = map fst (dq_held q)" by simp
    then have "fst ` set h = fst ` set (dq_held q)" by (metis set_map)
    with fh dm keys have k1: "dq_keys ?q1" by (simp add: dq_keys_def hkeys_distinct_def)
    from confirm_held_mset [OF ch] m have own: "mset (owned q) = mset (map (Pair sub) ?gone) + mset (owned ?q1)"
      by (simp add: owned_def add.commute add.left_commute)
    have "dq_leaves r q (map (Pair sub) ?gone) q'"
    proof (cases e)
      case None
      with own k1 q' show ?thesis by (auto simp: dq_leaves_def)
    next
      case (Some x)
      have "dq_db q' = write_one r (filter (\<lambda>row. dr_id row \<notin> stored_ids (map (Pair sub) [x]))) (dq_db q)"
        using delete_rows_db [of r "[x]" ?q1 sub] q' Some by simp
      with own k1 q' Some show ?thesis by (auto simp: dq_leaves_def)
    qed
    moreover have "\<forall>x \<in> set ?gone. pb_ticket x = ticket"
      using confirm_held_mset [OF ch] by (cases e) auto
    ultimately show thesis using found that [of ?gone] by (cases e) auto
  qed
qed

lemma confirm_absent:
  assumes "confirm r sub ticket q = (False, q')"
  shows "(sub, ticket) \<notin> (\<lambda>e. (fst e, ticket_of e)) ` set (map (Pair sub) (bucket_of (dq_queue q) sub) @ held_owned (dq_held q))"
proof -
  let ?b = "bucket_of (dq_queue q) sub"
  have "position (\<lambda>e. pb_ticket e = ticket) ?b = None"
    using assms by (auto simp: confirm_def Let_def bucket_of_def split: option.splits prod.splits)
  moreover have "fst (confirm_held sub ticket (dq_held q)) = None"
    using assms by (auto simp: confirm_def Let_def split: option.splits prod.splits)
  then have "(sub, ticket) \<notin> (\<lambda>e. (fst e, ticket_of e)) ` set (held_owned (dq_held q))"
    using confirm_held_None [of sub ticket "dq_held q"] by (metis prod.collapse)
  ultimately show ?thesis by (auto simp: position_None_iff)
qed

section \<open>Expiry, flush, release\<close>

lemma flush_release_owned [simp]:
  "owned (snd (flush_copies sub wanted q)) = owned q" "dq_db (snd (flush_copies sub wanted q)) = dq_db q"
  "dq_keys (snd (flush_copies sub wanted q)) = dq_keys q"
  "owned (snd (release sub ticket q)) = owned q" "dq_db (snd (release sub ticket q)) = dq_db q"
  "dq_keys (snd (release sub ticket q)) = dq_keys q"
  by (simp_all add: flush_copies_def release_def owned_def dq_keys_def Let_def split: option.splits)

lemma release_leaves: "dq_keys q \<Longrightarrow> dq_leaves r q [] (snd (release sub ticket q))"
  by (auto simp: dq_leaves_def release_def owned_def dq_keys_def)

lemma bucket_entry_owned: "e \<in> set (bucket_of (dq_queue q) sub) \<Longrightarrow> (sub, e) \<in> set (owned q)"
  by (cases "hget (dq_queue q) sub") (auto simp: owned_def queue_owned_def dest!: hget_mem)

lemma flush_tickets:
  assumes "dq_tickets q"
  shows "dq_tickets (snd (flush_copies sub wanted q))"
proof (cases "hget (dq_queue q) sub")
  case None
  with assms show ?thesis by (simp add: flush_copies_def)
next
  case (Some b)
  then have "\<forall>e \<in> set b. pb_ticket e < dq_next_ticket q"
    using bucket_entry_owned [of _ q sub] assms by (fastforce simp: dq_tickets_def)
  with Some assms show ?thesis
    by (auto simp: flush_copies_def dq_tickets_def owned_def Let_def)
qed

lemma expired_split:
  "mset (queue_owned m) = mset (expired_owned th m) +
     mset (queue_owned (filter (\<lambda>(_, b). b \<noteq> []) (map (\<lambda>(s, b). (s, filter (\<lambda>e. th \<le> pb_enqueued_at e) b)) m)))"
proof (induction m)
  case (Cons p m)
  obtain s b where p: "p = (s, b)" by (cases p)
  have "mset b = mset (filter (\<lambda>e. \<not> th \<le> pb_enqueued_at e) b) + mset (filter (\<lambda>e. th \<le> pb_enqueued_at e) b)"
    by (metis mset_filter multiset_partition add.commute)
  then have "mset (map (Pair s) b) = mset (map (Pair s) (filter (\<lambda>e. \<not> th \<le> pb_enqueued_at e) b))
      + mset (map (Pair s) (filter (\<lambda>e. th \<le> pb_enqueued_at e) b))"
    by (metis mset_map image_mset_union)
  with Cons.IH p show ?case
    by (cases "filter (\<lambda>e. th \<le> pb_enqueued_at e) b = []") (auto simp: expired_owned_def)
qed (simp add: expired_owned_def)

lemma evict_expired_leaves:
  assumes keys: "dq_keys q" and ex: "evict_expired r t max_age q = (lost, q')"
  shows "dq_leaves r q (expired_owned (t - max_age) (dq_queue q)) q'"
proof -
  let ?th = "t - max_age" let ?gone = "expired_owned ?th (dq_queue q)"
  let ?m = "filter (\<lambda>(_, b). b \<noteq> []) (map (\<lambda>(s, b). (s, filter (\<lambda>e. ?th \<le> pb_enqueued_at e) b)) (dq_queue q))"
  let ?ids = "map (\<lambda>(s, e). pb_id e) ?gone"
  from ex have q': "q' = (if ?gone \<noteq> [] then q\<lparr>dq_queue := ?m,
        dq_db := write_all r (fold delete_row (filter (\<lambda>i. i \<noteq> 0) ?ids)) (dq_db q)\<rparr> else q\<lparr>dq_queue := ?m\<rparr>)"
    by (auto simp: evict_expired_def Let_def)
  have own: "mset (owned q) = mset ?gone + mset (owned q')"
    using expired_split [of "dq_queue q" ?th] by (simp add: q' owned_def)
  have "map fst (map (\<lambda>(s, b). (s, filter (\<lambda>e. ?th \<le> pb_enqueued_at e) b)) (dq_queue q)) = map fst (dq_queue q)"
    by auto
  then have "hkeys_distinct ?m" using keys
    by (metis (no_types, lifting) distinct_map_filter dq_keys_def hkeys_distinct_def)
  with keys have k: "dq_keys q'" by (auto simp: q' dq_keys_def)
  have "set (filter (\<lambda>i. i \<noteq> 0) ?ids) = stored_ids ?gone" by (force simp: stored_ids_def)
  moreover have "fold delete_row (filter (\<lambda>i. i \<noteq> 0) ?ids) =
      (\<lambda>rows. filter (\<lambda>row. dr_id row \<notin> set (filter (\<lambda>i. i \<noteq> 0) ?ids)) rows)"
    by (rule ext) (rule fold_delete_ids)
  ultimately have "dq_db q' = write_one r (filter (\<lambda>row. dr_id row \<notin> stored_ids ?gone)) (dq_db q)"
    by (cases "?gone = []") (simp_all add: q')
  with own k show ?thesis by (simp add: dq_leaves_def q')
qed

section \<open>Enqueue keeps the invariants\<close>

lemma evict_owned_subset:
  assumes "dq_keys q" and "evict_for_enqueue sub cap q = Some (evicted, out, m)"
  shows "mset (owned q) = mset (evicted_entry sub out evicted) + mset (owned (q\<lparr>dq_queue := m\<rparr>))"
  using evict_for_enqueue_some [OF assms] by (simp add: owned_def)

lemma enqueue_keys:
  assumes keys: "dq_keys q" and enq: "enqueue nid r t sub chan blob cap q = (out, q')"
  shows "dq_keys q'"
proof (cases "out = RefusedGlobalLimit")
  case True
  with enqueue_refused [of nid r t sub chan blob cap q q'] enq keys show ?thesis by simp
next
  case False
  obtain evicted m i where
      ev: "evict_for_enqueue sub cap q = Some (evicted, out, m)" and
      q': "dq_queue q' = hput sub (bucket_of m sub @ [\<lparr>pb_channel = chan, pb_blob = blob,
           pb_enqueued_at = t, pb_id = i, pb_ticket = dq_next_ticket q\<rparr>]) m"
        "dq_held q' = dq_held q" "dq_next_page q' = dq_next_page q"
    by (rule enqueue_fields [OF keys enq False]) (rule that, assumption+)
  from evict_for_enqueue_some [OF keys ev] keys q' show ?thesis by (simp add: dq_keys_def hm.inv_put)
qed

lemma tickets_fresh_put:
  assumes "dq_tickets q" and "mset (owned q') = add_mset e (mset kept)" and "mset kept \<subseteq># mset (owned q)"
    and "ticket_of e = dq_next_ticket q" and "dq_next_ticket q' = Suc (dq_next_ticket q)"
    and "dq_in_flight q' = dq_in_flight q"
  shows "dq_tickets q'"
proof -
  obtain ex where ex: "mset (owned q) = mset (kept @ ex)"
    using assms(3) by (metis ex_mset mset_append mset_subset_eq_exists_conv)
  then have sub: "set kept \<subseteq> set (owned q)" by (metis mset_eq_setD set_append sup_ge1)
  from ex have "mset (map ticket_of (owned q)) = mset (map ticket_of (kept @ ex))" by (simp add: mset_map)
  then have "distinct (map ticket_of (owned q)) \<longleftrightarrow> distinct (map ticket_of (kept @ ex))"
    by (rule mset_eq_imp_distinct_iff)
  with assms(1) have dk: "distinct (map ticket_of kept)" by (simp add: dq_tickets_def)
  have "mset (map ticket_of (owned q')) = mset (map ticket_of (e # kept))"
    using assms(2) by (simp add: mset_map)
  then have "distinct (map ticket_of (owned q')) \<longleftrightarrow> distinct (map ticket_of (e # kept))"
    by (rule mset_eq_imp_distinct_iff)
  with dk sub assms have "distinct (map ticket_of (owned q'))" by (fastforce simp: dq_tickets_def)
  moreover have "set (owned q') = insert e (set kept)"
    using assms(2) by (metis list.simps(15) mset.simps(2) mset_eq_setD)
  ultimately show ?thesis using assms sub by (fastforce simp: dq_tickets_def)
qed

lemma enqueue_tickets:
  assumes keys: "dq_keys q" and tickets: "dq_tickets q" and enq: "enqueue nid r t sub chan blob cap q = (out, q')"
  shows "dq_tickets q'"
proof (cases "out = RefusedGlobalLimit")
  case True
  with enqueue_refused [of nid r t sub chan blob cap q q'] enq keys tickets show ?thesis by simp
next
  case False
  obtain evicted m i where
      ev: "evict_for_enqueue sub cap q = Some (evicted, out, m)" and
      q': "dq_queue q' = hput sub (bucket_of m sub @ [\<lparr>pb_channel = chan, pb_blob = blob,
           pb_enqueued_at = t, pb_id = i, pb_ticket = dq_next_ticket q\<rparr>]) m"
        "dq_held q' = dq_held q" "dq_next_ticket q' = Suc (dq_next_ticket q)" "dq_in_flight q' = dq_in_flight q"
    by (rule enqueue_fields [OF keys enq False]) (rule that, assumption+)
  let ?new = "(sub, \<lparr>pb_channel = chan, pb_blob = blob, pb_enqueued_at = t, pb_id = i, pb_ticket = dq_next_ticket q\<rparr>)"
  have "mset (owned q') = add_mset ?new (mset (owned (q\<lparr>dq_queue := m\<rparr>)))"
    using mset_queue_put [of sub "bucket_of m sub @ [snd ?new]" m] by (simp add: q' owned_def mset_map)
  moreover have "mset (owned (q\<lparr>dq_queue := m\<rparr>)) \<subseteq># mset (owned q)"
    using evict_owned_subset [OF keys ev] by simp
  ultimately show ?thesis using tickets_fresh_put [OF tickets] q' by force
qed

lemma insert_mirror:
  assumes mirror: "dq_mirror q" and db: "dq_db q = Some rows" and fresh: "rowid_spec nid"
    and own: "mset (owned q') = add_mset (sub, \<lparr>pb_channel = chan, pb_blob = blob, pb_enqueued_at = t,
       pb_id = nid rows, pb_ticket = k\<rparr>) (mset (owned q))"
    and db': "dq_db q' = Some (insert_row (nid rows) sub chan blob t rows)"
  shows "dq_mirror q'"
proof -
  have "\<forall>r \<in> set rows. dr_id r < nid rows" "0 < nid rows" using fresh by (auto simp: rowid_spec_def)
  moreover from mirror db have "mset rows = mset (map row_of (owned q))" "distinct (map dr_id rows)"
      "\<forall>r \<in> set rows. 0 < dr_id r"
    by (auto simp: dq_mirror_def)
  ultimately show ?thesis using own db'
    by (auto simp: dq_mirror_def insert_row_def mset_map row_of_def)
qed

lemma enqueue_mirror:
  assumes keys: "dq_keys q" and mirror: "dq_mirror q" and fresh: "rowid_spec nid"
    and enq: "enqueue nid Committed t sub chan blob cap q = (out, q')"
  shows "dq_mirror q'"
proof (cases "out = RefusedGlobalLimit")
  case True
  with enqueue_refused [of nid Committed t sub chan blob cap q q'] enq keys mirror show ?thesis by simp
next
  case False
  obtain evicted m i where ev: "evict_for_enqueue sub cap q = Some (evicted, out, m)"
    and q': "dq_queue q' = hput sub (bucket_of m sub @ [\<lparr>pb_channel = chan, pb_blob = blob,
           pb_enqueued_at = t, pb_id = i, pb_ticket = dq_next_ticket q\<rparr>]) m" "dq_held q' = dq_held q"
    and i: "i = (case dq_db q of None \<Rightarrow> 0 | Some rows \<Rightarrow> if Committed = StatementFailed then 0
          else nid (case evicted of Some old \<Rightarrow> if pb_id old \<noteq> 0 then delete_row (pb_id old) rows else rows
            | None \<Rightarrow> rows))"
    and db': "dq_db q' = write_one Committed (\<lambda>rows. insert_row i sub chan blob t
             (case evicted of Some old \<Rightarrow> if pb_id old \<noteq> 0 then delete_row (pb_id old) rows else rows
              | None \<Rightarrow> rows)) (dq_db q)"
    by (rule enqueue_fields [OF keys enq False]) (rule that, assumption+)
  show ?thesis
  proof (cases "dq_db q")
    case None
    with db' show ?thesis by (simp add: dq_mirror_def)
  next
    case (Some rows)
    let ?rows = "case evicted of Some old \<Rightarrow> if pb_id old \<noteq> 0 then delete_row (pb_id old) rows else rows | None \<Rightarrow> rows"
    let ?gone = "evicted_entry sub out evicted"
    let ?q1 = "q\<lparr>dq_queue := m, dq_db := Some ?rows\<rparr>"
    have own1: "mset (owned q) = mset ?gone + mset (owned ?q1)"
      using evict_owned_subset [OF keys ev] by (simp add: owned_def)
    have m1: "dq_mirror ?q1"
    proof (cases evicted)
      case None
      with own1 mirror Some show ?thesis by (simp add: dq_mirror_def evicted_entry_def mset_map)
    next
      case (Some old)
      with own1 have "(evicted_from sub out, old) \<in> set (owned q)"
        by (simp add: evicted_entry_def) (metis union_single_eq_member set_mset_mset)
      from dq_mirror_ids [OF mirror \<open>dq_db q = Some rows\<close> this] have "0 < pb_id old" by simp
      with Some have "?rows = filter (\<lambda>r. dr_id r \<notin> (\<lambda>e. pb_id (snd e)) ` set ?gone) rows"
        by (simp add: delete_row_def evicted_entry_def)
      then have "dq_db ?q1 = Some (filter (\<lambda>r. dr_id r \<notin> (\<lambda>e. pb_id (snd e)) ` set ?gone) rows)"
        by simp
      from dq_mirror_delete [OF mirror \<open>dq_db q = Some rows\<close> own1 this] show ?thesis .
    qed
    show ?thesis
    proof (rule insert_mirror [OF m1 _ fresh])
      show "dq_db ?q1 = Some ?rows" by simp
      show "dq_db q' = Some (insert_row (nid ?rows) sub chan blob t ?rows)" using db' i Some by simp
      have i': "i = nid ?rows" using i Some by simp
      show "mset (owned q') = add_mset (sub, \<lparr>pb_channel = chan, pb_blob = blob, pb_enqueued_at = t,
         pb_id = nid ?rows, pb_ticket = dq_next_ticket q\<rparr>) (mset (owned ?q1))"
        using mset_queue_put [of sub "bucket_of m sub @ [\<lparr>pb_channel = chan, pb_blob = blob, pb_enqueued_at = t,
            pb_id = nid ?rows, pb_ticket = dq_next_ticket q\<rparr>]" m]
        unfolding i' [symmetric] by (simp add: owned_def q' mset_map)
    qed
  qed
qed

section \<open>Loading\<close>

lemma ticket_bucket_row [simp]: "map (\<lambda>e. row_of (s, e)) (ticket_bucket n b) = map (\<lambda>e. row_of (s, e)) b"
  by (induction n b rule: ticket_bucket.induct) (auto simp: row_of_def)

lemma ticket_bucket_tickets [simp]: "map pb_ticket (ticket_bucket n b) = [n..<n + length b]"
proof (induction n b rule: ticket_bucket.induct)
  case (2 n pb b)
  then show ?case by (simp add: upt_conv_Cons del: upt_Suc)
qed simp

lemma length_ticket_bucket [simp]: "length (ticket_bucket n b) = length b"
  by (induction n b rule: ticket_bucket.induct) auto

lemma ticket_buckets_facts:
  "ticket_buckets n m = (m', n') \<Longrightarrow> map fst m' = map fst m \<and> n \<le> n' \<and>
    map row_of (queue_owned m') = map row_of (queue_owned m) \<and>
    map ticket_of (queue_owned m') = [n..<n'] \<and>
    (\<forall>s. map (\<lambda>e. row_of (s, e)) (bucket_of m' s) = map (\<lambda>e. row_of (s, e)) (bucket_of m s))"
proof (induction n m arbitrary: m' n' rule: ticket_buckets.induct)
  case (1 n)
  then show ?case by simp
next
  case (2 n s b m)
  obtain m2 n2 where rec: "ticket_buckets (n + length b) m = (m2, n2)"
    by (cases "ticket_buckets (n + length b) m")
  with 2(2) have eq: "m' = (s, ticket_bucket n b) # m2" "n' = n2" by auto
  from 2(1) [OF rec] have IH: "map fst m2 = map fst m" "n + length b \<le> n2"
      "map row_of (queue_owned m2) = map row_of (queue_owned m)"
      "map ticket_of (queue_owned m2) = [n + length b..<n2]"
      "\<forall>s. map (\<lambda>e. row_of (s, e)) (bucket_of m2 s) = map (\<lambda>e. row_of (s, e)) (bucket_of m s)" by auto
  have "[n..<n2] = [n..<n + length b] @ [n + length b..<n2]"
    using IH(2) upt_add_eq_append [of n "n + length b" "n2 - (n + length b)"] by simp
  moreover have "map ticket_of (map (Pair s) (ticket_bucket n b)) = [n..<n + length b]"
    using ticket_bucket_tickets [of n b] by (simp add: comp_def)
  moreover have "\<forall>s'. map (\<lambda>e. row_of (s', e)) (bucket_of m' s') = map (\<lambda>e. row_of (s', e)) (bucket_of ((s, b) # m) s')"
    using IH(5) by (auto simp: eq bucket_of_def)
  ultimately show ?case using IH by (auto simp: eq comp_def)
qed

lemma read_row_owned:
  "mset (map row_of (queue_owned (read_row r m))) = add_mset r (mset (map row_of (queue_owned m)))"
proof -
  have b: "(case hget m (dr_subscriber r) of None \<Rightarrow> [] | Some b \<Rightarrow> b) = bucket_of m (dr_subscriber r)"
    by (simp add: bucket_of_def)
  let ?e = "\<lparr>pb_channel = dr_channel r, pb_blob = dr_blob r, pb_enqueued_at = dr_enqueued_at r,
         pb_id = dr_id r, pb_ticket = 0\<rparr>"
  have "mset (queue_owned (read_row r m)) = add_mset (dr_subscriber r, ?e) (mset (queue_owned m))"
    unfolding read_row_def b using mset_queue_put [of "dr_subscriber r" "bucket_of m (dr_subscriber r) @ [?e]" m]
    by (simp add: mset_map)
  then show ?thesis by (simp add: mset_map row_of_def)
qed

lemma read_rows_owned:
  "mset (map row_of (queue_owned (fold read_row rows m))) = mset rows + mset (map row_of (queue_owned m))"
proof (induction rows arbitrary: m)
  case (Cons r rows)
  then show ?case using read_row_owned [of r m] by simp
qed simp

lemma read_row_bucket:
  "map (\<lambda>e. row_of (s, e)) (bucket_of (read_row r m) s) =
    map (\<lambda>e. row_of (s, e)) (bucket_of m s) @ (if dr_subscriber r = s then [r] else [])"
  by (auto simp: read_row_def bucket_of_def row_of_def hmap_simps split: option.splits)

lemma read_rows_bucket:
  "map (\<lambda>e. row_of (s, e)) (bucket_of (fold read_row rows m) s) =
    map (\<lambda>e. row_of (s, e)) (bucket_of m s) @ filter (\<lambda>r. dr_subscriber r = s) rows"
  by (induction rows arbitrary: m) (auto simp: read_row_bucket)

lemma read_rows_keys: "hkeys_distinct m \<Longrightarrow> hkeys_distinct (fold read_row rows m)"
  by (induction rows arbitrary: m) (auto simp: read_row_def hm.inv_put)

lemma legacy_push_keys: "hkeys_distinct m \<Longrightarrow> hkeys_distinct (fold legacy_push es m)"
  by (induction es arbitrary: m) (auto simp: legacy_push_def hm.inv_put)

lemma import_entries_ids:
  assumes fresh: "rowid_spec nid"
  shows "distinct (map dr_id rows) \<and> (\<forall>r \<in> set rows. 0 < dr_id r) \<Longrightarrow>
    distinct (map dr_id (import_entries nid es rows)) \<and> (\<forall>r \<in> set (import_entries nid es rows). 0 < dr_id r)"
proof (induction es arbitrary: rows)
  case (Cons e es)
  let ?rows = "insert_row (nid rows) (de_subscriber e) (de_channel e) (de_blob e) (de_enqueued_at e) rows"
  have "\<forall>r \<in> set rows. dr_id r < nid rows" "0 < nid rows" using fresh by (auto simp: rowid_spec_def)
  then have "distinct (map dr_id ?rows) \<and> (\<forall>r \<in> set ?rows. 0 < dr_id r)"
    using Cons.prems by (auto simp: insert_row_def)
  from Cons.IH [OF this] show ?case by (simp add: import_entries_def)
qed (simp add: import_entries_def)

text \<open>A queue right after \<open>load\<close>: its database, if it has one, has distinct positive row ids.\<close>

definition sound_rows :: "deferred_row list option \<Rightarrow> bool" where
  "sound_rows opened \<longleftrightarrow> (case opened of None \<Rightarrow> True
     | Some rows \<Rightarrow> distinct (map dr_id rows) \<and> (\<forall>r \<in> set rows. 0 < dr_id r))"

lemma load_cases:
  obtains (disk) rows m n where "opened = Some rows"
      and "ticket_buckets 1 (read_all reads (fst (import_legacy r (import_entries nid) legacy rows))) = (m, n)"
      and "load nid r reads opened legacy = \<lparr>dq_queue = m, dq_held = [], dq_next_page = 1, dq_next_ticket = n,
            dq_in_flight = {}, dq_db = Some (fst (import_legacy r (import_entries nid) legacy rows)), dq_global_limit = 4096\<rparr>"
  | (memory) es m n where "opened = None"
      and "ticket_buckets 1 (fold legacy_push es []) = (m, n)"
      and "load nid r reads opened legacy = \<lparr>dq_queue = m, dq_held = [], dq_next_page = 1, dq_next_ticket = n,
            dq_in_flight = {}, dq_db = None, dq_global_limit = 4096\<rparr>"
proof (cases opened)
  case None
  let ?es = "case read_legacy legacy of Inr old \<Rightarrow> old | Inl _ \<Rightarrow> []"
  obtain m n where "ticket_buckets 1 (fold legacy_push ?es []) = (m, n)"
    by (cases "ticket_buckets 1 (fold legacy_push ?es [])")
  with None memory show thesis by (simp add: load_def)
next
  case (Some rows)
  let ?m = "read_all reads (fst (import_legacy r (import_entries nid) legacy rows))"
  obtain m n where "ticket_buckets 1 ?m = (m, n)" by (cases "ticket_buckets 1 ?m")
  with Some disk show thesis by (simp add: load_def Let_def)
qed

lemma load_wf: "dq_wf (load nid r reads opened legacy)"
proof -
  have wf: "dq_wf \<lparr>dq_queue = m', dq_held = [], dq_next_page = 1, dq_next_ticket = n,
            dq_in_flight = {}, dq_db = db, dq_global_limit = 4096\<rparr>"
    if "ticket_buckets 1 m = (m', n)" "hkeys_distinct m" for m m' n db
  proof -
    from ticket_buckets_facts [OF that(1)] that(2) have t: "map ticket_of (queue_owned m') = [1..<n]"
        "1 \<le> n" "hkeys_distinct m'" by (auto simp: hkeys_distinct_def)
    then have "set (map ticket_of (queue_owned m')) = {1..<n}" by (metis set_upt)
    then have "\<forall>e \<in> set (queue_owned m'). ticket_of e \<in> {1..<n}" by (metis image_eqI set_map)
    with t show ?thesis by (auto simp: dq_wf_def dq_keys_def dq_tickets_def owned_def hkeys_distinct_def)
  qed
  show ?thesis
  proof (cases rule: load_cases [of opened reads r nid legacy])
    case (disk rows m n)
    have "hkeys_distinct (read_all reads (fst (import_legacy r (import_entries nid) legacy rows)))"
      by (simp add: read_all_def read_rows_keys hm.inv_empty)
    from wf [OF disk(2) this] disk(3) show ?thesis by simp
  next
    case (memory es m n)
    from wf [OF memory(2) legacy_push_keys [OF hm.inv_empty]] memory(3) show ?thesis by simp
  qed
qed

lemma import_legacy_rows:
  "fst (import_legacy r ins legacy rows) = rows \<or>
   (\<exists>v. legacy = Decodes v \<and> r = Committed \<and> fst (import_legacy r ins legacy rows) = ins v rows)"
  by (cases legacy; cases r) auto

lemma load_mirror:
  assumes "rowid_spec nid" and "sound_rows opened"
  shows "dq_mirror (load nid r None opened legacy)"
proof (cases rule: load_cases [of opened None r nid legacy])
  case (disk rows m n)
  let ?rows = "fst (import_legacy r (import_entries nid) legacy rows)"
  have ids: "distinct (map dr_id ?rows) \<and> (\<forall>r \<in> set ?rows. 0 < dr_id r)"
    using import_legacy_rows [of r "import_entries nid" legacy rows] import_entries_ids [OF assms(1)]
      assms(2) disk(1)
    by (auto simp: sound_rows_def)
  have "mset (map row_of (queue_owned m)) = mset (map row_of (queue_owned (read_all None ?rows)))"
    using ticket_buckets_facts [OF disk(2)] by simp
  also have "\<dots> = mset ?rows" using read_rows_owned [of "sort_key dr_id ?rows" "[]"] by (simp add: read_all_def)
  finally show ?thesis using ids disk(3) by (simp add: dq_mirror_def owned_def)
qed (simp add: dq_mirror_def)

section \<open>The steps\<close>

text \<open>
  Any operation of the queue with any argument; \<open>ts\<close> are the results its transactions may
  have.
\<close>

inductive dq_step :: "(deferred_row list \<Rightarrow> int) \<Rightarrow> txn set \<Rightarrow> deferred_queue \<Rightarrow> deferred_queue \<Rightarrow> bool"
  for nid ts where
  step_enqueue: "r \<in> ts \<Longrightarrow> dq_step nid ts q (snd (enqueue nid r t sub chan blob cap q))"
| step_drain: "r \<in> ts \<Longrightarrow> dq_step nid ts q (snd (drain r sub q))"
| step_drain_batch: "r \<in> ts \<Longrightarrow> dq_step nid ts q (snd (drain_batch r sub mx q))"
| step_drain_matching: "r \<in> ts \<Longrightarrow> dq_step nid ts q (snd (drain_matching_batch r sub wanted mx q))"
| step_take_page: "dq_step nid ts q (snd (take_page sub wanted mx budget cost q))"
| step_settle_page: "r \<in> ts \<Longrightarrow> dq_step nid ts q (snd (settle_page r i proved q))"
| step_flush: "dq_step nid ts q (snd (flush_copies sub wanted q))"
| step_confirm: "r \<in> ts \<Longrightarrow> dq_step nid ts q (snd (confirm r sub ticket q))"
| step_release: "dq_step nid ts q (snd (release sub ticket q))"
| step_expire: "r \<in> ts \<Longrightarrow> dq_step nid ts q (snd (evict_expired r t max_age q))"

inductive_cases dq_stepE: "dq_step nid ts q q'"

inductive dq_reach :: "(deferred_row list \<Rightarrow> int) \<Rightarrow> txn set \<Rightarrow> deferred_queue \<Rightarrow> deferred_queue \<Rightarrow> bool"
  for nid ts q where
  reach_start: "dq_reach nid ts q q"
| reach_step: "dq_reach nid ts q q1 \<Longrightarrow> dq_step nid ts q1 q2 \<Longrightarrow> dq_reach nid ts q q2"

text \<open>A step is an enqueue, a flush, or entries leaving under some transaction.\<close>

lemma dq_step_shape:
  assumes keys: "dq_keys q" and step: "dq_step nid ts q q'"
  obtains (enqueued) r t sub chan blob cap where "r \<in> ts" and "q' = snd (enqueue nid r t sub chan blob cap q)"
  | (flushed) sub wanted where "q' = snd (flush_copies sub wanted q)"
  | (left) r gone where "dq_leaves r q gone q'" and "r \<in> ts \<or> gone = []"
  using step
proof (cases rule: dq_step.cases)
  case (step_drain r sub)
  then show thesis using left drain_leaves [OF keys] by (metis prod.collapse)
next
  case (step_drain_batch r sub mx)
  then show thesis using left drain_batch_leaves [OF keys] by (metis prod.collapse)
next
  case (step_drain_matching r sub wanted mx)
  then show thesis using left drain_matching_leaves [OF keys] by (metis prod.collapse)
next
  case (step_take_page sub wanted mx budget cost)
  then show thesis using left take_page_leaves [OF keys] by (metis prod.collapse)
next
  case (step_settle_page r i proved)
  then show thesis using left settle_leaves [OF keys] by (metis prod.collapse)
next
  case (step_confirm r sub ticket)
  then show thesis using left confirm_leaves [OF keys] by (metis prod.collapse)
next
  case (step_release sub ticket)
  then show thesis using left release_leaves [OF keys] by blast
next
  case (step_expire r t max_age)
  then show thesis using left evict_expired_leaves [OF keys] by (metis prod.collapse)
qed (blast intro: enqueued flushed)+

lemma leaves_keys: "dq_leaves r q gone q' \<Longrightarrow> dq_keys q'"
  by (simp add: dq_leaves_def)

lemma step_wf:
  assumes step: "dq_step nid ts q q'" and wf: "dq_wf q"
  shows "dq_wf q'"
proof -
  from wf have keys: "dq_keys q" and tickets: "dq_tickets q" by (simp_all add: dq_wf_def)
  from keys step show ?thesis
  proof (cases rule: dq_step_shape)
    case (enqueued r t sub chan blob cap)
    then show ?thesis using enqueue_keys [OF keys] enqueue_tickets [OF keys tickets]
      unfolding dq_wf_def by (metis prod.collapse)
  next
    case (flushed sub wanted)
    then show ?thesis using keys flush_tickets [OF tickets] by (simp add: dq_wf_def)
  next
    case (left r gone)
    then show ?thesis using leaves_keys leaves_tickets [OF _ tickets] unfolding dq_wf_def by blast
  qed
qed

lemma step_mirror:
  assumes step: "dq_step nid {Committed} q q'" and wf: "dq_wf q" and mirror: "dq_mirror q" and fresh: "rowid_spec nid"
  shows "dq_mirror q'"
proof -
  from wf have keys: "dq_keys q" by (simp_all add: dq_wf_def)
  from keys step show ?thesis
  proof (cases rule: dq_step_shape)
    case (enqueued r t sub chan blob cap)
    then show ?thesis using enqueue_mirror [OF keys mirror fresh] by (metis prod.collapse singletonD)
  next
    case (flushed sub wanted)
    with mirror show ?thesis by (simp only: dq_mirror_def flush_release_owned)
  next
    case (left r gone)
    have "dq_leaves Committed q gone q'"
    proof (cases "gone = []")
      case True
      with left(1) show ?thesis by (simp add: dq_leaves_def)
    qed (use left in simp)
    then show ?thesis by (rule leaves_mirror [OF _ mirror])
  qed
qed

lemma enqueue_len:
  assumes keys: "dq_keys q" and enq: "enqueue nid r t sub chan blob cap q = (out, q')"
  shows "total_len q' = (if out = Queued then Suc (total_len q) else total_len q) \<and>
    (out = Queued \<longrightarrow> total_len q < dq_global_limit q) \<and> dq_global_limit q' = dq_global_limit q"
proof (cases "out = RefusedGlobalLimit")
  case True
  with enqueue_refused [of nid r t sub chan blob cap q q'] enq keys show ?thesis by simp
next
  case False
  obtain evicted m i where ev: "evict_for_enqueue sub cap q = Some (evicted, out, m)"
    and q': "dq_queue q' = hput sub (bucket_of m sub @ [\<lparr>pb_channel = chan, pb_blob = blob,
           pb_enqueued_at = t, pb_id = i, pb_ticket = dq_next_ticket q\<rparr>]) m" "dq_held q' = dq_held q"
      "dq_global_limit q' = dq_global_limit q"
    by (rule enqueue_fields [OF keys enq False]) (rule that, assumption+)
  have "size (mset (queue_owned (dq_queue q'))) = Suc (size (mset (queue_owned m)))"
    using arg_cong [OF mset_queue_put [of sub "bucket_of m sub @ [\<lparr>pb_channel = chan, pb_blob = blob,
           pb_enqueued_at = t, pb_id = i, pb_ticket = dq_next_ticket q\<rparr>]" m], of size] by (simp add: q')
  then have "length (owned q') = Suc (length (owned (q\<lparr>dq_queue := m\<rparr>)))" by (simp add: owned_def q')
  moreover have "length (owned q) = length (evicted_entry sub out evicted) + length (owned (q\<lparr>dq_queue := m\<rparr>))"
    using arg_cong [OF evict_owned_subset [OF keys ev], of size] by simp
  moreover have "length (evicted_entry sub out evicted) = (if out = Queued then 0 else 1) \<and>
      (out = Queued \<longrightarrow> total_len q < dq_global_limit q)"
    using ev by (cases rule: evict_for_enqueue_cases) (auto simp: evicted_entry_def)
  ultimately show ?thesis using False q'(3) by (auto simp: total_len_owned)
qed

lemma leaves_len: "dq_leaves r q gone q' \<Longrightarrow> total_len q' + length gone = total_len q \<and> dq_global_limit q' = dq_global_limit q"
proof -
  assume l: "dq_leaves r q gone q'"
  then have "mset (owned q) = mset gone + mset (owned q')" by (simp add: dq_leaves_def)
  from arg_cong [OF this, of size] l show ?thesis by (simp add: total_len_owned dq_leaves_def)
qed

lemma flush_len [simp]: "total_len (snd (flush_copies sub wanted q)) = total_len q"
  "dq_global_limit (snd (flush_copies sub wanted q)) = dq_global_limit q"
  by (simp add: total_len_owned) (simp add: flush_copies_def Let_def split: option.splits)

lemma step_len:
  assumes step: "dq_step nid ts q q'" and wf: "dq_wf q"
  shows "total_len q' \<le> max (total_len q) (dq_global_limit q) \<and> dq_global_limit q' = dq_global_limit q"
proof -
  from wf have keys: "dq_keys q" by (simp_all add: dq_wf_def)
  from keys step show ?thesis
  proof (cases rule: dq_step_shape)
    case (enqueued r t sub chan blob cap)
    from enqueue_len [OF keys, of nid r t sub chan blob cap "fst (enqueue nid r t sub chan blob cap q)" q']
      enqueued show ?thesis by (auto split: if_splits)
  next
    case (flushed sub wanted)
    then show ?thesis by simp
  next
    case (left r gone)
    from leaves_len [OF left(1)] show ?thesis by auto
  qed
qed

lemma reach_wf: "dq_reach nid ts q q' \<Longrightarrow> dq_wf q \<Longrightarrow> dq_wf q'"
  by (induction rule: dq_reach.induct) (auto intro: step_wf)

lemma reach_mirror:
  "dq_reach nid {Committed} q q' \<Longrightarrow> rowid_spec nid \<Longrightarrow> dq_wf q \<Longrightarrow> dq_mirror q \<Longrightarrow> dq_mirror q'"
  by (induction rule: dq_reach.induct) (auto intro: step_mirror reach_wf)

lemma reach_len:
  "dq_reach nid ts q q' \<Longrightarrow> dq_wf q \<Longrightarrow>
    total_len q' \<le> max (total_len q) (dq_global_limit q) \<and> dq_global_limit q' = dq_global_limit q"
proof (induction rule: dq_reach.induct)
  case (reach_step q1 q2)
  then have "dq_wf q1" by (blast intro: reach_wf)
  from step_len [OF reach_step(2) this] reach_step show ?case by auto
qed simp

end
