(* ===== verification/DeferredQueue_Props.thy ===== *)
theory DeferredQueue_Props
  imports DeferredQueue_Runs
begin

text \<open>
  What the deferred queue promises: the properties of \<open>rfed/src/deferred_queue.rs\<close> and the
  concrete runs they are applied to.
\<close>

section \<open>Facts the properties rest on\<close>

lemma write_all_None: "write_all r f db = None \<longleftrightarrow> db = None"
  by simp

lemma step_db_None: "dq_step nid ts q q' \<Longrightarrow> dq_wf q \<Longrightarrow> dq_db q' = None \<longleftrightarrow> dq_db q = None"
proof -
  assume step: "dq_step nid ts q q'" and "dq_wf q"
  then have keys: "dq_keys q" by (simp add: dq_wf_def)
  from keys step show "dq_db q' = None \<longleftrightarrow> dq_db q = None"
  proof (cases rule: dq_step_shape)
    case (enqueued r t sub chan blob cap)
    then show ?thesis by (auto simp: enqueue_def Let_def split: option.splits prod.splits)
  qed (auto simp: dq_leaves_def)
qed

lemma reach_db_None: "dq_reach nid ts q q' \<Longrightarrow> dq_wf q \<Longrightarrow> dq_db q' = None \<longleftrightarrow> dq_db q = None"
proof (induction rule: dq_reach.induct)
  case (reach_step q1 q2)
  then have "dq_wf q1" by (blast intro: reach_wf)
  with reach_step step_db_None [OF reach_step(2) this] show ?case by simp
qed simp

lemma load_db_Some: "dq_db (load nid r reads (Some rows) legacy) \<noteq> None"
  by (cases rule: load_cases [of "Some rows" reads r nid legacy]) auto

lemma load_limit [simp]: "dq_global_limit (load nid r reads opened legacy) = 4096"
  by (cases rule: load_cases [of opened reads r nid legacy]) auto

lemma reload_owned:
  assumes "dq_mirror q" and "dq_db q = Some rows"
  shows "mset (map row_of (owned (load nid r None (dq_db q) NoFile))) = mset (map row_of (owned q)) \<and>
    (\<forall>s. map (\<lambda>e. row_of (s, e)) (bucket_of (dq_queue (load nid r None (dq_db q) NoFile)) s)
       = filter (\<lambda>row. dr_subscriber row = s) (sort_key dr_id rows))"
proof (cases rule: load_cases [of "dq_db q" None r nid NoFile])
  case (disk rows' m n)
  with assms(2) have [simp]: "rows' = rows" by simp
  from disk(2) have tb: "ticket_buckets 1 (read_all None rows) = (m, n)" by simp
  have "mset (map row_of (queue_owned m)) = mset rows"
    using ticket_buckets_facts [OF tb] read_rows_owned [of "sort_key dr_id rows" "[]"] by (simp add: read_all_def)
  moreover have "\<forall>s. map (\<lambda>e. row_of (s, e)) (bucket_of m s) = filter (\<lambda>row. dr_subscriber row = s) (sort_key dr_id rows)"
    using ticket_buckets_facts [OF tb] read_rows_bucket [of _ "sort_key dr_id rows" "[]"]
    by (simp add: read_all_def)
  moreover have "mset rows = mset (map row_of (owned q))" using assms by (simp add: dq_mirror_def)
  ultimately show ?thesis using disk(3) by (simp add: owned_def)
qed (use assms in simp)

lemma fuller_order: "fuller a b \<Longrightarrow> fuller b c \<Longrightarrow> fuller a c" "fuller a b \<or> fuller b a"
  by (auto simp: fuller_def)

abbreviation heads :: "(bytes, pending_blob list) hmap \<Rightarrow> (bytes \<times> nat \<times> secs) list" where
  "heads m \<equiv> List.map_filter (\<lambda>(s, b). case b of [] \<Rightarrow> None | e # _ \<Rightarrow> Some (s, length b, pb_enqueued_at e)) m"

lemma heads_mem: "(s, e # b) \<in> set m \<Longrightarrow> (s, length (e # b), pb_enqueued_at e) \<in> set (heads m)"
  by (induction m) (auto simp: map_filter_simps split: option.splits list.splits)

lemma heads_memD: "(s, n, t) \<in> set (heads m) \<Longrightarrow>
    \<exists>e b. (s, e # b) \<in> set m \<and> n = length (e # b) \<and> t = pb_enqueued_at e"
  by (force simp: map_filter_def split: list.splits)

lemma max_fuller: "max_by fuller xs = Some x \<Longrightarrow> y \<in> set xs \<Longrightarrow> fuller y x"
  using max_by_ge [of fuller xs x y] fuller_order by blast

lemma pop_oldest_fullest:
  assumes d: "hkeys_distinct m" and pop: "pop_oldest_of_fullest m = Some ((s, old), m')" and other: "hget m s' = Some b'"
  shows "length b' \<le> length (bucket_of m s) \<and>
    (length b' = length (bucket_of m s) \<longrightarrow> pb_enqueued_at old \<le> pb_enqueued_at (hd b'))"
proof (cases b')
  case Nil
  from pop_oldest_some [OF d pop] show ?thesis using Nil by auto
next
  case (Cons e b'')
  from pop obtain n t where max: "max_by fuller (heads m) = Some (s, n, t)"
    by (auto simp: pop_oldest_of_fullest_def split: option.splits list.splits)
  from heads_memD [OF max_by_mem [OF this]] obtain e0 b0
    where sb: "(s, e0 # b0) \<in> set m" "n = length (e0 # b0)" "t = pb_enqueued_at e0" by blast
  with d have "hget m s = Some (e0 # b0)" by (simp add: hget_mem_iff)
  moreover from pop_oldest_some [OF d pop] obtain b where "hget m s = Some (old # b)" by auto
  ultimately have eq: "n = length (bucket_of m s)" "t = pb_enqueued_at old" using sb by auto
  have "(s', length (e # b''), pb_enqueued_at e) \<in> set (heads m)"
    using hget_mem [OF other] Cons heads_mem by simp
  from max_fuller [OF max this] Cons eq show ?thesis by (auto simp: fuller_def)
qed

lemma pop_oldest_none:
  assumes none: "pop_oldest_of_fullest m = None" and d: "hkeys_distinct m" and sb: "(s, b) \<in> set m"
  shows "b = []"
proof (cases b)
  case (Cons e b')
  with heads_mem [of s e b' m] sb have "heads m \<noteq> []" by auto
  then obtain x where "max_by fuller (heads m) = Some x" by (cases "max_by fuller (heads m)") auto
  then obtain s' n t where max: "max_by fuller (heads m) = Some (s', n, t)" by (cases x) auto
  from heads_memD [OF max_by_mem [OF this]] obtain e0 b0 where "(s', e0 # b0) \<in> set m" by blast
  with d have "hget m s' = Some (e0 # b0)" by (simp add: hget_mem_iff)
  with max none show ?thesis by (simp add: pop_oldest_of_fullest_def)
qed

lemma bucket_of_put: "bucket_of (hput s b m) s' = (if s' = s then b else bucket_of m s')"
  by (simp add: bucket_of_def hmap_simps)

lemma bucket_of_del: "bucket_of (hdel s m) s' = (if s' = s then [] else bucket_of m s')"
  by (simp add: bucket_of_def hmap_simps)

lemmas bucket_simps = bucket_of_put bucket_of_del

section \<open>Concrete runs\<close>

text \<open>
  An empty database loaded, two blobs queued for one subscriber (\<open>demo_two\<close>), the first of
  them taken by a pull (\<open>demo_held\<close>): the run the properties are applied to below.
\<close>

definition demo_start :: deferred_queue where
  "demo_start = load max_rowid Committed None (Some []) NoFile"
definition demo_two :: deferred_queue where
  "demo_two = snd (enqueue max_rowid Committed 20 [1] [9] [8] 8 (snd (enqueue max_rowid Committed 10 [1] [9] [7] 8 demo_start)))"

lemma demo_start_eq: "demo_start = \<lparr>dq_queue = [], dq_held = [], dq_next_page = 1, dq_next_ticket = 1,
   dq_in_flight = {}, dq_db = Some [], dq_global_limit = 4096\<rparr>"
  by (simp add: demo_start_def load_def read_all_def)

lemma demo_two_eq: "demo_two = \<lparr>dq_queue = [([1], [\<lparr>pb_channel = [9], pb_blob = [7], pb_enqueued_at = 10, pb_id = 1, pb_ticket = 1\<rparr>,
      \<lparr>pb_channel = [9], pb_blob = [8], pb_enqueued_at = 20, pb_id = 2, pb_ticket = 2\<rparr>])], dq_held = [], dq_next_page = 1, dq_next_ticket = 3,
   dq_in_flight = {}, dq_db = Some [\<lparr>dr_id = 1, dr_subscriber = [1], dr_channel = [9], dr_blob = [7], dr_enqueued_at = 10\<rparr>, \<lparr>dr_id = 2, dr_subscriber = [1], dr_channel = [9], dr_blob = [8], dr_enqueued_at = 20\<rparr>], dq_global_limit = 4096\<rparr>"
  by (simp add: demo_two_def demo_start_eq enqueue_def evict_for_enqueue_def bucket_full_def total_len_def Let_def insert_row_def max_rowid_def)

definition demo_held :: deferred_queue where
  "demo_held = snd (take_page [1] (\<lambda>_. True) 1 100 (\<lambda>_. 10) demo_two)"

lemmas demo_defs = enqueue_def evict_for_enqueue_def bucket_full_def total_len_def Let_def insert_row_def
  max_rowid_def take_page_def settle_page_def confirm_def flush_copies_def evict_expired_def delete_rows_def
  delete_row_def expired_owned_def remove_at_def

lemma demo_take: "take_page [1] (\<lambda>_. True) 1 100 (\<lambda>_. 10) demo_two =
    ((1, [\<lparr>pb_channel = [9], pb_blob = [7], pb_enqueued_at = 10, pb_id = 1, pb_ticket = 1\<rparr>]), demo_held)"
  by (simp add: demo_held_def demo_two_eq demo_defs)

lemma demo_held_eq: "demo_held = demo_two\<lparr>dq_queue := [([1], [\<lparr>pb_channel = [9], pb_blob = [8],
      pb_enqueued_at = 20, pb_id = 2, pb_ticket = 2\<rparr>])], dq_next_page := 2,
    dq_held := [(1, \<lparr>hp_subscriber = [1], hp_blobs = [\<lparr>pb_channel = [9], pb_blob = [7],
      pb_enqueued_at = 10, pb_id = 1, pb_ticket = 1\<rparr>]\<rparr>)]\<rparr>"
  by (simp add: demo_held_def demo_two_eq demo_defs)

lemma demo_two_reach: "dq_reach max_rowid {Committed} demo_start demo_two"
  unfolding demo_two_def
  by (rule reach_step [OF reach_step [OF reach_start step_enqueue] step_enqueue]) simp_all

lemma demo_held_reach: "dq_reach max_rowid {Committed} demo_start demo_held"
  unfolding demo_held_def by (rule reach_step [OF demo_two_reach step_take_page])

lemma demo_wf: "dq_wf demo_start" "dq_wf demo_two" "dq_wf demo_held"
  using reach_wf [OF demo_two_reach] reach_wf [OF demo_held_reach] load_wf
  by (simp_all add: demo_start_def)

lemma demo_mirror: "dq_mirror demo_held"
proof -
  have "dq_mirror demo_start" unfolding demo_start_def
    by (rule load_mirror [OF max_rowid_spec]) (simp add: sound_rows_def)
  from reach_mirror [OF demo_held_reach max_rowid_spec demo_wf(1) this] show ?thesis .
qed

section \<open>Invariants of every run\<close>

text \<open>
  C1: the queue stays well formed and bounded. From any \<open>load\<close>, after any sequence of
  operations whatever their transactions gave, the maps hold one value per key, page ids
  are fresh, no two entries (of buckets and held pages together) share a ticket, and the
  queue never holds more entries than it loaded or than the global limit of 4096.
\<close>

theorem reachable_queue_bounded:
  assumes "dq_reach nid ts (load nid r reads opened legacy) q"
  shows "dq_wf q \<and> total_len q \<le> max (total_len (load nid r reads opened legacy)) 4096"
  using reach_wf [OF assms load_wf] reach_len [OF assms load_wf] by simp

theorem reachable_queue_bounded_witness:
  "dq_wf demo_held \<and> total_len demo_held \<le> max (total_len (load max_rowid Committed None (Some []) NoFile)) 4096"
  by (rule reachable_queue_bounded [OF demo_held_reach [unfolded demo_start_def]])

text \<open>
  C2: a restart loses nothing and doubles nothing. After any committed run of a queue on
  disk, loading its database again gives exactly the rows of the entries the queue owned,
  those of pages a pull still held included, each bucket in the order of its row ids.
\<close>

theorem restart_restores_entries:
  assumes "rowid_spec nid" and "sound_rows (Some rows)"
    and "dq_reach nid {Committed} (load nid r None (Some rows) legacy) q"
  shows "mset (map row_of (owned (load nid r' None (dq_db q) NoFile))) = mset (map row_of (owned q)) \<and>
    (\<forall>s. sorted (map pb_id (bucket_of (dq_queue (load nid r' None (dq_db q) NoFile)) s)))"
proof -
  from reach_mirror [OF assms(3,1) load_wf load_mirror [OF assms(1,2)]] have mirror: "dq_mirror q" .
  from reach_db_None [OF assms(3) load_wf] load_db_Some have "dq_db q \<noteq> None" by blast
  then obtain rows' where db: "dq_db q = Some rows'" by blast
  note reload = reload_owned [OF mirror db, of nid r']
  have "sorted (map pb_id (bucket_of (dq_queue (load nid r' None (dq_db q) NoFile)) s))" for s
  proof -
    have "map pb_id (bucket_of (dq_queue (load nid r' None (dq_db q) NoFile)) s)
        = map dr_id (map (\<lambda>e. row_of (s, e)) (bucket_of (dq_queue (load nid r' None (dq_db q) NoFile)) s))"
      by simp
    also have "\<dots> = map dr_id (filter (\<lambda>row. dr_subscriber row = s) (sort_key dr_id rows'))"
      using reload by metis
    finally show ?thesis by (simp add: sorted_filter)
  qed
  with reload show ?thesis by blast
qed

theorem restart_restores_entries_witness:
  "mset (map row_of (owned (load max_rowid Committed None (dq_db demo_held) NoFile))) = mset (map row_of (owned demo_held))
   \<and> length (owned demo_held) = 2"
  using restart_restores_entries [OF max_rowid_spec _ demo_held_reach [unfolded demo_start_def], of Committed]
  by (simp add: sound_rows_def demo_held_eq demo_two_eq owned_def)

section \<open>One operation at a time\<close>

text \<open>
  C3: what an enqueue does, by outcome. Queued and the two evictions put the new entry at
  the back of the subscriber's bucket under the next ticket; an eviction takes the head of
  the subscriber's own full bucket, or the head of a bucket as full as any (the oldest of
  the heads of the fullest ones); a refusal changes nothing and happens only when the
  limit is reached and every entry is held by a pull.
\<close>

theorem enqueue_by_outcome:
  assumes "dq_wf q" and "enqueue nid r t sub chan blob cap q = (out, q')"
  shows "case out of
      RefusedGlobalLimit \<Rightarrow> q' = q \<and> dq_global_limit q \<le> total_len q \<and> queue_owned (dq_queue q) = []
    | Queued \<Rightarrow> total_len q < dq_global_limit q \<and> (\<exists>i. bucket_of (dq_queue q') = (bucket_of (dq_queue q))
          (sub := bucket_of (dq_queue q) sub @ [\<lparr>pb_channel = chan, pb_blob = blob, pb_enqueued_at = t,
             pb_id = i, pb_ticket = dq_next_ticket q\<rparr>]))
    | QueuedEvictingOldest c \<Rightarrow> cap \<le> length (bucket_of (dq_queue q) sub) \<and>
        (\<exists>i old b. bucket_of (dq_queue q) sub = old # b \<and> c = pb_channel old \<and>
          bucket_of (dq_queue q') = (bucket_of (dq_queue q)) (sub := b @ [\<lparr>pb_channel = chan,
             pb_blob = blob, pb_enqueued_at = t, pb_id = i, pb_ticket = dq_next_ticket q\<rparr>]))
    | QueuedEvictingFullest s c \<Rightarrow> dq_global_limit q \<le> total_len q \<and>
        (\<exists>i old b. bucket_of (dq_queue q) s = old # b \<and> c = pb_channel old \<and>
          (\<forall>s'. length (bucket_of (dq_queue q) s') \<le> length (old # b)) \<and>
          (\<forall>s' e b'. bucket_of (dq_queue q) s' = e # b' \<and> length b' = length b \<longrightarrow>
             pb_enqueued_at old \<le> pb_enqueued_at e) \<and>
          bucket_of (dq_queue q') = (let m = (bucket_of (dq_queue q)) (s := b) in m (sub := m sub @
            [\<lparr>pb_channel = chan, pb_blob = blob, pb_enqueued_at = t, pb_id = i, pb_ticket = dq_next_ticket q\<rparr>])))"
proof (cases "out = RefusedGlobalLimit")
  case True
  from assms(1) have keys: "dq_keys q" by (simp add: dq_wf_def)
  from True assms(2) evict_for_enqueue_some [OF keys] have none: "evict_for_enqueue sub cap q = None"
    by (fastforce simp: enqueue_def Let_def split: option.splits)
  then have "dq_global_limit q \<le> total_len q" "pop_oldest_of_fullest (dq_queue q) = None"
    by (auto simp: evict_for_enqueue_def split: if_splits option.splits list.splits)
  moreover from pop_oldest_none [OF this(2)] keys have "queue_owned (dq_queue q) = []"
    by (fastforce simp: queue_owned_def dq_keys_def)
  moreover from assms(2) True keys enqueue_refused have "q' = q" by blast
  ultimately show ?thesis using True by simp
next
  case False
  from assms(1) have keys: "dq_keys q" by (simp add: dq_wf_def)
  then have d: "hkeys_distinct (dq_queue q)" by (simp add: dq_keys_def)
  obtain evicted m i where ev: "evict_for_enqueue sub cap q = Some (evicted, out, m)"
    and q': "dq_queue q' = hput sub (bucket_of m sub @ [\<lparr>pb_channel = chan, pb_blob = blob,
           pb_enqueued_at = t, pb_id = i, pb_ticket = dq_next_ticket q\<rparr>]) m"
    by (rule enqueue_fields [OF keys assms(2) False]) (rule that, assumption+)
  let ?new = "\<lparr>pb_channel = chan, pb_blob = blob, pb_enqueued_at = t, pb_id = i, pb_ticket = dq_next_ticket q\<rparr>"
  have b': "bucket_of (dq_queue q') = (bucket_of m) (sub := bucket_of m sub @ [?new])"
    by (rule ext) (simp add: q' bucket_simps)
  from ev show ?thesis
  proof (cases rule: evict_for_enqueue_cases)
    case (oldest old b)
    then have "bucket_of m = (bucket_of (dq_queue q)) (sub := b)" by (auto simp: bucket_simps)
    with b' oldest show ?thesis by auto
  next
    case (fullest s old)
    from pop_oldest_some [OF d fullest(3)] obtain b where b: "hget (dq_queue q) s = Some (old # b)" by blast
    from fullest(3) b have "bucket_of m = (bucket_of (dq_queue q)) (s := b)"
      by (auto simp: pop_oldest_of_fullest_def bucket_simps fun_eq_iff split: option.splits list.splits)
    moreover have "length (bucket_of (dq_queue q) s') \<le> length (old # b) \<and>
        (\<forall>e b'. bucket_of (dq_queue q) s' = e # b' \<and> length b' = length b \<longrightarrow>
           pb_enqueued_at old \<le> pb_enqueued_at e)" for s'
      using pop_oldest_fullest [OF d fullest(3), of s'] b
      by (cases "hget (dq_queue q) s'") (auto simp: bucket_of_simps)
    ultimately show ?thesis using b' fullest b by (auto simp: Let_def)
  next
    case none
    with b' show ?thesis by auto
  qed
qed

theorem enqueue_by_outcome_witness:
  "\<exists>i. bucket_of (dq_queue demo_two) [1] @ [\<lparr>pb_channel = [9], pb_blob = [5], pb_enqueued_at = 30, pb_id = i, pb_ticket = 3\<rparr>]
    = bucket_of (dq_queue (snd (enqueue max_rowid Committed 30 [1] [9] [5] 8 demo_two))) [1]"
proof -
  have "fst (enqueue max_rowid Committed 30 [1] [9] [5] 8 demo_two) = Queued" and "dq_next_ticket demo_two = 3"
    by (simp_all add: demo_two_eq demo_defs)
  with enqueue_by_outcome [OF demo_wf(2), of max_rowid Committed 30 "[1]" "[9]" "[5]" 8 Queued
      "snd (enqueue max_rowid Committed 30 [1] [9] [5] 8 demo_two)"]
  obtain i where "bucket_of (dq_queue (snd (enqueue max_rowid Committed 30 [1] [9] [5] 8 demo_two))) =
      (bucket_of (dq_queue demo_two)) ([1] := bucket_of (dq_queue demo_two) [1] @ [\<lparr>pb_channel = [9],
        pb_blob = [5], pb_enqueued_at = 30, pb_id = i, pb_ticket = 3\<rparr>])"
    by (auto simp: prod_eq_iff)
  then show ?thesis by (intro exI [of _ i]) simp
qed

lemma take_page_split:
  assumes keys: "dq_keys q" and take: "take_page sub wanted mx budget cost q = ((i, page), q')"
  obtains "mset (owned q') = mset (owned q)" and "dq_db q' = dq_db q"
    and "filter (\<lambda>e. wanted (pb_channel e)) (bucket_of (dq_queue q) sub) =
           page @ filter (\<lambda>e. wanted (pb_channel e)) (bucket_of (dq_queue q') sub)"
    and "filter (\<lambda>e. \<not> wanted (pb_channel e)) (bucket_of (dq_queue q') sub) =
           filter (\<lambda>e. \<not> wanted (pb_channel e)) (bucket_of (dq_queue q) sub)"
    and "\<forall>s. s \<noteq> sub \<longrightarrow> bucket_of (dq_queue q') s = bucket_of (dq_queue q) s"
    and "page \<noteq> [] \<longrightarrow> hget (dq_held q') i = Some \<lparr>hp_subscriber = sub, hp_blobs = page\<rparr>"
    and "length page \<le> mx" and "length page \<le> 1 \<or> sum_list (map cost page) \<le> budget"
    and "filter (\<lambda>e. wanted (pb_channel e)) (bucket_of (dq_queue q') sub) = [] \<or> length page = mx \<or>
      budget < sum_list (map cost page) + cost (hd (filter (\<lambda>e. wanted (pb_channel e)) (bucket_of (dq_queue q') sub)))"
proof (cases "hget (dq_queue q) sub")
  case None
  with take that show thesis by (simp add: take_page_def)
next
  case (Some b)
  let ?W = "\<lambda>e. wanted (pb_channel e)"
  obtain t k where loop: "take_loop wanted mx budget cost b [] [] 0 False = (t, k)"
    by (cases "take_loop wanted mx budget cost b [] [] 0 False")
  let ?m = "if k = [] then hdel sub (dq_queue q) else hput sub k (dq_queue q)"
  from take Some loop have page: "page = t" and q': "dq_queue q' = ?m"
    and held: "t \<noteq> [] \<longrightarrow> hget (dq_held q') i = Some \<lparr>hp_subscriber = sub, hp_blobs = t\<rparr>"
    by (auto simp: take_page_def Let_def hmap_simps split: if_splits)
  have b': "bucket_of (dq_queue q') sub = k" "\<forall>s. s \<noteq> sub \<longrightarrow> bucket_of (dq_queue q') s = bucket_of (dq_queue q) s"
    by (simp_all add: q' bucket_simps)
  from take_loop_split [OF loop] obtain n where "t = take n (filter ?W b)" "filter ?W k = drop n (filter ?W b)"
      and rest: "filter (\<lambda>e. \<not> ?W e) k = filter (\<lambda>e. \<not> ?W e) b" by auto
  then have split: "filter ?W b = t @ filter ?W k" by simp
  have caps: "length t \<le> mx \<and> (length t \<le> 1 \<or> sum_list (map cost t) \<le> budget)"
    by (rule take_loop_budget [OF loop]) auto
  have "filter ?W k = [] \<or> length t = mx \<or> budget < sum_list (map cost t) + cost (hd (filter ?W k))"
    using take_loop_maximal [OF loop] caps by auto
  with take_page_leaves [OF keys take] that held b' split rest caps Some page show thesis
    by (simp add: dq_leaves_def)
qed

lemma take_loop_at_most: "mx \<le> length taken \<Longrightarrow> take_loop wanted mx budget cost b taken kept spent full = (taken, kept @ b)"
  by (induction b arbitrary: kept) auto

lemma take_loop_place:
  "take_loop wanted mx budget cost b taken kept spent full = (t, k) \<Longrightarrow>
    \<exists>pre post. b = pre @ post \<and> t = taken @ filter (\<lambda>e. wanted (pb_channel e)) pre \<and>
      k = kept @ filter (\<lambda>e. \<not> wanted (pb_channel e)) pre @ post"
proof (induction wanted mx budget cost b taken kept spent full rule: take_loop.induct)
  case (2 wanted mx budget cost e b taken kept spent full)
  consider (stop) "full \<or> mx \<le> length taken" | (skip) "\<not> full" "length taken < mx" "\<not> wanted (pb_channel e)"
    | (take) "\<not> full" "length taken < mx" "wanted (pb_channel e)" "taken = [] \<or> spent + cost e \<le> budget"
    | (over) "\<not> full" "length taken < mx" "wanted (pb_channel e)" "\<not> (taken = [] \<or> spent + cost e \<le> budget)" by linarith
  then show ?case
  proof cases
    case stop
    have "take_loop wanted mx budget cost (e # b) taken kept spent full = (taken, kept @ e # b)"
      using stop take_loop_full take_loop_at_most by (cases full) auto
    with 2(4) show ?thesis by (intro exI [of _ "[]"] exI [of _ "e # b"]) simp
  next
    case skip
    with 2(3,4) obtain pre post where "b = pre @ post" "t = taken @ filter (\<lambda>e. wanted (pb_channel e)) pre"
      "k = (kept @ [e]) @ filter (\<lambda>e. \<not> wanted (pb_channel e)) pre @ post" by auto
    with skip show ?thesis by (intro exI [of _ "e # pre"] exI [of _ post]) simp
  next
    case take
    with 2(1,4) obtain pre post where "b = pre @ post" "t = (taken @ [e]) @ filter (\<lambda>e. wanted (pb_channel e)) pre"
      "k = kept @ filter (\<lambda>e. \<not> wanted (pb_channel e)) pre @ post" by auto
    with take show ?thesis by (intro exI [of _ "e # pre"] exI [of _ post]) simp
  next
    case over
    then show ?thesis using 2(4) take_loop_full by (intro exI [of _ "[]"] exI [of _ "e # b"]) auto
  qed
qed simp

lemma take_page_place:
  assumes "take_page sub wanted mx budget cost q = ((i, page), q')"
  obtains pre post where "bucket_of (dq_queue q) sub = pre @ post" and "page = filter (\<lambda>e. wanted (pb_channel e)) pre"
    and "bucket_of (dq_queue q') sub = filter (\<lambda>e. \<not> wanted (pb_channel e)) pre @ post"
proof (cases "hget (dq_queue q) sub")
  case None
  with assms that [of "[]" "[]"] show thesis by (auto simp: take_page_def bucket_of_def)
next
  case (Some b)
  obtain t k where loop: "take_loop wanted mx budget cost b [] [] 0 False = (t, k)" by (rule prod.exhaust)
  from take_loop_place [OF loop] obtain pre post where "b = pre @ post" "t = filter (\<lambda>e. wanted (pb_channel e)) pre"
    "k = filter (\<lambda>e. \<not> wanted (pb_channel e)) pre @ post" by auto
  moreover from assms Some loop have "page = t" "bucket_of (dq_queue q') sub = k"
    by (auto simp: take_page_def Let_def bucket_simps split: if_splits)
  ultimately show thesis using that Some by simp
qed

text \<open>
  C4: what a page holds. The subscriber's bucket is split at one place: the page is what the pull wants of the
  first part, in order, and the bucket afterwards is the rest of that part, in order, and then the second part
  as it was. The page has at most \<open>mx\<close> entries and is within the byte budget unless it is a single entry, and
  the first entry wanted behind it would have exceeded one or the other. No other bucket changes, and nothing
  leaves the queue or the database.
\<close>

theorem take_page_longest_prefix:
  assumes "dq_wf q" and "take_page sub wanted mx budget cost q = ((i, page), q')"
  shows "(\<exists>pre post. bucket_of (dq_queue q) sub = pre @ post \<and> page = filter (\<lambda>e. wanted (pb_channel e)) pre \<and>
        bucket_of (dq_queue q') sub = filter (\<lambda>e. \<not> wanted (pb_channel e)) pre @ post \<and>
        (filter (\<lambda>e. wanted (pb_channel e)) post = [] \<or> length page = mx \<or>
          budget < sum_list (map cost page) + cost (hd (filter (\<lambda>e. wanted (pb_channel e)) post)))) \<and>
    length page \<le> mx \<and> (length page \<le> 1 \<or> sum_list (map cost page) \<le> budget) \<and>
    (\<forall>s. s \<noteq> sub \<longrightarrow> bucket_of (dq_queue q') s = bucket_of (dq_queue q) s) \<and>
    mset (owned q') = mset (owned q) \<and> dq_db q' = dq_db q \<and>
    (page \<noteq> [] \<longrightarrow> hget (dq_held q') i = Some \<lparr>hp_subscriber = sub, hp_blobs = page\<rparr>)"
proof -
  from assms(1) have keys: "dq_keys q" by (simp add: dq_wf_def)
  obtain pre post where place: "bucket_of (dq_queue q) sub = pre @ post" "page = filter (\<lambda>e. wanted (pb_channel e)) pre"
    "bucket_of (dq_queue q') sub = filter (\<lambda>e. \<not> wanted (pb_channel e)) pre @ post" by (rule take_page_place [OF assms(2)])
  have behind: "filter (\<lambda>e. wanted (pb_channel e)) (bucket_of (dq_queue q') sub) = filter (\<lambda>e. wanted (pb_channel e)) post"
    by (simp add: place(3))
  show ?thesis
    by (rule take_page_split [OF keys assms(2), unfolded behind]) (use place in blast)
qed

theorem take_page_longest_prefix_witness:
  "mset (owned demo_held) = mset (owned demo_two) \<and> dq_db demo_held = dq_db demo_two"
  using take_page_longest_prefix [OF demo_wf(2) demo_take] by blast

text \<open>
  A page whose pull was not proved goes back. Taking a page and settling it unproved
  leaves the held pages and the database as they were, puts the page's entries in front of
  what stayed in the bucket, and when the pull wanted every channel the bucket is exactly
  what it was.
\<close>

theorem unproved_page_returns:
  assumes "dq_wf q" and "take_page sub wanted mx budget cost q = ((i, page), q1)" and "page \<noteq> []"
    and "settle_page r i False q1 = (res, q2)"
  shows "res = Some (sub, length page) \<and> dq_held q2 = dq_held q \<and> dq_db q2 = dq_db q \<and>
    bucket_of (dq_queue q2) sub = page @ bucket_of (dq_queue q1) sub \<and>
    ((\<forall>c. wanted c) \<longrightarrow> bucket_of (dq_queue q2) = bucket_of (dq_queue q))"
proof -
  from assms(1) have keys: "dq_keys q" by (simp add: dq_wf_def)
  from assms(2,3) have i: "i = dq_next_page q"
    and held: "dq_held q1 = hput i \<lparr>hp_subscriber = sub, hp_blobs = page\<rparr> (dq_held q)"
    by (auto simp: take_page_def Let_def split: option.splits prod.splits if_splits)
  have fresh: "hget (dq_held q) i = None" using keys by (auto simp: dq_keys_def i map_of_eq_None_iff)
  then have absent: "i \<notin> fst ` set (dq_held q)" by (simp add: map_of_eq_None_iff)
  have "hdel i (dq_held q1) = dq_held q"
    unfolding held hput_new [OF fresh] using absent
    by (auto simp: AList.delete_eq filter_id_conv image_iff)
  moreover have "hget (dq_held q1) i = Some \<lparr>hp_subscriber = sub, hp_blobs = page\<rparr>" by (simp add: held)
  ultimately have q2: "q2 = q1\<lparr>dq_held := dq_held q, dq_queue := hput sub (page @ bucket_of (dq_queue q1) sub) (dq_queue q1)\<rparr>"
      and res: "res = Some (sub, length page)"
    using assms(4) by (auto simp: settle_page_def Let_def fold_push_front bucket_of_def)
  have db: "dq_db q1 = dq_db q" and others: "\<forall>s. s \<noteq> sub \<longrightarrow> bucket_of (dq_queue q1) s = bucket_of (dq_queue q) s"
    and split: "filter (\<lambda>e. wanted (pb_channel e)) (bucket_of (dq_queue q) sub) =
           page @ filter (\<lambda>e. wanted (pb_channel e)) (bucket_of (dq_queue q1) sub)"
    by (rule take_page_split [OF keys assms(2)], assumption)+
  have "bucket_of (dq_queue q2) = bucket_of (dq_queue q)" if "\<forall>c. wanted c"
    by (rule ext) (use others split that in \<open>auto simp: q2 bucket_simps\<close>)
  with db res show ?thesis by (auto simp: q2 bucket_simps)
qed

theorem unproved_page_returns_witness:
  "bucket_of (dq_queue (snd (settle_page Committed 1 False demo_held))) = bucket_of (dq_queue demo_two)"
  using unproved_page_returns [OF demo_wf(2) demo_take, of Committed "fst (settle_page Committed 1 False demo_held)"
      "snd (settle_page Committed 1 False demo_held)"] by simp

lemma bucket_entry_iff: "dq_keys q \<Longrightarrow>
    (s, e) \<in> set (owned q) \<longleftrightarrow> e \<in> set (bucket_of (dq_queue q) s) \<or> (s, e) \<in> set (held_owned (dq_held q))"
proof -
  assume "dq_keys q"
  then have d: "hkeys_distinct (dq_queue q)" by (simp add: dq_keys_def)
  have "(s, e) \<in> set (queue_owned (dq_queue q)) \<longleftrightarrow> e \<in> set (bucket_of (dq_queue q) s)"
  proof -
    have "(s, e) \<in> set (queue_owned (dq_queue q)) \<longleftrightarrow> (\<exists>b. (s, b) \<in> set (dq_queue q) \<and> e \<in> set b)"
      by (auto simp: queue_owned_def)
    also have "\<dots> \<longleftrightarrow> (\<exists>b. hget (dq_queue q) s = Some b \<and> e \<in> set b)"
      by (simp add: hget_mem_iff [OF d])
    finally show ?thesis by (cases "hget (dq_queue q) s") simp_all
  qed
  then show ?thesis by (simp add: owned_def)
qed

lemma leaves_set:
  assumes tickets: "dq_tickets q" and leaves: "dq_leaves r q gone q'"
  shows "set (owned q') = set (owned q) - set gone"
proof -
  from leaves have own: "mset (owned q) = mset (gone @ owned q')" by (simp add: dq_leaves_def)
  have "distinct (owned q)" using tickets by (auto simp: dq_tickets_def distinct_map)
  with mset_eq_imp_distinct_iff [OF own] have "distinct (gone @ owned q')" by simp
  moreover from own have "set (owned q) = set (gone @ owned q')" by (rule mset_eq_setD)
  ultimately show ?thesis by auto
qed

lemma ticket_names_one:
  "dq_tickets q \<Longrightarrow> x \<in> set (owned q) \<Longrightarrow> y \<in> set (owned q) \<Longrightarrow> ticket_of x = ticket_of y \<Longrightarrow> x = y"
  by (auto simp: dq_tickets_def distinct_map inj_on_def)

text \<open>
  A page settled as proved leaves for good, once. Its entries leave the queue and their
  rows the database, the buckets are as they were, and settling the same page again, proved
  or not, finds nothing and changes nothing.
\<close>

theorem proved_page_leaves_once:
  assumes "dq_wf q" and "dq_mirror q" and "hget (dq_held q) i = Some page"
    and "settle_page Committed i True q = (res, q')"
  shows "res = Some (hp_subscriber page, length (hp_blobs page)) \<and> dq_queue q' = dq_queue q \<and>
    mset (owned q) = mset (map (Pair (hp_subscriber page)) (hp_blobs page)) + mset (owned q') \<and>
    dq_mirror q' \<and> (\<forall>r proved. settle_page r i proved q' = (None, q'))"
proof -
  from assms(1) have keys: "dq_keys q" by (simp add: dq_wf_def)
  then have d: "hkeys_distinct (dq_held q)" by (simp add: dq_keys_def)
  from assms(3,4) have res: "res = Some (hp_subscriber page, length (hp_blobs page))"
    and q': "q' = delete_rows Committed (hp_blobs page) (q\<lparr>dq_held := hdel i (dq_held q)\<rparr>)"
    by (auto simp: settle_page_def Let_def)
  have "hget (dq_held q') i = None" by (simp add: q' hmap_simps)
  then have again: "\<forall>r proved. settle_page r i proved q' = (None, q')" by (simp add: settle_page_def)
  have own: "mset (owned q) = mset (map (Pair (hp_subscriber page)) (hp_blobs page)) + mset (owned q')"
    using mset_held_del [OF d assms(3)] by (simp add: q' owned_def)
  from settle_leaves [OF keys assms(4)] leaves_mirror [OF _ assms(2)] have "dq_mirror q'" by blast
  with res again own show ?thesis by (simp add: q')
qed

theorem proved_page_leaves_once_witness:
  "dq_mirror (snd (settle_page Committed 1 True demo_held)) \<and>
   fst (settle_page Committed 1 True (snd (settle_page Committed 1 True demo_held))) = None"
proof -
  have "hget (dq_held demo_held) 1 = Some \<lparr>hp_subscriber = [1], hp_blobs =
      [\<lparr>pb_channel = [9], pb_blob = [7], pb_enqueued_at = 10, pb_id = 1, pb_ticket = 1\<rparr>]\<rparr>"
    by (simp add: demo_held_eq)
  from proved_page_leaves_once [OF demo_wf(3) demo_mirror this, of "fst (settle_page Committed 1 True demo_held)"
      "snd (settle_page Committed 1 True demo_held)"]
  show ?thesis by simp
qed

text \<open>
  A proof of delivery takes out its one entry wherever it is. \<open>confirm\<close> answers whether
  an entry of the subscriber has the ticket, in a bucket or in a page a pull holds; that
  entry leaves, no other does, the ticket is out of flight and a second proof finds nothing.
\<close>

theorem confirm_takes_its_entry:
  assumes "dq_wf q" and "confirm r sub ticket q = (found, q')"
  shows "(found \<longleftrightarrow> (\<exists>e. (sub, e) \<in> set (owned q) \<and> pb_ticket e = ticket)) \<and>
    set (owned q') = {x \<in> set (owned q). \<not> (fst x = sub \<and> ticket_of x = ticket)} \<and>
    ticket \<notin> dq_in_flight q' \<and> \<not> fst (confirm r' sub ticket q')"
proof -
  from assms(1) have keys: "dq_keys q" and tickets: "dq_tickets q" by (simp_all add: dq_wf_def)
  obtain gone where leaves: "dq_leaves r q (map (Pair sub) gone) q'" and found: "found \<longleftrightarrow> gone \<noteq> []"
      and t: "\<forall>e \<in> set gone. pb_ticket e = ticket"
    by (rule confirm_leaves [OF keys assms(2)])
  have sub: "set (map (Pair sub) gone) \<subseteq> set (owned q)"
    using leaves by (metis dq_leaves_def mset_append mset_eq_setD set_append sup_ge1)
  have iff: "found \<longleftrightarrow> (\<exists>e. (sub, e) \<in> set (owned q) \<and> pb_ticket e = ticket)"
  proof (cases found)
    case True
    with found sub t show ?thesis by (cases gone) auto
  next
    case False
    with confirm_absent [of r sub ticket q q'] assms(2) bucket_entry_iff [OF keys] show ?thesis by force
  qed
  have set': "set (owned q') = {x \<in> set (owned q). \<not> (fst x = sub \<and> ticket_of x = ticket)}"
  proof (cases found)
    case True
    with found obtain e where e: "e \<in> set gone" by (cases gone) auto
    with sub t have eq: "(sub, e) \<in> set (owned q)" "pb_ticket e = ticket" by auto
    have one: "x = (sub, e)" if "x \<in> set (owned q)" "ticket_of x = ticket" for x
      using ticket_names_one [OF tickets that(1) eq(1)] that(2) eq(2) by simp
    have "set (map (Pair sub) gone) = {x \<in> set (owned q). fst x = sub \<and> ticket_of x = ticket}"
    proof
      show "set (map (Pair sub) gone) \<subseteq> {x \<in> set (owned q). fst x = sub \<and> ticket_of x = ticket}"
        using sub t by auto
      show "{x \<in> set (owned q). fst x = sub \<and> ticket_of x = ticket} \<subseteq> set (map (Pair sub) gone)"
        using one e by auto
    qed
    with leaves_set [OF tickets leaves] show ?thesis by blast
  next
    case False
    with iff found leaves_set [OF tickets leaves] show ?thesis by auto
  qed
  have keys': "dq_keys q'" using leaves by (rule leaves_keys)
  have gone': "\<not> (\<exists>e. (sub, e) \<in> set (owned q') \<and> pb_ticket e = ticket)" using set' by auto
  have "\<not> fst (confirm r' sub ticket q')"
  proof
    assume f: "fst (confirm r' sub ticket q')"
    obtain gone2 where "dq_leaves r' q' (map (Pair sub) gone2) (snd (confirm r' sub ticket q'))"
        and "gone2 \<noteq> []" and "\<forall>e \<in> set gone2. pb_ticket e = ticket"
      by (rule confirm_leaves [OF keys', of r' sub ticket True "snd (confirm r' sub ticket q')"])
        (use f in \<open>auto simp: prod_eq_iff\<close>)
    then have "set (map (Pair sub) gone2) \<subseteq> set (owned q')"
      by (metis dq_leaves_def mset_append mset_eq_setD set_append sup_ge1)
    with \<open>gone2 \<noteq> []\<close> \<open>\<forall>e \<in> set gone2. pb_ticket e = ticket\<close> gone' show False by (cases gone2) auto
  qed
  moreover have "ticket \<notin> dq_in_flight q'"
    using assms(2) by (auto simp: confirm_def Let_def split: option.splits prod.splits)
  ultimately show ?thesis using iff set' by blast
qed

theorem confirm_takes_its_entry_witness:
  "fst (confirm Committed [1] 1 demo_held) \<and> \<not> fst (confirm Committed [1] 1 (snd (confirm Committed [1] 1 demo_held)))"
proof -
  have "fst (confirm Committed [1] 1 demo_held)" by (simp add: demo_held_eq demo_two_eq demo_defs)
  with confirm_takes_its_entry [OF demo_wf(3), of Committed "[1]" 1 True
      "snd (confirm Committed [1] 1 demo_held)" Committed]
  show ?thesis by (simp add: prod_eq_iff)
qed

section \<open>Copies in flight\<close>

text \<open>A run in which no proof and no failure of ticket \<open>n\<close> is reported.\<close>

inductive dq_silent :: "(deferred_row list \<Rightarrow> int) \<Rightarrow> txn set \<Rightarrow> nat \<Rightarrow> deferred_queue \<Rightarrow> deferred_queue \<Rightarrow> bool"
  for nid ts n q where
  silent_start: "dq_silent nid ts n q q"
| silent_step: "dq_silent nid ts n q q1 \<Longrightarrow> dq_step nid ts q1 q2 \<Longrightarrow>
    \<forall>r sub. q2 \<noteq> snd (confirm r sub n q1) \<Longrightarrow> \<forall>sub. q2 \<noteq> snd (release sub n q1) \<Longrightarrow> dq_silent nid ts n q q2"

lemma in_flight_frame:
  "dq_in_flight (snd (enqueue nid r t sub chan blob cap q)) = dq_in_flight q"
  "dq_in_flight (snd (drain r sub q)) = dq_in_flight q"
  "dq_in_flight (snd (drain_batch r sub mx q)) = dq_in_flight q"
  "dq_in_flight (snd (drain_matching_batch r sub wanted mx q)) = dq_in_flight q"
  "dq_in_flight (snd (take_page sub wanted mx budget cost q)) = dq_in_flight q"
  "dq_in_flight (snd (settle_page r i proved q)) = dq_in_flight q"
  "dq_in_flight (snd (evict_expired r t max_age q)) = dq_in_flight q"
  "dq_in_flight q \<subseteq> dq_in_flight (snd (flush_copies sub wanted q))"
  "dq_in_flight (snd (confirm r sub k q)) = dq_in_flight q - {k}"
  "dq_in_flight (snd (release sub k q)) = dq_in_flight q - {k}"
  by (auto simp: enqueue_def drain_def drain_batch_def drain_matching_batch_def take_page_def settle_page_def
      evict_expired_def flush_copies_def confirm_def release_def Let_def split: option.splits prod.splits)

lemma silent_in_flight: "dq_silent nid ts n q q' \<Longrightarrow> n \<in> dq_in_flight q \<Longrightarrow> n \<in> dq_in_flight q'"
proof (induction rule: dq_silent.induct)
  case (silent_step q1 q2)
  then have n: "n \<in> dq_in_flight q1" by simp
  from silent_step(2) show ?case
  proof (cases rule: dq_step.cases)
    case (step_confirm r sub ticket)
    with silent_step(3) have "ticket \<noteq> n" by auto
    with n step_confirm show ?thesis by (simp add: in_flight_frame)
  next
    case (step_release sub ticket)
    with silent_step(4) have "ticket \<noteq> n" by auto
    with n step_release show ?thesis by (simp add: in_flight_frame)
  next
    case (step_flush sub wanted)
    with n in_flight_frame(8) show ?thesis by blast
  qed (use n in \<open>simp_all add: in_flight_frame\<close>)
qed

text \<open>
  C5: one send at a time of each copy. The announce flush gives the subscriber's wanted
  copies that are not in flight and puts them in flight; whatever the queue does next, no
  flush of any subscriber gives a copy with the same ticket again before a proof or a
  failure of that ticket is reported.
\<close>

theorem flush_one_send_at_a_time:
  assumes "flush_copies sub wanted q = (copies, q1)" and "e \<in> set copies"
    and "dq_silent nid ts (pb_ticket e) q1 q2" and "flush_copies sub' wanted' q2 = (copies', q3)"
  shows "e \<in> set (bucket_of (dq_queue q) sub) \<and> wanted (pb_channel e) \<and> pb_ticket e \<notin> dq_in_flight q \<and>
    pb_ticket e \<notin> pb_ticket ` set copies'"
proof -
  from assms(1,2) have e: "e \<in> set (bucket_of (dq_queue q) sub)" "wanted (pb_channel e)" "pb_ticket e \<notin> dq_in_flight q"
      and "pb_ticket e \<in> dq_in_flight q1"
    by (auto simp: flush_copies_def Let_def split: option.splits)
  from silent_in_flight [OF assms(3) this(4)] assms(4) e show ?thesis
    by (auto simp: flush_copies_def Let_def split: option.splits)
qed

theorem flush_one_send_at_a_time_witness:
  "let (copies, q1) = flush_copies [1] (\<lambda>_. True) demo_two; q2 = snd (drain_batch Committed [2] 5 q1)
   in 1 \<notin> pb_ticket ` set (fst (flush_copies [1] (\<lambda>_. True) q2)) \<and> length copies = 2"
proof -
  let ?f = "flush_copies [1] (\<lambda>_. True) demo_two" let ?q1 = "snd ?f" let ?q2 = "snd (drain_batch Committed [2] 5 ?q1)"
  let ?e = "\<lparr>pb_channel = [9], pb_blob = [7], pb_enqueued_at = 10, pb_id = 1, pb_ticket = 1\<rparr>"
  have e: "?e \<in> set (fst ?f)" "length (fst ?f) = 2" by (simp_all add: demo_two_eq demo_defs)
  have "dq_silent max_rowid {Committed} (pb_ticket ?e) ?q1 ?q2"
  proof (rule silent_step [OF silent_start step_drain_batch])
    have n: "pb_ticket ?e \<in> dq_in_flight ?q2" by (simp add: demo_two_eq demo_defs drain_batch_def)
    show "\<forall>r sub. ?q2 \<noteq> snd (confirm r sub (pb_ticket ?e) ?q1)"
    proof (intro allI notI)
      fix r sub assume eq: "?q2 = snd (confirm r sub (pb_ticket ?e) ?q1)"
      show False using n unfolding eq in_flight_frame(9) by simp
    qed
    show "\<forall>sub. ?q2 \<noteq> snd (release sub (pb_ticket ?e) ?q1)"
    proof (intro allI notI)
      fix sub assume eq: "?q2 = snd (release sub (pb_ticket ?e) ?q1)"
      show False using n unfolding eq in_flight_frame(10) by simp
    qed
  qed simp
  from flush_one_send_at_a_time [OF _ e(1) this, of "[1]" "\<lambda>_. True" demo_two "[1]" "\<lambda>_. True"] e(2)
  show ?thesis by (simp add: case_prod_unfold Let_def prod_eq_iff)
qed

section \<open>Expiry\<close>

lemma expired_owned_iff:
  "(s, e) \<in> set (expired_owned th m) \<longleftrightarrow> (\<exists>b. (s, b) \<in> set m \<and> e \<in> set b \<and> pb_enqueued_at e < th)"
  by (auto simp: expired_owned_def not_le)

lemma kept_owned:
  "set (queue_owned (filter (\<lambda>(_, b). b \<noteq> []) (map (\<lambda>(s, b). (s, filter (\<lambda>e. th \<le> pb_enqueued_at e) b)) m)))
    = {x \<in> set (queue_owned m). th \<le> pb_enqueued_at (snd x)}"
proof -
  have "queue_owned (filter (\<lambda>(_, b). b \<noteq> []) m) = queue_owned m" for m
    by (induction m) auto
  moreover have "queue_owned (map (\<lambda>(s, b). (s, filter (\<lambda>e. th \<le> pb_enqueued_at e) b)) m)
      = filter (\<lambda>x. th \<le> pb_enqueued_at (snd x)) (queue_owned m)"
    by (induction m) (auto simp: filter_map comp_def)
  ultimately show ?thesis by simp
qed

lemma sum_count_remdups: "sum_list (map (count_list xs) (remdups xs)) = length xs"
proof -
  have "sum_list (map (count_list xs) (remdups xs)) = sum (count_list xs) (set xs)"
    by (metis distinct_remdups set_remdups sum.distinct_set_conv_list)
  then show ?thesis by (simp add: sum_count_set)
qed

lemma sum_expired_counts: "sum_list (map (count_list xs) (remdups (sort xs))) = length xs"
  for xs :: "'a::linorder list"
proof -
  have "count_list (sort xs) = count_list xs"
    by (rule ext) (metis count_mset mset_sort)
  with sum_count_remdups [of "sort xs"] show ?thesis by simp
qed

text \<open>
  Expiry is exact. After \<open>evict_expired\<close> no bucket holds an entry enqueued before the
  threshold, every younger entry and every entry of a held page is still there, and the
  counts reported, summed, are the entries that left.
\<close>

theorem expiry_exact:
  assumes "dq_wf q" and "evict_expired r t max_age q = (lost, q')"
  shows "(\<forall>s. \<forall>e \<in> set (bucket_of (dq_queue q') s). t - max_age \<le> pb_enqueued_at e) \<and>
    set (owned q') = {x \<in> set (owned q). t - max_age \<le> pb_enqueued_at (snd x) \<or> x \<in> set (held_owned (dq_held q))} \<and>
    dq_held q' = dq_held q \<and> sum_list (map ex_count lost) + total_len q' = total_len q"
proof -
  from assms(1) have keys: "dq_keys q" and tickets: "dq_tickets q" by (simp_all add: dq_wf_def)
  let ?th = "t - max_age"
  let ?gone = "expired_owned ?th (dq_queue q)"
  note leaves = evict_expired_leaves [OF keys assms(2)]
  have held: "dq_held q' = dq_held q"
    using assms(2) by (auto simp: evict_expired_def Let_def)
  have queue: "dq_queue q' = filter (\<lambda>(_, b). b \<noteq> []) (map (\<lambda>(s, b). (s, filter (\<lambda>e. ?th \<le> pb_enqueued_at e) b)) (dq_queue q))"
    using assms(2) by (auto simp: evict_expired_def Let_def)
  have young: "?th \<le> pb_enqueued_at e" if "e \<in> set (bucket_of (dq_queue q') s)" for s e
    using that by (cases "hget (dq_queue q') s") (auto simp: queue dest!: hget_mem)
  have "length ?gone + total_len q' = total_len q" using leaves_len [OF leaves] by simp
  moreover have "sum_list (map ex_count lost) = length ?gone"
  proof -
    let ?keys = "map (\<lambda>(s, e). (s, pb_channel e)) ?gone"
    have "lost = map (\<lambda>k. \<lparr>ex_subscriber = fst k, ex_routing = snd k, ex_count = count_list ?keys k\<rparr>) (remdups (sort ?keys))"
      using assms(2) by (auto simp: evict_expired_def Let_def)
    then have "map ex_count lost = map (count_list ?keys) (remdups (sort ?keys))" by simp
    with sum_expired_counts [of ?keys] show ?thesis by simp
  qed
  ultimately have counts: "sum_list (map ex_count lost) + total_len q' = total_len q" by simp
  have own: "set (owned q') = {x \<in> set (owned q). ?th \<le> pb_enqueued_at (snd x) \<or> x \<in> set (held_owned (dq_held q))}"
  proof -
    have "set (queue_owned (dq_queue q')) = {x \<in> set (queue_owned (dq_queue q)). ?th \<le> pb_enqueued_at (snd x)}"
      by (simp only: queue kept_owned)
    then show ?thesis by (auto simp: owned_def held)
  qed
  from young own held counts show ?thesis by blast
qed

theorem expiry_exact_witness:
  "set (owned (snd (evict_expired Committed 100 85 demo_two))) = {x \<in> set (owned demo_two). 15 \<le> pb_enqueued_at (snd x)} \<and>
   sum_list (map ex_count (fst (evict_expired Committed 100 85 demo_two))) = 1"
  using expiry_exact [OF demo_wf(2), of Committed 100 85 "fst (evict_expired Committed 100 85 demo_two)"
      "snd (evict_expired Committed 100 85 demo_two)"]
  by (simp add: demo_two_eq demo_defs)

section \<open>What modelling showed\<close>

text \<open>
  A row id outlives the rollback of its insert. When the commit of an enqueue fails,
  its entry keeps the row id it was given although no row is stored; the next enqueue, of
  another subscriber, is given the same id, and removing the first entry then deletes the
  second one's row: memory still holds that entry and a restart does not bring it back.
\<close>

theorem failed_commit_deletes_anothers_row:
  "let q1 = snd (enqueue max_rowid CommitFailed 10 [1] [9] [7] 8 demo_start);
       q2 = snd (enqueue max_rowid Committed 20 [2] [9] [8] 8 q1);
       q3 = snd (drain Committed [1] q2)
   in dq_db q1 = Some [] \<and> map pb_id (bucket_of (dq_queue q1) [1]) = [1] \<and>
      map pb_id (bucket_of (dq_queue q2) [2]) = [1] \<and> length (owned q3) = 1 \<and>
      owned (load max_rowid Committed None (dq_db q3) NoFile) = []"
  by (simp add: demo_start_eq demo_defs drain_def delete_if_any_def load_def read_all_def owned_def)

text \<open>
  Two pages that come back can swap. A pull takes two pages of a subscriber, one
  after the other; settled unproved in the order they were taken, the second page's
  entries stand before the first page's, so the bucket is no longer in its order.
\<close>

theorem unproved_pages_can_swap:
  "let q1 = snd (take_page [1] (\<lambda>_. True) 1 100 (\<lambda>_. 10) demo_two);
       q2 = snd (take_page [1] (\<lambda>_. True) 1 100 (\<lambda>_. 10) q1);
       q3 = snd (settle_page Committed 2 False (snd (settle_page Committed 1 False q2)))
   in map pb_ticket (bucket_of (dq_queue demo_two) [1]) = [1, 2] \<and>
      map pb_ticket (bucket_of (dq_queue q3) [1]) = [2, 1]"
  by (simp add: demo_two_eq demo_defs)

end
