(* ===== verification/BlobStore.thy ===== *)
theory BlobStore
  imports RFed_Prelude
begin

text \<open>
  \<open>rfed/src/blob_store.rs\<close>: the store of inner blobs on the filesystem. \<open>blob_store\<close> is
  \<open>BlobStore\<close> with the files it owns: the index by message id, the bytes used, the files at
  \<open>{dest}/{msg_id}\<close> and the unfinished \<open>.tmp\<close> ones. What the filesystem answers is an
  argument of the operation (\<open>file_write\<close>, and \<open>rm\<close>, whether a removal succeeds).
\<close>

section \<open>State\<close>

definition BLOB_TTL_SECS :: secs where
  "BLOB_TTL_SECS = 30 * 24 * 3600"

definition EVICT_CHECK_INTERVAL_SECS :: secs where
  "EVICT_CHECK_INTERVAL_SECS = 3600"

text \<open>\<open>f64::MAX\<close>.\<close>

definition F64_MAX :: real where
  "F64_MAX = (2 - 1 / 2 ^ 52) * 2 ^ 1023"

record blob_meta =
  bm_id :: bytes
  bm_dest :: bytes
  bm_received :: secs
  bm_size :: nat

record blob_store =
  bs_index :: "(bytes, blob_meta) hmap"
  bs_limit :: nat
  bs_used :: nat
  bs_last_eviction :: secs
  bs_files :: "(bytes \<times> bytes, bytes) hmap"
  bs_tmp :: "(bytes \<times> bytes, bytes) hmap"

datatype store_error = IdCollision bytes | StorageLimitReached nat nat | CreateDirError | WriteError | RenameError

text \<open>What became of the write: the third carries what a failed write left in the \<open>.tmp\<close> file.\<close>

datatype file_write = Written | CreateDirFailed | WriteFailed bytes | RenameFailed

section \<open>Deleting\<close>

definition delete_blob :: "(bytes \<times> bytes \<Rightarrow> bool) \<Rightarrow> bytes \<Rightarrow> blob_store \<Rightarrow> blob_store" where
  "delete_blob rm i s = (case hget (bs_index s) i of
      None \<Rightarrow> s
    | Some meta \<Rightarrow> s\<lparr>bs_index := hdel i (bs_index s),
        bs_files := (if rm (bm_dest meta, i) then hdel (bm_dest meta, i) (bs_files s) else bs_files s),
        bs_used := bs_used s - bm_size meta\<rparr>)"

definition evict_older_than :: "(bytes \<times> bytes \<Rightarrow> bool) \<Rightarrow> secs \<Rightarrow> blob_store \<Rightarrow> nat \<times> blob_store" where
  "evict_older_than rm cutoff s =
     (let stale = map (\<lambda>(_, m). bm_id m) (filter (\<lambda>(_, m). 0 < bm_received m \<and> bm_received m < cutoff) (bs_index s))
      in (length stale, fold (delete_blob rm) stale s))"

definition eviction_age :: "secs \<Rightarrow> real" where
  "eviction_age received = (if received = 0 then F64_MAX else received)"

fun evict_loop :: "(bytes \<times> bytes \<Rightarrow> bool) \<Rightarrow> nat \<Rightarrow> (bytes \<times> secs) list \<Rightarrow> blob_store \<Rightarrow> blob_store" where
  "evict_loop rm needed [] s = s"
| "evict_loop rm needed ((i, _) # es) s =
     (if bs_used s + needed \<le> bs_limit s then s else evict_loop rm needed es (delete_blob rm i s))"

definition evict_to_fit :: "(bytes \<times> bytes \<Rightarrow> bool) \<Rightarrow> nat \<Rightarrow> blob_store \<Rightarrow> blob_store" where
  "evict_to_fit rm needed s =
     (if bs_used s + needed \<le> bs_limit s then s
      else evict_loop rm needed (sort_key (\<lambda>(_, received). eviction_age received)
             (map (\<lambda>(_, m). (bm_id m, bm_received m)) (bs_index s))) s)"

section \<open>Storing\<close>

text \<open>The evictions before a write, at clock reading \<open>t\<close>.\<close>

definition make_room :: "(bytes \<times> bytes \<Rightarrow> bool) \<Rightarrow> secs \<Rightarrow> nat \<Rightarrow> blob_store \<Rightarrow> blob_store" where
  "make_room rm t len s =
     (let s1 = (if EVICT_CHECK_INTERVAL_SECS < t - bs_last_eviction s
                then (snd (evict_older_than rm (t - BLOB_TTL_SECS) s))\<lparr>bs_last_eviction := t\<rparr> else s)
      in if bs_limit s1 < bs_used s1 + len then evict_to_fit rm len s1 else s1)"

definition store_with_id :: "(bytes \<times> bytes \<Rightarrow> bool) \<Rightarrow> file_write \<Rightarrow> secs \<Rightarrow> secs \<Rightarrow> bytes \<Rightarrow> bytes \<Rightarrow> bytes \<Rightarrow>
    blob_store \<Rightarrow> (store_error + bytes) \<times> blob_store" where
  "store_with_id rm w t t' dest i blob s =
     (case hget (bs_index s) i of
        Some existing \<Rightarrow> if bm_dest existing = dest then (Inr i, s) else (Inl (IdCollision i), s)
      | None \<Rightarrow>
          (let s' = make_room rm t (length blob) s
           in if bs_limit s' < bs_used s' + length blob
              then (Inl (StorageLimitReached (bs_used s') (bs_limit s')), s')
              else (case w of
                  CreateDirFailed \<Rightarrow> (Inl CreateDirError, s')
                | WriteFailed left \<Rightarrow> (Inl WriteError, s'\<lparr>bs_tmp := hput (dest, i) left (bs_tmp s')\<rparr>)
                | RenameFailed \<Rightarrow> (Inl RenameError, s'\<lparr>bs_tmp := hput (dest, i) blob (bs_tmp s')\<rparr>)
                | Written \<Rightarrow> (Inr i, s'\<lparr>bs_files := hput (dest, i) blob (bs_files s'),
                    bs_tmp := hdel (dest, i) (bs_tmp s'),
                    bs_index := hput i \<lparr>bm_id = i, bm_dest = dest, bm_received = t', bm_size = length blob\<rparr> (bs_index s'),
                    bs_used := bs_used s' + length blob\<rparr>))))"

text \<open>\<open>store\<close>: \<open>random_id\<close> is what the system's random number generator gave.\<close>

definition store :: "bytes \<Rightarrow> (bytes \<times> bytes \<Rightarrow> bool) \<Rightarrow> file_write \<Rightarrow> secs \<Rightarrow> secs \<Rightarrow> bytes \<Rightarrow> bytes \<Rightarrow>
    blob_store \<Rightarrow> (store_error + bytes) \<times> blob_store" where
  "store random_id rm w t t' dest blob s = store_with_id rm w t t' dest random_id blob s"

section \<open>Reading\<close>

text \<open>\<open>get\<close>: the file at the path the index names, when it can be read.\<close>

definition get_blob :: "bytes \<Rightarrow> blob_store \<Rightarrow> bytes option" where
  "get_blob i s = (case hget (bs_index s) i of None \<Rightarrow> None | Some meta \<Rightarrow> hget (bs_files s) (bm_dest meta, i))"

definition all_message_ids :: "blob_store \<Rightarrow> bytes list" where
  "all_message_ids s = map fst (bs_index s)"

definition message_ids_for_channel :: "bytes \<Rightarrow> blob_store \<Rightarrow> bytes list" where
  "message_ids_for_channel chan s = map (\<lambda>(_, m). bm_id m) (filter (\<lambda>(_, m). bm_dest m = chan) (bs_index s))"

section \<open>Opening\<close>

definition hex_digit :: "nat \<Rightarrow> char" where
  "hex_digit n = ''0123456789abcdef'' ! n"

definition hex :: "bytes \<Rightarrow> string" where
  "hex bs = concat (map (\<lambda>b. [hex_digit (unat b div 16), hex_digit (unat b mod 16)]) bs)"

text \<open>
  A directory as \<open>read_dir\<close> gives it: for each entry of the store's directory its name and,
  when it can be listed, its files with their name, size and modification time (0 and 0 when
  the metadata cannot be read). \<open>decode_hex\<close> is \<open>reticulum_rust::decode_hex\<close>.
\<close>

type_synonym listing = "(string \<times> (string \<times> nat \<times> secs) list option) list"

definition ends_with_tmp :: "string \<Rightarrow> bool" where
  "ends_with_tmp name \<longleftrightarrow> 4 \<le> length name \<and> drop (length name - 4) name = ''.tmp''"

definition index_file :: "(string \<Rightarrow> bytes option) \<Rightarrow> bytes \<Rightarrow> string \<times> nat \<times> secs \<Rightarrow> blob_store \<Rightarrow> blob_store" where
  "index_file decode_hex dest file s = (case file of (name, len, received) \<Rightarrow>
     if ends_with_tmp name then s
     else (case decode_hex name of
        None \<Rightarrow> s
      | Some i \<Rightarrow> s\<lparr>bs_used := bs_used s + len,
          bs_index := hput i \<lparr>bm_id = i, bm_dest = dest, bm_received = received, bm_size = len\<rparr> (bs_index s)\<rparr>))"

definition index_dir :: "(string \<Rightarrow> bytes option) \<Rightarrow> string \<times> (string \<times> nat \<times> secs) list option \<Rightarrow> blob_store \<Rightarrow> blob_store" where
  "index_dir decode_hex dir s = (case dir of (name, files) \<Rightarrow>
     (case decode_hex name of
        None \<Rightarrow> s
      | Some dest \<Rightarrow> (case files of None \<Rightarrow> s | Some fs \<Rightarrow> fold (index_file decode_hex dest) fs s)))"

definition rebuild_index :: "(string \<Rightarrow> bytes option) \<Rightarrow> listing option \<Rightarrow> blob_store \<Rightarrow> blob_store" where
  "rebuild_index decode_hex dirs s = (case dirs of None \<Rightarrow> s | Some ds \<Rightarrow> (fold (index_dir decode_hex) ds s))"

definition open_store :: "(string \<Rightarrow> bytes option) \<Rightarrow> listing option \<Rightarrow> nat \<Rightarrow> (bytes \<times> bytes, bytes) hmap \<Rightarrow> blob_store" where
  "open_store decode_hex dirs cap files = rebuild_index decode_hex dirs
     \<lparr>bs_index = [], bs_limit = cap, bs_used = 0, bs_last_eviction = 0, bs_files = files, bs_tmp = []\<rparr>"

section \<open>The index and the bytes used\<close>

definition used_sum :: "(bytes, blob_meta) hmap \<Rightarrow> nat" where
  "used_sum m = sum_list (map (\<lambda>(_, meta). bm_size meta) m)"

definition store_ok :: "blob_store \<Rightarrow> bool" where
  "store_ok s \<longleftrightarrow> hkeys_distinct (bs_index s) \<and> (\<forall>(i, m) \<in> set (bs_index s). bm_id m = i) \<and>
     bs_used s = used_sum (bs_index s)"

lemma used_sum_del: "hkeys_distinct m \<Longrightarrow> hget m i = Some meta \<Longrightarrow> used_sum m = bm_size meta + used_sum (hdel i m)"
proof -
  assume "hkeys_distinct m" "hget m i = Some meta"
  then obtain xs ys where "m = xs @ (i, meta) # ys" "i \<notin> fst ` set xs" "i \<notin> fst ` set ys" by (rule hget_split)
  then show ?thesis by (simp add: hdel_split used_sum_def)
qed

lemma delete_ok: "store_ok s \<Longrightarrow> store_ok (delete_blob rm i s)"
  using used_sum_del [of "bs_index s" i]
  by (auto simp: delete_blob_def store_ok_def hm.inv_del set_hdel split: option.splits)

lemma delete_frame [simp]:
  "bs_limit (delete_blob rm i s) = bs_limit s" "bs_last_eviction (delete_blob rm i s) = bs_last_eviction s"
  "bs_tmp (delete_blob rm i s) = bs_tmp s"
  by (simp_all add: delete_blob_def split: option.splits)

lemma delete_index: "bs_index (delete_blob rm i s) = hdel i (bs_index s)"
proof (cases "hget (bs_index s) i")
  case None
  then have "i \<notin> fst ` set (bs_index s)" by (simp add: map_of_eq_None_iff)
  with None show ?thesis by (simp add: delete_blob_def hdel_absent)
qed (simp add: delete_blob_def)

lemma fold_delete:
  "store_ok s \<Longrightarrow> store_ok (fold (delete_blob rm) xs s) \<and>
    bs_index (fold (delete_blob rm) xs s) = filter (\<lambda>(i, _). i \<notin> set xs) (bs_index s) \<and>
    bs_limit (fold (delete_blob rm) xs s) = bs_limit s"
proof (induction xs arbitrary: s)
  case (Cons i xs)
  from Cons.IH [OF delete_ok [OF Cons.prems, of rm i]] show ?case
    by (auto simp: delete_index AList.delete_eq intro!: filter_cong)
qed simp

lemma used_sum_empty: "store_ok s \<Longrightarrow> bs_index s = [] \<Longrightarrow> bs_used s = 0"
  by (simp add: store_ok_def used_sum_def)

section \<open>Eviction\<close>

lemma evict_loop_prefix:
  "store_ok s \<Longrightarrow> \<exists>n \<le> length es. evict_loop rm needed es s = fold (delete_blob rm) (map fst (take n es)) s \<and>
    (bs_used (evict_loop rm needed es s) + needed \<le> bs_limit s \<or> n = length es) \<and>
    (\<forall>k < n. bs_limit s < bs_used (fold (delete_blob rm) (map fst (take k es)) s) + needed)"
proof (induction es arbitrary: s)
  case (Cons e es)
  obtain i a where e: "e = (i, a)" by (cases e)
  show ?case
  proof (cases "bs_used s + needed \<le> bs_limit s")
    case True
    with e show ?thesis by (intro exI [of _ 0]) simp
  next
    case False
    from Cons.IH [OF delete_ok [OF Cons.prems, of rm i]] obtain n where n: "n \<le> length es"
      "evict_loop rm needed es (delete_blob rm i s) = fold (delete_blob rm) (map fst (take n es)) (delete_blob rm i s)"
      "bs_used (evict_loop rm needed es (delete_blob rm i s)) + needed \<le> bs_limit s \<or> n = length es"
      "\<forall>k < n. bs_limit s < bs_used (fold (delete_blob rm) (map fst (take k es)) (delete_blob rm i s)) + needed"
      by auto
    have "\<forall>k < Suc n. bs_limit s < bs_used (fold (delete_blob rm) (map fst (take k (e # es))) s) + needed"
    proof (intro allI impI)
      fix k assume "k < Suc n"
      with n(4) False e show "bs_limit s < bs_used (fold (delete_blob rm) (map fst (take k (e # es))) s) + needed"
        by (cases k) auto
    qed
    with n False e show ?thesis by (intro exI [of _ "Suc n"]) simp
  qed
qed simp

lemma butlast_map_take: "n \<le> length xs \<Longrightarrow> butlast (map f (take n xs)) = map f (take (n - 1) xs)"
  by (simp add: butlast_take map_butlast [symmetric])

lemma sorted_take_le:
  assumes "sorted (map f es)" and "x \<in> set (take n es)" and "y \<in> set es" and "y \<notin> set (take n es)"
  shows "f x \<le> f y"
proof -
  have es: "es = take n es @ drop n es" by simp
  with assms(3,4) have y: "y \<in> set (drop n es)" by (metis Un_iff set_append)
  have "sorted (map f (take n es) @ map f (drop n es))" using assms(1) by (metis es map_append)
  with assms(2) y show ?thesis by (simp add: sorted_append)
qed

abbreviation by_age :: "(bytes, blob_meta) hmap \<Rightarrow> (bytes \<times> secs) list" where
  "by_age m \<equiv> sort_key (\<lambda>(_, received). eviction_age received) (map (\<lambda>(_, m). (bm_id m, bm_received m)) m)"

lemma evict_to_fit_prefix:
  assumes "store_ok s"
  shows "\<exists>n \<le> length (by_age (bs_index s)). evict_to_fit rm needed s = fold (delete_blob rm) (map fst (take n (by_age (bs_index s)))) s \<and>
    (bs_used (evict_to_fit rm needed s) + needed \<le> bs_limit s \<or> n = length (by_age (bs_index s))) \<and>
    (\<forall>k < n. bs_limit s < bs_used (fold (delete_blob rm) (map fst (take k (by_age (bs_index s)))) s) + needed)"
proof (cases "bs_used s + needed \<le> bs_limit s")
  case True
  then show ?thesis by (intro exI [of _ 0]) (simp add: evict_to_fit_def)
next
  case False
  then have "evict_to_fit rm needed s = evict_loop rm needed (by_age (bs_index s)) s" by (simp add: evict_to_fit_def)
  then show ?thesis using evict_loop_prefix [OF assms, of "by_age (bs_index s)" rm needed] by simp
qed

lemma by_age_ids: "store_ok s \<Longrightarrow> fst ` set (by_age (bs_index s)) = fst ` set (bs_index s)"
  by (force simp: store_ok_def)

lemma evict_to_fit_ok: "store_ok s \<Longrightarrow> store_ok (evict_to_fit rm needed s) \<and> bs_limit (evict_to_fit rm needed s) = bs_limit s
    \<and> set (bs_index (evict_to_fit rm needed s)) \<subseteq> set (bs_index s)"
  using evict_to_fit_prefix [of s rm needed] fold_delete [of s rm] by fastforce

lemma evict_to_fit_room:
  assumes ok: "store_ok s" and over: "bs_limit s < bs_used (evict_to_fit rm needed s) + needed"
  shows "bs_index (evict_to_fit rm needed s) = []"
proof -
  from evict_to_fit_prefix [OF ok, of rm needed] over
  have "evict_to_fit rm needed s = fold (delete_blob rm) (map fst (by_age (bs_index s))) s" by auto
  moreover have "set (map fst (by_age (bs_index s))) = fst ` set (bs_index s)" using by_age_ids [OF ok] by simp
  ultimately have "bs_index (evict_to_fit rm needed s) = filter (\<lambda>(i, _). i \<notin> fst ` set (bs_index s)) (bs_index s)"
    using fold_delete [OF ok, of rm "map fst (by_age (bs_index s))"] by simp
  then show ?thesis by (force simp: filter_empty_conv)
qed

lemma make_room_ok:
  assumes ok: "store_ok s"
  shows "store_ok (make_room rm t len s)" and "bs_limit (make_room rm t len s) = bs_limit s"
    and "set (bs_index (make_room rm t len s)) \<subseteq> set (bs_index s)"
    and "bs_limit s < bs_used (make_room rm t len s) + len \<Longrightarrow> bs_index (make_room rm t len s) = []"
proof -
  let ?stale = "map (\<lambda>(_, m). bm_id m) (filter (\<lambda>(_, m). 0 < bm_received m \<and> bm_received m < t - BLOB_TTL_SECS) (bs_index s))"
  let ?s1 = "if EVICT_CHECK_INTERVAL_SECS < t - bs_last_eviction s
      then (snd (evict_older_than rm (t - BLOB_TTL_SECS) s))\<lparr>bs_last_eviction := t\<rparr> else s"
  have s1: "store_ok ?s1" "bs_limit ?s1 = bs_limit s" "set (bs_index ?s1) \<subseteq> set (bs_index s)"
    using fold_delete [OF ok, of rm ?stale] ok by (auto simp: evict_older_than_def Let_def store_ok_def)
  have eq: "make_room rm t len s = (if bs_limit s < bs_used ?s1 + len then evict_to_fit rm len ?s1 else ?s1)"
    using s1(2) by (simp add: make_room_def Let_def)
  show "store_ok (make_room rm t len s)" "bs_limit (make_room rm t len s) = bs_limit s"
    "set (bs_index (make_room rm t len s)) \<subseteq> set (bs_index s)"
    unfolding eq using s1 evict_to_fit_ok [OF s1(1), of rm len] by (simp_all split: if_splits) blast+
  show "bs_limit s < bs_used (make_room rm t len s) + len \<Longrightarrow> bs_index (make_room rm t len s) = []"
    unfolding eq using evict_to_fit_room [OF s1(1), of rm len] s1(2) by (simp split: if_splits)
qed

section \<open>Properties\<close>

text \<open>
  What storing does. The index stays keyed by message id with the bytes used its sum,
  and within the limit if it was; a known id of the same destination changes nothing, one
  of another destination is refused; a blob is refused for space only when it alone exceeds
  the limit; a blob stored is read back and every other blob still indexed is an older one
  kept as it was.
\<close>

theorem store_with_id_keeps_and_bounds:
  assumes "store_ok s" and "store_with_id rm w t t' dest i blob s = (res, s')"
  shows "store_ok s' \<and> bs_limit s' = bs_limit s \<and> (bs_used s \<le> bs_limit s \<longrightarrow> bs_used s' \<le> bs_limit s) \<and>
    (\<forall>k \<noteq> i. hget (bs_index s') k \<noteq> None \<longrightarrow> hget (bs_index s') k = hget (bs_index s) k) \<and>
    (case res of
       Inr k \<Rightarrow> k = i \<and> (if hget (bs_index s) i = None then get_blob i s' = Some blob else s' = s)
     | Inl (IdCollision k) \<Rightarrow> k = i \<and> s' = s \<and> (\<exists>m. hget (bs_index s) i = Some m \<and> bm_dest m \<noteq> dest)
     | Inl (StorageLimitReached used cap) \<Rightarrow> cap = bs_limit s \<and> cap < length blob \<and> used = 0
     | Inl e \<Rightarrow> hget (bs_index s') i = None \<and> w \<noteq> Written)"
proof (cases "hget (bs_index s) i")
  case (Some m)
  with assms show ?thesis by (cases "bm_dest m = dest") (auto simp: store_with_id_def)
next
  case None
  let ?s1 = "make_room rm t (length blob) s"
  note room = make_room_ok [OF assms(1), of rm t "length blob"]
  from assms(1) room(1) have d: "hkeys_distinct (bs_index s)" "hkeys_distinct (bs_index ?s1)"
    by (auto simp: store_ok_def)
  have kept: "hget (bs_index ?s1) k \<noteq> None \<longrightarrow> hget (bs_index ?s1) k = hget (bs_index s) k" for k
  proof (cases "hget (bs_index ?s1) k")
    case (Some m)
    from subsetD [OF room(3) hget_mem [OF this]] have "(k, m) \<in> set (bs_index s)" .
    then have "hget (bs_index s) k = Some m" by (simp only: hget_mem_iff [OF d(1)])
    with Some show ?thesis by simp
  qed simp
  with None have none: "hget (bs_index ?s1) i = None" by (cases "hget (bs_index ?s1) i") auto
  show ?thesis
  proof (cases "bs_limit s < bs_used ?s1 + length blob")
    case True
    from room(4) [OF this] have "bs_index ?s1 = []" .
    with room(1) have "bs_used ?s1 = 0" by (rule used_sum_empty)
    with True None assms(2) room(1,2) kept show ?thesis by (auto simp: store_with_id_def Let_def)
  next
    case False
    let ?m = "\<lparr>bm_id = i, bm_dest = dest, bm_received = t', bm_size = length blob\<rparr>"
    have put: "store_ok (?s1\<lparr>bs_files := f, bs_tmp := g, bs_index := hput i ?m (bs_index ?s1), bs_used := bs_used ?s1 + length blob\<rparr>)" for f g
      using room(1) d(2) none [unfolded map_of_eq_None_iff]
      by (simp add: store_ok_def hput_new [OF none] used_sum_def hkeys_distinct_def
          none [unfolded map_of_eq_None_iff])
    have tmp: "store_ok (?s1\<lparr>bs_tmp := g\<rparr>)" for g using room(1) by (simp add: store_ok_def)
    show ?thesis
    proof (cases w)
      case Written
      with None False assms(2) put room kept none show ?thesis
        by (auto simp: store_with_id_def Let_def get_blob_def hmap_simps)
    qed (use None False assms(2) tmp room kept none in \<open>auto simp: store_with_id_def Let_def\<close>)
  qed
qed

theorem store_with_id_keeps_and_bounds_witness:
  "let s = \<lparr>bs_index = [([1], \<lparr>bm_id = [1], bm_dest = [9], bm_received = 5, bm_size = 3\<rparr>)], bs_limit = 4, bs_used = 3,
             bs_last_eviction = 100, bs_files = [(([9], [1]), [7, 7, 7])], bs_tmp = []\<rparr>;
       s' = snd (store_with_id (\<lambda>_. True) Written 100 101 [9] [2] [8, 8] s)
   in store_ok s' \<and> bs_used s' \<le> 4 \<and> get_blob [2] s' = Some [8, 8]"
proof -
  let ?s = "\<lparr>bs_index = [([1], \<lparr>bm_id = [1], bm_dest = [9], bm_received = 5, bm_size = 3\<rparr>)], bs_limit = 4, bs_used = 3,
             bs_last_eviction = 100, bs_files = [(([9], [1]), [7, 7, 7])], bs_tmp = []\<rparr>"
  let ?run = "store_with_id (\<lambda>_. True) Written 100 101 [9] [2] [8, 8] ?s"
  have ok: "store_ok ?s" by (simp add: store_ok_def hkeys_distinct_def used_sum_def)
  have "fst ?run = Inr [2]"
    by (simp add: store_with_id_def make_room_def evict_to_fit_def delete_blob_def EVICT_CHECK_INTERVAL_SECS_def Let_def)
  then obtain s' where run: "?run = (Inr [2], s')" by (metis prod.collapse)
  from store_with_id_keeps_and_bounds [OF ok run] show ?thesis by (simp add: Let_def run)
qed

text \<open>
  Room is made by taking the oldest. \<open>evict_to_fit\<close> deletes blobs in the order of
  their age, those of unknown age last: no blob deleted is younger than one kept, it stops
  as soon as the new blob fits, and ends with nothing left or enough room.
\<close>

theorem evict_to_fit_oldest_first:
  assumes "store_ok s"
  shows "\<exists>gone. evict_to_fit rm needed s = fold (delete_blob rm) gone s \<and>
    bs_index (evict_to_fit rm needed s) = filter (\<lambda>(i, _). i \<notin> set gone) (bs_index s) \<and>
    (\<forall>(i, m) \<in> set (bs_index s). \<forall>(k, n) \<in> set (bs_index s). i \<in> set gone \<longrightarrow> k \<notin> set gone \<longrightarrow>
       eviction_age (bm_received m) \<le> eviction_age (bm_received n)) \<and>
    (gone \<noteq> [] \<longrightarrow> bs_limit s < bs_used (fold (delete_blob rm) (butlast gone) s) + needed) \<and>
    (bs_index (evict_to_fit rm needed s) = [] \<or> bs_used (evict_to_fit rm needed s) + needed \<le> bs_limit s)"
proof -
  let ?es = "by_age (bs_index s)" let ?age = "\<lambda>e :: bytes \<times> secs. eviction_age (snd e)"
  from evict_to_fit_prefix [OF assms, of rm needed] obtain n where n: "n \<le> length ?es"
    "evict_to_fit rm needed s = fold (delete_blob rm) (map fst (take n ?es)) s"
    "\<forall>k < n. bs_limit s < bs_used (fold (delete_blob rm) (map fst (take k ?es)) s) + needed" by blast
  let ?gone = "map fst (take n ?es)"
  have sorted: "sorted (map ?age ?es)" by (simp add: case_prod_unfold)
  have entry: "(i, bm_received m) \<in> set ?es" if "(i, m) \<in> set (bs_index s)" for i m
    using that assms by (force simp: store_ok_def)
  have dist: "distinct (map fst ?es)"
  proof -
    have "map fst (map (\<lambda>(_, m). (bm_id m, bm_received m)) (bs_index s)) = map fst (bs_index s)"
      using assms by (auto simp: store_ok_def)
    then have "distinct (map fst (map (\<lambda>(_, m). (bm_id m, bm_received m)) (bs_index s)))"
      using assms by (simp only: store_ok_def hkeys_distinct_def)
    moreover have "mset (map fst ?es) = mset (map fst (map (\<lambda>(_, m). (bm_id m, bm_received m)) (bs_index s)))"
      by (simp only: mset_map mset_sort)
    ultimately show ?thesis using mset_eq_imp_distinct_iff by blast
  qed
  have ages: "eviction_age (bm_received m) \<le> eviction_age (bm_received k)"
    if im: "(i, m) \<in> set (bs_index s)" "i \<in> set ?gone" and ik: "(j, k) \<in> set (bs_index s)" "j \<notin> set ?gone" for i m j k
  proof -
    from im(2) obtain r where r: "(i, r) \<in> set (take n ?es)" by auto
    then have "(i, r) \<in> set ?es" by (meson in_set_takeD)
    from eq_key_imp_eq_value [OF dist this entry [OF im(1)]] have "r = bm_received m" .
    moreover have "(j, bm_received k) \<notin> set (take n ?es)" using ik(2) by force
    from sorted_take_le [OF sorted r entry [OF ik(1)] this] have "eviction_age r \<le> eviction_age (bm_received k)" by simp
    ultimately show ?thesis by simp
  qed
  have last: "bs_limit s < bs_used (fold (delete_blob rm) (butlast ?gone) s) + needed" if "?gone \<noteq> []"
  proof -
    from that n(1) have "0 < n" by auto
    moreover have "butlast ?gone = map fst (take (n - 1) ?es)" 
      by (rule butlast_map_take [OF n(1)])
    ultimately show ?thesis using n(3) by simp
  qed
  have fin: "bs_index (evict_to_fit rm needed s) = [] \<or> bs_used (evict_to_fit rm needed s) + needed \<le> bs_limit s"
    using evict_to_fit_room [OF assms, of rm needed] by fastforce
  have ages': "\<forall>(i, m) \<in> set (bs_index s). \<forall>(k, n) \<in> set (bs_index s). i \<in> set ?gone \<longrightarrow> k \<notin> set ?gone \<longrightarrow>
       eviction_age (bm_received m) \<le> eviction_age (bm_received n)"
    by (rule ballI, rule case_prodI2, rule ballI, rule case_prodI2, intro impI, rule ages) simp_all
  have idx: "bs_index (evict_to_fit rm needed s) = filter (\<lambda>(i, _). i \<notin> set ?gone) (bs_index s)"
    unfolding n(2) using fold_delete [OF assms, of rm ?gone] by blast
  show ?thesis
  proof (intro exI conjI)
    show "evict_to_fit rm needed s = fold (delete_blob rm) ?gone s" by (rule n(2))
  qed (use idx ages' last fin in blast)+
qed

theorem evict_to_fit_oldest_first_witness:
  "let s = \<lparr>bs_index = [([1], \<lparr>bm_id = [1], bm_dest = [9], bm_received = 5, bm_size = 3\<rparr>)], bs_limit = 4, bs_used = 3,
             bs_last_eviction = 100, bs_files = [], bs_tmp = []\<rparr>
   in bs_index (evict_to_fit (\<lambda>_. True) 2 s) = [] \<or> bs_used (evict_to_fit (\<lambda>_. True) 2 s) + 2 \<le> 4"
proof -
  let ?s = "\<lparr>bs_index = [([1], \<lparr>bm_id = [1], bm_dest = [9], bm_received = 5, bm_size = 3\<rparr>)], bs_limit = 4, bs_used = 3,
             bs_last_eviction = 100, bs_files = [], bs_tmp = []\<rparr> :: blob_store"
  have "store_ok ?s" by (simp add: store_ok_def hkeys_distinct_def used_sum_def)
  from evict_to_fit_oldest_first [OF this, of "\<lambda>_. True" 2] show ?thesis by (auto simp: Let_def)
qed

end
