(* ===== verification/Subscription.thy ===== *)
theory Subscription
  imports StoreDb
begin

text \<open>
  \<open>rfed/src/subscription.rs\<close>: which identity wants which channel here, its own rows and the
  rows kept as a backup for another node. \<open>subscription_table\<close> is \<open>SubscriptionTable\<close>: the
  entries in memory and the database, its rows in rowid order and its \<open>user_version\<close>. The
  contract that a restart finds the entries is the interpretation \<open>subs\<close> of
  \<open>mirrored_store\<close>.
\<close>

section \<open>State\<close>

definition LOCAL_SUBSCRIPTION_LIFETIME_SECS :: secs where
  "LOCAL_SUBSCRIPTION_LIFETIME_SECS = 30 * 86400"

definition RENEWAL_WRITE_INTERVAL_SECS :: secs where
  "RENEWAL_WRITE_INTERVAL_SECS = 3600"

definition RENEWAL_CLOCK_VERSION :: int where
  "RENEWAL_CLOCK_VERSION = 1"

record subscription_entry =
  se_subscriber :: bytes
  se_channel :: bytes
  se_added :: secs
  se_owner :: "bytes option"
  se_refreshed :: secs

record subscription_row =
  sr_subscriber :: bytes
  sr_channel :: bytes
  sr_owner :: bytes
  sr_added :: secs
  sr_refreshed :: secs

record subscription_db =
  sd_rows :: "subscription_row list"
  sd_version :: int

record subscription_table =
  st_entries :: "subscription_entry list"
  st_db :: "subscription_db option"

section \<open>Rows\<close>

definition row_of_entry :: "subscription_entry \<Rightarrow> subscription_row" where
  "row_of_entry e = \<lparr>sr_subscriber = se_subscriber e, sr_channel = se_channel e,
     sr_owner = (case se_owner e of None \<Rightarrow> [] | Some n \<Rightarrow> n),
     sr_added = se_added e, sr_refreshed = se_refreshed e\<rparr>"

definition entry_of_row :: "subscription_row \<Rightarrow> subscription_entry" where
  "entry_of_row r = \<lparr>se_subscriber = sr_subscriber r, se_channel = sr_channel r, se_added = sr_added r,
     se_owner = (if sr_owner r = [] then None else Some (sr_owner r)), se_refreshed = sr_refreshed r\<rparr>"

abbreviation row_key :: "subscription_row \<Rightarrow> bytes \<times> bytes \<times> bytes" where
  "row_key r \<equiv> (sr_subscriber r, sr_channel r, sr_owner r)"

text \<open>The upsert: a new key is inserted last, a known one has its \<open>last_refreshed\<close> replaced.\<close>

definition put_entry :: "subscription_entry \<Rightarrow> subscription_db \<Rightarrow> subscription_db" where
  "put_entry e db = (let row = row_of_entry e in
     if row_key row \<in> row_key ` set (sd_rows db)
     then db\<lparr>sd_rows := map (\<lambda>r. if row_key r = row_key row then r\<lparr>sr_refreshed := sr_refreshed row\<rparr> else r) (sd_rows db)\<rparr>
     else db\<lparr>sd_rows := sd_rows db @ [row]\<rparr>)"

definition delete_where :: "(subscription_row \<Rightarrow> bool) \<Rightarrow> subscription_db \<Rightarrow> subscription_db" where
  "delete_where p db = db\<lparr>sd_rows := filter (\<lambda>r. \<not> p r) (sd_rows db)\<rparr>"

section \<open>Loading\<close>

definition start_renewal_clock :: "bool \<Rightarrow> txn \<Rightarrow> secs \<Rightarrow> subscription_db \<Rightarrow> subscription_db" where
  "start_renewal_clock readable r started db =
     (if \<not> readable then db
      else if RENEWAL_CLOCK_VERSION \<le> sd_version db then db
      else (case write_all r (\<lambda>db. db\<lparr>sd_rows := map (\<lambda>row. if sr_owner row = [] \<and> sr_refreshed row < started
                   then row\<lparr>sr_refreshed := started\<rparr> else row) (sd_rows db),
                 sd_version := RENEWAL_CLOCK_VERSION\<rparr>) (Some db) of
              Some db' \<Rightarrow> db' | None \<Rightarrow> db))"

definition read_entries :: "subscription_db \<Rightarrow> subscription_entry list" where
  "read_entries db = map entry_of_row (sd_rows db)"

text \<open>
  \<open>load\<close>: \<open>r\<close> and \<open>r'\<close> are what became of the import and of the clock's transaction,
  \<open>version_ok\<close> and \<open>read_ok\<close> whether the two queries succeeded.
\<close>

definition load_subscriptions :: "txn \<Rightarrow> bool \<Rightarrow> txn \<Rightarrow> secs \<Rightarrow> bool \<Rightarrow> subscription_db option \<Rightarrow>
    subscription_entry list legacy_file \<Rightarrow> subscription_table" where
  "load_subscriptions r version_ok r' started read_ok opened legacy = (case opened of
      Some db \<Rightarrow>
        (let db' = start_renewal_clock version_ok r' started (fst (import_legacy r (fold put_entry) legacy db))
         in \<lparr>st_entries = (if read_ok then read_entries db' else []), st_db = Some db'\<rparr>)
    | None \<Rightarrow>
        \<lparr>st_entries = map (\<lambda>e. if se_owner e = None then e\<lparr>se_refreshed := max (se_refreshed e) started\<rparr> else e)
           (case read_legacy legacy of Inr old \<Rightarrow> old | Inl _ \<Rightarrow> []), st_db = None\<rparr>)"

section \<open>Operations\<close>

definition of_pair :: "bytes \<Rightarrow> bytes \<Rightarrow> subscription_entry \<Rightarrow> bool" where
  "of_pair sub chan e \<longleftrightarrow> se_subscriber e = sub \<and> se_channel e = chan"

definition due :: "secs \<Rightarrow> bytes \<Rightarrow> bytes \<Rightarrow> subscription_entry \<Rightarrow> bool" where
  "due t sub chan e \<longleftrightarrow> of_pair sub chan e \<and> se_owner e = None \<and> RENEWAL_WRITE_INTERVAL_SECS \<le> t - se_refreshed e"

text \<open>The entry written is the last one the loop renewed.\<close>

definition renew :: "txn \<Rightarrow> secs \<Rightarrow> bytes \<Rightarrow> bytes \<Rightarrow> subscription_table \<Rightarrow> bool \<times> subscription_table" where
  "renew r t sub chan s =
     (let entries = map (\<lambda>e. if due t sub chan e then e\<lparr>se_refreshed := t\<rparr> else e) (st_entries s);
          renewed = filter (due t sub chan) (st_entries s);
          db = (if renewed = [] then st_db s
                else write_one r (put_entry ((last renewed)\<lparr>se_refreshed := t\<rparr>)) (st_db s))
      in (list_ex (of_pair sub chan) (st_entries s), s\<lparr>st_entries := entries, st_db := db\<rparr>))"

definition subscribe :: "txn \<Rightarrow> secs \<Rightarrow> secs \<Rightarrow> bytes \<Rightarrow> bytes \<Rightarrow> subscription_table \<Rightarrow> subscription_table" where
  "subscribe r t t' sub chan s =
     (let (held, s') = renew r t sub chan s in
      if held then s'
      else (let e = \<lparr>se_subscriber = sub, se_channel = chan, se_added = t', se_owner = None, se_refreshed = t'\<rparr>
            in s'\<lparr>st_entries := st_entries s' @ [e], st_db := write_one r (put_entry e) (st_db s')\<rparr>))"

definition stale_on :: "bytes \<Rightarrow> secs \<Rightarrow> subscription_entry \<Rightarrow> bool" where
  "stale_on chan cutoff e \<longleftrightarrow> se_owner e = None \<and> se_channel e = chan \<and> se_refreshed e < cutoff"

definition expire_stale :: "txn \<Rightarrow> secs \<Rightarrow> bytes \<Rightarrow> secs \<Rightarrow> subscription_table \<Rightarrow> bytes list \<times> subscription_table" where
  "expire_stale r t chan max_age s =
     (let cutoff = t - max_age;
          expired = map se_subscriber (filter (stale_on chan cutoff) (st_entries s));
          s' = s\<lparr>st_entries := filter (\<lambda>e. \<not> stale_on chan cutoff e) (st_entries s)\<rparr>
      in (expired, if expired \<noteq> []
            then s'\<lparr>st_db := write_all r (fold (\<lambda>sub. delete_where (\<lambda>row. sr_subscriber row = sub \<and>
                   sr_channel row = chan \<and> sr_owner row = [])) expired) (st_db s)\<rparr>
            else s'))"

definition subscribe_backup :: "txn \<Rightarrow> secs \<Rightarrow> bytes \<Rightarrow> bytes \<Rightarrow> bytes \<Rightarrow> subscription_table \<Rightarrow> subscription_table" where
  "subscribe_backup r t sub chan owner s =
     (case position (\<lambda>e. of_pair sub chan e \<and> se_owner e = Some owner) (st_entries s) of
        Some i \<Rightarrow> (let e = (st_entries s ! i)\<lparr>se_refreshed := t\<rparr>
                   in s\<lparr>st_entries := (st_entries s)[i := e], st_db := write_one r (put_entry e) (st_db s)\<rparr>)
      | None \<Rightarrow> (let e = \<lparr>se_subscriber = sub, se_channel = chan, se_added = t, se_owner = Some owner, se_refreshed = t\<rparr>
                 in s\<lparr>st_entries := st_entries s @ [e], st_db := write_one r (put_entry e) (st_db s)\<rparr>))"

definition unsubscribe :: "txn \<Rightarrow> bytes \<Rightarrow> bytes \<Rightarrow> subscription_table \<Rightarrow> subscription_table" where
  "unsubscribe r sub chan s =
     (let s' = s\<lparr>st_entries := filter (\<lambda>e. \<not> of_pair sub chan e) (st_entries s)\<rparr>
      in if length (st_entries s') \<noteq> length (st_entries s)
         then s'\<lparr>st_db := write_one r (delete_where (\<lambda>row. sr_subscriber row = sub \<and> sr_channel row = chan)) (st_db s)\<rparr>
         else s')"

definition prune_stale_backups :: "txn \<Rightarrow> secs \<Rightarrow> secs \<Rightarrow> subscription_table \<Rightarrow> nat \<times> subscription_table" where
  "prune_stale_backups r t max_age s =
     (let cutoff = t - max_age;
          s' = s\<lparr>st_entries := filter (\<lambda>e. se_owner e = None \<or> cutoff \<le> se_refreshed e) (st_entries s)\<rparr>;
          pruned = length (st_entries s) - length (st_entries s')
      in (pruned, if pruned > 0
            then s'\<lparr>st_db := write_one r (delete_where (\<lambda>row. sr_owner row \<noteq> [] \<and> sr_refreshed row < cutoff)) (st_db s)\<rparr>
            else s'))"

section \<open>Queries\<close>

definition get_subscribers :: "bytes \<Rightarrow> subscription_table \<Rightarrow> bytes list" where
  "get_subscribers chan s = map se_subscriber (filter (\<lambda>e. se_channel e = chan) (st_entries s))"

definition subscribed_channel_hashes :: "subscription_table \<Rightarrow> bytes list" where
  "subscribed_channel_hashes s = first_occurrences (map se_channel (st_entries s))"

definition get_channels_for :: "bytes \<Rightarrow> subscription_table \<Rightarrow> bytes list" where
  "get_channels_for sub s = map se_channel (filter (\<lambda>e. se_subscriber e = sub) (st_entries s))"

definition has_subscriber :: "bytes \<Rightarrow> subscription_table \<Rightarrow> bool" where
  "has_subscriber sub s = list_ex (\<lambda>e. se_subscriber e = sub) (st_entries s)"

definition is_subscribed :: "bytes \<Rightarrow> bytes \<Rightarrow> subscription_table \<Rightarrow> bool" where
  "is_subscribed sub chan s = list_ex (of_pair sub chan) (st_entries s)"

definition get_subscribers_with_owner :: "bytes \<Rightarrow> subscription_table \<Rightarrow> (bytes \<times> bytes option) list" where
  "get_subscribers_with_owner chan s =
     map (\<lambda>e. (se_subscriber e, se_owner e)) (filter (\<lambda>e. se_channel e = chan) (st_entries s))"

definition backup_entries_for_tick :: "subscription_table \<Rightarrow> (bytes \<times> bytes \<times> bytes) list" where
  "backup_entries_for_tick s = List.map_filter
     (\<lambda>e. map_option (\<lambda>n. (se_subscriber e, se_channel e, n)) (se_owner e)) (st_entries s)"

section \<open>Memory and rows\<close>

abbreviation entry_key :: "subscription_entry \<Rightarrow> bytes \<times> bytes \<times> bytes option" where
  "entry_key e \<equiv> (se_subscriber e, se_channel e, se_owner e)"

definition sub_wf :: "subscription_table \<Rightarrow> bool" where
  "sub_wf s \<longleftrightarrow> distinct (map entry_key (st_entries s)) \<and> (\<forall>e \<in> set (st_entries s). se_owner e \<noteq> Some [])"

definition sub_rows :: "subscription_table \<Rightarrow> subscription_row list option" where
  "sub_rows s = map_option sd_rows (st_db s)"

lemma row_of_entry_sel [simp]:
  "sr_subscriber (row_of_entry e) = se_subscriber e" "sr_channel (row_of_entry e) = se_channel e"
  "sr_refreshed (row_of_entry e) = se_refreshed e" "sr_added (row_of_entry e) = se_added e"
  "sr_owner (row_of_entry e) = (case se_owner e of None \<Rightarrow> [] | Some n \<Rightarrow> n)"
  by (simp_all add: row_of_entry_def)

lemma row_refreshed: "row_of_entry (e\<lparr>se_refreshed := t\<rparr>) = (row_of_entry e)\<lparr>sr_refreshed := t\<rparr>"
  by (simp add: row_of_entry_def)

lemma entry_of_row_of_entry: "se_owner e \<noteq> Some [] \<Longrightarrow> entry_of_row (row_of_entry e) = e"
  by (cases e) (auto simp: entry_of_row_def row_of_entry_def split: option.splits)

lemma same_row_key: "se_owner e \<noteq> Some [] \<Longrightarrow> se_owner e' \<noteq> Some [] \<Longrightarrow>
    row_key (row_of_entry e) = row_key (row_of_entry e') \<longleftrightarrow> entry_key e = entry_key e'"
  by (auto split: option.splits)

lemma put_new:
  assumes "sd_rows db = map row_of_entry es" and "\<forall>e' \<in> set es. se_owner e' \<noteq> Some []" and "se_owner e \<noteq> Some []"
    and "entry_key e \<notin> entry_key ` set es"
  shows "sd_rows (put_entry e db) = map row_of_entry (es @ [e])"
proof -
  have "row_key (row_of_entry e) \<notin> row_key ` set (sd_rows db)"
  proof
    assume "row_key (row_of_entry e) \<in> row_key ` set (sd_rows db)"
    then obtain e' where e': "e' \<in> set es" "row_key (row_of_entry e) = row_key (row_of_entry e')"
      unfolding assms(1) by auto
    with same_row_key [of e e'] assms(2,3) have "entry_key e = entry_key e'" by blast
    with e'(1) assms(4) show False by force
  qed
  then show ?thesis using assms(1) by (simp add: put_entry_def Let_def)
qed

lemma put_known:
  assumes rows: "sd_rows db = map row_of_entry es" and owners: "\<forall>e' \<in> set es. se_owner e' \<noteq> Some []" and e: "e \<in> set es"
  shows "sd_rows (put_entry (e\<lparr>se_refreshed := t\<rparr>) db) =
    map row_of_entry (map (\<lambda>e'. if entry_key e' = entry_key e then e'\<lparr>se_refreshed := t\<rparr> else e') es)"
proof -
  have "row_key (row_of_entry (e\<lparr>se_refreshed := t\<rparr>)) \<in> row_key ` set (sd_rows db)"
    using e by (force simp: rows)
  moreover have "row_key (row_of_entry e') = row_key (row_of_entry e) \<longleftrightarrow> entry_key e' = entry_key e"
    if "e' \<in> set es" for e'
    using same_row_key [of e' e] owners e that by blast
  ultimately show ?thesis
    by (auto simp: put_entry_def Let_def rows row_refreshed simp del: row_of_entry_sel)
qed

lemma due_key: "due t sub chan e \<Longrightarrow> entry_key e = (sub, chan, None)"
  by (simp add: due_def of_pair_def)

lemma due_only_one:
  assumes wf: "distinct (map entry_key es)" and e: "e \<in> set es" "due t sub chan e" and e': "e' \<in> set es"
  shows "due t sub chan e' \<longleftrightarrow> entry_key e' = entry_key e"
proof
  show "due t sub chan e' \<Longrightarrow> entry_key e' = entry_key e" using due_key e(2) by simp
  assume "entry_key e' = entry_key e"
  then have "e' = e" using wf e(1) e' by (simp add: distinct_map inj_on_def)
  with e(2) show "due t sub chan e'" by simp
qed

lemma renew_entries:
  assumes wf: "sub_wf s" and rows: "st_db s = Some db" "sd_rows db = map row_of_entry (st_entries s)"
  shows "\<exists>db'. st_db (snd (renew Committed t sub chan s)) = Some db' \<and>
    sd_rows db' = map row_of_entry (st_entries (snd (renew Committed t sub chan s)))"
proof (cases "filter (due t sub chan) (st_entries s) = []")
  case True
  then have "map (\<lambda>e. if due t sub chan e then e\<lparr>se_refreshed := t\<rparr> else e) (st_entries s) = st_entries s"
    by (auto intro: map_idI simp: filter_empty_conv)
  with True rows show ?thesis by (simp add: renew_def Let_def)
next
  case False
  let ?e = "last (filter (due t sub chan) (st_entries s))"
  from last_in_set [OF False] have e: "?e \<in> set (st_entries s)" "due t sub chan ?e" by auto
  from wf have d: "distinct (map entry_key (st_entries s))" and o: "\<forall>e \<in> set (st_entries s). se_owner e \<noteq> Some []"
    by (auto simp: sub_wf_def)
  have "map (\<lambda>e. if due t sub chan e then e\<lparr>se_refreshed := t\<rparr> else e) (st_entries s) =
      map (\<lambda>e'. if entry_key e' = entry_key ?e then e'\<lparr>se_refreshed := t\<rparr> else e') (st_entries s)"
  proof (rule map_cong [OF refl])
    fix e' assume "e' \<in> set (st_entries s)"
    from due_only_one [OF d e this] show "(if due t sub chan e' then e'\<lparr>se_refreshed := t\<rparr> else e') =
        (if entry_key e' = entry_key ?e then e'\<lparr>se_refreshed := t\<rparr> else e')" by simp
  qed
  with put_known [OF rows(2) o e(1)] False rows show ?thesis by (simp add: renew_def Let_def)
qed

lemma refreshed_keys:
  "map entry_key (map (\<lambda>e. if p e then e\<lparr>se_refreshed := t\<rparr> else e) es) = map entry_key es"
  by (induction es) auto

lemma renew_wf: "sub_wf s \<Longrightarrow> sub_wf (snd (renew r t sub chan s))"
proof -
  assume wf: "sub_wf s"
  have "map entry_key (st_entries (snd (renew r t sub chan s))) = map entry_key (st_entries s)"
    by (simp add: renew_def Let_def refreshed_keys del: map_map)
  then have "distinct (map entry_key (st_entries (snd (renew r t sub chan s))))" using wf by (simp add: sub_wf_def)
  moreover have "\<forall>e \<in> set (st_entries (snd (renew r t sub chan s))). se_owner e \<noteq> Some []"
    using wf by (auto simp: sub_wf_def renew_def Let_def)
  ultimately show ?thesis by (simp add: sub_wf_def)
qed

lemma append_wf:
  "sub_wf s \<Longrightarrow> entry_key e \<notin> entry_key ` set (st_entries s) \<Longrightarrow> se_owner e \<noteq> Some [] \<Longrightarrow>
    sub_wf (s\<lparr>st_entries := st_entries s @ [e], st_db := db\<rparr>)"
  by (auto simp: sub_wf_def)

lemma filter_wf: "sub_wf s \<Longrightarrow> st_entries s' = filter p (st_entries s) \<Longrightarrow> sub_wf s'"
  by (auto simp: sub_wf_def distinct_map_filter)

lemma filter_rows:
  assumes "sd_rows db = map row_of_entry es" and "\<forall>e \<in> set es. q (row_of_entry e) \<longleftrightarrow> \<not> p e"
  shows "sd_rows (delete_where q db) = map row_of_entry (filter p es)"
  using assms by (auto simp: delete_where_def filter_map comp_def intro!: arg_cong [where f = "map row_of_entry"] filter_cong)

lemma fold_delete_where:
  "sd_rows (fold (\<lambda>x. delete_where (q x)) xs db) = filter (\<lambda>row. \<forall>x \<in> set xs. \<not> q x row) (sd_rows db)"
  by (induction xs arbitrary: db) (auto simp: delete_where_def intro!: filter_cong)

section \<open>Steps\<close>

text \<open>Any operation, its writes committed; a backup's owner is a node's hash, so not empty.\<close>

inductive sub_step :: "subscription_table \<Rightarrow> subscription_table \<Rightarrow> bool" where
  sub_renew: "sub_step s (snd (renew Committed t sub chan s))"
| sub_subscribe: "sub_step s (subscribe Committed t t' sub chan s)"
| sub_expire: "sub_step s (snd (expire_stale Committed t chan max_age s))"
| sub_backup: "owner \<noteq> [] \<Longrightarrow> sub_step s (subscribe_backup Committed t sub chan owner s)"
| sub_unsubscribe: "sub_step s (unsubscribe Committed sub chan s)"
| sub_prune: "sub_step s (snd (prune_stale_backups Committed t max_age s))"

lemma renew_false: "\<not> fst (renew r t sub chan s) \<Longrightarrow> snd (renew r t sub chan s) = s \<and> (sub, chan, None) \<notin> entry_key ` set (st_entries s)"
proof -
  assume "\<not> fst (renew r t sub chan s)"
  then have no: "\<forall>e \<in> set (st_entries s). \<not> of_pair sub chan e" by (auto simp: renew_def Let_def list_ex_iff)
  then have "filter (due t sub chan) (st_entries s) = []"
      "map (\<lambda>e. if due t sub chan e then e\<lparr>se_refreshed := t\<rparr> else e) (st_entries s) = st_entries s"
    by (auto simp: due_def filter_empty_conv intro: map_idI)
  with no show ?thesis by (auto simp: renew_def Let_def of_pair_def)
qed

lemma subscribe_cases:
  obtains "subscribe r t t' sub chan s = snd (renew r t sub chan s)"
  | e where "e = \<lparr>se_subscriber = sub, se_channel = chan, se_added = t', se_owner = None, se_refreshed = t'\<rparr>"
      and "entry_key e \<notin> entry_key ` set (st_entries s)"
      and "subscribe r t t' sub chan s = s\<lparr>st_entries := st_entries s @ [e], st_db := write_one r (put_entry e) (st_db s)\<rparr>"
proof (cases "fst (renew r t sub chan s)")
  case True
  then show thesis using that(1) by (simp add: subscribe_def case_prod_unfold)
next
  case False
  from renew_false [OF this] False that(2) show thesis by (simp add: subscribe_def case_prod_unfold Let_def)
qed

lemma sub_step_wf: "sub_step s s' \<Longrightarrow> sub_wf s \<Longrightarrow> sub_wf s'"
proof (induction rule: sub_step.induct)
  case (sub_subscribe s t t' sub chan)
  show ?case by (rule subscribe_cases [of Committed t t' sub chan s]) (use sub_subscribe renew_wf append_wf in auto)
next
  case (sub_backup owner s t sub chan)
  show ?case
  proof (cases "position (\<lambda>e. of_pair sub chan e \<and> se_owner e = Some owner) (st_entries s)")
    case None
    let ?e = "\<lparr>se_subscriber = sub, se_channel = chan, se_added = t, se_owner = Some owner, se_refreshed = t\<rparr>"
    from None have "entry_key ?e \<notin> entry_key ` set (st_entries s)" by (auto simp: position_None_iff of_pair_def)
    from append_wf [OF sub_backup(2) this] sub_backup(1) None show ?thesis
      by (simp add: subscribe_backup_def Let_def)
  next
    case (Some i)
    from position_Some [OF this] have i: "i < length (st_entries s)" by simp
    then have "map entry_key ((st_entries s)[i := (st_entries s ! i)\<lparr>se_refreshed := t\<rparr>]) = map entry_key (st_entries s)"
      by (simp add: map_update) (metis (no_types, lifting) length_map list_update_id nth_map)
    with Some sub_backup i show ?thesis
      by (auto simp: subscribe_backup_def Let_def sub_wf_def dest!: set_update_subset_insert [THEN subsetD])
  qed
next
  case (sub_expire s t chan max_age)
  then show ?case
    by (rule filter_wf [where p = "\<lambda>e. \<not> stale_on chan (t - max_age) e"]) (simp add: expire_stale_def Let_def)
next
  case (sub_unsubscribe s sub chan)
  then show ?case
    by (rule filter_wf [where p = "\<lambda>e. \<not> of_pair sub chan e"]) (simp add: unsubscribe_def Let_def)
next
  case (sub_prune s t max_age)
  then show ?case
    by (rule filter_wf [where p = "\<lambda>e. se_owner e = None \<or> t - max_age \<le> se_refreshed e"])
      (simp add: prune_stale_backups_def Let_def)
qed (rule renew_wf)

lemma sub_step_mirror:
  "sub_step s s' \<Longrightarrow> sub_wf s \<Longrightarrow> sub_rows s = Some (map row_of_entry (st_entries s)) \<Longrightarrow>
    sub_rows s' = Some (map row_of_entry (st_entries s'))"
proof (induction rule: sub_step.induct)
  case (sub_renew s t sub chan)
  then show ?case using renew_entries [of s] by (fastforce simp: sub_rows_def)
next
  case (sub_subscribe s t t' sub chan)
  then obtain db where db: "st_db s = Some db" "sd_rows db = map row_of_entry (st_entries s)"
    by (auto simp: sub_rows_def)
  show ?case
  proof (rule subscribe_cases [of Committed t t' sub chan s])
    assume "subscribe Committed t t' sub chan s = snd (renew Committed t sub chan s)"
    with renew_entries [OF sub_subscribe(1) db] show ?thesis by (auto simp: sub_rows_def)
  next
    fix e assume e: "e = \<lparr>se_subscriber = sub, se_channel = chan, se_added = t', se_owner = None, se_refreshed = t'\<rparr>"
      "entry_key e \<notin> entry_key ` set (st_entries s)"
      "subscribe Committed t t' sub chan s = s\<lparr>st_entries := st_entries s @ [e], st_db := write_one Committed (put_entry e) (st_db s)\<rparr>"
    with put_new [OF db(2) _ _ e(2)] sub_subscribe(1) db(1) show ?thesis by (simp add: sub_rows_def sub_wf_def)
  qed
next
  case (sub_expire s t chan max_age)
  then obtain db where db: "st_db s = Some db" "sd_rows db = map row_of_entry (st_entries s)"
    by (auto simp: sub_rows_def)
  let ?stale = "stale_on chan (t - max_age)"
  let ?gone = "map se_subscriber (filter ?stale (st_entries s))"
  have d: "distinct (map entry_key (st_entries s))" and o: "\<forall>e \<in> set (st_entries s). se_owner e \<noteq> Some []"
    using sub_expire(1) by (auto simp: sub_wf_def)
  have same: "(\<forall>x \<in> set ?gone. \<not> (se_subscriber e = x \<and> se_channel e = chan \<and> (case se_owner e of None \<Rightarrow> [] | Some n \<Rightarrow> n) = []))
      \<longleftrightarrow> \<not> ?stale e" if e: "e \<in> set (st_entries s)" for e
  proof
    assume "\<forall>x \<in> set ?gone. \<not> (se_subscriber e = x \<and> se_channel e = chan \<and> (case se_owner e of None \<Rightarrow> [] | Some n \<Rightarrow> n) = [])"
    with e show "\<not> ?stale e" by (auto simp: stale_on_def)
  next
    assume fresh: "\<not> ?stale e"
    show "\<forall>x \<in> set ?gone. \<not> (se_subscriber e = x \<and> se_channel e = chan \<and> (case se_owner e of None \<Rightarrow> [] | Some n \<Rightarrow> n) = [])"
    proof (intro ballI notI)
      fix x assume "x \<in> set ?gone" and ex: "se_subscriber e = x \<and> se_channel e = chan \<and> (case se_owner e of None \<Rightarrow> [] | Some n \<Rightarrow> n) = []"
      then obtain e' where e': "e' \<in> set (st_entries s)" "?stale e'" "se_subscriber e' = x" by auto
      from ex o e have "se_owner e = None" by (cases "se_owner e") auto
      with e' ex have "entry_key e = entry_key e'" by (simp add: stale_on_def)
      then have "e = e'" using d e e'(1) by (simp add: distinct_map inj_on_def)
      with fresh e'(2) show False by simp
    qed
  qed
  have "filter (\<lambda>row. \<forall>x \<in> set ?gone. \<not> (sr_subscriber row = x \<and> sr_channel row = chan \<and> sr_owner row = [])) (sd_rows db)
      = map row_of_entry (filter (\<lambda>e. \<not> ?stale e) (st_entries s))"
    unfolding db(2) filter_map comp_def row_of_entry_sel
    by (intro arg_cong [where f = "map row_of_entry"] filter_cong refl same)
  moreover have "filter (\<lambda>e. \<not> ?stale e) (st_entries s) = st_entries s" if "?gone = []"
    using that by (auto simp: filter_empty_conv intro!: filter_True)
  ultimately show ?case using db
    by (cases "?gone = []") (simp_all add: expire_stale_def Let_def sub_rows_def fold_delete_where)
next
  case (sub_backup owner s t sub chan)
  then obtain db where db: "st_db s = Some db" "sd_rows db = map row_of_entry (st_entries s)"
    by (auto simp: sub_rows_def)
  have d: "distinct (map entry_key (st_entries s))" and o: "\<forall>e \<in> set (st_entries s). se_owner e \<noteq> Some []"
    using sub_backup(2) by (auto simp: sub_wf_def)
  show ?case
  proof (cases "position (\<lambda>e. of_pair sub chan e \<and> se_owner e = Some owner) (st_entries s)")
    case None
    let ?e = "\<lparr>se_subscriber = sub, se_channel = chan, se_added = t, se_owner = Some owner, se_refreshed = t\<rparr>"
    from None have "entry_key ?e \<notin> entry_key ` set (st_entries s)" by (auto simp: position_None_iff of_pair_def)
    from put_new [OF db(2) o _ this] sub_backup(1) None db show ?thesis
      by (simp add: subscribe_backup_def Let_def sub_rows_def)
  next
    case (Some i)
    let ?e = "st_entries s ! i"
    from position_Some [OF Some] have i: "i < length (st_entries s)" by simp
    have "(st_entries s)[i := ?e\<lparr>se_refreshed := t\<rparr>] =
        map (\<lambda>e'. if entry_key e' = entry_key ?e then e'\<lparr>se_refreshed := t\<rparr> else e') (st_entries s)"
    proof (rule nth_equalityI)
      fix j assume j: "j < length ((st_entries s)[i := ?e\<lparr>se_refreshed := t\<rparr>])"
      then have "entry_key (st_entries s ! j) = entry_key ?e \<longleftrightarrow> j = i"
        using nth_eq_iff_index_eq [OF d, of j i] i by simp
      with j i show "(st_entries s)[i := ?e\<lparr>se_refreshed := t\<rparr>] ! j =
          map (\<lambda>e'. if entry_key e' = entry_key ?e then e'\<lparr>se_refreshed := t\<rparr> else e') (st_entries s) ! j"
        by (auto simp: nth_list_update)
    qed simp
    with put_known [OF db(2) o nth_mem [OF i], of t] Some db show ?thesis
      by (simp add: subscribe_backup_def Let_def sub_rows_def)
  qed
next
  case (sub_unsubscribe s sub chan)
  then obtain db where db: "st_db s = Some db" "sd_rows db = map row_of_entry (st_entries s)"
    by (auto simp: sub_rows_def)
  let ?es = "filter (\<lambda>e. \<not> of_pair sub chan e) (st_entries s)"
  have "sd_rows (delete_where (\<lambda>row. sr_subscriber row = sub \<and> sr_channel row = chan) db) = map row_of_entry ?es"
    by (rule filter_rows [OF db(2)]) (simp add: of_pair_def)
  moreover have "length ?es = length (st_entries s) \<Longrightarrow> ?es = st_entries s"
    by (metis (no_types, lifting) filter_id_conv length_filter_less less_irrefl)
  ultimately show ?case using db by (auto simp: unsubscribe_def Let_def sub_rows_def)
next
  case (sub_prune s t max_age)
  then obtain db where db: "st_db s = Some db" "sd_rows db = map row_of_entry (st_entries s)"
    by (auto simp: sub_rows_def)
  have o: "\<forall>e \<in> set (st_entries s). se_owner e \<noteq> Some []" using sub_prune(1) by (auto simp: sub_wf_def)
  let ?es = "filter (\<lambda>e. se_owner e = None \<or> t - max_age \<le> se_refreshed e) (st_entries s)"
  have "sd_rows (delete_where (\<lambda>row. sr_owner row \<noteq> [] \<and> sr_refreshed row < t - max_age) db) = map row_of_entry ?es"
    by (rule filter_rows [OF db(2)]) (use o in \<open>auto simp: not_le split: option.splits\<close>)
  moreover have "\<not> length ?es < length (st_entries s) \<Longrightarrow> ?es = st_entries s"
    by (metis (no_types, lifting) filter_id_conv length_filter_less)
  ultimately show ?case using db by (auto simp: prune_stale_backups_def Let_def sub_rows_def)
qed

interpretation subs: mirrored_store st_entries sub_rows row_of_entry entry_of_row sub_wf sub_step
  by unfold_locales (blast intro: sub_step_wf sub_step_mirror | simp add: sub_wf_def entry_of_row_of_entry)+

section \<open>Properties\<close>

lemma load_memory_wf_witness_facts:
  "sub_wf (load_subscriptions Committed True Committed 0 True (Some \<lparr>sd_rows = [], sd_version = 0\<rparr>) NoFile)"
  "sub_rows (load_subscriptions Committed True Committed 0 True (Some \<lparr>sd_rows = [], sd_version = 0\<rparr>) NoFile) = Some []"
  "st_entries (load_subscriptions Committed True Committed 0 True (Some \<lparr>sd_rows = [], sd_version = 0\<rparr>) NoFile) = []"
  by (simp_all add: load_subscriptions_def start_renewal_clock_def read_entries_def sub_wf_def sub_rows_def
      Let_def RENEWAL_CLOCK_VERSION_def)

text \<open>
  A restart finds the subscriptions as they were. From a table whose rows are its
  entries, after any committed run of subscriptions, renewals, backups, unsubscriptions and
  expiries, reading the database back gives the entries in memory, in their order, and no
  two entries have the same subscriber, channel and owner.
\<close>

theorem subscriptions_survive_restart:
  assumes "sub_step\<^sup>*\<^sup>* s s'" and "sub_wf s" and "sub_rows s = Some (map row_of_entry (st_entries s))"
  shows "map_option (map entry_of_row) (sub_rows s') = Some (st_entries s') \<and> sub_wf s'"
  using subs.restart_reads_entries [OF assms] subs.run_wf [OF assms(1,2)] by blast

theorem subscriptions_survive_restart_witness:
  "let s = load_subscriptions Committed True Committed 0 True (Some \<lparr>sd_rows = [], sd_version = 0\<rparr>) NoFile;
       s' = subscribe_backup Committed 7 [2] [9] [3] (subscribe Committed 5 6 [1] [9] s)
   in map_option (map entry_of_row) (sub_rows s') = Some (st_entries s') \<and> length (st_entries s') = 2"
proof -
  let ?s = "load_subscriptions Committed True Committed 0 True (Some \<lparr>sd_rows = [], sd_version = 0\<rparr>) NoFile"
  let ?s1 = "subscribe Committed 5 6 [1] [9] ?s" let ?s' = "subscribe_backup Committed 7 [2] [9] [3] ?s1"
  note facts = load_memory_wf_witness_facts
  have "sub_step ?s ?s1" "sub_step ?s1 ?s'" by (rule sub_subscribe, rule sub_backup) simp
  then have "sub_step\<^sup>*\<^sup>* ?s ?s'" by (meson converse_rtranclp_into_rtranclp rtranclp.rtrancl_refl)
  from subscriptions_survive_restart [OF this] facts
  have "map_option (map entry_of_row) (sub_rows ?s') = Some (st_entries ?s')" by simp
  moreover have "length (st_entries ?s') = 2"
    using facts(3) by (simp add: subscribe_def subscribe_backup_def renew_def Let_def of_pair_def)
  ultimately show ?thesis by (simp add: Let_def)
qed

lemma renew_fresh:
  assumes "e \<in> set (st_entries (snd (renew r t sub chan s)))" and "of_pair sub chan e" and "se_owner e = None"
  shows "t - RENEWAL_WRITE_INTERVAL_SECS < se_refreshed e"
proof -
  from assms(1) obtain e0 where e0: "e0 \<in> set (st_entries s)" "e = (if due t sub chan e0 then e0\<lparr>se_refreshed := t\<rparr> else e0)"
    by (auto simp: renew_def Let_def)
  with assms(2,3) show ?thesis
    by (cases "due t sub chan e0") (auto simp: due_def of_pair_def RENEWAL_WRITE_INTERVAL_SECS_def)
qed

text \<open>
  Who renews is not expired. A local subscription renewed (or found renewed) at time
  \<open>t\<close> is still there after the fan-out's expiry at any \<open>t'\<close> up to one hour short of the
  30 day lifetime later, a renewal within the hour of the last one writes nothing, and no other
  subscriber's entry changes.
\<close>

theorem renewed_subscription_not_expired:
  assumes "renew r t sub chan s = (True, s')" and "(sub, chan, None) \<in> entry_key ` set (st_entries s)"
    and "t' \<le> t + LOCAL_SUBSCRIPTION_LIFETIME_SECS - RENEWAL_WRITE_INTERVAL_SECS"
    and "expire_stale r' t' chan LOCAL_SUBSCRIPTION_LIFETIME_SECS s' = (gone, s2)"
  shows "is_subscribed sub chan s2 \<and> sub \<notin> set gone \<and>
    filter (\<lambda>e. \<not> of_pair sub chan e) (st_entries s') = filter (\<lambda>e. \<not> of_pair sub chan e) (st_entries s) \<and>
    ((\<forall>e \<in> set (st_entries s). of_pair sub chan e \<longrightarrow> t - se_refreshed e < RENEWAL_WRITE_INTERVAL_SECS) \<longrightarrow>
      st_db s' = st_db s)"
proof -
  let ?upd = "\<lambda>e. if due t sub chan e then e\<lparr>se_refreshed := t\<rparr> else e"
  from assms(1) have s': "st_entries s' = map ?upd (st_entries s)" and s'2: "s' = snd (renew r t sub chan s)"
    by (auto simp: renew_def Let_def)
  have fresh: "\<not> stale_on chan (t' - LOCAL_SUBSCRIPTION_LIFETIME_SECS) e" if "e \<in> set (st_entries s')" "of_pair sub chan e" for e
    using renew_fresh [of e r t sub chan s] that assms(3) s'2 by (auto simp: stale_on_def)
  from assms(2) obtain e where "e \<in> set (st_entries s)" "entry_key e = (sub, chan, None)" by force
  then have "?upd e \<in> set (st_entries s')" and pair: "of_pair sub chan (?upd e)" by (auto simp: s' of_pair_def)
  moreover have "st_entries s2 = filter (\<lambda>e. \<not> stale_on chan (t' - LOCAL_SUBSCRIPTION_LIFETIME_SECS) e) (st_entries s')"
    and gone: "gone = map se_subscriber (filter (stale_on chan (t' - LOCAL_SUBSCRIPTION_LIFETIME_SECS)) (st_entries s'))"
    using assms(4) by (auto simp: expire_stale_def Let_def)
  ultimately have "is_subscribed sub chan s2" using fresh by (auto simp: is_subscribed_def list_ex_iff)
  moreover have "sub \<notin> set gone"
  proof
    assume "sub \<in> set gone"
    then obtain x where x: "x \<in> set (st_entries s')" "stale_on chan (t' - LOCAL_SUBSCRIPTION_LIFETIME_SECS) x"
        "se_subscriber x = sub" by (auto simp: gone)
    then have "of_pair sub chan x" by (simp add: stale_on_def of_pair_def)
    from fresh [OF x(1) this] x(2) show False by simp
  qed
  moreover have "filter (\<lambda>e. \<not> of_pair sub chan e) (st_entries s') = filter (\<lambda>e. \<not> of_pair sub chan e) (st_entries s)"
  proof -
    have "filter (\<lambda>e. \<not> of_pair sub chan e) (map ?upd es) = filter (\<lambda>e. \<not> of_pair sub chan e) es" for es
      by (induction es) (auto simp: due_def of_pair_def)
    then show ?thesis by (simp only: s')
  qed
  moreover have "st_db s' = st_db s" if "\<forall>e \<in> set (st_entries s). of_pair sub chan e \<longrightarrow> t - se_refreshed e < RENEWAL_WRITE_INTERVAL_SECS"
    using that by (auto simp: s'2 renew_def Let_def filter_empty_conv due_def not_le)
  ultimately show ?thesis by blast
qed

theorem renewed_subscription_not_expired_witness:
  "let s = \<lparr>st_entries = [\<lparr>se_subscriber = [1], se_channel = [9], se_added = 0, se_owner = None, se_refreshed = 0\<rparr>], st_db = None\<rparr>;
       s' = snd (renew Committed 100 [1] [9] s)
   in is_subscribed [1] [9] (snd (expire_stale Committed 2588500 [9] LOCAL_SUBSCRIPTION_LIFETIME_SECS s'))"
proof -
  let ?s = "\<lparr>st_entries = [\<lparr>se_subscriber = [1], se_channel = [9], se_added = 0, se_owner = None, se_refreshed = 0\<rparr>], st_db = None\<rparr>"
  have "renew Committed 100 [1] [9] ?s = (True, snd (renew Committed 100 [1] [9] ?s))"
    by (simp add: renew_def Let_def of_pair_def)
  from renewed_subscription_not_expired [OF this, of 2588500 Committed]
  show ?thesis by (simp add: Let_def LOCAL_SUBSCRIPTION_LIFETIME_SECS_def RENEWAL_WRITE_INTERVAL_SECS_def prod_eq_iff)
qed

text \<open>
  A subscription asked for while only a backup row is held is not registered. When
  another node's backup row names the pair, \<open>subscribe\<close> answers from it: the table is
  unchanged, and once the owner stops refreshing, the pruning leaves the subscriber with no
  subscription here.
\<close>

theorem subscribe_over_backup_not_registered:
  "let s = subscribe_backup Committed 0 [1] [9] [3] \<lparr>st_entries = [], st_db = None\<rparr>;
       s' = subscribe Committed 50 50 [1] [9] s
   in s' = s \<and> \<not> is_subscribed [1] [9] (snd (prune_stale_backups Committed 100 60 s'))"
  by (simp add: subscribe_backup_def subscribe_def renew_def Let_def of_pair_def due_def is_subscribed_def
      prune_stale_backups_def)

end
