(* ===== verification/DistroTables.thy ===== *)
theory DistroTables
  imports StoreDb
begin

text \<open>
  \<open>rfed/src/distro.rs\<close>, the tables and the announce checks: \<open>distro_table\<close> is
  \<open>DistroTable\<close> (which devices a distro has), \<open>announce_store\<close> is \<open>DistroAnnounceStore\<close>
  (one pre-signed announce per distro), \<open>verify_distro_announce\<close> what the node checks
  before it rebroadcasts one. Both tables implement \<open>keyed_table\<close> and \<open>mirrored_store\<close>.
\<close>

section \<open>Device registrations\<close>

record distro_entry =
  di_distro :: bytes
  di_device :: bytes
  di_pubkey :: bytes
  di_added :: secs
  di_owner :: "bytes option"
  di_refreshed :: secs

record distro_table =
  dt_entries :: "distro_entry list"
  dt_db :: "distro_entry list option"

abbreviation device_key :: "distro_entry \<Rightarrow> bytes \<times> bytes" where
  "device_key e \<equiv> (di_distro e, di_device e)"

text \<open>\<open>INSERT OR IGNORE\<close> under the unique pair of hashes.\<close>

definition put_device :: "distro_entry \<Rightarrow> distro_entry list \<Rightarrow> distro_entry list" where
  "put_device e rows = (if device_key e \<in> device_key ` set rows then rows else rows @ [e])"

definition load_distro_table :: "txn \<Rightarrow> bool \<Rightarrow> distro_entry list option \<Rightarrow> distro_entry list legacy_file \<Rightarrow> distro_table" where
  "load_distro_table r read_ok opened legacy = (case opened of
      Some rows \<Rightarrow> (let rows' = fst (import_legacy r (fold put_device) legacy rows)
                    in \<lparr>dt_entries = (if read_ok then rows' else []), dt_db = Some rows'\<rparr>)
    | None \<Rightarrow> \<lparr>dt_entries = (case read_legacy legacy of Inr old \<Rightarrow> old | Inl _ \<Rightarrow> []), dt_db = None\<rparr>)"

definition register_device :: "txn \<Rightarrow> secs \<Rightarrow> bytes \<Rightarrow> bytes \<Rightarrow> bytes \<Rightarrow> distro_table \<Rightarrow> distro_table" where
  "register_device r t distro device pubkey s =
     (if list_ex (\<lambda>e. di_distro e = distro \<and> di_device e = device) (dt_entries s) then s
      else (let e = \<lparr>di_distro = distro, di_device = device, di_pubkey = pubkey, di_added = t,
                      di_owner = None, di_refreshed = t\<rparr>
            in s\<lparr>dt_entries := dt_entries s @ [e], dt_db := write_one r (put_device e) (dt_db s)\<rparr>))"

definition unregister_device :: "txn \<Rightarrow> bytes \<Rightarrow> bytes \<Rightarrow> distro_table \<Rightarrow> distro_table" where
  "unregister_device r distro device s =
     (let keep = filter (\<lambda>e. \<not> (di_distro e = distro \<and> di_device e = device));
          s' = s\<lparr>dt_entries := keep (dt_entries s)\<rparr>
      in if length (dt_entries s') \<noteq> length (dt_entries s)
         then s'\<lparr>dt_db := write_one r keep (dt_db s)\<rparr> else s')"

definition devices_snapshot :: "bytes \<Rightarrow> distro_table \<Rightarrow> distro_entry list" where
  "devices_snapshot distro s = filter (\<lambda>e. di_distro e = distro) (dt_entries s)"

definition is_distro :: "bytes \<Rightarrow> distro_table \<Rightarrow> bool" where
  "is_distro distro s = list_ex (\<lambda>e. di_distro e = distro) (dt_entries s)"

definition registered_distro_hashes :: "distro_table \<Rightarrow> bytes set" where
  "registered_distro_hashes s = di_distro ` set (dt_entries s)"

section \<open>Pre-signed announces\<close>

record distro_announce =
  an_distro :: bytes
  an_data :: bytes
  an_ratchet :: bool
  an_updated :: secs

record announce_store =
  as_entries :: "distro_announce list"
  as_db :: "distro_announce list option"

text \<open>\<open>INSERT OR REPLACE\<close>: a replaced announce gets a new row, at the end.\<close>

definition put_announce :: "distro_announce \<Rightarrow> distro_announce list \<Rightarrow> distro_announce list" where
  "put_announce a rows = filter (\<lambda>b. an_distro b \<noteq> an_distro a) rows @ [a]"

definition load_announces :: "txn \<Rightarrow> bool \<Rightarrow> distro_announce list option \<Rightarrow> distro_announce list legacy_file \<Rightarrow> announce_store" where
  "load_announces r read_ok opened legacy = (case opened of
      Some rows \<Rightarrow> (let rows' = fst (import_legacy r (fold put_announce) legacy rows)
                    in \<lparr>as_entries = (if read_ok then rows' else []), as_db = Some rows'\<rparr>)
    | None \<Rightarrow> \<lparr>as_entries = (case read_legacy legacy of Inr old \<Rightarrow> old | Inl _ \<Rightarrow> []), as_db = None\<rparr>)"

definition announce_put :: "txn \<Rightarrow> secs \<Rightarrow> bytes \<Rightarrow> bytes \<Rightarrow> bool \<Rightarrow> announce_store \<Rightarrow> announce_store" where
  "announce_put r t distro ann_data ratchet s =
     (let a = \<lparr>an_distro = distro, an_data = ann_data, an_ratchet = ratchet, an_updated = t\<rparr>
      in s\<lparr>as_entries := filter (\<lambda>e. an_distro e \<noteq> distro) (as_entries s) @ [a],
           as_db := write_one r (put_announce a) (as_db s)\<rparr>)"

definition announce_remove :: "txn \<Rightarrow> bytes \<Rightarrow> announce_store \<Rightarrow> announce_store" where
  "announce_remove r distro s =
     (let keep = filter (\<lambda>e. an_distro e \<noteq> distro); s' = s\<lparr>as_entries := keep (as_entries s)\<rparr>
      in if length (as_entries s') \<noteq> length (as_entries s)
         then s'\<lparr>as_db := write_one r keep (as_db s)\<rparr> else s')"

definition announce_get :: "bytes \<Rightarrow> announce_store \<Rightarrow> distro_announce option" where
  "announce_get distro s = List.find (\<lambda>e. an_distro e = distro) (as_entries s)"

section \<open>The announce payload\<close>

definition RATCHET_LEN :: nat where "RATCHET_LEN = 32"
definition ANNOUNCE_FIXED_LEN :: nat where "ANNOUNCE_FIXED_LEN = 64 + 10 + 10 + 64"

definition parse_distro_announce_payload :: "bytes \<Rightarrow> string + bool \<times> bytes" where
  "parse_distro_announce_payload v = (case v of
      [] \<Rightarrow> Inl ''empty announce payload''
    | flags # rest \<Rightarrow> Inr (and flags 1 \<noteq> 0, rest))"

datatype announce_error = TooShort nat nat | WrongKey | InvalidKey | NotLxmfDelivery | BadSignature

text \<open>
  What the check uses of Reticulum: \<open>delivery_of\<close> gives the \<open>lxmf.delivery\<close> destination of a
  public key (its name hash and its hash), nothing for an invalid key; \<open>validate\<close> checks a
  signature of a key over data.
\<close>

definition announce_field :: "nat \<Rightarrow> nat \<Rightarrow> bytes \<Rightarrow> bytes" where
  "announce_field first len d = take len (drop first d)"

definition signed_data :: "bytes \<Rightarrow> bytes \<Rightarrow> nat \<Rightarrow> bytes" where
  "signed_data dest_hash d ratchet_len =
     dest_hash @ announce_field 0 64 d @ announce_field 64 10 d @ announce_field 74 10 d @
     announce_field 84 ratchet_len d @ drop (84 + ratchet_len + 64) d"

definition verify_distro_announce :: "(bytes \<Rightarrow> (bytes \<times> bytes) option) \<Rightarrow> (bytes \<Rightarrow> bytes \<Rightarrow> bytes \<Rightarrow> bool) \<Rightarrow>
    bytes \<Rightarrow> bool \<Rightarrow> bytes \<Rightarrow> announce_error + bytes" where
  "verify_distro_announce delivery_of validate d ratchet expected =
     (let ratchet_len = (if ratchet then RATCHET_LEN else 0) in
      if length d < ANNOUNCE_FIXED_LEN + ratchet_len
      then Inl (TooShort (length d) (ANNOUNCE_FIXED_LEN + ratchet_len))
      else if announce_field 0 64 d \<noteq> expected then Inl WrongKey
      else (case delivery_of (announce_field 0 64 d) of
          None \<Rightarrow> Inl InvalidKey
        | Some (name_hash, dest_hash) \<Rightarrow>
            if name_hash \<noteq> announce_field 64 10 d then Inl NotLxmfDelivery
            else if \<not> validate (announce_field 0 64 d) (announce_field (84 + ratchet_len) 64 d)
                       (signed_data dest_hash d ratchet_len)
            then Inl BadSignature
            else Inr dest_hash))"

text \<open>The packet a replay sends: the destination of the stored key, the stored bytes, the ratchet flag.\<close>

definition replay_distro_announce :: "(bytes \<Rightarrow> (bytes \<times> bytes) option) \<Rightarrow> (bytes \<Rightarrow> bytes \<Rightarrow> bool \<Rightarrow> bool) \<Rightarrow>
    distro_announce \<Rightarrow> string + unit" where
  "replay_distro_announce delivery_of send a =
     (if length (an_data a) < 64 then Inl ''stored announce too short''
      else (case delivery_of (take 64 (an_data a)) of
          None \<Rightarrow> Inl ''stored announce pubkey invalid''
        | Some (_, dest_hash) \<Rightarrow> if send dest_hash (an_data a) (an_ratchet a) then Inr () else Inl ''announce send''))"

section \<open>Contracts of the tables\<close>

lemma unregister_entries: "dt_entries (unregister_device r distro device s) = filter (\<lambda>e. device_key e \<noteq> (distro, device)) (dt_entries s)"
  by (simp add: unregister_device_def Let_def)

lemma remove_entries: "as_entries (announce_remove r distro s) = filter (\<lambda>e. an_distro e \<noteq> distro) (as_entries s)"
  by (simp add: announce_remove_def Let_def)

interpretation devices: keyed_table dt_entries device_key
    "\<lambda>k (r, t, pubkey). register_device r t (fst k) (snd k) pubkey" "\<lambda>k. unregister_device r (fst k) (snd k)" for r
  by unfold_locales
    (auto simp: register_device_def list_ex_iff Let_def unregister_entries image_iff split: prod.splits)

interpretation announces: keyed_table as_entries an_distro
    "\<lambda>k (r, t, ann_data, ratchet). announce_put r t k ann_data ratchet" "\<lambda>k. announce_remove r k" for r
  by unfold_locales (auto simp: announce_put_def Let_def remove_entries distinct_map_filter image_iff)

text \<open>The committed steps of the two tables.\<close>

inductive device_step :: "distro_table \<Rightarrow> distro_table \<Rightarrow> bool" where
  device_register: "device_step s (register_device Committed t distro device pubkey s)"
| device_unregister: "device_step s (unregister_device Committed distro device s)"

inductive announce_step :: "announce_store \<Rightarrow> announce_store \<Rightarrow> bool" where
  announce_put: "announce_step s (announce_put Committed t distro d ratchet s)"
| announce_remove: "announce_step s (announce_remove Committed distro s)"

definition dt_wf :: "distro_table \<Rightarrow> bool" where
  "dt_wf s \<longleftrightarrow> distinct (map device_key (dt_entries s))"

definition as_wf :: "announce_store \<Rightarrow> bool" where
  "as_wf s \<longleftrightarrow> distinct (map an_distro (as_entries s))"

lemma device_step_wf: "device_step s s' \<Longrightarrow> dt_wf s \<Longrightarrow> dt_wf s'"
proof (induction rule: device_step.induct)
  case (device_register s t distro device pubkey)
  then show ?case using devices.distinct_put [of s "(distro, device)" "(Committed, t, pubkey)"] by (simp add: dt_wf_def)
next
  case (device_unregister s distro device)
  then show ?case using devices.distinct_del [of s Committed "(distro, device)"] by (simp add: dt_wf_def)
qed

lemma device_step_rows: "device_step s s' \<Longrightarrow> dt_wf s \<Longrightarrow> dt_db s = Some (map id (dt_entries s)) \<Longrightarrow>
    dt_db s' = Some (map id (dt_entries s'))"
proof (induction rule: device_step.induct)
  case (device_register s t distro device pubkey)
  then show ?case by (auto simp: register_device_def put_device_def list_ex_iff Let_def)
next
  case (device_unregister s distro device)
  then show ?case using length_filter_eq [of "\<lambda>e. \<not> (di_distro e = distro \<and> di_device e = device)" "dt_entries s"]
    by (auto simp: unregister_device_def Let_def)
qed

lemma announce_step_wf: "announce_step s s' \<Longrightarrow> as_wf s \<Longrightarrow> as_wf s'"
proof (induction rule: announce_step.induct)
  case (announce_put s t distro d ratchet)
  then show ?case using announces.distinct_put [of s distro "(Committed, t, d, ratchet)"] by (simp add: as_wf_def)
next
  case (announce_remove s distro)
  then show ?case using announces.distinct_del [of s Committed distro] by (simp add: as_wf_def)
qed

lemma announce_step_rows: "announce_step s s' \<Longrightarrow> as_wf s \<Longrightarrow> as_db s = Some (map id (as_entries s)) \<Longrightarrow>
    as_db s' = Some (map id (as_entries s'))"
proof (induction rule: announce_step.induct)
  case (announce_put s t distro d ratchet)
  then show ?case by (simp add: announce_put_def put_announce_def Let_def)
next
  case (announce_remove s distro)
  then show ?case using length_filter_eq [of "\<lambda>e. an_distro e \<noteq> distro" "as_entries s"]
    by (auto simp: announce_remove_def Let_def)
qed

interpretation device_rows: mirrored_store dt_entries dt_db id id dt_wf device_step
  by unfold_locales (erule (1) device_step_wf, erule (2) device_step_rows, simp)

interpretation announce_rows: mirrored_store as_entries as_db id id as_wf announce_step
  by unfold_locales (erule (1) announce_step_wf, erule (2) announce_step_rows, simp)

section \<open>Properties\<close>

text \<open>
  Registrations are kept one per device and survive a restart. After any committed run
  of a table whose rows are its entries, reading the rows gives the entries; registering a
  device, whatever was there, leaves exactly one row for it and every other row as it was,
  and unregistering it removes that row alone.
\<close>

theorem device_registrations_kept:
  assumes "device_step\<^sup>*\<^sup>* s s'" and "dt_wf s" and "dt_db s = Some (dt_entries s)"
  shows "dt_db s' = Some (dt_entries s') \<and>
    (\<exists>!e. e \<in> set (dt_entries (register_device r t distro device pubkey s')) \<and> device_key e = (distro, device)) \<and>
    filter (\<lambda>e. device_key e \<noteq> (distro, device)) (dt_entries (register_device r t distro device pubkey s'))
      = filter (\<lambda>e. device_key e \<noteq> (distro, device)) (dt_entries s') \<and>
    dt_entries (unregister_device r distro device (register_device r t distro device pubkey s'))
      = filter (\<lambda>e. device_key e \<noteq> (distro, device)) (dt_entries s')"
proof -
  from device_rows.run_wf [OF assms(1,2)] have "distinct (map device_key (dt_entries s'))" by (simp add: dt_wf_def)
  from devices.put_row [OF this, of "(distro, device)" "(r, t, pubkey)"]
    devices.others_put [of "(distro, device)" "(r, t, pubkey)" s']
    devices.del_put [of r "(distro, device)" "(r, t, pubkey)" s']
    devices.rows_del [of r "(distro, device)" s'] device_rows.run_mirror [OF assms(1,2)] assms(3)
  show ?thesis by simp
qed

theorem device_registrations_kept_witness:
  "let s = \<lparr>dt_entries = [], dt_db = Some []\<rparr>; s' = register_device Committed 5 [1] [2] [3] s
   in dt_db s' = Some (dt_entries s') \<and> length (dt_entries s') = 1 \<and>
      dt_entries (unregister_device Committed [1] [2] (register_device Committed 6 [1] [2] [4] s')) = []"
proof -
  let ?s = "\<lparr>dt_entries = [], dt_db = Some []\<rparr>" let ?s' = "register_device Committed 5 [1] [2] [3] ?s"
  have "device_step\<^sup>*\<^sup>* ?s ?s'" by (rule r_into_rtranclp) (rule device_register)
  moreover have "dt_wf ?s" "dt_db ?s = Some (dt_entries ?s)" by (simp_all add: dt_wf_def)
  ultimately have "dt_db ?s' = Some (dt_entries ?s') \<and>
      dt_entries (unregister_device Committed [1] [2] (register_device Committed 6 [1] [2] [4] ?s'))
        = filter (\<lambda>e. device_key e \<noteq> ([1], [2])) (dt_entries ?s')"
    using device_registrations_kept by blast
  then show ?thesis by (simp add: register_device_def put_device_def Let_def)
qed

lemma announce_split:
  assumes "84 + n + 64 \<le> length d"
  shows "d = announce_field 0 64 d @ announce_field 64 10 d @ announce_field 74 10 d @ announce_field 84 n d @
      announce_field (84 + n) 64 d @ drop (84 + n + 64) d"
proof -
  have split: "drop a d = announce_field a k d @ drop (a + k) d" for a k
    unfolding announce_field_def by (metis append_take_drop_id add.commute drop_drop)
  have "d = drop 0 d" by simp
  also have "\<dots> = announce_field 0 64 d @ announce_field 64 10 d @ announce_field 74 10 d @ announce_field 84 n d @
      announce_field (84 + n) 64 d @ drop (84 + n + 64) d"
    using split [of 0 64] split [of 64 10] split [of 74 10] split [of 84 n] split [of "84 + n" 64] by simp
  finally show ?thesis .
qed

lemma announce_fields_of:
  assumes "length key = 64" and "length name = 10" and "length rand = 10" and "length rat = n" and "length sig = 64"
    and "d = key @ name @ rand @ rat @ sig @ app"
  shows "announce_field 0 64 d = key" and "announce_field 64 10 d = name" and "announce_field 74 10 d = rand"
    and "announce_field 84 n d = rat" and "announce_field (84 + n) 64 d = sig" and "drop (84 + n + 64) d = app"
  using assms by (simp_all add: announce_field_def)

text \<open>
  Exactly the well-formed announces of the proved key are accepted. The check accepts
  an announce, for a 64 byte key, precisely when it is that key, the name hash of its
  \<open>lxmf.delivery\<close> destination, a random hash, the ratchet when flagged, a signature and the
  app data in this order, and the signature of that key covers the destination hash and
  every field but itself; the hash returned is that destination's.
\<close>

theorem verify_accepts_exactly_signed:
  assumes "length expected = 64"
  shows "verify_distro_announce delivery_of validate d ratchet expected = Inr h \<longleftrightarrow>
    (\<exists>name rand rat sig app. d = expected @ name @ rand @ rat @ sig @ app \<and> length name = 10 \<and> length rand = 10 \<and>
       length rat = (if ratchet then 32 else 0) \<and> length sig = 64 \<and> delivery_of expected = Some (name, h) \<and>
       validate expected sig (h @ expected @ name @ rand @ rat @ app))" (is "?L \<longleftrightarrow> ?R")
proof
  let ?n = "if ratchet then RATCHET_LEN else 0"
  assume ?L
  then have len: "ANNOUNCE_FIXED_LEN + ?n \<le> length d" and key: "announce_field 0 64 d = expected"
    and del: "delivery_of (announce_field 0 64 d) = Some (announce_field 64 10 d, h)"
    and sig: "validate (announce_field 0 64 d) (announce_field (84 + ?n) 64 d) (signed_data h d ?n)"
    by (auto simp: verify_distro_announce_def Let_def simp del: One_nat_def split: if_splits option.splits prod.splits)
  from len have big: "84 + ?n + 64 \<le> length d" by (simp add: ANNOUNCE_FIXED_LEN_def)
  have "length (announce_field 64 10 d) = 10" "length (announce_field 74 10 d) = 10"
    "length (announce_field 84 ?n d) = (if ratchet then 32 else 0)" "length (announce_field (84 + ?n) 64 d) = 64"
    using big by (auto simp: announce_field_def RATCHET_LEN_def)
  with announce_split [OF big] key del sig show ?R unfolding signed_data_def
    by (intro exI [of _ "announce_field 64 10 d"] exI [of _ "announce_field 74 10 d"] exI [of _ "announce_field 84 ?n d"]
        exI [of _ "announce_field (84 + ?n) 64 d"] exI [of _ "drop (84 + ?n + 64) d"]) simp
next
  let ?n = "if ratchet then RATCHET_LEN else 0"
  assume ?R
  then obtain name rand rat sig app where d: "d = expected @ name @ rand @ rat @ sig @ app"
    and lens: "length name = 10" "length rand = 10" "length rat = ?n" "length sig = 64"
    and ok: "delivery_of expected = Some (name, h)" "validate expected sig (h @ expected @ name @ rand @ rat @ app)"
    by (auto simp: RATCHET_LEN_def)
  note fields = announce_fields_of [OF assms lens d]
  have "\<not> length d < ANNOUNCE_FIXED_LEN + ?n" using d lens assms by (simp add: ANNOUNCE_FIXED_LEN_def)
  with fields ok show ?L unfolding verify_distro_announce_def Let_def signed_data_def by simp
qed

theorem verify_accepts_exactly_signed_witness:
  "let key = replicate 64 1; d = key @ replicate 10 2 @ replicate 10 3 @ replicate 64 4 @ [9]
   in verify_distro_announce (\<lambda>k. Some (replicate 10 2, [7])) (\<lambda>k s m. hd s = 4) d False key = Inr [7]"
  unfolding Let_def
proof (rule verify_accepts_exactly_signed [THEN iffD2])
  show "length (replicate 64 1) = 64" by simp
  show "\<exists>name rand rat sig app. replicate 64 1 @ replicate 10 2 @ replicate 10 3 @ replicate 64 4 @ [9] =
      replicate 64 1 @ name @ rand @ rat @ sig @ app \<and> length name = 10 \<and> length rand = 10 \<and>
      length rat = (if False then 32 else 0) \<and> length sig = 64 \<and>
      Some (replicate 10 2, [7]) = Some (name, [7]) \<and> hd sig = (4 :: u8)"
    by (rule exI [of _ "replicate 10 2"], rule exI [of _ "replicate 10 3"], rule exI [of _ "[]"],
        rule exI [of _ "replicate 64 4"], rule exI [of _ "[9]"]) simp
qed

end
