(* ===== verification/FedSync.thy ===== *)
theory FedSync
  imports BlobStore Subscription DistroTables
begin

text \<open>
  \<open>rfed/src/sync.rs\<close>: the manifest and gap-pull sync between federation nodes. \<open>fed_sync\<close>
  is \<open>FedSync\<close> without the three tables it shares (the blob store, the subscriptions, the
  distro devices), which each operation takes as arguments. The peers' timing state, the
  offer, the gap, and the fixed-width wire format of MESSAGE_GET are modelled; the msgpack
  wrapper around a response is the parameter \<open>wrap\<close> / \<open>unwrap\<close>.
\<close>

section \<open>Peers\<close>

definition SYNC_BACKOFF_MIN :: secs where "SYNC_BACKOFF_MIN = 10"
definition SYNC_BACKOFF_MAX :: secs where "SYNC_BACKOFF_MAX = 3600"
definition DEFAULT_CHANNEL_TRANSFER_LIMIT_MB :: nat where "DEFAULT_CHANNEL_TRANSFER_LIMIT_MB = 100"
definition DEFAULT_CHANNEL_SYNC_LIMIT_MB :: nat where "DEFAULT_CHANNEL_SYNC_LIMIT_MB = 1000"
definition DEFAULT_CHANNEL_TRANSFER_LIMIT_BYTES :: nat where
  "DEFAULT_CHANNEL_TRANSFER_LIMIT_BYTES = DEFAULT_CHANNEL_TRANSFER_LIMIT_MB * 1024 * 1024"
definition DEFAULT_CHANNEL_SYNC_LIMIT_BYTES :: nat where
  "DEFAULT_CHANNEL_SYNC_LIMIT_BYTES = DEFAULT_CHANNEL_SYNC_LIMIT_MB * 1024 * 1024"

record fed_peer =
  fp_dest :: bytes
  fp_alive :: bool
  fp_last_heard :: secs
  fp_next :: secs
  fp_last :: secs
  fp_backoff :: secs
  fp_cost :: "32 word option"
  fp_transfer_limit :: "real option"
  fp_sync_limit :: "real option"

definition new_peer :: "bytes \<Rightarrow> fed_peer" where
  "new_peer dest = \<lparr>fp_dest = dest, fp_alive = False, fp_last_heard = 0, fp_next = 0, fp_last = 0,
     fp_backoff = SYNC_BACKOFF_MIN, fp_cost = None, fp_transfer_limit = None, fp_sync_limit = None\<rparr>"

text \<open>\<open>t1\<close>, \<open>t2\<close>, \<open>t3\<close> are the clock readings in the order the code makes them.\<close>

definition heard :: "secs \<Rightarrow> secs \<Rightarrow> secs \<Rightarrow> 32 word option \<Rightarrow> fed_peer \<Rightarrow> fed_peer" where
  "heard t1 t2 t3 cost p =
     (let p1 = p\<lparr>fp_alive := True, fp_last_heard := t1,
                 fp_cost := (if cost \<noteq> None then cost else fp_cost p), fp_backoff := SYNC_BACKOFF_MIN\<rparr>
      in if t2 + fp_backoff p1 < fp_next p1 then p1\<lparr>fp_next := t3 + 5\<rparr> else p1)"

definition sync_failed :: "secs \<Rightarrow> secs \<Rightarrow> fed_peer \<Rightarrow> fed_peer" where
  "sync_failed t1 t2 p = (let backoff = min (fp_backoff p * 2) SYNC_BACKOFF_MAX
     in p\<lparr>fp_backoff := backoff, fp_last := t1, fp_next := t2 + backoff\<rparr>)"

definition sync_succeeded :: "secs \<Rightarrow> secs \<Rightarrow> fed_peer \<Rightarrow> fed_peer" where
  "sync_succeeded t1 t2 p =
     p\<lparr>fp_backoff := SYNC_BACKOFF_MIN, fp_last := t1, fp_next := t2 + SYNC_BACKOFF_MIN\<rparr>"

section \<open>The engine\<close>

record fed_sync =
  fs_peers :: "(bytes, fed_peer) hmap"
  fs_max_peering_cost :: "32 word"
  fs_transfer_limit :: nat
  fs_sync_limit :: nat
  fs_local :: "bytes option"
  fs_static_only :: bool
  fs_static :: "bytes list"
  fs_has_state_file :: bool
  fs_sent :: nat
  fs_period_start :: secs

definition new_fed_sync :: "secs \<Rightarrow> fed_sync" where
  "new_fed_sync t = \<lparr>fs_peers = [], fs_max_peering_cost = 26,
     fs_transfer_limit = DEFAULT_CHANNEL_TRANSFER_LIMIT_BYTES, fs_sync_limit = DEFAULT_CHANNEL_SYNC_LIMIT_BYTES,
     fs_local = None, fs_static_only = False, fs_static = [], fs_has_state_file = False, fs_sent = 0, fs_period_start = t\<rparr>"

definition set_local_node_hash :: "bytes \<Rightarrow> fed_sync \<Rightarrow> fed_sync" where
  "set_local_node_hash h fs = fs\<lparr>fs_local := Some h\<rparr>"

definition peer_heard :: "secs \<Rightarrow> secs \<Rightarrow> secs \<Rightarrow> bytes \<Rightarrow> 32 word option \<Rightarrow> fed_sync \<Rightarrow> fed_sync" where
  "peer_heard t1 t2 t3 dest cost fs =
     (if fs_local fs = Some dest then fs
      else if fs_static_only fs \<and> dest \<notin> set (fs_static fs) then fs
      else fs\<lparr>fs_peers := hput dest (heard t1 t2 t3 cost
             (case hget (fs_peers fs) dest of Some p \<Rightarrow> p | None \<Rightarrow> new_peer dest)) (fs_peers fs)\<rparr>)"

definition tick :: "secs \<Rightarrow> fed_sync \<Rightarrow> bytes list \<times> fed_sync" where
  "tick t fs =
     (let stale_cutoff = t - SYNC_BACKOFF_MAX * 2;
          peers = filter (\<lambda>(_, p). fp_dest p \<in> set (fs_static fs) \<or> stale_cutoff \<le> fp_last_heard p) (fs_peers fs)
      in (map (\<lambda>(_, p). fp_dest p) (filter (\<lambda>(_, p). fp_alive p \<and> fp_next p \<le> t) peers), fs\<lparr>fs_peers := peers\<rparr>))"

definition seed_static_peers :: "fed_sync \<Rightarrow> fed_sync" where
  "seed_static_peers fs = fs\<lparr>fs_peers := fold (\<lambda>h peers.
     hput h ((case hget peers h of Some p \<Rightarrow> p | None \<Rightarrow> new_peer h)
       \<lparr>fp_alive := True, fp_next := 0, fp_backoff := SYNC_BACKOFF_MIN\<rparr>) peers) (fs_static fs) (fs_peers fs)\<rparr>"

text \<open>The peers written by \<open>save_peers\<close>; \<open>load_peers\<close> takes what is read back, when it is.\<close>

definition save_peers :: "fed_sync \<Rightarrow> fed_peer list option" where
  "save_peers fs = (if fs_has_state_file fs then Some (map snd (fs_peers fs)) else None)"

definition load_peers :: "fed_peer list option \<Rightarrow> fed_sync \<Rightarrow> fed_sync" where
  "load_peers stored fs = (case stored of
      None \<Rightarrow> fs
    | Some ps \<Rightarrow> if \<not> fs_has_state_file fs then fs
        else fs\<lparr>fs_peers := fold (\<lambda>p peers.
          if fs_local fs = Some (fp_dest p) then peers
          else (case hget peers (fp_dest p) of Some _ \<Rightarrow> peers | None \<Rightarrow> hput (fp_dest p) p peers)) ps (fs_peers fs)\<rparr>)"

definition on_peer :: "bytes \<Rightarrow> (fed_peer \<Rightarrow> fed_peer) \<Rightarrow> fed_sync \<Rightarrow> fed_sync" where
  "on_peer dest f fs = (case hget (fs_peers fs) dest of
      None \<Rightarrow> fs | Some p \<Rightarrow> fs\<lparr>fs_peers := hput dest (f p) (fs_peers fs)\<rparr>)"

definition sync_started :: "secs \<Rightarrow> bytes \<Rightarrow> fed_sync \<Rightarrow> fed_sync" where
  "sync_started t dest fs = on_peer dest (\<lambda>p. p\<lparr>fp_last := t\<rparr>) fs"

definition sync_ok :: "secs \<Rightarrow> secs \<Rightarrow> bytes \<Rightarrow> fed_sync \<Rightarrow> fed_sync" where
  "sync_ok t1 t2 dest fs = on_peer dest (sync_succeeded t1 t2) fs"

definition sync_err :: "secs \<Rightarrow> secs \<Rightarrow> bytes \<Rightarrow> fed_sync \<Rightarrow> fed_sync" where
  "sync_err t1 t2 dest fs = on_peer dest (sync_failed t1 t2) fs"

section \<open>Manifest, offer and gap\<close>

definition wanted_here :: "subscription_table \<Rightarrow> distro_table \<Rightarrow> bytes \<Rightarrow> bool" where
  "wanted_here subs distro h \<longleftrightarrow> h \<in> set (subscribed_channel_hashes subs) \<or> h \<in> registered_distro_hashes distro"

definition local_manifest :: "blob_store \<Rightarrow> subscription_table \<Rightarrow> distro_table \<Rightarrow> (bytes \<times> bytes) list" where
  "local_manifest st subs distro =
     (if subscribed_channel_hashes subs = [] \<and> registered_distro_hashes distro = {} then []
      else map (\<lambda>(_, m). (bm_dest m, bm_id m)) (filter (\<lambda>(_, m). wanted_here subs distro (bm_dest m)) (bs_index st)))"

definition handle_offer :: "blob_store \<Rightarrow> bytes list \<Rightarrow> (bytes \<times> bytes) list" where
  "handle_offer st offered_ids = map (\<lambda>(_, m). (bm_dest m, bm_id m)) (bs_index st)"

definition gap_from_peer :: "blob_store \<Rightarrow> subscription_table \<Rightarrow> distro_table \<Rightarrow> (bytes \<times> bytes) list \<Rightarrow> bytes list" where
  "gap_from_peer st subs distro pairs =
     map snd (filter (\<lambda>(h, i). wanted_here subs distro h \<and> i \<notin> fst ` set (bs_index st)) pairs)"

section \<open>MESSAGE_GET\<close>

text \<open>\<open>(n as u32).to_be_bytes()\<close> and \<open>u32::from_be_bytes\<close>.\<close>

definition be32 :: "nat \<Rightarrow> bytes" where
  "be32 n = [word_of_nat (n div 2 ^ 24), word_of_nat (n div 2 ^ 16), word_of_nat (n div 2 ^ 8), word_of_nat n]"

definition from_be32 :: "bytes \<Rightarrow> nat" where
  "from_be32 b = ((unat (b ! 0) * 256 + unat (b ! 1)) * 256 + unat (b ! 2)) * 256 + unat (b ! 3)"

definition pad16 :: "bytes \<Rightarrow> bytes" where
  "pad16 h = take 16 h @ replicate (16 - length h) 0"

definition wire_entry :: "bytes \<Rightarrow> bytes \<Rightarrow> bytes \<Rightarrow> bytes" where
  "wire_entry chan i blob = pad16 chan @ pad16 i @ be32 (length blob) @ blob"

text \<open>The loop: the ids to serve, then \<open>out\<close>, \<open>total_sent\<close> and \<open>sync_bytes_sent\<close>.\<close>

fun get_loop :: "nat \<Rightarrow> nat \<Rightarrow> blob_store \<Rightarrow> bytes list \<Rightarrow> bytes \<Rightarrow> nat \<Rightarrow> nat \<Rightarrow> bytes \<times> nat" where
  "get_loop transfer sync st [] out served sent = (out, sent)"
| "get_loop transfer sync st (i # ids) out served sent =
     (case hget (bs_index st) i of
        None \<Rightarrow> get_loop transfer sync st ids out served sent
      | Some m \<Rightarrow>
          if transfer < served + bm_size m then (out, sent)
          else if sync < sent + bm_size m then (out, sent)
          else (case get_blob i st of
              None \<Rightarrow> get_loop transfer sync st ids out served sent
            | Some blob \<Rightarrow> get_loop transfer sync st ids (out @ wire_entry (bm_dest m) i blob)
                (served + bm_size m) (sent + bm_size m)))"

definition roll_period :: "secs \<Rightarrow> fed_sync \<Rightarrow> fed_sync" where
  "roll_period t fs = (if 3600 \<le> t - fs_period_start fs then fs\<lparr>fs_sent := 0, fs_period_start := t\<rparr> else fs)"

definition handle_message_get :: "(bytes \<Rightarrow> bytes) \<Rightarrow> secs \<Rightarrow> blob_store \<Rightarrow> bytes list \<Rightarrow> fed_sync \<Rightarrow> bytes \<times> fed_sync" where
  "handle_message_get wrap t st ids fs =
     (let fs' = roll_period t fs;
          (out, sent) = get_loop (fs_transfer_limit fs') (fs_sync_limit fs') st ids [] 0 (fs_sent fs')
      in (wrap out, fs'\<lparr>fs_sent := sent\<rparr>))"

text \<open>\<open>io i\<close> is what the filesystem and the clock give when the blob \<open>i\<close> is stored.\<close>

function ingest_loop :: "(bytes \<times> bytes \<Rightarrow> bool) \<Rightarrow> (bytes \<Rightarrow> file_write \<times> secs \<times> secs) \<Rightarrow> bytes \<Rightarrow> blob_store \<Rightarrow>
    (bytes \<times> bytes) list \<Rightarrow> (bytes \<times> bytes) list \<times> blob_store" where
  "ingest_loop rm io d st ingested =
     (if length d < 36 then (ingested, st)
      else (let chan = take 16 d; i = take 16 (drop 16 d); len = from_be32 (take 4 (drop 32 d)); rest = drop 36 d
            in if length rest < len then (ingested, st)
               else (let blob = take len rest
                     in if hget (bs_index st) i \<noteq> None then ingest_loop rm io (drop len rest) st ingested
                        else (case io i of (w, t, t') \<Rightarrow>
                          (case store_with_id rm w t t' chan i blob st of
                             (Inr _, st') \<Rightarrow> ingest_loop rm io (drop len rest) st' (ingested @ [(chan, blob)])
                           | (Inl _, st') \<Rightarrow> (ingested, st'))))))"
  by pat_completeness auto
termination by (relation "measure (\<lambda>(_, _, d, _). length d)") auto

declare ingest_loop.simps [simp del]

definition ingest_message_get_response :: "(bytes \<Rightarrow> bytes option) \<Rightarrow> (bytes \<times> bytes \<Rightarrow> bool) \<Rightarrow>
    (bytes \<Rightarrow> file_write \<times> secs \<times> secs) \<Rightarrow> bytes \<Rightarrow> blob_store \<Rightarrow> (bytes \<times> bytes) list \<times> blob_store" where
  "ingest_message_get_response unwrap rm io d st =
     ingest_loop rm io (case unwrap d of Some raw \<Rightarrow> raw | None \<Rightarrow> d) st []"

section \<open>The wire format\<close>

lemma length_be32 [simp]: "length (be32 n) = 4"
  by (simp add: be32_def)

lemma from_be32_be32: "n < 2 ^ 32 \<Longrightarrow> from_be32 (be32 n) = n"
proof -
  assume n: "n < 2 ^ 32"
  have "n div 2 ^ 24 < 256" using n by (simp add: less_mult_imp_div_less)
  then have "unat (word_of_nat (n div 2 ^ 24) :: u8) = n div 2 ^ 24" by (simp add: unat_of_nat)
  moreover have "unat (word_of_nat (n div 2 ^ 16) :: u8) = n div 2 ^ 16 mod 256"
    "unat (word_of_nat (n div 2 ^ 8) :: u8) = n div 2 ^ 8 mod 256" "unat (word_of_nat n :: u8) = n mod 256"
    by (simp_all add: unat_of_nat)
  ultimately have eq: "from_be32 (be32 n) =
      ((n div 2 ^ 24 * 256 + n div 2 ^ 16 mod 256) * 256 + n div 2 ^ 8 mod 256) * 256 + n mod 256"
    by (simp add: from_be32_def be32_def)
  have e2: "n div 2 ^ 24 * 256 + n div 2 ^ 16 mod 256 = n div 2 ^ 16"
    using div_mult_mod_eq [of "n div 2 ^ 16" 256] div_mult2_eq [of n "2 ^ 16" 256] by simp
  have e3: "n div 2 ^ 16 * 256 + n div 2 ^ 8 mod 256 = n div 2 ^ 8"
    using div_mult_mod_eq [of "n div 2 ^ 8" 256] div_mult2_eq [of n "2 ^ 8" 256] by simp
  have e4: "n div 2 ^ 8 * 256 + n mod 256 = n" using div_mult_mod_eq [of n 256] by simp
  show ?thesis unfolding eq e2 e3 e4 ..
qed

lemma length_pad16 [simp]: "length (pad16 h) = 16"
  by (simp add: pad16_def)

lemma pad16_16 [simp]: "length h = 16 \<Longrightarrow> pad16 h = h"
  by (simp add: pad16_def)

lemma wire_entry_fields:
  assumes "length chan = 16" and "length i = 16" and "length blob < 2 ^ 32"
  shows "take 16 (wire_entry chan i blob @ rest) = chan" and "take 16 (drop 16 (wire_entry chan i blob @ rest)) = i"
    and "from_be32 (take 4 (drop 32 (wire_entry chan i blob @ rest))) = length blob"
    and "drop 36 (wire_entry chan i blob @ rest) = blob @ rest" and "\<not> length (wire_entry chan i blob @ rest) < 36"
  using assms from_be32_be32 [of "length blob"] by (simp_all add: wire_entry_def)

section \<open>What a response carries\<close>

definition available :: "blob_store \<Rightarrow> bytes \<Rightarrow> bool" where
  "available st i \<longleftrightarrow> get_blob i st \<noteq> None"

definition stored_size :: "blob_store \<Rightarrow> bytes \<Rightarrow> nat" where
  "stored_size st i = (case hget (bs_index st) i of None \<Rightarrow> 0 | Some m \<Rightarrow> bm_size m)"

definition wire_of :: "blob_store \<Rightarrow> bytes \<Rightarrow> bytes" where
  "wire_of st i = (case (hget (bs_index st) i, get_blob i st) of
      (Some m, Some blob) \<Rightarrow> wire_entry (bm_dest m) i blob | _ \<Rightarrow> [])"

lemma available_index: "available st i \<Longrightarrow> hget (bs_index st) i \<noteq> None"
  by (auto simp: available_def get_blob_def split: option.splits)

text \<open>
  What the loop makes of the ids: the available ones in order, \<open>sel\<close> of them served, and
  when some are left, an id that would have gone over a cap right after those served.
\<close>

definition get_spec :: "nat \<Rightarrow> nat \<Rightarrow> blob_store \<Rightarrow> bytes list \<Rightarrow> bytes \<Rightarrow> nat \<Rightarrow> nat \<Rightarrow> bytes \<Rightarrow> nat \<Rightarrow> bool" where
  "get_spec transfer sync st ids out served sent out' sent' \<longleftrightarrow>
    (\<exists>sel rest. filter (available st) ids = sel @ rest \<and> out' = out @ concat (map (wire_of st) sel) \<and>
      sent' = sent + sum_list (map (stored_size st) sel) \<and>
      served + sum_list (map (stored_size st) sel) \<le> transfer \<and> (sent' \<le> sync \<or> sent' = sent) \<and>
      (rest = [] \<or> (\<exists>pre i post. ids = pre @ i # post \<and> filter (available st) pre = sel \<and>
         (transfer < served + sum_list (map (stored_size st) sel) + stored_size st i \<or> sync < sent' + stored_size st i))))"

lemma get_spec_skip:
  assumes "\<not> available st j" and "get_spec transfer sync st ids out served sent out' sent'"
  shows "get_spec transfer sync st (j # ids) out served sent out' sent'"
proof -
  from assms(2) obtain sel rest where x: "filter (available st) ids = sel @ rest"
    "out' = out @ concat (map (wire_of st) sel)" "sent' = sent + sum_list (map (stored_size st) sel)"
    "served + sum_list (map (stored_size st) sel) \<le> transfer" "sent' \<le> sync \<or> sent' = sent"
    "rest = [] \<or> (\<exists>pre i post. ids = pre @ i # post \<and> filter (available st) pre = sel \<and>
       (transfer < served + sum_list (map (stored_size st) sel) + stored_size st i \<or> sync < sent' + stored_size st i))"
    unfolding get_spec_def by blast
  have "rest = [] \<or> (\<exists>pre i post. j # ids = pre @ i # post \<and> filter (available st) pre = sel \<and>
       (transfer < served + sum_list (map (stored_size st) sel) + stored_size st i \<or> sync < sent' + stored_size st i))"
  proof (cases "rest = []")
    case False
    with x(6) obtain pre i post where "ids = pre @ i # post" "filter (available st) pre = sel"
      "transfer < served + sum_list (map (stored_size st) sel) + stored_size st i \<or> sync < sent' + stored_size st i" by blast
    with assms(1) have "j # ids = (j # pre) @ i # post \<and> filter (available st) (j # pre) = sel \<and>
       (transfer < served + sum_list (map (stored_size st) sel) + stored_size st i \<or> sync < sent' + stored_size st i)" by simp
    then show ?thesis by blast
  qed simp
  moreover have "filter (available st) (j # ids) = sel @ rest" using x(1) assms(1) by simp
  ultimately show ?thesis unfolding get_spec_def using x by blast
qed

lemma get_loop_spec:
  "served \<le> transfer \<Longrightarrow> get_loop transfer sync st ids out served sent = (out', sent') \<Longrightarrow>
    get_spec transfer sync st ids out served sent out' sent'"
proof (induction ids arbitrary: out served sent)
  case Nil
  then show ?case by (simp add: get_spec_def)
next
  case (Cons i ids)
  show ?case
  proof (cases "hget (bs_index st) i")
    case None
    then have "\<not> available st i" using available_index by blast
    then show ?thesis by (rule get_spec_skip) (use Cons None in simp)
  next
    case (Some m)
    then have size: "stored_size st i = bm_size m" by (simp add: stored_size_def)
    show ?thesis
    proof (cases "transfer < served + bm_size m \<or> sync < sent + bm_size m")
      case True
      have "\<exists>pre i' post. i # ids = pre @ i' # post \<and> filter (available st) pre = [] \<and>
          (transfer < served + stored_size st i' \<or> sync < sent + stored_size st i')"
        by (rule exI [of _ "[]"], rule exI [of _ i], rule exI [of _ ids]) (use True size in auto)
      with True Cons.prems Some size show ?thesis unfolding get_spec_def
        by (intro exI [of _ "[]"] exI [of _ "filter (available st) (i # ids)"]) (auto split: if_splits)
    next
      case fits: False
      show ?thesis
      proof (cases "get_blob i st")
        case None
        then have "\<not> available st i" by (simp add: available_def)
        then show ?thesis by (rule get_spec_skip) (use Cons Some None fits in simp)
      next
        case (Some blob)
        with \<open>hget (bs_index st) i = Some m\<close> have w: "wire_of st i = wire_entry (bm_dest m) i blob" "available st i"
          by (simp_all add: wire_of_def available_def)
        from Cons.prems \<open>hget (bs_index st) i = Some m\<close> Some fits
        have "get_loop transfer sync st ids (out @ wire_of st i) (served + bm_size m) (sent + bm_size m) = (out', sent')"
          by (simp add: w)
        have "served + bm_size m \<le> transfer" using fits by simp
        from Cons.IH [OF this \<open>get_loop transfer sync st ids (out @ wire_of st i) (served + bm_size m) (sent + bm_size m) = (out', sent')\<close>]
        obtain sel rest where x: "filter (available st) ids = sel @ rest" "out' = (out @ wire_of st i) @ concat (map (wire_of st) sel)"
          "sent' = sent + bm_size m + sum_list (map (stored_size st) sel)"
          "served + bm_size m + sum_list (map (stored_size st) sel) \<le> transfer"
          "sent' \<le> sync \<or> sent' = sent + bm_size m"
          "rest = [] \<or> (\<exists>pre i' post. ids = pre @ i' # post \<and> filter (available st) pre = sel \<and>
             (transfer < served + bm_size m + sum_list (map (stored_size st) sel) + stored_size st i' \<or>
              sync < sent' + stored_size st i'))" unfolding get_spec_def by blast
        have sum: "sum_list (map (stored_size st) (i # sel)) = bm_size m + sum_list (map (stored_size st) sel)"
          by (simp add: size)
        show ?thesis unfolding get_spec_def
        proof (rule exI [of _ "i # sel"], rule exI [of _ rest], intro conjI)
          show "sent' \<le> sync \<or> sent' = sent" using x(5) fits by auto
          show "rest = [] \<or> (\<exists>pre i' post. i # ids = pre @ i' # post \<and> filter (available st) pre = i # sel \<and>
              (transfer < served + sum_list (map (stored_size st) (i # sel)) + stored_size st i' \<or> sync < sent' + stored_size st i'))"
          proof (cases "rest = []")
            case False
            with x(6) obtain pre i' post where "ids = pre @ i' # post" "filter (available st) pre = sel"
              "transfer < served + bm_size m + sum_list (map (stored_size st) sel) + stored_size st i' \<or> sync < sent' + stored_size st i'"
              by blast
            with w(2) have "i # ids = (i # pre) @ i' # post \<and> filter (available st) (i # pre) = i # sel \<and>
              (transfer < served + sum_list (map (stored_size st) (i # sel)) + stored_size st i' \<or> sync < sent' + stored_size st i')"
              unfolding sum by (simp add: add.assoc)
            then show ?thesis by blast
          qed simp
        qed (use x(1-4) w sum in simp_all)
      qed
    qed
  qed
qed

section \<open>Ingesting what was served\<close>

definition roomy :: "(bytes \<Rightarrow> file_write \<times> secs \<times> secs) \<Rightarrow> bytes list \<Rightarrow> nat \<Rightarrow> blob_store \<Rightarrow> bool" where
  "roomy io ids needed st \<longleftrightarrow> bs_used st + needed \<le> bs_limit st \<and>
     (\<forall>i \<in> set ids. fst (io i) = Written \<and> fst (snd (io i)) - bs_last_eviction st \<le> EVICT_CHECK_INTERVAL_SECS)"

definition stored_as :: "secs \<Rightarrow> bytes \<Rightarrow> bytes \<Rightarrow> bytes \<Rightarrow> blob_store \<Rightarrow> blob_store" where
  "stored_as t' chan i blob st = st\<lparr>bs_files := hput (chan, i) blob (bs_files st), bs_tmp := hdel (chan, i) (bs_tmp st),
     bs_index := hput i \<lparr>bm_id = i, bm_dest = chan, bm_received = t', bm_size = length blob\<rparr> (bs_index st),
     bs_used := bs_used st + length blob\<rparr>"

lemma store_roomy:
  assumes "hget (bs_index st) i = None" and "t - bs_last_eviction st \<le> EVICT_CHECK_INTERVAL_SECS"
    and "bs_used st + length blob \<le> bs_limit st"
  shows "store_with_id rm Written t t' chan i blob st = (Inr i, stored_as t' chan i blob st)"
  using assms by (simp add: store_with_id_def make_room_def stored_as_def Let_def)

lemma stored_as_frame [simp]:
  "bs_limit (stored_as t' chan i blob st) = bs_limit st" "bs_used (stored_as t' chan i blob st) = bs_used st + length blob"
  "bs_last_eviction (stored_as t' chan i blob st) = bs_last_eviction st"
  "hget (bs_index (stored_as t' chan i blob st)) k =
     (if k = i then Some \<lparr>bm_id = i, bm_dest = chan, bm_received = t', bm_size = length blob\<rparr> else hget (bs_index st) k)"
  by (simp_all add: stored_as_def hmap_simps)

lemma stored_as_get: "get_blob k (stored_as t' chan i blob st) = (if k = i then Some blob else get_blob k st)"
  by (auto simp: get_blob_def stored_as_def hmap_simps split: option.splits)

text \<open>Served entries as (channel, id, blob), fresh here and with room: all of them are stored.\<close>

abbreviation wire3 :: "bytes \<times> bytes \<times> bytes \<Rightarrow> bytes" where
  "wire3 e \<equiv> (case e of (chan, i, blob) \<Rightarrow> wire_entry chan i blob)"

lemma ingest_all:
  assumes "distinct (map (\<lambda>(_, i, _). i) es)"
    and "\<forall>(chan, i, blob) \<in> set es. length chan = 16 \<and> length i = 16 \<and> length blob < 2 ^ 32 \<and> hget (bs_index st) i = None"
    and "roomy io (map (\<lambda>(_, i, _). i) es) (sum_list (map (\<lambda>(_, _, blob). length blob) es)) st"
  shows "\<exists>st'. ingest_loop rm io (concat (map wire3 es)) st ingested = (ingested @ map (\<lambda>(chan, _, blob). (chan, blob)) es, st') \<and>
    (\<forall>(chan, i, blob) \<in> set es. get_blob i st' = Some blob \<and> (\<exists>m. hget (bs_index st') i = Some m \<and> bm_dest m = chan)) \<and>
    (\<forall>k. k \<notin> set (map (\<lambda>(_, i, _). i) es) \<longrightarrow> get_blob k st' = get_blob k st \<and> hget (bs_index st') k = hget (bs_index st) k)"
  using assms
proof (induction es arbitrary: st ingested)
  case Nil
  then show ?case by (simp add: ingest_loop.simps)
next
  case (Cons e es)
  obtain chan i blob where e: "e = (chan, i, blob)" by (cases e)
  with Cons.prems have lens: "length chan = 16" "length i = 16" "length blob < 2 ^ 32" and fresh: "hget (bs_index st) i = None"
    by auto
  obtain w t t' where io: "io i = (w, t, t')" by (cases "io i")
  with Cons.prems(3) e have w: "w = Written" "t - bs_last_eviction st \<le> EVICT_CHECK_INTERVAL_SECS"
    and room: "bs_used st + length blob \<le> bs_limit st" by (auto simp: roomy_def)
  let ?st = "stored_as t' chan i blob st" let ?rest = "concat (map wire3 es)"
  note f = wire_entry_fields [OF lens, of ?rest]
  have step: "ingest_loop rm io (concat (map wire3 (e # es))) st ingested = ingest_loop rm io ?rest ?st (ingested @ [(chan, blob)])"
    using f fresh store_roomy [OF fresh w(2) room, of rm t' chan]
    by (subst ingest_loop.simps) (simp add: e io w(1) Let_def)
  have d: "distinct (map (\<lambda>(_, i, _). i) es)" and i: "i \<notin> set (map (\<lambda>(_, i, _). i) es)" using Cons.prems(1) e by auto
  have fresh': "\<forall>(chan', i', blob') \<in> set es. length chan' = 16 \<and> length i' = 16 \<and> length blob' < 2 ^ 32 \<and> hget (bs_index ?st) i' = None"
    using Cons.prems(2) i by force
  have "roomy io (map (\<lambda>(_, i, _). i) es) (sum_list (map (\<lambda>(_, _, blob). length blob) es)) ?st"
    using Cons.prems(3) e by (auto simp: roomy_def)
  from Cons.IH [OF d fresh' this, of "ingested @ [(chan, blob)]"] obtain st' where st':
    "ingest_loop rm io ?rest ?st (ingested @ [(chan, blob)]) = ((ingested @ [(chan, blob)]) @ map (\<lambda>(chan, _, blob). (chan, blob)) es, st')"
    "\<forall>(chan, i, blob) \<in> set es. get_blob i st' = Some blob \<and> (\<exists>m. hget (bs_index st') i = Some m \<and> bm_dest m = chan)"
    "\<forall>k. k \<notin> set (map (\<lambda>(_, i, _). i) es) \<longrightarrow> get_blob k st' = get_blob k ?st \<and> hget (bs_index st') k = hget (bs_index ?st) k"
    by blast
  from st'(3) i have "get_blob i st' = Some blob" "\<exists>m. hget (bs_index st') i = Some m \<and> bm_dest m = chan"
    by (auto simp: stored_as_get)
  with step st' e show ?case by (intro exI [of _ st']) (auto simp: stored_as_get)
qed

section \<open>Properties\<close>

text \<open>What a peer's timing keeps: a backoff between the bounds, a next attempt no further off than it.\<close>

definition peer_ok :: "secs \<Rightarrow> fed_peer \<Rightarrow> bool" where
  "peer_ok t p \<longleftrightarrow> SYNC_BACKOFF_MIN \<le> fp_backoff p \<and> fp_backoff p \<le> SYNC_BACKOFF_MAX \<and>
     fp_next p \<le> max 0 t + SYNC_BACKOFF_MAX"

inductive peer_step :: "secs \<Rightarrow> fed_peer \<Rightarrow> secs \<Rightarrow> fed_peer \<Rightarrow> bool" where
  peer_heard_step: "t \<le> t1 \<Longrightarrow> t1 \<le> t2 \<Longrightarrow> t2 \<le> t3 \<Longrightarrow> peer_step t p t3 (heard t1 t2 t3 cost p)"
| peer_failed_step: "t \<le> t1 \<Longrightarrow> t1 \<le> t2 \<Longrightarrow> peer_step t p t2 (sync_failed t1 t2 p)"
| peer_succeeded_step: "t \<le> t1 \<Longrightarrow> t1 \<le> t2 \<Longrightarrow> peer_step t p t2 (sync_succeeded t1 t2 p)"

inductive peer_run :: "secs \<Rightarrow> fed_peer \<Rightarrow> secs \<Rightarrow> fed_peer \<Rightarrow> bool" where
  peer_start: "peer_run t p t p"
| peer_next: "peer_run t p t1 p1 \<Longrightarrow> peer_step t1 p1 t2 p2 \<Longrightarrow> peer_run t p t2 p2"

lemma new_peer_ok: "peer_ok t (new_peer dest)"
  by (simp add: peer_ok_def new_peer_def SYNC_BACKOFF_MIN_def SYNC_BACKOFF_MAX_def)

lemma peer_step_ok: "peer_step t p t' p' \<Longrightarrow> peer_ok t p \<Longrightarrow> peer_ok t' p' \<and> fp_dest p' = fp_dest p"
  by (induction rule: peer_step.induct)
    (auto simp: peer_ok_def heard_def sync_failed_def sync_succeeded_def Let_def SYNC_BACKOFF_MIN_def SYNC_BACKOFF_MAX_def)

lemma peer_run_ok: "peer_run t p t' p' \<Longrightarrow> peer_ok t p \<Longrightarrow> peer_ok t' p' \<and> fp_dest p' = fp_dest p"
  by (induction rule: peer_run.induct) (auto dest: peer_step_ok)

lemma failures_backoff: "fp_backoff ((sync_failed t1 t2 ^^ n) p) = min (fp_backoff p * 2 ^ n) SYNC_BACKOFF_MAX"
  if "fp_backoff p \<le> SYNC_BACKOFF_MAX" "0 \<le> fp_backoff p"
proof (induction n)
  case (Suc n)
  have "min (min (fp_backoff p * 2 ^ n) SYNC_BACKOFF_MAX * 2) SYNC_BACKOFF_MAX = min (fp_backoff p * 2 ^ Suc n) SYNC_BACKOFF_MAX"
    by (simp add: min_def SYNC_BACKOFF_MAX_def)
  with Suc show ?case by (simp add: sync_failed_def Let_def)
qed (use that in simp)

text \<open>
  A peer is always retried. Whatever sequence of announces, failed and successful
  syncs a known peer goes through, under a clock that does not run backwards, its backoff
  stays between 10 s and one hour, its next attempt at most one hour after the last event,
  so \<open>tick\<close> lists it then when it is alive and heard or static; \<open>n\<close> failures in a row
  double the backoff \<open>n\<close> times up to the hour.
\<close>

theorem peer_retried_within_the_hour:
  assumes "peer_run 0 (new_peer dest) t p" and "0 \<le> t" and "fp_alive p" and "hget (fs_peers fs) dest = Some p"
    and "dest \<in> set (fs_static fs) \<or> t \<le> fp_last_heard p + SYNC_BACKOFF_MAX"
    and "fp_backoff p = SYNC_BACKOFF_MIN"
  shows "dest \<in> set (fst (tick (t + SYNC_BACKOFF_MAX) fs)) \<and>
    fp_backoff ((sync_failed t1 t2 ^^ n) p) = min (10 * 2 ^ n) 3600"
proof -
  from peer_run_ok [OF assms(1) new_peer_ok] have ok: "peer_ok t p" and d: "fp_dest p = dest"
    by (simp_all add: new_peer_def)
  from hget_mem [OF assms(4)] have mem: "(dest, p) \<in> set (fs_peers fs)" .
  have next': "fp_next p \<le> t + SYNC_BACKOFF_MAX" using ok assms(2) by (simp add: peer_ok_def)
  have keep: "fp_dest p \<in> set (fs_static fs) \<or> t + SYNC_BACKOFF_MAX - SYNC_BACKOFF_MAX * 2 \<le> fp_last_heard p"
    using assms(5) d by auto
  have "dest \<in> set (fst (tick (t + SYNC_BACKOFF_MAX) fs))"
    using mem next' keep assms(3) d by (force simp: tick_def Let_def)
  moreover have "fp_backoff ((sync_failed t1 t2 ^^ n) p) = min (10 * 2 ^ n) 3600"
    using failures_backoff [of p n t1 t2] ok assms(6) by (simp add: peer_ok_def SYNC_BACKOFF_MIN_def SYNC_BACKOFF_MAX_def)
  ultimately show ?thesis ..
qed

theorem peer_retried_within_the_hour_witness:
  "let p = heard 5 5 5 None (new_peer [7]); fs = (new_fed_sync 0)\<lparr>fs_peers := [([7], p)]\<rparr>
   in [7] \<in> set (fst (tick 3605 fs)) \<and> fp_backoff ((sync_failed 0 0 ^^ 3) p) = 80"
proof -
  let ?p = "heard 5 5 5 None (new_peer [7])" let ?fs = "(new_fed_sync 0)\<lparr>fs_peers := [([7], ?p)]\<rparr>"
  have run: "peer_run 0 (new_peer [7]) 5 ?p" by (rule peer_next [OF peer_start peer_heard_step]) simp_all
  have "fp_alive ?p" "hget (fs_peers ?fs) [7] = Some ?p" "5 \<le> fp_last_heard ?p + SYNC_BACKOFF_MAX" "fp_backoff ?p = SYNC_BACKOFF_MIN"
    by (simp_all add: heard_def new_peer_def Let_def SYNC_BACKOFF_MIN_def SYNC_BACKOFF_MAX_def)
  with peer_retried_within_the_hour [OF run, of ?fs 3 0 0] show ?thesis
    by (simp add: Let_def SYNC_BACKOFF_MAX_def)
qed

text \<open>
  A MESSAGE_GET response stays within its caps. It carries the first of the requested
  blobs the node can read, in order, each in the fixed-width format; their sizes stay within
  the per-response cap and, summed over the hour for all peers, within the sync limit; and
  it leaves a readable blob out only when the next requested one would go over a cap.
\<close>

theorem message_get_within_caps:
  assumes "handle_message_get wrap t st ids fs = (resp, fs')"
  shows "\<exists>sel rest. filter (available st) ids = sel @ rest \<and> resp = wrap (concat (map (wire_of st) sel)) \<and>
    sum_list (map (stored_size st) sel) \<le> fs_transfer_limit fs \<and>
    (fs_sent fs \<le> fs_sync_limit fs \<longrightarrow> fs_sent fs' \<le> fs_sync_limit fs) \<and>
    fs_sent fs' = (if 3600 \<le> t - fs_period_start fs then 0 else fs_sent fs) + sum_list (map (stored_size st) sel) \<and>
    (rest = [] \<or> (\<exists>pre i post. ids = pre @ i # post \<and> filter (available st) pre = sel \<and>
       (fs_transfer_limit fs < sum_list (map (stored_size st) sel) + stored_size st i \<or>
        fs_sync_limit fs < fs_sent fs' + stored_size st i)))"
proof -
  let ?fs = "roll_period t fs"
  have lims: "fs_transfer_limit ?fs = fs_transfer_limit fs" "fs_sync_limit ?fs = fs_sync_limit fs"
    "fs_sent ?fs = (if 3600 \<le> t - fs_period_start fs then 0 else fs_sent fs)"
    by (simp_all add: roll_period_def)
  obtain out sent where loop: "get_loop (fs_transfer_limit fs) (fs_sync_limit fs) st ids [] 0 (fs_sent ?fs) = (out, sent)"
    by (cases "get_loop (fs_transfer_limit fs) (fs_sync_limit fs) st ids [] 0 (fs_sent ?fs)")
  with assms lims have eq: "resp = wrap out" "fs_sent fs' = sent" by (auto simp: handle_message_get_def Let_def)
  have "(0::nat) \<le> fs_transfer_limit fs" by simp
  from get_loop_spec [OF this loop] obtain sel rest where x: "filter (available st) ids = sel @ rest" "out = concat (map (wire_of st) sel)"
    "sent = fs_sent ?fs + sum_list (map (stored_size st) sel)" "sum_list (map (stored_size st) sel) \<le> fs_transfer_limit fs"
    "sent \<le> fs_sync_limit fs \<or> sent = fs_sent ?fs"
    "rest = [] \<or> (\<exists>pre i post. ids = pre @ i # post \<and> filter (available st) pre = sel \<and>
       (fs_transfer_limit fs < sum_list (map (stored_size st) sel) + stored_size st i \<or> fs_sync_limit fs < sent + stored_size st i))"
    unfolding get_spec_def append_Nil add_0 by blast
  show ?thesis
  proof (rule exI [of _ sel], rule exI [of _ rest], intro conjI)
    show "fs_sent fs \<le> fs_sync_limit fs \<longrightarrow> fs_sent fs' \<le> fs_sync_limit fs" using x(5) eq lims by auto
    show "fs_sent fs' = (if 3600 \<le> t - fs_period_start fs then 0 else fs_sent fs) + sum_list (map (stored_size st) sel)"
      using x(3) eq lims by simp
    show "rest = [] \<or> (\<exists>pre i post. ids = pre @ i # post \<and> filter (available st) pre = sel \<and>
       (fs_transfer_limit fs < sum_list (map (stored_size st) sel) + stored_size st i \<or>
        fs_sync_limit fs < fs_sent fs' + stored_size st i))" unfolding eq(2) by (rule x(6))
  qed (use x(1,2,4) eq in simp_all)
qed

theorem message_get_within_caps_witness:
  "let st = \<lparr>bs_index = [([1], \<lparr>bm_id = [1], bm_dest = [9], bm_received = 5, bm_size = 2\<rparr>)], bs_limit = 100, bs_used = 2,
        bs_last_eviction = 0, bs_files = [(([9], [1]), [7, 8])], bs_tmp = []\<rparr>;
       fs' = snd (handle_message_get (\<lambda>x. x) 10 st [[1]] (new_fed_sync 0))
   in fs_sent fs' = 2 \<and> fs_sent fs' \<le> fs_sync_limit (new_fed_sync 0)"
proof -
  let ?st = "\<lparr>bs_index = [([1], \<lparr>bm_id = [1], bm_dest = [9], bm_received = 5, bm_size = 2\<rparr>)], bs_limit = 100, bs_used = 2,
        bs_last_eviction = 0, bs_files = [(([9], [1]), [7, 8])], bs_tmp = []\<rparr> :: blob_store"
  let ?run = "handle_message_get (\<lambda>x. x) 10 ?st [[1]] (new_fed_sync 0)"
  from message_get_within_caps [of "\<lambda>x. x" 10 ?st "[[1]]" "new_fed_sync 0" "fst ?run" "snd ?run"]
  have "fs_sent (snd ?run) \<le> fs_sync_limit (new_fed_sync 0)" by (auto simp: new_fed_sync_def)
  moreover have "fs_sent (snd ?run) = 2"
    by (simp add: handle_message_get_def roll_period_def new_fed_sync_def get_blob_def Let_def
        DEFAULT_CHANNEL_TRANSFER_LIMIT_BYTES_def DEFAULT_CHANNEL_TRANSFER_LIMIT_MB_def
        DEFAULT_CHANNEL_SYNC_LIMIT_BYTES_def DEFAULT_CHANNEL_SYNC_LIMIT_MB_def)
  ultimately show ?thesis by (simp add: Let_def)
qed

text \<open>A store whose blobs are all on disk as indexed, under 16 byte ids and destinations.\<close>

definition servable :: "blob_store \<Rightarrow> bool" where
  "servable st \<longleftrightarrow> store_ok st \<and> (\<forall>(i, m) \<in> set (bs_index st). length i = 16 \<and> length (bm_dest m) = 16 \<and>
     bm_size m < 2 ^ 32 \<and> (\<exists>blob. get_blob i st = Some blob \<and> length blob = bm_size m))"

definition record_of :: "blob_store \<Rightarrow> bytes \<Rightarrow> bytes \<times> bytes \<times> bytes" where
  "record_of st i = (bm_dest (the (hget (bs_index st) i)), i, the (get_blob i st))"

lemma servable_record:
  assumes "servable st" and "i \<in> fst ` set (bs_index st)"
  shows "available st i" and "wire_of st i = wire3 (record_of st i)" and "length i = 16"
    and "length (fst (record_of st i)) = 16" and "length (snd (snd (record_of st i))) < 2 ^ 32"
    and "stored_size st i = length (snd (snd (record_of st i)))"
proof -
  from assms(2) obtain m where m: "(i, m) \<in> set (bs_index st)" by force
  moreover from assms(1) have "hkeys_distinct (bs_index st)" by (simp add: servable_def store_ok_def)
  ultimately have g: "hget (bs_index st) i = Some m" by (simp add: hget_mem_iff)
  from assms(1) m obtain blob where "length i = 16" "length (bm_dest m) = 16" "bm_size m < 2 ^ 32"
      "get_blob i st = Some blob" "length blob = bm_size m"
    unfolding servable_def by fastforce
  with g show "available st i" "wire_of st i = wire3 (record_of st i)" "length i = 16"
    "length (fst (record_of st i)) = 16" "length (snd (snd (record_of st i))) < 2 ^ 32"
    "stored_size st i = length (snd (snd (record_of st i)))"
    by (simp_all add: available_def wire_of_def record_of_def stored_size_def)
qed

lemma gap_list: "\<forall>(k, m) \<in> set idx. bm_id m = k \<Longrightarrow>
    map snd (filter (\<lambda>(h, i). P h \<and> Q i) (map (\<lambda>(_, m). (bm_dest m, bm_id m)) idx)) =
    map fst (filter (\<lambda>(k, m). P (bm_dest m) \<and> Q k) idx)"
  by (induction idx) auto

lemma gap_facts:
  assumes "store_ok sa"
  shows "distinct (gap_from_peer sb subs distro (handle_offer sa offered))"
    and "set (gap_from_peer sb subs distro (handle_offer sa offered)) =
      {i. \<exists>m. (i, m) \<in> set (bs_index sa) \<and> wanted_here subs distro (bm_dest m) \<and> i \<notin> fst ` set (bs_index sb)}"
proof -
  let ?P = "\<lambda>(k, m). wanted_here subs distro (bm_dest m) \<and> k \<notin> fst ` set (bs_index sb)"
  have eq: "gap_from_peer sb subs distro (handle_offer sa offered) = map fst (filter ?P (bs_index sa))"
    unfolding gap_from_peer_def handle_offer_def by (rule gap_list) (use assms in \<open>simp add: store_ok_def\<close>)
  from assms have "distinct (map fst (bs_index sa))" by (simp add: store_ok_def hkeys_distinct_def)
  then show "distinct (gap_from_peer sb subs distro (handle_offer sa offered))" by (simp add: eq distinct_map_filter)
  have "(i, m) \<in> set (filter ?P (bs_index sa)) \<longleftrightarrow>
      (i, m) \<in> set (bs_index sa) \<and> wanted_here subs distro (bm_dest m) \<and> i \<notin> fst ` set (bs_index sb)" for i m
    by simp
  moreover have "set (map fst xs) = {i. \<exists>m. (i, m) \<in> set xs}" for xs :: "(bytes \<times> blob_meta) list"
    by force
  ultimately show "set (gap_from_peer sb subs distro (handle_offer sa offered)) =
      {i. \<exists>m. (i, m) \<in> set (bs_index sa) \<and> wanted_here subs distro (bm_dest m) \<and> i \<notin> fst ` set (bs_index sb)}"
    unfolding eq by (simp only:)
qed

lemma get_all:
  assumes sv: "servable sa" and ids: "set ids \<subseteq> fst ` set (bs_index sa)"
    and caps: "sum_list (map (stored_size sa) ids) \<le> transfer" "sent + sum_list (map (stored_size sa) ids) \<le> sync"
  shows "fst (get_loop transfer sync sa ids [] 0 sent) = concat (map wire3 (map (record_of sa) ids))"
proof -
  obtain out sent' where loop: "get_loop transfer sync sa ids [] 0 sent = (out, sent')"
    by (cases "get_loop transfer sync sa ids [] 0 sent")
  have avail: "filter (available sa) ids = ids" 
    by (rule filter_True) (use servable_record(1) [OF sv] ids in blast)
  have "(0 :: nat) \<le> transfer" by simp
  from get_loop_spec [OF this loop] obtain sel rest where x: "filter (available sa) ids = sel @ rest"
    "out = concat (map (wire_of sa) sel)" "sent' = sent + sum_list (map (stored_size sa) sel)"
    "rest = [] \<or> (\<exists>pre i post. ids = pre @ i # post \<and> filter (available sa) pre = sel \<and>
       (transfer < sum_list (map (stored_size sa) sel) + stored_size sa i \<or> sync < sent' + stored_size sa i))"
    unfolding get_spec_def append_Nil add_0 by blast
  have "rest = []"
  proof (rule ccontr)
    assume "rest \<noteq> []"
    with x(4) obtain pre i post where p: "ids = pre @ i # post" "filter (available sa) pre = sel"
      "transfer < sum_list (map (stored_size sa) sel) + stored_size sa i \<or> sync < sent' + stored_size sa i" by blast
    have "\<forall>x \<in> set ids. available sa x" using avail by (simp only: filter_id_conv)
    then have "filter (available sa) pre = pre" using p(1) by simp
    with p x(3) caps show False by auto
  qed
  with x avail have "out = concat (map (wire_of sa) ids)" by simp
  moreover have "map (wire_of sa) ids = map wire3 (map (record_of sa) ids)"
  proof -
    have "wire_of sa i = wire3 (record_of sa i)" if "i \<in> set ids" for i
      by (rule servable_record(2) [OF sv subsetD [OF ids that]])
    then show ?thesis by simp
  qed
  ultimately show ?thesis by (simp add: loop)
qed

text \<open>
  C30: one round of sync brings the two nodes together when the whole gap fits. When node A's blobs are on disk
  under 16 byte ids, the sizes of the gap's blobs sum to no more than A's transfer limit and what A's sync limit
  leaves of its period, B has room for them, its writes succeed and no eviction falls due meanwhile, and the packing of a response is read back,
  B's offer, gap, request and ingest leave B with every blob of A it wants, byte for byte, with no gap left; B
  reports exactly those blobs, with their channels, for the fan-out, and its other blobs are as they were.
  (Of a larger gap A sends what its limits allow.)
\<close>

theorem sync_round_converges:
  assumes "servable sa" and "gap = gap_from_peer sb subs distro (handle_offer sa offered)"
    and "sum_list (map (stored_size sa) gap) \<le> fs_transfer_limit fs"
    and "fs_sent (roll_period t fs) + sum_list (map (stored_size sa) gap) \<le> fs_sync_limit fs"
    and "roomy io gap (sum_list (map (stored_size sa) gap)) sb" and "\<forall>x. unwrap (wrap x) = Some x"
    and "ingest_message_get_response unwrap rm io (fst (handle_message_get wrap t sa gap fs)) sb = (ingested, sb')"
  shows "gap_from_peer sb' subs distro (handle_offer sa offered) = [] \<and>
    (\<forall>i \<in> set gap. get_blob i sb' = get_blob i sa) \<and>
    ingested = map (\<lambda>i. (bm_dest (the (hget (bs_index sa) i)), the (get_blob i sa))) gap \<and>
    (\<forall>k. k \<notin> set gap \<longrightarrow> get_blob k sb' = get_blob k sb)"
proof -
  from assms(1) have ok: "store_ok sa" by (simp add: servable_def)
  note gap = gap_facts [OF ok, of sb subs distro offered, folded assms(2)]
  have sub: "set gap \<subseteq> fst ` set (bs_index sa)" unfolding gap(2) by force
  have fresh: "\<forall>i \<in> set gap. hget (bs_index sb) i = None" unfolding gap(2) map_of_eq_None_iff by blast
  note rec = servable_record [OF assms(1)]
  let ?es = "map (record_of sa) gap"
  have ids: "map (\<lambda>(_, i, _). i) ?es = gap" by (simp add: record_of_def comp_def)
  have sizes: "sum_list (map (\<lambda>(_, _, blob). length blob) ?es) = sum_list (map (stored_size sa) gap)"
  proof -
    have "length (snd (snd (record_of sa x))) = stored_size sa x" if "x \<in> set gap" for x
      using rec(6) [OF subsetD [OF sub that]] by simp
    then show ?thesis by (simp add: comp_def case_prod_unfold cong: map_cong)
  qed
  have lims: "fs_transfer_limit (roll_period t fs) = fs_transfer_limit fs" "fs_sync_limit (roll_period t fs) = fs_sync_limit fs"
    by (simp_all add: roll_period_def)
  have resp: "fst (handle_message_get wrap t sa gap fs) = wrap (concat (map wire3 ?es))"
    using get_all [OF assms(1) sub assms(3,4)] by (simp add: handle_message_get_def Let_def lims case_prod_unfold)
  have "\<forall>(chan, i, blob) \<in> set ?es. length chan = 16 \<and> length i = 16 \<and> length blob < 2 ^ 32 \<and> hget (bs_index sb) i = None"
  proof -
    have "case record_of sa i of (chan, j, blob) \<Rightarrow> length chan = 16 \<and> length j = 16 \<and> length blob < 2 ^ 32 \<and>
        hget (bs_index sb) j = None" if "i \<in> set gap" for i
      using rec(3,4,5) [OF subsetD [OF sub that]] fresh that by (simp add: record_of_def)
    then show ?thesis by simp
  qed
  from ingest_all [OF _ this, of io rm "[]"] obtain st' where st':
    "ingest_loop rm io (concat (map wire3 ?es)) sb [] = (map (\<lambda>(chan, _, blob). (chan, blob)) ?es, st')"
    "\<forall>(chan, i, blob) \<in> set ?es. get_blob i st' = Some blob \<and> (\<exists>m. hget (bs_index st') i = Some m \<and> bm_dest m = chan)"
    "\<forall>k. k \<notin> set gap \<longrightarrow> get_blob k st' = get_blob k sb \<and> hget (bs_index st') k = hget (bs_index sb) k"
    unfolding ids sizes append_Nil using gap(1) assms(5) by blast
  from assms(6,7) resp st'(1) have fin: "ingested = map (\<lambda>(chan, _, blob). (chan, blob)) ?es" "sb' = st'"
    by (simp_all add: ingest_message_get_response_def)
  have here: "get_blob i sb' = get_blob i sa" "hget (bs_index sb') i \<noteq> None" if "i \<in> set gap" for i
  proof -
    from st'(2) that have "case record_of sa i of (chan, j, blob) \<Rightarrow> get_blob j st' = Some blob \<and>
        (\<exists>m. hget (bs_index st') j = Some m \<and> bm_dest m = chan)" by simp
    moreover have "available sa i" by (rule rec(1) [OF subsetD [OF sub that]])
    ultimately show "get_blob i sb' = get_blob i sa" "hget (bs_index sb') i \<noteq> None"
      unfolding fin(2) by (auto simp: record_of_def available_def)
  qed
  have "set (gap_from_peer sb' subs distro (handle_offer sa offered)) = {}"
  proof -
    have "i \<in> fst ` set (bs_index sb')" if i: "(i, m) \<in> set (bs_index sa)" "wanted_here subs distro (bm_dest m)" for i m
    proof (cases "i \<in> set gap")
      case True
      with here(2) show ?thesis by (simp add: map_of_eq_None_iff)
    next
      case False
      with i have "i \<in> fst ` set (bs_index sb)" unfolding gap(2) by blast
      then have "hget (bs_index sb) i \<noteq> None" by (simp add: map_of_eq_None_iff)
      with st'(3) False have "hget (bs_index sb') i \<noteq> None" unfolding fin(2) by metis
      then show ?thesis by (simp add: map_of_eq_None_iff)
    qed
    then show ?thesis unfolding gap_facts(2) [OF ok] by blast
  qed
  moreover have "ingested = map (\<lambda>i. (bm_dest (the (hget (bs_index sa) i)), the (get_blob i sa))) gap"
    by (simp add: fin record_of_def)
  ultimately show ?thesis using here(1) st'(3) fin(2) by simp
qed

theorem sync_round_converges_witness:
  "let i = replicate 16 1; chan = replicate 16 9;
       sa = \<lparr>bs_index = [(i, \<lparr>bm_id = i, bm_dest = chan, bm_received = 5, bm_size = 2\<rparr>)], bs_limit = 100, bs_used = 2,
         bs_last_eviction = 0, bs_files = [((chan, i), [7, 8])], bs_tmp = []\<rparr>;
       sb = \<lparr>bs_index = [], bs_limit = 100, bs_used = 0, bs_last_eviction = 0, bs_files = [], bs_tmp = []\<rparr>;
       subs = \<lparr>st_entries = [\<lparr>se_subscriber = [1], se_channel = chan, se_added = 0, se_owner = None, se_refreshed = 0\<rparr>], st_db = None\<rparr>;
       distro = \<lparr>dt_entries = [], dt_db = None\<rparr>;
       gap = gap_from_peer sb subs distro (handle_offer sa []);
       sb' = snd (ingest_message_get_response Some (\<lambda>_. True) (\<lambda>_. (Written, 1, 1))
         (fst (handle_message_get (\<lambda>x. x) 1 sa gap (new_fed_sync 0))) sb)
   in gap = [i] \<and> get_blob i sb' = Some [7, 8] \<and> gap_from_peer sb' subs distro (handle_offer sa []) = []"
proof -
  let ?i = "replicate 16 (1 :: u8)" let ?chan = "replicate 16 (9 :: u8)"
  let ?sa = "\<lparr>bs_index = [(?i, \<lparr>bm_id = ?i, bm_dest = ?chan, bm_received = 5, bm_size = 2\<rparr>)], bs_limit = 100, bs_used = 2,
         bs_last_eviction = 0, bs_files = [((?chan, ?i), [7, 8])], bs_tmp = []\<rparr> :: blob_store"
  let ?sb = "\<lparr>bs_index = [], bs_limit = 100, bs_used = 0, bs_last_eviction = 0, bs_files = [], bs_tmp = []\<rparr> :: blob_store"
  let ?subs = "\<lparr>st_entries = [\<lparr>se_subscriber = [1], se_channel = ?chan, se_added = 0, se_owner = None, se_refreshed = 0\<rparr>], st_db = None\<rparr>"
  let ?distro = "\<lparr>dt_entries = [], dt_db = None\<rparr>"
  let ?gap = "gap_from_peer ?sb ?subs ?distro (handle_offer ?sa [])"
  let ?run = "ingest_message_get_response Some (\<lambda>_. True) (\<lambda>_. (Written, 1, 1))
         (fst (handle_message_get (\<lambda>x. x) 1 ?sa ?gap (new_fed_sync 0))) ?sb"
  have gap: "?gap = [?i]"
    by (simp add: gap_from_peer_def handle_offer_def wanted_here_def subscribed_channel_hashes_def first_occurrences_def)
  have get: "get_blob ?i ?sa = Some [7, 8]" by (simp add: get_blob_def)
  have sv: "servable ?sa" by (simp add: servable_def store_ok_def hkeys_distinct_def used_sum_def get_blob_def)
  have size: "sum_list (map (stored_size ?sa) ?gap) = 2" unfolding gap by (simp add: stored_size_def)
  have room: "roomy (\<lambda>_. (Written, 1, 1)) ?gap (sum_list (map (stored_size ?sa) ?gap)) ?sb"
    unfolding size by (simp add: roomy_def EVICT_CHECK_INTERVAL_SECS_def)
  have caps: "sum_list (map (stored_size ?sa) ?gap) \<le> fs_transfer_limit (new_fed_sync 0)"
    "fs_sent (roll_period 1 (new_fed_sync 0)) + sum_list (map (stored_size ?sa) ?gap) \<le> fs_sync_limit (new_fed_sync 0)"
    unfolding size by (simp_all add: new_fed_sync_def roll_period_def DEFAULT_CHANNEL_TRANSFER_LIMIT_BYTES_def
        DEFAULT_CHANNEL_TRANSFER_LIMIT_MB_def DEFAULT_CHANNEL_SYNC_LIMIT_BYTES_def DEFAULT_CHANNEL_SYNC_LIMIT_MB_def)
  have wrap: "\<forall>x. Some ((\<lambda>x. x) x) = Some x" by simp
  from sync_round_converges [OF sv refl caps room wrap, of "\<lambda>_. True" "fst ?run" "snd ?run"]
  have fin: "gap_from_peer (snd ?run) ?subs ?distro (handle_offer ?sa []) = [] \<and> (\<forall>i \<in> set ?gap. get_blob i (snd ?run) = get_blob i ?sa)"
    by simp
  then have "get_blob ?i (snd ?run) = Some [7, 8]" unfolding get [symmetric] using gap by simp
  with fin gap show ?thesis unfolding Let_def by blast
qed

end
