(* ===== verification/Notify.thy ===== *)
theory Notify
  imports StoreDb
begin

text \<open>
  \<open>rfed/src/notify/mod.rs\<close> and \<open>rfed/src/notify/rns.rs\<close>: the notify registrations (which
  relay to wake for which subscriber, for direct messages or for one channel) and the wake
  packet sent to a relay. \<open>notify_registry\<close> is \<open>NotifyRegistry\<close>, its rows the table
  \<open>notify_registrations\<close>.

  What the code takes from the Reticulum stack is an argument: \<open>dest_hash\<close> is
  \<open>Destination::hash\<close>, \<open>derive\<close> the hash \<open>Destination::new_outbound\<close> computes for an
  identity under a name (\<open>None\<close> when it fails), \<open>decode_hex\<close> and \<open>enc\<close> the decoding of
  hexadecimal text and the msgpack encoding of a map, and \<open>relay_stack\<close> the trait
  \<open>RelayStack\<close>.
\<close>

section \<open>State\<close>

record notify_registration =
  nr_subscriber :: bytes
  nr_channel :: "bytes option"
  nr_relay :: string
  nr_registered :: secs

record notify_row =
  nw_subscriber :: bytes
  nw_channel :: bytes
  nw_relay :: string
  nw_registered :: secs

record notify_registry =
  ng_registrations :: "notify_registration list"
  ng_db :: "notify_row list option"

definition notify_key :: "(bytes option \<Rightarrow> string \<Rightarrow> string list \<Rightarrow> bytes) \<Rightarrow> bytes \<Rightarrow> bytes" where
  "notify_key dest_hash identity_hash = dest_hash (Some identity_hash) ''lxmf'' [''delivery'']"

definition is_ascii_hexdigit :: "char \<Rightarrow> bool" where
  "is_ascii_hexdigit c \<longleftrightarrow> c \<in> set ''0123456789abcdefABCDEF''"

definition validate_relay_hash :: "string \<Rightarrow> string + unit" where
  "validate_relay_hash h = (if length h \<noteq> 32 \<or> \<not> list_all is_ascii_hexdigit h
     then Inl ''relay hash must be a 32-char lowercase hex destination hash'' else Inr ())"

definition channel_key :: "bytes option \<Rightarrow> bytes" where
  "channel_key c = (case c of None \<Rightarrow> [] | Some h \<Rightarrow> h)"

definition row_of_registration :: "notify_registration \<Rightarrow> notify_row" where
  "row_of_registration r = \<lparr>nw_subscriber = nr_subscriber r, nw_channel = channel_key (nr_channel r),
     nw_relay = nr_relay r, nw_registered = nr_registered r\<rparr>"

definition registration_of_row :: "notify_row \<Rightarrow> notify_registration" where
  "registration_of_row w = \<lparr>nr_subscriber = nw_subscriber w,
     nr_channel = (if nw_channel w = [] then None else Some (nw_channel w)),
     nr_relay = nw_relay w, nr_registered = nw_registered w\<rparr>"

definition reg_key :: "notify_registration \<Rightarrow> bytes \<times> bytes option \<times> string" where
  "reg_key r = (nr_subscriber r, nr_channel r, nr_relay r)"

definition notify_row_key :: "notify_row \<Rightarrow> bytes \<times> bytes \<times> string" where
  "notify_row_key w = (nw_subscriber w, nw_channel w, nw_relay w)"

text \<open>
  \<open>INSERT \<dots> ON CONFLICT \<dots> DO UPDATE SET registered\<close>: a new key goes last, the row of a
  known one is given \<open>f old new\<close> as its time.
\<close>

definition upsert_row :: "(secs \<Rightarrow> secs \<Rightarrow> secs) \<Rightarrow> notify_row \<Rightarrow> notify_row list \<Rightarrow> notify_row list" where
  "upsert_row f w rows =
     upsert notify_row_key (\<lambda>v w. v\<lparr>nw_registered := f (nw_registered v) (nw_registered w)\<rparr>) w rows"

definition put_registration :: "notify_registration \<Rightarrow> notify_row list \<Rightarrow> notify_row list" where
  "put_registration r rows = upsert_row (\<lambda>old new. new) (row_of_registration r) rows"

definition load_registry :: "txn \<Rightarrow> bool \<Rightarrow> notify_row list option \<Rightarrow> notify_registration list legacy_file \<Rightarrow> notify_registry" where
  "load_registry r read_ok opened legacy = (case opened of
      Some rows \<Rightarrow> (let rows' = fst (import_legacy r (fold put_registration) legacy rows)
                    in \<lparr>ng_registrations = (if read_ok then map registration_of_row rows' else []), ng_db = Some rows'\<rparr>)
    | None \<Rightarrow> \<lparr>ng_registrations = (case read_legacy legacy of Inr old \<Rightarrow> old | Inl _ \<Rightarrow> []), ng_db = None\<rparr>)"

section \<open>Operations\<close>

definition register_notify :: "txn \<Rightarrow> secs \<Rightarrow> bytes \<Rightarrow> bytes option \<Rightarrow> string \<Rightarrow> notify_registry \<Rightarrow> notify_registry" where
  "register_notify x t sub chan relay s =
     (case position (\<lambda>r. reg_key r = (sub, chan, relay)) (ng_registrations s) of
        Some i \<Rightarrow> (let r = (ng_registrations s ! i)\<lparr>nr_registered := t\<rparr>
                   in s\<lparr>ng_registrations := (ng_registrations s)[i := r], ng_db := write_one x (put_registration r) (ng_db s)\<rparr>)
      | None \<Rightarrow> (let r = \<lparr>nr_subscriber = sub, nr_channel = chan, nr_relay = relay, nr_registered = t\<rparr>
                 in s\<lparr>ng_registrations := ng_registrations s @ [r], ng_db := write_one x (put_registration r) (ng_db s)\<rparr>))"

definition unregister_notify :: "txn \<Rightarrow> bytes \<Rightarrow> bytes option \<Rightarrow> string \<Rightarrow> notify_registry \<Rightarrow> notify_registry" where
  "unregister_notify x sub chan relay s =
     (let kept = filter (\<lambda>r. reg_key r \<noteq> (sub, chan, relay)) (ng_registrations s)
      in s\<lparr>ng_registrations := kept,
           ng_db := (if length kept \<noteq> length (ng_registrations s)
             then write_one x (filter (\<lambda>w. notify_row_key w \<noteq> (sub, channel_key chan, relay))) (ng_db s) else ng_db s)\<rparr>)"

definition clear_notify :: "txn \<Rightarrow> bytes \<Rightarrow> notify_registry \<Rightarrow> notify_registry" where
  "clear_notify x sub s =
     (let kept = filter (\<lambda>r. nr_subscriber r \<noteq> sub) (ng_registrations s)
      in s\<lparr>ng_registrations := kept,
           ng_db := (if length kept \<noteq> length (ng_registrations s)
             then write_one x (filter (\<lambda>w. nw_subscriber w \<noteq> sub)) (ng_db s) else ng_db s)\<rparr>)"

definition get_for_channel :: "bytes \<Rightarrow> bytes option \<Rightarrow> notify_registry \<Rightarrow> notify_registration list" where
  "get_for_channel sub chan s =
     filter (\<lambda>r. nr_subscriber r = sub \<and> nr_channel r = chan) (ng_registrations s)"

definition registration_count :: "notify_registry \<Rightarrow> nat" where
  "registration_count s = length (ng_registrations s)"

section \<open>Re-keying channel rows\<close>

definition lxmf_keys :: "notify_registration list \<Rightarrow> bytes set" where
  "lxmf_keys rs = nr_subscriber ` set (filter (\<lambda>r. nr_channel r = None) rs)"

definition rekey_moves :: "(bytes \<Rightarrow> bytes) \<Rightarrow> (bytes \<Rightarrow> bool) \<Rightarrow> notify_registration list \<Rightarrow> notify_registration list" where
  "rekey_moves key is_identity rs = filter (\<lambda>r. nr_channel r \<noteq> None \<and>
     (is_identity (nr_subscriber r) \<or> key (nr_subscriber r) \<in> lxmf_keys rs)) rs"

definition rekey_row :: "(bytes \<Rightarrow> bytes) \<Rightarrow> notify_registration \<Rightarrow> notify_row list \<Rightarrow> notify_row list" where
  "rekey_row key old rows =
     filter (\<lambda>w. notify_row_key w \<noteq> (nr_subscriber old, channel_key (nr_channel old), nr_relay old))
       (upsert_row max (row_of_registration (old\<lparr>nr_subscriber := key (nr_subscriber old)\<rparr>)) rows)"

definition rekey_registration :: "(bytes \<Rightarrow> bytes) \<Rightarrow> notify_registration \<Rightarrow> notify_registration list \<Rightarrow> notify_registration list" where
  "rekey_registration key old rs =
     (let moved = old\<lparr>nr_subscriber := key (nr_subscriber old)\<rparr>;
          kept = filter (\<lambda>r. reg_key r \<noteq> reg_key old) rs
      in case position (\<lambda>r. reg_key r = reg_key moved) kept of
           Some i \<Rightarrow> kept[i := (kept ! i)\<lparr>nr_registered := max (nr_registered (kept ! i)) (nr_registered old)\<rparr>]
         | None \<Rightarrow> kept @ [moved])"

definition rekey_identity_channel_rows :: "(bytes option \<Rightarrow> string \<Rightarrow> string list \<Rightarrow> bytes) \<Rightarrow> txn \<Rightarrow> (bytes \<Rightarrow> bool) \<Rightarrow>
    notify_registry \<Rightarrow> nat \<times> notify_registry" where
  "rekey_identity_channel_rows dest_hash x is_identity s =
     (let key = notify_key dest_hash; moves = rekey_moves key is_identity (ng_registrations s)
      in if moves = [] \<or> (ng_db s \<noteq> None \<and> x \<noteq> Committed) then (0, s)
         else (length moves,
               s\<lparr>ng_registrations := fold (rekey_registration key) moves (ng_registrations s),
                 ng_db := write_one x (fold (rekey_row key) moves) (ng_db s)\<rparr>))"

section \<open>Delivery hooks\<close>

text \<open>A hook is what it does to the state \<open>'s\<close> outside the node.\<close>

type_synonym 's delivery_hook = "bytes \<Rightarrow> bytes \<Rightarrow> 's \<Rightarrow> 's"

definition register_hook :: "'s delivery_hook \<Rightarrow> 's delivery_hook list \<Rightarrow> 's delivery_hook list" where
  "register_hook h hooks = hooks @ [h]"

definition on_deliver :: "'s delivery_hook list \<Rightarrow> bytes \<Rightarrow> bytes \<Rightarrow> 's \<Rightarrow> 's" where
  "on_deliver hooks sub blob s = fold (\<lambda>h. h sub blob) hooks s"

section \<open>Wake packets\<close>

datatype wake_drop = InvalidRelayHash | NoPath | NoIdentity | NoMatchingDestination | NotTransmitted

datatype wake_outcome = Sent bytes | Dropped wake_drop

definition is_sent :: "wake_outcome \<Rightarrow> bool" where
  "is_sent w \<longleftrightarrow> (case w of Sent _ \<Rightarrow> True | Dropped _ \<Rightarrow> False)"

definition drop_reason :: "wake_outcome \<Rightarrow> wake_drop option" where
  "drop_reason w = (case w of Sent _ \<Rightarrow> None | Dropped d \<Rightarrow> Some d)"

fun drop_level :: "wake_drop \<Rightarrow> log_level" where
  "drop_level NoPath = LOG_NOTICE"
| "drop_level NoIdentity = LOG_NOTICE"
| "drop_level InvalidRelayHash = LOG_WARNING"
| "drop_level NoMatchingDestination = LOG_WARNING"
| "drop_level NotTransmitted = LOG_WARNING"

record 'i out_destination =
  od_identity :: 'i
  od_app :: string
  od_aspect :: string
  od_hash :: bytes

record 'i wake_packet =
  wp_destination :: "'i out_destination"
  wp_data :: bytes

text \<open>\<open>rs_packed\<close> is the destination hash the packet carries once it is sent.\<close>

record 'i relay_stack =
  rs_has_path :: "bytes \<Rightarrow> bool"
  rs_recall :: "bytes \<Rightarrow> 'i option"
  rs_send :: "'i wake_packet \<Rightarrow> string + bool"
  rs_packed :: "'i wake_packet \<Rightarrow> bytes option"

datatype 'i stack_action = RequestPath bytes | SendPacket "'i wake_packet" | LogDrop log_level wake_drop

definition RELAY_WAKE_NAMES :: "(string \<times> string) list" where
  "RELAY_WAKE_NAMES = [(''apns'', ''relay''), (''rfed'', ''notify'')]"

fun find_map :: "('a \<Rightarrow> 'b option) \<Rightarrow> 'a list \<Rightarrow> 'b option" where
  "find_map f [] = None"
| "find_map f (x # xs) = (case f x of Some y \<Rightarrow> Some y | None \<Rightarrow> find_map f xs)"

definition relay_wake_destination :: "('i \<Rightarrow> string \<Rightarrow> string \<Rightarrow> bytes option) \<Rightarrow> 'i \<Rightarrow> bytes \<Rightarrow> 'i out_destination option" where
  "relay_wake_destination derive i relay_hash = find_map (\<lambda>(app, aspect).
     (case derive i app aspect of
        Some h \<Rightarrow> if h = relay_hash then Some \<lparr>od_identity = i, od_app = app, od_aspect = aspect, od_hash = h\<rparr> else None
      | None \<Rightarrow> None)) RELAY_WAKE_NAMES"

text \<open>At registration: whether the registrant's key was recorded as the relay's, and the record.\<close>

definition remember_self_hosted_relay :: "(bytes \<Rightarrow> 'i option) \<Rightarrow> ('i \<Rightarrow> string \<Rightarrow> string \<Rightarrow> bytes option) \<Rightarrow>
    bytes \<Rightarrow> bytes \<Rightarrow> bool \<times> (bytes \<times> bytes) option" where
  "remember_self_hosted_relay from_public_key derive relay_hash pubkey = (case from_public_key pubkey of
      None \<Rightarrow> (False, None)
    | Some i \<Rightarrow> (case relay_wake_destination derive i relay_hash of
        None \<Rightarrow> (False, None)
      | Some _ \<Rightarrow> (True, Some (relay_hash, pubkey))))"

definition encode_wake_payload :: "((string \<times> bytes) list \<Rightarrow> bytes) \<Rightarrow> bytes \<Rightarrow> bytes option \<Rightarrow> bytes option \<Rightarrow> bytes" where
  "encode_wake_payload enc sub chan message = enc ([(''receiver'', sub)] @
     (case chan of None \<Rightarrow> [] | Some c \<Rightarrow> [(''channel'', c)]) @
     (case message of None \<Rightarrow> [] | Some m \<Rightarrow> [(''message'', m)]))"

definition dropped :: "wake_drop \<Rightarrow> 'i stack_action list \<Rightarrow> wake_outcome \<times> 'i stack_action list" where
  "dropped why acts = (Dropped why, acts @ [LogDrop (drop_level why) why])"

definition dispatch_notify_via :: "(string \<Rightarrow> bytes option) \<Rightarrow> ('i \<Rightarrow> string \<Rightarrow> string \<Rightarrow> bytes option) \<Rightarrow>
    ((string \<times> bytes) list \<Rightarrow> bytes) \<Rightarrow> 'i relay_stack \<Rightarrow> notify_registration \<Rightarrow> bytes option \<Rightarrow> bytes option \<Rightarrow>
    wake_outcome \<times> 'i stack_action list" where
  "dispatch_notify_via decode_hex derive enc stack reg chan message =
     (case decode_hex (nr_relay reg) of
        None \<Rightarrow> dropped InvalidRelayHash []
      | Some relay_hash \<Rightarrow>
          if length relay_hash \<noteq> 16 then dropped InvalidRelayHash []
          else if \<not> rs_has_path stack relay_hash then dropped NoPath [RequestPath relay_hash]
          else (case rs_recall stack relay_hash of
             None \<Rightarrow> dropped NoIdentity [RequestPath relay_hash]
           | Some i \<Rightarrow> (case relay_wake_destination derive i relay_hash of
               None \<Rightarrow> dropped NoMatchingDestination [RequestPath relay_hash]
             | Some d \<Rightarrow>
                 (let p = \<lparr>wp_destination = d, wp_data = encode_wake_payload enc (nr_subscriber reg) chan message\<rparr>
                  in case rs_send stack p of
                       Inr True \<Rightarrow> (Sent (case rs_packed stack p of Some h \<Rightarrow> h | None \<Rightarrow> []), [SendPacket p])
                     | Inr False \<Rightarrow> dropped NotTransmitted [SendPacket p]
                     | Inl _ \<Rightarrow> dropped NotTransmitted [SendPacket p]))))"

end
