(* ===== verification/Notify_Props.thy ===== *)
theory Notify_Props
  imports Notify
begin

text \<open>
  Properties of the notify registrations and of the wake dispatch. \<open>upsert_reg\<close> is what a
  table with one registration per (subscriber, channel, relay) does when one is put:
  registering, the re-keying and the SQL upsert are all shown to be it, so memory and rows
  stay equal row by row.
\<close>

section \<open>Rows and registrations\<close>

definition upsert_reg :: "(secs \<Rightarrow> secs \<Rightarrow> secs) \<Rightarrow> notify_registration \<Rightarrow> notify_registration list \<Rightarrow> notify_registration list" where
  "upsert_reg f r rs = upsert reg_key (\<lambda>q r. q\<lparr>nr_registered := f (nr_registered q) (nr_registered r)\<rparr>) r rs"

definition named_channels :: "notify_registration list \<Rightarrow> bool" where
  "named_channels rs \<longleftrightarrow> (\<forall>r \<in> set rs. nr_channel r \<noteq> Some [])"

definition reg_wf :: "notify_registry \<Rightarrow> bool" where
  "reg_wf s \<longleftrightarrow> distinct (map reg_key (ng_registrations s)) \<and> named_channels (ng_registrations s)"

lemma row_sel [simp]:
  "nw_subscriber (row_of_registration r) = nr_subscriber r"
  "nw_channel (row_of_registration r) = channel_key (nr_channel r)"
  "nw_relay (row_of_registration r) = nr_relay r"
  "nw_registered (row_of_registration r) = nr_registered r"
  by (simp_all add: row_of_registration_def)

lemma channel_key_eq: "c \<noteq> Some [] \<Longrightarrow> d \<noteq> Some [] \<Longrightarrow> channel_key c = channel_key d \<longleftrightarrow> c = d"
  by (auto simp: channel_key_def split: option.splits)

lemma row_back: "nr_channel r \<noteq> Some [] \<Longrightarrow> registration_of_row (row_of_registration r) = r"
  by (cases r) (auto simp: registration_of_row_def row_of_registration_def channel_key_def split: option.splits)

lemma row_registered: "row_of_registration (r\<lparr>nr_registered := t\<rparr>) = (row_of_registration r)\<lparr>nw_registered := t\<rparr>"
  by (simp add: row_of_registration_def)

lemma same_row: "nr_channel r \<noteq> Some [] \<Longrightarrow> nr_channel q \<noteq> Some [] \<Longrightarrow>
    notify_row_key (row_of_registration r) = notify_row_key (row_of_registration q) \<longleftrightarrow> reg_key r = reg_key q"
  by (simp add: channel_key_eq reg_key_def notify_row_key_def)

lemma reg_key_time [simp]: "reg_key (q\<lparr>nr_registered := t\<rparr>) = reg_key q"
  by (simp add: reg_key_def)

lemma upsert_row_mirror:
  assumes "named_channels rs" and "nr_channel r \<noteq> Some []"
  shows "upsert_row f (row_of_registration r) (map row_of_registration rs) = map row_of_registration (upsert_reg f r rs)"
  unfolding upsert_row_def upsert_reg_def
  using assms by (intro upsert_mirror) (auto simp: named_channels_def row_registered same_row)

lemma upsert_reg_distinct: "distinct (map reg_key rs) \<Longrightarrow> distinct (map reg_key (upsert_reg f r rs))"
  unfolding upsert_reg_def by (rule upsert_distinct) simp_all

lemma upsert_reg_keys: "reg_key ` set (upsert_reg f r rs) = insert (reg_key r) (reg_key ` set rs)"
  unfolding upsert_reg_def by (rule upsert_keys) simp

lemma upsert_reg_others: "filter (\<lambda>q. reg_key q \<noteq> reg_key r) (upsert_reg f r rs) = filter (\<lambda>q. reg_key q \<noteq> reg_key r) rs"
  unfolding upsert_reg_def by (rule upsert_others) simp

lemma filter_upsert_reg: "reg_key r \<noteq> k \<Longrightarrow>
    filter (\<lambda>q. reg_key q \<noteq> k) (upsert_reg f r rs) = upsert_reg f r (filter (\<lambda>q. reg_key q \<noteq> k) rs)"
  unfolding upsert_reg_def by (rule filter_upsert) simp_all

lemma upsert_reg_named: "named_channels rs \<Longrightarrow> nr_channel r \<noteq> Some [] \<Longrightarrow> named_channels (upsert_reg f r rs)"
  unfolding named_channels_def upsert_reg_def by (intro ballI) (rule upsert_pred, auto)

lemma register_entries:
  assumes "distinct (map reg_key (ng_registrations s))"
  shows "ng_registrations (register_notify x t sub chan relay s) =
    upsert_reg (\<lambda>_ new. new) \<lparr>nr_subscriber = sub, nr_channel = chan, nr_relay = relay, nr_registered = t\<rparr> (ng_registrations s)"
  using upsert_at_position [OF assms, of "\<lparr>nr_subscriber = sub, nr_channel = chan, nr_relay = relay, nr_registered = t\<rparr>"
    "\<lambda>q r. q\<lparr>nr_registered := nr_registered r\<rparr>"]
  by (simp add: register_notify_def upsert_reg_def Let_def reg_key_def cong: option.case_cong) (auto split: option.splits)

lemma register_rows:
  assumes "reg_wf s" and "chan \<noteq> Some []" and "ng_db s = Some (map row_of_registration (ng_registrations s))"
  shows "ng_db (register_notify Committed t sub chan relay s) =
    Some (map row_of_registration (ng_registrations (register_notify Committed t sub chan relay s)))"
proof -
  let ?r = "\<lparr>nr_subscriber = sub, nr_channel = chan, nr_relay = relay, nr_registered = t\<rparr>"
  from assms have d: "distinct (map reg_key (ng_registrations s))" and n: "named_channels (ng_registrations s)"
    by (simp_all add: reg_wf_def)
  have row: "row_of_registration ((ng_registrations s ! i)\<lparr>nr_registered := t\<rparr>) = row_of_registration ?r"
    if "position (\<lambda>r. reg_key r = (sub, chan, relay)) (ng_registrations s) = Some i" for i
    using position_Some [OF that] by (simp add: row_of_registration_def reg_key_def)
  have "ng_db (register_notify Committed t sub chan relay s) =
      Some (upsert_row (\<lambda>_ new. new) (row_of_registration ?r) (map row_of_registration (ng_registrations s)))"
    using row assms(3) by (auto simp: register_notify_def put_registration_def Let_def split: option.split)
  then show ?thesis using upsert_row_mirror [OF n, of ?r] assms(2) register_entries [OF d] by simp
qed

lemma rekey_registration_eq:
  assumes "distinct (map reg_key rs)"
  shows "rekey_registration key old rs = upsert_reg max (old\<lparr>nr_subscriber := key (nr_subscriber old)\<rparr>)
    (filter (\<lambda>r. reg_key r \<noteq> reg_key old) rs)"
  using upsert_at_position [where x = "old\<lparr>nr_subscriber := key (nr_subscriber old)\<rparr>" and
      upd = "\<lambda>q r. q\<lparr>nr_registered := max (nr_registered q) (nr_registered r)\<rparr>",
      OF distinct_map_filter [OF assms, of "\<lambda>r. reg_key r \<noteq> reg_key old"]]
  by (simp add: rekey_registration_def upsert_reg_def Let_def cong: option.case_cong)

lemma rekey_one:
  assumes "distinct (map reg_key rs)" and "named_channels rs" and "nr_channel old \<noteq> Some []"
    and "key (nr_subscriber old) \<noteq> nr_subscriber old"
  shows "distinct (map reg_key (rekey_registration key old rs)) \<and> named_channels (rekey_registration key old rs) \<and>
    rekey_row key old (map row_of_registration rs) = map row_of_registration (rekey_registration key old rs)"
proof -
  let ?moved = "old\<lparr>nr_subscriber := key (nr_subscriber old)\<rparr>"
  let ?up = "upsert_reg max ?moved rs"
  have named: "named_channels ?up" using assms by (intro upsert_reg_named) simp_all
  have rows: "upsert_row max (row_of_registration ?moved) (map row_of_registration rs) = map row_of_registration ?up"
    using assms by (intro upsert_row_mirror) simp_all
  have drop: "filter (\<lambda>w. notify_row_key w \<noteq> notify_row_key (row_of_registration old)) (map row_of_registration ?up)
      = map row_of_registration (filter (\<lambda>r. reg_key r \<noteq> reg_key old) ?up)"
    unfolding filter_map comp_def
  proof (rule arg_cong [where f = "map row_of_registration"], rule filter_cong [OF refl])
    fix q assume "q \<in> set ?up"
    with named have "nr_channel q \<noteq> Some []" by (simp add: named_channels_def)
    from same_row [OF this assms(3)]
    show "(notify_row_key (row_of_registration q) \<noteq> notify_row_key (row_of_registration old)) = (reg_key q \<noteq> reg_key old)"
      by simp
  qed
  have "reg_key ?moved \<noteq> reg_key old" using assms(4) by (simp add: reg_key_def)
  from filter_upsert_reg [OF this] have eq: "filter (\<lambda>r. reg_key r \<noteq> reg_key old) ?up = rekey_registration key old rs"
    by (simp add: rekey_registration_eq [OF assms(1)])
  have "distinct (map reg_key (rekey_registration key old rs))"
    unfolding rekey_registration_eq [OF assms(1)] by (intro upsert_reg_distinct distinct_map_filter assms(1))
  moreover have "named_channels (rekey_registration key old rs)"
    unfolding eq [symmetric] using named by (simp add: named_channels_def)
  moreover have "(nr_subscriber old, channel_key (nr_channel old), nr_relay old) = notify_row_key (row_of_registration old)"
    by (simp add: notify_row_key_def)
  ultimately show ?thesis unfolding rekey_row_def rows by (simp only: drop eq simp_thms)
qed

lemma rekey_all:
  assumes "\<forall>old \<in> set moves. nr_channel old \<noteq> Some [] \<and> key (nr_subscriber old) \<noteq> nr_subscriber old"
    and "distinct (map reg_key rs)" and "named_channels rs"
  shows "distinct (map reg_key (fold (rekey_registration key) moves rs)) \<and>
    named_channels (fold (rekey_registration key) moves rs) \<and>
    fold (rekey_row key) moves (map row_of_registration rs) = map row_of_registration (fold (rekey_registration key) moves rs)"
  using assms
proof (induction moves arbitrary: rs)
  case (Cons old moves)
  from rekey_one [of rs old key] Cons.prems have one: "distinct (map reg_key (rekey_registration key old rs))"
    "named_channels (rekey_registration key old rs)"
    "rekey_row key old (map row_of_registration rs) = map row_of_registration (rekey_registration key old rs)" by simp_all
  from Cons.IH [OF _ one(1,2)] Cons.prems(1) show ?case by (simp add: one(3))
qed simp

section \<open>Steps\<close>

text \<open>
  The committed operations. A channel's hash is not empty, and \<open>Destination::hash\<close> of an
  identity hash is not that hash.
\<close>

inductive reg_step :: "(bytes option \<Rightarrow> string \<Rightarrow> string list \<Rightarrow> bytes) \<Rightarrow> notify_registry \<Rightarrow> notify_registry \<Rightarrow> bool"
  for dest_hash where
  reg_register: "chan \<noteq> Some [] \<Longrightarrow> reg_step dest_hash s (register_notify Committed t sub chan relay s)"
| reg_unregister: "chan \<noteq> Some [] \<Longrightarrow> reg_step dest_hash s (unregister_notify Committed sub chan relay s)"
| reg_clear: "reg_step dest_hash s (clear_notify Committed sub s)"
| reg_rekey: "(\<forall>h. notify_key dest_hash h \<noteq> h) \<Longrightarrow> reg_step dest_hash s (snd (rekey_identity_channel_rows dest_hash Committed is_identity s))"

lemma rekey_moves_sub: "set (rekey_moves key is_identity rs) \<subseteq> set rs"
  by (auto simp: rekey_moves_def)

lemma filtered_wf: "reg_wf s \<Longrightarrow> ng_registrations s' = filter p (ng_registrations s) \<Longrightarrow> reg_wf s'"
  by (auto simp: reg_wf_def named_channels_def distinct_map_filter)

lemma rekey_keeps:
  fixes is_identity :: "bytes \<Rightarrow> bool"
  assumes "reg_wf s" and "\<forall>h. notify_key dest_hash h \<noteq> h"
  defines "moves \<equiv> rekey_moves (notify_key dest_hash) is_identity (ng_registrations s)"
  shows "distinct (map reg_key (fold (rekey_registration (notify_key dest_hash)) moves (ng_registrations s))) \<and>
    named_channels (fold (rekey_registration (notify_key dest_hash)) moves (ng_registrations s)) \<and>
    fold (rekey_row (notify_key dest_hash)) moves (map row_of_registration (ng_registrations s))
      = map row_of_registration (fold (rekey_registration (notify_key dest_hash)) moves (ng_registrations s))"
proof (rule rekey_all)
  show "\<forall>old \<in> set moves. nr_channel old \<noteq> Some [] \<and> notify_key dest_hash (nr_subscriber old) \<noteq> nr_subscriber old"
    using assms(1,2) rekey_moves_sub unfolding moves_def reg_wf_def named_channels_def by blast
qed (use assms(1) in \<open>simp_all add: reg_wf_def\<close>)

lemma reg_step_wf: "reg_step dest_hash s s' \<Longrightarrow> reg_wf s \<Longrightarrow> reg_wf s'"
proof (induction rule: reg_step.induct)
  case (reg_register chan s t sub relay)
  then show ?case by (simp add: reg_wf_def register_entries upsert_reg_distinct upsert_reg_named)
next
  case (reg_unregister chan s sub relay)
  show ?case by (rule filtered_wf [OF reg_unregister(2)]) (simp add: unregister_notify_def Let_def)
next
  case (reg_clear s sub)
  show ?case by (rule filtered_wf [OF reg_clear]) (simp add: clear_notify_def Let_def)
next
  case (reg_rekey s is_identity)
  from rekey_keeps [OF reg_rekey(2,1), of is_identity] reg_rekey(2) show ?case
    by (simp add: rekey_identity_channel_rows_def reg_wf_def Let_def)
qed

lemma filtered_rows:
  assumes "ng_db s = Some (map row_of_registration (ng_registrations s))"
    and "\<forall>r \<in> set (ng_registrations s). q (row_of_registration r) \<longleftrightarrow> p r"
  shows "(if length (filter p (ng_registrations s)) \<noteq> length (ng_registrations s)
      then write_one Committed (filter q) (ng_db s) else ng_db s) = Some (map row_of_registration (filter p (ng_registrations s)))"
proof -
  have "filter q (map row_of_registration (ng_registrations s)) = map row_of_registration (filter p (ng_registrations s))"
    unfolding filter_map comp_def
    by (rule arg_cong [where f = "map row_of_registration"], rule filter_cong [OF refl]) (use assms(2) in blast)
  then have gone: "write_one Committed (filter q) (ng_db s) = Some (map row_of_registration (filter p (ng_registrations s)))"
    unfolding assms(1) write_one_simps by (rule arg_cong)
  show ?thesis
  proof (cases "length (filter p (ng_registrations s)) = length (ng_registrations s)")
    case True
    from length_filter_eq [OF True] True show ?thesis by (simp only: assms(1) simp_thms if_False)
  next
    case False
    with gone show ?thesis by (simp only: simp_thms if_True)
  qed
qed

lemma reg_step_rows:
  "reg_step dest_hash s s' \<Longrightarrow> reg_wf s \<Longrightarrow> ng_db s = Some (map row_of_registration (ng_registrations s)) \<Longrightarrow>
    ng_db s' = Some (map row_of_registration (ng_registrations s'))"
proof (induction rule: reg_step.induct)
  case (reg_register chan s t sub relay)
  from register_rows [OF reg_register(2,1,3)] show ?case .
next
  case (reg_unregister chan s sub relay)
  have "\<forall>r \<in> set (ng_registrations s). (notify_row_key (row_of_registration r) \<noteq> (sub, channel_key chan, relay)) \<longleftrightarrow>
      reg_key r \<noteq> (sub, chan, relay)"
    using reg_unregister(1,2) by (auto simp: reg_wf_def named_channels_def channel_key_eq reg_key_def notify_row_key_def)
  from filtered_rows [OF reg_unregister(3), where q = "\<lambda>w. notify_row_key w \<noteq> (sub, channel_key chan, relay)", OF this]
  show ?case by (simp add: unregister_notify_def Let_def)
next
  case (reg_clear s sub)
  from filtered_rows [OF reg_clear(2), where q = "\<lambda>w. nw_subscriber w \<noteq> sub" and p = "\<lambda>r. nr_subscriber r \<noteq> sub"]
  show ?case by (simp add: clear_notify_def Let_def)
next
  case (reg_rekey s is_identity)
  from rekey_keeps [OF reg_rekey(2,1), of is_identity] reg_rekey(3) show ?case
    by (simp add: rekey_identity_channel_rows_def Let_def)
qed

interpretation registration_rows: mirrored_store ng_registrations ng_db row_of_registration registration_of_row
    reg_wf "reg_step dest_hash" for dest_hash
  by unfold_locales (erule (1) reg_step_wf, erule (2) reg_step_rows, simp add: row_back reg_wf_def named_channels_def)


lemma unregister_registrations: "ng_registrations (unregister_notify x sub chan relay s) = filter (\<lambda>r. reg_key r \<noteq> (sub, chan, relay)) (ng_registrations s)"
  by (simp add: unregister_notify_def Let_def)

section \<open>What re-keying leaves\<close>

lemma rekey_keys:
  assumes "\<forall>old \<in> set moves. nr_channel old \<noteq> Some [] \<and> key (nr_subscriber old) \<noteq> nr_subscriber old"
    and "distinct (map reg_key rs)" and "named_channels rs"
    and "\<forall>old \<in> set moves. \<forall>r \<in> set moves. reg_key old \<noteq> (key (nr_subscriber r), nr_channel r, nr_relay r)"
  shows "reg_key ` set (fold (rekey_registration key) moves rs) =
    (reg_key ` set rs - reg_key ` set moves) \<union> (\<lambda>r. (key (nr_subscriber r), nr_channel r, nr_relay r)) ` set moves"
  using assms
proof (induction moves arbitrary: rs)
  case (Cons old moves)
  let ?new = "\<lambda>r. (key (nr_subscriber r), nr_channel r, nr_relay r)"
  from rekey_one [of rs old key] Cons.prems have one: "distinct (map reg_key (rekey_registration key old rs))"
    "named_channels (rekey_registration key old rs)" by simp_all
  have "reg_key ` set (rekey_registration key old rs) = insert (?new old) (reg_key ` set rs - {reg_key old})"
    unfolding rekey_registration_eq [OF Cons.prems(2)] upsert_reg_keys by (auto simp: reg_key_def)
  with Cons.IH [OF _ one] Cons.prems(1,4) have "reg_key ` set (fold (rekey_registration key) (old # moves) rs) =
      (insert (?new old) (reg_key ` set rs - {reg_key old}) - reg_key ` set moves) \<union> ?new ` set moves" by simp
  moreover have "?new old \<notin> reg_key ` set moves" using Cons.prems(4) by auto
  ultimately show ?case by auto
qed simp

lemma moves_by_key: "r \<in> set (rekey_moves key is_identity rs) \<longleftrightarrow>
    r \<in> set rs \<and> nr_channel r \<noteq> None \<and> (is_identity (nr_subscriber r) \<or> key (nr_subscriber r) \<in> lxmf_keys rs)"
  by (auto simp: rekey_moves_def)

lemma lxmf_keys_by_key: "lxmf_keys rs = {h. \<exists>relay. (h, None, relay) \<in> reg_key ` set rs}"
proof (rule set_eqI, rule iffI)
  fix h assume "h \<in> lxmf_keys rs"
  then obtain r where "r \<in> set rs" "nr_channel r = None" "h = nr_subscriber r" by (auto simp: lxmf_keys_def)
  then have "(h, None, nr_relay r) \<in> reg_key ` set rs" by (intro image_eqI [of _ _ r]) (simp_all add: reg_key_def)
  then show "h \<in> {h. \<exists>relay. (h, None, relay) \<in> reg_key ` set rs}" by blast
next
  fix h assume "h \<in> {h. \<exists>relay. (h, None, relay) \<in> reg_key ` set rs}"
  then obtain r where "r \<in> set rs" "nr_channel r = None" "h = nr_subscriber r" by (auto simp: reg_key_def)
  then show "h \<in> lxmf_keys rs" by (simp add: lxmf_keys_def)
qed

text \<open>No key moves twice: what was moved is under a delivery hash, which is no identity hash.\<close>

lemma rekey_settles:
  fixes is_identity :: "bytes \<Rightarrow> bool"
  assumes wf: "reg_wf s" and fix_free: "\<forall>h. notify_key dest_hash h \<noteq> h" and never: "\<forall>h. \<not> is_identity (notify_key dest_hash h)"
    and twice: "\<forall>h. notify_key dest_hash (notify_key dest_hash h) \<notin> lxmf_keys (ng_registrations s)"
  defines "key \<equiv> notify_key dest_hash" and "rs \<equiv> ng_registrations s"
  defines "moves \<equiv> rekey_moves key is_identity rs"
  defines "rs' \<equiv> fold (rekey_registration key) moves rs"
  shows "reg_key ` set rs' = (reg_key ` set rs - reg_key ` set moves) \<union>
      (\<lambda>r. (key (nr_subscriber r), nr_channel r, nr_relay r)) ` set moves \<and> rekey_moves key is_identity rs' = []"
proof -
  let ?new = "\<lambda>r. (key (nr_subscriber r), nr_channel r, nr_relay r)"
  have fresh: "\<forall>old \<in> set moves. \<forall>r \<in> set moves. reg_key old \<noteq> ?new r"
    using never twice by (auto simp: moves_def moves_by_key reg_key_def key_def rs_def)
  have keys: "reg_key ` set rs' = (reg_key ` set rs - reg_key ` set moves) \<union> ?new ` set moves"
    unfolding rs'_def
  proof (rule rekey_keys)
    show "\<forall>old \<in> set moves. nr_channel old \<noteq> Some [] \<and> key (nr_subscriber old) \<noteq> nr_subscriber old"
      using wf fix_free by (auto simp: moves_def moves_by_key reg_wf_def named_channels_def key_def rs_def)
  qed (use wf fresh in \<open>simp_all add: reg_wf_def rs_def\<close>)
  have "lxmf_keys rs' = lxmf_keys rs"
  proof -
    have "(h, None, relay) \<in> reg_key ` set rs' \<longleftrightarrow> (h, None, relay) \<in> reg_key ` set rs" for h relay
      unfolding keys using moves_by_key [of _ key is_identity rs] unfolding moves_def by (auto simp: reg_key_def)
    then show ?thesis unfolding lxmf_keys_by_key by simp
  qed
  moreover have "\<not> (is_identity (nr_subscriber r) \<or> key (nr_subscriber r) \<in> lxmf_keys rs)"
    if r: "r \<in> set rs'" "nr_channel r \<noteq> None" for r
  proof -
    from r(1) have "reg_key r \<in> (reg_key ` set rs - reg_key ` set moves) \<union> ?new ` set moves"
      unfolding keys [symmetric] by (rule imageI)
    then show ?thesis
    proof
      assume "reg_key r \<in> reg_key ` set rs - reg_key ` set moves"
      then obtain q where q: "q \<in> set rs" "reg_key q = reg_key r" "q \<notin> set moves" by force
      with r(2) show ?thesis unfolding moves_def moves_by_key by (simp add: reg_key_def)
    next
      assume "reg_key r \<in> ?new ` set moves"
      then have "nr_subscriber r \<in> range key" by (auto simp: reg_key_def)
      with never twice show ?thesis by (auto simp: key_def rs_def)
    qed
  qed
  ultimately have "rekey_moves key is_identity rs' = []" by (auto simp: rekey_moves_def filter_empty_conv)
  with keys show ?thesis by simp
qed

section \<open>Properties\<close>

text \<open>
  The notify registrations survive a restart and stay one per (subscriber, channel,
  relay). After any committed run, re-keying included, the rows of the database are the
  registrations in order and read back as them, each key has one row, and looking up a
  subscriber for a channel (or for direct messages) gives exactly its rows.
\<close>

theorem notify_registrations_survive_restart:
  assumes "(reg_step dest_hash)\<^sup>*\<^sup>* s s'" and "reg_wf s" and "ng_db s = Some (map row_of_registration (ng_registrations s))"
  shows "ng_registrations (load_registry x True (ng_db s') NoFile) = ng_registrations s' \<and>
    distinct (map reg_key (ng_registrations s')) \<and>
    set (get_for_channel sub chan s') = {r \<in> set (ng_registrations s'). nr_subscriber r = sub \<and> nr_channel r = chan}"
proof -
  from registration_rows.restart_reads_entries [OF assms]
  have read: "map_option (map registration_of_row) (ng_db s') = Some (ng_registrations s')" .
  then obtain rows where "ng_db s' = Some rows" "map registration_of_row rows = ng_registrations s'" by auto
  moreover from registration_rows.run_wf [OF assms(1,2)] have "distinct (map reg_key (ng_registrations s'))"
    by (simp add: reg_wf_def)
  ultimately show ?thesis by (auto simp: load_registry_def get_for_channel_def)
qed

theorem notify_registrations_survive_restart_witness:
  "let s = \<lparr>ng_registrations = [], ng_db = Some []\<rparr>;
       s' = register_notify Committed 5 [1] (Some [7]) ''ab'' (register_notify Committed 4 [1] None ''cd'' s)
   in ng_registrations (load_registry Committed True (ng_db s') NoFile) = ng_registrations s' \<and>
      length (ng_registrations s') = 2"
proof -
  let ?s = "\<lparr>ng_registrations = [], ng_db = Some []\<rparr>"
  let ?s1 = "register_notify Committed 4 [1] None ''cd'' ?s"
  let ?s2 = "register_notify Committed 5 [1] (Some [7]) ''ab'' ?s1"
  have "reg_step (\<lambda>i a b. []) ?s ?s1" "reg_step (\<lambda>i a b. []) ?s1 ?s2" by (rule reg_register, simp)+
  then have "(reg_step (\<lambda>i a b. []))\<^sup>*\<^sup>* ?s ?s2" by (rule rtranclp.rtrancl_into_rtrancl [OF r_into_rtranclp])
  moreover have "reg_wf ?s" "ng_db ?s = Some (map row_of_registration (ng_registrations ?s))"
    by (simp_all add: reg_wf_def named_channels_def)
  ultimately have "ng_registrations (load_registry Committed True (ng_db ?s2) NoFile) = ng_registrations ?s2"
    using notify_registrations_survive_restart by blast
  moreover have "length (ng_registrations ?s2) = 2" by (simp add: register_notify_def reg_key_def Let_def)
  ultimately show ?thesis unfolding Let_def by (rule conjI)
qed

text \<open>
  The re-keying at the start moves every channel registration it has evidence for and
  only those, merging into a registration the delivery hash already has, and doing it again
  moves nothing: no key is hashed twice. \<open>notify_key\<close> gives no fixed point, none of its
  values is an identity hash, and none of its values twice over is a registered delivery hash.
\<close>

theorem rekey_moves_once:
  fixes is_identity :: "bytes \<Rightarrow> bool"
  assumes "reg_wf s" and "ng_db s \<noteq> None \<longrightarrow> x = Committed"
    and "\<forall>h. notify_key dest_hash h \<noteq> h" and "\<forall>h. \<not> is_identity (notify_key dest_hash h)"
    and "\<forall>h. notify_key dest_hash (notify_key dest_hash h) \<notin> lxmf_keys (ng_registrations s)"
  defines "moves \<equiv> rekey_moves (notify_key dest_hash) is_identity (ng_registrations s)"
  defines "s' \<equiv> snd (rekey_identity_channel_rows dest_hash x is_identity s)"
  shows "fst (rekey_identity_channel_rows dest_hash x is_identity s) = length moves \<and>
    reg_key ` set (ng_registrations s') = (reg_key ` set (ng_registrations s) - reg_key ` set moves) \<union>
      (\<lambda>r. (notify_key dest_hash (nr_subscriber r), nr_channel r, nr_relay r)) ` set moves \<and>
    rekey_identity_channel_rows dest_hash x' is_identity s' = (0, s')"
proof -
  let ?key = "notify_key dest_hash"
  note settled = rekey_settles [OF assms(1,3-5)]
  have regs: "ng_registrations s' = fold (rekey_registration ?key) moves (ng_registrations s)"
    using assms(2) by (auto simp: s'_def moves_def rekey_identity_channel_rows_def Let_def)
  have "rekey_moves ?key is_identity (ng_registrations s') = []"
    unfolding regs moves_def using settled by (rule conjunct2)
  then have "rekey_identity_channel_rows dest_hash x' is_identity s' = (0, s')"
    by (simp add: rekey_identity_channel_rows_def Let_def)
  moreover have "fst (rekey_identity_channel_rows dest_hash x is_identity s) = length moves"
    using assms(2) by (auto simp: moves_def rekey_identity_channel_rows_def Let_def)
  moreover have "reg_key ` set (ng_registrations s') = (reg_key ` set (ng_registrations s) - reg_key ` set moves) \<union>
      (\<lambda>r. (?key (nr_subscriber r), nr_channel r, nr_relay r)) ` set moves"
    unfolding regs moves_def using settled by (rule conjunct1)
  ultimately show ?thesis by blast
qed

theorem rekey_moves_once_witness:
  "let dest_hash = (\<lambda>i a b. case i of Some h \<Rightarrow> 9 # h | None \<Rightarrow> []);
       s = \<lparr>ng_registrations = [\<lparr>nr_subscriber = [1], nr_channel = Some [7], nr_relay = ''ab'', nr_registered = 4\<rparr>], ng_db = None\<rparr>;
       s' = snd (rekey_identity_channel_rows dest_hash Committed (\<lambda>h. h = [1]) s)
   in map nr_subscriber (ng_registrations s') = [[9, 1]] \<and>
      rekey_identity_channel_rows dest_hash Committed (\<lambda>h. h = [1]) s' = (0, s')"
proof -
  let ?d = "\<lambda>i a b. case i of Some h \<Rightarrow> (9 :: u8) # h | None \<Rightarrow> []"
  let ?s = "\<lparr>ng_registrations = [\<lparr>nr_subscriber = [1], nr_channel = Some [7], nr_relay = ''ab'', nr_registered = 4\<rparr>], ng_db = None\<rparr>"
  let ?s' = "snd (rekey_identity_channel_rows ?d Committed (\<lambda>h. h = [1]) ?s)"
  have key: "notify_key ?d h = 9 # h" for h by (simp add: notify_key_def)
  have "rekey_identity_channel_rows ?d Committed (\<lambda>h. h = [1]) ?s' = (0, ?s')"
    using rekey_moves_once [where dest_hash = ?d and s = ?s and x = Committed and x' = Committed and is_identity = "\<lambda>h. h = [1]"]
    by (simp add: key reg_wf_def named_channels_def lxmf_keys_def)
  then show ?thesis
    by (simp add: rekey_identity_channel_rows_def key rekey_moves_def rekey_registration_def lxmf_keys_def image_iff Let_def)
qed

lemma find_map_Some: "find_map f xs = Some y \<Longrightarrow> \<exists>x \<in> set xs. f x = Some y"
  by (induction xs) (auto split: option.splits)

lemma wake_destination_hash:
  "relay_wake_destination derive i h = Some d \<Longrightarrow> od_identity d = i \<and> od_hash d = h \<and>
    (od_app d, od_aspect d) \<in> set RELAY_WAKE_NAMES \<and> derive i (od_app d) (od_aspect d) = Some h"
  unfolding relay_wake_destination_def by (drule find_map_Some) (auto split: option.splits if_splits)

text \<open>
  A wake goes only to the registered relay. A wake counted as sent put exactly one
  packet out, to the 16-byte hash registered, under a relay name the recalled identity
  derives that very hash with; every drop is logged at its level, and the three routing
  drops, and only they, ask for a path to the registered hash.
\<close>

theorem wake_only_to_registered_relay:
  "case dispatch_notify_via decode_hex derive enc stack reg chan message of
     (Sent h, acts) \<Rightarrow> (\<exists>relay i p. decode_hex (nr_relay reg) = Some relay \<and> length relay = 16 \<and> acts = [SendPacket p] \<and>
        rs_recall stack relay = Some i \<and> rs_send stack p = Inr True \<and>
        od_identity (wp_destination p) = i \<and> od_hash (wp_destination p) = relay \<and>
        derive i (od_app (wp_destination p)) (od_aspect (wp_destination p)) = Some relay \<and>
        (od_app (wp_destination p), od_aspect (wp_destination p)) \<in> set RELAY_WAKE_NAMES)
   | (Dropped why, acts) \<Rightarrow> last acts = LogDrop (drop_level why) why \<and>
        ((\<exists>h. RequestPath h \<in> set acts) \<longleftrightarrow> why \<in> {NoPath, NoIdentity, NoMatchingDestination}) \<and>
        (\<forall>h. RequestPath h \<in> set acts \<longrightarrow> decode_hex (nr_relay reg) = Some h) \<and>
        ((\<exists>p. SendPacket p \<in> set acts) \<longrightarrow> why = NotTransmitted)"
  by (auto simp: dispatch_notify_via_def dropped_def Let_def dest: wake_destination_hash
      split: option.splits sum.splits bool.splits)

theorem wake_only_to_registered_relay_witness:
  "fst (dispatch_notify_via (\<lambda>_. Some (replicate 16 3)) (\<lambda>i a b. if a = ''rfed'' then Some (replicate 16 3) else None) (\<lambda>_. [])
      \<lparr>rs_has_path = \<lambda>_. True, rs_recall = \<lambda>_. Some (), rs_send = \<lambda>_. Inr True, rs_packed = \<lambda>p. Some (od_hash (wp_destination p))\<rparr>
      \<lparr>nr_subscriber = [1], nr_channel = None, nr_relay = ''x'', nr_registered = 0\<rparr> None None) = Sent (replicate 16 3) \<and>
   length (replicate 16 (3 :: u8)) = 16"
  using wake_only_to_registered_relay [where decode_hex = "\<lambda>_. Some (replicate 16 3)"
    and derive = "\<lambda>i a b. if a = ''rfed'' then Some (replicate 16 3) else None" and enc = "\<lambda>_. []"
    and stack = "\<lparr>rs_has_path = \<lambda>_. True, rs_recall = \<lambda>_. Some (), rs_send = \<lambda>_. Inr True, rs_packed = \<lambda>p. Some (od_hash (wp_destination p))\<rparr>"
    and reg = "\<lparr>nr_subscriber = [1], nr_channel = None, nr_relay = ''x'', nr_registered = 0\<rparr>" and chan = None and message = None]
  by (simp add: dispatch_notify_via_def relay_wake_destination_def RELAY_WAKE_NAMES_def Let_def)

end
