(* ===== verification/PushOutcome.thy ===== *)
theory PushOutcome
  imports RFed_Prelude
begin

text \<open>
  \<open>rfed/src/stream_registry.rs\<close>, \<open>PushOutcome\<close> and \<open>tie_receipt\<close>: one stream push over
  several links, decided by receipts that conclude on threads of their own. Every atomic
  operation of the code is one step here, and any interleaving of the threads is allowed:
  \<open>pc\<close> is where a thread stands, \<open>pc_step\<close> its next atomic operation, \<open>outcome_step\<close> any
  thread's move, the dispatch's next move, or a callback of the transport.
\<close>

section \<open>State\<close>

text \<open>A receipt's \<open>concluded\<close> flag, with which callback set it.\<close>

datatype receipt_state = Open | ByProof | ByTimeout

datatype dispatch_state = Trying | Counting | DispatchDone

datatype pc =
    AtDelivery nat
  | AtTimeout nat
  | AtProved
  | AtLate
  | AtConclude
  | AtLast
  | AtHandOff

record push_outcome =
  po_pending :: nat
  po_any_sent :: bool
  po_proved :: bool
  po_handed_off :: bool
  po_receipts :: "receipt_state list"
  po_dispatch :: dispatch_state
  po_threads :: "pc multiset"
  po_unproven_runs :: nat
  po_proved_runs :: nat

text \<open>\<open>new\<close>: the dispatch holds one count of its own.\<close>

definition new_outcome :: push_outcome where
  "new_outcome = \<lparr>po_pending = 1, po_any_sent = False, po_proved = False, po_handed_off = False, po_receipts = [],
     po_dispatch = Trying, po_threads = {#}, po_unproven_runs = 0, po_proved_runs = 0\<rparr>"

section \<open>One atomic operation\<close>

text \<open>
  The delivery and timeout callbacks of \<open>tie_receipt\<close> swap \<open>concluded\<close>; \<open>proved\<close> and
  \<open>proved_late\<close> swap \<open>proved\<close> and run \<open>on_proved\<close> on the first; \<open>conclude_one\<close> counts down,
  and the last one loads \<open>any_sent\<close> and \<open>proved\<close> and hands the push off.
\<close>

fun pc_step :: "pc \<Rightarrow> push_outcome \<Rightarrow> pc list \<times> push_outcome" where
  "pc_step (AtDelivery i) s =
     (if po_receipts s ! i = Open then ([AtProved], s\<lparr>po_receipts := (po_receipts s)[i := ByProof]\<rparr>) else ([AtLate], s))"
| "pc_step (AtTimeout i) s =
     (if po_receipts s ! i = Open then ([AtConclude], s\<lparr>po_receipts := (po_receipts s)[i := ByTimeout]\<rparr>) else ([], s))"
| "pc_step AtProved s =
     ([AtConclude], s\<lparr>po_proved := True, po_proved_runs := po_proved_runs s + (if po_proved s then 0 else 1)\<rparr>)"
| "pc_step AtLate s =
     ([], s\<lparr>po_proved := True, po_proved_runs := po_proved_runs s + (if po_proved s then 0 else 1)\<rparr>)"
| "pc_step AtConclude s =
     (if po_pending s = 1 then [AtLast] else [], s\<lparr>po_pending := po_pending s - 1\<rparr>)"
| "pc_step AtLast s = (if \<not> po_any_sent s \<or> po_proved s then [] else [AtHandOff], s)"
| "pc_step AtHandOff s = ([], s\<lparr>po_handed_off := True, po_unproven_runs := po_unproven_runs s + 1\<rparr>)"

section \<open>The dispatch\<close>

text \<open>\<open>receipt_pending\<close> is two atomic operations, then \<open>tie_receipt\<close> installs the callbacks.\<close>

definition receipt_pending_sent :: "push_outcome \<Rightarrow> push_outcome" where
  "receipt_pending_sent s = s\<lparr>po_any_sent := True, po_dispatch := Counting\<rparr>"

definition receipt_pending_count :: "push_outcome \<Rightarrow> push_outcome" where
  "receipt_pending_count s =
     s\<lparr>po_pending := po_pending s + 1, po_receipts := po_receipts s @ [Open], po_dispatch := Trying\<rparr>"

definition dispatch_done :: "push_outcome \<Rightarrow> push_outcome" where
  "dispatch_done s = s\<lparr>po_dispatch := DispatchDone, po_threads := add_mset AtConclude (po_threads s)\<rparr>"

definition callback :: "pc \<Rightarrow> push_outcome \<Rightarrow> push_outcome" where
  "callback p s = s\<lparr>po_threads := add_mset p (po_threads s)\<rparr>"

definition run_thread :: "pc \<Rightarrow> push_outcome \<Rightarrow> push_outcome" where
  "run_thread p s = (let (next_pcs, s') = pc_step p s in s'\<lparr>po_threads := po_threads s - {#p#} + mset next_pcs\<rparr>)"

inductive outcome_step :: "push_outcome \<Rightarrow> push_outcome \<Rightarrow> bool" where
  step_sent: "po_dispatch s = Trying \<Longrightarrow> outcome_step s (receipt_pending_sent s)"
| step_count: "po_dispatch s = Counting \<Longrightarrow> outcome_step s (receipt_pending_count s)"
| step_done: "po_dispatch s = Trying \<Longrightarrow> outcome_step s (dispatch_done s)"
| step_delivery: "i < length (po_receipts s) \<Longrightarrow> outcome_step s (callback (AtDelivery i) s)"
| step_timeout: "i < length (po_receipts s) \<Longrightarrow> outcome_step s (callback (AtTimeout i) s)"
| step_thread: "p \<in># po_threads s \<Longrightarrow> outcome_step s (run_thread p s)"

section \<open>Invariant\<close>

definition po_inv :: "push_outcome \<Rightarrow> bool" where
  "po_inv s \<longleftrightarrow>
     po_pending s = (if po_dispatch s = DispatchDone then 0 else 1) + count_list (po_receipts s) Open
        + count (po_threads s) AtProved + count (po_threads s) AtConclude \<and>
     count (po_threads s) AtLast + count (po_threads s) AtHandOff + po_unproven_runs s \<le> (if po_pending s = 0 then 1 else 0) \<and>
     (po_handed_off s \<longleftrightarrow> po_unproven_runs s = 1) \<and>
     po_proved_runs s = (if po_proved s then 1 else 0) \<and>
     (ByProof \<in> set (po_receipts s) \<longrightarrow> po_proved s \<or> 0 < count (po_threads s) (AtProved)) \<and>
     (0 < count (po_threads s) (AtHandOff) \<or> po_handed_off s \<longrightarrow> ByProof \<notin> set (po_receipts s)) \<and>
     (po_pending s = 0 \<longrightarrow> \<not> po_any_sent s \<or> po_proved s \<or> po_handed_off s \<or>
        0 < count (po_threads s) (AtLast) \<or> 0 < count (po_threads s) (AtHandOff)) \<and>
     (po_any_sent s \<longleftrightarrow> po_receipts s \<noteq> [] \<or> po_dispatch s = Counting)"

definition po_idx :: "push_outcome \<Rightarrow> bool" where
  "po_idx s \<longleftrightarrow> (\<forall>p \<in># po_threads s. \<forall>i. p = AtDelivery i \<or> p = AtTimeout i \<longrightarrow> i < length (po_receipts s))"

lemma new_outcome_inv: "po_inv new_outcome" "po_idx new_outcome"
  by (simp_all add: new_outcome_def po_inv_def po_idx_def)

lemma count_list_update:
  "i < length xs \<Longrightarrow> xs ! i = x \<Longrightarrow> y \<noteq> x \<Longrightarrow> Suc (count_list (xs[i := y]) x) = count_list xs x"
proof (induction xs arbitrary: i)
  case (Cons a xs)
  then show ?case by (cases i) auto
qed simp

lemma set_update_other: "i < length xs \<Longrightarrow> xs ! i \<noteq> x \<Longrightarrow> y \<noteq> x \<Longrightarrow> x \<in> set (xs[i := y]) \<longleftrightarrow> x \<in> set xs"
proof (induction xs arbitrary: i)
  case (Cons a xs)
  then show ?case by (cases i) auto
qed simp

lemma count_list_zero: "count_list xs x = 0 \<longleftrightarrow> x \<notin> set xs"
  by (rule count_list_0_iff)

lemma run_thread_idx: "p \<in># po_threads s \<Longrightarrow> po_idx s \<Longrightarrow> po_idx (run_thread p s)"
  by (cases p) (auto simp: po_idx_def run_thread_def dest: in_diffD)

lemma outcome_step_idx: "outcome_step s s' \<Longrightarrow> po_idx s \<Longrightarrow> po_idx s'"
  by (induction rule: outcome_step.induct)
    (auto simp: po_idx_def receipt_pending_sent_def receipt_pending_count_def dispatch_done_def callback_def
      intro: run_thread_idx [unfolded po_idx_def, rule_format])

lemma run_thread_eq: "po_threads s = add_mset p T \<Longrightarrow> run_thread p s =
    (let (next_pcs, s') = pc_step p s in s'\<lparr>po_threads := T + mset next_pcs\<rparr>)"
  by (simp add: run_thread_def)

lemma po_inv_threads:
  assumes "\<forall>p \<in> {AtProved, AtConclude, AtLast, AtHandOff}. count T p = count (po_threads s) p"
  shows "po_inv (s\<lparr>po_threads := T\<rparr>) \<longleftrightarrow> po_inv s"
  using assms unfolding po_inv_def by (simp del: count_greater_zero_iff)

lemma po_inv_pending:
  "po_inv s \<Longrightarrow> po_pending s = (if po_dispatch s = DispatchDone then 0 else 1) + count_list (po_receipts s) Open
     + count (po_threads s) AtProved + count (po_threads s) AtConclude"
  unfolding po_inv_def by (rule conjunct1)

lemma po_inv_once:
  "po_inv s \<Longrightarrow> count (po_threads s) AtLast + count (po_threads s) AtHandOff + po_unproven_runs s
     \<le> (if po_pending s = 0 then 1 else 0)"
  unfolding po_inv_def by (elim conjE)

lemma run_thread_inv:
  assumes T: "po_threads s = add_mset p T" and inv: "po_inv s" and idx: "po_idx s"
  shows "po_inv (run_thread p s)"
proof (cases p)
  case (AtDelivery i)
  with idx T have i: "i < length (po_receipts s)" by (simp add: po_idx_def)
  show ?thesis
  proof (cases "po_receipts s ! i = Open")
    case True
    note c = count_list_update [OF i True, of ByProof]
    from inv T c have pos: "0 < po_pending s" unfolding po_inv_def by simp
    from inv T AtDelivery True c pos show ?thesis unfolding run_thread_eq [OF T] po_inv_def
      by auto
  next
    case False
    then have "run_thread p s = s\<lparr>po_threads := add_mset AtLate T\<rparr>"
      using T AtDelivery by (simp add: run_thread_def)
    with inv T AtDelivery show ?thesis by (simp add: po_inv_threads)
  qed
next
  case (AtTimeout i)
  with idx T have i: "i < length (po_receipts s)" by (simp add: po_idx_def)
  show ?thesis
  proof (cases "po_receipts s ! i = Open")
    case True
    note c = count_list_update [OF i True, of ByTimeout]
    have m: "ByProof \<in> set ((po_receipts s)[i := ByTimeout]) \<longleftrightarrow> ByProof \<in> set (po_receipts s)"
      by (rule set_update_other [OF i]) (simp_all add: True)
    from inv T c have pos: "0 < po_pending s" unfolding po_inv_def by simp
    from inv T AtTimeout True c m pos show ?thesis unfolding run_thread_eq [OF T] po_inv_def
      by auto
  next
    case False
    then have "run_thread p s = s\<lparr>po_threads := T\<rparr>"
      using T AtTimeout by (simp add: run_thread_def)
    with inv T AtTimeout show ?thesis by (simp add: po_inv_threads)
  qed
next
  case AtProved
  with inv T show ?thesis unfolding run_thread_eq [OF T] po_inv_def by auto
next
  case AtLate
  show ?thesis
  proof (cases "po_proved s")
    case True
    then have "run_thread p s = s\<lparr>po_threads := T\<rparr>" using T AtLate by (simp add: run_thread_def)
    with inv T AtLate show ?thesis by (simp add: po_inv_threads)
  next
    case False
    have eq: "run_thread p s = s\<lparr>po_proved := True, po_proved_runs := po_proved_runs s + 1, po_threads := T\<rparr>"
      using T AtLate False by (simp add: run_thread_def)
    from inv T AtLate False show ?thesis unfolding eq po_inv_def
      by (elim conjE, intro conjI) simp_all
  qed
next
  case AtConclude
  note pend = po_inv_pending [OF inv, unfolded T AtConclude]
  then have pos: "0 < po_pending s" by simp
  from po_inv_once [OF inv, unfolded T AtConclude] pos
  have none: "count T AtLast = 0" "count T AtHandOff = 0" "po_unproven_runs s = 0" by simp_all
  show ?thesis
  proof (cases "po_pending s = 1")
    case True
    have eq: "run_thread p s = s\<lparr>po_pending := 0, po_threads := add_mset AtLast T\<rparr>"
      using T AtConclude True by (simp add: run_thread_def)
    from pend True have proved: "AtProved \<notin># T" by (simp add: not_in_iff)
    from inv T AtConclude True none proved show ?thesis unfolding eq po_inv_def
      by (elim conjE, intro conjI) (simp_all add: not_in_iff)
  next
    case False
    with pos have more: "1 < po_pending s" by simp
    have eq: "run_thread p s = s\<lparr>po_pending := po_pending s - 1, po_threads := T\<rparr>"
      using T AtConclude False by (simp add: run_thread_def)
    from inv T AtConclude none more show ?thesis unfolding eq po_inv_def
      by (elim conjE, intro conjI impI) (simp_all del: count_greater_zero_iff)
  qed
next
  case AtLast
  from po_inv_once [OF inv, unfolded T AtLast]
  have last: "po_pending s = 0" "count T AtLast = 0" "count T AtHandOff = 0" "po_unproven_runs s = 0"
    by (simp_all split: if_splits)
  then have proved: "AtProved \<notin># T"
    using po_inv_pending [OF inv, unfolded T AtLast] by (simp add: not_in_iff)
  show ?thesis
  proof (cases "\<not> po_any_sent s \<or> po_proved s")
    case True
    then have eq: "run_thread p s = s\<lparr>po_threads := T\<rparr>" using T AtLast by (simp add: run_thread_def)
    from inv T AtLast last proved True show ?thesis unfolding eq po_inv_def
      by (elim conjE, intro conjI impI) simp_all
  next
    case False
    then have eq: "run_thread p s = s\<lparr>po_threads := add_mset AtHandOff T\<rparr>"
      using T AtLast by (simp add: run_thread_def)
    from inv T AtLast last proved False show ?thesis unfolding eq po_inv_def
      by (elim conjE, intro conjI impI) simp_all
  qed
next
  case AtHandOff
  have eq: "run_thread p s = s\<lparr>po_handed_off := True, po_unproven_runs := po_unproven_runs s + 1, po_threads := T\<rparr>"
    using T AtHandOff by (simp add: run_thread_def)
  from po_inv_once [OF inv, unfolded T AtHandOff]
  have last: "po_pending s = 0" "count T AtLast = 0" "count T AtHandOff = 0" "po_unproven_runs s = 0"
    by (simp_all split: if_splits)
  from inv T AtHandOff last show ?thesis unfolding eq po_inv_def
    by (elim conjE, intro conjI impI) simp_all
qed

lemma outcome_step_inv: "outcome_step s s' \<Longrightarrow> po_inv s \<Longrightarrow> po_idx s \<Longrightarrow> po_inv s'"
proof (induction rule: outcome_step.induct)
  case (step_sent s)
  then have "0 < po_pending s" unfolding po_inv_def by simp
  with step_sent show ?case unfolding po_inv_def receipt_pending_sent_def by auto
next
  case (step_count s)
  then have "0 < po_pending s" unfolding po_inv_def by simp
  with step_count show ?case unfolding po_inv_def receipt_pending_count_def by auto
next
  case (step_done s)
  then have "0 < po_pending s" unfolding po_inv_def by simp
  with step_done show ?case unfolding po_inv_def dispatch_done_def by auto
next
  case (step_delivery i s)
  then show ?case by (simp add: callback_def po_inv_threads)
next
  case (step_timeout i s)
  then show ?case by (simp add: callback_def po_inv_threads)
next
  case (step_thread p s)
  then obtain T where "po_threads s = add_mset p T" by (meson multi_member_split)
  then show ?case using step_thread run_thread_inv by blast
qed

text \<open>\<open>outcome_step\<close> in any number and order, from a fresh push.\<close>

lemma reachable_outcome: "outcome_step\<^sup>*\<^sup>* new_outcome s \<Longrightarrow> po_inv s \<and> po_idx s"
proof (induction rule: rtranclp_induct)
  case base
  show ?case using new_outcome_inv by simp
next
  case (step y z)
  then show ?case using outcome_step_inv outcome_step_idx by blast
qed

lemma po_inv_settled:
  assumes "po_inv s" and "po_dispatch s = DispatchDone" and "Open \<notin> set (po_receipts s)" and "po_threads s = {#}"
  shows "po_receipts s = [] \<or> po_proved_runs s = 1 \<or> po_unproven_runs s = 1"
proof -
  from po_inv_pending [OF assms(1)] assms have "po_pending s = 0" by (simp add: count_list_0_iff)
  with assms show ?thesis unfolding po_inv_def by auto
qed

text \<open>The hand-off starts only for a push that went out, and a finished dispatch obtains no receipt.\<close>

definition handing_off :: "push_outcome \<Rightarrow> bool" where
  "handing_off s \<longleftrightarrow> AtHandOff \<in># po_threads s \<or> 0 < po_unproven_runs s"

lemma run_thread_handing_off:
  assumes "p \<in># po_threads s" and "handing_off s \<longrightarrow> po_any_sent s" and "handing_off (run_thread p s)"
  shows "po_any_sent (run_thread p s)"
  using assms by (cases p) (auto simp: handing_off_def run_thread_def split: if_splits dest: in_diffD)

lemma outcome_step_handing_off:
  "outcome_step s s' \<Longrightarrow> handing_off s \<longrightarrow> po_any_sent s \<Longrightarrow> handing_off s' \<longrightarrow> po_any_sent s'"
proof (induction rule: outcome_step.induct)
  case (step_thread p s)
  then show ?case using run_thread_handing_off by blast
qed (simp_all add: handing_off_def receipt_pending_sent_def receipt_pending_count_def dispatch_done_def callback_def)

lemma reachable_handing_off: "outcome_step\<^sup>*\<^sup>* new_outcome s \<Longrightarrow> handing_off s \<longrightarrow> po_any_sent s"
proof (induction rule: rtranclp_induct)
  case base
  show ?case by (simp add: handing_off_def new_outcome_def)
next
  case (step y z)
  from outcome_step_handing_off [OF step(2,3)] show ?case .
qed

lemma run_thread_dispatch: "po_dispatch (run_thread p s) = po_dispatch s \<and> length (po_receipts (run_thread p s)) = length (po_receipts s)"
  by (cases p) (simp_all add: run_thread_def)

lemma dispatched_receipts:
  "outcome_step\<^sup>*\<^sup>* s s' \<Longrightarrow> po_dispatch s = DispatchDone \<Longrightarrow>
    po_dispatch s' = DispatchDone \<and> length (po_receipts s') = length (po_receipts s)"
proof (induction rule: rtranclp_induct)
  case (step y z)
  then have "po_dispatch y = DispatchDone" by blast
  with step(2) have "po_dispatch z = DispatchDone \<and> length (po_receipts z) = length (po_receipts y)"
    by (induction rule: outcome_step.induct) (simp_all add: run_thread_dispatch callback_def)
  with step show ?case by simp
qed simp

section \<open>Properties\<close>

text \<open>
  C6: a push ends in one way, once. Whatever the interleaving of the dispatch, the proofs
  and the time-outs, the hand-off runs at most once and never for a push one of whose
  receipts concluded by its proof, the proof hook runs at most once, and only when proved;
  and when nothing is left to run, a push that went out on some link was proved or handed
  off: none is lost in between.
\<close>

theorem push_proved_or_handed_off_once:
  assumes "outcome_step\<^sup>*\<^sup>* new_outcome s"
  shows "po_unproven_runs s \<le> 1 \<and> po_proved_runs s = (if po_proved s then 1 else 0) \<and>
    (0 < po_unproven_runs s \<longrightarrow> ByProof \<notin> set (po_receipts s)) \<and>
    (po_dispatch s = DispatchDone \<and> Open \<notin> set (po_receipts s) \<and> po_threads s = {#} \<longrightarrow>
       po_receipts s = [] \<or> po_proved_runs s = 1 \<or> po_unproven_runs s = 1)"
proof -
  from reachable_outcome [OF assms] have inv: "po_inv s" by simp
  have one: "po_unproven_runs s \<le> 1" using inv unfolding po_inv_def by (auto split: if_splits)
  have runs: "po_proved_runs s = (if po_proved s then 1 else 0)" using inv unfolding po_inv_def by simp
  have byproof: "0 < po_unproven_runs s \<longrightarrow> ByProof \<notin> set (po_receipts s)"
  proof
    assume "0 < po_unproven_runs s"
    with one have "po_unproven_runs s = 1" by simp
    with inv show "ByProof \<notin> set (po_receipts s)" unfolding po_inv_def by simp
  qed
  from one runs byproof po_inv_settled [OF inv] show ?thesis by blast
qed

theorem push_proved_or_handed_off_once_witness:
  "let s = run_thread AtConclude (run_thread (AtTimeout 0) (callback (AtTimeout 0)
         (receipt_pending_count (receipt_pending_sent new_outcome))))
   in po_unproven_runs s \<le> 1 \<and> po_pending s = 1"
proof -
  let ?s1 = "receipt_pending_sent new_outcome" let ?s2 = "receipt_pending_count ?s1"
  let ?s3 = "callback (AtTimeout 0) ?s2" let ?s4 = "run_thread (AtTimeout 0) ?s3" let ?s5 = "run_thread AtConclude ?s4"
  note defs = new_outcome_def receipt_pending_sent_def receipt_pending_count_def callback_def run_thread_def
  have "outcome_step new_outcome ?s1" by (rule step_sent) (simp add: defs)
  moreover have "outcome_step ?s1 ?s2" by (rule step_count) (simp add: defs)
  moreover have "outcome_step ?s2 ?s3" by (rule step_timeout) (simp add: defs)
  moreover have "outcome_step ?s3 ?s4" by (rule step_thread) (simp add: defs)
  moreover have "outcome_step ?s4 ?s5" by (rule step_thread) (simp add: defs)
  ultimately have "outcome_step\<^sup>*\<^sup>* new_outcome ?s5" by (meson rtranclp.rtrancl_into_rtrancl rtranclp.rtrancl_refl)
  from push_proved_or_handed_off_once [OF this] have "po_unproven_runs ?s5 \<le> 1" by blast
  then show ?thesis by (simp add: defs Let_def)
qed

end
