(* ===== verification/LiveSessions.thy ===== *)
theory LiveSessions
  imports PushOutcome
begin

text \<open>
  \<open>rfed/src/stream_registry.rs\<close> (the registries of stream links and the push over them) and
  \<open>rfed/src/link_session.rs\<close> (the \<open>rfed.link\<close> links bound for push). A link is its id. At a
  push, \<open>alive\<close> is \<open>is_alive\<close> of the link, \<open>send\<close> what \<open>send_packet_with_receipt\<close> gave
  (\<open>Inr True\<close> a receipt, \<open>Inr False\<close> no interface, \<open>Inl\<close> an error) and \<open>request\<close>
  whether \<open>LinkHandle::request\<close> was accepted.
\<close>

section \<open>Pushing on links\<close>

record stream_dispatch_result =
  sd_matched :: nat
  sd_sent :: nat

definition had_sessions :: "stream_dispatch_result \<Rightarrow> bool" where
  "had_sessions r \<longleftrightarrow> 0 < sd_matched r"

definition delivered :: "stream_dispatch_result \<Rightarrow> bool" where
  "delivered r \<longleftrightarrow> 0 < sd_sent r"

datatype not_sent = LinkGone | PacketRefused string

text \<open>Sending with a receipt counts the receipt and ties it to the outcome of the push.\<close>

definition send_with_receipt :: "(bytes \<Rightarrow> string + bool) \<Rightarrow> bytes \<Rightarrow> push_outcome \<Rightarrow> (not_sent + unit) \<times> push_outcome" where
  "send_with_receipt send link out = (case send link of
      Inr True \<Rightarrow> (Inr (), receipt_pending_count (receipt_pending_sent out))
    | Inr False \<Rightarrow> (Inl (PacketRefused ''no interface transmitted it''), out)
    | Inl _ \<Rightarrow> (Inl LinkGone, out))"

fun push_loop :: "(bytes \<Rightarrow> bool) \<Rightarrow> (bytes \<Rightarrow> string + bool) \<Rightarrow> bytes list \<Rightarrow> nat \<Rightarrow> bytes list \<Rightarrow> push_outcome \<Rightarrow>
    nat \<times> bytes list \<times> push_outcome" where
  "push_loop alive send [] sent stale out = (sent, stale, out)"
| "push_loop alive send (l # ls) sent stale out =
     (if \<not> alive l then push_loop alive send ls sent (stale @ [l]) out
      else (case send_with_receipt send l out of
          (Inr _, out') \<Rightarrow> push_loop alive send ls (sent + 1) stale out'
        | (Inl LinkGone, out') \<Rightarrow> push_loop alive send ls sent (stale @ [l]) out'
        | (Inl (PacketRefused _), out') \<Rightarrow> push_loop alive send ls sent stale out'))"

definition push_on_links :: "(bytes \<Rightarrow> bool) \<Rightarrow> (bytes \<Rightarrow> string + bool) \<Rightarrow> bytes list \<Rightarrow>
    stream_dispatch_result \<times> bytes list \<times> push_outcome option" where
  "push_on_links alive send matches =
     (if matches = [] then (\<lparr>sd_matched = 0, sd_sent = 0\<rparr>, [], None)
      else (case push_loop alive send matches 0 [] new_outcome of
          (sent, stale, out) \<Rightarrow> (\<lparr>sd_matched = length matches, sd_sent = sent\<rparr>, stale, Some (dispatch_done out))))"

section \<open>Replacing a client's earlier links\<close>

definition evict_others :: "bytes \<Rightarrow> ('s \<Rightarrow> bool) \<Rightarrow> (bytes, 's) hmap \<Rightarrow> bytes list \<times> (bytes, 's) hmap" where
  "evict_others keep p sessions =
     (let evicted = sort (map fst (filter (\<lambda>(i, s). i \<noteq> keep \<and> p s) sessions))
      in (evicted, fold hdel evicted sessions))"

definition remove_session :: "bytes \<Rightarrow> (bytes, 's) hmap \<Rightarrow> bool \<times> (bytes, 's) hmap" where
  "remove_session link sessions = (hget sessions link \<noteq> None, hdel link sessions)"

section \<open>Channel streams\<close>

record channel_stream_session =
  cs_subscriber :: bytes
  cs_channels :: "bytes list"

definition configure_stream :: "bytes \<Rightarrow> bytes \<Rightarrow> bytes list \<Rightarrow> (bytes, channel_stream_session) hmap \<Rightarrow>
    (bytes, channel_stream_session) hmap" where
  "configure_stream link sub chans sessions =
     hput link \<lparr>cs_subscriber = sub, cs_channels = chans\<rparr> (snd (evict_others link (\<lambda>s. cs_subscriber s = sub) sessions))"

definition dispatch_stream :: "(bytes \<Rightarrow> bool) \<Rightarrow> (bytes \<Rightarrow> string + bool) \<Rightarrow> bytes \<Rightarrow> bytes \<Rightarrow>
    (bytes, channel_stream_session) hmap \<Rightarrow> (stream_dispatch_result \<times> push_outcome option) \<times> (bytes, channel_stream_session) hmap" where
  "dispatch_stream alive send sub chan sessions =
     (let matches = map fst (filter (\<lambda>(_, s). cs_subscriber s = sub \<and> chan \<in> set (cs_channels s)) sessions)
      in case push_on_links alive send matches of (result, stale, out) \<Rightarrow> ((result, out), fold hdel stale sessions))"

section \<open>Propagation streams\<close>

record propagation_stream_session =
  ps_delivery :: bytes

definition register_propagation :: "bytes \<Rightarrow> bytes \<Rightarrow> (bytes, propagation_stream_session) hmap \<Rightarrow>
    (string + unit) \<times> (bytes, propagation_stream_session) hmap" where
  "register_propagation link delivery sessions =
     (if hget sessions link \<noteq> None then (Inl ''already_open'', sessions)
      else (Inr (), hput link \<lparr>ps_delivery = delivery\<rparr> (snd (evict_others link (\<lambda>s. ps_delivery s = delivery) sessions))))"

definition dispatch_propagation :: "(bytes \<Rightarrow> bool) \<Rightarrow> (bytes \<Rightarrow> string + bool) \<Rightarrow> bytes \<Rightarrow>
    (bytes, propagation_stream_session) hmap \<Rightarrow> (stream_dispatch_result \<times> push_outcome option) \<times> (bytes, propagation_stream_session) hmap" where
  "dispatch_propagation alive send delivery sessions =
     (let matches = map fst (filter (\<lambda>(_, s). ps_delivery s = delivery) sessions)
      in case push_on_links alive send matches of (result, stale, out) \<Rightarrow> ((result, out), fold hdel stale sessions))"

section \<open>The rfed.link sessions\<close>

record link_session =
  ls_subscriber :: "bytes option"
  ls_channels :: "bytes list"
  ls_delivery :: "bytes option"

definition new_session :: link_session where
  "new_session = \<lparr>ls_subscriber = None, ls_channels = [], ls_delivery = None\<rparr>"

definition wants_channel :: "bytes option \<Rightarrow> bytes list \<Rightarrow> bytes \<Rightarrow> bytes \<Rightarrow> bool" where
  "wants_channel bound_sub bound_chans sub chan \<longleftrightarrow> bound_sub = Some sub \<and> chan \<in> set bound_chans"

text \<open>\<open>entry(link).or_insert_with(new)\<close>, then the fields set.\<close>

definition bind_entry :: "bytes \<Rightarrow> (link_session \<Rightarrow> link_session) \<Rightarrow> (bytes, link_session) hmap \<Rightarrow> (bytes, link_session) hmap" where
  "bind_entry link f sessions =
     hput link (f (case hget sessions link of Some s \<Rightarrow> s | None \<Rightarrow> new_session)) sessions"

definition configure_channels :: "bytes \<Rightarrow> bytes \<Rightarrow> bytes list \<Rightarrow> (bytes, link_session) hmap \<Rightarrow>
    bytes list \<times> (bytes, link_session) hmap" where
  "configure_channels link sub chans sessions =
     (let (replaced, kept) = evict_others link (\<lambda>s. ls_subscriber s = Some sub) sessions
      in (replaced, bind_entry link (\<lambda>s. s\<lparr>ls_subscriber := Some sub, ls_channels := chans\<rparr>) kept))"

definition configure_delivery :: "bytes \<Rightarrow> bytes \<Rightarrow> (bytes, link_session) hmap \<Rightarrow>
    bytes list \<times> (bytes, link_session) hmap" where
  "configure_delivery link delivery sessions =
     (let (replaced, kept) = evict_others link (\<lambda>s. ls_delivery s = Some delivery) sessions
      in (replaced, bind_entry link (\<lambda>s. s\<lparr>ls_delivery := Some delivery\<rparr>) kept))"

definition has_channel_session :: "bytes \<Rightarrow> bytes \<Rightarrow> (bytes, link_session) hmap \<Rightarrow> bool" where
  "has_channel_session sub chan sessions =
     list_ex (\<lambda>(_, s). wants_channel (ls_subscriber s) (ls_channels s) sub chan) sessions"

definition matching :: "(link_session \<Rightarrow> bool) \<Rightarrow> (bytes, link_session) hmap \<Rightarrow> bytes list" where
  "matching p sessions = map fst (filter (\<lambda>(_, s). p s) sessions)"

text \<open>\<open>request link path data\<close>: \<open>enc\<close> is the msgpack encoding of the payload, \<open>None\<close> when it fails.\<close>

definition push_request :: "(bytes \<Rightarrow> bytes option) \<Rightarrow> (bytes \<Rightarrow> string \<Rightarrow> bytes \<Rightarrow> bool) \<Rightarrow> bytes \<Rightarrow> string \<Rightarrow> bytes \<Rightarrow> bool" where
  "push_request enc request link path payload = (case enc payload of
      None \<Rightarrow> False
    | Some data \<Rightarrow> request link path data)"

fun dispatch_loop :: "(bytes \<Rightarrow> bool) \<Rightarrow> (bytes \<Rightarrow> bool) \<Rightarrow> bytes list \<Rightarrow> bytes list \<Rightarrow> bytes list \<Rightarrow> bytes list \<times> bytes list" where
  "dispatch_loop alive push [] sent stale = (sent, stale)"
| "dispatch_loop alive push (l # ls) sent stale =
     (if \<not> alive l then dispatch_loop alive push ls sent (stale @ [l])
      else if push l then dispatch_loop alive push ls (sent @ [l]) stale
      else dispatch_loop alive push ls sent (stale @ [l]))"

text \<open>The links the request went out on come with the result: their answers arrive later.\<close>

definition dispatch_on :: "(bytes \<Rightarrow> bool) \<Rightarrow> (bytes \<Rightarrow> bytes option) \<Rightarrow> (bytes \<Rightarrow> string \<Rightarrow> bytes \<Rightarrow> bool) \<Rightarrow> bytes list \<Rightarrow>
    string \<Rightarrow> bytes \<Rightarrow> (bytes, link_session) hmap \<Rightarrow> (stream_dispatch_result \<times> bytes list) \<times> (bytes, link_session) hmap" where
  "dispatch_on alive enc request matches path payload sessions =
     (case dispatch_loop alive (\<lambda>l. push_request enc request l path payload) matches [] [] of
        (sent, stale) \<Rightarrow> ((\<lparr>sd_matched = length matches, sd_sent = length sent\<rparr>, sent), fold hdel stale sessions))"

definition dispatch_channel :: "(bytes \<Rightarrow> bool) \<Rightarrow> (bytes \<Rightarrow> bytes option) \<Rightarrow> (bytes \<Rightarrow> string \<Rightarrow> bytes \<Rightarrow> bool) \<Rightarrow> bytes \<Rightarrow> bytes \<Rightarrow>
    bytes \<Rightarrow> (bytes, link_session) hmap \<Rightarrow> (stream_dispatch_result \<times> bytes list) \<times> (bytes, link_session) hmap" where
  "dispatch_channel alive enc request sub chan payload sessions =
     dispatch_on alive enc request (matching (\<lambda>s. wants_channel (ls_subscriber s) (ls_channels s) sub chan) sessions)
       ''/delivery'' payload sessions"

definition dispatch_lxmf :: "(bytes \<Rightarrow> bool) \<Rightarrow> (bytes \<Rightarrow> bytes option) \<Rightarrow> (bytes \<Rightarrow> string \<Rightarrow> bytes \<Rightarrow> bool) \<Rightarrow> bytes \<Rightarrow>
    bytes \<Rightarrow> (bytes, link_session) hmap \<Rightarrow> (stream_dispatch_result \<times> bytes list) \<times> (bytes, link_session) hmap" where
  "dispatch_lxmf alive enc request delivery payload sessions =
     dispatch_on alive enc request (matching (\<lambda>s. ls_delivery s = Some delivery) sessions) ''/lxmf/delivery'' payload sessions"

section \<open>The answers to a push\<close>

text \<open>
  The two hooks of a push behind their gates. \<open>Answered\<close> is a response with its bytes,
  \<open>Unanswered\<close> the failure callback. \<open>decode\<close> is the msgpack decoding of a boolean.
\<close>

datatype link_answer = Answered "bytes option" | Unanswered

record push_hooks =
  ph_failed_gate :: bool
  ph_acked_gate :: bool
  ph_failed_runs :: nat
  ph_acked_runs :: nat

definition new_hooks :: push_hooks where
  "new_hooks = \<lparr>ph_failed_gate = False, ph_acked_gate = False, ph_failed_runs = 0, ph_acked_runs = 0\<rparr>"

definition run_failed :: "push_hooks \<Rightarrow> push_hooks" where
  "run_failed h = h\<lparr>ph_failed_gate := True,
     ph_failed_runs := ph_failed_runs h + (if ph_failed_gate h then 0 else 1)\<rparr>"

definition run_acked :: "push_hooks \<Rightarrow> push_hooks" where
  "run_acked h = h\<lparr>ph_acked_gate := True,
     ph_acked_runs := ph_acked_runs h + (if ph_acked_gate h then 0 else 1)\<rparr>"

definition acknowledges :: "(bytes \<Rightarrow> bool option) \<Rightarrow> link_answer \<Rightarrow> bool" where
  "acknowledges decode a = (case a of
      Answered (Some b) \<Rightarrow> (case decode b of Some v \<Rightarrow> v | None \<Rightarrow> False)
    | Answered None \<Rightarrow> False
    | Unanswered \<Rightarrow> False)"

definition on_answer :: "(bytes \<Rightarrow> bool option) \<Rightarrow> link_answer \<Rightarrow> push_hooks \<Rightarrow> push_hooks" where
  "on_answer decode a h = (if acknowledges decode a then run_acked h else run_failed h)"

end
