(* ===== verification/LiveSessions_Props.thy ===== *)
theory LiveSessions_Props
  imports LiveSessions
begin

text \<open>
  Properties of the live sessions. The three registries share one contract, the locale
  \<open>link_binding\<close>: binding a key on a link takes the key from every other link. What it
  gives, one link per key in every reachable registry, is proved once in the locale.
\<close>

section \<open>Removing links\<close>

lemma hget_fold_hdel: "hget (fold hdel ls m) i = (if i \<in> set ls then None else hget m i)"
  by (induction ls arbitrary: m) (auto simp: hmap_simps)

lemma fold_hdel_filter: "fold hdel ls m = filter (\<lambda>(i, _). i \<notin> set ls) m"
  by (induction ls arbitrary: m) (auto simp: AList.delete_eq case_prod_unfold intro!: filter_cong)

lemma hkeys_filter: "hkeys_distinct m \<Longrightarrow> hkeys_distinct (filter p m)"
  by (simp add: hkeys_distinct_def distinct_map_filter)

lemma hkeys_fold_hdel: "hkeys_distinct m \<Longrightarrow> hkeys_distinct (fold hdel ls m)"
  unfolding fold_hdel_filter by (rule hkeys_filter)

lemma evict_others_get:
  assumes "hkeys_distinct m"
  shows "hget (snd (evict_others keep p m)) i = (case hget m i of
      Some s \<Rightarrow> if i \<noteq> keep \<and> p s then None else Some s | None \<Rightarrow> None)"
proof (cases "hget m i")
  case None
  then show ?thesis by (simp add: evict_others_def Let_def hget_fold_hdel)
next
  case (Some s)
  have "i \<in> fst ` set (filter (\<lambda>(i, s). i \<noteq> keep \<and> p s) m) \<longleftrightarrow> i \<noteq> keep \<and> p s"
  proof
    assume "i \<in> fst ` set (filter (\<lambda>(i, s). i \<noteq> keep \<and> p s) m)"
    then obtain t where t: "(i, t) \<in> set m" "i \<noteq> keep" "p t" by auto
    with Some hget_mem_iff [OF assms, of i t] have "t = s" by simp
    with t show "i \<noteq> keep \<and> p s" by simp
  next
    assume "i \<noteq> keep \<and> p s"
    with hget_mem [OF Some] show "i \<in> fst ` set (filter (\<lambda>(i, s). i \<noteq> keep \<and> p s) m)" by force
  qed
  with Some show ?thesis by (auto simp: evict_others_def Let_def hget_fold_hdel)
qed

lemma evict_others_keys: "hkeys_distinct m \<Longrightarrow> hkeys_distinct (snd (evict_others keep p m))"
  by (simp add: evict_others_def Let_def hkeys_fold_hdel)

section \<open>One link per key\<close>

definition one_link :: "('s \<Rightarrow> 'k option) \<Rightarrow> (bytes, 's) hmap \<Rightarrow> bool" where
  "one_link bound m \<longleftrightarrow> hkeys_distinct m \<and>
     (\<forall>i j s t k. hget m i = Some s \<and> hget m j = Some t \<and> bound s = Some k \<and> bound t = Some k \<longrightarrow> i = j)"

lemma one_linkD:
  "one_link bound m \<Longrightarrow> hget m i = Some s \<Longrightarrow> hget m j = Some t \<Longrightarrow> bound s = Some k \<Longrightarrow> bound t = Some k \<Longrightarrow> i = j"
  unfolding one_link_def by blast

lemma one_link_keys: "one_link bound m \<Longrightarrow> hkeys_distinct m"
  by (simp add: one_link_def)

lemma one_linkI:
  "hkeys_distinct m \<Longrightarrow> (\<And>i j s t k. hget m i = Some s \<Longrightarrow> hget m j = Some t \<Longrightarrow> bound s = Some k \<Longrightarrow> bound t = Some k \<Longrightarrow> i = j) \<Longrightarrow>
    one_link bound m"
  unfolding one_link_def by blast

text \<open>Links that keep or lose their binding.\<close>

lemma one_link_shrink:
  assumes "one_link bound m" and "hkeys_distinct m'"
    and "\<And>i s k. hget m' i = Some s \<Longrightarrow> bound s = Some k \<Longrightarrow> \<exists>t. hget m i = Some t \<and> bound t = Some k"
  shows "one_link bound m'"
proof (rule one_linkI [OF assms(2)])
  fix i j s t k
  assume "hget m' i = Some s" "hget m' j = Some t" "bound s = Some k" "bound t = Some k"
  with assms(3) obtain s' t' where "hget m i = Some s'" "bound s' = Some k" "hget m j = Some t'" "bound t' = Some k"
    by meson
  with one_linkD [OF assms(1)] show "i = j" by blast
qed

lemma one_link_drop:
  assumes "one_link bound m"
  shows "one_link bound (fold hdel ls m)"
  by (rule one_link_shrink [OF assms hkeys_fold_hdel [OF one_link_keys [OF assms]]])
    (simp add: hget_fold_hdel split: if_splits)

lemma one_link_remove: "one_link bound m \<Longrightarrow> one_link bound (hdel l m)"
  using one_link_drop [of bound m "[l]"] by simp

lemma one_link_matches:
  assumes one: "one_link bound m" and p: "\<And>s. p s \<Longrightarrow> bound s = Some k"
  shows "length (filter (\<lambda>(_, s). p s) m) \<le> 1"
proof (rule ccontr)
  let ?f = "filter (\<lambda>(_, s). p s) m"
  assume "\<not> length ?f \<le> 1"
  then obtain a b xs where f: "?f = a # b # xs" by (cases ?f rule: remdups_adj.cases) auto
  from one_link_keys [OF one] have d: "hkeys_distinct m" .
  from f have "a \<in> set ?f" "b \<in> set ?f" by simp_all
  then have "hget m (fst a) = Some (snd a)" "hget m (fst b) = Some (snd b)" "p (snd a)" "p (snd b)"
    using hget_mem_iff [OF d] by auto
  with one_linkD [OF one] p have "fst a = fst b" by blast
  moreover from hkeys_filter [OF d, of "\<lambda>(_, s). p s"] f have "fst a \<noteq> fst b" by (simp add: hkeys_distinct_def)
  ultimately show False by simp
qed

locale link_binding =
  fixes bound :: "'s \<Rightarrow> 'k option" and can_bind :: "bytes \<Rightarrow> (bytes, 's) hmap \<Rightarrow> bool"
    and bind :: "bytes \<Rightarrow> 'k \<Rightarrow> 'a \<Rightarrow> (bytes, 's) hmap \<Rightarrow> (bytes, 's) hmap"
  assumes refused: "\<not> can_bind l m \<Longrightarrow> bind l k a m = m"
    and keys: "hkeys_distinct m \<Longrightarrow> hkeys_distinct (bind l k a m)"
    and own: "hkeys_distinct m \<Longrightarrow> can_bind l m \<Longrightarrow> \<exists>s. hget (bind l k a m) l = Some s \<and> bound s = Some k"
    and others: "hkeys_distinct m \<Longrightarrow> can_bind l m \<Longrightarrow> i \<noteq> l \<Longrightarrow> hget (bind l k a m) i =
      (case hget m i of Some s \<Rightarrow> if bound s = Some k then None else Some s | None \<Rightarrow> None)"
begin

lemma bind_one:
  assumes one: "one_link bound m"
  shows "one_link bound (bind l k a m)"
proof (cases "can_bind l m")
  case True
  note d = one_link_keys [OF one]
  from own [OF d True] obtain s0 where s0: "hget (bind l k a m) l = Some s0" "bound s0 = Some k" by blast
  have old: "hget m i = Some s \<and> bound s \<noteq> Some k" if "hget (bind l k a m) i = Some s" "i \<noteq> l" for i s
    using that others [OF d True that(2)] by (auto split: option.splits if_splits)
  show ?thesis
  proof (rule one_linkI [OF keys [OF d]])
    fix i j s t k'
    assume i: "hget (bind l k a m) i = Some s" "bound s = Some k'" and j: "hget (bind l k a m) j = Some t" "bound t = Some k'"
    show "i = j"
    proof (cases "i = l")
      case True
      with i s0 have "k' = k" by simp
      with j old show ?thesis using True by metis
    next
      case False
      with old [OF i(1)] have s: "hget m i = Some s" "bound s \<noteq> Some k" by simp_all
      show ?thesis
      proof (cases "j = l")
        case True
        with j s0 i s show ?thesis by simp
      next
        case False
        from old [OF j(1) False] have "hget m j = Some t" by simp
        from one_linkD [OF one s(1) this i(2) j(2)] show ?thesis .
      qed
    qed
  qed
qed (simp add: refused one)

lemma bind_takes_key:
  assumes "hkeys_distinct m" and "can_bind l m"
  shows "hget (bind l k a m) i = Some s \<and> bound s = Some k \<longleftrightarrow> i = l \<and> hget (bind l k a m) l = Some s"
proof (cases "i = l")
  case True
  with own [OF assms, of k a] show ?thesis by auto
next
  case False
  from others [OF assms False, of k a] False show ?thesis by (auto split: option.splits if_splits)
qed

end

interpretation channel_streams: link_binding "\<lambda>s. Some (cs_subscriber s)" "\<lambda>l m. True" configure_stream
  by unfold_locales
    (auto simp: configure_stream_def hmap_simps evict_others_get evict_others_keys hm.inv_put split: option.splits)

interpretation propagation_streams: link_binding "\<lambda>s. Some (ps_delivery s)" "\<lambda>l m. hget m l = None"
    "\<lambda>l k (a :: unit) m. snd (register_propagation l k m)"
  by unfold_locales
    (auto simp: register_propagation_def hmap_simps evict_others_get evict_others_keys hm.inv_put split: option.splits)

interpretation subscriber_links: link_binding ls_subscriber "\<lambda>l m. True" "\<lambda>l k chans m. snd (configure_channels l k chans m)"
  by unfold_locales
    (auto simp: configure_channels_def bind_entry_def case_prod_unfold Let_def hmap_simps evict_others_get evict_others_keys hm.inv_put split: option.splits)

interpretation delivery_links: link_binding ls_delivery "\<lambda>l m. True" "\<lambda>l k (a :: unit) m. snd (configure_delivery l k m)"
  by unfold_locales
    (auto simp: configure_delivery_def bind_entry_def case_prod_unfold Let_def hmap_simps evict_others_get evict_others_keys hm.inv_put split: option.splits)

text \<open>Binding one of the two keys leaves the other bound where it was, or gone with its link.\<close>

lemma configure_channels_delivery:
  assumes "one_link ls_delivery m"
  shows "one_link ls_delivery (snd (configure_channels l sub chans m))"
proof (rule one_link_shrink [OF assms])
  note d = one_link_keys [OF assms]
  show "hkeys_distinct (snd (configure_channels l sub chans m))" by (rule subscriber_links.keys [OF d])
  fix i s k assume "hget (snd (configure_channels l sub chans m)) i = Some s" "ls_delivery s = Some k"
  then show "\<exists>t. hget m i = Some t \<and> ls_delivery t = Some k"
    by (auto simp: configure_channels_def bind_entry_def case_prod_unfold Let_def hmap_simps evict_others_get [OF d] new_session_def
        split: option.splits if_splits)
qed

lemma configure_delivery_subscriber:
  assumes "one_link ls_subscriber m"
  shows "one_link ls_subscriber (snd (configure_delivery l delivery m))"
proof (rule one_link_shrink [OF assms])
  note d = one_link_keys [OF assms]
  show "hkeys_distinct (snd (configure_delivery l delivery m))" by (rule delivery_links.keys [OF d])
  fix i s k assume "hget (snd (configure_delivery l delivery m)) i = Some s" "ls_subscriber s = Some k"
  then show "\<exists>t. hget m i = Some t \<and> ls_subscriber t = Some k"
    by (auto simp: configure_delivery_def bind_entry_def case_prod_unfold Let_def hmap_simps evict_others_get [OF d] new_session_def
        split: option.splits if_splits)
qed

section \<open>Runs of the registry\<close>

inductive link_step :: "(bytes, link_session) hmap \<Rightarrow> (bytes, link_session) hmap \<Rightarrow> bool" where
  link_channels: "link_step m (snd (configure_channels l sub chans m))"
| link_delivery: "link_step m (snd (configure_delivery l delivery m))"
| link_remove: "link_step m (snd (remove_session l m))"
| link_push_channel: "link_step m (snd (dispatch_channel alive enc request sub chan payload m))"
| link_push_lxmf: "link_step m (snd (dispatch_lxmf alive enc request delivery payload m))"

lemma dispatch_on_one:
  assumes "one_link bound m"
  shows "one_link bound (snd (dispatch_on alive enc request matches path payload m))"
proof -
  have "snd (dispatch_on alive enc request matches path payload m) =
      fold hdel (snd (dispatch_loop alive (\<lambda>l. push_request enc request l path payload) matches [] [])) m"
    by (simp add: dispatch_on_def case_prod_unfold)
  with one_link_drop [OF assms] show ?thesis by simp
qed

lemma link_step_one:
  "link_step m m' \<Longrightarrow> one_link ls_subscriber m \<and> one_link ls_delivery m \<Longrightarrow> one_link ls_subscriber m' \<and> one_link ls_delivery m'"
  by (induction rule: link_step.induct)
    (simp_all add: subscriber_links.bind_one delivery_links.bind_one configure_channels_delivery configure_delivery_subscriber
      remove_session_def one_link_remove dispatch_channel_def dispatch_lxmf_def dispatch_on_one)

lemma link_run_one: "link_step\<^sup>*\<^sup>* [] m \<Longrightarrow> one_link ls_subscriber m \<and> one_link ls_delivery m"
proof (induction rule: rtranclp_induct)
  case base
  show ?case by (simp add: one_link_def hkeys_distinct_def)
next
  case (step y z)
  from link_step_one [OF step(2,3)] show ?case .
qed

lemma dispatch_loop_eq:
  "dispatch_loop alive push ls sent stale =
     (sent @ filter (\<lambda>l. alive l \<and> push l) ls, stale @ filter (\<lambda>l. \<not> (alive l \<and> push l)) ls)"
  by (induction ls arbitrary: sent stale) auto

section \<open>Properties\<close>

text \<open>
  C34: a client holds one link. In every registry the operations reach, whatever the order of
  binds, closes and pushes, no two links are bound for one subscriber and no two for one
  delivery hash, so a push goes to one link at most; and after a client binds its channels
  on a link, that link alone has it, with exactly the channels named.
\<close>

theorem one_link_per_client:
  assumes "link_step\<^sup>*\<^sup>* [] m"
  shows "sd_matched (fst (fst (dispatch_channel alive enc request sub chan payload m))) \<le> 1 \<and>
    sd_matched (fst (fst (dispatch_lxmf alive enc request delivery payload m))) \<le> 1 \<and>
    (\<forall>i s. hget (snd (configure_channels l sub chans m)) i = Some s \<and> ls_subscriber s = Some sub \<longleftrightarrow>
       i = l \<and> hget (snd (configure_channels l sub chans m)) l = Some s) \<and>
    (has_channel_session sub chan (snd (configure_channels l sub chans m)) \<longleftrightarrow> chan \<in> set chans)"
proof -
  from link_run_one [OF assms] have one: "one_link ls_subscriber m" "one_link ls_delivery m" by simp_all
  note d = one_link_keys [OF one(1)]
  let ?m = "snd (configure_channels l sub chans m)"
  have c: "sd_matched (fst (fst (dispatch_channel alive enc request sub chan payload m))) \<le> 1"
    using one_link_matches [OF one(1), of "\<lambda>s. wants_channel (ls_subscriber s) (ls_channels s) sub chan" sub]
    by (simp add: dispatch_channel_def dispatch_on_def matching_def wants_channel_def dispatch_loop_eq)
  have x: "sd_matched (fst (fst (dispatch_lxmf alive enc request delivery payload m))) \<le> 1"
    using one_link_matches [OF one(2), of "\<lambda>s. ls_delivery s = Some delivery" delivery]
    by (simp add: dispatch_lxmf_def dispatch_on_def matching_def dispatch_loop_eq)
  have takes: "hget ?m i = Some s \<and> ls_subscriber s = Some sub \<longleftrightarrow> i = l \<and> hget ?m l = Some s" for i s
    by (rule subscriber_links.bind_takes_key [OF d]) simp
  obtain s where s: "hget ?m l = Some s" "ls_channels s = chans"
    by (simp add: configure_channels_def bind_entry_def case_prod_unfold Let_def hmap_simps)
  have "has_channel_session sub chan ?m \<longleftrightarrow> (\<exists>i t. hget ?m i = Some t \<and> ls_subscriber t = Some sub \<and> chan \<in> set (ls_channels t))"
    using hget_mem_iff [OF subscriber_links.keys [OF d, of l sub chans]]
    by (fastforce simp: has_channel_session_def wants_channel_def list_ex_iff)
  also have "\<dots> \<longleftrightarrow> chan \<in> set chans" using takes s by (metis option.inject)
  finally show ?thesis using c x takes by blast
qed

theorem one_link_per_client_witness:
  "let m = snd (configure_channels [2] [9] [[5]] (snd (configure_channels [1] [9] [[5], [6]] [])))
   in map fst m = [[2]] \<and> sd_matched (fst (fst (dispatch_channel (\<lambda>_. True) Some (\<lambda>_ _ _. True) [9] [5] [] m))) \<le> 1"
proof -
  let ?m1 = "snd (configure_channels [1] [9] [[5], [6]] [])"
  let ?m = "snd (configure_channels [2] [9] [[5]] ?m1)"
  have "link_step [] ?m1" "link_step ?m1 ?m" by (rule link_channels)+
  then have "link_step\<^sup>*\<^sup>* [] ?m" by (rule rtranclp.rtrancl_into_rtrancl [OF r_into_rtranclp])
  from one_link_per_client [OF this] have "sd_matched (fst (fst (dispatch_channel (\<lambda>_. True) Some (\<lambda>_ _ _. True) [9] [5] [] ?m))) \<le> 1"
    by blast
  moreover have "map fst ?m = [[2]]"
    by (simp add: configure_channels_def evict_others_def bind_entry_def new_session_def Let_def)
  ultimately show ?thesis by (simp add: Let_def)
qed

definition takes_push :: "(bytes \<Rightarrow> bool) \<Rightarrow> (bytes \<Rightarrow> bytes option) \<Rightarrow> (bytes \<Rightarrow> string \<Rightarrow> bytes \<Rightarrow> bool) \<Rightarrow> bytes \<Rightarrow> bytes \<Rightarrow> bool" where
  "takes_push alive enc request payload l \<longleftrightarrow> alive l \<and> push_request enc request l ''/delivery'' payload"

text \<open>
  A push to the \<open>rfed.link\<close> sessions is sent on exactly the live matching links that take
  the request, and exactly the matching links that did not take it are dropped from the
  registry, so the next push does not find them; every other session stays.
\<close>

theorem link_push_drops_dead:
  "case dispatch_channel alive enc request sub chan payload m of ((result, sent), m') \<Rightarrow>
    sent = filter (takes_push alive enc request payload) (matching (\<lambda>s. wants_channel (ls_subscriber s) (ls_channels s) sub chan) m) \<and>
    sd_sent result = length sent \<and>
    m' = filter (\<lambda>(i, s). i \<notin> set (matching (\<lambda>s. wants_channel (ls_subscriber s) (ls_channels s) sub chan) m) \<or>
      takes_push alive enc request payload i) m"
  unfolding dispatch_channel_def dispatch_on_def dispatch_loop_eq takes_push_def fold_hdel_filter
  by (auto intro!: filter_cong)

text \<open>
  Whatever the answers of the links of one push, in any number and order, each hook runs
  at most once: the failure hook runs (once) exactly when some link refused, failed or did
  not answer, the acknowledgement hook (once) exactly when some link acknowledged.
\<close>

theorem push_hooks_run_once:
  "ph_failed_runs (fold (on_answer decode) answers new_hooks) = (if \<exists>a \<in> set answers. \<not> acknowledges decode a then 1 else 0) \<and>
   ph_acked_runs (fold (on_answer decode) answers new_hooks) = (if \<exists>a \<in> set answers. acknowledges decode a then 1 else 0)"
proof -
  have "ph_failed_runs (fold (on_answer decode) answers h) = ph_failed_runs h +
        (if \<not> ph_failed_gate h \<and> (\<exists>a \<in> set answers. \<not> acknowledges decode a) then 1 else 0) \<and>
      ph_acked_runs (fold (on_answer decode) answers h) = ph_acked_runs h +
        (if \<not> ph_acked_gate h \<and> (\<exists>a \<in> set answers. acknowledges decode a) then 1 else 0)" for h
  proof (induction answers arbitrary: h)
    case (Cons a answers)
    have "on_answer decode a h = (if acknowledges decode a then run_acked h else run_failed h)"
      by (rule on_answer_def)
    then show ?case by (simp add: Cons.IH run_acked_def run_failed_def)
  qed simp
  from this [of new_hooks] show ?thesis by (simp add: new_hooks_def)
qed


section \<open>A stream push and its outcome\<close>

lemma push_loop_outcome:
  "push_loop alive send ls sent stale out = (sent', stale', out') \<Longrightarrow> po_dispatch out = Trying \<Longrightarrow>
    length (po_receipts out) = sent \<Longrightarrow>
    outcome_step\<^sup>*\<^sup>* out out' \<and> po_dispatch out' = Trying \<and> length (po_receipts out') = sent'"
proof (induction ls arbitrary: sent stale out)
  case (Cons l ls)
  show ?case
  proof (cases "alive l \<and> send l = Inr True")
    case True
    let ?o1 = "receipt_pending_sent out" let ?o2 = "receipt_pending_count ?o1"
    have "outcome_step out ?o1" by (rule step_sent) (rule Cons.prems)
    moreover have "outcome_step ?o1 ?o2" by (rule step_count) (simp add: receipt_pending_sent_def)
    ultimately have two: "outcome_step\<^sup>*\<^sup>* out ?o2" by (meson rtranclp.rtrancl_into_rtrancl rtranclp.rtrancl_refl)
    have "push_loop alive send ls (sent + 1) stale ?o2 = (sent', stale', out')"
      using Cons.prems(1) True by (simp add: send_with_receipt_def)
    from Cons.IH [OF this] Cons.prems have "outcome_step\<^sup>*\<^sup>* ?o2 out' \<and> po_dispatch out' = Trying \<and> length (po_receipts out') = sent'"
      by (simp add: receipt_pending_sent_def receipt_pending_count_def)
    with two show ?thesis by (meson rtranclp_trans)
  next
    case False
    then obtain stale'' where "push_loop alive send ls sent stale'' out = (sent', stale', out')"
      using Cons.prems(1) by (auto simp: send_with_receipt_def split: if_splits sum.splits bool.splits)
    from Cons.IH [OF this Cons.prems(2,3)] show ?thesis .
  qed
qed simp

text \<open>
  A stream push takes one route. A push that got no receipt is never handed off later:
  its caller falls through to the next tier at once. A push that got one, whatever the
  order of its proofs and time-outs, ends proved or handed off once all of them have
  concluded, so the caller that stopped at \<open>delivered()\<close> loses nothing.
\<close>

theorem stream_push_one_route:
  assumes "push_on_links alive send matches = (result, stale, Some out)" and "outcome_step\<^sup>*\<^sup>* out s"
  shows "length (po_receipts s) = sd_sent result \<and>
    (\<not> delivered result \<longrightarrow> po_unproven_runs s = 0) \<and>
    (delivered result \<and> Open \<notin> set (po_receipts s) \<and> po_threads s = {#} \<longrightarrow> po_proved_runs s = 1 \<or> po_unproven_runs s = 1)"
proof -
  obtain sent stale' o1 where loop: "push_loop alive send matches 0 [] new_outcome = (sent, stale', o1)"
    by (cases "push_loop alive send matches 0 [] new_outcome") auto
  with assms(1) have out: "out = dispatch_done o1" "sd_sent result = sent"
    by (auto simp: push_on_links_def split: if_splits)
  from push_loop_outcome [OF loop] have o1: "outcome_step\<^sup>*\<^sup>* new_outcome o1" "po_dispatch o1 = Trying" "length (po_receipts o1) = sent"
    by (simp_all add: new_outcome_def)
  have "outcome_step o1 out" unfolding out by (rule step_done) (rule o1)
  with o1(1) assms(2) have reach: "outcome_step\<^sup>*\<^sup>* new_outcome s" by (meson rtranclp.rtrancl_into_rtrancl rtranclp_trans)
  have dd: "po_dispatch out = DispatchDone" "length (po_receipts out) = sent" using o1(3) by (simp_all add: out dispatch_done_def)
  from dispatched_receipts [OF assms(2) dd(1)] dd(2)
  have s: "po_dispatch s = DispatchDone" "length (po_receipts s) = sent" by simp_all
  from reachable_outcome [OF reach] have inv: "po_inv s" by simp
  have "po_unproven_runs s = 0" if "sent = 0"
  proof -
    from that s have "\<not> po_any_sent s" using inv unfolding po_inv_def by simp
    with reachable_handing_off [OF reach] show ?thesis by (simp add: handing_off_def)
  qed
  moreover have "po_proved_runs s = 1 \<or> po_unproven_runs s = 1"
    if "sent \<noteq> 0" "Open \<notin> set (po_receipts s)" "po_threads s = {#}"
    using po_inv_settled [OF inv s(1) that(2,3)] that(1) s(2) by auto
  ultimately show ?thesis using s(2) out(2) by (auto simp: delivered_def)
qed

theorem stream_push_one_route_witness:
  "case push_on_links (\<lambda>_. True) (\<lambda>_. Inr True) [[1]] of (result, stale, out) \<Rightarrow>
     length (po_receipts (the out)) = 1 \<and> delivered result"
proof -
  obtain result stale out where eq: "push_on_links (\<lambda>_. True) (\<lambda>_. Inr True) [[1]] = (result, stale, Some out)"
    and sent: "sd_sent result = 1"
    by (simp add: push_on_links_def send_with_receipt_def)
  from stream_push_one_route [OF eq rtranclp.rtrancl_refl] sent show ?thesis by (simp add: eq delivered_def)
qed

end
