(* ===== verification/Handoff.thy ===== *)
theory Handoff
  imports DeferredQueue Notify PushOutcome
begin

text \<open>
  \<open>rfed/src/handoff.rs\<close>: what a fan-out does with a recipient whose delivery no proof
  confirmed: its blob is queued for the pull, then its notify registrations are woken.
  The deferred queue and the registry are behind mutexes; \<open>None\<close> is a poisoned one. What
  comes from the Reticulum stack is bundled in \<open>wake_env\<close>; \<open>we_stack n\<close> is the stack as
  the n-th wake of the hand-off finds it. \<open>full_hash\<close> is \<open>identity::full_hash\<close>. The
  \<open>[handoff]\<close> log lines are the values of \<open>handoff_line\<close>, with the numbers they print.
\<close>

section \<open>Proofs of delivery packets\<close>

datatype packet_proof = Required | Observed

definition DELIVERY_PACKET_PROOF :: packet_proof where
  "DELIVERY_PACKET_PROOF = Required"

text \<open>
  What waits on the receipt: the outcome of a push with this one receipt, or, when the proof
  is only observed, the flag that one verdict was logged; \<open>ob_proved_runs\<close> counts the runs
  of \<open>on_proved\<close>, \<open>ob_lines\<close> the verdicts logged (\<open>True\<close> for proved).
\<close>

record observed_packet =
  ob_concluded :: bool
  ob_proved_runs :: nat
  ob_lines :: "bool list"

datatype packet_wait = AwaitProof push_outcome | ObserveProof observed_packet

fun await_packet_proof :: "packet_proof \<Rightarrow> packet_wait" where
  "await_packet_proof Required =
     AwaitProof (dispatch_done (receipt_pending_count (receipt_pending_sent new_outcome)))"
| "await_packet_proof Observed = ObserveProof \<lparr>ob_concluded = False, ob_proved_runs = 1, ob_lines = []\<rparr>"

definition observe_verdict :: "bool \<Rightarrow> observed_packet \<Rightarrow> observed_packet" where
  "observe_verdict proved ob =
     (if ob_concluded ob then ob else ob\<lparr>ob_concluded := True, ob_lines := ob_lines ob @ [proved]\<rparr>)"

section \<open>Hand-offs\<close>

record unconfirmed =
  un_queue_key :: bytes
  un_wake_key :: bytes

text \<open>The bounds a hand-off names when it pushes a sync blob after all.\<close>

datatype wake_reason = UnPulled nat | QueueAt nat nat | QueuePoisoned

record hand_off_outcome =
  ho_queued :: bool
  ho_woken :: bool
  ho_because :: "wake_reason list option"

datatype queueing = QueueDone enqueue_outcome | Kept | Poisoned

definition for_pull :: "queueing \<Rightarrow> string" where
  "for_pull x = (case x of
      QueueDone r \<Rightarrow> if outcome_queued r then ''queued'' else ''NOT queued: global limit''
    | Kept \<Rightarrow> ''queued''
    | Poisoned \<Rightarrow> ''NOT queued (deferred queue poisoned)'')"

definition queueing_queued :: "queueing \<Rightarrow> bool" where
  "queueing_queued x = (case x of QueueDone r \<Rightarrow> outcome_queued r | Kept \<Rightarrow> True | Poisoned \<Rightarrow> False)"

datatype handoff_line =
    BucketFull bytes bytes bytes
  | QueueFull bytes bytes bytes bytes
  | HandedOff bytes bytes string nat nat
  | WokenAnyway bytes bytes "wake_reason list"
  | AtBoundNotWoken bytes bytes "wake_reason list"
  | QueuedNotWoken bytes bytes nat nat

definition log_eviction :: "unconfirmed \<Rightarrow> bytes \<Rightarrow> queueing \<Rightarrow> (log_level \<times> handoff_line) list" where
  "log_eviction rc routing x = (case x of
      QueueDone (QueuedEvictingOldest evicted) \<Rightarrow> [(LOG_NOTICE, BucketFull (un_wake_key rc) evicted routing)]
    | QueueDone (QueuedEvictingFullest s evicted) \<Rightarrow> [(LOG_NOTICE, QueueFull s evicted routing (un_wake_key rc))]
    | _ \<Rightarrow> [])"

definition wake_message :: "(bytes \<Rightarrow> bytes) \<Rightarrow> bytes \<Rightarrow> bytes option \<Rightarrow> bytes option" where
  "wake_message full_hash blob wake_channel =
     (let i = (case wake_channel of Some c \<Rightarrow> full_hash (c @ blob) | None \<Rightarrow> full_hash blob)
      in if length i = 32 then Some i else None)"

record 'i wake_env =
  we_decode_hex :: "string \<Rightarrow> bytes option"
  we_derive :: "'i \<Rightarrow> string \<Rightarrow> string \<Rightarrow> bytes option"
  we_enc :: "(string \<times> bytes) list \<Rightarrow> bytes"
  we_stack :: "nat \<Rightarrow> 'i relay_stack"

fun wake_each :: "'i wake_env \<Rightarrow> nat \<Rightarrow> notify_registration list \<Rightarrow> bytes option \<Rightarrow> bytes option \<Rightarrow>
    wake_outcome list \<times> 'i stack_action list" where
  "wake_each env n [] chan message = ([], [])"
| "wake_each env n (reg # regs) chan message =
     (let (w, acts) = dispatch_notify_via (we_decode_hex env) (we_derive env) (we_enc env) (we_stack env n) reg chan message;
          (ws, acts') = wake_each env (Suc n) regs chan message
      in (w # ws, acts @ acts'))"

definition wake_after_queueing :: "'i wake_env \<Rightarrow> notify_registry option \<Rightarrow> unconfirmed \<Rightarrow> bytes \<Rightarrow> bytes option \<Rightarrow>
    bytes option \<Rightarrow> queueing \<Rightarrow> hand_off_outcome \<times> (log_level \<times> handoff_line) list \<times> 'i stack_action list" where
  "wake_after_queueing env registry rc routing wake_channel message x =
     (let registrations = (case registry of
            Some g \<Rightarrow> get_for_channel (un_wake_key rc) wake_channel g | None \<Rightarrow> []);
          (ws, acts) = wake_each env 0 registrations wake_channel message;
          woken = length (filter is_sent ws)
      in (\<lparr>ho_queued = queueing_queued x, ho_woken = 0 < woken, ho_because = None\<rparr>,
          log_eviction rc routing x @
          [(if queueing_queued x then LOG_NOTICE else LOG_WARNING,
            HandedOff (un_wake_key rc) routing (for_pull x) woken (length registrations))],
          acts))"

text \<open>\<open>nid\<close>, \<open>r\<close> and \<open>t\<close> are the row id, transaction result and clock of the enqueue.\<close>

definition queue_then_wake :: "'i wake_env \<Rightarrow> (bytes \<Rightarrow> bytes) \<Rightarrow> (deferred_row list \<Rightarrow> int) \<Rightarrow> txn \<Rightarrow> secs \<Rightarrow>
    (bytes \<Rightarrow> nat) \<Rightarrow> bytes \<Rightarrow> bytes \<Rightarrow> bytes option \<Rightarrow> notify_registry option \<Rightarrow> unconfirmed \<Rightarrow> deferred_queue option \<Rightarrow>
    (hand_off_outcome \<times> (log_level \<times> handoff_line) list \<times> 'i stack_action list) \<times> deferred_queue option" where
  "queue_then_wake env full_hash nid r t limit_for routing blob wake_channel registry rc dq =
     (let (x, dq') = (case dq of
            Some q \<Rightarrow> (let (out, q') = enqueue nid r t (un_queue_key rc) routing blob (limit_for (un_queue_key rc)) q
                      in (QueueDone out, Some q'))
          | None \<Rightarrow> (Poisoned, None))
      in (wake_after_queueing env registry rc routing wake_channel (wake_message full_hash blob wake_channel) x, dq'))"

text \<open>The channel fan-out's hand-off drops the outcome.\<close>

definition defer_then_wake :: "'i wake_env \<Rightarrow> (bytes \<Rightarrow> bytes) \<Rightarrow> (deferred_row list \<Rightarrow> int) \<Rightarrow> txn \<Rightarrow> secs \<Rightarrow>
    (bytes \<Rightarrow> nat) \<Rightarrow> bytes \<Rightarrow> bytes \<Rightarrow> bytes option \<Rightarrow> notify_registry option \<Rightarrow> unconfirmed \<Rightarrow> deferred_queue option \<Rightarrow>
    ((log_level \<times> handoff_line) list \<times> 'i stack_action list) \<times> deferred_queue option" where
  "defer_then_wake env full_hash nid r t limit_for routing blob wake_channel registry rc dq =
     (case queue_then_wake env full_hash nid r t limit_for routing blob wake_channel registry rc dq of
        ((_, lines, acts), dq') \<Rightarrow> ((lines, acts), dq'))"

definition wake_for_queued :: "'i wake_env \<Rightarrow> (bytes \<Rightarrow> bytes) \<Rightarrow> notify_registry option \<Rightarrow> unconfirmed \<Rightarrow> bytes \<Rightarrow> bytes \<Rightarrow>
    bytes option \<Rightarrow> hand_off_outcome \<times> (log_level \<times> handoff_line) list \<times> 'i stack_action list" where
  "wake_for_queued env full_hash registry rc routing blob wake_channel =
     wake_after_queueing env registry rc routing wake_channel (wake_message full_hash blob wake_channel) Kept"

section \<open>Distro hand-offs\<close>

datatype wake = Push | QueueOnly

definition DISTRO_SYNC_UNWOKEN_LIMIT :: nat where
  "DISTRO_SYNC_UNWOKEN_LIMIT = 64"

definition un_pulled_after :: "nat \<Rightarrow> enqueue_outcome \<Rightarrow> bytes \<Rightarrow> bytes \<Rightarrow> nat" where
  "un_pulled_after held out device distro = (case out of
      Queued \<Rightarrow> held + 1
    | QueuedEvictingOldest evicted \<Rightarrow> if evicted = distro then held else held + 1
    | QueuedEvictingFullest s evicted \<Rightarrow> if s = device \<and> evicted = distro then held else held + 1
    | RefusedGlobalLimit \<Rightarrow> held)"

definition wake_reasons :: "nat \<Rightarrow> nat \<Rightarrow> nat \<Rightarrow> wake_reason list" where
  "wake_reasons un_pulled before global_limit =
     (if DISTRO_SYNC_UNWOKEN_LIMIT \<le> un_pulled then [UnPulled un_pulled] else []) @
     (if global_limit * 3 div 4 \<le> before then [QueueAt before global_limit] else [])"

definition sync_hand_off :: "'i wake_env \<Rightarrow> (bytes \<Rightarrow> bytes) \<Rightarrow> (deferred_row list \<Rightarrow> int) \<Rightarrow> txn \<Rightarrow> secs \<Rightarrow>
    (bytes \<Rightarrow> nat) \<Rightarrow> bytes \<Rightarrow> bytes \<Rightarrow> notify_registry option \<Rightarrow> unconfirmed \<Rightarrow> deferred_queue option \<Rightarrow>
    (hand_off_outcome \<times> (log_level \<times> handoff_line) list \<times> 'i stack_action list) \<times> deferred_queue option" where
  "sync_hand_off env full_hash nid r t limit_for distro blob registry device dq =
     (let message = wake_message full_hash blob None in case dq of
        None \<Rightarrow> (case wake_after_queueing env registry device distro None message Poisoned of
            (handed, lines, acts) \<Rightarrow> ((handed\<lparr>ho_because := Some [QueuePoisoned]\<rparr>, lines, acts), None))
      | Some q \<Rightarrow>
          (let held = count_matching (un_queue_key device) distro q; before = total_len q;
               (out, q') = enqueue nid r t (un_queue_key device) distro blob (limit_for (un_queue_key device)) q;
               un_pulled = un_pulled_after held out (un_queue_key device) distro;
               why = wake_reasons un_pulled before (dq_global_limit q)
           in if why \<noteq> [] then
                (case wake_after_queueing env registry device distro None message (QueueDone out) of
                   (handed, lines, acts) \<Rightarrow>
                     ((handed\<lparr>ho_because := Some why\<rparr>,
                       lines @ [(LOG_NOTICE, if ho_woken handed then WokenAnyway (un_wake_key device) distro why
                                             else AtBoundNotWoken (un_wake_key device) distro why)], acts), Some q'))
              else ((\<lparr>ho_queued = queueing_queued (QueueDone out), ho_woken = False, ho_because = None\<rparr>,
                     log_eviction device distro (QueueDone out) @
                       [(LOG_NOTICE, QueuedNotWoken (un_wake_key device) distro un_pulled DISTRO_SYNC_UNWOKEN_LIMIT)],
                     []), Some q')))"

definition distro_hand_off :: "'i wake_env \<Rightarrow> (bytes \<Rightarrow> bytes) \<Rightarrow> (deferred_row list \<Rightarrow> int) \<Rightarrow> txn \<Rightarrow> secs \<Rightarrow>
    (bytes \<Rightarrow> nat) \<Rightarrow> bytes \<Rightarrow> bytes \<Rightarrow> wake \<Rightarrow> notify_registry option \<Rightarrow> unconfirmed \<Rightarrow> deferred_queue option \<Rightarrow>
    (hand_off_outcome \<times> (log_level \<times> handoff_line) list \<times> 'i stack_action list) \<times> deferred_queue option" where
  "distro_hand_off env full_hash nid r t limit_for distro blob wk registry device dq =
     (if wk = Push then queue_then_wake env full_hash nid r t limit_for distro blob None registry device dq
      else sync_hand_off env full_hash nid r t limit_for distro blob registry device dq)"

end
