(* ===== verification/Handoff_Props.thy ===== *)
theory Handoff_Props
  imports Handoff DeferredQueue_Runs
begin

text \<open>
  Properties of the hand-off: the count it decides by is the count the queue then holds,
  and a hand-off that stays silent has queued its blob.
\<close>

section \<open>What an enqueue does to one bucket\<close>

definition held_for :: "bytes \<Rightarrow> pending_blob list \<Rightarrow> nat" where
  "held_for routing b = length (filter (\<lambda>e. pb_channel e = routing) b)"

lemma count_matching_bucket: "count_matching sub routing q = held_for routing (bucket_of (dq_queue q) sub)"
  by (simp add: count_matching_def bucket_of_def held_for_def split: option.split)

lemma held_for_simps [simp]:
  "held_for routing [] = 0" "held_for routing (e # b) = (if pb_channel e = routing then 1 else 0) + held_for routing b"
  "held_for routing (b @ b') = held_for routing b + held_for routing b'"
  by (simp_all add: held_for_def)

lemma pop_oldest_bucket:
  assumes "hkeys_distinct m" and "pop_oldest_of_fullest m = Some ((s, old), m')"
  shows "bucket_of m i = (if i = s then [old] else []) @ bucket_of m' i"
proof -
  from assms(2) obtain b where "hget m s = Some (old # b)" and m': "m' = (if b = [] then hdel s m else hput s b m)"
    by (auto simp: pop_oldest_of_fullest_def split: option.splits list.splits)
  then show ?thesis by (simp add: bucket_of_def hmap_simps)
qed

lemma evict_bucket:
  assumes keys: "dq_keys q" and ev: "evict_for_enqueue sub cap q = Some (evicted, out, m)"
  shows "out \<noteq> RefusedGlobalLimit \<and> un_pulled_after (held_for routing (bucket_of (dq_queue q) sub)) out sub routing =
    held_for routing (bucket_of m sub) + 1"
  using ev
proof (cases rule: evict_for_enqueue_cases)
  case (oldest old b)
  then show ?thesis by (simp add: un_pulled_after_def bucket_of_def hmap_simps)
next
  case (fullest s old)
  from keys have "hkeys_distinct (dq_queue q)" by (simp add: dq_keys_def)
  from pop_oldest_bucket [OF this fullest(3), of sub] fullest(5) show ?thesis by (simp add: un_pulled_after_def)
next
  case none
  then show ?thesis by (simp add: un_pulled_after_def)
qed

lemma enqueue_bucket:
  assumes keys: "dq_keys q" and enq: "enqueue nid r t sub chan blob cap q = (out, q')" and out: "out \<noteq> RefusedGlobalLimit"
  shows "\<exists>b e. bucket_of (dq_queue q') sub = b @ [e] \<and> pb_channel e = chan \<and> pb_blob e = blob \<and>
    un_pulled_after (count_matching sub chan q) out sub chan = held_for chan b + 1"
proof -
  obtain evicted m i where ev: "evict_for_enqueue sub cap q = Some (evicted, out, m)"
    and q': "dq_queue q' = hput sub (bucket_of m sub @ [\<lparr>pb_channel = chan, pb_blob = blob,
             pb_enqueued_at = t, pb_id = i, pb_ticket = dq_next_ticket q\<rparr>]) m"
    by (rule enqueue_fields [OF keys enq out]) (rule that, assumption+)
  from evict_bucket [OF keys ev, of chan] q' show ?thesis
    by (simp add: count_matching_bucket bucket_of_def [of "hput _ _ _"] hmap_simps)
qed

lemma un_pulled_counts:
  assumes keys: "dq_keys q" and enq: "enqueue nid r t sub chan blob cap q = (out, q')"
  shows "un_pulled_after (count_matching sub chan q) out sub chan = count_matching sub chan q'"
proof (cases "out = RefusedGlobalLimit")
  case True
  with enqueue_refused [of nid r t sub chan blob cap q q'] enq keys show ?thesis by (simp add: un_pulled_after_def)
next
  case False
  from enqueue_bucket [OF keys enq False] show ?thesis by (auto simp: count_matching_bucket)
qed

lemma refused_at_limit:
  "enqueue nid r t sub chan blob cap q = (RefusedGlobalLimit, q') \<Longrightarrow> dq_keys q \<Longrightarrow> dq_global_limit q \<le> total_len q"
  using evict_for_enqueue_some [of q sub cap]
  by (auto simp: enqueue_def evict_for_enqueue_def bucket_full_def Let_def neq_Nil_conv split: option.splits if_splits list.splits)

section \<open>Properties\<close>

text \<open>
  The hand-off of a sync blob decides by the true count. \<open>un_pulled_after\<close>, computed
  from the count before and the outcome of the enqueue, is what counting the queue after
  the enqueue gives, whichever entry the enqueue evicted, or none, or refused.
\<close>

theorem un_pulled_after_counts:
  assumes "dq_keys q" and "enqueue nid r t device distro blob cap q = (out, q')"
  shows "un_pulled_after (count_matching device distro q) out device distro = count_matching device distro q'"
  by (rule un_pulled_counts [OF assms])

theorem un_pulled_after_counts_witness:
  "un_pulled_after 0 (fst (enqueue (\<lambda>_. 1) Committed 0 [1] [2] [3] 5
      \<lparr>dq_queue = [], dq_held = [], dq_next_page = 1, dq_next_ticket = 1, dq_in_flight = {}, dq_db = None, dq_global_limit = 4096\<rparr>)) [1] [2] = 1"
proof -
  let ?q = "\<lparr>dq_queue = [], dq_held = [], dq_next_page = 1, dq_next_ticket = 1, dq_in_flight = {}, dq_db = None, dq_global_limit = 4096\<rparr>"
  obtain out q' where enq: "enqueue (\<lambda>_. 1) Committed 0 [1] [2] [3] 5 ?q = (out, q')" by (metis surj_pair)
  have "dq_keys ?q" by (simp add: dq_keys_def hkeys_distinct_def)
  from un_pulled_after_counts [OF this enq] have "un_pulled_after 0 out [1] [2] = count_matching [1] [2] q'"
    by (simp add: count_matching_def)
  moreover have "count_matching [1] [2] q' = 1" using enq
    by (auto simp: enqueue_def evict_for_enqueue_def bucket_full_def total_len_def count_matching_def Let_def)
  ultimately show ?thesis unfolding enq fst_conv by simp
qed

text \<open>
  C8: a silent hand-off has its blob in the queue. When the hand-off of a sync blob does not
  push the device, the queue was not poisoned and the enqueue not refused: the blob is the
  newest entry of the device's bucket, the device holds fewer than 64 of the distro, the
  queue was under three quarters of its limit, and the one line that says so gives the true
  count.
\<close>

theorem silent_hand_off_is_queued:
  assumes "sync_hand_off env full_hash nid r t limit_for distro blob registry device (Some q) = ((handed, lines, acts), dq')"
    and "ho_because handed = None" and "dq_keys q"
  shows "\<exists>q' b e. dq' = Some q' \<and> ho_queued handed \<and> \<not> ho_woken handed \<and> acts = [] \<and>
    bucket_of (dq_queue q') (un_queue_key device) = b @ [e] \<and> pb_channel e = distro \<and> pb_blob e = blob \<and>
    count_matching (un_queue_key device) distro q' < DISTRO_SYNC_UNWOKEN_LIMIT \<and>
    total_len q < dq_global_limit q * 3 div 4 \<and>
    last lines = (LOG_NOTICE, QueuedNotWoken (un_wake_key device) distro
      (count_matching (un_queue_key device) distro q') DISTRO_SYNC_UNWOKEN_LIMIT)"
proof -
  let ?key = "un_queue_key device"
  obtain out q' where enq: "enqueue nid r t ?key distro blob (limit_for ?key) q = (out, q')" by (metis surj_pair)
  let ?un = "un_pulled_after (count_matching ?key distro q) out ?key distro"
  from assms(1,2) have why: "wake_reasons ?un (total_len q) (dq_global_limit q) = []"
    by (auto simp: sync_hand_off_def Let_def enq split: if_splits prod.splits)
  then have small: "?un < DISTRO_SYNC_UNWOKEN_LIMIT" "total_len q < dq_global_limit q * 3 div 4"
    by (auto simp: wake_reasons_def split: if_splits)
  have out: "out \<noteq> RefusedGlobalLimit" using refused_at_limit [OF _ assms(3)] enq small(2) by fastforce
  from enqueue_bucket [OF assms(3) enq out] obtain b e where
    b: "bucket_of (dq_queue q') ?key = b @ [e]" "pb_channel e = distro" "pb_blob e = blob" by blast
  from assms(1) why out have res: "dq' = Some q'" "ho_queued handed" "\<not> ho_woken handed" "acts = []"
    "last lines = (LOG_NOTICE, QueuedNotWoken (un_wake_key device) distro ?un DISTRO_SYNC_UNWOKEN_LIMIT)"
    by (auto simp: sync_hand_off_def Let_def enq queueing_queued_def outcome_queued_def)
  from b res small show ?thesis unfolding un_pulled_counts [OF assms(3) enq] by blast
qed

theorem silent_hand_off_is_queued_witness:
  "let q = \<lparr>dq_queue = [], dq_held = [], dq_next_page = 1, dq_next_ticket = 1, dq_in_flight = {}, dq_db = None, dq_global_limit = 4096\<rparr>;
       env = \<lparr>we_decode_hex = (\<lambda>_. None), we_derive = (\<lambda>(i :: unit) a b. None), we_enc = (\<lambda>_. []),
              we_stack = (\<lambda>n. \<lparr>rs_has_path = (\<lambda>_. False), rs_recall = (\<lambda>_. None), rs_send = (\<lambda>_. Inr False), rs_packed = (\<lambda>_. None)\<rparr>)\<rparr>
   in ho_queued (fst (fst (sync_hand_off env id (\<lambda>_. 1) Committed 0 (\<lambda>_. 5) [2] [3] None \<lparr>un_queue_key = [1], un_wake_key = [9]\<rparr> (Some q))))"
proof -
  let ?q = "\<lparr>dq_queue = [], dq_held = [], dq_next_page = 1, dq_next_ticket = 1, dq_in_flight = {}, dq_db = None, dq_global_limit = 4096\<rparr>"
  let ?env = "\<lparr>we_decode_hex = (\<lambda>_. None), we_derive = (\<lambda>(i :: unit) a b. None), we_enc = (\<lambda>_. []),
       we_stack = (\<lambda>n. \<lparr>rs_has_path = (\<lambda>_. False), rs_recall = (\<lambda>_. None), rs_send = (\<lambda>_. Inr False), rs_packed = (\<lambda>_. None)\<rparr>)\<rparr>"
  obtain handed lines acts dq' where
    h: "sync_hand_off ?env id (\<lambda>_. 1) Committed 0 (\<lambda>_. 5) [2] [3] None \<lparr>un_queue_key = [1], un_wake_key = [9]\<rparr> (Some ?q) = ((handed, lines, acts), dq')"
    by (metis surj_pair)
  moreover have "ho_because handed = None" using h
    by (auto simp: sync_hand_off_def enqueue_def evict_for_enqueue_def bucket_full_def total_len_def count_matching_def
        un_pulled_after_def wake_reasons_def DISTRO_SYNC_UNWOKEN_LIMIT_def Let_def)
  moreover have "dq_keys ?q" by (simp add: dq_keys_def hkeys_distinct_def)
  ultimately have "ho_queued handed" using silent_hand_off_is_queued by blast
  with h show ?thesis by (simp add: Let_def)
qed

text \<open>
  A hand-off never says "queued" for a blob it did not queue, and queues before it
  wakes. With the queue's lock taken, the blob is the newest entry of the recipient's bucket
  exactly when the outcome and the \<open>[handoff]\<close> line say "queued", and a refused enqueue
  leaves the queue as it was, says so at WARNING, and still wakes the same registrations.
\<close>

theorem hand_off_says_what_it_queued:
  assumes "queue_then_wake env full_hash nid r t limit_for routing blob chan registry rc (Some q) = ((handed, lines, acts), dq')"
    and "dq_keys q"
  shows "\<exists>q' woken n. dq' = Some q' \<and>
    last lines = (if ho_queued handed then LOG_NOTICE else LOG_WARNING,
      HandedOff (un_wake_key rc) routing (if ho_queued handed then ''queued'' else ''NOT queued: global limit'') woken n) \<and>
    (ho_woken handed \<longleftrightarrow> 0 < woken) \<and> woken \<le> n \<and>
    n = length (case registry of Some g \<Rightarrow> get_for_channel (un_wake_key rc) chan g | None \<Rightarrow> []) \<and>
    (if ho_queued handed then \<exists>b e. bucket_of (dq_queue q') (un_queue_key rc) = b @ [e] \<and> pb_channel e = routing \<and> pb_blob e = blob
     else q' = q)"
proof -
  let ?key = "un_queue_key rc"
  let ?regs = "case registry of Some g \<Rightarrow> get_for_channel (un_wake_key rc) chan g | None \<Rightarrow> []"
  obtain out q' where enq: "enqueue nid r t ?key routing blob (limit_for ?key) q = (out, q')" by (metis surj_pair)
  obtain ws as where ws: "wake_each env 0 ?regs chan (wake_message full_hash blob chan) = (ws, as)" by (metis surj_pair)
  have len: "length (fst (wake_each env n regs chan m)) = length regs" for n regs m
    by (induction regs arbitrary: n) (simp_all add: case_prod_unfold Let_def)
  from len [of 0 ?regs "wake_message full_hash blob chan"] ws have n: "length ws = length ?regs" by simp
  from assms(1) have handed: "handed = \<lparr>ho_queued = outcome_queued out, ho_woken = 0 < length (filter is_sent ws), ho_because = None\<rparr>"
    "dq' = Some q'" "last lines = (if outcome_queued out then LOG_NOTICE else LOG_WARNING,
      HandedOff (un_wake_key rc) routing (for_pull (QueueDone out)) (length (filter is_sent ws)) (length ?regs))"
    by (auto simp: queue_then_wake_def wake_after_queueing_def enq ws queueing_queued_def Let_def)
  have state: "if outcome_queued out then \<exists>b e. bucket_of (dq_queue q') ?key = b @ [e] \<and> pb_channel e = routing \<and> pb_blob e = blob
      else q' = q"
  proof (cases "out = RefusedGlobalLimit")
    case True
    with enqueue_refused [of nid r t ?key routing blob "limit_for ?key" q q'] enq assms(2) show ?thesis
      by (simp add: outcome_queued_def)
  next
    case False
    with enqueue_bucket [OF assms(2) enq False] show ?thesis by (auto simp: outcome_queued_def)
  qed
  have "length (filter is_sent ws) \<le> length ?regs" using n length_filter_le [of is_sent ws] by simp
  with handed state show ?thesis by (intro exI [of _ q'] exI conjI) (simp_all add: for_pull_def)
qed

theorem hand_off_says_what_it_queued_witness:
  "let q = \<lparr>dq_queue = [], dq_held = [], dq_next_page = 1, dq_next_ticket = 1, dq_in_flight = {}, dq_db = None, dq_global_limit = 0\<rparr>;
       env = \<lparr>we_decode_hex = (\<lambda>_. None), we_derive = (\<lambda>(i :: unit) a b. None), we_enc = (\<lambda>_. []),
              we_stack = (\<lambda>n. \<lparr>rs_has_path = (\<lambda>_. False), rs_recall = (\<lambda>_. None), rs_send = (\<lambda>_. Inr False), rs_packed = (\<lambda>_. None)\<rparr>)\<rparr>
   in snd (queue_then_wake env id (\<lambda>_. 1) Committed 0 (\<lambda>_. 5) [2] [3] None None \<lparr>un_queue_key = [1], un_wake_key = [9]\<rparr> (Some q)) = Some q"
proof -
  let ?q = "\<lparr>dq_queue = [], dq_held = [], dq_next_page = 1, dq_next_ticket = 1, dq_in_flight = {}, dq_db = None, dq_global_limit = 0\<rparr>"
  let ?env = "\<lparr>we_decode_hex = (\<lambda>_. None), we_derive = (\<lambda>(i :: unit) a b. None), we_enc = (\<lambda>_. []),
       we_stack = (\<lambda>n. \<lparr>rs_has_path = (\<lambda>_. False), rs_recall = (\<lambda>_. None), rs_send = (\<lambda>_. Inr False), rs_packed = (\<lambda>_. None)\<rparr>)\<rparr>"
  obtain handed lines acts dq' where
    h: "queue_then_wake ?env id (\<lambda>_. 1) Committed 0 (\<lambda>_. 5) [2] [3] None None \<lparr>un_queue_key = [1], un_wake_key = [9]\<rparr> (Some ?q) = ((handed, lines, acts), dq')"
    by (metis surj_pair)
  have "dq_keys ?q" by (simp add: dq_keys_def hkeys_distinct_def)
  from hand_off_says_what_it_queued [OF h this] obtain q' where "dq' = Some q'" "\<not> ho_queued handed \<longrightarrow> q' = ?q" by auto
  moreover have "\<not> ho_queued handed" using h
    by (auto simp: queue_then_wake_def wake_after_queueing_def enqueue_def evict_for_enqueue_def bucket_full_def total_len_def
        pop_oldest_of_fullest_def queueing_queued_def outcome_queued_def Let_def map_filter_simps)
  ultimately show ?thesis using h by (simp add: Let_def)
qed

end
