(* ===== verification/Fanout.thy ===== *)
theory Fanout
  imports Handoff LiveSessions Subscription
begin

text \<open>
  \<open>rfed/src/fanout.rs\<close>: the fan-out of a channel blob to its subscribers (tier 1 the bound
  \<open>rfed.link\<close>, tier 2 the channel stream, tier 3 the \<open>rfed.delivery\<close> packet, else the
  hand-off) and the flush of what a subscriber has queued when its announce is heard.

  \<open>fan_env\<close> bundles what the Reticulum stack answers; its first argument is the number of
  the subscriber (or queued entry) being served, so the answers may change as the loop
  runs. A registry is \<open>None\<close> when it was not given or its mutex is poisoned. The hook a
  fan-out calls for an unconfirmed recipient is \<open>hand\<close>, on the state \<open>'q\<close>; the later calls
  of the same hook belong to the waits in the events (\<open>packet_wait\<close>, \<open>push_outcome\<close>, the
  answers of the links).
\<close>

section \<open>What the stack answers\<close>

record 'i fan_env =
  fe_dest_hash :: "bytes option \<Rightarrow> string \<Rightarrow> string list \<Rightarrow> bytes"
  fe_recall_owner :: "nat \<Rightarrow> bytes \<Rightarrow> bool"
  fe_alive :: "nat \<Rightarrow> bytes \<Rightarrow> bool"
  fe_enc :: "bytes \<Rightarrow> bytes option"
  fe_request :: "nat \<Rightarrow> bytes \<Rightarrow> string \<Rightarrow> bytes \<Rightarrow> bool"
  fe_send_link :: "nat \<Rightarrow> bytes \<Rightarrow> string + bool"
  fe_recall :: "nat \<Rightarrow> bytes \<Rightarrow> 'i option"
  fe_destination :: "'i \<Rightarrow> string + bytes"
  fe_has_path :: "nat \<Rightarrow> bytes \<Rightarrow> bool"
  fe_send_packet :: "nat \<Rightarrow> bytes \<Rightarrow> bytes \<Rightarrow> string + bool"

record ('q, 'w) fan_state =
  fn_links :: "(bytes, link_session) hmap option"
  fn_streams :: "(bytes, channel_stream_session) hmap option"
  fn_queue :: 'q
  fn_world :: 'w

datatype hand_reason = SubscriberUnknown | NoDestination | NoPathToSubscriber | NoInterface | SendFailed

datatype fan_event =
    BackupSuppressed bytes
  | PushedLink bytes "bytes list"
  | PushedStream bytes "push_outcome option"
  | SentPacket bytes packet_wait
  | HandedNow bytes hand_reason
  | PathAsked bytes

section \<open>One subscriber\<close>

definition fan_link :: "'i fan_env \<Rightarrow> nat \<Rightarrow> bytes \<Rightarrow> bytes \<Rightarrow> bytes \<Rightarrow> ('q, 'w) fan_state \<Rightarrow>
    (stream_dispatch_result \<times> bytes list) option \<times> ('q, 'w) fan_state" where
  "fan_link env n sub chan payload st = (case fn_links st of
      None \<Rightarrow> (None, st)
    | Some links \<Rightarrow>
        if \<not> has_channel_session sub chan links then (None, st)
        else (case dispatch_channel (fe_alive env n) (fe_enc env) (fe_request env n) sub chan payload links of
          (r, links') \<Rightarrow> (Some r, st\<lparr>fn_links := Some links'\<rparr>)))"

definition fan_stream :: "'i fan_env \<Rightarrow> nat \<Rightarrow> bytes \<Rightarrow> bytes \<Rightarrow> ('q, 'w) fan_state \<Rightarrow>
    (stream_dispatch_result \<times> push_outcome option) option \<times> ('q, 'w) fan_state" where
  "fan_stream env n sub chan st = (case fn_streams st of
      None \<Rightarrow> (None, st)
    | Some streams \<Rightarrow> (case dispatch_stream (fe_alive env n) (fe_send_link env n) sub chan streams of
        (r, streams') \<Rightarrow> (Some r, st\<lparr>fn_streams := Some streams'\<rparr>)))"

definition hand_now :: "(nat \<Rightarrow> unconfirmed \<Rightarrow> 'q \<Rightarrow> 'q) \<Rightarrow> nat \<Rightarrow> unconfirmed \<Rightarrow> ('q, 'w) fan_state \<Rightarrow> ('q, 'w) fan_state" where
  "hand_now hand n rc st = st\<lparr>fn_queue := hand n rc (fn_queue st)\<rparr>"

definition hooks_called :: "'w delivery_hook list \<Rightarrow> bytes \<Rightarrow> bytes \<Rightarrow> ('q, 'w) fan_state \<Rightarrow> ('q, 'w) fan_state" where
  "hooks_called hooks sub blob st = st\<lparr>fn_world := on_deliver hooks sub blob (fn_world st)\<rparr>"

definition fan_packet :: "'i fan_env \<Rightarrow> 'w delivery_hook list \<Rightarrow> (nat \<Rightarrow> unconfirmed \<Rightarrow> 'q \<Rightarrow> 'q) \<Rightarrow> packet_proof \<Rightarrow> nat \<Rightarrow>
    unconfirmed \<Rightarrow> bytes \<Rightarrow> bytes \<Rightarrow> bytes \<Rightarrow> ('q, 'w) fan_state \<Rightarrow> fan_event list \<times> ('q, 'w) fan_state" where
  "fan_packet env hooks hand proof n rc sub payload blob st =
     (case fe_recall env n sub of
        None \<Rightarrow> ([HandedNow sub SubscriberUnknown], hand_now hand n rc st)
      | Some i \<Rightarrow> (case fe_destination env i of
          Inl _ \<Rightarrow> ([HandedNow sub NoDestination], hand_now hand n rc st)
        | Inr h \<Rightarrow>
            if \<not> fe_has_path env n h then ([HandedNow sub NoPathToSubscriber], hand_now hand n rc st)
            else (case fe_send_packet env n h payload of
                Inr True \<Rightarrow> ([SentPacket sub (await_packet_proof proof)], hooks_called hooks sub blob st)
              | Inr False \<Rightarrow> ([PathAsked h, HandedNow sub NoInterface], hand_now hand n rc st)
              | Inl _ \<Rightarrow> ([HandedNow sub SendFailed], hand_now hand n rc st))))"

text \<open>Tier 2, and tier 3 when no stream link took the push.\<close>

definition fan_stream_or_packet :: "'i fan_env \<Rightarrow> 'w delivery_hook list \<Rightarrow> (nat \<Rightarrow> unconfirmed \<Rightarrow> 'q \<Rightarrow> 'q) \<Rightarrow> packet_proof \<Rightarrow> nat \<Rightarrow>
    unconfirmed \<Rightarrow> bytes \<Rightarrow> bytes \<Rightarrow> bytes \<Rightarrow> ('q, 'w) fan_state \<Rightarrow> fan_event list \<times> ('q, 'w) fan_state" where
  "fan_stream_or_packet env hooks hand proof n rc sub chan blob st = (case fan_stream env n sub chan st of
      (Some (r, out), st') \<Rightarrow>
        if delivered r then ([PushedStream sub out], hooks_called hooks sub blob st')
        else fan_packet env hooks hand proof n rc sub (chan @ blob) blob st'
    | (None, st') \<Rightarrow> fan_packet env hooks hand proof n rc sub (chan @ blob) blob st')"

definition fan_one :: "'i fan_env \<Rightarrow> 'w delivery_hook list \<Rightarrow> (nat \<Rightarrow> unconfirmed \<Rightarrow> 'q \<Rightarrow> 'q) \<Rightarrow> packet_proof \<Rightarrow>
    bytes \<Rightarrow> bytes \<Rightarrow> nat \<Rightarrow> bytes \<times> bytes option \<Rightarrow> ('q, 'w) fan_state \<Rightarrow> fan_event list \<times> ('q, 'w) fan_state" where
  "fan_one env hooks hand proof chan blob n row st = (case row of (sub, owner) \<Rightarrow>
     if (case owner of Some node \<Rightarrow> fe_recall_owner env n node | None \<Rightarrow> False) then ([BackupSuppressed sub], st)
     else
       (let rc = \<lparr>un_queue_key = sub, un_wake_key = notify_key (fe_dest_hash env) sub\<rparr>
        in case fan_link env n sub chan (chan @ blob) st of
             (Some (r, sent), st') \<Rightarrow>
               if delivered r then ([PushedLink sub sent], hooks_called hooks sub blob st')
               else fan_stream_or_packet env hooks hand proof n rc sub chan blob st'
           | (None, st') \<Rightarrow> fan_stream_or_packet env hooks hand proof n rc sub chan blob st'))"

section \<open>All subscribers\<close>

fun handed_count :: "fan_event list \<Rightarrow> nat" where
  "handed_count [] = 0"
| "handed_count (HandedNow _ _ # evs) = Suc (handed_count evs)"
| "handed_count (_ # evs) = handed_count evs"

fun fan_loop :: "'i fan_env \<Rightarrow> 'w delivery_hook list \<Rightarrow> (nat \<Rightarrow> unconfirmed \<Rightarrow> 'q \<Rightarrow> 'q) \<Rightarrow> packet_proof \<Rightarrow>
    bytes \<Rightarrow> bytes \<Rightarrow> nat \<Rightarrow> (bytes \<times> bytes option) list \<Rightarrow> nat \<Rightarrow> ('q, 'w) fan_state \<Rightarrow>
    nat \<times> fan_event list \<times> ('q, 'w) fan_state" where
  "fan_loop env hooks hand proof chan blob n [] handed st = (handed, [], st)"
| "fan_loop env hooks hand proof chan blob n (row # rows) handed st =
     (let (evs, st') = fan_one env hooks hand proof chan blob n row st;
          (handed', evs', st'') = fan_loop env hooks hand proof chan blob (Suc n) rows (handed + handed_count evs) st'
      in (handed', evs @ evs', st''))"

definition fanout_blob :: "'i fan_env \<Rightarrow> 'w delivery_hook list \<Rightarrow> (nat \<Rightarrow> unconfirmed \<Rightarrow> 'q \<Rightarrow> 'q) \<Rightarrow> packet_proof \<Rightarrow>
    bytes \<Rightarrow> bytes \<Rightarrow> (bytes \<times> bytes option) list \<Rightarrow> ('q, 'w) fan_state \<Rightarrow> nat \<times> fan_event list \<times> ('q, 'w) fan_state" where
  "fanout_blob env hooks hand proof blob chan subscribers st =
     fan_loop env hooks hand proof chan blob 0 subscribers 0 st"

section \<open>A plan and its run\<close>

record fanout_plan =
  pl_subscribers :: "(bytes \<times> bytes option) list"
  pl_limits :: "(bytes, nat) hmap"
  pl_expired :: "bytes list"

definition plan_limit :: "fanout_plan \<Rightarrow> bytes \<Rightarrow> nat" where
  "plan_limit plan sub = (case hget (pl_limits plan) sub of None \<Rightarrow> 0 | Some n \<Rightarrow> n)"

definition USIZE_MAX :: nat where
  "USIZE_MAX = 2 ^ 64 - 1"

text \<open>The blobs dropped for each expired subscriber, and the queue; \<open>r n\<close> its n-th transaction.\<close>

fun drop_expired :: "(nat \<Rightarrow> txn) \<Rightarrow> bytes \<Rightarrow> nat \<Rightarrow> bytes list \<Rightarrow> deferred_queue option \<Rightarrow>
    (bytes \<times> nat) list \<times> deferred_queue option" where
  "drop_expired r chan n [] dq = ([], dq)"
| "drop_expired r chan n (sub # subs) dq =
     (let (dropped, dq') = (case dq of
            Some q \<Rightarrow> (let (gone, q') = drain_channel_batch (r n) sub chan USIZE_MAX q in (length gone, Some q'))
          | None \<Rightarrow> (0, None));
          (rest, dq'') = drop_expired r chan (Suc n) subs dq'
      in ((sub, dropped) # rest, dq''))"

text \<open>
  What the hand-off of a channel fan-out acts on: the queue (\<open>None\<close> when poisoned), the
  \<open>[handoff]\<close> lines and the packets of the wakes. \<open>wenv n\<close>, \<open>r n\<close> and \<open>t n\<close> are the stack,
  transaction and clock the n-th subscriber's hand-off finds.
\<close>

record 'i hand_state =
  hn_queue :: "deferred_queue option"
  hn_lines :: "(log_level \<times> handoff_line) list"
  hn_actions :: "'i stack_action list"

definition channel_hand :: "(nat \<Rightarrow> 'i wake_env) \<Rightarrow> (bytes \<Rightarrow> bytes) \<Rightarrow> (deferred_row list \<Rightarrow> int) \<Rightarrow> (nat \<Rightarrow> txn) \<Rightarrow> (nat \<Rightarrow> secs) \<Rightarrow>
    (bytes \<Rightarrow> nat) \<Rightarrow> bytes \<Rightarrow> bytes \<Rightarrow> notify_registry option \<Rightarrow> nat \<Rightarrow> unconfirmed \<Rightarrow> 'i hand_state \<Rightarrow> 'i hand_state" where
  "channel_hand wenv full_hash nid r t limit_for chan blob registry n rc h =
     (case defer_then_wake (wenv n) full_hash nid (r n) (t n) limit_for chan blob (Some chan) registry rc (hn_queue h) of
        ((lines, acts), dq') \<Rightarrow> \<lparr>hn_queue = dq', hn_lines = hn_lines h @ lines, hn_actions = hn_actions h @ acts\<rparr>)"

text \<open>\<open>hooks\<close> is \<open>None\<close> when the hook registry is poisoned: nothing is fanned out then.\<close>

definition plan_run :: "'i fan_env \<Rightarrow> (nat \<Rightarrow> 'i wake_env) \<Rightarrow> (bytes \<Rightarrow> bytes) \<Rightarrow> (deferred_row list \<Rightarrow> int) \<Rightarrow>
    (nat \<Rightarrow> txn) \<Rightarrow> (nat \<Rightarrow> txn) \<Rightarrow> (nat \<Rightarrow> secs) \<Rightarrow> 'w delivery_hook list option \<Rightarrow> notify_registry option \<Rightarrow>
    bytes \<Rightarrow> bytes \<Rightarrow> fanout_plan \<Rightarrow> ('i hand_state, 'w) fan_state \<Rightarrow>
    (bytes \<times> nat) list \<times> (nat \<times> fan_event list) option \<times> ('i hand_state, 'w) fan_state" where
  "plan_run env wenv full_hash nid r r' t hooks registry chan blob plan st =
     (let (dropped, dq) = drop_expired r' chan 0 (pl_expired plan) (hn_queue (fn_queue st));
          st' = st\<lparr>fn_queue := (fn_queue st)\<lparr>hn_queue := dq\<rparr>\<rparr>
      in case hooks of
           None \<Rightarrow> (dropped, None, st')
         | Some hs \<Rightarrow>
             (let (handed, evs, st'') = fanout_blob env hs
                (channel_hand wenv full_hash nid r t (plan_limit plan) chan blob registry)
                DELIVERY_PACKET_PROOF blob chan (pl_subscribers plan) st'
              in (dropped, Some (handed, evs), st'')))"

section \<open>The announce flush\<close>

record flushed =
  fl_by_link :: nat
  fl_by_packet :: nat
  fl_oversized :: nat
  fl_not_sent :: nat

datatype flush_event =
    FlushByLink nat "bytes list"
  | FlushByPacket nat packet_wait
  | FlushOversized nat
  | FlushNotSent nat

definition fits_in_delivery_packet :: "nat \<Rightarrow> nat \<Rightarrow> bool" where
  "fits_in_delivery_packet encrypted_mdu len \<longleftrightarrow> len \<le> encrypted_mdu"

text \<open>
  A copy given to a route calls the delivery hooks, unless their registry is poisoned (\<open>hooks = None\<close>); \<open>world\<close>
  is what the hooks act on.
\<close>

fun flush_hooked :: "'w delivery_hook list option \<Rightarrow> bytes \<Rightarrow> bytes \<Rightarrow> flush_event \<Rightarrow> 'w \<Rightarrow> 'w" where
  "flush_hooked (Some hooks) sub blob (FlushByLink _ _) world = on_deliver hooks sub blob world"
| "flush_hooked (Some hooks) sub blob (FlushByPacket _ _) world = on_deliver hooks sub blob world"
| "flush_hooked _ sub blob _ world = world"

definition flush_one :: "'i fan_env \<Rightarrow> 'w delivery_hook list option \<Rightarrow> nat \<Rightarrow> bytes option \<Rightarrow> bytes \<Rightarrow> nat \<Rightarrow> pending_blob \<Rightarrow>
    (bytes, link_session) hmap option \<times> 'w \<Rightarrow> flush_event \<times> (bytes, link_session) hmap option \<times> 'w" where
  "flush_one env hooks mdu dest sub n e s =
     (let payload = pb_channel e @ pb_blob e;
          (linked, links') = (case fst s of
             None \<Rightarrow> (None, None)
           | Some m \<Rightarrow>
               if \<not> has_channel_session sub (pb_channel e) m then (None, Some m)
               else (case dispatch_channel (fe_alive env n) (fe_enc env) (fe_request env n) sub (pb_channel e) payload m of
                   (r, m') \<Rightarrow> (Some r, Some m')));
          by_packet = (if \<not> fits_in_delivery_packet mdu (length payload) then FlushOversized (pb_ticket e)
             else (case dest of
                 None \<Rightarrow> FlushNotSent (pb_ticket e)
               | Some h \<Rightarrow> (case fe_send_packet env n h payload of
                   Inr True \<Rightarrow> FlushByPacket (pb_ticket e) (await_packet_proof DELIVERY_PACKET_PROOF)
                 | Inr False \<Rightarrow> FlushNotSent (pb_ticket e)
                 | Inl _ \<Rightarrow> FlushNotSent (pb_ticket e))));
          ev = (case linked of
             Some (r, sent) \<Rightarrow> if delivered r then FlushByLink (pb_ticket e) sent else by_packet
           | None \<Rightarrow> by_packet)
      in (ev, links', flush_hooked hooks sub (pb_blob e) ev (snd s)))"

fun flush_loop :: "'i fan_env \<Rightarrow> 'w delivery_hook list option \<Rightarrow> nat \<Rightarrow> bytes option \<Rightarrow> bytes \<Rightarrow> nat \<Rightarrow> pending_blob list \<Rightarrow>
    (bytes, link_session) hmap option \<times> 'w \<Rightarrow> flush_event list \<times> (bytes, link_session) hmap option \<times> 'w" where
  "flush_loop env hooks mdu dest sub n [] s = ([], s)"
| "flush_loop env hooks mdu dest sub n (e # es) s =
     (let (ev, s') = flush_one env hooks mdu dest sub n e s;
          (evs, s'') = flush_loop env hooks mdu dest sub (Suc n) es s'
      in (ev # evs, s''))"

fun flush_count :: "flush_event \<Rightarrow> flushed \<Rightarrow> flushed" where
  "flush_count (FlushByLink _ _) f = f\<lparr>fl_by_link := fl_by_link f + 1\<rparr>"
| "flush_count (FlushByPacket _ _) f = f\<lparr>fl_by_packet := fl_by_packet f + 1\<rparr>"
| "flush_count (FlushOversized _) f = f\<lparr>fl_oversized := fl_oversized f + 1\<rparr>"
| "flush_count (FlushNotSent _) f = f\<lparr>fl_not_sent := fl_not_sent f + 1\<rparr>"

fun flush_unsent :: "flush_event list \<Rightarrow> nat list" where
  "flush_unsent [] = []"
| "flush_unsent (FlushOversized ticket # evs) = ticket # flush_unsent evs"
| "flush_unsent (FlushNotSent ticket # evs) = ticket # flush_unsent evs"
| "flush_unsent (_ # evs) = flush_unsent evs"

definition flush_queued :: "'i fan_env \<Rightarrow> 'w delivery_hook list option \<Rightarrow> nat \<Rightarrow> 'i \<Rightarrow> bytes \<Rightarrow> (bytes \<Rightarrow> bool) \<Rightarrow> deferred_queue option \<Rightarrow>
    (bytes, link_session) hmap option \<times> 'w \<Rightarrow>
    flushed \<times> flush_event list \<times> deferred_queue option \<times> (bytes, link_session) hmap option \<times> 'w" where
  "flush_queued env hooks mdu i sub wanted dq s =
     (let zero = \<lparr>fl_by_link = 0, fl_by_packet = 0, fl_oversized = 0, fl_not_sent = 0\<rparr> in case dq of
        None \<Rightarrow> (zero, [], None, s)
      | Some q \<Rightarrow>
          (let (copies, q') = flush_copies sub wanted q in
           if copies = [] then (zero, [], Some q', s)
           else
             (let dest = (case fe_destination env i of Inr h \<Rightarrow> Some h | Inl _ \<Rightarrow> None);
                  (evs, s') = flush_loop env hooks mdu dest sub 0 copies s
              in (fold flush_count evs zero, evs,
                  Some (fold (\<lambda>ticket q. snd (release sub ticket q)) (flush_unsent evs) q'), s'))))"

text \<open>The two hooks of one copy: its confirmation, and what happens when no route confirms it.\<close>

definition flush_confirmed :: "txn \<Rightarrow> bytes \<Rightarrow> nat \<Rightarrow> deferred_queue option \<Rightarrow> deferred_queue option" where
  "flush_confirmed r sub ticket dq = map_option (\<lambda>q. snd (confirm r sub ticket q)) dq"

definition flush_unconfirmed :: "'i wake_env \<Rightarrow> (bytes \<Rightarrow> bytes) \<Rightarrow> notify_registry option \<Rightarrow> unconfirmed \<Rightarrow> pending_blob \<Rightarrow>
    deferred_queue option \<Rightarrow> (hand_off_outcome \<times> (log_level \<times> handoff_line) list \<times> 'i stack_action list) option \<times> deferred_queue option" where
  "flush_unconfirmed wenv full_hash registry rc e dq =
     (case dq of
        None \<Rightarrow> (None, None)
      | Some q \<Rightarrow> (let (waiting, q') = release (un_queue_key rc) (pb_ticket e) q
                  in (if waiting then Some (wake_for_queued wenv full_hash registry rc (pb_channel e) (pb_blob e) (Some (pb_channel e)))
                      else None, Some q')))"

end
