(* ===== verification/Fanout_Props.thy ===== *)
theory Fanout_Props
  imports Fanout DeferredQueue_Runs
begin

text \<open>
  Properties of the channel fan-out and of the announce flush: every subscriber ends on one
  route, and no copy of a queued entry is left in flight without a route that will conclude it.
\<close>

section \<open>One verdict per subscriber\<close>

fun verdict_of :: "fan_event \<Rightarrow> bytes option" where
  "verdict_of (BackupSuppressed sub) = Some sub"
| "verdict_of (PushedLink sub _) = Some sub"
| "verdict_of (PushedStream sub _) = Some sub"
| "verdict_of (SentPacket sub _) = Some sub"
| "verdict_of (HandedNow sub _) = Some sub"
| "verdict_of (PathAsked _) = None"

definition handed_now :: "fan_event list \<Rightarrow> bytes list" where
  "handed_now evs = List.map_filter (\<lambda>ev. case ev of HandedNow sub _ \<Rightarrow> Some sub | _ \<Rightarrow> None) evs"

lemma handed_now_simps [simp]:
  "handed_now [] = []"
  "handed_now (HandedNow sub why # evs) = sub # handed_now evs"
  "handed_now (BackupSuppressed sub # evs) = handed_now evs"
  "handed_now (PushedLink sub sent # evs) = handed_now evs"
  "handed_now (PushedStream sub out # evs) = handed_now evs"
  "handed_now (SentPacket sub w # evs) = handed_now evs"
  "handed_now (PathAsked h # evs) = handed_now evs"
  by (simp_all add: handed_now_def map_filter_simps)

lemma handed_now_append [simp]: "handed_now (evs @ evs') = handed_now evs @ handed_now evs'"
  by (induction evs rule: handed_count.induct) simp_all

lemma handed_count_length: "handed_count evs = length (handed_now evs)"
  by (induction evs rule: handed_count.induct) simp_all

text \<open>What serving one subscriber may come to.\<close>

definition served :: "(nat \<Rightarrow> unconfirmed \<Rightarrow> 'q \<Rightarrow> 'q) \<Rightarrow> nat \<Rightarrow> unconfirmed \<Rightarrow> bytes \<Rightarrow> ('q, 'w) fan_state \<Rightarrow>
    fan_event list \<times> ('q, 'w) fan_state \<Rightarrow> bool" where
  "served hand n rc sub st r \<longleftrightarrow> List.map_filter verdict_of (fst r) = [sub] \<and>
     (handed_now (fst r) = [] \<and> fn_queue (snd r) = fn_queue st \<or>
      handed_now (fst r) = [sub] \<and> fn_queue (snd r) = hand n rc (fn_queue st))"

lemma fan_link_queue: "fn_queue (snd (fan_link env n sub chan payload st)) = fn_queue st"
  by (simp add: fan_link_def split: option.split prod.split)

lemma fan_stream_queue: "fn_queue (snd (fan_stream env n sub chan st)) = fn_queue st"
  by (simp add: fan_stream_def split: option.split prod.split)

lemma fan_packet_served: "served hand n rc sub st (fan_packet env hooks hand proof n rc sub payload blob st)"
  by (simp add: fan_packet_def served_def hand_now_def hooks_called_def map_filter_simps split: option.split sum.split bool.split)

lemma served_queue: "fn_queue st = fn_queue st' \<Longrightarrow> served hand n rc sub st r \<longleftrightarrow> served hand n rc sub st' r"
  by (simp add: served_def)

lemma fan_stream_or_packet_served: "served hand n rc sub st (fan_stream_or_packet env hooks hand proof n rc sub chan blob st)"
proof -
  obtain s st' where eq: "fan_stream env n sub chan st = (s, st')" by (metis surj_pair)
  with fan_stream_queue [of env n sub chan st] have q: "fn_queue st' = fn_queue st" by simp
  have p: "served hand n rc sub st (fan_packet env hooks hand proof n rc sub (chan @ blob) blob st')"
    using fan_packet_served served_queue [OF q] by blast
  show ?thesis
  proof (cases s)
    case None
    with p show ?thesis by (simp add: fan_stream_or_packet_def eq)
  next
    case (Some x)
    obtain r out where "x = (r, out)" by (cases x)
    with Some p q show ?thesis
      by (simp add: fan_stream_or_packet_def eq served_def hooks_called_def map_filter_simps)
  qed
qed

lemma fan_one_served:
  assumes "\<not> (case owner of Some node \<Rightarrow> fe_recall_owner env n node | None \<Rightarrow> False)"
  shows "served hand n \<lparr>un_queue_key = sub, un_wake_key = notify_key (fe_dest_hash env) sub\<rparr> sub st
    (fan_one env hooks hand proof chan blob n (sub, owner) st)"
proof -
  let ?rc = "\<lparr>un_queue_key = sub, un_wake_key = notify_key (fe_dest_hash env) sub\<rparr>"
  obtain l st' where eq: "fan_link env n sub chan (chan @ blob) st = (l, st')" by (metis surj_pair)
  with fan_link_queue [of env n sub chan "chan @ blob" st] have q: "fn_queue st' = fn_queue st" by simp
  have p: "served hand n ?rc sub st (fan_stream_or_packet env hooks hand proof n ?rc sub chan blob st')"
    using fan_stream_or_packet_served served_queue [OF q] by blast
  show ?thesis
  proof (cases l)
    case None
    with p assms show ?thesis by (simp add: fan_one_def eq Let_def)
  next
    case (Some x)
    obtain r sent where "x = (r, sent)" by (cases x)
    with Some p q assms show ?thesis
      by (simp add: fan_one_def eq served_def hooks_called_def map_filter_simps Let_def)
  qed
qed

definition owner_reachable :: "'i fan_env \<Rightarrow> nat \<Rightarrow> bytes option \<Rightarrow> bool" where
  "owner_reachable env n owner \<longleftrightarrow> (case owner of Some node \<Rightarrow> fe_recall_owner env n node | None \<Rightarrow> False)"

text \<open>The hand-offs of the run, in order: the number and hash of each subscriber handed off.\<close>

lemma fan_loop_spec:
  "fan_loop env hooks hand proof chan blob n rows handed st = (handed', evs, st') \<Longrightarrow>
    List.map_filter verdict_of evs = map fst rows \<and> handed' = handed + length (handed_now evs) \<and>
    (\<exists>hs. map snd hs = handed_now evs \<and> sorted_wrt (<) (map fst hs) \<and>
       (\<forall>(i, sub) \<in> set hs. n \<le> i \<and> i < n + length rows \<and> fst (rows ! (i - n)) = sub \<and> \<not> owner_reachable env i (snd (rows ! (i - n)))) \<and>
       fn_queue st' = fold (\<lambda>(i, sub). hand i \<lparr>un_queue_key = sub, un_wake_key = notify_key (fe_dest_hash env) sub\<rparr>) hs (fn_queue st))"
proof (induction rows arbitrary: n handed st evs handed' st')
  case Nil
  then show ?case by (auto simp: map_filter_simps intro: exI [of _ "[]"])
next
  case (Cons row rows)
  let ?rc = "\<lambda>sub. \<lparr>un_queue_key = sub, un_wake_key = notify_key (fe_dest_hash env) sub\<rparr>"
  obtain sub owner where row: "row = (sub, owner)" by (cases row)
  obtain ev1 st1 where one: "fan_one env hooks hand proof chan blob n (sub, owner) st = (ev1, st1)" by (metis surj_pair)
  obtain h2 ev2 st2 where loop: "fan_loop env hooks hand proof chan blob (Suc n) rows (handed + handed_count ev1) st1 = (h2, ev2, st2)"
    by (metis surj_pair)
  from Cons.prems have res: "handed' = h2" "evs = ev1 @ ev2" "st' = st2" by (simp_all add: row one loop)
  from Cons.IH [OF loop] obtain hs where
    v2: "List.map_filter verdict_of ev2 = map fst rows" and h2: "h2 = handed + handed_count ev1 + length (handed_now ev2)"
    and hs: "map snd hs = handed_now ev2" "sorted_wrt (<) (map fst hs)"
      "\<forall>(i, sub) \<in> set hs. Suc n \<le> i \<and> i < Suc n + length rows \<and> fst (rows ! (i - Suc n)) = sub \<and> \<not> owner_reachable env i (snd (rows ! (i - Suc n)))"
      "fn_queue st2 = fold (\<lambda>(i, sub). hand i (?rc sub)) hs (fn_queue st1)"
    by blast
  have verdicts: "List.map_filter verdict_of (xs @ ys) = List.map_filter verdict_of xs @ List.map_filter verdict_of ys" for xs ys
    by (simp add: List.map_filter_def)
  have later: "\<forall>(i, sub) \<in> set hs. n \<le> i \<and> i < n + length (row # rows) \<and> fst ((row # rows) ! (i - n)) = sub \<and>
      \<not> owner_reachable env i (snd ((row # rows) ! (i - n)))"
    using hs(3) by (auto simp: nth_Cons' Suc_le_eq diff_Suc split: nat.splits)
  show ?case
  proof (cases "owner_reachable env n owner")
    case True
    then have "ev1 = [BackupSuppressed sub]" "st1 = st" using one by (auto simp: fan_one_def owner_reachable_def)
    then show ?thesis using v2 h2 hs later res row by (auto simp: verdicts map_filter_simps intro!: exI [of _ hs])
  next
    case False
    with fan_one_served [where env = env and n = n and owner = owner and hand = hand and sub = sub and st = st] one
    have s: "served hand n (?rc sub) sub st (ev1, st1)" by (metis owner_reachable_def)
    then consider "handed_now ev1 = []" "fn_queue st1 = fn_queue st" | "handed_now ev1 = [sub]" "fn_queue st1 = hand n (?rc sub) (fn_queue st)"
      by (auto simp: served_def)
    then show ?thesis
    proof cases
      case 1
      with s v2 h2 hs later res row show ?thesis
        by (auto simp: served_def verdicts handed_count_length intro!: exI [of _ hs])
    next
      case 2
      have "sorted_wrt (<) (map fst ((n, sub) # hs))" using hs(2,3) by (auto simp: Suc_le_eq)
      with 2 s v2 h2 hs(1,4) later res row False show ?thesis
        by (intro conjI exI [of _ "(n, sub) # hs"]) (auto simp: served_def verdicts handed_count_length)
    qed
  qed
qed

text \<open>
  C7: a channel fan-out ends every subscriber on one route. Its verdicts are, in order, one
  per subscriber row: suppressed, pushed on the link or the stream, sent as a packet, or
  handed off; the number returned is that of the hand-offs made; and the state the hook acts
  on is exactly those hand-offs, in order, each for a subscriber of the list under the
  identity hash it pulls by and the notify key it is woken by, never for a backup row whose
  owner is reachable.
\<close>

theorem fanout_one_verdict_each:
  assumes "fanout_blob env hooks hand proof blob chan subscribers st = (handed, evs, st')"
  shows "List.map_filter verdict_of evs = map fst subscribers \<and> handed = length (handed_now evs) \<and>
    (\<exists>hs. map snd hs = handed_now evs \<and> sorted_wrt (<) (map fst hs) \<and>
       (\<forall>(i, sub) \<in> set hs. i < length subscribers \<and> fst (subscribers ! i) = sub \<and> \<not> owner_reachable env i (snd (subscribers ! i))) \<and>
       fn_queue st' = fold (\<lambda>(i, sub). hand i \<lparr>un_queue_key = sub, un_wake_key = notify_key (fe_dest_hash env) sub\<rparr>) hs (fn_queue st))"
  using fan_loop_spec [OF assms [unfolded fanout_blob_def]] by simp


theorem fanout_one_verdict_each_witness:
  "let env = \<lparr>fe_dest_hash = (\<lambda>i a b. [9]), fe_recall_owner = (\<lambda>_ _. False), fe_alive = (\<lambda>_ _. True), fe_enc = Some,
          fe_request = (\<lambda>_ _ _ _. True), fe_send_link = (\<lambda>_ _. Inr True), fe_recall = (\<lambda>_ _. None),
          fe_destination = (\<lambda>(i :: unit). Inl []), fe_has_path = (\<lambda>_ _. False), fe_send_packet = (\<lambda>_ _ _. Inr False)\<rparr>;
       st = \<lparr>fn_links = None, fn_streams = None, fn_queue = [], fn_world = ()\<rparr>;
       (handed, evs, st') = fanout_blob env [] (\<lambda>n rc q. q @ [un_wake_key rc]) Required [3] [2] [([1], None)] st
   in handed = 1 \<and> List.map_filter verdict_of evs = [[1]] \<and> fn_queue st' = [[9]]"
proof -
  let ?env = "\<lparr>fe_dest_hash = (\<lambda>i a b. [9]), fe_recall_owner = (\<lambda>_ _. False), fe_alive = (\<lambda>_ _. True), fe_enc = Some,
          fe_request = (\<lambda>_ _ _ _. True), fe_send_link = (\<lambda>_ _. Inr True), fe_recall = (\<lambda>_ _. None),
          fe_destination = (\<lambda>(i :: unit). Inl []), fe_has_path = (\<lambda>_ _. False), fe_send_packet = (\<lambda>_ _ _. Inr False)\<rparr>"
  let ?st = "\<lparr>fn_links = None, fn_streams = None, fn_queue = [], fn_world = ()\<rparr>"
  let ?hand = "\<lambda>(n :: nat) rc q. q @ [un_wake_key rc]"
  have run: "fanout_blob ?env [] ?hand Required [3] [2] [([1], None)] ?st = (1, [HandedNow [1] SubscriberUnknown],
      \<lparr>fn_links = None, fn_streams = None, fn_queue = [[9]], fn_world = ()\<rparr>)"
    by (simp add: fanout_blob_def fan_one_def fan_link_def fan_stream_def fan_stream_or_packet_def fan_packet_def hand_now_def
        notify_key_def Let_def)
  from fanout_one_verdict_each [OF this] have "List.map_filter verdict_of [HandedNow [1] SubscriberUnknown] = [[1]]" by simp
  then show ?thesis unfolding run Let_def by simp
qed

section \<open>The announce flush\<close>

fun flush_ticket :: "flush_event \<Rightarrow> nat" where
  "flush_ticket (FlushByLink ticket _) = ticket"
| "flush_ticket (FlushByPacket ticket _) = ticket"
| "flush_ticket (FlushOversized ticket) = ticket"
| "flush_ticket (FlushNotSent ticket) = ticket"

fun flush_routed :: "flush_event \<Rightarrow> bool" where
  "flush_routed (FlushByLink _ _) = True"
| "flush_routed (FlushByPacket _ _) = True"
| "flush_routed (FlushOversized _) = False"
| "flush_routed (FlushNotSent _) = False"

lemma flush_one_ticket: "flush_ticket (fst (flush_one env hooks mdu dest sub n e s)) = pb_ticket e"
  by (simp add: flush_one_def Let_def split: option.split prod.split sum.split bool.split)

lemma flush_loop_tickets: "map flush_ticket (fst (flush_loop env hooks mdu dest sub n es s)) = map pb_ticket es"
  by (induction es arbitrary: n s) (simp_all add: case_prod_unfold Let_def flush_one_ticket)

text \<open>The hooks are called for the copies given to a route, in order.\<close>

lemma flush_loop_hooks:
  "snd (snd (flush_loop env hooks mdu dest sub n es s)) =
    fold (\<lambda>(e, ev). flush_hooked hooks sub (pb_blob e) ev) (zip es (fst (flush_loop env hooks mdu dest sub n es s))) (snd s)"
proof (induction es arbitrary: n s)
  case (Cons e es)
  have "snd (snd (flush_one env hooks mdu dest sub n e s)) =
      flush_hooked hooks sub (pb_blob e) (fst (flush_one env hooks mdu dest sub n e s)) (snd s)"
    by (simp add: flush_one_def Let_def case_prod_beta)
  then show ?case by (simp add: Let_def case_prod_beta Cons.IH)
qed simp

lemma flush_unsent_eq: "flush_unsent evs = map flush_ticket (filter (\<lambda>ev. \<not> flush_routed ev) evs)"
  by (induction evs rule: flush_unsent.induct) simp_all

lemma release_all: "fold (\<lambda>ticket q. snd (release sub ticket q)) ts q = q\<lparr>dq_in_flight := dq_in_flight q - set ts\<rparr>"
proof (induction ts arbitrary: q)
  case (Cons t ts)
  show ?case by (simp add: Cons.IH) (simp add: release_def Diff_insert2 [symmetric] insert_commute Diff_insert [symmetric])
qed simp

definition flush_total :: "flushed \<Rightarrow> nat" where
  "flush_total f = fl_by_link f + fl_by_packet f + fl_oversized f + fl_not_sent f"

lemma flush_count_total: "flush_total (fold flush_count evs f) = flush_total f + length evs"
proof (induction evs arbitrary: f)
  case (Cons ev evs)
  have "flush_total (flush_count ev f) = Suc (flush_total f)" by (cases ev) (simp_all add: flush_total_def)
  then show ?case by (simp add: Cons.IH)
qed simp

lemma bucket_tickets_distinct:
  assumes "dq_keys q" and "dq_tickets q" and "hget (dq_queue q) sub = Some b"
  shows "distinct (map pb_ticket b)"
proof -
  from assms(1) have "hkeys_distinct (dq_queue q)" by (simp add: dq_keys_def)
  from this assms(3) obtain xs ys where m: "dq_queue q = xs @ (sub, b) # ys" by (rule hget_split)
  from assms(2) have "distinct (map ticket_of (owned q))" by (simp add: dq_tickets_def)
  then show ?thesis by (simp add: owned_def m comp_def)
qed

text \<open>
  The announce flush strands no entry. It takes nothing out of the queue; every copy it
  made has one event, in order, counted once in what it returns; and the tickets in flight
  afterwards are those before and those of the copies a route was found for (a link that
  will answer or fail, a packet whose receipt will conclude): no entry is kept back from
  the next flush by a copy nobody sent.
\<close>

theorem flush_strands_no_entry:
  assumes "flush_queued env hooks mdu i sub wanted (Some q) s = (f, evs, dq', s')" and "dq_keys q" and "dq_tickets q"
  shows "dq' = Some (q\<lparr>dq_in_flight := dq_in_flight q \<union> flush_ticket ` set (filter flush_routed evs)\<rparr>) \<and>
    map flush_ticket evs = map pb_ticket (filter (\<lambda>e. wanted (pb_channel e) \<and> pb_ticket e \<notin> dq_in_flight q) (bucket_of (dq_queue q) sub)) \<and>
    fl_by_link f + fl_by_packet f + fl_oversized f + fl_not_sent f = length evs"
proof -
  let ?copies = "filter (\<lambda>e. wanted (pb_channel e) \<and> pb_ticket e \<notin> dq_in_flight q) (bucket_of (dq_queue q) sub)"
  obtain copies q1 where fc: "flush_copies sub wanted q = (copies, q1)" by (metis surj_pair)
  then have copies: "copies = ?copies" and q1: "q1 = q\<lparr>dq_in_flight := dq_in_flight q \<union> pb_ticket ` set copies\<rparr>"
    by (auto simp: flush_copies_def bucket_of_def Let_def split: option.splits)
  show ?thesis
  proof (cases "copies = []")
    case True
    then have "evs = []" "dq' = Some q1" "f = \<lparr>fl_by_link = 0, fl_by_packet = 0, fl_oversized = 0, fl_not_sent = 0\<rparr>"
      using assms(1) by (auto simp: flush_queued_def fc Let_def)
    then show ?thesis unfolding copies [symmetric] using True q1 by simp
  next
    case False
    define dest where "dest = (case fe_destination env i of Inr h \<Rightarrow> Some h | Inl _ \<Rightarrow> None)"
    from False assms(1) have evs: "evs = fst (flush_loop env hooks mdu dest sub 0 copies s)"
      and f: "f = fold flush_count evs \<lparr>fl_by_link = 0, fl_by_packet = 0, fl_oversized = 0, fl_not_sent = 0\<rparr>"
      and dq': "dq' = Some (fold (\<lambda>ticket q. snd (release sub ticket q)) (flush_unsent evs) q1)"
      by (auto simp: flush_queued_def fc dest_def Let_def split: prod.splits)
    have tickets: "map flush_ticket evs = map pb_ticket copies" unfolding evs by (rule flush_loop_tickets)
    have "distinct (map pb_ticket (bucket_of (dq_queue q) sub))"
      using bucket_tickets_distinct [OF assms(2,3)] by (cases "hget (dq_queue q) sub") simp_all
    then have d: "distinct (map flush_ticket evs)" unfolding tickets copies by (rule distinct_map_filter)
    have old: "flush_ticket ev \<notin> dq_in_flight q" if "ev \<in> set evs" for ev
    proof -
      from that have "flush_ticket ev \<in> set (map pb_ticket copies)" unfolding tickets [symmetric] by simp
      then show ?thesis unfolding copies by auto
    qed
    have T: "pb_ticket ` set copies = flush_ticket ` set evs" using tickets by (metis list.set_map)
    have split: "flush_ticket ` set evs - flush_ticket ` set (filter (\<lambda>ev. \<not> flush_routed ev) evs) = flush_ticket ` set (filter flush_routed evs)"
      using d by (auto simp: distinct_map inj_on_def)
    have "dq_in_flight q \<union> pb_ticket ` set copies - set (flush_unsent evs) = dq_in_flight q \<union> flush_ticket ` set (filter flush_routed evs)"
      unfolding T flush_unsent_eq using split old by (auto simp: image_iff)
    then have "dq' = Some (q\<lparr>dq_in_flight := dq_in_flight q \<union> flush_ticket ` set (filter flush_routed evs)\<rparr>)"
      unfolding dq' release_all q1 by simp
    moreover have "flush_total f = length evs" unfolding f flush_count_total by (simp add: flush_total_def)
    ultimately show ?thesis using tickets unfolding copies by (simp add: flush_total_def)
  qed
qed


theorem flush_strands_no_entry_witness:
  "let q = \<lparr>dq_queue = [([1], [\<lparr>pb_channel = [2], pb_blob = [3], pb_enqueued_at = 0, pb_id = 0, pb_ticket = 1\<rparr>])], dq_held = [],
          dq_next_page = 1, dq_next_ticket = 2, dq_in_flight = {}, dq_db = None, dq_global_limit = 4096\<rparr>;
       env = \<lparr>fe_dest_hash = (\<lambda>i a b. [9]), fe_recall_owner = (\<lambda>_ _. False), fe_alive = (\<lambda>_ _. True), fe_enc = Some,
          fe_request = (\<lambda>_ _ _ _. True), fe_send_link = (\<lambda>_ _. Inr True), fe_recall = (\<lambda>_ _. None),
          fe_destination = (\<lambda>(i :: unit). Inl []), fe_has_path = (\<lambda>_ _. False), fe_send_packet = (\<lambda>_ _ _. Inr False)\<rparr>
   in case flush_queued env None 500 () [1] (\<lambda>_. True) (Some q) (None, ()) of (f, evs, dq', s') \<Rightarrow>
      dq' = Some q \<and> fl_not_sent f = 1"
proof -
  let ?q = "\<lparr>dq_queue = [([1], [\<lparr>pb_channel = [2], pb_blob = [3], pb_enqueued_at = 0, pb_id = 0, pb_ticket = 1\<rparr>])], dq_held = [],
          dq_next_page = 1, dq_next_ticket = 2, dq_in_flight = {}, dq_db = None, dq_global_limit = 4096\<rparr>"
  let ?env = "\<lparr>fe_dest_hash = (\<lambda>i a b. [9]), fe_recall_owner = (\<lambda>_ _. False), fe_alive = (\<lambda>_ _. True), fe_enc = Some,
          fe_request = (\<lambda>_ _ _ _. True), fe_send_link = (\<lambda>_ _. Inr True), fe_recall = (\<lambda>_ _. None),
          fe_destination = (\<lambda>(i :: unit). Inl []), fe_has_path = (\<lambda>_ _. False), fe_send_packet = (\<lambda>_ _ _. Inr False)\<rparr>"
  obtain f evs dq' s' where run: "flush_queued ?env None 500 () [1] (\<lambda>_. True) (Some ?q) (None, ()) = (f, evs, dq', s')"
    by (metis surj_pair)
  have evs: "evs = [FlushNotSent 1]" "f = \<lparr>fl_by_link = 0, fl_by_packet = 0, fl_oversized = 0, fl_not_sent = 1\<rparr>" using run
    by (auto simp: flush_queued_def flush_copies_def flush_one_def fits_in_delivery_packet_def Let_def)
  have "dq_keys ?q" "dq_tickets ?q"
    by (simp_all add: dq_keys_def dq_tickets_def hkeys_distinct_def owned_def queue_owned_def held_owned_def)
  from flush_strands_no_entry [OF run this] evs have "dq' = Some ?q" by simp
  with run evs show ?thesis by (simp add: Let_def)
qed

end
