(* ===== verification/DistroFanout.thy ===== *)
theory DistroFanout
  imports Handoff LiveSessions DistroTables
begin

text \<open>
  The fan-out of \<open>rfed/src/distro.rs\<close>: an LXMF message to a distro is pushed to every
  registered device on its \<open>rfed.link\<close> session or its propagation stream, and otherwise
  handed off. \<open>from_public_key\<close> gives the identity hash of a public key (\<open>None\<close> when the
  key is invalid or has no hash); \<open>df_env\<close> bundles the answers of the links when the n-th
  device is served. A registry is \<open>None\<close> when not given or poisoned.
\<close>

section \<open>State\<close>

record df_env =
  de_alive :: "nat \<Rightarrow> bytes \<Rightarrow> bool"
  de_enc :: "bytes \<Rightarrow> bytes option"
  de_request :: "nat \<Rightarrow> bytes \<Rightarrow> string \<Rightarrow> bytes \<Rightarrow> bool"
  de_send_link :: "nat \<Rightarrow> bytes \<Rightarrow> string + bool"
  de_from_public_key :: "bytes \<Rightarrow> bytes option"

record ('q, 'w) distro_state =
  ds_links :: "(bytes, link_session) hmap option"
  ds_streams :: "(bytes, propagation_stream_session) hmap option"
  ds_queue :: 'q
  ds_world :: 'w

record distro_fanout_counts =
  df_devices :: nat
  df_pushed_live :: nat
  df_handed_off :: nat
  df_queued :: nat
  df_woken :: nat
  df_because :: "wake_reason list list"
  df_unkeyed :: nat

definition no_counts :: "nat \<Rightarrow> distro_fanout_counts" where
  "no_counts n = \<lparr>df_devices = n, df_pushed_live = 0, df_handed_off = 0, df_queued = 0, df_woken = 0,
     df_because = [], df_unkeyed = 0\<rparr>"

definition fanned_count :: "hand_off_outcome \<Rightarrow> distro_fanout_counts \<Rightarrow> distro_fanout_counts" where
  "fanned_count handed f =
     (let f' = f\<lparr>df_handed_off := df_handed_off f + 1, df_queued := df_queued f + (if ho_queued handed then 1 else 0)\<rparr>
      in if ho_woken handed
         then f'\<lparr>df_woken := df_woken f + 1,
                 df_because := df_because f @ (case ho_because handed of Some why \<Rightarrow> [why] | None \<Rightarrow> [])\<rparr>
         else f')"

section \<open>One device\<close>

definition device_id_hash_of :: "(bytes \<Rightarrow> bytes option) \<Rightarrow> distro_entry \<Rightarrow> bytes option" where
  "device_id_hash_of from_public_key e = from_public_key (di_pubkey e)"

definition unconfirmed_of :: "(bytes \<Rightarrow> bytes option) \<Rightarrow> distro_entry \<Rightarrow> unconfirmed option" where
  "unconfirmed_of from_public_key e = map_option (\<lambda>h. \<lparr>un_queue_key = h, un_wake_key = di_device e\<rparr>)
     (device_id_hash_of from_public_key e)"

text \<open>
  The route a device took. A live push carries what its later failure hands off (\<open>None\<close>
  when the key is invalid: the push then has no hook).
\<close>

datatype device_route =
    LinkPush "bytes list" "unconfirmed option"
  | StreamPush "push_outcome option" "unconfirmed option"
  | HandOff unconfirmed hand_off_outcome
  | Unkeyed

definition device_link :: "df_env \<Rightarrow> nat \<Rightarrow> distro_entry \<Rightarrow> bytes \<Rightarrow> ('q, 'w) distro_state \<Rightarrow>
    (stream_dispatch_result \<times> bytes list) option \<times> ('q, 'w) distro_state" where
  "device_link env n e blob st = (case ds_links st of
      None \<Rightarrow> (None, st)
    | Some links \<Rightarrow> (case dispatch_lxmf (de_alive env n) (de_enc env) (de_request env n) (di_device e) blob links of
        (r, links') \<Rightarrow> (Some r, st\<lparr>ds_links := Some links'\<rparr>)))"

definition device_stream :: "df_env \<Rightarrow> nat \<Rightarrow> distro_entry \<Rightarrow> ('q, 'w) distro_state \<Rightarrow>
    (stream_dispatch_result \<times> push_outcome option) option \<times> ('q, 'w) distro_state" where
  "device_stream env n e st = (case ds_streams st of
      None \<Rightarrow> (None, st)
    | Some streams \<Rightarrow> (case dispatch_propagation (de_alive env n) (de_send_link env n) (di_device e) streams of
        (r, streams') \<Rightarrow> (Some r, st\<lparr>ds_streams := Some streams'\<rparr>)))"

definition device_hooks :: "'w delivery_hook list \<Rightarrow> distro_entry \<Rightarrow> bytes \<Rightarrow> ('q, 'w) distro_state \<Rightarrow> ('q, 'w) distro_state" where
  "device_hooks hooks e blob st = st\<lparr>ds_world := on_deliver hooks (di_device e) blob (ds_world st)\<rparr>"

definition device_hand :: "(nat \<Rightarrow> unconfirmed \<Rightarrow> 'q \<Rightarrow> hand_off_outcome \<times> 'q) \<Rightarrow> nat \<Rightarrow> unconfirmed option \<Rightarrow>
    ('q, 'w) distro_state \<Rightarrow> device_route \<times> ('q, 'w) distro_state" where
  "device_hand hand n device st = (case device of
      None \<Rightarrow> (Unkeyed, st)
    | Some rc \<Rightarrow> (case hand n rc (ds_queue st) of (handed, q) \<Rightarrow> (HandOff rc handed, st\<lparr>ds_queue := q\<rparr>)))"

definition serve_device :: "df_env \<Rightarrow> 'w delivery_hook list \<Rightarrow> (nat \<Rightarrow> unconfirmed \<Rightarrow> 'q \<Rightarrow> hand_off_outcome \<times> 'q) \<Rightarrow> nat \<Rightarrow>
    bytes \<Rightarrow> distro_entry \<Rightarrow> ('q, 'w) distro_state \<Rightarrow> device_route \<times> ('q, 'w) distro_state" where
  "serve_device env hooks hand n blob e st =
     (let device = unconfirmed_of (de_from_public_key env) e;
          (linked, st1) = device_link env n e blob st
      in case linked of
           Some (r, sent) \<Rightarrow>
             if delivered r then (LinkPush sent device, device_hooks hooks e blob st1)
             else (let (streamed, st2) = device_stream env n e st1 in case streamed of
                 Some (r, out) \<Rightarrow> if delivered r then (StreamPush out device, device_hooks hooks e blob st2)
                                   else device_hand hand n device st2
               | None \<Rightarrow> device_hand hand n device st2)
         | None \<Rightarrow>
             (let (streamed, st2) = device_stream env n e st1 in case streamed of
                 Some (r, out) \<Rightarrow> if delivered r then (StreamPush out device, device_hooks hooks e blob st2)
                                   else device_hand hand n device st2
               | None \<Rightarrow> device_hand hand n device st2))"

section \<open>All devices\<close>

fun count_route :: "device_route \<Rightarrow> distro_fanout_counts \<Rightarrow> distro_fanout_counts" where
  "count_route (LinkPush _ _) f = f\<lparr>df_pushed_live := df_pushed_live f + 1\<rparr>"
| "count_route (StreamPush _ _) f = f\<lparr>df_pushed_live := df_pushed_live f + 1\<rparr>"
| "count_route (HandOff _ handed) f = fanned_count handed f"
| "count_route Unkeyed f = f\<lparr>df_unkeyed := df_unkeyed f + 1\<rparr>"

fun serve_devices :: "df_env \<Rightarrow> 'w delivery_hook list \<Rightarrow> (nat \<Rightarrow> unconfirmed \<Rightarrow> 'q \<Rightarrow> hand_off_outcome \<times> 'q) \<Rightarrow> nat \<Rightarrow>
    bytes \<Rightarrow> distro_entry list \<Rightarrow> distro_fanout_counts \<Rightarrow> ('q, 'w) distro_state \<Rightarrow>
    distro_fanout_counts \<times> device_route list \<times> ('q, 'w) distro_state" where
  "serve_devices env hooks hand n blob [] f st = (f, [], st)"
| "serve_devices env hooks hand n blob (e # es) f st =
     (let (route, st') = serve_device env hooks hand n blob e st;
          (f', routes, st'') = serve_devices env hooks hand (Suc n) blob es (count_route route f) st'
      in (f', route # routes, st''))"

definition distro_fanout :: "df_env \<Rightarrow> 'w delivery_hook list \<Rightarrow> (nat \<Rightarrow> unconfirmed \<Rightarrow> 'q \<Rightarrow> hand_off_outcome \<times> 'q) \<Rightarrow>
    bytes \<Rightarrow> distro_entry list \<Rightarrow> ('q, 'w) distro_state \<Rightarrow>
    distro_fanout_counts \<times> device_route list \<times> ('q, 'w) distro_state" where
  "distro_fanout env hooks hand blob devices st =
     (if devices = [] then (no_counts 0, [], st)
      else serve_devices env hooks hand 0 blob devices (no_counts (length devices)) st)"

section \<open>The summary lines\<close>

fun decimal :: "nat \<Rightarrow> string" where
  "decimal n = (if n < 10 then [''0123456789'' ! n] else decimal (n div 10) @ [''0123456789'' ! (n mod 10)])"

fun join :: "string \<Rightarrow> string list \<Rightarrow> string" where
  "join sep [] = []"
| "join sep [s] = s"
| "join sep (s # t # ss) = s @ sep @ join sep (t # ss)"

fun reason_text :: "wake_reason \<Rightarrow> string" where
  "reason_text (UnPulled n) = decimal n @ '' un-pulled''"
| "reason_text (QueueAt n global_limit) = ''queue at '' @ decimal n @ '' of '' @ decimal global_limit"
| "reason_text QueuePoisoned = ''deferred queue poisoned''"

definition hand_offs_said :: "distro_fanout_counts \<Rightarrow> string" where
  "hand_offs_said f = decimal (df_queued f) @ '' queued, '' @ decimal (df_woken f) @ '' woken'' @
     (if df_because f \<noteq> [] then '' ('' @ join ''; '' (map (\<lambda>why. join '', '' (map reason_text why)) (df_because f)) @ '')'' else []) @
     (if df_queued f < df_handed_off f then '', '' @ decimal (df_handed_off f - df_queued f) @ '' NOT queued'' else [])"

section \<open>Hashes\<close>

definition distro_message_id :: "(bytes \<Rightarrow> bytes) \<Rightarrow> bytes \<Rightarrow> bytes" where
  "distro_message_id truncated_hash lxmf_data = truncated_hash lxmf_data"

definition lxmf_delivery_hash_from_pubkey :: "(bytes \<Rightarrow> string + 'i) \<Rightarrow> ('i \<Rightarrow> string \<Rightarrow> string list \<Rightarrow> string + bytes) \<Rightarrow> bytes \<Rightarrow> string + bytes" where
  "lxmf_delivery_hash_from_pubkey from_public_key new_outbound pubkey = (case from_public_key pubkey of
      Inl e \<Rightarrow> Inl (''from_public_key: '' @ e)
    | Inr i \<Rightarrow> new_outbound i ''lxmf'' [''delivery''])"

section \<open>Properties\<close>

lemma fanned_count_sums:
  "df_pushed_live (fanned_count h f) = df_pushed_live f \<and> df_unkeyed (fanned_count h f) = df_unkeyed f \<and>
   df_devices (fanned_count h f) = df_devices f \<and> df_handed_off (fanned_count h f) = Suc (df_handed_off f)"
  by (simp add: fanned_count_def Let_def)

lemma serve_devices_counts:
  "serve_devices env hooks hand n blob es f st = (f', routes, st') \<Longrightarrow> f' = fold count_route routes f \<and> length routes = length es"
  by (induction es arbitrary: n f st f' routes st') (auto split: prod.splits simp: Let_def)

definition counts_ok :: "distro_fanout_counts \<Rightarrow> nat \<Rightarrow> bool" where
  "counts_ok f n \<longleftrightarrow> df_pushed_live f + df_handed_off f + df_unkeyed f = n \<and> df_queued f \<le> df_handed_off f \<and>
     df_woken f \<le> df_handed_off f \<and> length (df_because f) \<le> df_woken f"

lemma count_route_ok: "counts_ok f n \<Longrightarrow> counts_ok (count_route route f) (Suc n) \<and> df_devices (count_route route f) = df_devices f"
  by (cases route) (auto simp: counts_ok_def fanned_count_def Let_def split: option.split)

lemma count_routes_ok:
  "counts_ok f n \<Longrightarrow> counts_ok (fold count_route routes f) (n + length routes) \<and> df_devices (fold count_route routes f) = df_devices f"
proof (induction routes arbitrary: f n)
  case (Cons r routes)
  from count_route_ok [OF Cons.prems, of r] Cons.IH [of "count_route r f" "Suc n"] show ?case by simp
qed simp

lemma serve_device_hands:
  fixes st :: "('q, 'w) distro_state"
  assumes "serve_device env hooks hand n blob e st = (route, st')"
  shows "
    (case route of HandOff rc handed \<Rightarrow> unconfirmed_of (de_from_public_key env) e = Some rc \<and> (handed, ds_queue st') = hand n rc (ds_queue st)
     | Unkeyed \<Rightarrow> unconfirmed_of (de_from_public_key env) e = None \<and> ds_queue st' = ds_queue st
     | LinkPush sent d \<Rightarrow> d = unconfirmed_of (de_from_public_key env) e \<and> sent \<noteq> [] \<and> ds_queue st' = ds_queue st
     | StreamPush out d \<Rightarrow> d = unconfirmed_of (de_from_public_key env) e \<and> ds_queue st' = ds_queue st)"
proof -
  note run = assms
  have link: "ds_queue (snd (device_link env n e blob st)) = ds_queue st"
    by (simp add: device_link_def split: option.split prod.split)
  have stream: "ds_queue (snd (device_stream env n e s)) = ds_queue s" for s :: "('q, 'w) distro_state"
    by (simp add: device_stream_def split: option.split prod.split)
  have sent: "sent \<noteq> []" if "fst (device_link env n e blob st) = Some (r, sent)" "delivered r" for r sent
    using that by (auto simp: device_link_def dispatch_lxmf_def dispatch_on_def delivered_def split: option.splits prod.splits)
  obtain l s1 where l: "device_link env n e blob st = (l, s1)" by (metis surj_pair)
  obtain t s2 where t: "device_stream env n e s1 = (t, s2)" by (metis surj_pair)
  from link l have q1: "ds_queue s1 = ds_queue st" by simp
  from stream [of s1] t q1 have q2: "ds_queue s2 = ds_queue st" by simp
  show ?thesis using run sent q1 q2
    by (auto simp: serve_device_def l t Let_def device_hooks_def device_hand_def split: option.splits prod.splits if_splits)
qed

fun route_of :: "(bytes \<Rightarrow> bytes option) \<Rightarrow> distro_entry \<Rightarrow> device_route \<Rightarrow> bool" where
  "route_of key e (LinkPush sent d) \<longleftrightarrow> sent \<noteq> [] \<and> d = unconfirmed_of key e"
| "route_of key e (StreamPush out d) \<longleftrightarrow> d = unconfirmed_of key e"
| "route_of key e (HandOff rc handed) \<longleftrightarrow> unconfirmed_of key e = Some rc"
| "route_of key e Unkeyed \<longleftrightarrow> unconfirmed_of key e = None"

lemma serve_device_route:
  assumes "serve_device env hooks hand n blob e st = (route, st')"
  shows "route_of (de_from_public_key env) e route"
  using serve_device_hands [OF assms] by (cases route) simp_all

lemma serve_devices_routes:
  "serve_devices env hooks hand n blob es f st = (f', routes, st') \<Longrightarrow> list_all2 (route_of (de_from_public_key env)) es routes"
  by (induction es arbitrary: n f st f' routes st') (auto split: prod.splits simp: Let_def intro: serve_device_route)

fun handed_route :: "device_route \<Rightarrow> hand_off_outcome option" where
  "handed_route (HandOff _ handed) = Some handed"
| "handed_route _ = None"

lemma count_routes_handed:
  "df_handed_off (fold count_route routes f) = df_handed_off f + length (List.map_filter handed_route routes) \<and>
   df_queued (fold count_route routes f) = df_queued f + length (filter ho_queued (List.map_filter handed_route routes)) \<and>
   df_woken (fold count_route routes f) = df_woken f + length (filter ho_woken (List.map_filter handed_route routes))"
proof (induction routes arbitrary: f)
  case (Cons r routes)
  show ?case by (cases r) (simp_all add: Cons.IH fanned_count_def Let_def List.map_filter_simps)
qed (simp add: List.map_filter_simps)

lemma not_all_queued: "length (filter P xs) < length xs \<longleftrightarrow> (\<exists>x \<in> set xs. \<not> P x)"
  by (metis filter_True length_filter_less nat_neq_iff)

section \<open>What the summary says\<close>

lemma decimal_digits: "set (decimal n) \<subseteq> set ''0123456789''"
proof (induction n rule: decimal.induct)
  case (1 n)
  have digit: "''0123456789'' ! m \<in> set ''0123456789''" if "m < 10" for m
    by (rule nth_mem) (use that in simp)
  show ?case
  proof (cases "n < 10")
    case True
    then show ?thesis using digit [OF True] by (simp add: decimal.simps [of n] del: decimal.simps)
  next
    case False
    then show ?thesis using 1 [OF False] digit [of "n mod 10"] by (simp add: decimal.simps [of n] del: decimal.simps)
  qed
qed

declare decimal.simps [simp del]

lemma decimal_no_N: "CHR ''N'' \<notin> set (decimal n)"
  using decimal_digits [of n] by auto

lemma join_set: "set (join sep ss) \<subseteq> set sep \<union> (\<Union>s \<in> set ss. set s)"
  by (induction sep ss rule: join.induct) auto

lemma reason_no_N: "CHR ''N'' \<notin> set (reason_text why)"
  by (cases why) (simp_all add: decimal_no_N)

lemma joined_no_N: "CHR ''N'' \<notin> set sep \<Longrightarrow> (\<And>s. s \<in> set ss \<Longrightarrow> CHR ''N'' \<notin> set s) \<Longrightarrow> CHR ''N'' \<notin> set (join sep ss)"
  using join_set [of sep ss] by blast

lemma said_N: "CHR ''N'' \<in> set (hand_offs_said f) \<longleftrightarrow> df_queued f < df_handed_off f"
proof -
  have "CHR ''N'' \<notin> set (join ''; '' (map (\<lambda>why. join '', '' (map reason_text why)) (df_because f)))"
    by (intro joined_no_N) (auto simp: reason_no_N dest!: subsetD [OF join_set])
  then show ?thesis by (auto simp: hand_offs_said_def decimal_no_N)
qed

lemma said_not_queued: "(\<exists>u v. hand_offs_said f = u @ ''NOT queued'' @ v) \<longleftrightarrow> df_queued f < df_handed_off f"
proof
  assume "\<exists>u v. hand_offs_said f = u @ ''NOT queued'' @ v"
  then have "CHR ''N'' \<in> set (hand_offs_said f)" by auto
  then show "df_queued f < df_handed_off f" by (simp add: said_N)
next
  assume "df_queued f < df_handed_off f"
  then have "hand_offs_said f = (decimal (df_queued f) @ '' queued, '' @ decimal (df_woken f) @ '' woken'' @
     (if df_because f \<noteq> [] then '' ('' @ join ''; '' (map (\<lambda>why. join '', '' (map reason_text why)) (df_because f)) @ '')'' else []) @
     '', '' @ decimal (df_handed_off f - df_queued f) @ '' '') @ ''NOT queued'' @ []"
    by (simp add: hand_offs_said_def)
  then show "\<exists>u v. hand_offs_said f = u @ ''NOT queued'' @ v" by blast
qed

lemma not_queued_length: "length (filter (\<lambda>x. \<not> P x) xs) = length xs - length (filter P xs)"
  by (induction xs) (auto simp: Suc_diff_le length_filter_le)


text \<open>Two devices without a session: the first is handed off and not queued, the second has an invalid key.\<close>

definition witness_devices :: "distro_entry list" where
  "witness_devices = [\<lparr>di_distro = [9], di_device = [10], di_pubkey = [1], di_added = 0, di_owner = None, di_refreshed = 0\<rparr>,
     \<lparr>di_distro = [9], di_device = [20], di_pubkey = [2], di_added = 0, di_owner = None, di_refreshed = 0\<rparr>]"

definition witness_env :: df_env where
  "witness_env = \<lparr>de_alive = (\<lambda>_ _. False), de_enc = (\<lambda>_. None), de_request = (\<lambda>_ _ _ _. False),
     de_send_link = (\<lambda>_ _. Inl []), de_from_public_key = (\<lambda>k. if k = [1] then Some [7] else None)\<rparr>"

definition witness_hand :: "nat \<Rightarrow> unconfirmed \<Rightarrow> nat \<Rightarrow> hand_off_outcome \<times> nat" where
  "witness_hand n rc q = (\<lparr>ho_queued = False, ho_woken = True, ho_because = Some [UnPulled 3]\<rparr>, Suc q)"

definition witness_state :: "(nat, unit) distro_state" where
  "witness_state = \<lparr>ds_links = None, ds_streams = None, ds_queue = 0, ds_world = ()\<rparr>"


end
