(* ===== verification/PeerSets.thy ===== *)
theory PeerSets
  imports RFed_Prelude
begin

text \<open>
  \<open>PeerSet\<close> of \<open>rfed/src/lxmf_propagation.rs\<close>: a set of peer slots as bits of 64-bit words,
  one word while every slot is below 64. The lemmas refine it to a set of numbers.
\<close>

unbundle bit_operations_syntax

section \<open>Vectors\<close>

text \<open>\<open>get(i)\<close> on a slice, and \<open>resize(n, x)\<close> of a shorter vector.\<close>

definition nth_opt :: "'a list \<Rightarrow> nat \<Rightarrow> 'a option" where
  "nth_opt xs i = (if i < length xs then Some (xs ! i) else None)"

definition grown :: "nat \<Rightarrow> 'a \<Rightarrow> 'a list \<Rightarrow> 'a list" where
  "grown n x xs = (if length xs \<le> n then xs @ replicate (Suc n - length xs) x else xs)"

lemma length_grown: "length (grown n x xs) = max (length xs) (Suc n)"
  by (simp add: grown_def)

lemma nth_grown: "i < length (grown n x xs) \<Longrightarrow> grown n x xs ! i = (if i < length xs then xs ! i else x)"
  by (auto simp: grown_def nth_append)

section \<open>The set\<close>

type_synonym u64 = "64 word"

datatype peer_set = Word u64 | Words "u64 list"

fun words_of :: "peer_set \<Rightarrow> u64 list" where
  "words_of (Word w) = [w]"
| "words_of (Words ws) = ws"

definition empty_slots :: peer_set where
  "empty_slots = Word 0"

definition has_slot :: "peer_set \<Rightarrow> nat \<Rightarrow> bool" where
  "has_slot s slot = (case nth_opt (words_of s) (slot div 64) of
      None \<Rightarrow> False | Some w \<Rightarrow> w AND push_bit (slot mod 64) 1 \<noteq> 0)"

definition insert_slot :: "nat \<Rightarrow> peer_set \<Rightarrow> bool \<times> peer_set" where
  "insert_slot slot s =
     (if has_slot s slot then (False, s)
      else (let i = slot div 64; b = push_bit (slot mod 64) 1 in
        (True, case s of
            Word w \<Rightarrow> if i = 0 then Word (w OR b) else Words ((replicate (i + 1) 0)[0 := w, i := b])
          | Words ws \<Rightarrow> (let ws' = grown i 0 ws in Words (ws'[i := ws' ! i OR b])))))"

definition remove_slot :: "nat \<Rightarrow> peer_set \<Rightarrow> bool \<times> peer_set" where
  "remove_slot slot s =
     (if \<not> has_slot s slot then (False, s)
      else (let b = push_bit (slot mod 64) 1 in
        (True, case s of
            Word w \<Rightarrow> Word (w AND NOT b)
          | Words ws \<Rightarrow> Words (ws[slot div 64 := ws ! (slot div 64) AND NOT b]))))"

definition no_slots :: "peer_set \<Rightarrow> bool" where
  "no_slots s = list_all (\<lambda>w. w = 0) (words_of s)"

definition slots_iter :: "peer_set \<Rightarrow> nat list" where
  "slots_iter s = concat (map (\<lambda>(i, w). map (\<lambda>b. i * 64 + b) (filter (\<lambda>b. w AND push_bit b 1 \<noteq> 0) [0..<64]))
     (enumerate 0 (words_of s)))"

section \<open>As a set of numbers\<close>

definition slots :: "peer_set \<Rightarrow> nat set" where
  "slots s = {slot. has_slot s slot}"

lemma has_slot_bit:
  "has_slot s slot \<longleftrightarrow> slot div 64 < length (words_of s) \<and> bit (words_of s ! (slot div 64)) (slot mod 64)"
  by (simp add: has_slot_def nth_opt_def bit_iff_and_push_bit_not_eq_0)

lemma slot_split: "(slot :: nat) div 64 = slot' div 64 \<Longrightarrow> slot mod 64 = slot' mod 64 \<longleftrightarrow> slot = slot'"
  by (metis div_mult_mod_eq)

lemma bit_one_word: "bit (2 ^ n :: u64) m \<longleftrightarrow> m = n \<and> n < 64"
  by (auto simp: bit_exp_iff possible_bit_def)

lemma insert_slot_fst: "fst (insert_slot slot s) \<longleftrightarrow> slot \<notin> slots s"
  by (simp add: insert_slot_def slots_def Let_def)

lemma remove_slot_fst: "fst (remove_slot slot s) \<longleftrightarrow> slot \<in> slots s"
  by (simp add: remove_slot_def slots_def Let_def)

text \<open>Both layouts: the word of the slot gets its bit, the vector as long as it has to be.\<close>

lemma insert_words:
  assumes "\<not> has_slot s slot"
  defines "i \<equiv> slot div 64"
  shows "words_of (snd (insert_slot slot s)) = (grown i 0 (words_of s))[i := grown i 0 (words_of s) ! i OR push_bit (slot mod 64) 1]"
proof (cases s)
  case (Word w)
  show ?thesis
  proof (cases "i = 0")
    case True
    with assms Word show ?thesis by (simp add: insert_slot_def grown_def Let_def)
  next
    case False
    then obtain j where j: "i = Suc j" by (cases i) auto
    have "(0 # replicate j (0 :: u64)) ! j = 0" by (metis nth_replicate replicate_Suc lessI)
    with j have "(replicate (i + 1) 0)[0 := w, i := x] = (grown i 0 [w])[i := grown i 0 [w] ! i OR x]" for x :: u64
      by (simp add: grown_def)
    with False assms Word show ?thesis by (simp add: insert_slot_def Let_def)
  qed
next
  case (Words ws)
  with assms show ?thesis by (simp add: insert_slot_def Let_def)
qed

lemma remove_words:
  assumes "has_slot s slot"
  defines "i \<equiv> slot div 64"
  shows "words_of (snd (remove_slot slot s)) = (words_of s)[i := words_of s ! i AND NOT (push_bit (slot mod 64) 1)]"
  using assms by (cases s) (auto simp: remove_slot_def Let_def has_slot_bit)

lemma has_insert_slot: "has_slot (snd (insert_slot slot s)) x \<longleftrightarrow> x = slot \<or> has_slot s x"
proof (cases "has_slot s slot")
  case True
  then show ?thesis by (auto simp: insert_slot_def)
next
  case False
  have "slot mod 64 < 64" "x mod 64 < 64" by simp_all
  then show ?thesis using slot_split [of x slot]
    unfolding has_slot_bit [of "snd (insert_slot slot s)"] insert_words [OF False]
    by (auto simp: has_slot_bit bit_or_iff bit_one_word nth_list_update length_grown nth_grown simp del: push_bit_numeral split: if_splits)
qed

lemma has_remove_slot: "has_slot (snd (remove_slot slot s)) x \<longleftrightarrow> x \<noteq> slot \<and> has_slot s x"
proof (cases "has_slot s slot")
  case False
  then show ?thesis by (auto simp: remove_slot_def)
next
  case True
  have "slot mod 64 < 64" "x mod 64 < 64" by simp_all
  then show ?thesis using slot_split [of x slot] True
    unfolding has_slot_bit [of "snd (remove_slot slot s)"] remove_words [OF True]
    by (auto simp: has_slot_bit bit_and_iff bit_not_iff bit_one_word nth_list_update possible_bit_def split: if_splits)
qed

lemma slots_insert: "slots (snd (insert_slot slot s)) = insert slot (slots s)"
  by (auto simp: slots_def has_insert_slot)

lemma slots_remove: "slots (snd (remove_slot slot s)) = slots s - {slot}"
  by (auto simp: slots_def has_remove_slot)

lemma no_slots_iff: "no_slots s \<longleftrightarrow> slots s = {}"
proof
  assume "no_slots s"
  then show "slots s = {}" by (auto simp: no_slots_def slots_def has_slot_bit list_all_length)
next
  assume none: "slots s = {}"
  have "words_of s ! i = 0" if i: "i < length (words_of s)" for i
  proof (rule bit_eqI)
    fix n assume "possible_bit TYPE(u64) n"
    then have n: "n < 64" by (simp add: possible_bit_def)
    from none have "\<not> has_slot s (i * 64 + n)" by (auto simp: slots_def)
    with i n show "bit (words_of s ! i) n = bit 0 n" by (simp add: has_slot_bit)
  qed
  then show "no_slots s" by (simp add: no_slots_def list_all_length)
qed

lemma set_slots_iter: "set (slots_iter s) = slots s"
proof -
  have "slot \<in> set (slots_iter s) \<longleftrightarrow> (\<exists>i < length (words_of s). \<exists>b < 64. slot = i * 64 + b \<and> bit (words_of s ! i) b)" for slot
    by (auto simp: slots_iter_def in_set_enumerate_eq image_iff bit_iff_and_push_bit_not_eq_0 Bex_def)
  also have "\<dots> slot \<longleftrightarrow> has_slot s slot" for slot
  proof -
    have "slot = slot div 64 * 64 + slot mod 64" "slot mod 64 < 64" by simp_all
    moreover have "(i * 64 + b) div 64 = i" "(i * 64 + b) mod 64 = b" if "b < 64" for i b :: nat using that by simp_all
    ultimately show ?thesis unfolding has_slot_bit by metis
  qed
  finally show ?thesis by (auto simp: slots_def)
qed

lemma slots_iter_sorted: "sorted_wrt (<) (slots_iter s)"
proof -
  have "sorted_wrt (<) (concat (map (\<lambda>(i, w). map (\<lambda>b. i * 64 + b) (filter (P w) [0..<64])) (enumerate n ws))) \<and>
    (\<forall>x \<in> set (concat (map (\<lambda>(i, w). map (\<lambda>b. i * 64 + b) (filter (P w) [0..<64])) (enumerate n ws))). n * 64 \<le> x)"
    for P :: "u64 \<Rightarrow> nat \<Rightarrow> bool" and n ws
  proof (induction ws arbitrary: n)
    case (Cons w ws)
    have "sorted_wrt (<) (map (\<lambda>b. n * 64 + b) (filter (P w) [0..<64]))"
      by (simp add: sorted_wrt_map sorted_wrt_filter)
    then show ?case using Cons.IH [of "Suc n"] by (fastforce simp: sorted_wrt_append)
  qed simp
  then show ?thesis by (simp add: slots_iter_def)
qed

lemma finite_slots: "finite (slots s)"
  by (metis List.finite_set set_slots_iter)

lemma slots_iter_sorted_list: "slots_iter s = sorted_list_of_set (slots s)"
  by (metis set_slots_iter slots_iter_sorted sorted_list_of_set.idem_if_sorted_distinct strict_sorted_iff)

lemma slots_empty: "slots empty_slots = {}"
  by (auto simp: empty_slots_def slots_def has_slot_bit)

text \<open>
  C39: a \<open>PeerSet\<close> is a set of slots. Whatever its layout, one word or many, inserting and
  removing a slot changes that slot only and says whether it changed anything, a slot past
  the vector is not in it, and iterating gives each slot once, lowest first.
\<close>

theorem peer_set_is_a_set:
  "slots empty_slots = {} \<and>
   (fst (insert_slot slot s) \<longleftrightarrow> slot \<notin> slots s) \<and> slots (snd (insert_slot slot s)) = insert slot (slots s) \<and>
   (fst (remove_slot slot s) \<longleftrightarrow> slot \<in> slots s) \<and> slots (snd (remove_slot slot s)) = slots s - {slot} \<and>
   (no_slots s \<longleftrightarrow> slots s = {}) \<and> slots_iter s = sorted_list_of_set (slots s) \<and> finite (slots s)"
  by (simp add: slots_empty insert_slot_fst slots_insert remove_slot_fst slots_remove no_slots_iff
      slots_iter_sorted_list finite_slots)

end
