(* ===== verification/PropEntries.thy ===== *)
theory PropEntries
  imports PeerSets
begin

text \<open>
  \<open>PropagationEntries\<close> of \<open>rfed/src/lxmf_propagation.rs\<close>: the stored messages in order, the
  row of each in an index of 32-bit row numbers, and for every peer slot how many messages
  it is handled and unhandled for. An operation is \<open>None\<close> where the code would panic: a row
  number past the rows, or a count brought below zero.
\<close>

section \<open>State\<close>

record propagation_entry =
  pe_destination :: bytes
  pe_received :: secs
  pe_size :: nat
  pe_stamp :: "32 word"
  pe_handled :: peer_set
  pe_unhandled :: peer_set
  pe_other_name :: "string option"

definition new_entry :: "bytes \<Rightarrow> secs \<Rightarrow> nat \<Rightarrow> 32 word \<Rightarrow> propagation_entry" where
  "new_entry dest received n stamp = \<lparr>pe_destination = dest, pe_received = received, pe_size = n,
     pe_stamp = stamp, pe_handled = empty_slots, pe_unhandled = empty_slots, pe_other_name = None\<rparr>"

type_synonym entry_row = "(bytes \<times> propagation_entry) option"

record propagation_entries =
  pr_rows :: "entry_row list"
  pr_index :: "(bytes, 32 word) hmap"
  pr_handled_counts :: "nat list"
  pr_unhandled_counts :: "nat list"

definition no_entries :: propagation_entries where
  "no_entries = \<lparr>pr_rows = [], pr_index = [], pr_handled_counts = [], pr_unhandled_counts = []\<rparr>"

section \<open>Lookup\<close>

definition entry_count :: "propagation_entries \<Rightarrow> nat" where
  "entry_count E = length (pr_index E)"

definition row_of :: "bytes \<Rightarrow> propagation_entries \<Rightarrow> nat option" where
  "row_of tid E = (if length tid = 32 then map_option unat (hget (pr_index E) tid) else None)"

definition contains_key :: "bytes \<Rightarrow> propagation_entries \<Rightarrow> bool" where
  "contains_key tid E \<longleftrightarrow> row_of tid E \<noteq> None"

text \<open>\<open>rows[row]\<close>.\<close>

definition row_at :: "nat \<Rightarrow> propagation_entries \<Rightarrow> entry_row option" where
  "row_at i E = nth_opt (pr_rows E) i"

definition get_entry :: "bytes \<Rightarrow> propagation_entries \<Rightarrow> propagation_entry option option" where
  "get_entry tid E = (case row_of tid E of None \<Rightarrow> Some None | Some i \<Rightarrow> map_option (map_option snd) (row_at i E))"

text \<open>\<open>rows.iter().flatten()\<close>, which is also \<open>iter\<close>.\<close>

fun flatten :: "'a option list \<Rightarrow> 'a list" where
  "flatten [] = []"
| "flatten (None # rows) = flatten rows"
| "flatten (Some x # rows) = x # flatten rows"

definition stored :: "propagation_entries \<Rightarrow> (bytes \<times> propagation_entry) list" where
  "stored E = flatten (pr_rows E)"

section \<open>Counts of the slots\<close>

definition count_slot :: "bool \<Rightarrow> nat \<Rightarrow> nat list \<Rightarrow> nat list option" where
  "count_slot add slot counts = (let cs = grown slot 0 counts in
     if add then Some (cs[slot := cs ! slot + 1])
     else if cs ! slot = 0 then None else Some (cs[slot := cs ! slot - 1]))"

fun count_slots :: "bool \<Rightarrow> nat list \<Rightarrow> nat list \<Rightarrow> nat list option" where
  "count_slots add [] counts = Some counts"
| "count_slots add (slot # rest) counts = (case count_slot add slot counts of None \<Rightarrow> None | Some cs \<Rightarrow> count_slots add rest cs)"

definition count_peers :: "propagation_entry \<Rightarrow> bool \<Rightarrow> propagation_entries \<Rightarrow> propagation_entries option" where
  "count_peers e add E =
     (case count_slots add (slots_iter (pe_handled e)) (pr_handled_counts E) of
        None \<Rightarrow> None
      | Some h \<Rightarrow> (case count_slots add (slots_iter (pe_unhandled e)) (pr_unhandled_counts E) of
          None \<Rightarrow> None
        | Some u \<Rightarrow> Some (E\<lparr>pr_handled_counts := h, pr_unhandled_counts := u\<rparr>)))"

section \<open>Insert, remove, compact, sort\<close>

definition insert_entry :: "bytes \<Rightarrow> propagation_entry \<Rightarrow> propagation_entries \<Rightarrow> (bool \<times> propagation_entries) option" where
  "insert_entry tid e E =
     (if hget (pr_index E) tid \<noteq> None then Some (False, E)
      else (case count_peers e True E of
          None \<Rightarrow> None
        | Some E' \<Rightarrow> Some (True, E'\<lparr>pr_index := hput tid (of_nat (length (pr_rows E))) (pr_index E),
            pr_rows := pr_rows E @ [Some (tid, e)]\<rparr>)))"

fun reindex :: "nat \<Rightarrow> (bytes \<times> propagation_entry) list \<Rightarrow> (bytes, 32 word) hmap \<Rightarrow> (bytes, 32 word) hmap" where
  "reindex n [] m = m"
| "reindex n ((tid, _) # es) m = reindex (Suc n) es (if hget m tid = None then m else hput tid (of_nat n) m)"

definition compact :: "propagation_entries \<Rightarrow> propagation_entries" where
  "compact E = (let rows = filter (\<lambda>row. row \<noteq> None) (pr_rows E)
     in E\<lparr>pr_rows := rows, pr_index := reindex 0 (flatten rows) (pr_index E)\<rparr>)"

definition remove_entry :: "bytes \<Rightarrow> propagation_entries \<Rightarrow> (propagation_entry option \<times> propagation_entries) option" where
  "remove_entry tid E =
     (if length tid \<noteq> 32 then Some (None, E)
      else (case hget (pr_index E) tid of
          None \<Rightarrow> Some (None, E)
        | Some w \<Rightarrow>
            (let i = unat w; E1 = E\<lparr>pr_index := hdel tid (pr_index E)\<rparr>
             in case row_at i E1 of
                  None \<Rightarrow> None
                | Some None \<Rightarrow> Some (None, E1)
                | Some (Some (_, e)) \<Rightarrow>
                    (case count_peers e False (E1\<lparr>pr_rows := (pr_rows E)[i := None]\<rparr>) of
                       None \<Rightarrow> None
                     | Some E2 \<Rightarrow>
                         if length (pr_rows E2) < entry_count E2 then None
                         else (let removed = length (pr_rows E2) - entry_count E2
                           in Some (Some e, if 1024 < removed \<and> entry_count E2 < removed then compact E2 else E2))))))"

definition sort_by_received :: "propagation_entries \<Rightarrow> propagation_entries" where
  "sort_by_received E = compact (E\<lparr>pr_rows := map Some (sort_key (\<lambda>(tid, e). (pe_received e, tid)) (stored E))\<rparr>)"

section \<open>Marks\<close>

definition set_peers :: "bool \<Rightarrow> peer_set \<Rightarrow> propagation_entry \<Rightarrow> propagation_entry" where
  "set_peers handled s e = (if handled then e\<lparr>pe_handled := s\<rparr> else e\<lparr>pe_unhandled := s\<rparr>)"

definition peers_of :: "bool \<Rightarrow> propagation_entry \<Rightarrow> peer_set" where
  "peers_of handled e = (if handled then pe_handled e else pe_unhandled e)"

definition set_counts :: "bool \<Rightarrow> nat list \<Rightarrow> propagation_entries \<Rightarrow> propagation_entries" where
  "set_counts handled cs E = (if handled then E\<lparr>pr_handled_counts := cs\<rparr> else E\<lparr>pr_unhandled_counts := cs\<rparr>)"

definition counts_of :: "bool \<Rightarrow> propagation_entries \<Rightarrow> nat list" where
  "counts_of handled E = (if handled then pr_handled_counts E else pr_unhandled_counts E)"

definition mark :: "nat \<Rightarrow> bytes \<Rightarrow> bool \<Rightarrow> bool \<Rightarrow> propagation_entries \<Rightarrow> (bool \<times> propagation_entries) option" where
  "mark slot tid handled on E =
     (case row_of tid E of
        None \<Rightarrow> Some (False, E)
      | Some i \<Rightarrow> (case row_at i E of
          None \<Rightarrow> None
        | Some None \<Rightarrow> Some (False, E)
        | Some (Some (t, e)) \<Rightarrow>
            (let (changed, s) = (if on then insert_slot else remove_slot) slot (peers_of handled e)
             in if \<not> changed then Some (False, E)
                else (case count_slot on slot (counts_of handled E) of
                    None \<Rightarrow> None
                  | Some cs \<Rightarrow> Some (True, set_counts handled cs (E\<lparr>pr_rows := (pr_rows E)[i := Some (t, set_peers handled s e)]\<rparr>))))))"

definition add_handled_message :: "nat \<Rightarrow> bytes \<Rightarrow> propagation_entries \<Rightarrow> (bool \<times> propagation_entries) option" where
  "add_handled_message slot tid E = mark slot tid True True E"

definition add_unhandled_message :: "nat \<Rightarrow> bytes \<Rightarrow> propagation_entries \<Rightarrow> (bool \<times> propagation_entries) option" where
  "add_unhandled_message slot tid E = mark slot tid False True E"

definition remove_unhandled_message :: "nat \<Rightarrow> bytes \<Rightarrow> propagation_entries \<Rightarrow> (bool \<times> propagation_entries) option" where
  "remove_unhandled_message slot tid E = mark slot tid False False E"

definition is_handled :: "nat \<Rightarrow> bytes \<Rightarrow> propagation_entries \<Rightarrow> bool option" where
  "is_handled slot tid E = map_option (\<lambda>x. case x of None \<Rightarrow> False | Some e \<Rightarrow> has_slot (pe_handled e) slot) (get_entry tid E)"

definition is_unhandled :: "nat \<Rightarrow> bytes \<Rightarrow> propagation_entries \<Rightarrow> bool option" where
  "is_unhandled slot tid E = map_option (\<lambda>x. case x of None \<Rightarrow> False | Some e \<Rightarrow> has_slot (pe_unhandled e) slot) (get_entry tid E)"

definition queue_unhandled :: "nat \<Rightarrow> bytes \<Rightarrow> propagation_entries \<Rightarrow> (bool \<times> propagation_entries) option" where
  "queue_unhandled slot tid E = (case is_handled slot tid E of
      None \<Rightarrow> None | Some True \<Rightarrow> Some (False, E) | Some False \<Rightarrow> add_unhandled_message slot tid E)"

definition mark_handled :: "nat \<Rightarrow> bytes \<Rightarrow> propagation_entries \<Rightarrow> propagation_entries option" where
  "mark_handled slot tid E = (case remove_unhandled_message slot tid E of
      None \<Rightarrow> None | Some (_, E') \<Rightarrow> map_option snd (add_handled_message slot tid E'))"

definition handled_messages :: "nat \<Rightarrow> propagation_entries \<Rightarrow> (bytes \<times> propagation_entry) list" where
  "handled_messages slot E = filter (\<lambda>(_, e). has_slot (pe_handled e) slot) (stored E)"

definition unhandled_messages :: "nat \<Rightarrow> propagation_entries \<Rightarrow> (bytes \<times> propagation_entry) list" where
  "unhandled_messages slot E = filter (\<lambda>(_, e). has_slot (pe_unhandled e) slot) (stored E)"

definition handled_message_count :: "nat \<Rightarrow> propagation_entries \<Rightarrow> nat" where
  "handled_message_count slot E = (case nth_opt (pr_handled_counts E) slot of None \<Rightarrow> 0 | Some n \<Rightarrow> n)"

definition unhandled_message_count :: "nat \<Rightarrow> propagation_entries \<Rightarrow> nat" where
  "unhandled_message_count slot E = (case nth_opt (pr_unhandled_counts E) slot of None \<Rightarrow> 0 | Some n \<Rightarrow> n)"

definition forget_peer :: "nat \<Rightarrow> propagation_entries \<Rightarrow> propagation_entries" where
  "forget_peer slot E =
     (if handled_message_count slot E = 0 \<and> unhandled_message_count slot E = 0 then E
      else E\<lparr>pr_rows := map (map_option (map_prod id (\<lambda>e. e\<lparr>pe_handled := snd (remove_slot slot (pe_handled e)),
               pe_unhandled := snd (remove_slot slot (pe_unhandled e))\<rparr>))) (pr_rows E),
             pr_handled_counts := (pr_handled_counts E)[slot := 0],
             pr_unhandled_counts := (pr_unhandled_counts E)[slot := 0]\<rparr>)"

end
