(* ===== verification/PropEntries_Props.thy ===== *)
theory PropEntries_Props
  imports PropEntries
begin

text \<open>
  The invariant of the stored messages (the index gives the row of each, the counts of the
  slots are exact), that every operation keeps it and none panics, and the refinement of the
  rows, index and counts to a plain list of messages.
\<close>

section \<open>Rows\<close>

lemma flatten_append [simp]: "flatten (xs @ ys) = flatten xs @ flatten ys"
  by (induction xs rule: flatten.induct) simp_all

lemma flatten_map_Some [simp]: "flatten (map Some xs) = xs"
  by (induction xs) simp_all

lemma filter_stored_rows: "filter (\<lambda>row. row \<noteq> None) rows = map Some (flatten rows)"
  by (induction rows rule: flatten.induct) simp_all

lemma mem_flatten: "x \<in> set (flatten rows) \<longleftrightarrow> Some x \<in> set rows"
  by (induction rows rule: flatten.induct) auto

lemma row_split:
  assumes "i < length rows" and "rows ! i = row"
  obtains xs ys where "rows = xs @ row # ys" and "length xs = i" and "\<And>row'. rows[i := row'] = xs @ row' # ys"
proof
  from assms show "rows = take i rows @ row # drop (Suc i) rows" by (metis id_take_nth_drop)
  from assms show "length (take i rows) = i" by simp
  from assms(1) show "rows[i := row'] = take i rows @ row' # drop (Suc i) rows" for row'
    by (rule upd_conv_take_nth_drop)
qed

section \<open>The index\<close>

definition index_ok :: "entry_row list \<Rightarrow> (bytes, 32 word) hmap \<Rightarrow> bool" where
  "index_ok rows m \<longleftrightarrow> hkeys_distinct m \<and> length rows \<le> 2 ^ 32 \<and>
     (\<forall>tid w. hget m tid = Some w \<longleftrightarrow> unat w < length rows \<and> (\<exists>e. rows ! unat w = Some (tid, e)))"

lemma unat_row: "i < 2 ^ 32 \<Longrightarrow> unat (of_nat i :: 32 word) = i"
  by (simp add: unat_of_nat take_bit_nat_eq_self)

lemma index_okD: "index_ok rows m \<Longrightarrow> hget m tid = Some w \<Longrightarrow> unat w < length rows \<and> (\<exists>e. rows ! unat w = Some (tid, e))"
  by (simp add: index_ok_def)

lemma index_ok_row: "index_ok rows m \<Longrightarrow> i < length rows \<Longrightarrow> rows ! i = Some (tid, e) \<Longrightarrow> hget m tid = Some (of_nat i)"
  by (simp add: index_ok_def unat_row)

lemma index_ok_dom: "index_ok rows m \<Longrightarrow> hget m tid \<noteq> None \<longleftrightarrow> tid \<in> fst ` set (flatten rows)"
proof -
  assume ok: "index_ok rows m"
  have "(\<exists>w. hget m tid = Some w) \<longleftrightarrow> (\<exists>e. Some (tid, e) \<in> set rows)"
    using index_okD [OF ok] index_ok_row [OF ok] by (metis in_set_conv_nth)
  moreover have "(\<exists>e. Some (tid, e) \<in> set rows) \<longleftrightarrow> tid \<in> fst ` set (flatten rows)"
    using mem_flatten [of _ rows] by (force simp: image_iff)
  ultimately show ?thesis by simp
qed

lemma index_ok_unique:
  assumes "index_ok rows m" and "i < length rows" and "j < length rows"
    and "rows ! i = Some (tid, e)" and "rows ! j = Some (tid, e')"
  shows "i = j"
proof -
  from assms index_ok_row have "(of_nat i :: 32 word) = of_nat j" by (metis option.inject)
  moreover from assms have "i < 2 ^ 32" "j < 2 ^ 32" by (auto simp: index_ok_def)
  ultimately show ?thesis by (metis unat_row)
qed

lemma rows_distinct:
  "(\<And>i j tid e e'. i < length rows \<Longrightarrow> j < length rows \<Longrightarrow> rows ! i = Some (tid, e) \<Longrightarrow> rows ! j = Some (tid, e') \<Longrightarrow> i = j) \<Longrightarrow>
   distinct (map fst (flatten rows))"
proof (induction rows)
  case (Cons row rows)
  have tail: "distinct (map fst (flatten rows))"
  proof (rule Cons.IH)
    fix i j tid e e'
    assume "i < length rows" "j < length rows" "rows ! i = Some (tid, e)" "rows ! j = Some (tid, e')"
    then show "i = j" using Cons.prems [of "Suc i" "Suc j"] by simp
  qed
  show ?case
  proof (cases row)
    case None
    with tail show ?thesis by simp
  next
    case (Some x)
    obtain tid e where x: "x = (tid, e)" by (cases x)
    have "tid \<notin> fst ` set (flatten rows)"
    proof
      assume "tid \<in> fst ` set (flatten rows)"
      then obtain e' where "Some (tid, e') \<in> set rows" by (auto simp: mem_flatten)
      then obtain j where "j < length rows" "rows ! j = Some (tid, e')" by (auto simp: in_set_conv_nth)
      with Cons.prems [of 0 "Suc j" tid e e'] Some x show False by simp
    qed
    with tail Some x show ?thesis by simp
  qed
qed simp

lemma index_ok_distinct: "index_ok rows m \<Longrightarrow> distinct (map fst (flatten rows))"
  by (rule rows_distinct) (rule index_ok_unique)

lemma index_ok_length: "index_ok rows m \<Longrightarrow> length m = length (flatten rows)"
proof -
  assume ok: "index_ok rows m"
  have "set (map fst m) = fst ` set (flatten rows)"
    using index_ok_dom [OF ok] by (auto simp: map_of_eq_None_iff)
  then show ?thesis using index_ok_distinct [OF ok] ok
    by (metis index_ok_def hkeys_distinct_def distinct_card length_map list.set_map)
qed

lemma index_ok_append:
  assumes "index_ok rows m" and "hget m tid = None" and "length rows < 2 ^ 32"
  shows "index_ok (rows @ [Some (tid, e)]) (hput tid (of_nat (length rows)) m)"
  unfolding index_ok_def
proof (intro conjI allI)
  from assms(1) show "hkeys_distinct (hput tid (of_nat (length rows)) m)" by (simp add: index_ok_def hm.inv_put)
  from assms(3) show "length (rows @ [Some (tid, e)]) \<le> 2 ^ 32" by simp
  fix t and w :: "32 word"
  have new: "rows ! unat w \<noteq> Some (tid, e')" if "unat w < length rows" for e'
    using index_ok_dom [OF assms(1), of tid] assms(2) that by (metis index_ok_row [OF assms(1)] option.distinct(1))
  show "hget (hput tid (of_nat (length rows)) m) t = Some w \<longleftrightarrow>
      unat w < length (rows @ [Some (tid, e)]) \<and> (\<exists>e'. (rows @ [Some (tid, e)]) ! unat w = Some (t, e'))"
  proof (cases "t = tid")
    case True
    have "of_nat (length rows) = w \<longleftrightarrow> unat w = length rows"
      using unat_row [OF assms(3)] by (metis unsigned_word_eqI)
    with True new show ?thesis by (auto simp: hmap_simps nth_append less_Suc_eq)
  next
    case False
    with assms(1) show ?thesis by (auto simp: hmap_simps nth_append index_ok_def less_Suc_eq)
  qed
qed

lemma index_ok_remove:
  assumes "index_ok rows m" and "hget m tid = Some w"
  shows "index_ok (rows[unat w := None]) (hdel tid m)"
  unfolding index_ok_def
proof (intro conjI allI)
  from assms(1) show "hkeys_distinct (hdel tid m)" by (simp add: index_ok_def hm.inv_del)
  from assms(1) show "length (rows[unat w := None]) \<le> 2 ^ 32" by (simp add: index_ok_def)
  fix t and v :: "32 word"
  from index_okD [OF assms] obtain e where row: "unat w < length rows" "rows ! unat w = Some (tid, e)" by blast
  show "hget (hdel tid m) t = Some v \<longleftrightarrow>
      unat v < length (rows[unat w := None]) \<and> (\<exists>e'. rows[unat w := None] ! unat v = Some (t, e'))"
  proof (cases "unat v = unat w")
    case True
    then have "v = w" by (rule unsigned_word_eqI)
    with row assms(1) show ?thesis by (auto simp: hmap_simps index_ok_def)
  next
    case False
    with row index_ok_unique [OF assms(1)] have "t = tid \<Longrightarrow> unat v < length rows \<Longrightarrow> rows ! unat v \<noteq> Some (tid, e')" for e'
      by blast
    with False assms(1) show ?thesis by (auto simp: hmap_simps index_ok_def)
  qed
qed

lemma index_ok_same_ids:
  assumes "index_ok rows m" and "map (map_option fst) rows' = map (map_option fst) rows"
  shows "index_ok rows' m"
proof -
  from assms(2) have len: "length rows' = length rows" by (metis length_map)
  have "(\<exists>e. rows' ! i = Some (tid, e)) \<longleftrightarrow> (\<exists>e. rows ! i = Some (tid, e))" if "i < length rows" for i tid
  proof -
    from assms(2) len that have "map_option fst (rows' ! i) = map_option fst (rows ! i)" by (metis nth_map)
    then show ?thesis by (cases "rows' ! i"; cases "rows ! i") auto
  qed
  then have "unat w < length rows' \<and> (\<exists>e. rows' ! unat w = Some (tid, e)) \<longleftrightarrow>
      unat w < length rows \<and> (\<exists>e. rows ! unat w = Some (tid, e))" for tid and w :: "32 word"
    using len by auto
  with assms(1) len show ?thesis unfolding index_ok_def by simp
qed

lemma reindex_get:
  "distinct (map fst es) \<Longrightarrow> (\<And>tid. tid \<in> fst ` set es \<Longrightarrow> hget m tid \<noteq> None) \<Longrightarrow>
   hget (reindex n es m) tid = (case position (\<lambda>x. fst x = tid) es of None \<Rightarrow> hget m tid | Some i \<Rightarrow> Some (of_nat (n + i)))"
proof (induction n es m rule: reindex.induct)
  case (2 n t e es m)
  from "2.prems"(2) [of t] obtain v where known: "hget m t = Some v" by auto
  have "hget (reindex (Suc n) es (hput t (of_nat n) m)) tid =
    (case position (\<lambda>x. fst x = tid) es of None \<Rightarrow> hget (hput t (of_nat n) m) tid | Some i \<Rightarrow> Some (of_nat (Suc n + i)))"
  proof -
    have "hget (hput t (of_nat n) m) x \<noteq> None" if "x \<in> fst ` set es" for x
      using "2.prems"(2) [of x] that by (auto simp: hmap_simps)
    with "2.IH" "2.prems"(1) known show ?thesis by simp
  qed
  moreover have "position (\<lambda>x. fst x = t) es = None" using "2.prems"(1) by (force simp: position_None_iff)
  ultimately show ?case using known by (auto simp: hmap_simps split: option.split)
qed simp

lemma reindex_distinct: "hkeys_distinct m \<Longrightarrow> hkeys_distinct (reindex n es m)"
  by (induction n es m rule: reindex.induct) (simp_all add: hm.inv_put)

lemma index_ok_compacted:
  assumes "hkeys_distinct m" and "distinct (map fst es)" and "fst ` set es = dom (hget m)" and "length es \<le> 2 ^ 32"
  shows "index_ok (map Some es) (reindex 0 es m)"
  unfolding index_ok_def
proof (intro conjI allI)
  from assms(1) show "hkeys_distinct (reindex 0 es m)" by (rule reindex_distinct)
  from assms(4) show "length (map Some es) \<le> 2 ^ 32" by simp
  fix tid and w :: "32 word"
  have get: "hget (reindex 0 es m) tid = (case position (\<lambda>x. fst x = tid) es of None \<Rightarrow> hget m tid | Some i \<Rightarrow> Some (of_nat i))"
  proof -
    have "hget m t \<noteq> None" if "t \<in> fst ` set es" for t using assms(3) that by (auto simp: dom_def)
    from reindex_get [OF assms(2) this, of 0 tid] show ?thesis by (simp cong: option.case_cong)
  qed
  show "hget (reindex 0 es m) tid = Some w \<longleftrightarrow> unat w < length (map Some es) \<and> (\<exists>e. map Some es ! unat w = Some (tid, e))"
  proof (cases "position (\<lambda>x. fst x = tid) es")
    case None
    then have "tid \<notin> fst ` set es" by (force simp: position_None_iff)
    with assms(3) have "hget m tid = None" by (auto simp: dom_def)
    moreover have "\<not> (unat w < length es \<and> (\<exists>e. es ! unat w = (tid, e)))"
      using \<open>tid \<notin> fst ` set es\<close> by (metis fst_conv image_eqI nth_mem)
    ultimately show ?thesis using None get by auto
  next
    case (Some i)
    from position_Some [OF this] have i: "i < length es" "fst (es ! i) = tid" by auto
    with assms(4) have u: "unat (of_nat i :: 32 word) = i" by (simp add: unat_row)
    have "of_nat i = w \<longleftrightarrow> unat w = i" using u by (metis unsigned_word_eqI)
    moreover have "unat w < length es \<and> (\<exists>e. es ! unat w = (tid, e)) \<longleftrightarrow> unat w = i"
    proof
      assume w: "unat w < length es \<and> (\<exists>e. es ! unat w = (tid, e))"
      with i nth_eq_iff_index_eq [OF assms(2), of "unat w" i] show "unat w = i" by auto
    next
      assume "unat w = i"
      with i show "unat w < length es \<and> (\<exists>e. es ! unat w = (tid, e))" by (cases "es ! i") auto
    qed
    ultimately show ?thesis using Some get by auto
  qed
qed

section \<open>The counts\<close>

definition count_at :: "nat list \<Rightarrow> nat \<Rightarrow> nat" where
  "count_at cs slot = (case nth_opt cs slot of None \<Rightarrow> 0 | Some n \<Rightarrow> n)"

definition holding :: "bool \<Rightarrow> nat \<Rightarrow> (bytes \<times> propagation_entry) list \<Rightarrow> nat" where
  "holding handled slot xs = length (filter (\<lambda>(_, e). has_slot (peers_of handled e) slot) xs)"

definition counts_ok :: "propagation_entries \<Rightarrow> bool" where
  "counts_ok E \<longleftrightarrow> (\<forall>h slot. count_at (counts_of h E) slot = holding h slot (stored E))"

lemma counts_of_simps [simp]:
  "counts_of h (E\<lparr>pr_rows := rows\<rparr>) = counts_of h E" "counts_of h (E\<lparr>pr_index := m\<rparr>) = counts_of h E"
  "counts_of h (set_counts h' cs E) = (if h = h' then cs else counts_of h E)"
  "pr_rows (set_counts h' cs E) = pr_rows E" "pr_index (set_counts h' cs E) = pr_index E"
  by (auto simp: counts_of_def set_counts_def)

lemma stored_simps [simp]: "stored (E\<lparr>pr_rows := rows\<rparr>) = flatten rows" "stored (E\<lparr>pr_index := m\<rparr>) = stored E"
  "stored (set_counts h' cs E) = stored E"
  by (simp_all add: stored_def set_counts_def)

lemma holding_simps [simp]:
  "holding h slot [] = 0"
  "holding h slot (x # xs) = (if has_slot (peers_of h (snd x)) slot then 1 else 0) + holding h slot xs"
  "holding h slot (xs @ ys) = holding h slot xs + holding h slot ys"
  by (simp_all add: holding_def case_prod_unfold)

lemma count_at_eq: "count_at cs slot = (if slot < length cs then cs ! slot else 0)"
  by (simp add: count_at_def nth_opt_def)

lemma count_slot_add:
  "\<exists>cs'. count_slot True slot cs = Some cs' \<and> (\<forall>x. count_at cs' x = count_at cs x + (if x = slot then 1 else 0))"
  by (auto simp: count_slot_def Let_def count_at_eq nth_list_update length_grown nth_grown)

lemma count_slot_sub:
  "0 < count_at cs slot \<Longrightarrow>
   \<exists>cs'. count_slot False slot cs = Some cs' \<and> (\<forall>x. count_at cs' x = count_at cs x - (if x = slot then 1 else 0))"
  by (auto simp: count_slot_def Let_def count_at_eq nth_list_update length_grown nth_grown split: if_splits)

lemma count_slots_add:
  "distinct ss \<Longrightarrow> \<exists>cs'. count_slots True ss cs = Some cs' \<and>
     (\<forall>x. count_at cs' x = count_at cs x + (if x \<in> set ss then 1 else 0))"
proof (induction ss arbitrary: cs)
  case (Cons s ss)
  from count_slot_add obtain cs1 where 1: "count_slot True s cs = Some cs1"
    "\<And>x. count_at cs1 x = count_at cs x + (if x = s then 1 else 0)" by metis
  from Cons.IH [of cs1] Cons.prems obtain cs2 where "count_slots True ss cs1 = Some cs2"
    "\<And>x. count_at cs2 x = count_at cs1 x + (if x \<in> set ss then 1 else 0)" by auto
  with 1 Cons.prems show ?case by auto
qed simp

lemma count_slots_sub:
  "distinct ss \<Longrightarrow> (\<And>x. x \<in> set ss \<Longrightarrow> 0 < count_at cs x) \<Longrightarrow> \<exists>cs'. count_slots False ss cs = Some cs' \<and>
     (\<forall>x. count_at cs' x = count_at cs x - (if x \<in> set ss then 1 else 0))"
proof (induction ss arbitrary: cs)
  case (Cons s ss)
  from count_slot_sub [of cs s] Cons.prems obtain cs1 where 1: "count_slot False s cs = Some cs1"
    "\<And>x. count_at cs1 x = count_at cs x - (if x = s then 1 else 0)" by auto
  have "0 < count_at cs1 x" if "x \<in> set ss" for x
    using 1 Cons.prems that by (auto split: if_splits)
  with Cons.IH [of cs1] Cons.prems obtain cs2 where "count_slots False ss cs1 = Some cs2"
    "\<And>x. count_at cs2 x = count_at cs1 x - (if x \<in> set ss then 1 else 0)" by auto
  with 1 Cons.prems show ?case by auto
qed simp

lemma slots_iter_set: "x \<in> set (slots_iter s) \<longleftrightarrow> has_slot s x"
  by (simp add: set_slots_iter slots_def)

lemma slots_iter_distinct: "distinct (slots_iter s)"
  using slots_iter_sorted strict_sorted_iff by blast

lemma count_peers_add:
  "\<exists>E'. count_peers e True E = Some E' \<and> pr_rows E' = pr_rows E \<and> pr_index E' = pr_index E \<and>
     (\<forall>h slot. count_at (counts_of h E') slot = count_at (counts_of h E) slot + (if has_slot (peers_of h e) slot then 1 else 0))"
proof -
  from count_slots_add [OF slots_iter_distinct] obtain a where
    a: "count_slots True (slots_iter (pe_handled e)) (pr_handled_counts E) = Some a"
    "\<forall>x. count_at a x = count_at (pr_handled_counts E) x + (if x \<in> set (slots_iter (pe_handled e)) then 1 else 0)" by metis
  from count_slots_add [OF slots_iter_distinct] obtain b where
    b: "count_slots True (slots_iter (pe_unhandled e)) (pr_unhandled_counts E) = Some b"
    "\<forall>x. count_at b x = count_at (pr_unhandled_counts E) x + (if x \<in> set (slots_iter (pe_unhandled e)) then 1 else 0)" by metis
  from a b show ?thesis by (simp add: count_peers_def counts_of_def peers_of_def slots_iter_set)
qed

lemma count_peers_sub:
  assumes "\<And>h slot. has_slot (peers_of h e) slot \<Longrightarrow> 0 < count_at (counts_of h E) slot"
  shows "\<exists>E'. count_peers e False E = Some E' \<and> pr_rows E' = pr_rows E \<and> pr_index E' = pr_index E \<and>
     (\<forall>h slot. count_at (counts_of h E') slot = count_at (counts_of h E) slot - (if has_slot (peers_of h e) slot then 1 else 0))"
proof -
  from count_slots_sub [OF slots_iter_distinct, of "pe_handled e" "pr_handled_counts E"] assms [of True] obtain a where
    a: "count_slots False (slots_iter (pe_handled e)) (pr_handled_counts E) = Some a"
    "\<forall>x. count_at a x = count_at (pr_handled_counts E) x - (if x \<in> set (slots_iter (pe_handled e)) then 1 else 0)"
    by (auto simp: slots_iter_set peers_of_def counts_of_def)
  from count_slots_sub [OF slots_iter_distinct, of "pe_unhandled e" "pr_unhandled_counts E"] assms [of False] obtain b where
    b: "count_slots False (slots_iter (pe_unhandled e)) (pr_unhandled_counts E) = Some b"
    "\<forall>x. count_at b x = count_at (pr_unhandled_counts E) x - (if x \<in> set (slots_iter (pe_unhandled e)) then 1 else 0)"
    by (auto simp: slots_iter_set peers_of_def counts_of_def)
  from a b show ?thesis by (simp add: count_peers_def counts_of_def peers_of_def slots_iter_set)
qed

section \<open>The operations keep the invariant\<close>

definition entries_ok :: "propagation_entries \<Rightarrow> bool" where
  "entries_ok E \<longleftrightarrow> index_ok (pr_rows E) (pr_index E) \<and> counts_ok E \<and> (\<forall>x \<in> set (stored E). length (fst x) = 32)"

definition upd :: "bytes \<Rightarrow> (propagation_entry \<Rightarrow> propagation_entry) \<Rightarrow> (bytes \<times> propagation_entry) list \<Rightarrow> (bytes \<times> propagation_entry) list" where
  "upd tid f xs = map (\<lambda>(t, e). (t, if t = tid then f e else e)) xs"

lemma no_entries_ok: "entries_ok no_entries"
  by (simp add: entries_ok_def no_entries_def index_ok_def counts_ok_def stored_def counts_of_def count_at_eq hm.inv_empty)

lemma stored_distinct: "entries_ok E \<Longrightarrow> distinct (map fst (stored E))"
  unfolding entries_ok_def stored_def by (blast intro: index_ok_distinct)

lemma entry_count_ok: "entries_ok E \<Longrightarrow> entry_count E = length (stored E)"
  by (simp add: entries_ok_def stored_def entry_count_def index_ok_length)

lemma no_row_ok:
  assumes "entries_ok E" and "row_of tid E = None"
  shows "tid \<notin> fst ` set (stored E)"
proof
  assume "tid \<in> fst ` set (stored E)"
  moreover from assms(1) have ok: "index_ok (pr_rows E) (pr_index E)" "\<forall>x \<in> set (stored E). length (fst x) = 32"
    by (simp_all add: entries_ok_def)
  ultimately have "length tid = 32" "hget (pr_index E) tid \<noteq> None"
    using index_ok_dom [OF ok(1)] by (auto simp: stored_def)
  with assms(2) show False by (simp add: row_of_def)
qed

lemma row_ok:
  assumes "entries_ok E" and "row_of tid E = Some i"
  obtains xs e ys where "row_at i E = Some (Some (tid, e))" and "i < length (pr_rows E)" and "pr_rows E ! i = Some (tid, e)"
    and "stored E = flatten xs @ (tid, e) # flatten ys" and "\<And>row'. (pr_rows E)[i := row'] = xs @ row' # ys"
    and "tid \<notin> fst ` set (flatten xs)" and "tid \<notin> fst ` set (flatten ys)"
proof -
  from assms(2) obtain w where w: "hget (pr_index E) tid = Some w" "unat w = i" by (auto simp: row_of_def split: if_splits)
  with assms(1) obtain e where row: "i < length (pr_rows E)" "pr_rows E ! i = Some (tid, e)"
    using index_okD by (metis entries_ok_def)
  then obtain xs ys where split: "pr_rows E = xs @ Some (tid, e) # ys" "length xs = i" "\<And>row'. (pr_rows E)[i := row'] = xs @ row' # ys"
    by (rule row_split) blast
  then have st: "stored E = flatten xs @ (tid, e) # flatten ys" by (simp add: stored_def)
  with stored_distinct [OF assms(1)] have "tid \<notin> fst ` set (flatten xs)" "tid \<notin> fst ` set (flatten ys)" by auto
  with that split(3) st row show thesis by (simp add: row_at_def nth_opt_def)
qed

lemma map_of_split: "tid \<notin> fst ` set xs \<Longrightarrow> map_of (xs @ (tid, e) # ys) tid = Some e"
  by (induction xs) auto

lemma get_entry_ok:
  assumes "entries_ok E"
  shows "get_entry tid E = Some (map_of (stored E) tid)"
proof (cases "row_of tid E")
  case None
  with no_row_ok [OF assms None] have "map_of (stored E) tid = None" by (simp add: map_of_eq_None_iff)
  with None show ?thesis by (simp add: get_entry_def)
next
  case (Some i)
  from row_ok [OF assms Some] show ?thesis
    by (metis (no_types, lifting) Some get_entry_def map_of_split option.simps(5) option.simps(9) snd_conv)
qed

lemma insert_entry_ok:
  assumes "entries_ok E" and "length tid = 32" and "length (pr_rows E) < 2 ^ 32"
  shows "\<exists>E'. insert_entry tid e E = Some (tid \<notin> fst ` set (stored E), E') \<and> entries_ok E' \<and>
    stored E' = (if tid \<in> fst ` set (stored E) then stored E else stored E @ [(tid, e)]) \<and>
    length (pr_rows E') \<le> Suc (length (pr_rows E))"
proof (cases "hget (pr_index E) tid")
  case (Some w)
  with assms(1) have "tid \<in> fst ` set (stored E)" by (metis entries_ok_def index_ok_dom option.distinct(1) stored_def)
  with Some assms(1) show ?thesis by (simp add: insert_entry_def)
next
  case None
  with assms(1) have new: "tid \<notin> fst ` set (stored E)" by (metis entries_ok_def index_ok_dom stored_def)
  from count_peers_add [of e E] obtain E1 where E1: "count_peers e True E = Some E1" "pr_rows E1 = pr_rows E" "pr_index E1 = pr_index E"
    "\<And>h slot. count_at (counts_of h E1) slot = count_at (counts_of h E) slot + (if has_slot (peers_of h e) slot then 1 else 0)"
    by blast
  let ?E' = "E1\<lparr>pr_index := hput tid (of_nat (length (pr_rows E))) (pr_index E), pr_rows := pr_rows E @ [Some (tid, e)]\<rparr>"
  have st: "stored ?E' = stored E @ [(tid, e)]" by (simp add: stored_def)
  have "index_ok (pr_rows ?E') (pr_index ?E')"
    using index_ok_append [OF _ None assms(3)] assms(1) by (simp add: entries_ok_def)
  moreover have "counts_ok ?E'"
    using assms(1) E1(4) st unfolding counts_ok_def entries_ok_def
    by simp
  ultimately have "entries_ok ?E'" using assms(1,2) st by (auto simp: entries_ok_def)
  with E1 None new st show ?thesis by (simp add: insert_entry_def)
qed

lemma holding_remove: "holding h slot (xs @ x # ys) = holding h slot (xs @ ys) + (if has_slot (peers_of h (snd x)) slot then 1 else 0)"
  by simp

lemma filter_other: "tid \<notin> fst ` set xs \<Longrightarrow> filter (\<lambda>x. fst x \<noteq> tid) xs = xs"
  by (rule filter_True) force

lemma filter_named: "tid \<notin> fst ` set xs \<Longrightarrow> tid \<notin> fst ` set ys \<Longrightarrow> filter (\<lambda>x. fst x \<noteq> tid) (xs @ (tid, e) # ys) = xs @ ys"
  by (simp add: filter_other)

lemma compact_ok:
  assumes "entries_ok E"
  shows "entries_ok (compact E) \<and> stored (compact E) = stored E \<and> length (pr_rows (compact E)) \<le> length (pr_rows E)"
proof -
  let ?es = "stored E"
  from assms have ok: "index_ok (pr_rows E) (pr_index E)" by (simp add: entries_ok_def)
  have rows: "pr_rows (compact E) = map Some ?es" "pr_index (compact E) = reindex 0 ?es (pr_index E)"
    unfolding compact_def Let_def filter_stored_rows stored_def by simp_all
  have len: "length ?es \<le> length (pr_rows E)" by (metis filter_stored_rows length_filter_le length_map stored_def)
  have "fst ` set ?es = dom (hget (pr_index E))" using index_ok_dom [OF ok] by (auto simp: dom_def stored_def)
  with index_ok_compacted [of "pr_index E" ?es] ok stored_distinct [OF assms] len
  have "index_ok (map Some ?es) (reindex 0 ?es (pr_index E))" by (simp add: index_ok_def)
  moreover have st: "stored (compact E) = ?es" by (simp add: stored_def [of "compact E"] rows)
  moreover have "counts_of h (compact E) = counts_of h E" for h by (simp add: compact_def Let_def counts_of_def)
  ultimately show ?thesis using assms len by (simp add: entries_ok_def counts_ok_def rows)
qed

lemma remove_entry_ok:
  assumes "entries_ok E"
  shows "\<exists>E'. remove_entry tid E = Some (map_of (stored E) tid, E') \<and> entries_ok E' \<and>
    stored E' = filter (\<lambda>x. fst x \<noteq> tid) (stored E) \<and> length (pr_rows E') \<le> length (pr_rows E)"
proof (cases "row_of tid E")
  case None
  from no_row_ok [OF assms None] have "map_of (stored E) tid = None" "filter (\<lambda>x. fst x \<noteq> tid) (stored E) = stored E"
    by (simp_all add: map_of_eq_None_iff filter_other)
  moreover from None have "remove_entry tid E = Some (None, E)" by (auto simp: row_of_def remove_entry_def split: if_splits)
  ultimately show ?thesis using assms by simp
next
  case (Some i)
  obtain xs e ys where r: "row_at i E = Some (Some (tid, e))" "i < length (pr_rows E)"
    "pr_rows E ! i = Some (tid, e)" "stored E = flatten xs @ (tid, e) # flatten ys" "\<And>row'. (pr_rows E)[i := row'] = xs @ row' # ys"
    "tid \<notin> fst ` set (flatten xs)" "tid \<notin> fst ` set (flatten ys)"
    by (rule row_ok [OF assms Some]) (rule that, assumption+)
  from Some obtain w where w: "length tid = 32" "hget (pr_index E) tid = Some w" "unat w = i"
    by (auto simp: row_of_def split: if_splits)
  from assms have ok: "index_ok (pr_rows E) (pr_index E)" "counts_ok E" "\<forall>x \<in> set (stored E). length (fst x) = 32"
    by (simp_all add: entries_ok_def)
  let ?E1 = "E\<lparr>pr_index := hdel tid (pr_index E), pr_rows := (pr_rows E)[i := None]\<rparr>"
  have st: "stored ?E1 = flatten xs @ flatten ys" by (simp add: r(5))
  have "0 < count_at (counts_of h ?E1) slot" if "has_slot (peers_of h e) slot" for h slot
    using ok(2) r(4) that by (simp add: counts_ok_def)
  from count_peers_sub [of e ?E1, OF this] obtain E2 where E2: "count_peers e False ?E1 = Some E2" "pr_rows E2 = pr_rows ?E1"
    "pr_index E2 = pr_index ?E1"
    "\<And>h slot. count_at (counts_of h E2) slot = count_at (counts_of h ?E1) slot - (if has_slot (peers_of h e) slot then 1 else 0)"
    by blast
  have st2: "stored E2 = flatten xs @ flatten ys" using st E2(2) by (simp add: stored_def)
  have "index_ok (pr_rows E2) (pr_index E2)" using index_ok_remove [OF ok(1) w(2)] w(3) E2 by simp
  moreover have "counts_ok E2" using ok(2) r(4) st2 E2(4) by (auto simp: counts_ok_def)
  moreover have "\<forall>x \<in> set (stored E2). length (fst x) = 32" using ok(3) r(4) st2 by auto
  ultimately have E2_ok: "entries_ok E2" by (simp add: entries_ok_def)
  from E2_ok have "length (pr_index E2) = length (stored E2)" using entry_count_ok by (simp add: entry_count_def)
  moreover have "length (stored E2) \<le> length (pr_rows E2)" by (metis filter_stored_rows length_filter_le length_map stored_def)
  ultimately have le: "\<not> length (pr_rows E2) < entry_count E2" by (simp add: entry_count_def)
  let ?E3 = "if 1024 < length (pr_rows E2) - entry_count E2 \<and> entry_count E2 < length (pr_rows E2) - entry_count E2 then compact E2 else E2"
  have "remove_entry tid E = Some (Some e, ?E3)"
    using w r(1) E2(1) le by (simp add: remove_entry_def row_at_def Let_def)
  moreover have "entries_ok ?E3 \<and> stored ?E3 = stored E2 \<and> length (pr_rows ?E3) \<le> length (pr_rows E2)"
    using compact_ok [OF E2_ok] E2_ok by auto
  moreover have "length (pr_rows E2) = length (pr_rows E)" using E2(2) by simp
  ultimately obtain E3 where "remove_entry tid E = Some (Some e, E3)" "entries_ok E3" "stored E3 = stored E2"
    "length (pr_rows E3) \<le> length (pr_rows E)" by metis
  moreover have "map_of (stored E) tid = Some e" unfolding r(4) using r(6) by (rule map_of_split)
  moreover have "filter (\<lambda>x. fst x \<noteq> tid) (stored E) = stored E2" unfolding r(4) st2 using r(6,7) by (rule filter_named)
  ultimately show ?thesis by simp
qed

lemma upd_other: "tid \<notin> fst ` set xs \<Longrightarrow> upd tid f xs = xs"
  by (induction xs) (auto simp: upd_def)

lemma upd_append: "upd tid f (xs @ ys) = upd tid f xs @ upd tid f ys"
  by (simp add: upd_def)

lemma upd_id: "(\<And>e. (tid, e) \<in> set xs \<Longrightarrow> f e = e) \<Longrightarrow> upd tid f xs = xs"
  unfolding upd_def by (rule map_idI) auto

lemma upd_named: "tid \<notin> fst ` set xs \<Longrightarrow> tid \<notin> fst ` set ys \<Longrightarrow> upd tid f (xs @ (tid, e) # ys) = xs @ (tid, f e) # ys"
proof -
  assume a: "tid \<notin> fst ` set xs" "tid \<notin> fst ` set ys"
  have "upd tid f ((tid, e) # ys) = (tid, f e) # upd tid f ys" by (simp add: upd_def)
  with a show ?thesis by (simp add: upd_append upd_other)
qed

lemma peers_of_set [simp]: "peers_of h (set_peers h' s e) = (if h = h' then s else peers_of h e)"
  by (auto simp: peers_of_def set_peers_def)

lemma set_peers_same [simp]: "set_peers h (peers_of h e) e = e"
  by (simp add: peers_of_def set_peers_def)

definition marked :: "nat \<Rightarrow> bool \<Rightarrow> bool \<Rightarrow> propagation_entry \<Rightarrow> propagation_entry" where
  "marked slot handled on e = set_peers handled (snd ((if on then insert_slot else remove_slot) slot (peers_of handled e))) e"

lemma slot_op_changed:
  "(if on then insert_slot else remove_slot) slot s = (changed, s') \<Longrightarrow>
   (changed \<longleftrightarrow> has_slot s slot \<noteq> on) \<and> (\<not> changed \<longrightarrow> s' = s) \<and> (\<forall>x. has_slot s' x \<longleftrightarrow> (if x = slot then on else has_slot s x))"
proof -
  assume op: "(if on then insert_slot else remove_slot) slot s = (changed, s')"
  show ?thesis
  proof (cases on)
    case True
    with op have op: "insert_slot slot s = (changed, s')" by simp
    then have "changed \<longleftrightarrow> \<not> has_slot s slot" "\<not> changed \<longrightarrow> s' = s"
      by (auto simp: insert_slot_def Let_def split: if_splits)
    with has_insert_slot [of slot s] op True show ?thesis by auto
  next
    case False
    with op have op: "remove_slot slot s = (changed, s')" by simp
    then have "changed \<longleftrightarrow> has_slot s slot" "\<not> changed \<longrightarrow> s' = s"
      by (auto simp: remove_slot_def Let_def split: if_splits)
    with has_remove_slot [of slot s] op False show ?thesis by auto
  qed
qed

lemma count_slot_ok:
  assumes "\<not> on \<longrightarrow> 0 < count_at cs slot"
  shows "\<exists>cs'. count_slot on slot cs = Some cs' \<and>
    (\<forall>x. count_at cs' x = (if x = slot then if on then count_at cs x + 1 else count_at cs x - 1 else count_at cs x))"
  using count_slot_add [of slot cs] count_slot_sub [of cs slot] assms by (cases on) fastforce+

lemma mark_ok:
  assumes "entries_ok E"
  shows "\<exists>changed E'. mark slot tid handled on E = Some (changed, E') \<and> entries_ok E' \<and>
    stored E' = upd tid (marked slot handled on) (stored E) \<and> length (pr_rows E') = length (pr_rows E) \<and>
    (changed \<longleftrightarrow> (\<exists>e. map_of (stored E) tid = Some e \<and> has_slot (peers_of handled e) slot \<noteq> on))"
proof (cases "row_of tid E")
  case None
  from no_row_ok [OF assms None] have "map_of (stored E) tid = None" "upd tid (marked slot handled on) (stored E) = stored E"
    by (simp_all add: map_of_eq_None_iff upd_other)
  with None assms show ?thesis by (auto simp: mark_def)
next
  case (Some i)
  obtain xs e ys where r: "row_at i E = Some (Some (tid, e))" "i < length (pr_rows E)"
    "pr_rows E ! i = Some (tid, e)" "stored E = flatten xs @ (tid, e) # flatten ys" "\<And>row'. (pr_rows E)[i := row'] = xs @ row' # ys"
    "tid \<notin> fst ` set (flatten xs)" "tid \<notin> fst ` set (flatten ys)"
    by (rule row_ok [OF assms Some]) (rule that, assumption+)
  have look: "map_of (stored E) tid = Some e" unfolding r(4) using r(6) by (rule map_of_split)
  have upd: "upd tid f (stored E) = flatten xs @ (tid, f e) # flatten ys" for f unfolding r(4) using r(6,7) by (rule upd_named)
  from assms have ok: "index_ok (pr_rows E) (pr_index E)" "counts_ok E" "\<forall>x \<in> set (stored E). length (fst x) = 32"
    by (simp_all add: entries_ok_def)
  obtain changed s where op: "(if on then insert_slot else remove_slot) slot (peers_of handled e) = (changed, s)" by (metis surj_pair)
  note sl = slot_op_changed [OF op]
  have me: "marked slot handled on e = set_peers handled s e" by (simp add: marked_def op)
  show ?thesis
  proof (cases changed)
    case False
    with sl me have "marked slot handled on e = e" by simp
    with upd r(4) have "upd tid (marked slot handled on) (stored E) = stored E" by simp
    moreover from False sl have "has_slot (peers_of handled e) slot = on" by simp
    moreover from False op Some r(1) have "mark slot tid handled on E = Some (False, E)" by (simp add: mark_def)
    ultimately show ?thesis using assms look by auto
  next
    case True
    have "\<not> on \<longrightarrow> 0 < count_at (counts_of handled E) slot" using True sl ok(2) r(4) by (auto simp: counts_ok_def)
    from count_slot_ok [OF this] obtain cs where cs: "count_slot on slot (counts_of handled E) = Some cs"
      "\<And>x. count_at cs x = (if x = slot then if on then count_at (counts_of handled E) x + 1 else count_at (counts_of handled E) x - 1
         else count_at (counts_of handled E) x)" by blast
    let ?E' = "set_counts handled cs (E\<lparr>pr_rows := (pr_rows E)[i := Some (tid, set_peers handled s e)]\<rparr>)"
    have run: "mark slot tid handled on E = Some (True, ?E')" using True op Some r(1) cs(1) by (simp add: mark_def)
    have st: "stored ?E' = flatten xs @ (tid, set_peers handled s e) # flatten ys" by (simp add: r(5))
    have "map (map_option fst) ((pr_rows E)[i := Some (tid, set_peers handled s e)]) = map (map_option fst) (pr_rows E)"
      using r(2,3) by (simp add: map_update list_update_same_conv)
    from index_ok_same_ids [OF ok(1) this] have "index_ok (pr_rows ?E') (pr_index ?E')" by simp
    moreover have "counts_ok ?E'"
      unfolding counts_ok_def
    proof (intro allI)
      fix h x
      have old: "count_at (counts_of h E) x = holding h x (flatten xs @ (tid, e) # flatten ys)" using ok(2) r(4) by (simp add: counts_ok_def)
      show "count_at (counts_of h ?E') x = holding h x (stored ?E')"
        using sl True old cs(2) [of x] unfolding st by (cases "h = handled"; cases "x = slot"; cases on) auto
    qed
    moreover have "\<forall>x \<in> set (stored ?E'). length (fst x) = 32" using ok(3) r(4) st by auto
    ultimately have "entries_ok ?E'" by (simp add: entries_ok_def)
    with run st upd me look sl True show ?thesis by auto
  qed
qed

lemma upd_ids: "map fst (upd tid f xs) = map fst xs"
  by (simp add: upd_def case_prod_unfold)

lemma map_of_upd: "map_of (upd tid f xs) tid = map_option f (map_of xs tid)"
  by (induction xs) (auto simp: upd_def)

lemma upd_upd: "upd tid g (upd tid f xs) = upd tid (g \<circ> f) xs"
  by (simp add: upd_def case_prod_unfold)

lemma upd_cong: "(\<And>e. map_of xs tid = Some e \<Longrightarrow> f e = g e) \<Longrightarrow> distinct (map fst xs) \<Longrightarrow> upd tid f xs = upd tid g xs"
  unfolding upd_def by (intro map_cong refl) auto

lemma mark_handled_ok:
  assumes "entries_ok E"
  shows "\<exists>E'. mark_handled slot tid E = Some E' \<and> entries_ok E' \<and> length (pr_rows E') = length (pr_rows E) \<and>
    stored E' = upd tid (marked slot True True \<circ> marked slot False False) (stored E)"
proof -
  from mark_ok [OF assms, of slot tid False False] obtain c E1 where 1: "mark slot tid False False E = Some (c, E1)" "entries_ok E1"
    "stored E1 = upd tid (marked slot False False) (stored E)" "length (pr_rows E1) = length (pr_rows E)" by blast
  from mark_ok [OF 1(2), of slot tid True True] obtain c' E2 where "mark slot tid True True E1 = Some (c', E2)" "entries_ok E2"
    "stored E2 = upd tid (marked slot True True) (stored E1)" "length (pr_rows E2) = length (pr_rows E1)" by blast
  with 1 show ?thesis by (simp add: mark_handled_def remove_unhandled_message_def add_handled_message_def upd_upd)
qed

lemma queue_unhandled_ok:
  assumes "entries_ok E"
  shows "\<exists>b E'. queue_unhandled slot tid E = Some (b, E') \<and> entries_ok E' \<and> length (pr_rows E') = length (pr_rows E) \<and>
    stored E' = upd tid (\<lambda>e. if has_slot (pe_handled e) slot then e else marked slot False True e) (stored E)"
proof -
  note dist = stored_distinct [OF assms]
  show ?thesis
  proof (cases "is_handled slot tid E = Some True")
    case True
    then obtain e where e: "map_of (stored E) tid = Some e" "has_slot (pe_handled e) slot"
      by (auto simp: is_handled_def get_entry_ok [OF assms] split: option.splits)
    have "upd tid (\<lambda>e. if has_slot (pe_handled e) slot then e else marked slot False True e) (stored E) = upd tid (\<lambda>e. e) (stored E)"
      using e dist by (intro upd_cong) auto
    moreover have "upd tid (\<lambda>e. e) (stored E) = stored E" by (rule upd_id) simp
    ultimately show ?thesis using True assms by (auto simp: queue_unhandled_def)
  next
    case False
    then have no: "is_handled slot tid E = Some False" by (auto simp: is_handled_def get_entry_ok [OF assms])
    have "upd tid (\<lambda>e. if has_slot (pe_handled e) slot then e else marked slot False True e) (stored E) =
        upd tid (marked slot False True) (stored E)"
      using no dist by (intro upd_cong) (auto simp: is_handled_def get_entry_ok [OF assms])
    with mark_ok [OF assms, of slot tid False True] no show ?thesis
      by (auto simp: queue_unhandled_def add_unhandled_message_def)
  qed
qed

definition forgotten :: "nat \<Rightarrow> propagation_entry \<Rightarrow> propagation_entry" where
  "forgotten slot e = e\<lparr>pe_handled := snd (remove_slot slot (pe_handled e)), pe_unhandled := snd (remove_slot slot (pe_unhandled e))\<rparr>"

lemma flatten_map_option: "flatten (map (map_option f) rows) = map f (flatten rows)"
  by (induction rows rule: flatten.induct) simp_all

lemma remove_slot_absent: "\<not> has_slot s slot \<Longrightarrow> snd (remove_slot slot s) = s"
  by (simp add: remove_slot_def)

lemma peers_forgotten: "peers_of h (forgotten slot e) = snd (remove_slot slot (peers_of h e))"
  by (simp add: peers_of_def forgotten_def)

lemma holding_zero: "holding h slot xs = 0 \<longleftrightarrow> (\<forall>x \<in> set xs. \<not> has_slot (peers_of h (snd x)) slot)"
  by (auto simp: holding_def filter_empty_conv)

lemma holding_forgotten: "holding h x (map (map_prod id (forgotten slot)) xs) = (if x = slot then 0 else holding h x xs)"
  by (induction xs) (auto simp: peers_forgotten has_remove_slot)

lemma count_at_zeroed: "count_at (cs[slot := 0]) x = (if x = slot then 0 else count_at cs x)"
  by (simp add: count_at_eq)

lemma forget_peer_ok:
  assumes "entries_ok E"
  shows "entries_ok (forget_peer slot E) \<and> stored (forget_peer slot E) = map (map_prod id (forgotten slot)) (stored E) \<and>
    length (pr_rows (forget_peer slot E)) = length (pr_rows E)"
proof (cases "handled_message_count slot E = 0 \<and> unhandled_message_count slot E = 0")
  case True
  then have zero: "count_at (counts_of h E) slot = 0" for h
    by (simp add: handled_message_count_def unhandled_message_count_def count_at_def counts_of_def)
  with assms have "holding h slot (stored E) = 0" for h by (metis entries_ok_def counts_ok_def)
  then have all: "\<forall>x \<in> set (stored E). \<not> has_slot (peers_of h (snd x)) slot" for h by (simp add: holding_zero)
  have no: "\<not> has_slot (pe_handled e) slot" "\<not> has_slot (pe_unhandled e) slot" if "(t, e) \<in> set (stored E)" for t e
    using all [of True] all [of False] that by (force simp: peers_of_def)+
  then have "map (map_prod id (forgotten slot)) (stored E) = stored E"
    by (intro map_idI) (auto simp: forgotten_def remove_slot_absent)
  with True assms show ?thesis by (simp add: forget_peer_def)
next
  case False
  let ?E' = "E\<lparr>pr_rows := map (map_option (map_prod id (forgotten slot))) (pr_rows E),
    pr_handled_counts := (pr_handled_counts E)[slot := 0], pr_unhandled_counts := (pr_unhandled_counts E)[slot := 0]\<rparr>"
  have run: "forget_peer slot E = ?E'" using False by (simp only: forget_peer_def forgotten_def [abs_def] if_False)
  have st: "stored ?E' = map (map_prod id (forgotten slot)) (stored E)" by (simp add: stored_def flatten_map_option)
  have ids: "map (map_option fst) (map (map_option (map_prod id (forgotten slot))) (pr_rows E)) = map (map_option fst) (pr_rows E)"
    by (simp add: option.map_comp comp_def)
  from assms have "index_ok (pr_rows E) (pr_index E)" by (simp add: entries_ok_def)
  from index_ok_same_ids [OF this ids] have "index_ok (pr_rows ?E') (pr_index ?E')" by simp
  moreover have "counts_ok ?E'"
    unfolding counts_ok_def st holding_forgotten
  proof (intro allI)
    fix h x
    have "counts_of h ?E' = (counts_of h E)[slot := 0]" by (simp add: counts_of_def)
    moreover have "count_at (counts_of h E) x = holding h x (stored E)" using assms by (simp add: entries_ok_def counts_ok_def)
    ultimately show "count_at (counts_of h ?E') x = (if x = slot then 0 else holding h x (stored E))"
      by (simp add: count_at_zeroed)
  qed
  moreover have "\<forall>x \<in> set (stored ?E'). length (fst x) = 32" using assms unfolding st by (auto simp: entries_ok_def)
  ultimately show ?thesis unfolding run st entries_ok_def by simp
qed

lemma holding_mset: "mset xs = mset ys \<Longrightarrow> holding h slot xs = holding h slot ys"
  by (metis holding_def mset_filter size_mset)

lemma sort_by_received_ok:
  assumes "entries_ok E"
  shows "entries_ok (sort_by_received E) \<and> length (pr_rows (sort_by_received E)) \<le> length (pr_rows E) \<and>
    stored (sort_by_received E) = sort_key (\<lambda>(tid, e). (pe_received e, tid)) (stored E)"
proof -
  let ?es = "sort_key (\<lambda>(tid, e). (pe_received e, tid)) (stored E)"
  let ?m = "pr_index E"
  have sorted: "pr_rows (sort_by_received E) = map Some ?es" "pr_index (sort_by_received E) = reindex 0 ?es ?m"
    unfolding sort_by_received_def compact_def Let_def filter_stored_rows by simp_all
  from assms have ok: "index_ok (pr_rows E) ?m" by (simp add: entries_ok_def)
  have len: "length (stored E) \<le> length (pr_rows E)" by (metis filter_stored_rows length_filter_le length_map stored_def)
  have ids: "distinct (map fst ?es)"
    using stored_distinct [OF assms] by (simp add: distinct_map)
  have "fst ` set ?es = dom (hget ?m)" using index_ok_dom [OF ok] by (auto simp: dom_def stored_def)
  with index_ok_compacted [of ?m ?es] ok ids len have "index_ok (map Some ?es) (reindex 0 ?es ?m)" by (simp add: index_ok_def)
  moreover have st: "stored (sort_by_received E) = ?es" by (simp add: stored_def [of "sort_by_received E"] sorted)
  moreover have "counts_of h (sort_by_received E) = counts_of h E" for h
    by (simp add: sort_by_received_def compact_def Let_def counts_of_def)
  moreover have "holding h slot ?es = holding h slot (stored E)" for h slot by (rule holding_mset) simp
  ultimately show ?thesis using assms len by (simp add: entries_ok_def counts_ok_def sorted)
qed

section \<open>Properties\<close>

datatype entries_op =
    InsertEntry bytes propagation_entry
  | RemoveEntry bytes
  | AddHandled nat bytes
  | AddUnhandled nat bytes
  | RemoveUnhandled nat bytes
  | QueueUnhandled nat bytes
  | MarkHandled nat bytes
  | ForgetPeer nat
  | SortByReceived

fun run_op :: "entries_op \<Rightarrow> propagation_entries \<Rightarrow> propagation_entries option" where
  "run_op (InsertEntry tid e) E = map_option snd (insert_entry tid e E)"
| "run_op (RemoveEntry tid) E = map_option snd (remove_entry tid E)"
| "run_op (AddHandled slot tid) E = map_option snd (add_handled_message slot tid E)"
| "run_op (AddUnhandled slot tid) E = map_option snd (add_unhandled_message slot tid E)"
| "run_op (RemoveUnhandled slot tid) E = map_option snd (remove_unhandled_message slot tid E)"
| "run_op (QueueUnhandled slot tid) E = map_option snd (queue_unhandled slot tid E)"
| "run_op (MarkHandled slot tid) E = mark_handled slot tid E"
| "run_op (ForgetPeer slot) E = Some (forget_peer slot E)"
| "run_op SortByReceived E = Some (sort_by_received E)"

fun run_ops :: "entries_op list \<Rightarrow> propagation_entries \<Rightarrow> propagation_entries option" where
  "run_ops [] E = Some E"
| "run_ops (a # ops) E = (case run_op a E of None \<Rightarrow> None | Some E' \<Rightarrow> run_ops ops E')"

text \<open>The reference: a plain list of messages, each with two sets of slots.\<close>

fun list_op :: "entries_op \<Rightarrow> (bytes \<times> propagation_entry) list \<Rightarrow> (bytes \<times> propagation_entry) list" where
  "list_op (InsertEntry tid e) xs = (if tid \<in> fst ` set xs then xs else xs @ [(tid, e)])"
| "list_op (RemoveEntry tid) xs = filter (\<lambda>x. fst x \<noteq> tid) xs"
| "list_op (AddHandled slot tid) xs = upd tid (marked slot True True) xs"
| "list_op (AddUnhandled slot tid) xs = upd tid (marked slot False True) xs"
| "list_op (RemoveUnhandled slot tid) xs = upd tid (marked slot False False) xs"
| "list_op (QueueUnhandled slot tid) xs =
     upd tid (\<lambda>e. if has_slot (pe_handled e) slot then e else marked slot False True e) xs"
| "list_op (MarkHandled slot tid) xs = upd tid (marked slot True True \<circ> marked slot False False) xs"
| "list_op (ForgetPeer slot) xs = map (map_prod id (forgotten slot)) xs"
| "list_op SortByReceived xs = sort_key (\<lambda>(tid, e). (pe_received e, tid)) xs"

fun well_typed :: "entries_op \<Rightarrow> bool" where
  "well_typed (InsertEntry tid _) \<longleftrightarrow> length tid = 32"
| "well_typed _ \<longleftrightarrow> True"

lemma run_op_ok:
  assumes "entries_ok E" and "well_typed a" and "length (pr_rows E) < 2 ^ 32"
  shows "\<exists>E'. run_op a E = Some E' \<and> entries_ok E' \<and> stored E' = list_op a (stored E) \<and>
    length (pr_rows E') \<le> Suc (length (pr_rows E))"
proof (cases a)
  case (InsertEntry tid e)
  with assms(2) have "length tid = 32" by simp
  from insert_entry_ok [OF assms(1) this assms(3), of e] obtain E' where
    "insert_entry tid e E = Some (tid \<notin> fst ` set (stored E), E')" "entries_ok E'"
    "stored E' = list_op a (stored E)" "length (pr_rows E') \<le> Suc (length (pr_rows E))"
    unfolding InsertEntry list_op.simps by blast
  then show ?thesis by (simp add: InsertEntry)
next
  case (RemoveEntry tid)
  with remove_entry_ok [OF assms(1), of tid] show ?thesis by auto
next
  case (AddHandled slot tid)
  with mark_ok [OF assms(1), of slot tid True True] show ?thesis by (auto simp: add_handled_message_def)
next
  case (AddUnhandled slot tid)
  with mark_ok [OF assms(1), of slot tid False True] show ?thesis by (auto simp: add_unhandled_message_def)
next
  case (RemoveUnhandled slot tid)
  with mark_ok [OF assms(1), of slot tid False False] show ?thesis by (auto simp: remove_unhandled_message_def)
next
  case (QueueUnhandled slot tid)
  with queue_unhandled_ok [OF assms(1), of slot tid] show ?thesis by auto
next
  case (MarkHandled slot tid)
  with mark_handled_ok [OF assms(1), of slot tid] show ?thesis by auto
next
  case (ForgetPeer slot)
  with forget_peer_ok [OF assms(1), of slot] show ?thesis by auto
next
  case SortByReceived
  with sort_by_received_ok [OF assms(1)] show ?thesis by auto
qed

lemma run_ops_ok:
  "entries_ok E \<Longrightarrow> \<forall>a \<in> set ops. well_typed a \<Longrightarrow> length (pr_rows E) + length ops \<le> 2 ^ 32 \<Longrightarrow>
   \<exists>E'. run_ops ops E = Some E' \<and> entries_ok E' \<and> stored E' = fold list_op ops (stored E)"
proof (induction ops arbitrary: E)
  case (Cons a ops)
  from run_op_ok [OF Cons.prems(1)] Cons.prems(2,3) obtain E1 where E1: "run_op a E = Some E1" "entries_ok E1"
    "stored E1 = list_op a (stored E)" "length (pr_rows E1) \<le> Suc (length (pr_rows E))" by fastforce
  moreover from E1(4) Cons.prems(3) have "length (pr_rows E1) + length ops \<le> 2 ^ 32" by simp
  ultimately show ?case using Cons.IH [of E1] Cons.prems(2) by simp
qed simp

lemma counts_by_list:
  "entries_ok E \<Longrightarrow> handled_message_count slot E = length (handled_messages slot E) \<and>
     unhandled_message_count slot E = length (unhandled_messages slot E)"
proof -
  assume "entries_ok E"
  then have "count_at (counts_of h E) slot = holding h slot (stored E)" for h by (simp add: entries_ok_def counts_ok_def)
  from this [of True] this [of False] show ?thesis
    by (simp add: counts_of_def count_at_def handled_message_count_def unhandled_message_count_def holding_def peers_of_def
        handled_messages_def unhandled_messages_def)
qed

text \<open>
  C38: the stored messages are a list with exact counts, and no operation on them panics.
  Whatever is stored, removed, marked, queued, forgotten or sorted, in any order (up to
  \<open>2 ^ 32\<close> operations, the range of a row number), the rows, the index and its compactions
  hold exactly the messages a plain list of them would, in its order; looking an id up finds
  its message; and for every peer slot the counts kept are the numbers of messages it is
  handled and unhandled for.
\<close>

theorem entries_refine_list:
  assumes "\<forall>a \<in> set ops. well_typed a" and "length ops \<le> 2 ^ 32"
  shows "\<exists>E. run_ops ops no_entries = Some E \<and> stored E = fold list_op ops [] \<and>
    entry_count E = length (stored E) \<and> (\<forall>tid. get_entry tid E = Some (map_of (stored E) tid)) \<and>
    (\<forall>slot. handled_message_count slot E = length (handled_messages slot E) \<and>
       unhandled_message_count slot E = length (unhandled_messages slot E))"
proof -
  have "stored no_entries = []" "pr_rows no_entries = []" by (simp_all add: no_entries_def stored_def)
  with run_ops_ok [OF no_entries_ok assms(1)] assms(2) obtain E where
    "run_ops ops no_entries = Some E" "entries_ok E" "stored E = fold list_op ops []" by auto
  then show ?thesis using entry_count_ok get_entry_ok counts_by_list by blast
qed

text \<open>Two messages, a mark past the first word, a removal and a sort.\<close>

definition witness_entry :: "secs \<Rightarrow> propagation_entry" where
  "witness_entry t = new_entry [7] t 100 16"

definition witness_ops :: "entries_op list" where
  "witness_ops = [InsertEntry (replicate 32 1) (witness_entry 2), InsertEntry (replicate 32 2) (witness_entry 1),
     QueueUnhandled 70 (replicate 32 2), MarkHandled 3 (replicate 32 1), RemoveEntry (replicate 32 1), SortByReceived]"

lemma entries_refine_list_witness:
  "\<exists>E. run_ops witness_ops no_entries = Some E \<and> entry_count E = 1 \<and> unhandled_message_count 70 E = 1"
proof -
  from entries_refine_list [of witness_ops] obtain E where E: "run_ops witness_ops no_entries = Some E"
    "stored E = fold list_op witness_ops []" "entry_count E = length (stored E)"
    "unhandled_message_count 70 E = length (unhandled_messages 70 E)"
    by (auto simp: witness_ops_def)
  have "(replicate 32 (1 :: u8)) \<noteq> replicate 32 2" by (simp add: replicate_eq_replicate)
  then have "stored E = [(replicate 32 2, marked 70 False True (witness_entry 1))]"
    unfolding E(2) witness_ops_def by (auto simp: upd_def witness_entry_def new_entry_def empty_slots_def has_slot_def nth_opt_def)
  moreover have "has_slot (peers_of False (marked 70 False True e)) 70" for e
    using has_insert_slot by (simp add: marked_def)
  ultimately show ?thesis using E by (auto simp: unhandled_messages_def peers_of_def)
qed

end
