(* ===== verification/LocallyProcessed.thy ===== *)
theory LocallyProcessed
  imports RFed_Prelude
begin

text \<open>
  \<open>LocallyProcessed\<close> of \<open>rfed/src/lxmf_propagation.rs\<close>: the ids of the messages stored here in
  the last six months, the newest in a map and each day before in a run sorted by id, and the
  file they are saved in. A received time is kept in whole seconds below \<open>2 ^ 32\<close>.
\<close>

section \<open>State\<close>

record processed_run =
  rn_records :: "(bytes \<times> nat) list"
  rn_oldest :: nat
  rn_newest :: nat

record locally_processed =
  lp_recent :: "(bytes, nat) hmap"
  lp_recent_oldest :: "nat option"
  lp_runs :: "processed_run list"

definition none_processed :: locally_processed where
  "none_processed = \<lparr>lp_recent = [], lp_recent_oldest = None, lp_runs = []\<rparr>"

definition LOCALLY_PROCESSED_EXPIRY_SECS :: secs where
  "LOCALLY_PROCESSED_EXPIRY_SECS = 6 * 30 * 24 * 3600"

definition RUN_SECS :: secs where
  "RUN_SECS = 86400"

definition whole_seconds :: "secs \<Rightarrow> nat" where
  "whole_seconds t = nat \<lfloor>min (max t 0) (2 ^ 32 - 1)\<rfloor>"

section \<open>Runs\<close>

text \<open>\<open>iter().min()\<close> and \<open>iter().max()\<close>.\<close>

fun min_opt :: "nat list \<Rightarrow> nat option" where
  "min_opt [] = None"
| "min_opt (x # xs) = Some (fold min xs x)"

fun max_opt :: "nat list \<Rightarrow> nat option" where
  "max_opt [] = None"
| "max_opt (x # xs) = Some (fold max xs x)"

text \<open>\<open>dedup_by\<close> the id: the first of each group of neighbours stays.\<close>

fun dedup_ids :: "(bytes \<times> nat) list \<Rightarrow> (bytes \<times> nat) list" where
  "dedup_ids [] = []"
| "dedup_ids [x] = [x]"
| "dedup_ids (x # y # xs) = (if fst x = fst y then dedup_ids (x # xs) else x # dedup_ids (y # xs))"

definition new_run :: "(bytes \<times> nat) list \<Rightarrow> processed_run option" where
  "new_run records =
     (let rs = dedup_ids (sort_key fst records)
      in case min_opt (map snd rs) of
           None \<Rightarrow> None
         | Some oldest \<Rightarrow> (case max_opt (map snd rs) of
             None \<Rightarrow> None
           | Some newest \<Rightarrow> Some \<lparr>rn_records = rs, rn_oldest = oldest, rn_newest = newest\<rparr>))"

text \<open>
  \<open>binary_search_by\<close> of the Rust library: \<open>size\<close> elements from \<open>base\<close> on are left; \<open>gt\<close>
  tells the elements that compare greater.
\<close>

function search_loop :: "('a \<Rightarrow> bool) \<Rightarrow> 'a list \<Rightarrow> nat \<Rightarrow> nat \<Rightarrow> nat" where
  "search_loop gt xs n base =
     (if n \<le> 1 then base
      else (let half = n div 2; mid = base + half
        in search_loop gt xs (n - half) (if gt (xs ! mid) then base else mid)))"
  by pat_completeness auto
termination
  by (relation "measure (\<lambda>(_, _, n, _). n)") auto

declare search_loop.simps [simp del]

definition binary_search_ok :: "('a \<Rightarrow> bool) \<Rightarrow> ('a \<Rightarrow> bool) \<Rightarrow> 'a list \<Rightarrow> bool" where
  "binary_search_ok gt equal_to xs \<longleftrightarrow> xs \<noteq> [] \<and> equal_to (xs ! search_loop gt xs (length xs) 0)"

definition run_contains :: "bytes \<Rightarrow> processed_run \<Rightarrow> bool" where
  "run_contains tid run \<longleftrightarrow> binary_search_ok (\<lambda>x. tid < fst x) (\<lambda>x. fst x = tid) (rn_records run)"

definition run_covers :: "nat \<Rightarrow> processed_run \<Rightarrow> bool" where
  "run_covers received run \<longleftrightarrow> rn_oldest run \<le> received \<and> received \<le> rn_newest run"

section \<open>Operations\<close>

definition processed_len :: "locally_processed \<Rightarrow> nat" where
  "processed_len L = length (lp_recent L) + sum_list (map (\<lambda>run. length (rn_records run)) (lp_runs L))"

definition processed_contains :: "bytes \<Rightarrow> locally_processed \<Rightarrow> bool" where
  "processed_contains tid L \<longleftrightarrow> length tid = 32 \<and>
     (hget (lp_recent L) tid \<noteq> None \<or> list_ex (run_contains tid) (lp_runs L))"

definition contains_received_at :: "bytes \<Rightarrow> nat \<Rightarrow> locally_processed \<Rightarrow> bool" where
  "contains_received_at tid received L \<longleftrightarrow>
     hget (lp_recent L) tid \<noteq> None \<or>
     list_ex (\<lambda>run. run_covers received run \<and> run_contains tid run) (lp_runs L) \<or>
     list_ex (\<lambda>run. \<not> run_covers received run \<and> run_contains tid run) (lp_runs L)"

definition record_processed :: "bytes \<Rightarrow> secs \<Rightarrow> locally_processed \<Rightarrow> locally_processed" where
  "record_processed tid t L =
     (let received = whole_seconds t
      in L\<lparr>lp_recent := hput tid received (lp_recent L),
           lp_recent_oldest := Some (case lp_recent_oldest L of None \<Rightarrow> received | Some oldest \<Rightarrow> min oldest received)\<rparr>)"

definition processed_expired :: "secs \<Rightarrow> nat \<Rightarrow> bool" where
  "processed_expired t received \<longleftrightarrow> t > real received + LOCALLY_PROCESSED_EXPIRY_SECS"

definition clean_recent :: "secs \<Rightarrow> locally_processed \<Rightarrow> locally_processed" where
  "clean_recent t L =
     (if (case lp_recent_oldest L of None \<Rightarrow> False | Some oldest \<Rightarrow> processed_expired t oldest)
      then (let recent = filter (\<lambda>x. \<not> processed_expired t (snd x)) (lp_recent L)
        in L\<lparr>lp_recent := recent, lp_recent_oldest := min_opt (map snd recent)\<rparr>)
      else L)"

definition clean_run :: "secs \<Rightarrow> processed_run \<Rightarrow> processed_run option" where
  "clean_run t run =
     (if \<not> processed_expired t (rn_oldest run) then Some run
      else if processed_expired t (rn_newest run) then None
      else (let rs = filter (\<lambda>x. \<not> processed_expired t (snd x)) (rn_records run)
        in Some (run\<lparr>rn_records := rs, rn_oldest := (case min_opt (map snd rs) of None \<Rightarrow> rn_newest run | Some n \<Rightarrow> n)\<rparr>)))"

definition seal :: "secs \<Rightarrow> locally_processed \<Rightarrow> locally_processed" where
  "seal t L =
     (if (case lp_recent_oldest L of None \<Rightarrow> False | Some oldest \<Rightarrow> t \<ge> real oldest + RUN_SECS)
      then L\<lparr>lp_recent := [], lp_recent_oldest := None,
             lp_runs := lp_runs L @ (case new_run (lp_recent L) of None \<Rightarrow> [] | Some run \<Rightarrow> [run])\<rparr>
      else L)"

definition clean :: "secs \<Rightarrow> locally_processed \<Rightarrow> nat \<times> locally_processed" where
  "clean t L =
     (let L1 = clean_recent t L;
          L2 = L1\<lparr>lp_runs := List.map_filter (clean_run t) (lp_runs L1)\<rparr>
      in (processed_len L - processed_len L2, seal t L2))"

section \<open>The file\<close>

text \<open>
  The msgpack map as the code reads it: each key a 32-byte bin or something else, each value
  a number or something else.
\<close>

datatype file_key = IdKey bytes | OtherKey
datatype file_time = NumberTime secs | OtherTime

definition write_processed :: "locally_processed \<Rightarrow> (file_key \<times> file_time) list" where
  "write_processed L = map (\<lambda>(tid, received). (IdKey tid, NumberTime (real received)))
     (concat (map rn_records (lp_runs L)) @ lp_recent L)"

fun read_record :: "file_key \<times> file_time \<Rightarrow> (bytes \<times> nat) option" where
  "read_record (IdKey tid, NumberTime t) = Some (tid, whole_seconds t)"
| "read_record _ = None"

definition read_records :: "(file_key \<times> file_time) list \<Rightarrow> (bytes \<times> nat) list \<times> nat" where
  "read_records file = (List.map_filter read_record file, length (filter (\<lambda>x. read_record x = None) file))"

definition push_day :: "bytes \<times> nat \<Rightarrow> (nat, (bytes \<times> nat) list) hmap \<Rightarrow> (nat, (bytes \<times> nat) list) hmap" where
  "push_day x m = (let day = snd x div 86400 in hput day ((case hget m day of None \<Rightarrow> [] | Some run \<Rightarrow> run) @ [x]) m)"

definition read_processed :: "(file_key \<times> file_time) list \<Rightarrow> locally_processed \<times> nat" where
  "read_processed file =
     (let (records, skipped) = read_records file;
          by_day = fold push_day records [];
          runs = sort_key rn_oldest (List.map_filter (\<lambda>(_, run). new_run run) by_day)
      in (none_processed\<lparr>lp_runs := runs\<rparr>, skipped))"

end
