(* ===== verification/LocallyProcessed_Props.thy ===== *)
theory LocallyProcessed_Props
  imports LocallyProcessed
begin

text \<open>
  The binary search finds exactly the ids of a sorted run; cleaning drops exactly the expired
  records; writing the records and reading them back gives the same records.
\<close>

section \<open>Binary search\<close>

lemma search_loop_finds:
  fixes f :: "'a \<Rightarrow> 'b :: linorder"
  assumes sorted: "sorted_wrt (<) (map f xs)"
  shows "base \<le> j \<Longrightarrow> j < base + n \<Longrightarrow> base + n \<le> length xs \<Longrightarrow> search_loop (\<lambda>x. f (xs ! j) < f x) xs n base = j"
proof (induction n arbitrary: base rule: less_induct)
  case (less n)
  show ?case
  proof (cases "n \<le> 1")
    case True
    with less.prems show ?thesis by (simp add: search_loop.simps)
  next
    case False
    define half where "half = n div 2"
    from False have half: "half < n" "0 < half" "half \<le> n - half" by (auto simp: half_def)
    have greater: "f (xs ! j) < f (xs ! (base + half)) \<longleftrightarrow> j < base + half"
    proof
      assume "f (xs ! j) < f (xs ! (base + half))"
      show "j < base + half"
      proof (rule ccontr)
        assume "\<not> j < base + half"
        with sorted less.prems half have "f (xs ! (base + half)) \<le> f (xs ! j)"
          by (cases "base + half = j") (auto simp: sorted_wrt_iff_nth_less intro!: less_imp_le)
        with \<open>f (xs ! j) < f (xs ! (base + half))\<close> show False by simp
      qed
    next
      assume "j < base + half"
      with sorted less.prems half show "f (xs ! j) < f (xs ! (base + half))" by (auto simp: sorted_wrt_iff_nth_less)
    qed
    have "search_loop (\<lambda>x. f (xs ! j) < f x) xs n base =
        search_loop (\<lambda>x. f (xs ! j) < f x) xs (n - half) (if j < base + half then base else base + half)"
      using False greater by (subst search_loop.simps) (simp add: half_def Let_def)
    also have "\<dots> = j"
      using less.IH [of "n - half" "if j < base + half then base else base + half"] less.prems half by (auto split: if_splits)
    finally show ?thesis .
  qed
qed

lemma search_loop_bound: "0 < n \<Longrightarrow> base + n \<le> length xs \<Longrightarrow> search_loop gt xs n base < length xs"
proof (induction n arbitrary: base rule: less_induct)
  case (less n)
  show ?case
  proof (cases "n \<le> 1")
    case True
    with less.prems show ?thesis by (simp add: search_loop.simps)
  next
    case False
    then have "n - n div 2 < n" "0 < n - n div 2" by auto
    with less.IH less.prems False show ?thesis by (subst search_loop.simps) (auto simp: Let_def)
  qed
qed

lemma run_contains_iff:
  assumes "sorted_wrt (<) (map fst (rn_records run))"
  shows "run_contains tid run \<longleftrightarrow> tid \<in> fst ` set (rn_records run)"
proof
  let ?xs = "rn_records run"
  assume "run_contains tid run"
  then have "?xs \<noteq> []" "fst (?xs ! search_loop (\<lambda>x. tid < fst x) ?xs (length ?xs) 0) = tid"
    by (simp_all add: run_contains_def binary_search_ok_def)
  moreover from this have "search_loop (\<lambda>x. tid < fst x) ?xs (length ?xs) 0 < length ?xs" by (intro search_loop_bound) auto
  ultimately show "tid \<in> fst ` set ?xs" by (metis image_eqI nth_mem)
next
  let ?xs = "rn_records run"
  assume "tid \<in> fst ` set ?xs"
  then obtain j where j: "j < length ?xs" "fst (?xs ! j) = tid" by (auto simp: in_set_conv_nth)
  with search_loop_finds [OF assms, of 0 j "length ?xs"] show "run_contains tid run"
    by (auto simp: run_contains_def binary_search_ok_def)
qed

section \<open>Runs\<close>

lemma fold_min: "fold min xs x = Min (insert x (set xs))" for x :: nat
  by (metis List.set_simps(2) Min.set_eq_fold)

lemma fold_max: "fold max xs x = Max (insert x (set xs))" for x :: nat
  by (metis List.set_simps(2) Max.set_eq_fold)

lemma min_opt_eq: "min_opt xs = (if xs = [] then None else Some (Min (set xs)))"
  by (cases xs) (simp_all add: fold_min)

lemma max_opt_eq: "max_opt xs = (if xs = [] then None else Some (Max (set xs)))"
  by (cases xs) (simp_all add: fold_max)

lemma dedup_distinct: "distinct (map fst xs) \<Longrightarrow> dedup_ids xs = xs"
  by (induction xs rule: dedup_ids.induct) auto

definition run_ok :: "processed_run \<Rightarrow> bool" where
  "run_ok run \<longleftrightarrow> rn_records run \<noteq> [] \<and> sorted_wrt (<) (map fst (rn_records run)) \<and>
     rn_oldest run = Min (snd ` set (rn_records run)) \<and> rn_newest run = Max (snd ` set (rn_records run))"

lemma new_run_ok:
  assumes "distinct (map fst rs)" and "rs \<noteq> []"
  shows "\<exists>run. new_run rs = Some run \<and> run_ok run \<and> mset (rn_records run) = mset rs"
proof -
  have "distinct (map fst (sort_key fst rs))" using assms(1) by (simp add: distinct_map)
  then have "dedup_ids (sort_key fst rs) = sort_key fst rs" by (rule dedup_distinct)
  moreover have "sort_key fst rs \<noteq> []" using assms(2) by (metis mset_sort mset_zero_iff)
  moreover have "sorted_wrt (<) (map fst (sort_key fst rs))"
    using \<open>distinct (map fst (sort_key fst rs))\<close> by (simp add: strict_sorted_iff)
  ultimately show ?thesis by (simp add: new_run_def min_opt_eq max_opt_eq run_ok_def)
qed

lemma clean_run_ok:
  assumes "run_ok run"
  shows "case clean_run t run of
      None \<Rightarrow> (\<forall>x \<in> set (rn_records run). processed_expired t (snd x))
    | Some run' \<Rightarrow> run_ok run' \<and> rn_records run' = filter (\<lambda>x. \<not> processed_expired t (snd x)) (rn_records run)"
proof -
  let ?xs = "rn_records run"
  from assms have xs: "?xs \<noteq> []" "rn_oldest run = Min (snd ` set ?xs)" "rn_newest run = Max (snd ` set ?xs)"
    "sorted_wrt (<) (map fst ?xs)" by (simp_all add: run_ok_def)
  have mono: "n \<le> m \<Longrightarrow> processed_expired t m \<Longrightarrow> processed_expired t n" for n m
    by (simp add: processed_expired_def)
  consider "\<not> processed_expired t (rn_oldest run)" | "processed_expired t (rn_newest run)" "processed_expired t (rn_oldest run)"
    | "\<not> processed_expired t (rn_newest run)" "processed_expired t (rn_oldest run)" by blast
  then show ?thesis
  proof cases
    case 1
    have "\<not> processed_expired t (snd x)" if "x \<in> set ?xs" for x
      using mono [of "rn_oldest run" "snd x"] 1 that xs(2) by auto
    then have "filter (\<lambda>x. \<not> processed_expired t (snd x)) ?xs = ?xs" by (simp add: filter_True)
    with 1 assms show ?thesis by (simp add: clean_run_def)
  next
    case 2
    have "processed_expired t (snd x)" if "x \<in> set ?xs" for x
      using mono [of "snd x" "rn_newest run"] 2 that xs(3) by auto
    with 2 show ?thesis by (simp add: clean_run_def)
  next
    case 3
    let ?ys = "filter (\<lambda>x. \<not> processed_expired t (snd x)) ?xs"
    have "rn_newest run \<in> snd ` set ?xs" using xs(1,3) by (metis Max_in finite_imageI image_is_empty List.finite_set set_empty)
    with 3 have newest: "rn_newest run \<in> snd ` set ?ys" by auto
    then have "?ys \<noteq> []" by (metis empty_iff image_empty list.set(1))
    moreover have "sorted_wrt (<) (map fst ?ys)" using xs(4) by (auto simp: sorted_wrt_map sorted_wrt_filter)
    moreover have "rn_newest run = Max (snd ` set ?ys)"
    proof (rule Max_eqI [symmetric])
      fix n assume "n \<in> snd ` set ?ys"
      then have "n \<in> snd ` set ?xs" by auto
      then show "n \<le> rn_newest run" using xs(3) by simp
    qed (use newest in auto)
    ultimately show ?thesis using 3 by (simp add: clean_run_def Let_def min_opt_eq run_ok_def)
  qed
qed

section \<open>All the records\<close>

definition all_records :: "locally_processed \<Rightarrow> (bytes \<times> nat) list" where
  "all_records L = lp_recent L @ concat (map rn_records (lp_runs L))"

definition processed_ok :: "locally_processed \<Rightarrow> bool" where
  "processed_ok L \<longleftrightarrow> distinct (map fst (all_records L)) \<and> (\<forall>run \<in> set (lp_runs L). run_ok run) \<and>
     lp_recent_oldest L = min_opt (map snd (lp_recent L)) \<and> (\<forall>x \<in> set (all_records L). length (fst x) = 32 \<and> snd x < 2 ^ 32)"

lemma processed_len_eq: "processed_len L = length (all_records L)"
  by (simp add: processed_len_def all_records_def length_concat comp_def)

lemma runs_contain:
  "(\<forall>run \<in> set runs. run_ok run) \<Longrightarrow> list_ex (run_contains tid) runs \<longleftrightarrow> tid \<in> fst ` set (concat (map rn_records runs))"
  by (induction runs) (auto simp: run_contains_iff run_ok_def image_Un)

lemma contains_ok: "processed_ok L \<Longrightarrow> processed_contains tid L \<longleftrightarrow> tid \<in> fst ` set (all_records L)"
proof -
  assume ok: "processed_ok L"
  have "hget (lp_recent L) tid \<noteq> None \<longleftrightarrow> tid \<in> fst ` set (lp_recent L)" by (simp add: map_of_eq_None_iff)
  moreover have "list_ex (run_contains tid) (lp_runs L) \<longleftrightarrow> tid \<in> fst ` set (concat (map rn_records (lp_runs L)))"
    using ok by (intro runs_contain) (simp add: processed_ok_def)
  moreover have "length tid = 32" if "tid \<in> fst ` set (all_records L)" using ok that by (auto simp: processed_ok_def)
  ultimately show ?thesis unfolding processed_contains_def by (auto simp: all_records_def image_Un)
qed

lemma received_at_ok: "processed_ok L \<Longrightarrow> contains_received_at tid received L \<longleftrightarrow> tid \<in> fst ` set (all_records L)"
proof -
  assume ok: "processed_ok L"
  have "contains_received_at tid received L \<longleftrightarrow> hget (lp_recent L) tid \<noteq> None \<or> list_ex (run_contains tid) (lp_runs L)"
    by (auto simp: contains_received_at_def list_ex_iff)
  also have "\<dots> \<longleftrightarrow> tid \<in> fst ` set (lp_recent L) \<or> tid \<in> fst ` set (concat (map rn_records (lp_runs L)))"
    using ok runs_contain [of "lp_runs L" tid] by (simp add: processed_ok_def map_of_eq_None_iff)
  finally show ?thesis by (auto simp: all_records_def image_Un)
qed

lemma whole_seconds_bound: "whole_seconds t < 2 ^ 32"
proof -
  define x where "x = \<lfloor>min (max t 0) (2 ^ 32 - 1)\<rfloor>"
  have "x \<le> \<lfloor>4294967295 :: real\<rfloor>" unfolding x_def by (intro floor_mono) simp
  then have "x < 4294967296" by simp
  then have "nat x < 4294967296" by linarith
  then show ?thesis by (simp add: whole_seconds_def x_def)
qed

lemma whole_seconds_of_nat: "n < 2 ^ 32 \<Longrightarrow> whole_seconds (real n) = n"
proof -
  assume "n < 2 ^ 32"
  then have "real n \<le> real 4294967295" by (simp only: of_nat_le_iff) simp
  then have "min (max (real n) 0) (2 ^ 32 - 1) = real n" by simp
  then show ?thesis by (simp add: whole_seconds_def)
qed

lemma record_ok:
  assumes "processed_ok L" and "\<not> processed_contains tid L" and "length tid = 32"
  shows "processed_ok (record_processed tid t L) \<and>
    set (all_records (record_processed tid t L)) = insert (tid, whole_seconds t) (set (all_records L))"
proof -
  from assms contains_ok have new: "tid \<notin> fst ` set (all_records L)" by blast
  then have "tid \<notin> fst ` set (lp_recent L)" by (auto simp: all_records_def)
  then have put: "hput tid (whole_seconds t) (lp_recent L) = lp_recent L @ [(tid, whole_seconds t)]"
    by (intro hput_new) (simp add: map_of_eq_None_iff)
  let ?L = "record_processed tid t L"
  have all: "all_records ?L = lp_recent L @ (tid, whole_seconds t) # concat (map rn_records (lp_runs L))"
    by (simp add: all_records_def record_processed_def Let_def put)
  have recent: "lp_recent ?L = lp_recent L @ [(tid, whole_seconds t)]" by (simp add: record_processed_def Let_def put)
  have "lp_recent_oldest L = min_opt (map snd (lp_recent L))" using assms(1) by (simp add: processed_ok_def)
  then have "lp_recent_oldest ?L = min_opt (map snd (lp_recent ?L))" unfolding recent
    by (simp add: record_processed_def Let_def min_opt_eq min.commute)
  moreover have "distinct (map fst (all_records ?L))" using assms(1) new unfolding all
    by (auto simp: processed_ok_def all_records_def)
  moreover have "lp_runs ?L = lp_runs L" by (simp add: record_processed_def Let_def)
  moreover have "set (all_records ?L) = insert (tid, whole_seconds t) (set (all_records L))" unfolding all by (auto simp: all_records_def)
  ultimately show ?thesis using assms whole_seconds_bound by (simp add: processed_ok_def)
qed

lemma clean_recent_ok:
  assumes "lp_recent_oldest L = min_opt (map snd (lp_recent L))"
  shows "lp_recent (clean_recent t L) = filter (\<lambda>x. \<not> processed_expired t (snd x)) (lp_recent L) \<and>
    lp_recent_oldest (clean_recent t L) = min_opt (map snd (lp_recent (clean_recent t L))) \<and> lp_runs (clean_recent t L) = lp_runs L"
proof (cases "case lp_recent_oldest L of None \<Rightarrow> False | Some oldest \<Rightarrow> processed_expired t oldest")
  case True
  then show ?thesis by (simp add: clean_recent_def Let_def)
next
  case False
  have "\<not> processed_expired t (snd x)" if "x \<in> set (lp_recent L)" for x
  proof -
    from that have "lp_recent_oldest L = Some (Min (snd ` set (lp_recent L)))" using assms by (auto simp: min_opt_eq)
    moreover have "Min (snd ` set (lp_recent L)) \<le> snd x" using that by simp
    ultimately show ?thesis using False by (auto simp: processed_expired_def)
  qed
  then have "filter (\<lambda>x. \<not> processed_expired t (snd x)) (lp_recent L) = lp_recent L" by (simp add: filter_True)
  with False assms show ?thesis by (simp add: clean_recent_def)
qed

lemma clean_runs_ok:
  "(\<forall>run \<in> set runs. run_ok run) \<Longrightarrow>
   (\<forall>run \<in> set (List.map_filter (clean_run t) runs). run_ok run) \<and>
   concat (map rn_records (List.map_filter (clean_run t) runs)) = filter (\<lambda>x. \<not> processed_expired t (snd x)) (concat (map rn_records runs))"
proof (induction runs)
  case (Cons run runs)
  from clean_run_ok [of run t] Cons show ?case
    by (cases "clean_run t run") (auto simp: List.map_filter_simps filter_empty_conv)
qed (simp add: List.map_filter_simps)

lemma distinct_ids_mset: "mset xs = mset ys \<Longrightarrow> distinct (map fst xs) \<longleftrightarrow> distinct (map fst ys)"
  by (rule mset_eq_imp_distinct_iff) (metis mset_map)

lemma seal_ok:
  assumes "processed_ok L"
  shows "processed_ok (seal t L) \<and> mset (all_records (seal t L)) = mset (all_records L)"
proof (cases "case lp_recent_oldest L of None \<Rightarrow> False | Some oldest \<Rightarrow> t \<ge> real oldest + RUN_SECS")
  case False
  with assms show ?thesis by (simp add: seal_def)
next
  case True
  with assms have ne: "lp_recent L \<noteq> []" by (auto simp: processed_ok_def min_opt_eq split: if_splits)
  have "distinct (map fst (lp_recent L))" using assms by (simp add: processed_ok_def all_records_def)
  from new_run_ok [OF this ne] obtain run where run: "new_run (lp_recent L) = Some run" "run_ok run"
    "mset (rn_records run) = mset (lp_recent L)" by blast
  then have sealed: "seal t L = L\<lparr>lp_recent := [], lp_recent_oldest := None, lp_runs := lp_runs L @ [run]\<rparr>"
    using True by (simp add: seal_def)
  have same: "mset (all_records (seal t L)) = mset (all_records L)" by (simp add: sealed all_records_def run(3))
  then have "set (all_records (seal t L)) = set (all_records L)" by (rule mset_eq_setD)
  with assms run(2) distinct_ids_mset [OF same] show ?thesis
    unfolding processed_ok_def same by (simp add: sealed min_opt_eq)
qed

lemma clean_ok:
  assumes "processed_ok L" and "clean t L = (n, L')"
  shows "processed_ok L' \<and> mset (all_records L') = filter_mset (\<lambda>x. \<not> processed_expired t (snd x)) (mset (all_records L)) \<and>
    n + processed_len L' = processed_len L"
proof -
  let ?keep = "\<lambda>x. \<not> processed_expired t (snd x)"
  let ?L2 = "(clean_recent t L)\<lparr>lp_runs := List.map_filter (clean_run t) (lp_runs (clean_recent t L))\<rparr>"
  from assms(1) have runs: "\<forall>run \<in> set (lp_runs L). run_ok run" and old: "lp_recent_oldest L = min_opt (map snd (lp_recent L))"
    by (simp_all add: processed_ok_def)
  have all: "all_records ?L2 = filter ?keep (all_records L)"
    using clean_recent_ok [OF old, of t] clean_runs_ok [OF runs, of t] by (simp add: all_records_def)
  have "distinct (map fst (all_records ?L2))" using assms(1) unfolding all by (simp add: processed_ok_def distinct_map_filter)
  moreover have "\<forall>x \<in> set (all_records ?L2). length (fst x) = 32 \<and> snd x < 2 ^ 32" using assms(1) unfolding all by (auto simp: processed_ok_def)
  ultimately have ok: "processed_ok ?L2"
    using clean_recent_ok [OF old, of t] clean_runs_ok [OF runs, of t] by (simp add: processed_ok_def)
  from assms(2) have L': "L' = seal t ?L2" "n = processed_len L - processed_len ?L2" by (auto simp: clean_def Let_def)
  from seal_ok [OF ok, of t] L' all have L'_ok: "processed_ok L'" "mset (all_records L') = filter_mset ?keep (mset (all_records L))"
    by simp_all
  from seal_ok [OF ok, of t] L'(1) have "length (all_records L') = length (all_records ?L2)" by (metis size_mset)
  then have "processed_len L' = processed_len ?L2" "processed_len ?L2 \<le> processed_len L" by (simp_all add: processed_len_eq all)
  with L'_ok L'(2) show ?thesis by simp
qed

section \<open>Properties\<close>

inductive processed_step :: "locally_processed \<Rightarrow> locally_processed \<Rightarrow> bool" where
  step_record: "\<not> processed_contains tid L \<Longrightarrow> length tid = 32 \<Longrightarrow> processed_step L (record_processed tid t L)"
| step_clean: "processed_step L (snd (clean t L))"

lemma none_processed_ok: "processed_ok none_processed"
  by (simp add: processed_ok_def none_processed_def all_records_def)

lemma processed_step_ok: "processed_step L L' \<Longrightarrow> processed_ok L \<Longrightarrow> processed_ok L'"
  by (induction rule: processed_step.induct) (use record_ok clean_ok in \<open>auto simp: prod_eq_iff\<close>)

lemma processed_run_ok: "processed_step\<^sup>*\<^sup>* L L' \<Longrightarrow> processed_ok L \<Longrightarrow> processed_ok L'"
  by (induction rule: rtranclp_induct) (auto intro: processed_step_ok)

text \<open>
  C40: the processed ids are exact. In every state recording and cleaning reach, an id is
  found exactly when a record of it is held (the binary searches of the runs, and searching
  the runs that cover its time first, included), and cleaning drops exactly the records older
  than six months, says how many it dropped, and forgets no other id.
\<close>

theorem processed_ids_exact:
  assumes "processed_step\<^sup>*\<^sup>* none_processed L" and "clean t L = (n, L')"
  shows "(processed_contains tid L \<longleftrightarrow> (\<exists>received. (tid, received) \<in> set (all_records L))) \<and>
    contains_received_at tid received L = processed_contains tid L \<and>
    set (all_records L') = {x \<in> set (all_records L). \<not> t > real (snd x) + LOCALLY_PROCESSED_EXPIRY_SECS} \<and>
    n = length (filter (\<lambda>x. t > real (snd x) + LOCALLY_PROCESSED_EXPIRY_SECS) (all_records L)) \<and>
    (processed_contains tid L' \<longleftrightarrow>
      (\<exists>received. (tid, received) \<in> set (all_records L) \<and> \<not> t > real received + LOCALLY_PROCESSED_EXPIRY_SECS))"
proof -
  from processed_run_ok [OF assms(1) none_processed_ok] have ok: "processed_ok L" .
  from clean_ok [OF ok assms(2)] have L': "processed_ok L'"
    "mset (all_records L') = mset (filter (\<lambda>x. \<not> processed_expired t (snd x)) (all_records L))"
    "n + processed_len L' = processed_len L" by simp_all
  from mset_eq_setD [OF L'(2)] have set': "set (all_records L') = {x \<in> set (all_records L). \<not> processed_expired t (snd x)}" by simp
  have "length (all_records L') = length (filter (\<lambda>x. \<not> processed_expired t (snd x)) (all_records L))"
    using L'(2) by (metis size_mset)
  with L'(3) sum_length_filter_compl [of "\<lambda>x. processed_expired t (snd x)" "all_records L"]
  have n: "n = length (filter (\<lambda>x. processed_expired t (snd x)) (all_records L))" by (simp add: processed_len_eq)
  have named: "tid \<in> fst ` X \<longleftrightarrow> (\<exists>received. (tid, received) \<in> X)" for X :: "(bytes \<times> nat) set" by force
  from contains_ok [OF ok, of tid] have found: "processed_contains tid L \<longleftrightarrow> (\<exists>received. (tid, received) \<in> set (all_records L))"
    by (simp only: named)
  from contains_ok [OF L'(1), of tid] set' have found': "processed_contains tid L' \<longleftrightarrow>
      (\<exists>received. (tid, received) \<in> set (all_records L) \<and> \<not> processed_expired t received)"
    by (simp add: named)
  from received_at_ok [OF ok, of tid received] contains_ok [OF ok, of tid]
  have "contains_received_at tid received L = processed_contains tid L" by simp
  with found found' set' n show ?thesis unfolding processed_expired_def by (intro conjI)
qed

definition witness_id :: "nat \<Rightarrow> bytes" where
  "witness_id n = replicate 32 (of_nat n)"

definition witness_processed :: locally_processed where
  "witness_processed = record_processed (witness_id 1) 100 none_processed"

lemma witness_processed_reached: "processed_step\<^sup>*\<^sup>* none_processed witness_processed"
proof -
  have "\<not> processed_contains (witness_id 1) none_processed" by (simp add: processed_contains_def none_processed_def)
  then have "processed_step none_processed witness_processed"
    unfolding witness_processed_def by (rule step_record) (simp add: witness_id_def)
  then show ?thesis by blast
qed

lemma witness_processed_records: "all_records witness_processed = [(witness_id 1, 100)]"
  using whole_seconds_of_nat [of 100] by (simp add: witness_processed_def record_processed_def none_processed_def all_records_def Let_def)

lemma processed_ids_exact_witness:
  "\<exists>n L'. clean 20000000 witness_processed = (n, L') \<and> n = 1 \<and> \<not> processed_contains (witness_id 1) L'"
proof -
  obtain n L' where run: "clean 20000000 witness_processed = (n, L')" by (metis surj_pair)
  from processed_ids_exact [OF witness_processed_reached run, of "witness_id 1" 0] run show ?thesis
    by (simp add: witness_processed_records LOCALLY_PROCESSED_EXPIRY_SECS_def)
qed

section \<open>The file\<close>

definition days_ok :: "(nat, (bytes \<times> nat) list) hmap \<Rightarrow> (bytes \<times> nat) list \<Rightarrow> bool" where
  "days_ok m xs \<longleftrightarrow> hkeys_distinct m \<and> mset (concat (map snd m)) = mset xs \<and> (\<forall>(_, run) \<in> set m. run \<noteq> [])"

lemma push_day_ok: "days_ok m xs \<Longrightarrow> days_ok (push_day x m) (xs @ [x])"
proof -
  assume ok: "days_ok m xs"
  let ?day = "snd x div 86400"
  show ?thesis
  proof (cases "hget m ?day")
    case None
    then have "push_day x m = m @ [(?day, [x])]" by (simp add: push_day_def Let_def hput_new)
    with ok None show ?thesis by (auto simp: days_ok_def hkeys_distinct_def map_of_eq_None_iff)
  next
    case (Some run)
    from ok have d: "hkeys_distinct m" by (simp add: days_ok_def)
    obtain ys zs where split: "m = ys @ (?day, run) # zs" "?day \<notin> fst ` set ys" "?day \<notin> fst ` set zs"
      by (rule hget_split [OF d Some])
    then have "push_day x m = ys @ (?day, run @ [x]) # zs" using Some by (simp add: push_day_def Let_def hput_split)
    with ok split show ?thesis by (auto simp: days_ok_def hkeys_distinct_def)
  qed
qed

lemma days_of_ok: "days_ok (fold push_day xs []) xs"
proof (induction xs rule: rev_induct)
  case (snoc x xs)
  then show ?case by (simp add: push_day_ok)
qed (simp add: days_ok_def hkeys_distinct_def)

lemma runs_of_days:
  "distinct (map fst (concat (map snd m))) \<Longrightarrow> \<forall>(_, run) \<in> set m. run \<noteq> [] \<Longrightarrow>
   (\<forall>run \<in> set (List.map_filter (\<lambda>(_, run). new_run run) m). run_ok run) \<and>
   mset (concat (map rn_records (List.map_filter (\<lambda>(_, run). new_run run) m))) = mset (concat (map snd m))"
proof (induction m)
  case (Cons d m)
  obtain k rs where d: "d = (k, rs)" by (cases d)
  with Cons.prems have "distinct (map fst rs)" "rs \<noteq> []" by auto
  from new_run_ok [OF this] obtain run where "new_run rs = Some run" "run_ok run" "mset (rn_records run) = mset rs" by blast
  with Cons d show ?case by (auto simp: List.map_filter_simps)
qed (simp add: List.map_filter_simps)

lemma concat_mset_cong: "mset rs = mset rs' \<Longrightarrow> mset (concat (map f rs)) = mset (concat (map f rs'))"
  by (simp add: mset_concat) (metis mset_map sum_mset_sum_list)

lemma read_back:
  "\<forall>x \<in> set xs. snd x < 2 ^ 32 \<Longrightarrow> read_records (map (\<lambda>(tid, received). (IdKey tid, NumberTime (real received))) xs) = (xs, 0)"
  by (induction xs) (auto simp: read_records_def List.map_filter_simps whole_seconds_of_nat filter_empty_conv)

text \<open>
  Saving the processed ids and loading them loses none. In every state recording and
  cleaning reach, the file written reads back without a record skipped, to exactly the same
  ids and received times, so the same ids are found.
\<close>

theorem processed_file_roundtrip:
  assumes "processed_step\<^sup>*\<^sup>* none_processed L"
  shows "case read_processed (write_processed L) of (L', skipped) \<Rightarrow>
    skipped = 0 \<and> mset (all_records L') = mset (all_records L) \<and> processed_contains tid L' = processed_contains tid L"
proof -
  from processed_run_ok [OF assms none_processed_ok] have ok: "processed_ok L" .
  let ?xs = "concat (map rn_records (lp_runs L)) @ lp_recent L"
  have same: "mset ?xs = mset (all_records L)" by (simp add: all_records_def)
  then have "\<forall>x \<in> set ?xs. snd x < 2 ^ 32" using ok by (auto simp: processed_ok_def all_records_def)
  then have read: "read_records (write_processed L) = (?xs, 0)" unfolding write_processed_def by (rule read_back)
  let ?days = "fold push_day ?xs []"
  let ?runs = "List.map_filter (\<lambda>(_, run). new_run run) ?days"
  have days: "days_ok ?days ?xs" by (rule days_of_ok)
  then have held: "mset (concat (map snd ?days)) = mset (all_records L)" using same by (simp add: days_ok_def)
  have "distinct (map fst (all_records L))" using ok by (simp add: processed_ok_def)
  then have "distinct (map fst (concat (map snd ?days)))" by (simp only: distinct_ids_mset [OF held])
  with held have runs: "\<forall>run \<in> set ?runs. run_ok run" "mset (concat (map rn_records ?runs)) = mset (all_records L)"
    using runs_of_days [of ?days] days by (simp_all add: days_ok_def)
  let ?L' = "none_processed\<lparr>lp_runs := sort_key rn_oldest ?runs\<rparr>"
  have loaded: "read_processed (write_processed L) = (?L', 0)" by (simp add: read_processed_def read)
  have all: "mset (all_records ?L') = mset (all_records L)"
    using runs(2) concat_mset_cong [of "sort_key rn_oldest ?runs" ?runs rn_records]
    by (simp add: all_records_def none_processed_def)
  have "processed_ok ?L'"
    using ok runs(1) distinct_ids_mset [OF all] mset_eq_setD [OF all]
    by (simp add: processed_ok_def none_processed_def)
  with contains_ok [OF this, of tid] contains_ok [OF ok, of tid] mset_eq_setD [OF all] all loaded show ?thesis by simp
qed

lemma processed_file_roundtrip_witness:
  "case read_processed (write_processed witness_processed) of (L', skipped) \<Rightarrow> skipped = 0 \<and> processed_contains (witness_id 1) L'"
proof -
  have "processed_contains (witness_id 1) witness_processed"
    by (simp add: processed_contains_def witness_processed_def record_processed_def none_processed_def witness_id_def Let_def)
  with processed_file_roundtrip [OF witness_processed_reached, of "witness_id 1"] show ?thesis by (auto split: prod.splits)
qed

end
