(* ===== verification/PeerSync.thy ===== *)
theory PeerSync
  imports PropEntries
begin

text \<open>
  Outbound peer sync of \<open>rfed/src/lxmf_propagation.rs\<close>: the peers and their sessions, the
  messages a peer may be offered, the offer, the per-minute budget of what is sent, and the
  choice of the next peer.

  Clock readings are arguments: \<open>t\<close> is \<open>now()\<close>, \<open>m\<close> is \<open>monotonic_now()\<close>, \<open>held\<close> the result of
  \<open>backlog_held()\<close> (\<open>backlog_held t n\<close> for a reading \<open>t\<close> of its own). What the links answer is
  an argument too, and what a handler does to them is a list of \<open>sync_act\<close>. A message lookup
  that would panic has no value (\<open>the\<close>); \<open>PropEntries_Props\<close> shows there is none. Counters of
  64 bits are natural numbers.
\<close>

section \<open>Peers\<close>

datatype session_state = IDLE | LINK_ESTABLISHING | LINK_READY | REQUEST_SENT | RESPONSE_RECEIVED | RESOURCE_TRANSFERRING

record prop_peer =
  pp_hash :: bytes
  pp_alive :: bool
  pp_last_heard :: secs
  pp_timebase :: secs
  pp_stamp_cost :: "nat option"
  pp_stamp_flexibility :: "nat option"
  pp_peering_cost :: "nat option"
  pp_transfer_limit :: "real option"
  pp_sync_limit :: "real option"
  pp_metadata :: "bytes option"
  pp_peering_key :: "(bytes \<times> nat) option"
  pp_reground_at :: "nat option"
  pp_refused_at :: "nat option"
  pp_backoff :: secs
  pp_next_attempt :: secs
  pp_throttled_until :: secs
  pp_last_attempt :: secs
  pp_rate :: real
  pp_slot :: nat
  pp_transferring :: "bytes list option"
  pp_started :: "secs option"
  pp_last_offer :: "bytes list"
  pp_reserved :: nat
  pp_turn_sent :: nat
  pp_link :: "bytes option"
  pp_identified :: "bytes option"
  pp_reidentified :: bool
  pp_session :: nat
  pp_state :: session_state

definition new_prop_peer :: "bytes \<Rightarrow> prop_peer" where
  "new_prop_peer h = \<lparr>pp_hash = h, pp_alive = False, pp_last_heard = 0, pp_timebase = 0, pp_stamp_cost = None,
     pp_stamp_flexibility = None, pp_peering_cost = None, pp_transfer_limit = None, pp_sync_limit = None,
     pp_metadata = None, pp_peering_key = None, pp_reground_at = None, pp_refused_at = None, pp_backoff = 0,
     pp_next_attempt = 0, pp_throttled_until = 0, pp_last_attempt = 0, pp_rate = 0, pp_slot = 0,
     pp_transferring = None, pp_started = None, pp_last_offer = [], pp_reserved = 0, pp_turn_sent = 0,
     pp_link = None, pp_identified = None, pp_reidentified = False, pp_session = 0, pp_state = IDLE\<rparr>"

definition peering_key_refused :: "prop_peer \<Rightarrow> bool" where
  "peering_key_refused p \<longleftrightarrow> pp_refused_at p \<noteq> None \<and> pp_refused_at p = pp_peering_cost p"

definition peering_key_ready :: "prop_peer \<Rightarrow> bool" where
  "peering_key_ready p = (case pp_peering_key p of
      Some (_, v) \<Rightarrow> (case pp_peering_cost p of Some cost \<Rightarrow> cost \<le> v | None \<Rightarrow> False)
    | None \<Rightarrow> False)"

definition sync_ready :: "prop_peer \<Rightarrow> bool" where
  "sync_ready p \<longleftrightarrow> pp_stamp_cost p \<noteq> None \<and> pp_stamp_flexibility p \<noteq> None \<and> pp_peering_cost p \<noteq> None \<and>
     peering_key_ready p \<and> \<not> peering_key_refused p"

section \<open>The node\<close>

definition STARTUP_BACKLOG_HOLD_SECS :: secs where "STARTUP_BACKLOG_HOLD_SECS = 3600"
definition OUTBOUND_BUDGET_WINDOW_SECS :: secs where "OUTBOUND_BUDGET_WINDOW_SECS = 60"
definition PEER_SYNC_INTERVAL_SECS :: secs where "PEER_SYNC_INTERVAL_SECS = 24"
definition SYNC_BACKOFF_STEP_SECS :: secs where "SYNC_BACKOFF_STEP_SECS = 12 * 60"
definition PN_STAMP_THROTTLE_SECS :: secs where "PN_STAMP_THROTTLE_SECS = 180"
definition MAX_OFFER_IDS :: nat where "MAX_OFFER_IDS = 500"
definition FASTEST_N_RANDOM_POOL :: nat where "FASTEST_N_RANDOM_POOL = 2"
definition MAX_PEERING_COST :: nat where "MAX_PEERING_COST = 26"
definition MAX_PEERS :: nat where "MAX_PEERS = 20"

record sync_node =
  sn_peers :: "(bytes, prop_peer) hmap"
  sn_departed :: "(bytes, nat) hmap"
  sn_entries :: propagation_entries
  sn_fresh :: "bytes list"
  sn_sends :: "(secs \<times> nat) list"
  sn_record_start :: secs
  sn_budget :: nat
  sn_started_at :: secs
  sn_hold_logged :: bool
  sn_backlog_logged :: bool

text \<open>What a handler has the links do (\<open>PeerSyncIo\<close>).\<close>

datatype sync_act =
    CloseLink bytes
  | OpenLink bytes
  | Identify bytes bytes
  | RequestOffer bytes bytes nat bytes "bytes list"
  | SendResource bytes bytes nat "bytes list"

definition peer_upd :: "bytes \<Rightarrow> (prop_peer \<Rightarrow> prop_peer) \<Rightarrow> sync_node \<Rightarrow> sync_node" where
  "peer_upd h f n = (case hget (sn_peers n) h of None \<Rightarrow> n | Some p \<Rightarrow> n\<lparr>sn_peers := hput h (f p) (sn_peers n)\<rparr>)"

section \<open>What a peer may be offered\<close>

definition backlog_held :: "secs \<Rightarrow> sync_node \<Rightarrow> bool" where
  "backlog_held t n \<longleftrightarrow> t - sn_started_at n < STARTUP_BACKLOG_HOLD_SECS"

definition sync_pool_for :: "bool \<Rightarrow> bytes list \<Rightarrow> propagation_entries \<Rightarrow> prop_peer \<Rightarrow> (bytes \<times> propagation_entry) list" where
  "sync_pool_for held fresh E p =
     (if held then List.map_filter (\<lambda>tid. case the (get_entry tid E) of
          Some e \<Rightarrow> if has_slot (pe_unhandled e) (pp_slot p) then Some (tid, e) else None
        | None \<Rightarrow> None) fresh
      else unhandled_messages (pp_slot p) E)"

definition has_sync_candidates :: "bool \<Rightarrow> bytes list \<Rightarrow> propagation_entries \<Rightarrow> prop_peer \<Rightarrow> bool" where
  "has_sync_candidates held fresh E p =
     (if held then list_ex (\<lambda>tid. the (is_unhandled (pp_slot p) tid E)) fresh
      else 0 < unhandled_message_count (pp_slot p) E)"

section \<open>The budget\<close>

definition prune_sends :: "secs \<Rightarrow> (secs \<times> nat) list \<Rightarrow> (secs \<times> nat) list" where
  "prune_sends m sends = dropWhile (\<lambda>(sent_at, _). m - sent_at \<ge> OUTBOUND_BUDGET_WINDOW_SECS) sends"

definition outbound_sent_in_window :: "secs \<Rightarrow> sync_node \<Rightarrow> nat" where
  "outbound_sent_in_window m n =
     sum_list (map snd (filter (\<lambda>(sent_at, _). m - sent_at < OUTBOUND_BUDGET_WINDOW_SECS) (sn_sends n)))"

definition outbound_reserved :: "sync_node \<Rightarrow> nat" where
  "outbound_reserved n = sum_list (map (\<lambda>(_, p). pp_reserved p) (sn_peers n))"

definition startup_hold_left :: "secs \<Rightarrow> sync_node \<Rightarrow> secs" where
  "startup_hold_left m n = max (sn_record_start n + OUTBOUND_BUDGET_WINDOW_SECS - m) 0"

definition outbound_allowance :: "secs \<Rightarrow> sync_node \<Rightarrow> nat \<times> sync_node" where
  "outbound_allowance m n =
     (if m - sn_record_start n < OUTBOUND_BUDGET_WINDOW_SECS then (0, n)
      else (let n' = n\<lparr>sn_sends := prune_sends m (sn_sends n)\<rparr>
        in (sn_budget n - (sum_list (map snd (sn_sends n')) + outbound_reserved n'), n')))"

definition record_outbound_send :: "secs \<Rightarrow> bytes \<Rightarrow> nat \<Rightarrow> sync_node \<Rightarrow> sync_node" where
  "record_outbound_send m h messages n =
     peer_upd h (\<lambda>p. p\<lparr>pp_reserved := 0, pp_turn_sent := pp_turn_sent p + messages\<rparr>)
       (n\<lparr>sn_sends := prune_sends m (sn_sends n) @ [(m, messages)]\<rparr>)"

datatype budget_line = StartupHold | BudgetSpent | SyncResumed

definition outbound_sync_allowed :: "secs \<Rightarrow> sync_node \<Rightarrow> bool \<times> budget_line list \<times> sync_node" where
  "outbound_sync_allowed m n =
     (let (allowance, n') = outbound_allowance m n in
      if allowance = 0 then
        (if sn_hold_logged n' then (False, [], n')
         else (False, [if startup_hold_left m n' > 0 then StartupHold else BudgetSpent], n'\<lparr>sn_hold_logged := True\<rparr>))
      else (if sn_hold_logged n' then (True, [SyncResumed], n'\<lparr>sn_hold_logged := False\<rparr>) else (True, [], n')))"

definition contends_for_sync :: "prop_peer \<Rightarrow> secs \<Rightarrow> bool \<Rightarrow> bytes list \<Rightarrow> propagation_entries \<Rightarrow> bool" where
  "contends_for_sync p t held fresh E \<longleftrightarrow> pp_state p = IDLE \<and> sync_ready p \<and> t > pp_throttled_until p \<and>
     t > pp_next_attempt p \<and> has_sync_candidates held fresh E p"

definition next_batch_demand :: "bool \<Rightarrow> bytes list \<Rightarrow> propagation_entries \<Rightarrow> prop_peer \<Rightarrow> nat \<Rightarrow> nat" where
  "next_batch_demand held fresh E p cap =
     (let cap' = min cap MAX_OFFER_IDS in
      if held then length (take cap' (filter (\<lambda>tid. the (is_unhandled (pp_slot p) tid E)) fresh))
      else min (unhandled_message_count (pp_slot p) E) cap')"

text \<open>\<open>waiting\<close> and \<open>demand\<close>; \<open>enough\<close> ends the counting of the demand.\<close>

fun contention_loop :: "(prop_peer \<Rightarrow> bool) \<Rightarrow> (prop_peer \<Rightarrow> nat \<Rightarrow> nat) \<Rightarrow> bytes \<Rightarrow> nat \<Rightarrow> (bytes \<times> prop_peer) list \<Rightarrow>
    nat \<Rightarrow> nat \<Rightarrow> nat \<times> nat" where
  "contention_loop contends demand_of except enough [] waiting demand = (waiting, demand)"
| "contention_loop contends demand_of except enough ((h, p) # ps) waiting demand =
     (if h = except \<or> \<not> contends p then contention_loop contends demand_of except enough ps waiting demand
      else contention_loop contends demand_of except enough ps (waiting + 1)
        (if demand \<le> enough then demand + demand_of p (enough - demand + 1) else demand))"

definition budget_contention :: "secs \<Rightarrow> bool \<Rightarrow> bytes \<Rightarrow> nat \<Rightarrow> sync_node \<Rightarrow> nat \<times> nat" where
  "budget_contention t held except enough n =
     contention_loop (\<lambda>p. contends_for_sync p t held (sn_fresh n) (sn_entries n))
       (next_batch_demand held (sn_fresh n) (sn_entries n)) except enough (sn_peers n) 0 0"

definition fair_share :: "nat \<Rightarrow> sync_node \<Rightarrow> nat" where
  "fair_share contenders n =
     (let budget = real (sn_budget n);
          equal = budget / real (max contenders 1);
          per_tick = budget * PEER_SYNC_INTERVAL_SECS / OUTBOUND_BUDGET_WINDOW_SECS
      in max (nat \<lceil>max equal per_tick\<rceil>) 1)"

section \<open>The offer\<close>

record offer_candidate =
  oc_tid :: bytes
  oc_size :: nat
  oc_weight :: real

record offer_plan =
  op_offer :: "bytes list"
  op_too_big :: "bytes list"
  op_over_resource :: "bytes list"
  op_estimated :: real

definition PER_MESSAGE_OVERHEAD :: real where "PER_MESSAGE_OVERHEAD = 16"
definition BATCH_OVERHEAD :: real where "BATCH_OVERHEAD = 24"

text \<open>\<open>resource_max\<close> is \<open>MAX_SYNC_RESOURCE_BYTES\<close>, a constant of the Reticulum stack.\<close>

definition plan_one :: "nat \<Rightarrow> real option \<Rightarrow> real option \<Rightarrow> nat \<Rightarrow> offer_candidate \<Rightarrow> offer_plan \<Rightarrow> offer_plan" where
  "plan_one resource_max transfer_limit sync_limit max_ids c plan =
     (let transfer_size = real (oc_size c) + PER_MESSAGE_OVERHEAD;
          next_size = op_estimated plan + transfer_size
      in if (case transfer_limit of Some l \<Rightarrow> transfer_size > l * 1000 | None \<Rightarrow> False)
         then plan\<lparr>op_too_big := op_too_big plan @ [oc_tid c]\<rparr>
         else if BATCH_OVERHEAD + transfer_size > real resource_max
         then plan\<lparr>op_over_resource := op_over_resource plan @ [oc_tid c]\<rparr>
         else if max_ids \<le> length (op_offer plan) then plan
         else if (case sync_limit of Some l \<Rightarrow> next_size \<ge> l * 1000 | None \<Rightarrow> False) then plan
         else if next_size > real resource_max then plan
         else plan\<lparr>op_estimated := next_size, op_offer := op_offer plan @ [oc_tid c]\<rparr>)"

definition plan_offer :: "nat \<Rightarrow> offer_candidate list \<Rightarrow> real option \<Rightarrow> real option \<Rightarrow> nat \<Rightarrow> offer_plan" where
  "plan_offer resource_max candidates transfer_limit sync_limit max_ids =
     fold (plan_one resource_max transfer_limit sync_limit max_ids) (sort_key oc_weight candidates)
       \<lparr>op_offer = [], op_too_big = [], op_over_resource = [], op_estimated = BATCH_OVERHEAD\<rparr>"

end
