(* ===== verification/PeerSessions.thy ===== *)
theory PeerSessions
  imports PeerSync
begin

text \<open>
  The handlers of a sync session (\<open>LXMPeer\<close> in \<open>rfed/src/lxmf_propagation.rs\<close>): each takes the
  node lock once, and any number of other handlers may run between two of them. A callback
  carries the number of the session it was made for.
\<close>

section \<open>Ending a session, unpeering\<close>

definition end_sync :: "bytes \<Rightarrow> sync_node \<Rightarrow> sync_act list \<times> sync_node" where
  "end_sync h n = ([CloseLink h], peer_upd h (\<lambda>p. p\<lparr>pp_state := IDLE, pp_link := None, pp_identified := None,
     pp_reidentified := False, pp_transferring := None, pp_started := None, pp_last_offer := [], pp_reserved := 0,
     pp_turn_sent := 0, pp_session := pp_session p + 1\<rparr>) n)"

definition mark_handled_for :: "bytes \<Rightarrow> bytes list \<Rightarrow> sync_node \<Rightarrow> sync_node" where
  "mark_handled_for h ids n = (case hget (sn_peers n) h of
      None \<Rightarrow> n
    | Some p \<Rightarrow> n\<lparr>sn_entries := fold (\<lambda>tid E. the (mark_handled (pp_slot p) tid E)) ids (sn_entries n)\<rparr>)"

definition marks_left :: "nat \<Rightarrow> propagation_entries \<Rightarrow> bool" where
  "marks_left slot E \<longleftrightarrow> 0 < handled_message_count slot E + unhandled_message_count slot E"

definition unpeer :: "bytes \<Rightarrow> sync_node \<Rightarrow> sync_act list \<times> sync_node" where
  "unpeer h n = ([CloseLink h], case hget (sn_peers n) h of
      None \<Rightarrow> n
    | Some p \<Rightarrow>
        (let n' = n\<lparr>sn_peers := hdel h (sn_peers n)\<rparr>
         in if marks_left (pp_slot p) (sn_entries n') then n'\<lparr>sn_departed := hput (pp_hash p) (pp_slot p) (sn_departed n')\<rparr> else n'))"

section \<open>Starting a session and preparing the offer\<close>

datatype gate = Postpone | NothingToSync | Busy | Proceed

definition session_gate :: "secs \<Rightarrow> bool \<Rightarrow> bytes list \<Rightarrow> propagation_entries \<Rightarrow> prop_peer \<Rightarrow> gate" where
  "session_gate t held fresh E p =
     (if t \<le> pp_next_attempt p then Postpone
      else if t \<le> pp_throttled_until p then Postpone
      else if pp_stamp_cost p = None \<or> pp_stamp_flexibility p = None \<or> pp_peering_cost p = None then Postpone
      else if \<not> peering_key_ready p then Postpone
      else if peering_key_refused p then Postpone
      else if \<not> has_sync_candidates held fresh E p then NothingToSync
      else if pp_transferring p \<noteq> None then Busy
      else Proceed)"

record prepared_offer =
  po_session :: nat
  po_candidates :: "offer_candidate list"
  po_transfer_limit :: "real option"
  po_sync_limit :: "real option"

definition entry_weight :: "secs \<Rightarrow> propagation_entry \<Rightarrow> real" where
  "entry_weight t e = max ((t - pe_received e) / 86400 / 4) 1 * real (pe_size e)"

definition min_accepted_cost :: "prop_peer \<Rightarrow> nat" where
  "min_accepted_cost p = (case pp_stamp_cost p of None \<Rightarrow> 0 | Some c \<Rightarrow> c) -
     (case pp_stamp_flexibility p of None \<Rightarrow> 0 | Some f \<Rightarrow> f)"

definition open_session :: "secs \<Rightarrow> prop_peer \<Rightarrow> prop_peer" where
  "open_session t p = p\<lparr>pp_backoff := pp_backoff p + SYNC_BACKOFF_STEP_SECS,
     pp_next_attempt := t + (pp_backoff p + SYNC_BACKOFF_STEP_SECS), pp_session := pp_session p + 1,
     pp_turn_sent := 0, pp_link := None, pp_identified := None, pp_reidentified := False,
     pp_state := LINK_ESTABLISHING\<rparr>"

definition gather_offer :: "secs \<Rightarrow> bool \<Rightarrow> bytes \<Rightarrow> prop_peer \<Rightarrow> sync_node \<Rightarrow> prepared_offer \<times> sync_node" where
  "gather_offer t held h p n =
     (let n1 = peer_upd h (\<lambda>p. p\<lparr>pp_alive := True, pp_last_heard := t, pp_backoff := 0\<rparr>) n;
          pool = sync_pool_for held (sn_fresh n1) (sn_entries n1) p;
          low = (\<lambda>(_, e). unat (pe_stamp e) < min_accepted_cost p);
          candidates = map (\<lambda>(tid, e). \<lparr>oc_tid = tid, oc_size = pe_size e, oc_weight = entry_weight t e\<rparr>) (filter (\<lambda>x. \<not> low x) pool);
          E = fold (\<lambda>(tid, _) E. snd (the (remove_unhandled_message (pp_slot p) tid E))) (filter low pool) (sn_entries n1)
      in (\<lparr>po_session = pp_session p, po_candidates = candidates, po_transfer_limit = pp_transfer_limit p,
           po_sync_limit = pp_sync_limit p\<rparr>, n1\<lparr>sn_entries := E\<rparr>))"

text \<open>\<open>active\<close> is the link \<open>AppLinks\<close> holds for the peer.\<close>

definition prepare_sync :: "secs \<Rightarrow> bool \<Rightarrow> bytes option \<Rightarrow> bytes \<Rightarrow> sync_node \<Rightarrow> prepared_offer option \<times> sync_act list \<times> sync_node" where
  "prepare_sync t held active h n =
     (case hget (sn_peers n) h of
        None \<Rightarrow> (None, [], n)
      | Some p \<Rightarrow>
          if pp_state p \<noteq> IDLE \<and> pp_state p \<noteq> LINK_READY then (None, [], n)
          else
            (let alive = (if t \<le> pp_next_attempt p \<and> t > pp_last_heard p then False else pp_alive p);
                 p1 = p\<lparr>pp_last_attempt := t, pp_alive := alive\<rparr>;
                 n1 = peer_upd h (\<lambda>_. p1) n
             in case session_gate t held (sn_fresh n) (sn_entries n) p of
                  Busy \<Rightarrow> (None, [], n1)
                | Proceed \<Rightarrow>
                    if pp_state p = IDLE then
                      (None, (if active \<noteq> None then [CloseLink h] else []) @ [OpenLink h], peer_upd h (open_session t) n1)
                    else (let (prepared, n2) = gather_offer t held h p1 n1 in (Some prepared, [], n2))
                | _ \<Rightarrow> (None, if pp_state p = LINK_READY then end_sync h n1 else ([], n1))))"

section \<open>Sending the offer\<close>

definition offer_cap :: "nat \<Rightarrow> nat \<Rightarrow> nat \<Rightarrow> nat \<Rightarrow> nat \<Rightarrow> sync_node \<Rightarrow> nat" where
  "offer_cap allowance wanted turn_sent waiting demand n =
     (if 0 < waiting \<and> allowance < wanted + demand then min allowance (fair_share (waiting + 1) n - turn_sent)
      else allowance)"

text \<open>\<open>identified\<close> and \<open>requested\<close> tell whether the link took the identification and the request.\<close>

definition send_offer :: "secs \<Rightarrow> secs \<Rightarrow> bool \<Rightarrow> bool \<Rightarrow> bool \<Rightarrow> bytes \<Rightarrow> nat \<Rightarrow> offer_plan \<Rightarrow> sync_node \<Rightarrow> sync_act list \<times> sync_node" where
  "send_offer m t held identified requested h session plan n =
     (case hget (sn_peers n) h of
        None \<Rightarrow> ([], n)
      | Some p \<Rightarrow>
          if pp_state p \<noteq> LINK_READY \<or> pp_session p \<noteq> session then ([], n)
          else
            (let n1 = mark_handled_for h (op_over_resource plan) (mark_handled_for h (op_too_big plan) n);
                 (allowance, n2) = outbound_allowance m n1;
                 wanted = filter (\<lambda>tid. the (is_unhandled (pp_slot p) tid (sn_entries n2))) (op_offer plan);
                 (waiting, demand) = budget_contention t held h (allowance - length wanted) n2;
                 offer = take (offer_cap allowance (length wanted) (pp_turn_sent p) waiting demand n2) wanted
             in if offer = [] then end_sync h n2
                else case (pp_link p, pp_peering_key p) of
                  (Some link, Some (key, _)) \<Rightarrow>
                    (let needs = pp_identified p \<noteq> Some link;
                         acts = (if needs then [Identify h link] else [])
                     in if needs \<and> \<not> identified then (acts @ fst (end_sync h n2), snd (end_sync h n2))
                        else
                          (let session' = pp_session p + 1;
                               n3 = peer_upd h (\<lambda>p. p\<lparr>pp_identified := Some link, pp_session := session', pp_last_offer := offer,
                                 pp_reserved := length offer, pp_state := REQUEST_SENT\<rparr>) n2;
                               acts' = acts @ [RequestOffer h link session' key offer]
                           in if requested then (acts', n3) else (acts' @ fst (end_sync h n3), snd (end_sync h n3))))
                | _ \<Rightarrow> end_sync h n2))"

section \<open>The answer to an offer\<close>

text \<open>
  The value \<open>read_value\<close> finds in the response: an integer with its \<open>as_u64\<close>, a boolean, an
  array with the bytes of its binary items, or another value.
\<close>

datatype answer_value = AnswerInt "nat option" | AnswerBool bool | AnswerList "bytes option list" | AnswerOther

datatype offer_next = OfferDone | OfferResync | OfferSend "(bytes \<times> string) list"

definition ERROR_NO_IDENTITY :: nat where "ERROR_NO_IDENTITY = 240"
definition ERROR_NO_ACCESS :: nat where "ERROR_NO_ACCESS = 241"
definition ERROR_INVALID_KEY :: nat where "ERROR_INVALID_KEY = 243"
definition ERROR_THROTTLED :: nat where "ERROR_THROTTLED = 246"

definition refuse_key :: "prop_peer \<Rightarrow> prop_peer" where
  "refuse_key p = (if pp_peering_cost p \<noteq> None \<and> pp_reground_at p = pp_peering_cost p
     then p\<lparr>pp_refused_at := pp_peering_cost p\<rparr>
     else p\<lparr>pp_peering_key := None, pp_reground_at := pp_peering_cost p\<rparr>)"

definition answer_code :: "secs \<Rightarrow> bytes \<Rightarrow> nat \<Rightarrow> prop_peer \<Rightarrow> sync_node \<Rightarrow> offer_next \<times> sync_act list \<times> sync_node" where
  "answer_code t h code p n =
     (if code = ERROR_NO_IDENTITY \<and> \<not> pp_reidentified p then
        (OfferResync, [], peer_upd h (\<lambda>p. p\<lparr>pp_reidentified := True, pp_identified := None, pp_reserved := 0, pp_state := LINK_READY\<rparr>) n)
      else if code = ERROR_NO_ACCESS then (OfferDone, unpeer h n)
      else if code = ERROR_THROTTLED then
        (OfferDone, end_sync h (peer_upd h (\<lambda>p. p\<lparr>pp_throttled_until := t + PN_STAMP_THROTTLE_SECS\<rparr>) n))
      else if code = ERROR_INVALID_KEY then (OfferDone, end_sync h (peer_upd h refuse_key n))
      else (OfferDone, end_sync h n))"

text \<open>The ids the peer wants, once those it has are marked handled.\<close>

definition wanted_ids :: "bytes list \<Rightarrow> bytes option list \<Rightarrow> bytes list" where
  "wanted_ids last_offer items = filter (\<lambda>tid. tid \<in> set last_offer) (List.map_filter id items)"

definition unwanted_ids :: "bytes list \<Rightarrow> bytes option list \<Rightarrow> bytes list" where
  "unwanted_ids last_offer items = filter (\<lambda>tid. tid \<notin> set (List.map_filter id items)) last_offer"

definition send_wanted :: "(bytes \<Rightarrow> propagation_entry \<Rightarrow> string) \<Rightarrow> bytes \<Rightarrow> bytes list \<Rightarrow> sync_node \<Rightarrow> offer_next \<times> sync_act list \<times> sync_node" where
  "send_wanted path h wanted n =
     (let files = List.map_filter (\<lambda>tid. map_option (\<lambda>e. (tid, path tid e)) (the (get_entry tid (sn_entries n)))) wanted
      in if wanted = [] \<or> files = [] then (OfferDone, end_sync h n)
         else (OfferSend files, [], peer_upd h (\<lambda>p. p\<lparr>pp_reserved := length files, pp_state := RESOURCE_TRANSFERRING\<rparr>) n))"

definition apply_offer_response :: "secs \<Rightarrow> (bytes \<Rightarrow> propagation_entry \<Rightarrow> string) \<Rightarrow> bytes \<Rightarrow> nat \<Rightarrow> answer_value option \<Rightarrow> sync_node \<Rightarrow>
    offer_next \<times> sync_act list \<times> sync_node" where
  "apply_offer_response t path h session answer n =
     (case hget (sn_peers n) h of
        None \<Rightarrow> (OfferDone, [], n)
      | Some p \<Rightarrow>
          if pp_state p \<noteq> REQUEST_SENT \<or> pp_session p \<noteq> session then (OfferDone, [], n)
          else
            (let last_offer = pp_last_offer p;
                 n1 = peer_upd h (\<lambda>p. p\<lparr>pp_state := RESPONSE_RECEIVED, pp_last_offer := []\<rparr>) n
             in case answer of
                  Some (AnswerInt code) \<Rightarrow> answer_code t h (case code of None \<Rightarrow> 0 | Some c \<Rightarrow> c mod 256) p n1
                | Some (AnswerBool False) \<Rightarrow> send_wanted path h [] (mark_handled_for h last_offer n1)
                | Some (AnswerBool True) \<Rightarrow> send_wanted path h last_offer n1
                | Some (AnswerList items) \<Rightarrow>
                    send_wanted path h (wanted_ids last_offer items) (mark_handled_for h (unwanted_ids last_offer items) n1)
                | _ \<Rightarrow> (OfferDone, end_sync h n1)))"

section \<open>The Resource\<close>

datatype file_read = FileRead bytes | FileMissing | FileUnreadable

text \<open>The ids read, their messages, and the ids whose file is gone.\<close>

definition read_files :: "(string \<Rightarrow> file_read) \<Rightarrow> (bytes \<times> string) list \<Rightarrow> bytes list \<times> bytes list \<times> (bytes \<times> string) list" where
  "read_files read files =
     (map fst (filter (\<lambda>(_, path). case read path of FileRead _ \<Rightarrow> True | _ \<Rightarrow> False) files),
      List.map_filter (\<lambda>(_, path). case read path of FileRead d \<Rightarrow> Some d | _ \<Rightarrow> None) files,
      filter (\<lambda>(_, path). read path = FileMissing) files)"

definition forget_missing_messages :: "(bytes \<Rightarrow> propagation_entry \<Rightarrow> string) \<Rightarrow> (bytes \<times> string) list \<Rightarrow> sync_node \<Rightarrow> sync_node" where
  "forget_missing_messages path missing n = n\<lparr>sn_entries := fold (\<lambda>(tid, file) E.
     case the (get_entry tid E) of
       Some e \<Rightarrow> if path tid e = file then snd (the (remove_entry tid E)) else E
     | None \<Rightarrow> E) missing (sn_entries n)\<rparr>"

text \<open>
  \<open>send_sync_resource\<close> under the lock: what was read is to go out on the session's link. The
  link's refusal comes back under the lock taken again, \<open>resource_refused\<close>.
\<close>

definition send_sync_resource :: "secs \<Rightarrow> secs \<Rightarrow> (bytes \<Rightarrow> propagation_entry \<Rightarrow> string) \<Rightarrow> (string \<Rightarrow> file_read) \<Rightarrow> bytes \<Rightarrow> nat \<Rightarrow>
    (bytes \<times> string) list \<Rightarrow> sync_node \<Rightarrow> sync_act list \<times> sync_node" where
  "send_sync_resource m t path read h session files n =
     (let (ids, messages, missing) = read_files read files;
          n1 = forget_missing_messages path missing n
      in case hget (sn_peers n1) h of
           None \<Rightarrow> ([], n1)
         | Some p \<Rightarrow>
             if pp_state p \<noteq> RESOURCE_TRANSFERRING \<or> pp_session p \<noteq> session then ([], n1)
             else (case pp_link p of
                 None \<Rightarrow> end_sync h n1
               | Some link \<Rightarrow>
                   if ids = [] then end_sync h n1
                   else ([SendResource h link session ids],
                         record_outbound_send m h (length messages)
                           (peer_upd h (\<lambda>p. p\<lparr>pp_transferring := Some ids, pp_started := Some t\<rparr>) n1))))"

definition resource_refused :: "bytes \<Rightarrow> nat \<Rightarrow> sync_node \<Rightarrow> sync_act list \<times> sync_node" where
  "resource_refused h session n = (case hget (sn_peers n) h of
      Some p \<Rightarrow> if pp_state p = RESOURCE_TRANSFERRING \<and> pp_session p = session then end_sync h n else ([], n)
    | None \<Rightarrow> ([], n))"

definition sync_completed :: "secs \<Rightarrow> nat \<Rightarrow> secs option \<Rightarrow> prop_peer \<Rightarrow> prop_peer" where
  "sync_completed t transfer_size started p =
     p\<lparr>pp_rate := (case started of Some s \<Rightarrow> real transfer_size * 8 / max (t - s) (1 / 1000) | None \<Rightarrow> pp_rate p),
       pp_alive := True, pp_last_heard := t\<rparr>"

text \<open>Does the session yield its turn: the budget binds, others wait, and its share is sent or cannot go on.\<close>

definition yields :: "nat \<Rightarrow> nat \<Rightarrow> nat \<Rightarrow> nat \<Rightarrow> nat \<Rightarrow> bool \<Rightarrow> sync_node \<Rightarrow> bool" where
  "yields allowance own turn_sent waiting demand on_held_link n \<longleftrightarrow>
     0 < waiting \<and> allowance < own + demand \<and>
     (fair_share (waiting + 1) n \<le> turn_sent \<or> allowance = 0 \<or> \<not> on_held_link)"

definition apply_resource_outcome :: "secs \<Rightarrow> secs \<Rightarrow> bool \<Rightarrow> bool \<Rightarrow> bytes option \<Rightarrow> bytes \<Rightarrow> nat \<Rightarrow> bool \<Rightarrow> nat \<Rightarrow> sync_node \<Rightarrow>
    bool \<times> sync_act list \<times> sync_node" where
  "apply_resource_outcome m t held held' active h session completed transfer_size n =
     (case hget (sn_peers n) h of
        None \<Rightarrow> (False, [], n)
      | Some p \<Rightarrow>
          if pp_state p \<noteq> RESOURCE_TRANSFERRING \<or> pp_session p \<noteq> session \<or> pp_transferring p = None then (False, [], n)
          else
            (let ids = (case pp_transferring p of None \<Rightarrow> [] | Some ids \<Rightarrow> ids);
                 n1 = peer_upd h (\<lambda>p. p\<lparr>pp_transferring := None, pp_started := None\<rparr>) n
             in if \<not> completed then (False, end_sync h n1)
                else
                  (let n2 = peer_upd h (sync_completed t transfer_size (pp_started p)) (mark_handled_for h ids n1);
                       more = has_sync_candidates held (sn_fresh n2) (sn_entries n2) p;
                       on_held_link = (active \<noteq> None \<and> active = pp_link p)
                   in if \<not> more then (False, end_sync h n2)
                      else
                        (let own = next_batch_demand held (sn_fresh n2) (sn_entries n2) p MAX_OFFER_IDS;
                             (allowance, n3) = outbound_allowance m n2;
                             (waiting, demand) = budget_contention t held' h (allowance - own) n3
                         in if yields allowance own (pp_turn_sent p) waiting demand on_held_link n3 then (False, end_sync h n3)
                            else if on_held_link then (True, [], peer_upd h (\<lambda>p. p\<lparr>pp_state := LINK_READY\<rparr>) n3)
                            else (True, end_sync h n3)))))"

section \<open>Link events\<close>

definition on_offer_failed :: "bytes \<Rightarrow> nat \<Rightarrow> sync_node \<Rightarrow> sync_act list \<times> sync_node" where
  "on_offer_failed h session n = (case hget (sn_peers n) h of
      Some p \<Rightarrow> if pp_state p = REQUEST_SENT \<and> pp_session p = session then end_sync h n else ([], n)
    | None \<Rightarrow> ([], n))"

text \<open>Whether the offer is to be prepared at once, on a link just up.\<close>

definition on_link_active :: "bytes option \<Rightarrow> bytes \<Rightarrow> bytes \<Rightarrow> sync_node \<Rightarrow> bool \<times> sync_act list \<times> sync_node" where
  "on_link_active active h link n =
     (case hget (sn_peers n) h of
        None \<Rightarrow> (False, [CloseLink h], n)
      | Some p \<Rightarrow>
          if pp_state p = IDLE then (False, [CloseLink h], n)
          else if active \<noteq> Some link then (False, [], n)
          else if pp_state p = LINK_ESTABLISHING then
            (True, [], peer_upd h (\<lambda>p. p\<lparr>pp_link := Some link, pp_identified := None, pp_reidentified := False,
               pp_next_attempt := 0, pp_state := LINK_READY\<rparr>) n)
          else if pp_link p = Some link then (False, [], n)
          else (False, end_sync h n))"

definition on_link_down :: "bool \<Rightarrow> bytes option \<Rightarrow> bytes \<Rightarrow> sync_node \<Rightarrow> sync_act list \<times> sync_node" where
  "on_link_down attempt_live active h n =
     (case hget (sn_peers n) h of
        None \<Rightarrow> ([], n)
      | Some p \<Rightarrow>
          if pp_state p = IDLE then ([], n)
          else if pp_state p = LINK_ESTABLISHING then (if attempt_live then ([], n) else end_sync h n)
          else if active \<noteq> None \<and> active = pp_link p then ([], n)
          else end_sync h n)"

end
