(* ===== verification/Peering.thy ===== *)
theory Peering
  imports PeerSessions
begin

text \<open>
  Choosing the peer of the next session (\<open>select_sync_peer\<close>, \<open>tick_sync\<close>) and keeping the
  peers themselves: their slots, what their announces say, and unpeering (\<open>peer\<close>,
  \<open>insert_peer\<close>, \<open>free_peer_slot\<close> of \<open>rfed/src/lxmf_propagation.rs\<close>).
\<close>

section \<open>Choosing a peer\<close>

datatype candidate_kind = NoCandidate | NotReady | HeldOff | Demoted | Waiting | Unresponsive | BackingOff

definition candidate_kind_of :: "secs \<Rightarrow> bool \<Rightarrow> bytes list \<Rightarrow> propagation_entries \<Rightarrow> prop_peer \<Rightarrow> candidate_kind" where
  "candidate_kind_of t held fresh E p =
     (if pp_state p \<noteq> IDLE \<or> \<not> has_sync_candidates held fresh E p then NoCandidate
      else if \<not> sync_ready p then NotReady
      else if t \<le> pp_throttled_until p then HeldOff
      else if pp_alive p then (if t \<le> pp_next_attempt p then Demoted else Waiting)
      else if t > pp_next_attempt p then Unresponsive else BackingOff)"

fun demand_loop :: "(prop_peer \<Rightarrow> nat \<Rightarrow> nat) \<Rightarrow> nat \<Rightarrow> (bytes, prop_peer) hmap \<Rightarrow> bytes list \<Rightarrow> nat \<Rightarrow> nat" where
  "demand_loop demand_of allowance peers [] demand = demand"
| "demand_loop demand_of allowance peers (h # hs) demand =
     (if allowance < demand then demand
      else demand_loop demand_of allowance peers hs
        (case hget peers h of Some p \<Rightarrow> demand + demand_of p (allowance - demand + 1) | None \<Rightarrow> demand))"

definition last_turn :: "(bytes, prop_peer) hmap \<Rightarrow> bytes \<Rightarrow> secs" where
  "last_turn peers h = (case hget peers h of Some p \<Rightarrow> pp_last_attempt p | None \<Rightarrow> 0)"

definition least_recent :: "(bytes, prop_peer) hmap \<Rightarrow> bytes list \<Rightarrow> bytes list" where
  "least_recent peers contenders = (case contenders of
      [] \<Rightarrow> []
    | h # hs \<Rightarrow> (let oldest = fold min (map (last_turn peers) hs) (last_turn peers h)
        in filter (\<lambda>h. last_turn peers h = oldest) contenders))"

definition fastest_pool :: "(bytes \<times> real) list \<Rightarrow> bytes list" where
  "fastest_pool waiting =
     (let fastest = take (min FASTEST_N_RANDOM_POOL (length waiting)) (sort_key (\<lambda>(_, rate). - rate) waiting)
      in map fst fastest @ map fst (take (length fastest) (filter (\<lambda>(_, rate). rate = 0) waiting)))"

text \<open>\<open>pick k\<close> is the random index the caller drew for a pool of \<open>k\<close> peers.\<close>

definition select_sync_peer :: "secs \<Rightarrow> secs \<Rightarrow> bool \<Rightarrow> (nat \<Rightarrow> nat) \<Rightarrow> sync_node \<Rightarrow> bytes option \<times> sync_node" where
  "select_sync_peer t m held pick n =
     (let (allowance, n1) = outbound_allowance m n;
          kind = candidate_kind_of t held (sn_fresh n1) (sn_entries n1);
          peers = map (\<lambda>(h, p). (h, if kind p = Demoted then p\<lparr>pp_alive := False\<rparr> else p)) (sn_peers n1);
          waiting = map (\<lambda>(h, p). (h, pp_rate p)) (filter (\<lambda>(_, p). kind p = Waiting) (sn_peers n1));
          unresponsive = map fst (filter (\<lambda>(_, p). kind p = Unresponsive) (sn_peers n1));
          contenders = map fst waiting @ unresponsive;
          binds = (allowance < demand_loop (next_batch_demand held (sn_fresh n1) (sn_entries n1)) allowance peers contenders 0);
          pool = (if binds then least_recent peers contenders
                  else if waiting \<noteq> [] then fastest_pool waiting
                  else unresponsive);
          n2 = n1\<lparr>sn_peers := peers\<rparr>
      in if pool = [] then (None, n2) else (Some (pool ! min (pick (length pool)) (length pool - 1)), n2))"

section \<open>The tick\<close>

definition MAX_UNREACHABLE_SECS :: secs where "MAX_UNREACHABLE_SECS = 14 * 24 * 3600"

definition note_backlog_hold :: "bool \<Rightarrow> sync_node \<Rightarrow> sync_node" where
  "note_backlog_hold held n =
     (if held \<and> \<not> sn_backlog_logged n then n\<lparr>sn_backlog_logged := True\<rparr>
      else if \<not> held \<and> sn_backlog_logged n then n\<lparr>sn_backlog_logged := False, sn_fresh := []\<rparr>
      else n)"

definition unpeer_all :: "bytes list \<Rightarrow> sync_node \<Rightarrow> sync_act list \<times> sync_node" where
  "unpeer_all hs n = fold (\<lambda>h (acts, n). (acts @ fst (unpeer h n), snd (unpeer h n))) hs ([], n)"

definition unreachable_peers :: "secs \<Rightarrow> bytes list \<Rightarrow> sync_node \<Rightarrow> bytes list" where
  "unreachable_peers t static n =
     map fst (filter (\<lambda>(h, p). t > pp_last_heard p + MAX_UNREACHABLE_SECS \<and> h \<notin> set static) (sn_peers n))"

definition needs_keys :: "sync_node \<Rightarrow> bytes list" where
  "needs_keys n = map fst (filter (\<lambda>(_, p). pp_alive p \<and> pp_peering_cost p \<noteq> None \<and> \<not> peering_key_ready p) (sn_peers n))"

text \<open>
  The keys to grind, the peer to start a session with, and the time of the last tick. The
  clearing of throttled inbound peers is not part of this state.
\<close>

definition tick_sync :: "secs \<Rightarrow> secs \<Rightarrow> secs \<Rightarrow> bool \<Rightarrow> (nat \<Rightarrow> nat) \<Rightarrow> bytes list \<Rightarrow> secs \<Rightarrow> sync_node \<Rightarrow>
    (bytes list \<times> bytes option \<times> sync_act list) option \<times> secs \<times> sync_node" where
  "tick_sync t m m' held pick static last_tick n =
     (if t - last_tick < PEER_SYNC_INTERVAL_SECS then (None, last_tick, n)
      else
        (let n1 = note_backlog_hold held n;
             (acts, n2) = unpeer_all (unreachable_peers t static n1) n1;
             keys = needs_keys n2;
             (allowed, _, n3) = outbound_sync_allowed m n2;
             (chosen, n4) = (if allowed then select_sync_peer t m' held pick n3 else (None, n3))
         in (Some (keys, chosen, acts), t, n4)))"

section \<open>Peers and their slots\<close>

text \<open>The lowest slot no peer and no departed peer's marks hold.\<close>

definition free_peer_slot :: "sync_node \<Rightarrow> nat \<times> sync_node" where
  "free_peer_slot n =
     (let departed = filter (\<lambda>(_, slot). marks_left slot (sn_entries n)) (sn_departed n);
          used = map (\<lambda>(_, p). pp_slot p) (sn_peers n) @ map snd departed;
          taken = length (sn_peers n) + length departed;
          slot_held = map (\<lambda>slot. slot \<in> set used) [0..<taken + 1]
      in (case position (\<lambda>b. \<not> b) slot_held of Some slot \<Rightarrow> slot | None \<Rightarrow> taken, n\<lparr>sn_departed := departed\<rparr>))"

definition insert_peer :: "prop_peer \<Rightarrow> sync_node \<Rightarrow> sync_node" where
  "insert_peer p n =
     (let h = pp_hash p;
          (slot, n1) = (case hget (sn_peers n) h of
             Some old \<Rightarrow> (pp_slot old, n\<lparr>sn_peers := hdel h (sn_peers n)\<rparr>)
           | None \<Rightarrow> (case hget (sn_departed n) h of
               Some slot \<Rightarrow> (slot, n\<lparr>sn_departed := hdel h (sn_departed n)\<rparr>)
             | None \<Rightarrow> free_peer_slot n))
      in n1\<lparr>sn_peers := hput h (p\<lparr>pp_slot := slot\<rparr>) (sn_peers n1)\<rparr>)"

section \<open>Announces\<close>

text \<open>What a valid announce says, as the handler reads it.\<close>

record announce_config =
  ac_timebase :: secs
  ac_enabled :: bool
  ac_transfer_limit :: real
  ac_sync_limit :: real
  ac_stamp_cost :: nat
  ac_stamp_flexibility :: nat
  ac_peering_cost :: nat
  ac_metadata :: bytes

definition announced :: "secs \<Rightarrow> announce_config \<Rightarrow> prop_peer \<Rightarrow> prop_peer" where
  "announced t c p = p\<lparr>pp_alive := True, pp_last_heard := t, pp_timebase := ac_timebase c,
     pp_stamp_cost := Some (ac_stamp_cost c), pp_stamp_flexibility := Some (ac_stamp_flexibility c),
     pp_peering_cost := Some (ac_peering_cost c), pp_transfer_limit := Some (ac_transfer_limit c),
     pp_sync_limit := (if ac_sync_limit c > 0 then Some (ac_sync_limit c) else Some (ac_transfer_limit c)),
     pp_metadata := Some (ac_metadata c)\<rparr>"

definition forget_refusals :: "nat \<Rightarrow> prop_peer \<Rightarrow> prop_peer" where
  "forget_refusals cost p = (if pp_peering_cost p \<noteq> Some cost then p\<lparr>pp_reground_at := None, pp_refused_at := None\<rparr> else p)"

definition add_peer :: "secs \<Rightarrow> bytes \<Rightarrow> announce_config \<Rightarrow> sync_node \<Rightarrow> sync_node" where
  "add_peer t h c n =
     (if MAX_PEERING_COST < ac_peering_cost c then n
      else case hget (sn_peers n) h of
          Some p \<Rightarrow>
            if ac_timebase c > pp_timebase p
            then peer_upd h (\<lambda>p. announced t c (forget_refusals (ac_peering_cost c) p)) n else n
        | None \<Rightarrow> if length (sn_peers n) < MAX_PEERS then insert_peer (announced t c (new_prop_peer h)) n else n)"

text \<open>\<open>config\<close> is \<open>None\<close> when the application data is not a valid announce of seven items.\<close>

definition handle_propagation_announce :: "secs \<Rightarrow> bytes \<Rightarrow> bytes list \<Rightarrow> bool \<Rightarrow> bytes \<Rightarrow> announce_config option \<Rightarrow> bool \<Rightarrow>
    sync_node \<Rightarrow> sync_node" where
  "handle_propagation_announce t own static autopeer h config is_path_response n =
     (if h = own then n
      else case config of
          None \<Rightarrow> n
        | Some c \<Rightarrow>
            if h \<in> set static then add_peer t h c n
            else if autopeer \<and> \<not> is_path_response \<and> ac_enabled c then add_peer t h c n
            else n)"

end
