(* ===== verification/PeerBudget.thy ===== *)
theory PeerBudget
  imports Peering
begin

text \<open>
  The outbound budget under every interleaving: runs of the session handlers, the tick, the
  announces and everything else the node does, and the invariant that what was sent in the
  last minute plus what is reserved stays within the budget.
\<close>

section \<open>Runs\<close>

text \<open>
  \<open>sw_hist\<close> lists every send ever handed to a link, \<open>sw_pending\<close> the messages an answer asked
  for, between \<open>apply_offer_response\<close> and \<open>send_sync_resource\<close>: one worker thread runs the
  session handlers, so none runs in between, but the tick and the announces do.
\<close>

record sync_world =
  sw_node :: sync_node
  sw_clock :: secs
  sw_pending :: "(bytes \<times> nat \<times> (bytes \<times> string) list) option"
  sw_hist :: "(secs \<times> nat) list"

definition sent_by :: "secs \<Rightarrow> sync_act list \<Rightarrow> (secs \<times> nat) list" where
  "sent_by m acts = List.map_filter (\<lambda>a. case a of SendResource _ _ _ ids \<Rightarrow> Some (m, length ids) | _ \<Rightarrow> None) acts"

definition after :: "secs \<Rightarrow> sync_node \<Rightarrow> sync_act list \<Rightarrow> (bytes \<times> nat \<times> (bytes \<times> string) list) option \<Rightarrow> sync_world \<Rightarrow> sync_world" where
  "after m n acts pending w = w\<lparr>sw_node := n, sw_clock := m, sw_pending := pending, sw_hist := sw_hist w @ sent_by m acts\<rparr>"

definition pending_of :: "bytes \<Rightarrow> nat \<Rightarrow> offer_next \<Rightarrow> (bytes \<times> nat \<times> (bytes \<times> string) list) option" where
  "pending_of h session next = (case next of OfferSend files \<Rightarrow> Some (h, session, files) | _ \<Rightarrow> None)"

text \<open>
  Storing and expiring messages, grinding keys and whatever else the node does: it keeps the
  sends, the reservations and the state of the sessions.
\<close>

definition same_session :: "prop_peer option \<Rightarrow> prop_peer option \<Rightarrow> bool" where
  "same_session p q = (case (p, q) of
      (None, None) \<Rightarrow> True
    | (Some p, Some q) \<Rightarrow> pp_reserved q = pp_reserved p \<and> pp_state q = pp_state p \<and> pp_session q = pp_session p \<and>
        pp_last_offer q = pp_last_offer p
    | _ \<Rightarrow> False)"

definition elsewhere :: "sync_node \<Rightarrow> sync_node \<Rightarrow> bool" where
  "elsewhere n n' \<longleftrightarrow> sn_sends n' = sn_sends n \<and> sn_record_start n' = sn_record_start n \<and> sn_budget n' = sn_budget n \<and>
     hkeys_distinct (sn_peers n') \<and> (\<forall>h. same_session (hget (sn_peers n) h) (hget (sn_peers n') h))"

definition answer_ids_once :: "answer_value option \<Rightarrow> bool" where
  "answer_ids_once answer = (case answer of Some (AnswerList items) \<Rightarrow> distinct (List.map_filter id items) | _ \<Rightarrow> True)"

inductive sync_step :: "sync_world \<Rightarrow> sync_world \<Rightarrow> bool" where
  start: "\<lbrakk>sw_clock w \<le> m; sw_pending w = None; prepare_sync t held active h (sw_node w) = (prepared, acts, n)\<rbrakk>
    \<Longrightarrow> sync_step w (after m n acts None w)"
| offer: "\<lbrakk>sw_clock w \<le> m; sw_pending w = None;
    send_offer m t held identified requested h session plan (sw_node w) = (acts, n)\<rbrakk>
    \<Longrightarrow> sync_step w (after m n acts None w)"
| answer: "\<lbrakk>sw_clock w \<le> m; sw_pending w = None; answer_ids_once answer;
    apply_offer_response t path h session answer (sw_node w) = (reply, acts, n)\<rbrakk>
    \<Longrightarrow> sync_step w (after m n acts (pending_of h session reply) w)"
| resource: "\<lbrakk>sw_clock w \<le> m; sw_pending w = Some (h, session, files);
    send_sync_resource m t path read h session files (sw_node w) = (acts, n)\<rbrakk>
    \<Longrightarrow> sync_step w (after m n acts None w)"
| refused: "\<lbrakk>sw_clock w \<le> m; sw_pending w = None; resource_refused h session (sw_node w) = (acts, n)\<rbrakk>
    \<Longrightarrow> sync_step w (after m n acts None w)"
| concluded: "\<lbrakk>sw_clock w \<le> m; sw_pending w = None;
    apply_resource_outcome m t held held' active h session completed transfer_size (sw_node w) = (again, acts, n)\<rbrakk>
    \<Longrightarrow> sync_step w (after m n acts None w)"
| offer_failed: "\<lbrakk>sw_clock w \<le> m; sw_pending w = None; on_offer_failed h session (sw_node w) = (acts, n)\<rbrakk>
    \<Longrightarrow> sync_step w (after m n acts None w)"
| link_up: "\<lbrakk>sw_clock w \<le> m; sw_pending w = None; on_link_active active h link (sw_node w) = (again, acts, n)\<rbrakk>
    \<Longrightarrow> sync_step w (after m n acts None w)"
| link_down: "\<lbrakk>sw_clock w \<le> m; sw_pending w = None; on_link_down live active h (sw_node w) = (acts, n)\<rbrakk>
    \<Longrightarrow> sync_step w (after m n acts None w)"
| tick: "\<lbrakk>sw_clock w \<le> m; m \<le> m'; tick_sync t m m' held pick static last_tick (sw_node w) = (out, last_tick', n);
    acts = (case out of Some (_, _, acts) \<Rightarrow> acts | None \<Rightarrow> [])\<rbrakk>
    \<Longrightarrow> sync_step w (after m' n acts (sw_pending w) w)"
| announce: "\<lbrakk>sw_clock w \<le> m; n = handle_propagation_announce t own static autopeer h config is_path_response (sw_node w)\<rbrakk>
    \<Longrightarrow> sync_step w (after m n [] (sw_pending w) w)"
| else: "\<lbrakk>sw_clock w \<le> m; elsewhere (sw_node w) n\<rbrakk>
    \<Longrightarrow> sync_step w (after m n [] (sw_pending w) w)"

definition fresh_world :: "sync_world \<Rightarrow> bool" where
  "fresh_world w \<longleftrightarrow> sw_pending w = None \<and> sw_hist w = [] \<and> sn_sends (sw_node w) = [] \<and> hkeys_distinct (sn_peers (sw_node w)) \<and>
     (\<forall>(h, p) \<in> set (sn_peers (sw_node w)). pp_reserved p = 0 \<and> pp_state p = IDLE)"

inductive sync_run :: "sync_world \<Rightarrow> sync_world \<Rightarrow> bool" where
  run_start: "fresh_world w \<Longrightarrow> sync_run w w"
| run_step: "sync_run w v \<Longrightarrow> sync_step v u \<Longrightarrow> sync_run w u"

section \<open>Handlers that take nothing of the budget\<close>

text \<open>How a peer may change without reserving more.\<close>

definition milder :: "prop_peer \<Rightarrow> prop_peer \<Rightarrow> bool" where
  "milder p q \<longleftrightarrow> pp_reserved q \<le> pp_reserved p \<and>
     (pp_state q = REQUEST_SENT \<longrightarrow> pp_state p = REQUEST_SENT \<and> pp_reserved q = pp_reserved p \<and> pp_last_offer q = pp_last_offer p) \<and>
     (pp_state q = RESOURCE_TRANSFERRING \<longrightarrow> pp_state p = RESOURCE_TRANSFERRING \<and> pp_reserved q = pp_reserved p \<and>
       pp_session q = pp_session p)"

definition at_rest :: "prop_peer \<Rightarrow> bool" where
  "at_rest q \<longleftrightarrow> pp_reserved q = 0 \<and> pp_state q \<noteq> REQUEST_SENT \<and> pp_state q \<noteq> RESOURCE_TRANSFERRING"

definition quiet :: "secs \<Rightarrow> sync_node \<Rightarrow> sync_node \<Rightarrow> bool" where
  "quiet m n n' \<longleftrightarrow> sn_record_start n' = sn_record_start n \<and> sn_budget n' = sn_budget n \<and>
     (hkeys_distinct (sn_peers n) \<longrightarrow> hkeys_distinct (sn_peers n')) \<and>
     (\<exists>old. sn_sends n = old @ sn_sends n' \<and> (\<forall>(s, k) \<in> set old. OUTBOUND_BUDGET_WINDOW_SECS \<le> m - s)) \<and>
     (\<forall>h q. hget (sn_peers n') h = Some q \<longrightarrow> at_rest q \<or> (\<exists>p. hget (sn_peers n) h = Some p \<and> milder p q))"

lemma milder_refl [simp, intro]: "milder p p"
  by (simp add: milder_def)

lemma milder_trans: "milder p q \<Longrightarrow> milder q r \<Longrightarrow> milder p r"
  by (auto simp: milder_def)

lemma milder_rest: "milder p q \<Longrightarrow> at_rest p \<Longrightarrow> at_rest q"
  by (auto simp: milder_def at_rest_def)

lemma at_rest_milder: "at_rest q \<Longrightarrow> milder p q"
  by (auto simp: milder_def at_rest_def)

lemma milder_same: "pp_reserved q = pp_reserved p \<Longrightarrow> pp_state q = pp_state p \<Longrightarrow> pp_session q = pp_session p \<Longrightarrow>
    pp_last_offer q = pp_last_offer p \<Longrightarrow> milder p q"
  by (simp add: milder_def)

lemma quietI:
  assumes "sn_record_start n' = sn_record_start n" and "sn_budget n' = sn_budget n"
    and "hkeys_distinct (sn_peers n) \<Longrightarrow> hkeys_distinct (sn_peers n')" and "sn_sends n' = sn_sends n"
    and "\<And>h q. hget (sn_peers n') h = Some q \<Longrightarrow> at_rest q \<or> (\<exists>p. hget (sn_peers n) h = Some p \<and> milder p q)"
  shows "quiet m n n'"
  using assms by (simp add: quiet_def)

lemma quiet_refl [simp, intro]: "quiet m n n"
  by (auto intro: quietI)

lemma quiet_trans [trans]:
  assumes "quiet m n n'" and "quiet m n' n''"
  shows "quiet m n n''"
proof -
  have "at_rest q \<or> (\<exists>p. hget (sn_peers n) h = Some p \<and> milder p q)" if q: "hget (sn_peers n'') h = Some q" for h q
  proof -
    from assms(2) q have "at_rest q \<or> (\<exists>p. hget (sn_peers n') h = Some p \<and> milder p q)" by (simp add: quiet_def)
    then consider "at_rest q" | p where "hget (sn_peers n') h = Some p" "milder p q" by auto
    then show ?thesis
    proof cases
      case (2 p)
      from assms(1) 2(1) have "at_rest p \<or> (\<exists>o'. hget (sn_peers n) h = Some o' \<and> milder o' p)" by (simp add: quiet_def)
      with 2(2) show ?thesis by (meson milder_rest milder_trans)
    qed simp
  qed
  moreover have "\<exists>old. sn_sends n = old @ sn_sends n'' \<and> (\<forall>(s, k) \<in> set old. OUTBOUND_BUDGET_WINDOW_SECS \<le> m - s)"
  proof -
    from assms(1) obtain o1 where "sn_sends n = o1 @ sn_sends n'" "\<forall>(s, k) \<in> set o1. OUTBOUND_BUDGET_WINDOW_SECS \<le> m - s"
      by (auto simp: quiet_def)
    moreover from assms(2) obtain o2 where "sn_sends n' = o2 @ sn_sends n''" "\<forall>(s, k) \<in> set o2. OUTBOUND_BUDGET_WINDOW_SECS \<le> m - s"
      by (auto simp: quiet_def)
    ultimately show ?thesis by (intro exI [where x = "o1 @ o2"]) auto
  qed
  ultimately show ?thesis using assms by (simp add: quiet_def)
qed

lemma quiet_upd:
  assumes "\<And>p. hget (sn_peers n) h = Some p \<Longrightarrow> milder p (f p)"
  shows "quiet m n (peer_upd h f n)"
proof (cases "hget (sn_peers n) h")
  case (Some p)
  with assms [of p] show ?thesis
    by (auto intro!: quietI hm.inv_put simp: peer_upd_def hm.get_put split: if_splits)
qed (simp add: peer_upd_def)

lemma quiet_peers:
  assumes "sn_record_start n' = sn_record_start n" and "sn_budget n' = sn_budget n" and "sn_sends n' = sn_sends n"
    and "sn_peers n' = sn_peers n"
  shows "quiet m n n'"
  using assms by (auto intro!: quietI)

lemma quiet_end_sync: "quiet m n (snd (end_sync h n))"
  unfolding end_sync_def snd_conv by (rule quiet_upd) (simp add: at_rest_milder at_rest_def)

lemma quiet_mark_handled_for: "quiet m n (mark_handled_for h ids n)"
  by (rule quiet_peers) (auto simp: mark_handled_for_def split: option.split)

lemma quiet_unpeer: "quiet m n (snd (unpeer h n))"
  by (rule quietI) (auto simp: unpeer_def Let_def hm.inv_del hm.get_del split: option.splits if_splits)

lemma quiet_allowance: "quiet m n (snd (outbound_allowance m n))"
proof -
  have "\<exists>old. sn_sends n = old @ prune_sends m (sn_sends n) \<and> (\<forall>(s, k) \<in> set old. OUTBOUND_BUDGET_WINDOW_SECS \<le> m - s)"
    by (rule exI [where x = "takeWhile (\<lambda>(s, k). m - s \<ge> OUTBOUND_BUDGET_WINDOW_SECS) (sn_sends n)"])
      (auto simp: prune_sends_def dest: set_takeWhileD)
  then show ?thesis by (auto simp: outbound_allowance_def Let_def quiet_def)
qed

lemma quiet_later: "quiet m n n' \<Longrightarrow> m \<le> m' \<Longrightarrow> quiet m' n n'"
  unfolding quiet_def by fastforce

lemma quiet_gather: "quiet m n (snd (gather_offer t held h p n))"
  unfolding gather_offer_def Let_def snd_conv
  by (rule quiet_trans [OF quiet_upd quiet_peers]) (simp_all add: milder_same)

lemma quiet_prepare: "quiet m n (snd (snd (prepare_sync t held active h n)))"
proof (cases "hget (sn_peers n) h")
  case (Some p)
  define p1 where "p1 = p\<lparr>pp_last_attempt := t, pp_alive := if t \<le> pp_next_attempt p \<and> t > pp_last_heard p then False else pp_alive p\<rparr>"
  define n1 where "n1 = peer_upd h (\<lambda>_. p1) n"
  have 1: "quiet m n n1" unfolding n1_def by (rule quiet_upd) (simp add: Some p1_def milder_same)
  have 2: "quiet m n (peer_upd h (open_session t) n1)"
    by (rule quiet_trans [OF 1 quiet_upd]) (simp add: milder_def open_session_def)
  show ?thesis
    using 1 2 quiet_trans [OF 1 quiet_end_sync] quiet_trans [OF 1 quiet_gather]
    unfolding prepare_sync_def Some option.case Let_def p1_def [symmetric] n1_def [symmetric]
    by (simp add: case_prod_beta split: gate.split)
qed (simp add: prepare_sync_def)

lemma quiet_resource_refused: "quiet m n (snd (resource_refused h session n))"
  by (auto simp: resource_refused_def split: option.split intro: quiet_end_sync)

lemma quiet_offer_failed: "quiet m n (snd (on_offer_failed h session n))"
  by (auto simp: on_offer_failed_def split: option.split intro: quiet_end_sync)

lemma quiet_link_active: "quiet m n (snd (snd (on_link_active active h link n)))"
  by (auto simp: on_link_active_def split: option.split intro!: quiet_end_sync quiet_upd) (auto simp: milder_def)

lemma quiet_link_down: "quiet m n (snd (on_link_down live active h n))"
  by (auto simp: on_link_down_def split: option.split intro: quiet_end_sync)

lemma quiet_answer_code: "quiet m n (snd (snd (answer_code t h code p n)))"
  by (auto simp: answer_code_def refuse_key_def
    intro!: quiet_end_sync quiet_unpeer quiet_trans [OF quiet_upd quiet_end_sync] quiet_upd) (auto simp: milder_def)

lemma quiet_forget_missing: "quiet m n (forget_missing_messages path missing n)"
  by (rule quiet_peers) (simp_all add: forget_missing_messages_def)

lemma quiet_outcome: "quiet m n (snd (snd (apply_resource_outcome m t held held' active h session completed transfer_size n)))"
proof (cases "hget (sn_peers n) h")
  case (Some p)
  define n1 where "n1 = peer_upd h (\<lambda>p. p\<lparr>pp_transferring := None, pp_started := None\<rparr>) n"
  define n2 where "n2 = peer_upd h (sync_completed t transfer_size (pp_started p))
    (mark_handled_for h (case pp_transferring p of None \<Rightarrow> [] | Some ids \<Rightarrow> ids) n1)"
  have 1: "quiet m n n1" unfolding n1_def by (rule quiet_upd) (simp add: milder_same)
  have "quiet m n1 n2" unfolding n2_def
    by (rule quiet_trans [OF quiet_mark_handled_for quiet_upd]) (simp add: sync_completed_def milder_same)
  with 1 have 2: "quiet m n n2" by (rule quiet_trans)
  have 3: "quiet m n (snd (outbound_allowance m n2))" by (rule quiet_trans [OF 2 quiet_allowance])
  have 4: "quiet m n (peer_upd h (\<lambda>p. p\<lparr>pp_state := LINK_READY\<rparr>) (snd (outbound_allowance m n2)))"
    by (rule quiet_trans [OF 3 quiet_upd]) (simp add: milder_def)
  show ?thesis
    using quiet_trans [OF 1 quiet_end_sync] quiet_trans [OF 2 quiet_end_sync] quiet_trans [OF 3 quiet_end_sync] 4
    unfolding apply_resource_outcome_def Some option.case n1_def [symmetric]
    by (simp add: Let_def case_prod_beta n2_def [symmetric])
qed (simp add: apply_resource_outcome_def)

lemma quiet_sync_allowed: "quiet m n (snd (snd (outbound_sync_allowed m n)))"
proof -
  have "quiet m n (f (snd (outbound_allowance m n)))" if "\<And>n. quiet m n (f n)" for f
    using quiet_trans [OF quiet_allowance that] .
  from this [of "\<lambda>n. n\<lparr>sn_hold_logged := True\<rparr>"] this [of "\<lambda>n. n\<lparr>sn_hold_logged := False\<rparr>"]
  show ?thesis by (simp add: outbound_sync_allowed_def case_prod_beta quiet_peers quiet_allowance)
qed

lemma quiet_unpeer_all: "quiet m n (snd (unpeer_all hs n))"
proof -
  have "quiet m n b \<Longrightarrow> quiet m n (snd (fold (\<lambda>h (acts, n). (acts @ fst (unpeer h n), snd (unpeer h n))) hs (a, b)))" for a b
  proof (induction hs arbitrary: a b)
    case (Cons h hs)
    show ?case using Cons.IH [OF quiet_trans [OF Cons.prems quiet_unpeer]] by simp
  qed simp
  then show ?thesis by (simp add: unpeer_all_def)
qed

lemma hget_map_value: "hget (map (\<lambda>(h, p). (h, f p)) m) h = map_option f (hget m h)"
  by (induction m) auto

lemma quiet_select: "quiet m n (snd (select_sync_peer t m held pick n))"
proof -
  define n1 where "n1 = snd (outbound_allowance m n)"
  have peers: "quiet m n (n1\<lparr>sn_peers := map (\<lambda>(h, p). (h, if d p then p\<lparr>pp_alive := False\<rparr> else p)) (sn_peers n1)\<rparr>)" for d
  proof (rule quiet_trans [OF quiet_allowance])
    show "quiet m (snd (outbound_allowance m n)) (n1\<lparr>sn_peers := map (\<lambda>(h, p). (h, if d p then p\<lparr>pp_alive := False\<rparr> else p)) (sn_peers n1)\<rparr>)"
      unfolding n1_def [symmetric]
      by (rule quietI) (auto simp: hget_map_value hkeys_distinct_def milder_def comp_def case_prod_beta)
  qed
  then show ?thesis
    by (simp add: select_sync_peer_def case_prod_beta Let_def n1_def)
qed

lemma quiet_tick:
  assumes "m \<le> m'"
  shows "quiet m' n (snd (snd (tick_sync t m m' held pick static last_tick n)))"
proof -
  define n1 where "n1 = note_backlog_hold held n"
  define n2 where "n2 = snd (unpeer_all (unreachable_peers t static n1) n1)"
  define n3 where "n3 = snd (snd (outbound_sync_allowed m n2))"
  have "quiet m' n n1" unfolding n1_def by (rule quiet_peers) (simp_all add: note_backlog_hold_def)
  also have "quiet m' n1 n2" unfolding n2_def by (rule quiet_unpeer_all)
  also have "quiet m' n2 n3" unfolding n3_def by (rule quiet_later [OF quiet_sync_allowed assms])
  finally have 3: "quiet m' n n3" .
  have "quiet m' n (snd (select_sync_peer t m' held pick n3))" by (rule quiet_trans [OF 3 quiet_select])
  with 3 show ?thesis
    unfolding tick_sync_def Let_def n1_def [symmetric] case_prod_beta n2_def [symmetric] n3_def [symmetric]
    by simp
qed

lemma quiet_insert_peer:
  assumes "at_rest p"
  shows "quiet m n (insert_peer p n)"
proof -
  have rest: "at_rest (p\<lparr>pp_slot := s\<rparr>)" for s using assms by (simp add: at_rest_def)
  show ?thesis
    by (rule quietI)
      (auto simp: insert_peer_def Let_def free_peer_slot_def hm.inv_put hm.inv_del hm.get_put hm.get_del rest
        split: option.splits if_splits)
qed

lemma quiet_add_peer: "quiet m n (add_peer t h c n)"
  by (auto simp: add_peer_def announced_def forget_refusals_def new_prop_peer_def at_rest_def
    intro!: quiet_upd quiet_insert_peer milder_same split: option.split)

lemma quiet_announce: "quiet m n (handle_propagation_announce t own static autopeer h config is_path_response n)"
  by (auto simp: handle_propagation_announce_def quiet_add_peer split: option.split)

lemma quiet_elsewhere:
  assumes "elsewhere n n'"
  shows "quiet m n n'"
proof (rule quietI)
  fix h q assume q: "hget (sn_peers n') h = Some q"
  from assms have "same_session (hget (sn_peers n) h) (hget (sn_peers n') h)" by (simp add: elsewhere_def)
  with q show "at_rest q \<or> (\<exists>p. hget (sn_peers n) h = Some p \<and> milder p q)"
    by (auto simp: same_session_def milder_def split: option.splits)
qed (use assms in \<open>simp_all add: elsewhere_def\<close>)

section \<open>What the handlers hand to the links\<close>

lemma sent_by_simps [simp]:
  "sent_by m [] = []" "sent_by m (CloseLink h # acts) = sent_by m acts" "sent_by m (OpenLink h # acts) = sent_by m acts"
  "sent_by m (Identify h l # acts) = sent_by m acts" "sent_by m (RequestOffer h l s k ids # acts) = sent_by m acts"
  "sent_by m (SendResource h l s ids # acts) = (m, length ids) # sent_by m acts"
  "sent_by m (acts @ acts') = sent_by m acts @ sent_by m acts'"
  by (simp_all add: sent_by_def List.map_filter_def)

lemma sent_end_sync [simp]: "sent_by m (fst (end_sync h n)) = []"
  by (simp add: end_sync_def)

lemma sent_unpeer [simp]: "sent_by m (fst (unpeer h n)) = []"
  by (simp add: unpeer_def)

lemma sent_prepare: "sent_by m (fst (snd (prepare_sync t held active h n))) = []"
  by (simp add: prepare_sync_def Let_def case_prod_beta split: option.split gate.split)

lemma sent_offer: "sent_by m (fst (send_offer m' t held identified requested h session plan n)) = []"
  by (simp add: send_offer_def Let_def case_prod_beta split: option.split)

lemma sent_answer: "sent_by m (fst (snd (apply_offer_response t path h session answer n))) = []"
  by (auto simp: apply_offer_response_def answer_code_def send_wanted_def Let_def
    split: option.split answer_value.split bool.split)

lemma sent_outcome: "sent_by m (fst (snd (apply_resource_outcome m' t held held' active h session completed sz n))) = []"
  by (simp add: apply_resource_outcome_def Let_def case_prod_beta split: option.split)

lemma sent_links:
  "sent_by m (fst (resource_refused h session n)) = []" "sent_by m (fst (on_offer_failed h session n)) = []"
  "sent_by m (fst (snd (on_link_active active h link n))) = []" "sent_by m (fst (on_link_down live active h n)) = []"
  by (simp_all add: resource_refused_def on_offer_failed_def on_link_active_def on_link_down_def split: option.split)

lemma sent_unpeer_all: "sent_by m (fst (unpeer_all hs n)) = []"
proof -
  have "sent_by m (fst x) = [] \<Longrightarrow>
      sent_by m (fst (fold (\<lambda>h (acts, n). (acts @ fst (unpeer h n), snd (unpeer h n))) hs x)) = []" for x
    by (induction hs arbitrary: x) (auto simp: case_prod_beta)
  then show ?thesis by (simp add: unpeer_all_def)
qed

lemma sent_tick: "sent_by m (case fst (tick_sync t m' m'' held pick static last_tick n) of Some (_, _, acts) \<Rightarrow> acts | None \<Rightarrow> []) = []"
  by (simp add: tick_sync_def Let_def case_prod_beta sent_unpeer_all)

section \<open>The invariant\<close>

text \<open>The messages sent after \<open>a\<close> and up to \<open>b\<close>.\<close>

definition sent_between :: "secs \<Rightarrow> secs \<Rightarrow> (secs \<times> nat) list \<Rightarrow> nat" where
  "sent_between a b hist = sum_list (map snd (filter (\<lambda>(s, _). a < s \<and> s \<le> b) hist))"

lemma sent_between_append [simp]: "sent_between a b (xs @ ys) = sent_between a b xs + sent_between a b ys"
  by (simp add: sent_between_def)

lemma sent_between_mono:
  assumes "\<And>s k. (s, k) \<in> set hist \<Longrightarrow> a < s \<Longrightarrow> s \<le> b \<Longrightarrow> a' < s \<and> s \<le> b'"
  shows "sent_between a b hist \<le> sent_between a' b' hist"
  using assms
proof (induction hist)
  case (Cons x hist)
  have "sent_between a b hist \<le> sent_between a' b' hist" by (rule Cons.IH) (use Cons.prems in auto)
  with Cons.prems [of "fst x" "snd x"] show ?case by (cases x) (auto simp: sent_between_def)
qed (simp add: sent_between_def)

lemma sent_between_none:
  assumes "\<And>s k. (s, k) \<in> set hist \<Longrightarrow> s \<le> a"
  shows "sent_between a b hist = 0"
proof -
  have "filter (\<lambda>(s, _). a < s \<and> s \<le> b) hist = []" using assms by (fastforce simp: filter_empty_conv)
  then show ?thesis by (simp only: sent_between_def list.map sum_list.Nil)
qed

lemma sent_between_all: "sent_between a b hist \<le> sum_list (map snd hist)"
  unfolding sent_between_def by (induction hist) auto

text \<open>The reservations, summed over the peers.\<close>

lemma reserved_sum:
  assumes "hkeys_distinct (sn_peers n)"
  shows "outbound_reserved n = (\<Sum>h \<in> fst ` set (sn_peers n). pp_reserved (the (hget (sn_peers n) h)))"
proof -
  have "sum_list (map (\<lambda>(_, p). pp_reserved p) ps) = (\<Sum>h \<in> fst ` set ps. pp_reserved (the (hget ps h)))"
    if "distinct (map fst ps)" for ps :: "(bytes, prop_peer) hmap"
    using that
  proof (induction ps)
    case (Cons x ps)
    obtain h p where x: "x = (h, p)" by (cases x)
    with Cons.prems have new: "h \<notin> fst ` set ps" by simp
    have "(\<Sum>k \<in> fst ` set ps. pp_reserved (the (hget (x # ps) k))) = (\<Sum>k \<in> fst ` set ps. pp_reserved (the (hget ps k)))"
      by (rule sum.cong) (use new x in auto)
    with Cons new x show ?case by simp
  qed simp
  with assms show ?thesis by (simp add: outbound_reserved_def hkeys_distinct_def)
qed

lemma reserved_quiet:
  assumes "hkeys_distinct (sn_peers n)" and "quiet m n n'"
  shows "outbound_reserved n' \<le> outbound_reserved n"
proof -
  let ?r = "\<lambda>n h. pp_reserved (the (hget (sn_peers n) h))"
  let ?A = "{h \<in> fst ` set (sn_peers n'). ?r n' h \<noteq> 0}"
  from assms have d: "hkeys_distinct (sn_peers n')" by (simp add: quiet_def)
  have le: "h \<in> fst ` set (sn_peers n) \<and> ?r n' h \<le> ?r n h" if h: "h \<in> ?A" for h
  proof -
    from h have "hget (sn_peers n') h \<noteq> None" by (auto simp: map_of_eq_None_iff)
    then obtain q where q: "hget (sn_peers n') h = Some q" by auto
    from assms(2) q have "at_rest q \<or> (\<exists>p. hget (sn_peers n) h = Some p \<and> milder p q)" by (simp add: quiet_def)
    moreover from h q have "\<not> at_rest q" by (simp add: at_rest_def)
    ultimately obtain p where "hget (sn_peers n) h = Some p" "milder p q" by auto
    with q show ?thesis by (force simp: milder_def dest: hget_mem)
  qed
  have "outbound_reserved n' = sum (?r n') ?A"
    unfolding reserved_sum [OF d] by (rule sum.mono_neutral_right) auto
  also have "\<dots> \<le> sum (?r n) ?A" by (rule sum_mono) (use le in blast)
  also have "\<dots> \<le> sum (?r n) (fst ` set (sn_peers n))" by (rule sum_mono2) (use le in auto)
  finally show ?thesis by (simp add: reserved_sum [OF assms(1)])
qed

lemma reserved_upd:
  assumes "hkeys_distinct (sn_peers n)" and "hget (sn_peers n) h = Some p"
  shows "outbound_reserved (peer_upd h f n) + pp_reserved p = outbound_reserved n + pp_reserved (f p)"
proof -
  from assms obtain xs ys where split: "sn_peers n = xs @ (h, p) # ys" "h \<notin> fst ` set xs" by (rule hget_split)
  then have "sn_peers (peer_upd h f n) = xs @ (h, f p) # ys" unfolding peer_upd_def assms(2) option.case by (simp add: hput_split)
  with split show ?thesis by (simp add: outbound_reserved_def)
qed

lemma peer_upd_frame [simp]:
  "sn_sends (peer_upd h f n) = sn_sends n" "sn_record_start (peer_upd h f n) = sn_record_start n"
  "sn_budget (peer_upd h f n) = sn_budget n" "sn_entries (peer_upd h f n) = sn_entries n"
  "sn_fresh (peer_upd h f n) = sn_fresh n"
  by (simp_all add: peer_upd_def split: option.split)

lemma peer_upd_get: "hget (sn_peers (peer_upd h f n)) k = (if k = h then map_option f (hget (sn_peers n) h) else hget (sn_peers n) k)"
  by (auto simp: peer_upd_def hm.get_put split: option.split)

lemma peer_upd_distinct: "hkeys_distinct (sn_peers n) \<Longrightarrow> hkeys_distinct (sn_peers (peer_upd h f n))"
  by (simp add: peer_upd_def hm.inv_put split: option.split)

text \<open>
  \<open>m\<close> is the last reading of the clock. \<open>old\<close> are the sends pruned from the window, and the files
  an answer asked for are within what its session reserves.
\<close>

definition within_budget :: "secs \<Rightarrow> sync_node \<Rightarrow> (bytes \<times> nat \<times> (bytes \<times> string) list) option \<Rightarrow> (secs \<times> nat) list \<Rightarrow> bool" where
  "within_budget m n pending hist \<longleftrightarrow>
     hkeys_distinct (sn_peers n) \<and>
     (\<exists>old. hist = old @ sn_sends n \<and> (\<forall>(s, k) \<in> set old. OUTBOUND_BUDGET_WINDOW_SECS \<le> m - s)) \<and>
     (\<forall>(s, k) \<in> set hist. sn_record_start n + OUTBOUND_BUDGET_WINDOW_SECS \<le> s \<and> s \<le> m) \<and>
     sent_between (m - OUTBOUND_BUDGET_WINDOW_SECS) m hist + outbound_reserved n \<le> sn_budget n \<and>
     (\<forall>h p. hget (sn_peers n) h = Some p \<longrightarrow>
        (0 < pp_reserved p \<longrightarrow> sn_record_start n + OUTBOUND_BUDGET_WINDOW_SECS \<le> m) \<and>
        (pp_state p = REQUEST_SENT \<longrightarrow> length (pp_last_offer p) \<le> pp_reserved p)) \<and>
     (\<forall>h session files p. pending = Some (h, session, files) \<longrightarrow> hget (sn_peers n) h = Some p \<longrightarrow>
        pp_state p = RESOURCE_TRANSFERRING \<longrightarrow> pp_session p = session \<longrightarrow> length files \<le> pp_reserved p) \<and>
     (\<forall>T. sent_between (T - OUTBOUND_BUDGET_WINDOW_SECS) T hist \<le> sn_budget n)"

lemma within_budget_quiet:
  assumes ok: "within_budget m0 n pending hist" and "m0 \<le> m" and q: "quiet m n n'"
    and "pending' = None \<or> pending' = pending"
  shows "within_budget m n' pending' hist"
proof -
  let ?W = OUTBOUND_BUDGET_WINDOW_SECS
  from ok have d: "hkeys_distinct (sn_peers n)" by (simp add: within_budget_def)
  from q have same: "sn_record_start n' = sn_record_start n" "sn_budget n' = sn_budget n" by (simp_all add: quiet_def)
  from ok have times: "\<And>s k. (s, k) \<in> set hist \<Longrightarrow> sn_record_start n + ?W \<le> s \<and> s \<le> m0"
    by (force simp: within_budget_def)
  from ok have limit: "sent_between (m0 - ?W) m0 hist + outbound_reserved n \<le> sn_budget n" by (simp add: within_budget_def)
  have d': "hkeys_distinct (sn_peers n')" using q d by (simp add: quiet_def)
  from ok obtain o1 where o1: "hist = o1 @ sn_sends n" "\<forall>(s, k) \<in> set o1. ?W \<le> m0 - s" by (auto simp: within_budget_def)
  from q obtain o2 where o2: "sn_sends n = o2 @ sn_sends n'" "\<forall>(s, k) \<in> set o2. ?W \<le> m - s" by (auto simp: quiet_def)
  have old: "\<exists>old. hist = old @ sn_sends n' \<and> (\<forall>(s, k) \<in> set old. ?W \<le> m - s)"
    using o1 o2 \<open>m0 \<le> m\<close> by (intro exI [where x = "o1 @ o2"]) fastforce
  have "sent_between (m - ?W) m hist \<le> sent_between (m0 - ?W) m0 hist"
    by (rule sent_between_mono) (use times \<open>m0 \<le> m\<close> in force)
  with limit reserved_quiet [OF d q] have within: "sent_between (m - ?W) m hist + outbound_reserved n' \<le> sn_budget n'"
    by (simp add: same)
  have peer: "(0 < pp_reserved p' \<longrightarrow> sn_record_start n' + ?W \<le> m) \<and>
      (pp_state p' = REQUEST_SENT \<longrightarrow> length (pp_last_offer p') \<le> pp_reserved p')"
    if "hget (sn_peers n') h = Some p'" for h p'
  proof -
    from q that have "at_rest p' \<or> (\<exists>p. hget (sn_peers n) h = Some p \<and> milder p p')" by (simp add: quiet_def)
    then consider "at_rest p'" | p where "hget (sn_peers n) h = Some p" "milder p p'" by auto
    then show ?thesis
    proof cases
      case (2 p)
      from ok 2(1) have "0 < pp_reserved p \<longrightarrow> sn_record_start n + ?W \<le> m0"
        "pp_state p = REQUEST_SENT \<longrightarrow> length (pp_last_offer p) \<le> pp_reserved p" by (simp_all add: within_budget_def)
      with 2(2) \<open>m0 \<le> m\<close> show ?thesis by (auto simp: milder_def same)
    qed (simp add: at_rest_def)
  qed
  have pend: "length files \<le> pp_reserved p'"
    if "pending' = Some (h, session, files)" "hget (sn_peers n') h = Some p'" "pp_state p' = RESOURCE_TRANSFERRING"
      "pp_session p' = session" for h session files p'
  proof -
    from q that(2) have "at_rest p' \<or> (\<exists>p. hget (sn_peers n) h = Some p \<and> milder p p')" by (simp add: quiet_def)
    with that(3) obtain p where p: "hget (sn_peers n) h = Some p" "milder p p'" by (auto simp: at_rest_def)
    from that(1) assms(4) have "pending = Some (h, session, files)" by auto
    with ok p that(3, 4) show ?thesis by (simp add: within_budget_def milder_def)
  qed
  have "\<forall>T. sent_between (T - ?W) T hist \<le> sn_budget n'" using ok by (simp add: within_budget_def same)
  with d' old within peer pend times \<open>m0 \<le> m\<close> show ?thesis
    unfolding within_budget_def same by fastforce
qed

section \<open>Handlers that reserve and spend\<close>

lemma allowance_room:
  assumes "within_budget m n pending hist" and "0 < fst (outbound_allowance m n)"
  shows "sn_record_start n + OUTBOUND_BUDGET_WINDOW_SECS \<le> m"
    and "fst (outbound_allowance m n) + sent_between (m - OUTBOUND_BUDGET_WINDOW_SECS) m hist + outbound_reserved n \<le> sn_budget n"
proof -
  let ?W = OUTBOUND_BUDGET_WINDOW_SECS
  from assms(2) show "sn_record_start n + ?W \<le> m" by (simp add: outbound_allowance_def split: if_splits)
  have "within_budget m (snd (outbound_allowance m n)) None hist"
    by (rule within_budget_quiet [OF assms(1) _ quiet_allowance]) simp_all
  then obtain old where old: "hist = old @ sn_sends (snd (outbound_allowance m n))" "\<forall>(s, k) \<in> set old. ?W \<le> m - s"
    by (auto simp: within_budget_def)
  have "sent_between (m - ?W) m old = 0" by (rule sent_between_none) (use old(2) in force)
  with old(1) have "sent_between (m - ?W) m hist \<le> sum_list (map snd (sn_sends (snd (outbound_allowance m n))))"
    by (simp add: sent_between_all)
  with assms(2) show "fst (outbound_allowance m n) + sent_between (m - ?W) m hist + outbound_reserved n \<le> sn_budget n"
    by (simp add: outbound_allowance_def Let_def outbound_reserved_def split: if_splits)
qed

lemma within_budget_upd:
  assumes ok: "within_budget m n pend0 hist" and p: "hget (sn_peers n) h = Some p"
    and "sent_between (m - OUTBOUND_BUDGET_WINDOW_SECS) m hist + outbound_reserved n + pp_reserved (f p) \<le> sn_budget n + pp_reserved p"
    and "0 < pp_reserved (f p) \<Longrightarrow> sn_record_start n + OUTBOUND_BUDGET_WINDOW_SECS \<le> m"
    and "pp_state (f p) = REQUEST_SENT \<Longrightarrow> length (pp_last_offer (f p)) \<le> pp_reserved (f p)"
    and "\<And>g session files. pending = Some (g, session, files) \<Longrightarrow> g = h \<and> length files \<le> pp_reserved (f p)"
  shows "within_budget m (peer_upd h f n) pending hist"
proof -
  from ok have d: "hkeys_distinct (sn_peers n)" by (simp add: within_budget_def)
  have "sent_between (m - OUTBOUND_BUDGET_WINDOW_SECS) m hist + outbound_reserved (peer_upd h f n) \<le> sn_budget n"
    using reserved_upd [OF d p, of f] assms(3) by simp
  with ok assms(4-6) p peer_upd_distinct [OF d, of h f] show ?thesis
    by (auto simp: within_budget_def peer_upd_get)
qed

lemma within_budget_offer:
  assumes ok: "within_budget m0 n None hist" and "m0 \<le> m"
  shows "within_budget m (snd (send_offer m t held identified requested h session plan n)) None hist"
proof (cases "hget (sn_peers n) h")
  case None
  with within_budget_quiet [OF assms] show ?thesis by (simp add: send_offer_def)
next
  case (Some p)
  define n1 where "n1 = mark_handled_for h (op_over_resource plan) (mark_handled_for h (op_too_big plan) n)"
  define n2 where "n2 = snd (outbound_allowance m n1)"
  define allowance where "allowance = fst (outbound_allowance m n1)"
  define wanted where "wanted = filter (\<lambda>tid. the (is_unhandled (pp_slot p) tid (sn_entries n2))) (op_offer plan)"
  obtain waiting demand where contention: "budget_contention t held h (allowance - length wanted) n2 = (waiting, demand)" by fastforce
  define offer where "offer = take (offer_cap allowance (length wanted) (pp_turn_sent p) waiting demand n2) wanted"
  define f :: "bytes \<Rightarrow> prop_peer \<Rightarrow> prop_peer" where "f link = (\<lambda>q. q\<lparr>pp_identified := Some link, pp_session := pp_session p + 1, pp_last_offer := offer,
    pp_reserved := length offer, pp_state := REQUEST_SENT\<rparr>)" for link
  have q1: "quiet m n n1" unfolding n1_def by (rule quiet_trans [OF quiet_mark_handled_for quiet_mark_handled_for])
  have q2: "quiet m n n2" unfolding n2_def by (rule quiet_trans [OF q1 quiet_allowance])
  have ok0: "within_budget m n None hist" and ok1: "within_budget m n1 None hist" and ok2: "within_budget m n2 None hist"
    by (rule within_budget_quiet [OF assms] ; simp add: q1 q2)+
  have ended: "within_budget m (snd (end_sync h n2)) None hist"
    by (rule within_budget_quiet [OF ok2 order_refl quiet_end_sync]) simp
  have peers: "sn_peers n2 = sn_peers n"
    by (simp add: n2_def n1_def outbound_allowance_def Let_def mark_handled_for_def split: option.split)
  have same: "sn_budget n2 = sn_budget n1" "sn_record_start n2 = sn_record_start n1" "outbound_reserved n2 = outbound_reserved n1"
    by (simp_all add: n2_def outbound_allowance_def Let_def outbound_reserved_def)
  have "length offer \<le> allowance" by (auto simp: offer_def offer_cap_def)
  have sent: "within_budget m (peer_upd h (f link) n2) None hist" if "offer \<noteq> []" for link
  proof -
    from that \<open>length offer \<le> allowance\<close> have "0 < fst (outbound_allowance m n1)" by (cases offer) (auto simp: allowance_def)
    note room = allowance_room [OF ok1 this, folded allowance_def]
    show ?thesis
      by (rule within_budget_upd [OF ok2, where p = p])
        (use Some room \<open>length offer \<le> allowance\<close> in \<open>simp_all add: peers same f_def\<close>)
  qed
  have sent_ended: "within_budget m (snd (end_sync h (peer_upd h (f link) n2))) None hist" if "offer \<noteq> []" for link
    by (rule within_budget_quiet [OF sent [OF that] order_refl quiet_end_sync]) simp
  have pick: "(allowance, n2) = outbound_allowance m n1" by (simp add: allowance_def n2_def)
  have "snd (send_offer m t held identified requested h session plan n) \<in>
      {n, snd (end_sync h n2)} \<union> (if offer = [] then {} else
        (\<Union>link. {peer_upd h (f link) n2, snd (end_sync h (peer_upd h (f link) n2))}))"
    unfolding send_offer_def Some option.case Let_def n1_def [symmetric] pick [symmetric] prod.case
      wanted_def [symmetric] contention offer_def [symmetric] f_def [symmetric]
    by (auto simp: case_prod_beta split: option.split)
  then show ?thesis using ok0 ended sent sent_ended by (auto split: if_splits)
qed

lemma length_map_filter: "length (List.map_filter f xs) \<le> length xs"
  by (simp add: List.map_filter_def)

lemma within_budget_wanted:
  assumes ok: "within_budget m n None hist" and p: "hget (sn_peers n) h = Some p" and "length wanted \<le> pp_reserved p"
  shows "within_budget m (snd (snd (send_wanted path h wanted n))) (pending_of h session (fst (send_wanted path h wanted n))) hist"
proof -
  define files where "files = List.map_filter (\<lambda>tid. map_option (\<lambda>e. (tid, path tid e)) (the (get_entry tid (sn_entries n)))) wanted"
  define f :: "prop_peer \<Rightarrow> prop_peer" where "f = (\<lambda>p. p\<lparr>pp_reserved := length files, pp_state := RESOURCE_TRANSFERRING\<rparr>)"
  have few: "length files \<le> pp_reserved p"
    using length_map_filter assms(3) unfolding files_def by (rule order_trans)
  from ok have limit: "sent_between (m - OUTBOUND_BUDGET_WINDOW_SECS) m hist + outbound_reserved n \<le> sn_budget n"
    by (simp add: within_budget_def)
  from ok p have late: "0 < pp_reserved p \<Longrightarrow> sn_record_start n + OUTBOUND_BUDGET_WINDOW_SECS \<le> m"
    by (simp add: within_budget_def)
  have late': "files \<noteq> [] \<Longrightarrow> sn_record_start n + OUTBOUND_BUDGET_WINDOW_SECS \<le> m" using few late by (cases files) simp_all
  have sent: "within_budget m (peer_upd h f n) (Some (h, session, files)) hist"
    by (rule within_budget_upd [OF ok p]) (use few limit late' in \<open>simp_all add: f_def\<close>)
  have ended: "within_budget m (snd (end_sync h n)) None hist"
    by (rule within_budget_quiet [OF ok order_refl quiet_end_sync]) simp
  from sent ended show ?thesis
    unfolding send_wanted_def files_def [symmetric] Let_def f_def [symmetric] by (simp add: pending_of_def)
qed

lemma pending_done: "pending_of h session OfferDone = None"
  by (simp add: pending_of_def)

lemma fst_answer_code: "pending_of h session (fst (answer_code t h code p n)) = None"
  by (simp add: answer_code_def pending_of_def)

lemma wanted_ids_few:
  assumes "distinct (List.map_filter id items)"
  shows "length (wanted_ids last_offer items) \<le> length last_offer"
proof -
  have "length (wanted_ids last_offer items) = card (set (wanted_ids last_offer items))"
    using assms by (intro distinct_card [symmetric]) (simp add: wanted_ids_def)
  also have "\<dots> \<le> card (set last_offer)" by (rule card_mono) (auto simp: wanted_ids_def)
  also have "\<dots> \<le> length last_offer" by (rule card_length)
  finally show ?thesis .
qed

lemma within_budget_answer:
  assumes ok: "within_budget m0 n None hist" and "m0 \<le> m" and once: "answer_ids_once answer"
    and "apply_offer_response t path h session answer n = (next, acts, n')"
  shows "within_budget m n' (pending_of h session next) hist"
proof (cases "\<exists>p. hget (sn_peers n) h = Some p \<and> pp_state p = REQUEST_SENT \<and> pp_session p = session")
  case False
  with assms(4) have "n' = n" "next = OfferDone" by (auto simp: apply_offer_response_def split: option.splits if_splits)
  with within_budget_quiet [OF ok assms(2) quiet_refl] show ?thesis by (simp add: pending_of_def)
next
  case True
  then obtain p where p: "hget (sn_peers n) h = Some p" "pp_state p = REQUEST_SENT" "pp_session p = session" by auto
  define n1 where "n1 = peer_upd h (\<lambda>p. p\<lparr>pp_state := RESPONSE_RECEIVED, pp_last_offer := []\<rparr>) n"
  have q1: "quiet m n n1" unfolding n1_def by (rule quiet_upd) (simp add: milder_def)
  from ok p have few: "length (pp_last_offer p) \<le> pp_reserved p" by (simp add: within_budget_def)
  have ended: "within_budget m (snd (end_sync h n1)) None hist"
    by (rule within_budget_quiet [OF ok assms(2) quiet_trans [OF q1 quiet_end_sync]]) simp
  have coded: "within_budget m (snd (snd (answer_code t h c p n1))) None hist" for c
    by (rule within_budget_quiet [OF ok assms(2) quiet_trans [OF q1 quiet_answer_code]]) simp
  have sending: "within_budget m (snd (snd (send_wanted path h wanted (mark_handled_for h ids n1))))
      (pending_of h session (fst (send_wanted path h wanted (mark_handled_for h ids n1)))) hist"
    if "length wanted \<le> length (pp_last_offer p)" for wanted ids
  proof (rule within_budget_wanted)
    show "within_budget m (mark_handled_for h ids n1) None hist"
      by (rule within_budget_quiet [OF ok assms(2) quiet_trans [OF q1 quiet_mark_handled_for]]) simp
    show "hget (sn_peers (mark_handled_for h ids n1)) h = Some (p\<lparr>pp_state := RESPONSE_RECEIVED, pp_last_offer := []\<rparr>)"
      using p(1) by (simp add: mark_handled_for_def n1_def peer_upd_get split: option.split)
    show "length wanted \<le> pp_reserved (p\<lparr>pp_state := RESPONSE_RECEIVED, pp_last_offer := []\<rparr>)" using that few by simp
  qed
  have all: "mark_handled_for h [] n1 = n1" by (simp add: mark_handled_for_def split: option.split)
  define R where "R = (case answer of
      Some (AnswerInt code) \<Rightarrow> answer_code t h (case code of None \<Rightarrow> 0 | Some c \<Rightarrow> c mod 256) p n1
    | Some (AnswerBool False) \<Rightarrow> send_wanted path h [] (mark_handled_for h (pp_last_offer p) n1)
    | Some (AnswerBool True) \<Rightarrow> send_wanted path h (pp_last_offer p) n1
    | Some (AnswerList items) \<Rightarrow>
        send_wanted path h (wanted_ids (pp_last_offer p) items) (mark_handled_for h (unwanted_ids (pp_last_offer p) items) n1)
    | _ \<Rightarrow> (OfferDone, end_sync h n1))"
  have "(next, acts, n') = R"
    using assms(4) p unfolding apply_offer_response_def p(1) option.case Let_def n1_def [symmetric] R_def by simp
  then have shape: "next = fst R" "n' = snd (snd R)" by (metis fst_conv, metis snd_conv)
  have "answer_ids_once (Some (AnswerList items)) \<Longrightarrow> length (wanted_ids (pp_last_offer p) items) \<le> length (pp_last_offer p)" for items
    by (simp add: answer_ids_once_def wanted_ids_few)
  then show ?thesis
    using once ended coded sending [of "[]"] sending [of "pp_last_offer p" "[]"] sending
    unfolding shape R_def by (auto simp: all fst_answer_code pending_done split: option.split answer_value.split bool.split)
qed

text \<open>Recording the send of what a session reserved.\<close>

lemma within_budget_spent:
  assumes ok: "within_budget m n pending hist" and p: "hget (sn_peers n) h = Some p" and "0 < k" and "k \<le> pp_reserved p"
    and state: "pp_state p = RESOURCE_TRANSFERRING"
  shows "within_budget m (record_outbound_send m h k n) None (hist @ [(m, k)])"
proof -
  let ?W = OUTBOUND_BUDGET_WINDOW_SECS
  define n1 where "n1 = n\<lparr>sn_sends := prune_sends m (sn_sends n) @ [(m, k)]\<rparr>"
  define f :: "prop_peer \<Rightarrow> prop_peer" where "f = (\<lambda>p. p\<lparr>pp_reserved := 0, pp_turn_sent := pp_turn_sent p + k\<rparr>)"
  have n': "record_outbound_send m h k n = peer_upd h f n1" by (simp add: record_outbound_send_def n1_def f_def)
  from ok have d: "hkeys_distinct (sn_peers n1)" by (simp add: within_budget_def n1_def)
  have p1: "hget (sn_peers n1) h = Some p" by (simp add: n1_def p)
  have out: "outbound_reserved n1 = outbound_reserved n" by (simp add: outbound_reserved_def n1_def)
  from ok have limit: "sent_between (m - ?W) m hist + outbound_reserved n \<le> sn_budget n"
    and times: "\<And>s k. (s, k) \<in> set hist \<Longrightarrow> s \<le> m" by (auto simp: within_budget_def)
  have spent: "sent_between (m - ?W) m hist + k + outbound_reserved (peer_upd h f n1) \<le> sn_budget n"
    using reserved_upd [OF d p1, of f] limit assms(4) by (simp add: out f_def)
  have window: "sent_between (T - ?W) T (hist @ [(m, k)]) \<le> sn_budget n" for T
  proof (cases "m \<le> T")
    case True
    have "sent_between (T - ?W) T hist \<le> sent_between (m - ?W) m hist"
      by (rule sent_between_mono) (use times True in force)
    with spent show ?thesis by (simp add: sent_between_def)
  next
    case False
    then have "sent_between (T - ?W) T [(m, k)] = 0" by (simp add: sent_between_def)
    moreover from ok have "sent_between (T - ?W) T hist \<le> sn_budget n" by (simp add: within_budget_def)
    ultimately show ?thesis by simp
  qed
  have "?W > 0" by (simp add: OUTBOUND_BUDGET_WINDOW_SECS_def)
  then have now: "sent_between (m - ?W) m (hist @ [(m, k)]) + outbound_reserved (peer_upd h f n1) \<le> sn_budget n"
    using spent by (simp add: sent_between_def)
  have sends: "\<exists>old. hist @ [(m, k)] = old @ sn_sends n1 \<and> (\<forall>(s, k) \<in> set old. ?W \<le> m - s)"
  proof -
    from ok obtain old where "hist = old @ sn_sends n" "\<forall>(s, k) \<in> set old. ?W \<le> m - s" by (auto simp: within_budget_def)
    then show ?thesis
      by (intro exI [where x = "old @ takeWhile (\<lambda>(s, _). m - s \<ge> ?W) (sn_sends n)"])
        (auto simp: n1_def prune_sends_def dest: set_takeWhileD)
  qed
  have late: "sn_record_start n + ?W \<le> m" using ok p assms(3, 4) by (simp add: within_budget_def)
  have peers: "(0 < pp_reserved q \<longrightarrow> sn_record_start n + ?W \<le> m) \<and>
      (pp_state q = REQUEST_SENT \<longrightarrow> length (pp_last_offer q) \<le> pp_reserved q)"
    if "hget (sn_peers (peer_upd h f n1)) g = Some q" for g q
    using that ok p1 late state by (auto simp: peer_upd_get n1_def within_budget_def f_def split: if_splits)
  have all_times: "\<forall>(s, k) \<in> set (hist @ [(m, k)]). sn_record_start n + ?W \<le> s \<and> s \<le> m"
    using ok late by (auto simp: within_budget_def)
  have fixed: "sn_record_start (peer_upd h f n1) = sn_record_start n" "sn_budget (peer_upd h f n1) = sn_budget n"
    "sn_sends (peer_upd h f n1) = sn_sends n1" by (simp_all add: n1_def)
  show ?thesis
    unfolding n' within_budget_def fixed
    using peer_upd_distinct [OF d, of h f] sends all_times now peers window by blast
qed

lemma length_read_files:
  assumes "read_files read files = (ids, messages, missing)"
  shows "length messages = length ids" and "length ids \<le> length files"
proof -
  have "length (List.map_filter (\<lambda>(_, path). case read path of FileRead d \<Rightarrow> Some d | _ \<Rightarrow> None) files) =
      length (filter (\<lambda>(_, path). case read path of FileRead _ \<Rightarrow> True | _ \<Rightarrow> False) files)"
    by (induction files) (auto simp: List.map_filter_def split: file_read.splits)
  with assms show "length messages = length ids" "length ids \<le> length files"
    by (auto simp: read_files_def)
qed

lemma within_budget_resource:
  assumes ok: "within_budget m0 n (Some (h, session, files)) hist" and "m0 \<le> m"
    and "send_sync_resource m t path read h session files n = (acts, n')"
  shows "within_budget m n' None (hist @ sent_by m acts)"
proof -
  obtain ids messages missing where read: "read_files read files = (ids, messages, missing)" by (metis prod_cases3)
  define n1 where "n1 = forget_missing_messages path missing n"
  have ok1: "within_budget m n1 pending hist" if "pending = None \<or> pending = Some (h, session, files)" for pending
    by (rule within_budget_quiet [OF ok assms(2)]) (use that in \<open>simp_all add: n1_def quiet_forget_missing\<close>)
  have ended: "within_budget m (snd (end_sync h n1)) None hist"
    by (rule within_budget_quiet [OF ok1 [of None] order_refl quiet_end_sync]) simp_all
  show ?thesis
  proof (cases "\<exists>p link. hget (sn_peers n1) h = Some p \<and> pp_state p = RESOURCE_TRANSFERRING \<and> pp_session p = session \<and>
      pp_link p = Some link \<and> ids \<noteq> []")
    case False
    then have "acts = [] \<and> n' = n1 \<or> acts = fst (end_sync h n1) \<and> n' = snd (end_sync h n1)"
      using assms(3) unfolding send_sync_resource_def read prod.case Let_def n1_def [symmetric]
      by (auto split: option.splits if_splits)
    with ok1 [of None] ended show ?thesis by auto
  next
    case True
    then obtain p link where p: "hget (sn_peers n1) h = Some p" "pp_state p = RESOURCE_TRANSFERRING" "pp_session p = session"
      and "pp_link p = Some link" "ids \<noteq> []" by auto
    define f :: "prop_peer \<Rightarrow> prop_peer" where "f = (\<lambda>p. p\<lparr>pp_transferring := Some ids, pp_started := Some t\<rparr>)"
    have result: "acts = [SendResource h link session ids]" "n' = record_outbound_send m h (length messages) (peer_upd h f n1)"
      using assms(3) p \<open>pp_link p = Some link\<close> \<open>ids \<noteq> []\<close>
      unfolding send_sync_resource_def read prod.case Let_def n1_def [symmetric] f_def by simp_all
    have "length files \<le> pp_reserved p" using ok1 [of "Some (h, session, files)"] p by (simp add: within_budget_def)
    then have few: "0 < length ids" "length ids \<le> pp_reserved (f p)" "length messages = length ids"
      using length_read_files [OF read] \<open>ids \<noteq> []\<close> by (auto simp: f_def)
    have "within_budget m (peer_upd h f n1) None hist"
      by (rule within_budget_quiet [OF ok1 [of None] order_refl quiet_upd]) (simp_all add: f_def milder_same)
    from within_budget_spent [OF this _ few(1, 2)] p few(3) show ?thesis
      by (simp add: result peer_upd_get f_def)
  qed
qed

lemma within_budget_step:
  assumes "sync_step w v" and "within_budget (sw_clock w) (sw_node w) (sw_pending w) (sw_hist w)"
  shows "within_budget (sw_clock v) (sw_node v) (sw_pending v) (sw_hist v)"
  using assms
proof (induction rule: sync_step.induct)
  case (start w m t held active h prepared acts n)
  have "quiet m (sw_node w) n" using quiet_prepare [of m "sw_node w" t held active h] start.hyps(3) by simp
  moreover have "sent_by m acts = []" using sent_prepare [of m t held active h "sw_node w"] start.hyps(3) by simp
  ultimately show ?case using within_budget_quiet [OF start.prems start.hyps(1)] by (simp add: after_def)
next
  case (offer w m t held identified requested h session plan acts n)
  have "within_budget m n None (sw_hist w)"
    using within_budget_offer [of "sw_clock w" "sw_node w" "sw_hist w" m t held identified requested h session plan] offer by simp
  moreover have "sent_by m acts = []" using sent_offer [of m m t held identified requested h session plan "sw_node w"] offer.hyps(3) by simp
  ultimately show ?case by (simp add: after_def)
next
  case (answer w m ans t path h session reply acts n)
  have "within_budget m n (pending_of h session reply) (sw_hist w)"
    using within_budget_answer [of "sw_clock w" "sw_node w" "sw_hist w" m ans t path h session reply acts n] answer by simp
  moreover have "sent_by m acts = []" using sent_answer [of m t path h session ans "sw_node w"] answer.hyps(4) by simp
  ultimately show ?case by (simp add: after_def)
next
  case (resource w m h session files t path read acts n)
  then show ?case
    using within_budget_resource [of "sw_clock w" "sw_node w" h session files "sw_hist w" m t path read acts n] by (simp add: after_def)
next
  case (refused w m h session acts n)
  have "quiet m (sw_node w) n" "sent_by m acts = []"
    using quiet_resource_refused [of m "sw_node w" h session] sent_links(1) [of m h session "sw_node w"] refused.hyps(3) by simp_all
  then show ?case using within_budget_quiet [OF refused.prems refused.hyps(1)] by (simp add: after_def)
next
  case (concluded w m t held held' active h session completed transfer_size again acts n)
  have "quiet m (sw_node w) n" "sent_by m acts = []"
    using quiet_outcome [of m "sw_node w" t held held' active h session completed transfer_size]
      sent_outcome [of m m t held held' active h session completed transfer_size "sw_node w"] concluded.hyps(3) by simp_all
  then show ?case using within_budget_quiet [OF concluded.prems concluded.hyps(1)] by (simp add: after_def)
next
  case (offer_failed w m h session acts n)
  have "quiet m (sw_node w) n" "sent_by m acts = []"
    using quiet_offer_failed [of m "sw_node w" h session] sent_links(2) [of m h session "sw_node w"] offer_failed.hyps(3) by simp_all
  then show ?case using within_budget_quiet [OF offer_failed.prems offer_failed.hyps(1)] by (simp add: after_def)
next
  case (link_up w m active h link again acts n)
  have "quiet m (sw_node w) n" "sent_by m acts = []"
    using quiet_link_active [of m "sw_node w" active h link] sent_links(3) [of m active h link "sw_node w"] link_up.hyps(3) by simp_all
  then show ?case using within_budget_quiet [OF link_up.prems link_up.hyps(1)] by (simp add: after_def)
next
  case (link_down w m live active h acts n)
  have "quiet m (sw_node w) n" "sent_by m acts = []"
    using quiet_link_down [of m "sw_node w" live active h] sent_links(4) [of m live active h "sw_node w"] link_down.hyps(3) by simp_all
  then show ?case using within_budget_quiet [OF link_down.prems link_down.hyps(1)] by (simp add: after_def)
next
  case (tick w m m' t held pick static last_tick out last_tick' n acts)
  have "quiet m' (sw_node w) n" "sent_by m' acts = []"
    using quiet_tick [OF tick.hyps(2), of "sw_node w" t held pick static last_tick]
      sent_tick [of m' t m m' held pick static last_tick "sw_node w"] tick.hyps(3, 4) by simp_all
  then show ?case using within_budget_quiet [OF tick.prems] tick.hyps(1, 2) by (simp add: after_def)
next
  case (announce w m n t own static autopeer h config is_path_response)
  have "quiet m (sw_node w) n" unfolding announce.hyps(2) by (rule quiet_announce)
  then show ?case using within_budget_quiet [OF announce.prems announce.hyps(1)] by (simp add: after_def)
next
  case (else w m n)
  show ?case using within_budget_quiet [OF else.prems else.hyps(1) quiet_elsewhere [OF else.hyps(2)]] by (simp add: after_def)
qed

lemma fresh_within_budget: "fresh_world w \<Longrightarrow> within_budget (sw_clock w) (sw_node w) (sw_pending w) (sw_hist w)"
proof -
  assume w: "fresh_world w"
  then have out: "outbound_reserved (sw_node w) = 0"
    by (fastforce simp: fresh_world_def outbound_reserved_def)
  have "pp_reserved p = 0 \<and> pp_state p = IDLE" if "hget (sn_peers (sw_node w)) h = Some p" for h p
    using w hget_mem [OF that] by (auto simp: fresh_world_def)
  with w out show ?thesis by (auto simp: within_budget_def fresh_world_def sent_between_def)
qed

lemma sync_run_within_budget: "sync_run w v \<Longrightarrow> within_budget (sw_clock v) (sw_node v) (sw_pending v) (sw_hist v)"
  by (induction rule: sync_run.induct) (auto intro: fresh_within_budget within_budget_step)

section \<open>The budget is never exceeded\<close>

text \<open>
  C10: whatever the peers answer (so long as an answer names no id twice), however the sync worker,
  the ticks and the announces interleave, and whatever else the node does: in every 60 seconds
  the node hands at most its budget of messages to its links, nothing leaves in the first 60
  seconds of the record, and what was sent in the last 60 seconds and what the open sessions
  still reserve stay within the budget together.
\<close>

theorem outbound_budget_never_exceeded:
  assumes "sync_run w v"
  shows "sent_between (T - OUTBOUND_BUDGET_WINDOW_SECS) T (sw_hist v) \<le> sn_budget (sw_node v) \<and>
    (\<forall>(s, k) \<in> set (sw_hist v). sn_record_start (sw_node v) + OUTBOUND_BUDGET_WINDOW_SECS \<le> s) \<and>
    sent_between (sw_clock v - OUTBOUND_BUDGET_WINDOW_SECS) (sw_clock v) (sw_hist v) + outbound_reserved (sw_node v)
      \<le> sn_budget (sw_node v)"
  using sync_run_within_budget [OF assms] by (auto simp: within_budget_def)

text \<open>A session from the tick to the Resource, with one message.\<close>

definition demo_peer :: prop_peer where
  "demo_peer = (new_prop_peer [1])\<lparr>pp_stamp_cost := Some 0, pp_stamp_flexibility := Some 0, pp_peering_cost := Some 2,
     pp_peering_key := Some ([9], 5)\<rparr>"

definition demo_id :: bytes where
  "demo_id = replicate 32 5"

definition demo_entries :: propagation_entries where
  "demo_entries = snd (the (queue_unhandled 0 demo_id (snd (the (insert_entry demo_id (new_entry [7] 2 100 16) no_entries)))))"

definition demo_node :: "prop_peer \<Rightarrow> (secs \<times> nat) list \<Rightarrow> sync_node" where
  "demo_node p sends = \<lparr>sn_peers = [([1], p)], sn_departed = [], sn_entries = demo_entries, sn_fresh = [],
     sn_sends = sends, sn_record_start = 0, sn_budget = 3, sn_started_at = 0, sn_hold_logged = False, sn_backlog_logged = False\<rparr>"

definition demo_world :: sync_world where
  "demo_world = \<lparr>sw_node = demo_node demo_peer [], sw_clock = 0, sw_pending = None, sw_hist = []\<rparr>"

definition demo_plan :: offer_plan where
  "demo_plan = \<lparr>op_offer = [demo_id], op_too_big = [], op_over_resource = [], op_estimated = 0\<rparr>"

definition demo_path :: "bytes \<Rightarrow> propagation_entry \<Rightarrow> string" where
  "demo_path tid e = ''five''"

definition demo_opening :: prop_peer where
  "demo_opening = demo_peer\<lparr>pp_backoff := 720, pp_next_attempt := 5720, pp_last_attempt := 5000, pp_session := 1,
     pp_state := LINK_ESTABLISHING\<rparr>"

definition demo_up :: prop_peer where
  "demo_up = demo_opening\<lparr>pp_link := Some [2], pp_next_attempt := 0, pp_state := LINK_READY\<rparr>"

definition demo_offered :: prop_peer where
  "demo_offered = demo_up\<lparr>pp_identified := Some [2], pp_session := 2, pp_last_offer := [demo_id], pp_reserved := 1,
     pp_state := REQUEST_SENT\<rparr>"

definition demo_asked :: prop_peer where
  "demo_asked = demo_offered\<lparr>pp_last_offer := [], pp_state := RESOURCE_TRANSFERRING\<rparr>"

definition demo_sent :: prop_peer where
  "demo_sent = demo_asked\<lparr>pp_transferring := Some [demo_id], pp_started := Some 5003, pp_reserved := 0, pp_turn_sent := 1\<rparr>"

lemma demo_opens: "prepare_sync 5000 False None [1] (demo_node demo_peer []) = (None, [OpenLink [1]], demo_node demo_opening [])"
  by code_simp
lemma demo_link_up: "on_link_active (Some [2]) [1] [2] (demo_node demo_opening []) = (True, [], demo_node demo_up [])"
  by code_simp
lemma demo_offers: "send_offer 93 5001 False True True [1] 1 demo_plan (demo_node demo_up []) =
    ([Identify [1] [2], RequestOffer [1] [2] 2 [9] [demo_id]], demo_node demo_offered [])"
  by code_simp
lemma demo_asks: "apply_offer_response 5002 demo_path [1] 2 (Some (AnswerBool True)) (demo_node demo_offered []) =
    (OfferSend [(demo_id, ''five'')], [], demo_node demo_asked [])"
  by code_simp
lemma demo_sends: "send_sync_resource 95 5003 demo_path (\<lambda>_. FileRead [3]) [1] 2 [(demo_id, ''five'')] (demo_node demo_asked []) =
    ([SendResource [1] [2] 2 [demo_id]], demo_node demo_sent [(95, 1)])"
  by code_simp

definition demo_at :: "prop_peer \<Rightarrow> secs \<Rightarrow> (bytes \<times> nat \<times> (bytes \<times> string) list) option \<Rightarrow> sync_world" where
  "demo_at p m pending = \<lparr>sw_node = demo_node p [], sw_clock = m, sw_pending = pending, sw_hist = []\<rparr>"

lemma demo_run:
  "sync_run demo_world \<lparr>sw_node = demo_node demo_sent [(95, 1)], sw_clock = 95, sw_pending = None, sw_hist = [(95, 1)]\<rparr>"
proof -
  have "fresh_world demo_world"
    by (simp add: fresh_world_def demo_world_def demo_node_def demo_peer_def new_prop_peer_def hkeys_distinct_def)
  then have "sync_run demo_world demo_world" by (rule run_start)
  moreover have "sync_step demo_world (demo_at demo_opening 90 None)"
    using sync_step.start [of demo_world 90 5000 False None "[1]" None "[OpenLink [1]]" "demo_node demo_opening []"]
    by (simp add: demo_world_def demo_opens after_def demo_at_def)
  ultimately have "sync_run demo_world (demo_at demo_opening 90 None)" by (rule run_step)
  moreover have "sync_step (demo_at demo_opening 90 None) (demo_at demo_up 91 None)"
    using sync_step.link_up [of "demo_at demo_opening 90 None" 91 "Some [2]" "[1]" "[2]" True "[]" "demo_node demo_up []"]
    by (simp add: demo_link_up after_def demo_at_def)
  ultimately have "sync_run demo_world (demo_at demo_up 91 None)" by (rule run_step)
  moreover have "sync_step (demo_at demo_up 91 None) (demo_at demo_offered 93 None)"
    using sync_step.offer [of "demo_at demo_up 91 None" 93 5001 False True True "[1]" 1 demo_plan
        "[Identify [1] [2], RequestOffer [1] [2] 2 [9] [demo_id]]" "demo_node demo_offered []"]
    by (simp del: One_nat_def add: demo_offers after_def demo_at_def)
  ultimately have "sync_run demo_world (demo_at demo_offered 93 None)" by (rule run_step)
  moreover have "sync_step (demo_at demo_offered 93 None) (demo_at demo_asked 94 (Some ([1], 2, [(demo_id, ''five'')])))"
    using sync_step.answer [of "demo_at demo_offered 93 None" 94 "Some (AnswerBool True)" 5002 demo_path "[1]" 2
        "OfferSend [(demo_id, ''five'')]" "[]" "demo_node demo_asked []"]
    by (simp add: demo_asks after_def demo_at_def answer_ids_once_def pending_of_def)
  ultimately have "sync_run demo_world (demo_at demo_asked 94 (Some ([1], 2, [(demo_id, ''five'')])))" by (rule run_step)
  moreover have "sync_step (demo_at demo_asked 94 (Some ([1], 2, [(demo_id, ''five'')])))
      \<lparr>sw_node = demo_node demo_sent [(95, 1)], sw_clock = 95, sw_pending = None, sw_hist = [(95, 1)]\<rparr>"
    using sync_step.resource [of "demo_at demo_asked 94 (Some ([1], 2, [(demo_id, ''five'')]))" 95 "[1]" 2 "[(demo_id, ''five'')]"
        5003 demo_path "\<lambda>_. FileRead [3]" "[SendResource [1] [2] 2 [demo_id]]" "demo_node demo_sent [(95, 1)]"]
    by (simp add: demo_sends after_def demo_at_def)
  ultimately show ?thesis by (rule run_step)
qed

lemma outbound_budget_never_exceeded_witness:
  "sent_between (95 - OUTBOUND_BUDGET_WINDOW_SECS) 95 [(95, 1)] = 1 \<and>
   sent_between (95 - OUTBOUND_BUDGET_WINDOW_SECS) 95 [(95, 1)] \<le> 3"
  using outbound_budget_never_exceeded [OF demo_run, of 95]
  by (simp add: demo_node_def sent_between_def OUTBOUND_BUDGET_WINDOW_SECS_def)

text \<open>
  An answer that names an offered id four times makes the session send the message four
  times, over a budget of three: the ids are not made distinct before they are counted.
\<close>

theorem duplicate_answer_breaks_budget:
  "case apply_offer_response 5002 demo_path [1] 2 (Some (AnswerList (replicate 4 (Some demo_id)))) (demo_node demo_offered []) of
     (reply, _, n) \<Rightarrow>
       reply = OfferSend (replicate 4 (demo_id, ''five'')) \<and>
       (case send_sync_resource 95 5003 demo_path (\<lambda>_. FileRead [3]) [1] 2 (replicate 4 (demo_id, ''five'')) n of
          (acts, n') \<Rightarrow> acts = [SendResource [1] [2] 2 (replicate 4 demo_id)] \<and> outbound_sent_in_window 95 n' = 4 \<and> sn_budget n' = 3)"
  by code_simp

end
