(* ===== verification/Peering_Props.thy ===== *)
theory Peering_Props
  imports PeerBudget "HOL-Library.Sublist"
begin

text \<open>
  The offer, the choice of the next peer and the slots of the peers: what \<open>plan_offer\<close>,
  \<open>select_sync_peer\<close> and \<open>insert_peer\<close> guarantee.
\<close>

section \<open>The offer\<close>

abbreviation transfer_size :: "offer_candidate \<Rightarrow> real" where
  "transfer_size c \<equiv> real (oc_size c) + PER_MESSAGE_OVERHEAD"

definition exceeds_transfer :: "real option \<Rightarrow> offer_candidate \<Rightarrow> bool" where
  "exceeds_transfer limit c = (case limit of Some l \<Rightarrow> transfer_size c > l * 1000 | None \<Rightarrow> False)"

definition exceeds_resource :: "nat \<Rightarrow> offer_candidate \<Rightarrow> bool" where
  "exceeds_resource resource_max c \<longleftrightarrow> BATCH_OVERHEAD + transfer_size c > real resource_max"

text \<open>What holds of a plan once the candidates \<open>cs\<close> were looked at; \<open>taken\<close> are those offered.\<close>

definition plan_ok :: "nat \<Rightarrow> real option \<Rightarrow> real option \<Rightarrow> nat \<Rightarrow> offer_candidate list \<Rightarrow> offer_candidate list \<Rightarrow> offer_plan \<Rightarrow> bool" where
  "plan_ok resource_max transfer_limit sync_limit max_ids cs taken plan \<longleftrightarrow>
     op_offer plan = map oc_tid taken \<and> subseq taken cs \<and>
     op_too_big plan = map oc_tid (filter (exceeds_transfer transfer_limit) cs) \<and>
     op_over_resource plan = map oc_tid (filter (\<lambda>c. \<not> exceeds_transfer transfer_limit c \<and> exceeds_resource resource_max c) cs) \<and>
     (\<forall>c \<in> set taken. \<not> exceeds_transfer transfer_limit c \<and> \<not> exceeds_resource resource_max c) \<and>
     length taken \<le> max_ids \<and>
     op_estimated plan = BATCH_OVERHEAD + sum_list (map transfer_size taken) \<and>
     (taken \<noteq> [] \<longrightarrow> op_estimated plan \<le> real resource_max \<and>
        (\<forall>l. sync_limit = Some l \<longrightarrow> op_estimated plan < l * 1000))"

lemma plan_one_ok:
  assumes "plan_ok rm tm sl mi cs taken plan"
  shows "\<exists>taken'. plan_ok rm tm sl mi (cs @ [c]) taken' (plan_one rm tm sl mi c plan)"
proof -
  have keep: "subseq taken (cs @ [c])" using assms by (simp add: plan_ok_def subseq_rev_drop_many)
  have more: "subseq (taken @ [c]) (cs @ [c])" using assms by (simp add: plan_ok_def)
  show ?thesis
  proof (cases "exceeds_transfer tm c \<or> exceeds_resource rm c \<or> mi \<le> length (op_offer plan) \<or>
      (case sl of Some l \<Rightarrow> op_estimated plan + transfer_size c \<ge> l * 1000 | None \<Rightarrow> False) \<or>
      op_estimated plan + transfer_size c > real rm")
    case True
    then have "plan_ok rm tm sl mi (cs @ [c]) taken (plan_one rm tm sl mi c plan)"
      using assms keep
      by (auto simp: plan_ok_def plan_one_def Let_def exceeds_transfer_def exceeds_resource_def split: option.splits)
    then show ?thesis ..
  next
    case False
    then have "plan_ok rm tm sl mi (cs @ [c]) (taken @ [c]) (plan_one rm tm sl mi c plan)"
      using assms more
      by (auto simp: plan_ok_def plan_one_def Let_def exceeds_transfer_def exceeds_resource_def split: option.splits)
    then show ?thesis ..
  qed
qed

lemma plan_fold_ok:
  "plan_ok rm tm sl mi cs taken plan \<Longrightarrow> \<exists>taken'. plan_ok rm tm sl mi (cs @ ds) taken' (fold (plan_one rm tm sl mi) ds plan)"
proof (induction ds arbitrary: cs taken plan)
  case (Cons d ds)
  from plan_one_ok [OF Cons.prems, of d] obtain taken' where "plan_ok rm tm sl mi (cs @ [d]) taken' (plan_one rm tm sl mi d plan)" ..
  from Cons.IH [OF this] show ?case by simp
qed auto

text \<open>
  \<open>plan_offer\<close> looks at the candidates in the order of their weights; it lists as too big exactly
  those over the peer's transfer limit and, of the others, as too big for a Resource exactly
  those that alone exceed it; what it offers is a subsequence of the rest, of at most \<open>max_ids\<close>
  messages, whose estimate stays within the Resource and under the peer's sync limit.
\<close>

theorem plan_offer_within_limits:
  "\<exists>taken. plan_ok resource_max transfer_limit sync_limit max_ids (sort_key oc_weight candidates) taken
     (plan_offer resource_max candidates transfer_limit sync_limit max_ids)"
  using plan_fold_ok [of resource_max transfer_limit sync_limit max_ids "[]" "[]"
      "\<lparr>op_offer = [], op_too_big = [], op_over_resource = [], op_estimated = BATCH_OVERHEAD\<rparr>" "sort_key oc_weight candidates"]
  unfolding plan_offer_def by (simp add: plan_ok_def)

section \<open>The next peer\<close>

lemma candidate_contends:
  "contends_for_sync p t held fresh E \<longleftrightarrow> candidate_kind_of t held fresh E p = Waiting \<or> candidate_kind_of t held fresh E p = Unresponsive"
  by (auto simp: contends_for_sync_def candidate_kind_of_def)

text \<open>What a peer wants of the budget: one offer at most.\<close>

definition batch_demand :: "bool \<Rightarrow> bytes list \<Rightarrow> propagation_entries \<Rightarrow> prop_peer \<Rightarrow> nat" where
  "batch_demand held fresh E p = next_batch_demand held fresh E p MAX_OFFER_IDS"

lemma next_batch_demand_cap: "next_batch_demand held fresh E p cap = min (batch_demand held fresh E p) cap"
  by (simp add: next_batch_demand_def batch_demand_def Let_def min.assoc min.commute min.left_commute)

lemma demand_loop_exceeds:
  assumes "\<And>p cap. demand_of p cap = min (wants p) cap"
  shows "allowance < demand_loop demand_of allowance peers hs demand \<longleftrightarrow>
    allowance < demand + (\<Sum>h \<leftarrow> hs. case hget peers h of Some p \<Rightarrow> wants p | None \<Rightarrow> 0)"
proof (induction hs arbitrary: demand)
  case (Cons h hs)
  show ?case
  proof (cases "hget peers h")
    case None
    then show ?thesis by (simp add: Cons.IH)
  next
    case (Some p)
    have "demand_of p (allowance - demand + 1) = min (wants p) (allowance - demand + 1)" by (rule assms)
    with Some Cons.IH [of "demand + demand_of p (allowance - demand + 1)"] show ?thesis by auto
  qed
qed simp

lemma fold_min_least: "fold min xs (x :: 'a :: linorder) \<le> x \<and> (\<forall>y \<in> set xs. fold min xs x \<le> y) \<and> fold min xs x \<in> set (x # xs)"
proof (induction xs arbitrary: x)
  case (Cons y ys)
  from Cons [of "min y x"] show ?case by (auto simp: min_def split: if_splits)
qed simp

lemma least_recent_least:
  "set (least_recent peers hs) = {h \<in> set hs. \<forall>g \<in> set hs. last_turn peers h \<le> last_turn peers g}"
proof (cases hs)
  case (Cons h hs')
  let ?m = "fold min (map (last_turn peers) hs') (last_turn peers h)"
  have "\<forall>g \<in> set hs. ?m \<le> last_turn peers g" "\<exists>g \<in> set hs. ?m = last_turn peers g"
    using fold_min_least [of "map (last_turn peers) hs'" "last_turn peers h"] Cons by auto
  then have "g \<in> set hs \<Longrightarrow> last_turn peers g = ?m \<longleftrightarrow> (\<forall>k \<in> set hs. last_turn peers g \<le> last_turn peers k)" for g
    by (metis order_antisym)
  then show ?thesis by (auto simp: least_recent_def Cons Let_def)
qed (simp add: least_recent_def)

lemma least_recent_Nil: "least_recent peers hs = [] \<longleftrightarrow> hs = []"
proof
  assume e: "least_recent peers hs = []"
  show "hs = []"
  proof (rule ccontr)
    assume "hs \<noteq> []"
    then have "Min (last_turn peers ` set hs) \<in> last_turn peers ` set hs" by (intro Min_in) auto
    then obtain h where h: "h \<in> set hs" "last_turn peers h = Min (last_turn peers ` set hs)" by force
    then have "h \<in> set (least_recent peers hs)" unfolding least_recent_least by simp
    with e show False by simp
  qed
qed (simp add: least_recent_def)

lemma fastest_pool_mem: "set (fastest_pool waiting) \<subseteq> fst ` set waiting"
  by (auto simp: fastest_pool_def Let_def dest!: in_set_takeD)

lemma fastest_pool_Nil: "fastest_pool waiting = [] \<longleftrightarrow> waiting = []"
  by (cases waiting) (auto simp: fastest_pool_def Let_def FASTEST_N_RANDOM_POOL_def)

definition sync_contenders :: "secs \<Rightarrow> bool \<Rightarrow> sync_node \<Rightarrow> (bytes, prop_peer) hmap" where
  "sync_contenders t held n = filter (\<lambda>(_, p). contends_for_sync p t held (sn_fresh n) (sn_entries n)) (sn_peers n)"

lemma sum_list_mset_cong: "mset xs = mset ys \<Longrightarrow> (\<Sum>x \<leftarrow> xs. f x) = (\<Sum>x \<leftarrow> ys. f x :: nat)"
  unfolding sum_mset_sum_list [symmetric] mset_map by simp

lemma mset_contenders:
  "mset (map fst (filter (\<lambda>(_, p). candidate_kind_of t held fresh E p = Waiting) ps) @
     map fst (filter (\<lambda>(_, p). candidate_kind_of t held fresh E p = Unresponsive) ps)) =
   mset (map fst (filter (\<lambda>(_, p). contends_for_sync p t held fresh E) ps))"
  by (induction ps) (auto simp: candidate_contends)

text \<open>
  C36: \<open>select_sync_peer\<close> chooses no peer exactly when none contends for a sync, and otherwise one
  that does; while the contenders want more than what is left of the budget, it chooses one
  whose last turn is the oldest of all contenders.
\<close>

theorem select_sync_peer_fair:
  assumes "hkeys_distinct (sn_peers n)"
  shows "case fst (select_sync_peer t m held pick n) of
      None \<Rightarrow> sync_contenders t held n = []
    | Some h \<Rightarrow> \<exists>p. (h, p) \<in> set (sync_contenders t held n) \<and>
        (fst (outbound_allowance m n) <
           (\<Sum>(_, q) \<leftarrow> sync_contenders t held n. batch_demand held (sn_fresh n) (sn_entries n) q) \<longrightarrow>
         (\<forall>(_, q) \<in> set (sync_contenders t held n). pp_last_attempt p \<le> pp_last_attempt q))"
proof -
  let ?C = "sync_contenders t held n" and ?D = "batch_demand held (sn_fresh n) (sn_entries n)"
  define n1 where "n1 = snd (outbound_allowance m n)"
  have n1: "sn_peers n1 = sn_peers n" "sn_fresh n1 = sn_fresh n" "sn_entries n1 = sn_entries n"
    by (simp_all add: n1_def outbound_allowance_def Let_def)
  define kind where "kind = candidate_kind_of t held (sn_fresh n) (sn_entries n)"
  define peers where "peers = map (\<lambda>(h, p). (h, if kind p = Demoted then p\<lparr>pp_alive := False\<rparr> else p)) (sn_peers n)"
  define waiting where "waiting = map (\<lambda>(h, p). (h, pp_rate p)) (filter (\<lambda>(_, p). kind p = Waiting) (sn_peers n))"
  define unresponsive where "unresponsive = map fst (filter (\<lambda>(_, p). kind p = Unresponsive) (sn_peers n))"
  define hs where "hs = map fst waiting @ unresponsive"
  define binds where "binds \<longleftrightarrow> fst (outbound_allowance m n) <
    demand_loop (next_batch_demand held (sn_fresh n) (sn_entries n)) (fst (outbound_allowance m n)) peers hs 0"
  define pool where "pool = (if binds then least_recent peers hs else if waiting \<noteq> [] then fastest_pool waiting else unresponsive)"
  have chosen: "fst (select_sync_peer t m held pick n) =
      (if pool = [] then None else Some (pool ! min (pick (length pool)) (length pool - 1)))"
    unfolding select_sync_peer_def Let_def case_prod_beta n1_def [symmetric] n1 kind_def [symmetric]
      pool_def binds_def hs_def waiting_def unresponsive_def peers_def
    by simp
  have mset_hs: "mset hs = mset (map fst ?C)"
    using mset_contenders [of t held "sn_fresh n" "sn_entries n" "sn_peers n"]
    by (simp add: hs_def waiting_def unresponsive_def kind_def sync_contenders_def comp_def case_prod_beta)
  then have hs: "set hs = fst ` set ?C" by (metis list.set_map set_mset_mset)
  have pool_sub: "set pool \<subseteq> set hs"
    using fastest_pool_mem [of waiting] by (auto simp: pool_def least_recent_least hs_def)
  have pool_Nil: "pool = [] \<longleftrightarrow> hs = []"
    by (auto simp: pool_def least_recent_Nil fastest_pool_Nil hs_def)
  have get: "hget (sn_peers n) g = Some q" if "(g, q) \<in> set ?C" for g q
    using that assms by (simp add: sync_contenders_def hkeys_distinct_def)
  have kept: "hget peers g = Some q" if "(g, q) \<in> set ?C" for g q
  proof -
    from that have "kind q \<noteq> Demoted" by (auto simp: sync_contenders_def candidate_contends kind_def)
    with get [OF that] show ?thesis by (simp add: peers_def hget_map_value)
  qed
  have turn: "last_turn peers g = pp_last_attempt q" if "(g, q) \<in> set ?C" for g q
    using kept [OF that] by (simp add: last_turn_def)
  have "(\<Sum>g \<leftarrow> hs. case hget peers g of Some q \<Rightarrow> ?D q | None \<Rightarrow> 0) =
      (\<Sum>g \<leftarrow> map fst ?C. case hget peers g of Some q \<Rightarrow> ?D q | None \<Rightarrow> 0)"
    by (rule sum_list_mset_cong [OF mset_hs])
  also have "\<dots> = (\<Sum>(_, q) \<leftarrow> ?C. ?D q)"
    unfolding map_map by (rule arg_cong [where f = sum_list], rule map_cong) (auto simp: kept)
  finally have binds: "binds \<longleftrightarrow> fst (outbound_allowance m n) < (\<Sum>(_, q) \<leftarrow> ?C. ?D q)"
    unfolding binds_def by (subst demand_loop_exceeds [OF next_batch_demand_cap]) simp
  show ?thesis
  proof (cases "pool = []")
    case True
    with hs pool_Nil show ?thesis by (simp add: chosen)
  next
    case False
    then have "pool ! min (pick (length pool)) (length pool - 1) \<in> set pool"
      by (intro nth_mem) (simp add: min.strict_coboundedI2)
    with False obtain h where h: "fst (select_sync_peer t m held pick n) = Some h" "h \<in> set pool"
      by (simp add: chosen)
    from h(2) pool_sub hs obtain p where p: "(h, p) \<in> set ?C" by force
    have "pp_last_attempt p \<le> pp_last_attempt q" if "binds" "(g, q) \<in> set ?C" for g q
      using h(2) that hs turn [OF p] turn [OF that(2)] by (force simp: pool_def least_recent_least)
    with p h(1) binds show ?thesis by auto
  qed
qed

lemma select_sync_peer_fair_witness: "fst (select_sync_peer 5000 100 False (\<lambda>_. 0) (demo_node demo_peer [])) \<noteq> None"
proof -
  have "hkeys_distinct (sn_peers (demo_node demo_peer []))" by (simp add: demo_node_def hkeys_distinct_def)
  moreover have "sync_contenders 5000 False (demo_node demo_peer []) \<noteq> []" by code_simp
  ultimately show ?thesis
    using select_sync_peer_fair [where n = "demo_node demo_peer []" and t = 5000 and m = 100 and held = False and pick = "\<lambda>_. 0"]
    by (auto split: option.splits)
qed

section \<open>Slots\<close>

text \<open>
  What changes the peers and the marks: adding a peer, unpeering, and the messages, whose marks
  are only ever set for the peers there are.
\<close>

datatype slot_op = Add prop_peer | Drop bytes | Marks propagation_entries

definition slots_in :: "(bytes, prop_peer) hmap \<Rightarrow> nat list" where
  "slots_in ps = map (\<lambda>(_, p). pp_slot p) ps"

lemma slots_in_simps [simp]: "slots_in [] = []" "slots_in ((h, p) # ps) = pp_slot p # slots_in ps"
    "slots_in (ps @ qs) = slots_in ps @ slots_in qs"
  by (simp_all add: slots_in_def)

abbreviation peer_slots :: "sync_node \<Rightarrow> nat list" where
  "peer_slots n \<equiv> slots_in (sn_peers n)"

fun slot_op_ok :: "slot_op \<Rightarrow> sync_node \<Rightarrow> bool" where
  "slot_op_ok (Marks E) n \<longleftrightarrow> (\<forall>slot. marks_left slot E \<longrightarrow> marks_left slot (sn_entries n) \<or> slot \<in> set (peer_slots n))"
| "slot_op_ok _ n \<longleftrightarrow> True"

fun run_slot_op :: "slot_op \<Rightarrow> sync_node \<Rightarrow> sync_node" where
  "run_slot_op (Add p) n = insert_peer p n"
| "run_slot_op (Drop h) n = snd (unpeer h n)"
| "run_slot_op (Marks E) n = n\<lparr>sn_entries := E\<rparr>"

inductive slot_run :: "sync_node \<Rightarrow> sync_node \<Rightarrow> bool" where
  slot_start: "slot_run n n"
| slot_step: "slot_run n n' \<Longrightarrow> slot_op_ok op n' \<Longrightarrow> slot_run n (run_slot_op op n')"

definition slots_ok :: "sync_node \<Rightarrow> bool" where
  "slots_ok n \<longleftrightarrow> distinct (map fst (sn_peers n) @ map fst (sn_departed n)) \<and>
     (\<forall>x \<in> set (sn_peers n). pp_hash (snd x) = fst x) \<and>
     distinct (peer_slots n @ map snd (sn_departed n)) \<and>
     (\<forall>slot. marks_left slot (sn_entries n) \<longrightarrow> slot \<in> set (peer_slots n) \<union> snd ` set (sn_departed n))"

lemma free_slot_exists: "\<exists>slot < Suc (length used). slot \<notin> set used" for used :: "nat list"
proof (rule ccontr)
  assume "\<not> ?thesis"
  then have "{0..<Suc (length used)} \<subseteq> set used" by auto
  then have "Suc (length used) \<le> card (set used)" by (metis card_atLeastLessThan card_mono diff_zero finite_set)
  then show False using card_length [of used] by simp
qed

lemma first_unheld:
  fixes used :: "nat list"
  obtains slot where "position (\<lambda>b. \<not> b) (map (\<lambda>s. s \<in> set used) [0..<length used + 1]) = Some slot" and "slot \<notin> set used"
proof -
  let ?held = "map (\<lambda>s. s \<in> set used) [0..<length used + 1]"
  obtain s where s: "s < Suc (length used)" "s \<notin> set used" using free_slot_exists by blast
  then have "\<exists>b \<in> set ?held. \<not> b" unfolding set_map set_upt bex_simps by auto
  then have "position (\<lambda>b. \<not> b) ?held \<noteq> None" unfolding position_None_iff by blast
  then obtain k where k: "position (\<lambda>b. \<not> b) ?held = Some k" by auto
  from position_Some [OF this] have "k < Suc (length used)" "\<not> ?held ! k" by simp_all
  then have "k \<notin> set used" by (simp del: upt_Suc)
  with k that show thesis by blast
qed

lemma free_peer_slot_unheld:
  assumes "free_peer_slot n = (slot, n')"
  shows "sn_departed n' = filter (\<lambda>(_, s). marks_left s (sn_entries n)) (sn_departed n)"
    and "n' = n\<lparr>sn_departed := sn_departed n'\<rparr>"
    and "slot \<notin> set (peer_slots n) \<union> snd ` set (sn_departed n')"
proof -
  let ?d = "filter (\<lambda>(_, s). marks_left s (sn_entries n)) (sn_departed n)"
  let ?u = "peer_slots n @ map snd ?d"
  obtain k where k: "position (\<lambda>b. \<not> b) (map (\<lambda>s. s \<in> set ?u) [0..<length ?u + 1]) = Some k" "k \<notin> set ?u"
    by (rule first_unheld)
  have "free_peer_slot n = (case position (\<lambda>b. \<not> b) (map (\<lambda>s. s \<in> set ?u) [0..<length ?u + 1]) of
      Some slot \<Rightarrow> slot | None \<Rightarrow> length (sn_peers n) + length ?d, n\<lparr>sn_departed := ?d\<rparr>)"
    unfolding free_peer_slot_def Let_def slots_in_def length_append length_map ..
  with assms k(1) have "slot = k" "n' = n\<lparr>sn_departed := ?d\<rparr>" by simp_all
  with k(2) show "sn_departed n' = ?d" "n' = n\<lparr>sn_departed := sn_departed n'\<rparr>"
    "slot \<notin> set (peer_slots n) \<union> snd ` set (sn_departed n')" by auto
qed

lemma insert_peer_known:
  "hget (sn_peers n) (pp_hash p) = Some old \<Longrightarrow>
     insert_peer p n = n\<lparr>sn_peers := hput (pp_hash p) (p\<lparr>pp_slot := pp_slot old\<rparr>) (hdel (pp_hash p) (sn_peers n))\<rparr>"
  by (simp add: insert_peer_def Let_def)

lemma insert_peer_departed:
  "hget (sn_peers n) (pp_hash p) = None \<Longrightarrow> hget (sn_departed n) (pp_hash p) = Some slot \<Longrightarrow>
     insert_peer p n = n\<lparr>sn_departed := hdel (pp_hash p) (sn_departed n), sn_peers := sn_peers n @ [(pp_hash p, p\<lparr>pp_slot := slot\<rparr>)]\<rparr>"
  by (simp add: insert_peer_def Let_def hput_new)

lemma insert_peer_fresh:
  "hget (sn_peers n) (pp_hash p) = None \<Longrightarrow> hget (sn_departed n) (pp_hash p) = None \<Longrightarrow> free_peer_slot n = (slot, n') \<Longrightarrow>
     insert_peer p n = n'\<lparr>sn_peers := sn_peers n @ [(pp_hash p, p\<lparr>pp_slot := slot\<rparr>)]\<rparr>"
  by (auto simp: insert_peer_def Let_def hput_new free_peer_slot_def)

lemma slots_ok_keys: "slots_ok n \<Longrightarrow> hkeys_distinct (sn_peers n)" "slots_ok n \<Longrightarrow> hkeys_distinct (sn_departed n)"
  by (simp_all add: slots_ok_def hkeys_distinct_def)

lemma distinct_app_mono:
  assumes "distinct (xs @ ys)" and "x \<notin> set xs" and "x \<notin> set ys'" and "distinct ys'" and "set ys' \<subseteq> set ys"
  shows "distinct ((xs @ [x]) @ ys')"
  using assms by auto

lemma insert_peer_slots:
  assumes ok: "slots_ok n"
  shows "slots_ok (insert_peer p n)"
proof (cases "hget (sn_peers n) (pp_hash p)")
  case (Some old)
  from ok Some obtain xs ys where split: "sn_peers n = xs @ (pp_hash p, old) # ys" "pp_hash p \<notin> fst ` set xs" "pp_hash p \<notin> fst ` set ys"
    by (metis hget_split slots_ok_keys)
  have "hget (xs @ ys) (pp_hash p) = None" using split(2, 3) by (simp add: map_of_eq_None_iff)
  then have "insert_peer p n = n\<lparr>sn_peers := (xs @ ys) @ [(pp_hash p, p\<lparr>pp_slot := pp_slot old\<rparr>)]\<rparr>"
    using insert_peer_known [OF Some] unfolding split(1) hdel_split [OF split(2, 3)] by (simp only: hput_new)
  with ok split show ?thesis by (auto simp: slots_ok_def)
next
  case None
  show ?thesis
  proof (cases "hget (sn_departed n) (pp_hash p)")
    case (Some slot)
    from ok Some obtain xs ys where split: "sn_departed n = xs @ (pp_hash p, slot) # ys" "pp_hash p \<notin> fst ` set xs"
        "pp_hash p \<notin> fst ` set ys"
      by (metis hget_split slots_ok_keys)
    have "insert_peer p n = n\<lparr>sn_departed := xs @ ys, sn_peers := sn_peers n @ [(pp_hash p, p\<lparr>pp_slot := slot\<rparr>)]\<rparr>"
      using insert_peer_departed [OF None Some] unfolding split(1) hdel_split [OF split(2, 3)] .
    with ok split None show ?thesis
      by (auto simp: slots_ok_def map_of_eq_None_iff)
  next
    case none: None
    obtain slot n' where free: "free_peer_slot n = (slot, n')" by fastforce
    note unheld = free_peer_slot_unheld [OF free]
    define D where "D = filter (\<lambda>(_, s). marks_left s (sn_entries n)) (sn_departed n)"
    have e: "insert_peer p n = n\<lparr>sn_departed := D, sn_peers := sn_peers n @ [(pp_hash p, p\<lparr>pp_slot := slot\<rparr>)]\<rparr>"
      using insert_peer_fresh [OF None none free] unheld(1, 2) unfolding D_def by metis
    have D: "distinct (map snd D)" "distinct (map fst D)" "set D \<subseteq> set (sn_departed n)"
      using ok by (auto simp: slots_ok_def distinct_map_filter D_def)
    have marked: "s \<in> snd ` set D" if "marks_left s (sn_entries n)" "s \<in> snd ` set (sn_departed n)" for s
      using that by (force simp: D_def)
    have "slot \<notin> set (peer_slots n)" "slot \<notin> snd ` set D" using unheld(1, 3) by (auto simp: D_def)
    moreover have "fst ` set D \<subseteq> fst ` set (sn_departed n)" "snd ` set D \<subseteq> snd ` set (sn_departed n)" using D(3) by auto
    moreover have "pp_hash p \<notin> fst ` set (sn_peers n)" "pp_hash p \<notin> fst ` set (sn_departed n)"
      using None none by (simp_all add: map_of_eq_None_iff)
    ultimately have
      keys: "distinct ((map fst (sn_peers n) @ [pp_hash p]) @ map fst D)" and
      slot_list: "distinct ((peer_slots n @ [slot]) @ map snd D)"
      using distinct_app_mono [of "map fst (sn_peers n)" "map fst (sn_departed n)" "pp_hash p" "map fst D"]
        distinct_app_mono [of "peer_slots n" "map snd (sn_departed n)" slot "map snd D"] ok D(1, 2)
      unfolding slots_ok_def list.set_map by blast+
    have "s \<in> set (peer_slots n @ [slot]) \<union> snd ` set D" if "marks_left s (sn_entries n)" for s
      using ok marked [OF that] that unfolding slots_ok_def set_append by blast
    moreover have "\<forall>x \<in> set (sn_peers n @ [(pp_hash p, p\<lparr>pp_slot := slot\<rparr>)]). pp_hash (snd x) = fst x"
      using ok by (simp add: slots_ok_def)
    ultimately show ?thesis
      using keys slot_list unfolding e slots_ok_def by simp
  qed
qed

lemma unpeer_slots:
  assumes ok: "slots_ok n"
  shows "slots_ok (snd (unpeer h n))"
proof (cases "hget (sn_peers n) h")
  case (Some p)
  from ok Some obtain xs ys where split: "sn_peers n = xs @ (h, p) # ys" "h \<notin> fst ` set xs" "h \<notin> fst ` set ys"
    by (metis hget_split slots_ok_keys)
  have gone: "hdel h (sn_peers n) = xs @ ys" by (simp add: split hdel_split)
  have hash: "pp_hash p = h" using ok split(1) by (auto simp: slots_ok_def)
  have e: "snd (unpeer h n) = (if marks_left (pp_slot p) (sn_entries n)
      then n\<lparr>sn_peers := xs @ ys, sn_departed := hput h (pp_slot p) (sn_departed n)\<rparr> else n\<lparr>sn_peers := xs @ ys\<rparr>)"
    unfolding unpeer_def Some by (simp add: Let_def gone hash)
  have "hget (sn_departed n) h = None" using ok split(1) by (auto simp: slots_ok_def map_of_eq_None_iff)
  then have put: "hput h (pp_slot p) (sn_departed n) = sn_departed n @ [(h, pp_slot p)]" by (rule hput_new)
  from ok split show ?thesis
    unfolding e put by (auto simp: slots_ok_def)
qed (use ok in \<open>simp add: unpeer_def\<close>)

lemma slot_run_ok: "slot_run n n' \<Longrightarrow> slots_ok n \<Longrightarrow> slots_ok n'"
proof (induction rule: slot_run.induct)
  case (slot_step n n' op)
  then have "slots_ok n'" by simp
  with slot_step.hyps(2) show ?case
    by (cases op) (auto simp: insert_peer_slots unpeer_slots, auto simp: slots_ok_def)
qed

text \<open>
  C37: however peers come, go and come back, and whatever is marked meanwhile, no two peers and no
  departed peer share a slot, and the marks left in the messages all belong to a peer or to a
  departed one; so a peer that comes anew gets a slot without marks, and one that comes back
  while it has marks gets its own slot.
\<close>

theorem peer_slots_never_shared:
  assumes "slot_run n n'" and "slots_ok n"
  shows "distinct (map (\<lambda>(_, p). pp_slot p) (sn_peers n') @ map snd (sn_departed n')) \<and>
    (hget (sn_peers n') (pp_hash p) = None \<longrightarrow>
      (case hget (sn_departed n') (pp_hash p) of
        Some slot \<Rightarrow> map_option pp_slot (hget (sn_peers (insert_peer p n')) (pp_hash p)) = Some slot
      | None \<Rightarrow> \<exists>q. hget (sn_peers (insert_peer p n')) (pp_hash p) = Some q \<and> \<not> marks_left (pp_slot q) (sn_entries n')))"
proof -
  have ok: "slots_ok n'" by (rule slot_run_ok [OF assms])
  have "\<not> marks_left slot (sn_entries n')" if "free_peer_slot n' = (slot, n'')" for slot n''
  proof
    assume "marks_left slot (sn_entries n')"
    moreover from this ok have "slot \<in> set (peer_slots n') \<union> snd ` set (sn_departed n')" by (simp add: slots_ok_def)
    ultimately have "slot \<in> set (peer_slots n') \<union> snd ` set (sn_departed n'')"
      unfolding free_peer_slot_unheld(1) [OF that] by force
    with free_peer_slot_unheld(3) [OF that] show False by simp
  qed
  then have "case hget (sn_departed n') (pp_hash p) of
        Some slot \<Rightarrow> map_option pp_slot (hget (sn_peers (insert_peer p n')) (pp_hash p)) = Some slot
      | None \<Rightarrow> \<exists>q. hget (sn_peers (insert_peer p n')) (pp_hash p) = Some q \<and> \<not> marks_left (pp_slot q) (sn_entries n')"
    if new: "hget (sn_peers n') (pp_hash p) = None"
  proof (cases "hget (sn_departed n') (pp_hash p)")
    case None
    obtain slot n'' where free: "free_peer_slot n' = (slot, n'')" by fastforce
    with \<open>\<And>slot n''. free_peer_slot n' = (slot, n'') \<Longrightarrow> \<not> marks_left slot (sn_entries n')\<close> None new show ?thesis
      by (simp add: insert_peer_fresh [OF new None free] map_add_def)
  next
    case (Some slot)
    with new show ?thesis by (simp add: insert_peer_departed [OF new Some] map_add_def)
  qed
  with ok show ?thesis by (simp add: slots_ok_def slots_in_def)
qed

definition no_peers :: sync_node where
  "no_peers = (demo_node demo_peer [])\<lparr>sn_peers := [], sn_entries := no_entries\<rparr>"

lemma peer_slots_never_shared_witness:
  "\<exists>q. hget (sn_peers (insert_peer (new_prop_peer [2]) (insert_peer demo_peer no_peers))) [2] = Some q \<and>
     \<not> marks_left (pp_slot q) (sn_entries (insert_peer demo_peer no_peers))"
proof -
  have run: "slot_run no_peers (insert_peer demo_peer no_peers)"
    using slot_step [OF slot_start [of no_peers], of "Add demo_peer"] by simp
  have ok: "slots_ok no_peers"
    by (simp add: slots_ok_def no_peers_def demo_node_def marks_left_def handled_message_count_def unhandled_message_count_def
        no_entries_def nth_opt_def)
  have "hget (sn_peers (insert_peer demo_peer no_peers)) [2] = None" "hget (sn_departed (insert_peer demo_peer no_peers)) [2] = None"
    by code_simp+
  with peer_slots_never_shared [OF run ok, of "new_prop_peer [2]"] show ?thesis by (simp add: new_prop_peer_def)
qed

end
