(* ===== verification/Msgpack.thy ===== *)
theory Msgpack
  imports RFed_Prelude
begin

text \<open>
  Decoded msgpack values as the request handlers see them (\<open>rmpv::Value\<close>), and the UTF-8 strings of
  the Rust library. A \<open>string\<close> is a list of bytes, one \<^typ>\<open>char\<close> each. The codec itself is
  \<open>rmpv\<close>'s: the handlers take \<open>read_value\<close> as an argument.
\<close>

datatype msg_value = MNil | MBool bool | MInt int | MFloat real | MStr string | MBin bytes | MArr "msg_value list" | MOther

text \<open>\<open>as_f64\<close> reads integers and floats.\<close>

fun as_f64 :: "msg_value \<Rightarrow> real option" where
  "as_f64 (MInt i) = Some (of_int i)"
| "as_f64 (MFloat r) = Some r"
| "as_f64 _ = None"

definition bytes_of :: "string \<Rightarrow> bytes" where
  "bytes_of s = map of_char s"

definition text_of :: "bytes \<Rightarrow> string" where
  "text_of bs = map (\<lambda>b. char_of (unat b)) bs"

lemma text_of_bytes_of [simp]: "text_of (bytes_of s) = s"
proof -
  have "char_of (unat (of_char c :: u8)) = c" for c :: char
  proof -
    have "unat (of_char c :: u8) = of_char c" by (simp add: of_char_def unat_of_nat)
    then show ?thesis by simp
  qed
  then show ?thesis by (simp add: text_of_def bytes_of_def comp_def map_idI)
qed

section \<open>UTF-8\<close>

definition in_range :: "nat \<Rightarrow> nat \<Rightarrow> u8 \<Rightarrow> bool" where
  "in_range lo hi b \<longleftrightarrow> lo \<le> unat b \<and> unat b \<le> hi"

definition continues :: "u8 \<Rightarrow> bool" where
  "continues b = in_range 128 191 b"

text \<open>What \<open>str::from_utf8\<close> accepts: no overlong form, no surrogate, nothing above U+10FFFF.\<close>

fun utf8_ok :: "bytes \<Rightarrow> bool" where
  "utf8_ok [] = True"
| "utf8_ok (b # bs) =
     (if unat b < 128 then utf8_ok bs
      else if in_range 194 223 b then (case bs of c # cs \<Rightarrow> continues c \<and> utf8_ok cs | _ \<Rightarrow> False)
      else if in_range 224 239 b then (case bs of
          c # d # cs \<Rightarrow> (if unat b = 224 then in_range 160 191 c else if unat b = 237 then in_range 128 159 c else continues c) \<and>
            continues d \<and> utf8_ok cs
        | _ \<Rightarrow> False)
      else if in_range 240 244 b then (case bs of
          c # d # e # cs \<Rightarrow> (if unat b = 240 then in_range 144 191 c else if unat b = 244 then in_range 128 143 c else continues c) \<and>
            continues d \<and> continues e \<and> utf8_ok cs
        | _ \<Rightarrow> False)
      else False)"

text \<open>\<open>into_str().unwrap_or_default()\<close> and \<open>String::from_utf8(\<dots>).unwrap_or_default()\<close>.\<close>

definition str_or_default :: "string \<Rightarrow> string" where
  "str_or_default s = (if utf8_ok (bytes_of s) then s else [])"

definition from_utf8_or_default :: "bytes \<Rightarrow> string" where
  "from_utf8_or_default bs = (if utf8_ok bs then text_of bs else [])"

lemma ascii_utf8: "\<forall>b \<in> set bs. unat b < 128 \<Longrightarrow> utf8_ok bs"
  by (induction bs) auto

end
