(* ===== verification/MessageStore.thy ===== *)
theory MessageStore
  imports PeerSessions LocallyProcessed DistroFanout Msgpack
begin

text \<open>
  The message store of \<open>rfed/src/lxmf_propagation.rs\<close>: the files of the messagestore by name,
  the entries and the processed ids; storing, expiring and serving messages, and reading the
  store back at the start.

  \<open>hexrep\<close> and \<open>decode_hex\<close> are \<open>reticulum_rust\<close>'s, \<open>show_secs\<close> and \<open>parse_secs\<close> the formatting
  and parsing of an \<open>f64\<close>, \<open>sha\<close> is \<open>full_hash\<close>,
  \<open>stamp_size\<close> is \<open>lx_stamper::STAMP_SIZE\<close>, \<open>t\<close> the clock reading of the operation, \<open>rm\<close>
  whether the removal of a file succeeds.
\<close>

section \<open>State\<close>

record prop_node =
  pn_sync :: sync_node
  pn_files :: "(string, bytes) hmap"
  pn_processed :: locally_processed
  pn_received :: nat
  pn_served :: nat
  pn_limit :: nat

abbreviation pn_entries :: "prop_node \<Rightarrow> propagation_entries" where
  "pn_entries n \<equiv> sn_entries (pn_sync n)"

definition set_entries :: "propagation_entries \<Rightarrow> prop_node \<Rightarrow> prop_node" where
  "set_entries E n = n\<lparr>pn_sync := (pn_sync n)\<lparr>sn_entries := E\<rparr>\<rparr>"

section \<open>File names\<close>

definition message_file_name :: "(bytes \<Rightarrow> string) \<Rightarrow> (secs \<Rightarrow> string) \<Rightarrow> bytes \<Rightarrow> secs \<Rightarrow> 32 word \<Rightarrow> string" where
  "message_file_name hexrep show_secs tid received stamp =
     hexrep tid @ ''_'' @ show_secs received @ ''_'' @ decimal (unat stamp)"

definition file_name :: "(bytes \<Rightarrow> string) \<Rightarrow> (secs \<Rightarrow> string) \<Rightarrow> bytes \<Rightarrow> propagation_entry \<Rightarrow> string" where
  "file_name hexrep show_secs tid e = (case pe_other_name e of
      Some name \<Rightarrow> name
    | None \<Rightarrow> message_file_name hexrep show_secs tid (pe_received e) (pe_stamp e))"

text \<open>\<open>split('_')\<close>.\<close>

fun split_on :: "'a \<Rightarrow> 'a list \<Rightarrow> 'a list list" where
  "split_on c [] = [[]]"
| "split_on c (x # xs) = (if x = c then [] # split_on c xs
     else (case split_on c xs of [] \<Rightarrow> [[x]] | p # ps \<Rightarrow> (x # p) # ps))"

text \<open>\<open>parse::<u32>()\<close>: an optional \<open>+\<close>, then digits, below \<open>2 ^ 32\<close>.\<close>

definition digit_value :: "char \<Rightarrow> nat option" where
  "digit_value c = (if 48 \<le> (of_char c :: nat) \<and> (of_char c :: nat) \<le> 57 then Some (of_char c - 48) else None)"

fun parse_digits :: "nat \<Rightarrow> string \<Rightarrow> nat option" where
  "parse_digits acc [] = Some acc"
| "parse_digits acc (c # cs) = (case digit_value c of
      None \<Rightarrow> None
    | Some d \<Rightarrow> if acc * 10 + d < 2 ^ 32 then parse_digits (acc * 10 + d) cs else None)"

definition parse_u32 :: "string \<Rightarrow> 32 word option" where
  "parse_u32 s = (let ds = (case s of [] \<Rightarrow> [] | c # cs \<Rightarrow> if c = CHR ''+'' then cs else s)
     in if ds = [] then None else map_option of_nat (parse_digits 0 ds))"

section \<open>Reading the store at the start\<close>

text \<open>One file: its name and its contents, \<open>None\<close> when it cannot be opened.\<close>

definition index_message :: "(bytes \<Rightarrow> string) \<Rightarrow> (string \<Rightarrow> bytes option) \<Rightarrow> (secs \<Rightarrow> string) \<Rightarrow> (string \<Rightarrow> secs option) \<Rightarrow>
    string \<Rightarrow> bytes option \<Rightarrow> (bytes \<times> propagation_entry) option" where
  "index_message hexrep decode_hex show_secs parse_secs name contents =
     (case split_on (CHR ''_'') name of
        c0 # c1 # c2 # _ \<Rightarrow>
          if length c0 \<noteq> 64 then None
          else (case parse_secs c1 of
              None \<Rightarrow> None
            | Some received \<Rightarrow>
                if received \<le> 0 then None
                else (case parse_u32 c2 of
                    None \<Rightarrow> None
                  | Some stamp \<Rightarrow> (case decode_hex c0 of
                      None \<Rightarrow> None
                    | Some tid \<Rightarrow>
                        if length tid \<noteq> 32 then None
                        else (case contents of
                            None \<Rightarrow> None
                          | Some d \<Rightarrow>
                              if length d < 16 then None
                              else Some (tid, (new_entry (take 16 d) received (length d) stamp)
                                \<lparr>pe_other_name := (if name = message_file_name hexrep show_secs tid received stamp then None else Some name)\<rparr>)))))
      | _ \<Rightarrow> None)"

definition index_one :: "(string \<Rightarrow> bytes option \<Rightarrow> (bytes \<times> propagation_entry) option) \<Rightarrow> string \<times> bytes option \<Rightarrow>
    propagation_entries \<Rightarrow> propagation_entries" where
  "index_one index file E = (case index (fst file) (snd file) of
      None \<Rightarrow> E | Some (tid, e) \<Rightarrow> snd (the (insert_entry tid e E)))"

text \<open>\<open>dir\<close> is what \<open>read_dir\<close> lists, \<open>None\<close> when it fails.\<close>

definition index_messagestore :: "(bytes \<Rightarrow> string) \<Rightarrow> (string \<Rightarrow> bytes option) \<Rightarrow> (secs \<Rightarrow> string) \<Rightarrow> (string \<Rightarrow> secs option) \<Rightarrow>
    (string \<times> bytes option) list option \<Rightarrow> propagation_entries" where
  "index_messagestore hexrep decode_hex show_secs parse_secs dir = (case dir of
      None \<Rightarrow> no_entries
    | Some files \<Rightarrow> sort_by_received (fold (index_one (index_message hexrep decode_hex show_secs parse_secs)) files no_entries))"

text \<open>\<open>load_locally_processed\<close>: \<open>file\<close> is what \<open>read_from\<close> gave, \<open>None\<close> without a file or when it cannot be read.\<close>

definition record_stored :: "bytes \<times> propagation_entry \<Rightarrow> locally_processed \<Rightarrow> locally_processed" where
  "record_stored x L = (case x of (tid, e) \<Rightarrow>
     if contains_received_at tid (whole_seconds (pe_received e)) L then L else record_processed tid (pe_received e) L)"

definition load_locally_processed :: "secs \<Rightarrow> locally_processed option \<Rightarrow> propagation_entries \<Rightarrow> nat \<times> locally_processed" where
  "load_locally_processed t file E =
     clean t (fold record_stored (stored E) (case file of None \<Rightarrow> none_processed | Some L \<Rightarrow> L))"

section \<open>Storing\<close>

text \<open>What became of the write: a failed one may leave a file behind.\<close>

datatype message_write = MessageWritten | MessageNotWritten "bytes option"

definition queue_for :: "bytes option \<Rightarrow> bytes \<Rightarrow> bytes \<times> prop_peer \<Rightarrow> propagation_entries \<Rightarrow> propagation_entries" where
  "queue_for from_peer tid x E = (case x of (h, p) \<Rightarrow>
     if from_peer = Some h then E else snd (the (queue_unhandled (pp_slot p) tid E)))"

definition store_message :: "(bytes \<Rightarrow> string) \<Rightarrow> (secs \<Rightarrow> string) \<Rightarrow> (bytes \<Rightarrow> bytes) \<Rightarrow> message_write \<Rightarrow> secs \<Rightarrow> bytes \<Rightarrow> 32 word \<Rightarrow>
    bytes option \<Rightarrow> bytes option \<Rightarrow> prop_node \<Rightarrow> bytes option \<times> prop_node" where
  "store_message hexrep show_secs sha w t d stamp stamp_data from_peer n =
     (if length d < 16 then (None, n)
      else (let tid = sha d in
        if length tid \<noteq> 32 then (None, n)
        else if contains_key tid (pn_entries n) \<or> processed_contains tid (pn_processed n) then (None, n)
        else (let file_data = d @ (case stamp_data of None \<Rightarrow> [] | Some s \<Rightarrow> s);
                  name = message_file_name hexrep show_secs tid t stamp
              in case w of
                   MessageNotWritten left \<Rightarrow>
                     (None, case left of None \<Rightarrow> n | Some part \<Rightarrow> n\<lparr>pn_files := hput name part (pn_files n)\<rparr>)
                 | MessageWritten \<Rightarrow>
                     (let s = pn_sync n;
                          E = snd (the (insert_entry tid (new_entry (take 16 d) t (length file_data) stamp) (sn_entries s)));
                          E' = fold (queue_for from_peer tid) (sn_peers s) E
                      in (Some tid, n\<lparr>pn_files := hput name file_data (pn_files n),
                           pn_processed := record_processed tid t (pn_processed n),
                           pn_sync := s\<lparr>sn_entries := E', sn_fresh := sn_fresh s @ [tid]\<rparr>,
                           pn_received := pn_received n + 1\<rparr>)))))"

section \<open>Removing\<close>

text \<open>An entry and its file, as every removal takes them.\<close>

definition drop_message :: "(bytes \<Rightarrow> string) \<Rightarrow> (secs \<Rightarrow> string) \<Rightarrow> (string \<Rightarrow> bool) \<Rightarrow> bytes \<Rightarrow> prop_node \<Rightarrow> propagation_entry option \<times> prop_node" where
  "drop_message hexrep show_secs rm tid n = (case the (remove_entry tid (pn_entries n)) of
      (None, E) \<Rightarrow> (None, set_entries E n)
    | (Some e, E) \<Rightarrow> (let name = file_name hexrep show_secs tid e; n' = set_entries E n
        in (Some e, if rm name then n'\<lparr>pn_files := hdel name (pn_files n')\<rparr> else n')))"

definition MESSAGE_EXPIRY_SECS :: secs where
  "MESSAGE_EXPIRY_SECS = 7 * 24 * 3600"

definition evict_expired_messages :: "(bytes \<Rightarrow> string) \<Rightarrow> (secs \<Rightarrow> string) \<Rightarrow> (string \<Rightarrow> bool) \<Rightarrow> secs \<Rightarrow> prop_node \<Rightarrow> prop_node" where
  "evict_expired_messages hexrep show_secs rm t n =
     (let expired = map fst (filter (\<lambda>(_, e). pe_received e < t - MESSAGE_EXPIRY_SECS) (stored (pn_entries n)))
      in fold (\<lambda>tid n. snd (drop_message hexrep show_secs rm tid n)) expired n)"

fun limit_loop :: "(bytes \<Rightarrow> string) \<Rightarrow> (secs \<Rightarrow> string) \<Rightarrow> (string \<Rightarrow> bool) \<Rightarrow> nat \<Rightarrow> (bytes \<times> secs) list \<Rightarrow> nat \<Rightarrow> prop_node \<Rightarrow> prop_node" where
  "limit_loop hexrep show_secs rm limit [] current n = n"
| "limit_loop hexrep show_secs rm limit ((tid, _) # rest) current n =
     (if current \<le> limit then n
      else (case drop_message hexrep show_secs rm tid n of
          (None, n') \<Rightarrow> limit_loop hexrep show_secs rm limit rest current n'
        | (Some e, n') \<Rightarrow> limit_loop hexrep show_secs rm limit rest (current - pe_size e) n'))"

definition total_size :: "propagation_entries \<Rightarrow> nat" where
  "total_size E = sum_list (map (\<lambda>(_, e). pe_size e) (stored E))"

definition enforce_storage_limit :: "(bytes \<Rightarrow> string) \<Rightarrow> (secs \<Rightarrow> string) \<Rightarrow> (string \<Rightarrow> bool) \<Rightarrow> prop_node \<Rightarrow> prop_node" where
  "enforce_storage_limit hexrep show_secs rm n =
     (if total_size (pn_entries n) \<le> pn_limit n then n
      else limit_loop hexrep show_secs rm (pn_limit n)
        (sort_key snd (map (\<lambda>(tid, e). (tid, pe_received e)) (stored (pn_entries n)))) (total_size (pn_entries n)) n)"

section \<open>Serving a client: \<open>/get\<close>\<close>

datatype get_answer = GetError nat | GetIds "bytes list" | GetMessages "bytes list"

definition ERROR_INVALID_DATA :: nat where "ERROR_INVALID_DATA = 244"

definition available_ids :: "bytes \<Rightarrow> propagation_entries \<Rightarrow> bytes list" where
  "available_ids dest E = map fst (sort_key snd
     (map (\<lambda>(tid, e). (tid, pe_size e)) (filter (\<lambda>(_, e). pe_destination e = dest) (stored E))))"

definition delete_have :: "(bytes \<Rightarrow> string) \<Rightarrow> (secs \<Rightarrow> string) \<Rightarrow> (string \<Rightarrow> bool) \<Rightarrow> bytes \<Rightarrow> msg_value \<Rightarrow> prop_node \<Rightarrow> prop_node" where
  "delete_have hexrep show_secs rm dest v n = (case v of
      MBin tid \<Rightarrow> (case the (get_entry tid (pn_entries n)) of
          None \<Rightarrow> n
        | Some e \<Rightarrow> if pe_destination e = dest then snd (drop_message hexrep show_secs rm tid n) else n)
    | _ \<Rightarrow> n)"

text \<open>The messages to return and the size they come to; \<open>readable\<close> is whether a file can be read.\<close>

fun serve_wants :: "nat \<Rightarrow> (bytes \<Rightarrow> string) \<Rightarrow> (secs \<Rightarrow> string) \<Rightarrow> (string \<Rightarrow> bool) \<Rightarrow> bytes \<Rightarrow> real option \<Rightarrow> prop_node \<Rightarrow>
    msg_value list \<Rightarrow> real \<Rightarrow> bytes list" where
  "serve_wants stamp_size hexrep show_secs readable dest limit n [] cumulative = []"
| "serve_wants stamp_size hexrep show_secs readable dest limit n (v # vs) cumulative = (case v of
      MBin tid \<Rightarrow> (case the (get_entry tid (pn_entries n)) of
          None \<Rightarrow> serve_wants stamp_size hexrep show_secs readable dest limit n vs cumulative
        | Some e \<Rightarrow>
            (let name = file_name hexrep show_secs tid e in
             if pe_destination e \<noteq> dest \<or> \<not> readable name then serve_wants stamp_size hexrep show_secs readable dest limit n vs cumulative
             else (case hget (pn_files n) name of
                 None \<Rightarrow> serve_wants stamp_size hexrep show_secs readable dest limit n vs cumulative
               | Some d \<Rightarrow>
                   (let next_size = cumulative + real (length d) + 16
                    in if (case limit of None \<Rightarrow> True | Some l \<Rightarrow> next_size \<le> l)
                       then take (length d - stamp_size) d # serve_wants stamp_size hexrep show_secs readable dest limit n vs next_size
                       else serve_wants stamp_size hexrep show_secs readable dest limit n vs cumulative))))
    | _ \<Rightarrow> serve_wants stamp_size hexrep show_secs readable dest limit n vs cumulative)"

definition value_at :: "nat \<Rightarrow> msg_value list \<Rightarrow> msg_value" where
  "value_at i request = (if i < length request then request ! i else MNil)"

text \<open>
  \<open>dest\<close> is the \<open>lxmf.delivery\<close> hash of the identity the client proved: \<open>None\<close> when it proved
  none, \<open>Some None\<close> when no destination can be made of it. \<open>request\<close> is \<open>None\<close> when the data is
  not an array.
\<close>

definition handle_get :: "nat \<Rightarrow> (bytes \<Rightarrow> string) \<Rightarrow> (secs \<Rightarrow> string) \<Rightarrow> (string \<Rightarrow> bool) \<Rightarrow> (string \<Rightarrow> bool) \<Rightarrow> bytes option option \<Rightarrow>
    msg_value list option \<Rightarrow> prop_node \<Rightarrow> get_answer \<times> prop_node" where
  "handle_get stamp_size hexrep show_secs rm readable dest request n =
     (case dest of
        None \<Rightarrow> (GetError ERROR_NO_IDENTITY, n)
      | Some None \<Rightarrow> (GetError ERROR_INVALID_DATA, n)
      | Some (Some d) \<Rightarrow> (case request of
          None \<Rightarrow> (GetError ERROR_INVALID_DATA, n)
        | Some items \<Rightarrow>
            (let wants = value_at 0 items; haves = value_at 1 items;
                 limit = map_option (\<lambda>v. v * 1000) (if 2 < length items then as_f64 (items ! 2) else None)
             in if wants = MNil \<and> haves = MNil then (GetIds (available_ids d (pn_entries n)), n)
                else (let n1 = (case haves of MArr hs \<Rightarrow> fold (delete_have hexrep show_secs rm d) hs n | _ \<Rightarrow> n);
                          messages = (case wants of MArr ws \<Rightarrow> serve_wants stamp_size hexrep show_secs readable d limit n1 ws 24 | _ \<Rightarrow> [])
                      in (GetMessages messages, n1\<lparr>pn_served := pn_served n1 + length messages\<rparr>)))))"

end
