(* ===== verification/MessageStore_Props.thy ===== *)
theory MessageStore_Props
  imports MessageStore PropEntries_Props LocallyProcessed_Props BlobStore
begin

text \<open>
  The message store: the files and the entries agree after any run of stores, expiries and
  client deletions, so a restart reads back what was stored; the storage limit holds and the
  oldest messages go first; a client is served its own messages within its limit.
\<close>

section \<open>Names\<close>

text \<open>
  What the names rely on: hexadecimal text of 32 bytes is 64 characters without an underscore and
  decodes to the bytes, and an \<open>f64\<close> of \<open>T\<close> prints without an underscore and parses back.
\<close>

definition naming_ok :: "(bytes \<Rightarrow> string) \<Rightarrow> (string \<Rightarrow> bytes option) \<Rightarrow> (secs \<Rightarrow> string) \<Rightarrow> (string \<Rightarrow> secs option) \<Rightarrow> secs set \<Rightarrow> bool" where
  "naming_ok hexrep decode_hex show_secs parse_secs T \<longleftrightarrow>
     (\<forall>tid. length tid = 32 \<longrightarrow> length (hexrep tid) = 64 \<and> CHR ''_'' \<notin> set (hexrep tid) \<and> decode_hex (hexrep tid) = Some tid) \<and>
     (\<forall>t \<in> T. CHR ''_'' \<notin> set (show_secs t) \<and> parse_secs (show_secs t) = Some t)"

lemma split_on_none: "c \<notin> set xs \<Longrightarrow> split_on c xs = [xs]"
  by (induction xs) auto

lemma split_on_next: "c \<notin> set xs \<Longrightarrow> split_on c (xs @ c # ys) = xs # split_on c ys"
  by (induction xs) auto

lemma decimal_digit: "n < 10 \<Longrightarrow> digit_value (''0123456789'' ! n) = Some n \<and> ''0123456789'' ! n \<noteq> CHR ''_'' \<and> ''0123456789'' ! n \<noteq> CHR ''+''"
  by (auto simp: numeral_eq_Suc less_Suc_eq digit_value_def)

lemma decimal_chars: "c \<in> set (decimal n) \<Longrightarrow> c \<noteq> CHR ''_'' \<and> c \<noteq> CHR ''+''"
proof (induction n rule: decimal.induct)
  case (1 n)
  then show ?case
    using decimal_digit [of n] decimal_digit [of "n mod 10"] decimal.simps [of n] by (cases "n < 10") auto
qed

lemma decimal_not_Nil [simp]: "decimal n \<noteq> []"
  by (subst decimal.simps) simp

lemma parse_digits_append:
  "parse_digits acc (xs @ ys) = (case parse_digits acc xs of None \<Rightarrow> None | Some a \<Rightarrow> parse_digits a ys)"
  by (induction xs arbitrary: acc) (auto split: option.split)

lemma parse_digits_decimal: "n < 2 ^ 32 \<Longrightarrow> parse_digits 0 (decimal n) = Some n"
proof (induction n rule: decimal.induct)
  case (1 n)
  show ?case
  proof (cases "n < 10")
    case True
    with decimal_digit [of n] show ?thesis by (subst decimal.simps) simp
  next
    case False
    then have "parse_digits 0 (decimal (n div 10)) = Some (n div 10)" using 1 by simp
    moreover have "n div 10 * 10 + n mod 10 = n" by simp
    ultimately show ?thesis
      using False 1(2) decimal_digit [of "n mod 10"] by (subst decimal.simps) (simp add: parse_digits_append)
  qed
qed

lemma parse_u32_decimal: "parse_u32 (decimal (unat w)) = Some w"
proof -
  have "unat w < 2 ^ 32" using unsigned_less [of w] by simp
  moreover have "hd (decimal (unat w)) \<noteq> CHR ''+''" using decimal_chars [OF hd_in_set [OF decimal_not_Nil]] by blast
  ultimately show ?thesis
    by (cases "decimal (unat w)") (use parse_digits_decimal [of "unat w"] in \<open>auto simp: parse_u32_def\<close>)
qed

lemma index_message_named:
  assumes "naming_ok hexrep decode_hex show_secs parse_secs T" and "length tid = 32" and "t \<in> T" and "0 < t" and "16 \<le> length d"
  shows "index_message hexrep decode_hex show_secs parse_secs (message_file_name hexrep show_secs tid t stamp) (Some d) =
    Some (tid, new_entry (take 16 d) t (length d) stamp)"
proof -
  have "CHR ''_'' \<notin> set (decimal (unat stamp))" using decimal_chars by blast
  with assms show ?thesis
    by (simp add: index_message_def message_file_name_def split_on_next split_on_none naming_ok_def parse_u32_decimal new_entry_def)
qed


text \<open>An entry as a restart reads it back: without the peers it is handled and unhandled for.\<close>

definition unmarked :: "propagation_entry \<Rightarrow> propagation_entry" where
  "unmarked e = e\<lparr>pe_handled := empty_slots, pe_unhandled := empty_slots\<rparr>"

lemma unmarked_simps [simp]:
  "pe_received (unmarked e) = pe_received e" "pe_size (unmarked e) = pe_size e" "pe_destination (unmarked e) = pe_destination e"
  "unmarked (unmarked e) = unmarked e" "unmarked (set_peers h s e) = unmarked e"
  "unmarked (new_entry dest received k stamp) = new_entry dest received k stamp"
  by (simp_all add: unmarked_def set_peers_def new_entry_def)

lemma unmarked_marked [simp]: "unmarked (marked slot h on e) = unmarked e"
  by (simp add: marked_def)

lemma unmarked_forgotten [simp]: "unmarked (forgotten slot e) = unmarked e"
  by (simp add: unmarked_def forgotten_def)

lemma file_name_unmarked [simp]: "file_name hexrep show_secs tid (unmarked e) = file_name hexrep show_secs tid e"
  by (cases "pe_other_name e") (simp_all add: file_name_def unmarked_def)

definition unmark :: "(bytes \<times> propagation_entry) list \<Rightarrow> (bytes \<times> propagation_entry) list" where
  "unmark xs = map (\<lambda>(tid, e). (tid, unmarked e)) xs"

lemma unmark_upd: "(\<And>e. unmarked (f e) = unmarked e) \<Longrightarrow> unmark (upd tid f xs) = unmark xs"
  by (simp add: upd_def unmark_def case_prod_unfold)

section \<open>Files and entries\<close>

definition files_match :: "(bytes \<Rightarrow> string) \<Rightarrow> (secs \<Rightarrow> string) \<Rightarrow> (string \<Rightarrow> bytes option \<Rightarrow> (bytes \<times> propagation_entry) option) \<Rightarrow>
    (string, bytes) hmap \<Rightarrow> (bytes \<times> propagation_entry) list \<Rightarrow> bool" where
  "files_match hexrep show_secs index files xs \<longleftrightarrow> hkeys_distinct files \<and>
     (\<forall>(tid, e) \<in> set xs. \<exists>d. hget files (file_name hexrep show_secs tid e) = Some d \<and>
        index (file_name hexrep show_secs tid e) (Some d) = Some (tid, unmarked e)) \<and>
     (\<forall>(name, d) \<in> set files. \<exists>(tid, e) \<in> set xs. name = file_name hexrep show_secs tid e)"

lemma files_matchI:
  assumes "hkeys_distinct files"
    and "\<And>tid e. (tid, e) \<in> set xs \<Longrightarrow> \<exists>d. hget files (file_name H S tid e) = Some d \<and>
      index (file_name H S tid e) (Some d) = Some (tid, unmarked e)"
    and "\<And>name d. (name, d) \<in> set files \<Longrightarrow> \<exists>(tid, e) \<in> set xs. name = file_name H S tid e"
  shows "files_match H S index files xs"
  using assms unfolding files_match_def by blast

lemma files_match_unmark: "unmark xs = unmark ys \<Longrightarrow> files_match H S index files xs \<longleftrightarrow> files_match H S index files ys"
proof -
  have *: "files_match H S index files xs \<longleftrightarrow> files_match H S index files (unmark xs)" for xs
    by (force simp: files_match_def unmark_def case_prod_unfold)
  assume "unmark xs = unmark ys"
  with * [of xs] * [of ys] show ?thesis by simp
qed

lemma files_match_names:
  assumes "files_match H S index files xs" and "(tid, e) \<in> set xs" and "(tid', e') \<in> set xs"
    and "file_name H S tid e = file_name H S tid' e'"
  shows "tid = tid'"
proof -
  from assms(1,2) obtain d where "hget files (file_name H S tid e) = Some d" "index (file_name H S tid e) (Some d) = Some (tid, unmarked e)"
    unfolding files_match_def by fast
  moreover from assms(1,3) obtain d' where "hget files (file_name H S tid' e') = Some d'"
    "index (file_name H S tid' e') (Some d') = Some (tid', unmarked e')"
    unfolding files_match_def by fast
  ultimately show ?thesis using assms(4) by simp
qed

lemma index_message_id:
  assumes "naming_ok hexrep decode_hex show_secs parse_secs T" and "length tid = 32" and "t \<in> T"
    and "index_message hexrep decode_hex show_secs parse_secs (message_file_name hexrep show_secs tid t stamp) c = Some (tid', e')"
  shows "tid' = tid"
proof -
  have "CHR ''_'' \<notin> set (decimal (unat stamp))" using decimal_chars by blast
  with assms show ?thesis
    by (auto simp: index_message_def message_file_name_def split_on_next split_on_none naming_ok_def split: if_splits option.splits)
qed

lemma files_match_store:
  assumes named: "naming_ok H D S P T" "length tid = 32" "t \<in> T" "0 < t" "16 \<le> length d"
    and old: "files_match H S (index_message H D S P) files xs" "tid \<notin> fst ` set xs"
  shows "files_match H S (index_message H D S P) (hput (message_file_name H S tid t stamp) d files)
    (xs @ [(tid, new_entry (take 16 d) t (length d) stamp)])"
proof -
  let ?name = "message_file_name H S tid t stamp" and ?e = "new_entry (take 16 d) t (length d) stamp"
  have name: "file_name H S tid ?e = ?name" by (simp add: file_name_def new_entry_def)
  have other: "file_name H S tid' e' \<noteq> ?name" if "(tid', e') \<in> set xs" for tid' e'
  proof
    assume "file_name H S tid' e' = ?name"
    with that old(1) have "\<exists>c. index_message H D S P ?name c = Some (tid', unmarked e')" unfolding files_match_def by fastforce
    then have "tid' = tid" using index_message_id [OF named(1-3)] by blast
    with that old(2) show False by force
  qed
  have dist: "hkeys_distinct files" using old(1) by (simp add: files_match_def)
  show ?thesis
  proof (rule files_matchI)
    show "hkeys_distinct (hput ?name d files)" using dist by (rule hm.inv_put)
  next
    fix tid' e' assume "(tid', e') \<in> set (xs @ [(tid, ?e)])"
    then have "tid' = tid \<and> e' = ?e \<or> (tid', e') \<in> set xs" by auto
    then show "\<exists>d'. hget (hput ?name d files) (file_name H S tid' e') = Some d' \<and>
      index_message H D S P (file_name H S tid' e') (Some d') = Some (tid', unmarked e')"
    proof (elim disjE conjE)
      assume "tid' = tid" "e' = ?e"
      with name index_message_named [OF named] show ?thesis by (simp add: hm.get_put)
    next
      assume "(tid', e') \<in> set xs"
      with old(1) other [OF this] show ?thesis unfolding files_match_def by (fastforce simp: hm.get_put)
    qed
  next
    fix name' d' assume "(name', d') \<in> set (hput ?name d files)"
    then have "name' = ?name \<or> (name', d') \<in> set files" using dist by (auto simp: set_hput)
    then show "\<exists>(tid, e)\<in>set (xs @ [(tid, ?e)]). name' = file_name H S tid e"
      using old(1) name unfolding files_match_def by fastforce
  qed
qed

lemma files_match_drop:
  assumes "files_match H S index files xs" and "distinct (map fst xs)" and "map_of xs tid = Some e"
  shows "files_match H S index (hdel (file_name H S tid e) files) (filter (\<lambda>x. fst x \<noteq> tid) xs)"
proof -
  have e: "(tid, e) \<in> set xs" using assms(3) by (rule map_of_SomeD)
  have other: "file_name H S tid' e' \<noteq> file_name H S tid e" if "(tid', e') \<in> set xs" "tid' \<noteq> tid" for tid' e'
    using files_match_names [OF assms(1) that(1) e] that(2) by blast
  have same: "e' = e" if "(tid, e') \<in> set xs" for e'
    using that assms(2,3) by (metis map_of_is_SomeI option.inject)
  show ?thesis
  proof (rule files_matchI)
    show "hkeys_distinct (hdel (file_name H S tid e) files)" using assms(1) unfolding files_match_def by (blast intro: hm.inv_del)
  next
    fix tid' e' assume "(tid', e') \<in> set (filter (\<lambda>x. fst x \<noteq> tid) xs)"
    then have "(tid', e') \<in> set xs" "tid' \<noteq> tid" by auto
    with assms(1) other show "\<exists>d. hget (hdel (file_name H S tid e) files) (file_name H S tid' e') = Some d \<and>
        index (file_name H S tid' e') (Some d) = Some (tid', unmarked e')"
      unfolding files_match_def by (fastforce simp: hm.get_del)
  next
    fix name d assume "(name, d) \<in> set (hdel (file_name H S tid e) files)"
    then have "name \<noteq> file_name H S tid e" "(name, d) \<in> set files" by (auto simp: set_hdel)
    with assms(1) same show "\<exists>(tid, e)\<in>set (filter (\<lambda>x. fst x \<noteq> tid) xs). name = file_name H S tid e"
      unfolding files_match_def by fastforce
  qed
qed

section \<open>The operations\<close>

lemma drop_message_ok:
  assumes "entries_ok (pn_entries n)"
  shows "\<exists>E. entries_ok E \<and> stored E = filter (\<lambda>x. fst x \<noteq> tid) (stored (pn_entries n)) \<and>
    length (pr_rows E) \<le> length (pr_rows (pn_entries n)) \<and>
    drop_message H S rm tid n = (map_of (stored (pn_entries n)) tid, (set_entries E n)\<lparr>pn_files :=
      (case map_of (stored (pn_entries n)) tid of None \<Rightarrow> pn_files n
       | Some e \<Rightarrow> if rm (file_name H S tid e) then hdel (file_name H S tid e) (pn_files n) else pn_files n)\<rparr>)"
proof -
  from remove_entry_ok [OF assms, of tid] obtain E where E: "remove_entry tid (pn_entries n) = Some (map_of (stored (pn_entries n)) tid, E)"
    "entries_ok E" "stored E = filter (\<lambda>x. fst x \<noteq> tid) (stored (pn_entries n))" "length (pr_rows E) \<le> length (pr_rows (pn_entries n))"
    by blast
  show ?thesis
    using E by (intro exI [of _ E]) (auto simp: drop_message_def set_entries_def Let_def split: option.split)
qed

definition messages_ok :: "(bytes \<Rightarrow> string) \<Rightarrow> (secs \<Rightarrow> string) \<Rightarrow> (string \<Rightarrow> bytes option \<Rightarrow> (bytes \<times> propagation_entry) option) \<Rightarrow>
    prop_node \<Rightarrow> bool" where
  "messages_ok H S index n \<longleftrightarrow> entries_ok (pn_entries n) \<and> length (pr_rows (pn_entries n)) \<le> 2 ^ 32 \<and>
     files_match H S index (pn_files n) (stored (pn_entries n))"

lemma set_entries_simps [simp]:
  "pn_entries (set_entries E n) = E" "pn_files (set_entries E n) = pn_files n" "pn_limit (set_entries E n) = pn_limit n"
  "pn_entries (n\<lparr>pn_files := fs\<rparr>) = pn_entries n" "pn_processed (set_entries E n) = pn_processed n"
  by (simp_all add: set_entries_def)

lemma drop_keeps:
  assumes "messages_ok H S index n"
  shows "messages_ok H S index (snd (drop_message H S (\<lambda>_. True) tid n))"
proof -
  from assms have ok: "entries_ok (pn_entries n)" by (simp add: messages_ok_def)
  from drop_message_ok [OF ok, of tid H S "\<lambda>_. True"] obtain E where E: "entries_ok E"
    "stored E = filter (\<lambda>x. fst x \<noteq> tid) (stored (pn_entries n))" "length (pr_rows E) \<le> length (pr_rows (pn_entries n))"
    "drop_message H S (\<lambda>_. True) tid n = (map_of (stored (pn_entries n)) tid, (set_entries E n)\<lparr>pn_files :=
      (case map_of (stored (pn_entries n)) tid of None \<Rightarrow> pn_files n
       | Some e \<Rightarrow> hdel (file_name H S tid e) (pn_files n))\<rparr>)" unfolding if_True by blast
  show ?thesis
  proof (cases "map_of (stored (pn_entries n)) tid")
    case None
    then have "filter (\<lambda>x. fst x \<noteq> tid) (stored (pn_entries n)) = stored (pn_entries n)" by (auto simp: map_of_eq_None_iff intro!: filter_True)
    with None E assms show ?thesis by (simp add: messages_ok_def)
  next
    case (Some e)
    with E assms files_match_drop [OF _ stored_distinct [OF ok] Some, of H S index "pn_files n"] show ?thesis
      by (simp add: messages_ok_def)
  qed
qed

lemma evict_keeps: "messages_ok H S index n \<Longrightarrow> messages_ok H S index (evict_expired_messages H S (\<lambda>_. True) t n)"
proof -
  have "messages_ok H S index (fold (\<lambda>tid n. snd (drop_message H S (\<lambda>_. True) tid n)) ids n)" if "messages_ok H S index n" for ids n
    using that by (induction ids arbitrary: n) (simp_all add: drop_keeps)
  then show "messages_ok H S index n \<Longrightarrow> messages_ok H S index (evict_expired_messages H S (\<lambda>_. True) t n)"
    by (simp add: evict_expired_messages_def)
qed

lemma limit_keeps: "messages_ok H S index n \<Longrightarrow> messages_ok H S index (enforce_storage_limit H S (\<lambda>_. True) n)"
proof -
  have "messages_ok H S index (limit_loop H S (\<lambda>_. True) limit order current n)" if "messages_ok H S index n" for limit order current n
    using that
  proof (induction order arbitrary: current n)
    case (Cons x order)
    obtain tid r where x: "x = (tid, r)" by fastforce
    obtain e n' where d: "drop_message H S (\<lambda>_. True) tid n = (e, n')" by fastforce
    have "messages_ok H S index n'" using drop_keeps [OF Cons.prems, of tid] d by simp
    with d Cons x show ?case by (cases e) simp_all
  qed simp
  then show "messages_ok H S index n \<Longrightarrow> messages_ok H S index (enforce_storage_limit H S (\<lambda>_. True) n)"
    by (simp add: enforce_storage_limit_def)
qed

lemma get_keeps: "messages_ok H S index n \<Longrightarrow> messages_ok H S index (snd (handle_get stamp_size H S (\<lambda>_. True) readable dest request n))"
proof -
  assume ok: "messages_ok H S index n"
  have "messages_ok H S index (delete_have H S (\<lambda>_. True) d v n)" if "messages_ok H S index n" for d v n
    using drop_keeps [OF that] that by (auto simp: delete_have_def split: msg_value.split option.split)
  then have haves: "messages_ok H S index (fold (delete_have H S (\<lambda>_. True) d) hs n)" for d hs
    using ok by (induction hs arbitrary: n) simp_all
  have "messages_ok H S index (n'\<lparr>pn_served := k\<rparr>) \<longleftrightarrow> messages_ok H S index n'" for n' k by (simp add: messages_ok_def)
  with haves ok show ?thesis
    by (auto simp: handle_get_def Let_def split: option.split msg_value.split)
qed

lemma queue_for_ok:
  assumes "entries_ok E"
  shows "entries_ok (queue_for from_peer tid x E) \<and> length (pr_rows (queue_for from_peer tid x E)) = length (pr_rows E) \<and>
    unmark (stored (queue_for from_peer tid x E)) = unmark (stored E)"
proof -
  obtain h p where x: "x = (h, p)" by fastforce
  from queue_unhandled_ok [OF assms, of "pp_slot p" tid] obtain b E' where E': "queue_unhandled (pp_slot p) tid E = Some (b, E')"
    "entries_ok E'" "length (pr_rows E') = length (pr_rows E)"
    "stored E' = upd tid (\<lambda>e. if has_slot (pe_handled e) (pp_slot p) then e else marked (pp_slot p) False True e) (stored E)" by blast
  then have "unmark (stored E') = unmark (stored E)" by (simp add: unmark_upd)
  with E' assms x show ?thesis by (simp add: queue_for_def)
qed

lemma queue_peers_ok:
  "entries_ok E \<Longrightarrow> entries_ok (fold (queue_for from_peer tid) peers E) \<and>
    length (pr_rows (fold (queue_for from_peer tid) peers E)) = length (pr_rows E) \<and>
    unmark (stored (fold (queue_for from_peer tid) peers E)) = unmark (stored E)"
  by (induction peers arbitrary: E) (simp_all add: queue_for_ok)

lemma store_message_keeps:
  assumes "naming_ok H D S P T" and "t \<in> T" and "0 < t" and "length (pr_rows (pn_entries n)) < 2 ^ 32"
    and ok: "messages_ok H S (index_message H D S P) n"
  shows "messages_ok H S (index_message H D S P) (snd (store_message H S sha MessageWritten t d stamp stamp_data from_peer n))"
proof (cases "16 \<le> length d \<and> length (sha d) = 32 \<and> \<not> contains_key (sha d) (pn_entries n) \<and> \<not> processed_contains (sha d) (pn_processed n)")
  case False
  then show ?thesis using ok by (auto simp: store_message_def Let_def not_le)
next
  case True
  define file_data where "file_data = d @ (case stamp_data of None \<Rightarrow> [] | Some s \<Rightarrow> s)"
  define e where "e = new_entry (take 16 d) t (length file_data) stamp"
  from ok have E: "entries_ok (pn_entries n)" and files: "files_match H S (index_message H D S P) (pn_files n) (stored (pn_entries n))"
    by (simp_all add: messages_ok_def)
  have new: "sha d \<notin> fst ` set (stored (pn_entries n))"
    using True no_row_ok [OF E] by (simp add: contains_key_def)
  from insert_entry_ok [OF E _ assms(4), of "sha d" e] True new obtain E1 where E1: "insert_entry (sha d) e (pn_entries n) = Some (True, E1)"
    "entries_ok E1" "stored E1 = stored (pn_entries n) @ [(sha d, e)]" "length (pr_rows E1) \<le> 2 ^ 32"
    using assms(4) by auto
  have name: "file_name H S (sha d) e = message_file_name H S (sha d) t stamp" by (simp add: file_name_def e_def new_entry_def)
  have d16: "take 16 d = take 16 file_data" "16 \<le> length file_data" using True by (simp_all add: file_data_def)
  have "files_match H S (index_message H D S P) (hput (message_file_name H S (sha d) t stamp) file_data (pn_files n)) (stored E1)"
    unfolding E1(3) e_def d16(1)
    using files_match_store [OF assms(1) _ assms(2,3) d16(2) files new] True by blast
  then have match: "files_match H S (index_message H D S P) (hput (message_file_name H S (sha d) t stamp) file_data (pn_files n))
      (stored (fold (queue_for from_peer (sha d)) (sn_peers (pn_sync n)) E1))"
    using files_match_unmark queue_peers_ok [OF E1(2), of from_peer "sha d" "sn_peers (pn_sync n)"] by blast
  let ?n' = "snd (store_message H S sha MessageWritten t d stamp stamp_data from_peer n)"
  have "pn_entries ?n' = fold (queue_for from_peer (sha d)) (sn_peers (pn_sync n)) E1"
    "pn_files ?n' = hput (message_file_name H S (sha d) t stamp) file_data (pn_files n)"
    using True E1(1) unfolding store_message_def Let_def file_data_def [symmetric] e_def [symmetric]
    by (simp_all add: not_less)
  with match queue_peers_ok [OF E1(2), of from_peer "sha d" "sn_peers (pn_sync n)"] E1(4) show ?thesis
    by (simp only: messages_ok_def)
qed

text \<open>The peer sync changes the marks of an entry, and nothing else of the store.\<close>

fun marks_only :: "entries_op \<Rightarrow> bool" where
  "marks_only (InsertEntry _ _) \<longleftrightarrow> False"
| "marks_only (RemoveEntry _) \<longleftrightarrow> False"
| "marks_only SortByReceived \<longleftrightarrow> False"
| "marks_only _ \<longleftrightarrow> True"

lemma marks_keep:
  assumes "messages_ok H S index n" and "marks_only a"
  shows "messages_ok H S index (set_entries (the (run_op a (pn_entries n))) n)"
proof -
  from assms(1) have E: "entries_ok (pn_entries n)" by (simp add: messages_ok_def)
  have "\<exists>E'. run_op a (pn_entries n) = Some E' \<and> entries_ok E' \<and> length (pr_rows E') = length (pr_rows (pn_entries n)) \<and>
    unmark (stored E') = unmark (stored (pn_entries n))"
  proof (cases a)
    case (ForgetPeer slot)
    have "unmark (map (map_prod id (forgotten slot)) xs) = unmark xs" for xs by (simp add: unmark_def case_prod_unfold)
    with forget_peer_ok [OF E, of slot] show ?thesis
      by (auto simp: ForgetPeer forget_peer_def)
  next
    case (MarkHandled slot tid)
    with mark_handled_ok [OF E, of slot tid] show ?thesis by (auto simp: unmark_upd)
  next
    case (QueueUnhandled slot tid)
    with queue_unhandled_ok [OF E, of slot tid] show ?thesis by (auto simp: unmark_upd)
  next
    case (AddHandled slot tid)
    with mark_ok [OF E, of slot tid True True] show ?thesis by (auto simp: add_handled_message_def unmark_upd)
  next
    case (AddUnhandled slot tid)
    with mark_ok [OF E, of slot tid False True] show ?thesis by (auto simp: add_unhandled_message_def unmark_upd)
  next
    case (RemoveUnhandled slot tid)
    with mark_ok [OF E, of slot tid False False] show ?thesis by (auto simp: remove_unhandled_message_def unmark_upd)
  qed (use assms(2) in simp_all)
  then obtain E' where "run_op a (pn_entries n) = Some E'" "entries_ok E'" "length (pr_rows E') = length (pr_rows (pn_entries n))"
    "unmark (stored E') = unmark (stored (pn_entries n))" by blast
  with assms(1) files_match_unmark [of "stored E'" "stored (pn_entries n)"] show ?thesis by (simp add: messages_ok_def)
qed

section \<open>Restart\<close>

lemma index_fold:
  assumes "entries_ok E" and "\<And>file. file \<in> set fs \<Longrightarrow> \<exists>tid e. index (fst file) (snd file) = Some (tid, e) \<and> length tid = 32 \<and> tid \<notin> fst ` set (stored E)"
    and "distinct (map (\<lambda>file. fst (the (index (fst file) (snd file)))) fs)" and "length (pr_rows E) + length fs \<le> 2 ^ 32"
  shows "entries_ok (fold (index_one index) fs E) \<and> length (pr_rows (fold (index_one index) fs E)) \<le> length (pr_rows E) + length fs \<and>
    stored (fold (index_one index) fs E) = stored E @ map (\<lambda>file. the (index (fst file) (snd file))) fs"
  using assms
proof (induction fs arbitrary: E)
  case (Cons f1 fs)
  from Cons.prems(2) [of f1] obtain tid e where fl: "index (fst f1) (snd f1) = Some (tid, e)" "length tid = 32" "tid \<notin> fst ` set (stored E)"
    by auto
  from insert_entry_ok [OF Cons.prems(1) fl(2), of e] Cons.prems(4) fl(3) obtain E' where E': "insert_entry tid e E = Some (True, E')"
    "entries_ok E'" "stored E' = stored E @ [(tid, e)]" "length (pr_rows E') \<le> Suc (length (pr_rows E))" by auto
  have one: "index_one index f1 E = E'" using fl E' by (simp add: index_one_def)
  have "\<exists>tid' e'. index (fst f) (snd f) = Some (tid', e') \<and> length tid' = 32 \<and> tid' \<notin> fst ` set (stored E')" if f: "f \<in> set fs" for f
  proof -
    from Cons.prems(2) [of f] f obtain tid' e' where f': "index (fst f) (snd f) = Some (tid', e')" "length tid' = 32" "tid' \<notin> fst ` set (stored E)"
      by auto
    moreover have "tid' \<noteq> tid" using Cons.prems(3) f f'(1) fl(1) by force
    ultimately show ?thesis using E'(3) by auto
  qed
  from Cons.IH [OF E'(2) this] Cons.prems(3,4) E'(3,4) show ?case by (simp add: one fl)
qed simp

lemma length_flatten: "length (flatten rows) \<le> length rows"
  by (induction rows rule: flatten.induct) simp_all

text \<open>What is left of the entries when the files of a matching store are indexed, listed in any order.\<close>

lemma index_matching:
  assumes ok: "messages_ok H S (index_message H D S P) n" and listed: "mset dir = mset (pn_files n)"
  shows "entries_ok (index_messagestore H D S P (Some (map (map_prod id Some) dir))) \<and>
    length (pr_rows (index_messagestore H D S P (Some (map (map_prod id Some) dir)))) \<le> 2 ^ 32 \<and>
    stored (index_messagestore H D S P (Some (map (map_prod id Some) dir))) =
      sort_key (\<lambda>(tid, e). (pe_received e, tid)) (unmark (stored (pn_entries n)))"
proof -
  define index where "index = index_message H D S P"
  define xs where "xs = stored (pn_entries n)"
  let ?fs = "map (map_prod id Some) dir" and ?key = "\<lambda>(tid, e). (pe_received e, tid)"
  let ?read = "map (\<lambda>file. the (index (fst file) (snd file))) ?fs"
  from ok have E: "entries_ok (pn_entries n)" and rows: "length (pr_rows (pn_entries n)) \<le> 2 ^ 32" and files: "files_match H S index (pn_files n) xs"
    by (simp_all add: messages_ok_def index_def xs_def)
  have ids: "distinct (map fst xs)" "\<forall>x \<in> set xs. length (fst x) = 32"
    using stored_distinct [OF E] E by (auto simp: xs_def entries_ok_def)
  have set_dir: "set dir = set (pn_files n)" using listed by (rule mset_eq_setD)
  have dist: "distinct (map fst dir)"
    using files listed distinct_ids_mset [OF listed] by (simp add: files_match_def hkeys_distinct_def)
  have fl: "\<exists>e. (fst (the (index name (Some d))), e) \<in> set xs \<and> index name (Some d) = Some (fst (the (index name (Some d))), unmarked e) \<and>
      name = file_name H S (fst (the (index name (Some d)))) e" if "(name, d) \<in> set dir" for name d
  proof -
    from that files set_dir obtain tid e where e: "(tid, e) \<in> set xs" "name = file_name H S tid e" unfolding files_match_def by fast
    moreover from e files obtain d' where "hget (pn_files n) name = Some d'" "index name (Some d') = Some (tid, unmarked e)"
      unfolding files_match_def by fast
    moreover have "hget (pn_files n) name = Some d"
      using that set_dir files hget_mem_iff [of "pn_files n" name d] by (simp add: files_match_def)
    ultimately show ?thesis by auto
  qed
  have dist_ids: "distinct (map (\<lambda>file. fst (the (index (fst file) (snd file)))) ?fs)"
  proof -
    have "inj_on (\<lambda>(name, d). fst (the (index name (Some d)))) (set dir)"
    proof (rule inj_onI, clarify)
      fix name d name' d' assume x: "(name, d) \<in> set dir" "(name', d') \<in> set dir"
        "fst (the (index name (Some d))) = fst (the (index name' (Some d')))"
      with fl [OF x(1)] fl [OF x(2)] ids(1) have "name = name'" by (metis map_of_is_SomeI option.inject)
      with x dist show "name = name' \<and> d = d'" by (metis map_of_is_SomeI option.inject)
    qed
    moreover have "distinct dir" using dist by (simp add: distinct_map)
    ultimately show ?thesis by (simp add: distinct_map comp_def case_prod_unfold map_prod_def)
  qed
  have len: "length dir \<le> 2 ^ 32"
  proof -
    have "set (map fst dir) \<subseteq> set (map (\<lambda>(tid, e). file_name H S tid e) xs)" using fl by force
    then have "card (set (map fst dir)) \<le> card (set (map (\<lambda>(tid, e). file_name H S tid e) xs))" by (intro card_mono) auto
    then have "length dir \<le> length xs" using card_length [of "map (\<lambda>(tid, e). file_name H S tid e) xs"] distinct_card [OF dist] by simp
    then show ?thesis using rows length_flatten [of "pr_rows (pn_entries n)"] by (simp add: xs_def stored_def)
  qed
  have "\<exists>tid e. index (fst f) (snd f) = Some (tid, e) \<and> length tid = 32 \<and> tid \<notin> fst ` set (stored no_entries)" if "f \<in> set ?fs" for f
  proof -
    from that obtain name d where f: "f = (name, Some d)" "(name, d) \<in> set dir" by auto
    from fl [OF f(2)] obtain tid e where "(tid, e) \<in> set xs" "index name (Some d) = Some (tid, unmarked e)" by auto
    with f(1) ids(2) show ?thesis by (auto simp: no_entries_def stored_def)
  qed
  from index_fold [OF no_entries_ok this dist_ids] len have fold: "entries_ok (fold (index_one index) ?fs no_entries)"
    "length (pr_rows (fold (index_one index) ?fs no_entries)) \<le> 2 ^ 32" "stored (fold (index_one index) ?fs no_entries) = ?read"
    by (auto simp: no_entries_def stored_def)
  have same: "set (unmark xs) = set ?read"
  proof (intro equalityI subsetI)
    fix y assume "y \<in> set (unmark xs)"
    then obtain tid e where e: "(tid, e) \<in> set xs" "y = (tid, unmarked e)" by (auto simp: unmark_def)
    with files obtain d where d: "hget (pn_files n) (file_name H S tid e) = Some d" "index (file_name H S tid e) (Some d) = Some y"
      unfolding files_match_def by fast
    then have "(file_name H S tid e, d) \<in> set dir" using set_dir hget_mem by fastforce
    with d(2) show "y \<in> set ?read" by force
  next
    fix y assume "y \<in> set ?read"
    then obtain name d where y: "(name, d) \<in> set dir" "y = the (index name (Some d))" by auto
    from fl [OF y(1)] obtain tid e where "(tid, e) \<in> set xs" "index name (Some d) = Some (tid, unmarked e)" by auto
    with y(2) show "y \<in> set (unmark xs)" by (force simp: unmark_def)
  qed
  have unm: "map fst (unmark xs) = map fst xs" by (simp add: unmark_def case_prod_unfold)
  have "distinct ?read" using dist_ids distinct_map [of fst ?read] by (simp add: comp_def)
  moreover have "distinct (unmark xs)" using ids(1) unm by (metis distinct_map)
  ultimately have "mset (unmark xs) = mset ?read" using same set_eq_iff_mset_eq_distinct by blast
  moreover have "inj_on ?key (set (unmark xs))"
  proof -
    have "inj_on fst (set (unmark xs))" using ids(1) unm by (metis distinct_map)
    then show ?thesis unfolding inj_on_def by force
  qed
  ultimately have "sort_key ?key (unmark xs) = sort_key ?key ?read"
    by (intro sort_key_inj_key_eq) simp_all
  with fold sort_by_received_ok [OF fold(1)] show ?thesis
    unfolding index_messagestore_def option.case index_def [symmetric] xs_def [symmetric] by simp
qed


section \<open>Runs\<close>

text \<open>
  The operations on the store, each with a clock reading of \<open>T\<close>; a file is written whole or not at all,
  every removal of a file succeeds, and there are fewer than \<open>2 ^ 32\<close> rows when a message is stored.
\<close>

inductive store_step :: "(bytes \<Rightarrow> string) \<Rightarrow> (string \<Rightarrow> bytes option) \<Rightarrow> (secs \<Rightarrow> string) \<Rightarrow> (string \<Rightarrow> secs option) \<Rightarrow>
    (bytes \<Rightarrow> bytes) \<Rightarrow> secs set \<Rightarrow> prop_node \<Rightarrow> prop_node \<Rightarrow> bool"
  for H :: "bytes \<Rightarrow> string" and D :: "string \<Rightarrow> bytes option" and S :: "secs \<Rightarrow> string" and P :: "string \<Rightarrow> secs option"
    and sha :: "bytes \<Rightarrow> bytes" and T :: "secs set" where
  stores: "t \<in> T \<Longrightarrow> 0 < t \<Longrightarrow> length (pr_rows (pn_entries n)) < 2 ^ 32 \<Longrightarrow>
    store_step H D S P sha T n (snd (store_message H S sha MessageWritten t d stamp stamp_data from_peer n))"
| not_written: "store_step H D S P sha T n (snd (store_message H S sha (MessageNotWritten None) t d stamp stamp_data from_peer n))"
| expires: "store_step H D S P sha T n (evict_expired_messages H S (\<lambda>_. True) t n)"
| limits: "store_step H D S P sha T n (enforce_storage_limit H S (\<lambda>_. True) n)"
| serves: "store_step H D S P sha T n (snd (handle_get stamp_size H S (\<lambda>_. True) readable dest request n))"
| marks: "marks_only a \<Longrightarrow> store_step H D S P sha T n (set_entries (the (run_op a (pn_entries n))) n)"
| restarts: "mset dir = mset (pn_files n) \<Longrightarrow>
    store_step H D S P sha T n (set_entries (index_messagestore H D S P (Some (map (map_prod id Some) dir))) n)"

lemma store_failed: "snd (store_message H S sha (MessageNotWritten None) t d stamp stamp_data from_peer n) = n"
  by (simp add: store_message_def Let_def)

lemma store_step_ok:
  "store_step H D S P sha T n n' \<Longrightarrow> naming_ok H D S P T \<Longrightarrow> messages_ok H S (index_message H D S P) n \<Longrightarrow>
   messages_ok H S (index_message H D S P) n'"
proof (induction rule: store_step.induct)
  case (restarts dir n)
  define m where "m = index_messagestore H D S P (Some (map (map_prod id Some) dir))"
  have m: "entries_ok m" "length (pr_rows m) \<le> 2 ^ 32"
    "stored m = sort_key (\<lambda>(tid, e). (pe_received e, tid)) (unmark (stored (pn_entries n)))"
    using index_matching [OF restarts(3,1)] by (simp_all add: m_def)
  have "files_match H S (index_message H D S P) (pn_files n) (unmark (stored (pn_entries n)))"
    using restarts(3) files_match_unmark [of "unmark (stored (pn_entries n))" "stored (pn_entries n)"]
    by (simp add: messages_ok_def unmark_def case_prod_unfold comp_def)
  then have "files_match H S (index_message H D S P) (pn_files n) (stored m)" by (simp add: files_match_def m(3))
  with m show ?case by (simp add: messages_ok_def m_def)
qed (simp_all add: store_message_keeps evict_keeps limit_keeps get_keeps marks_keep store_failed)

lemma store_run_ok:
  assumes "(store_step H D S P sha T)\<^sup>*\<^sup>* n n'" and "naming_ok H D S P T" and "messages_ok H S (index_message H D S P) n"
  shows "messages_ok H S (index_message H D S P) n'"
  using assms by (induction rule: rtranclp_induct) (auto intro: store_step_ok)

text \<open>
  C20: a restart reads back exactly the messages stored, as long as the file system does what it is asked or,
  for a write, leaves nothing. After any run of the store's operations from an empty store (messages put by
  clients and peers, whose file is written whole or not at all, expiries, the storage limit and clients
  deleting what they have, with the files removed, the marks of the peer sync, other restarts), indexing the
  files of the messagestore, in whatever order the directory lists them, gives every message stored and no
  other, each with its destination, its time, its size and its stamp, in the order received.
  What names a message in its file's name is hexadecimal text and numbers that print and parse back. A torn
  write is not among these runs: what it leaves is read back, \<open>torn_write_read_back\<close>.
\<close>

theorem restart_reads_back_messages:
  assumes "naming_ok H D S P T" and "pn_files n0 = []" and "pn_entries n0 = no_entries"
    and "(store_step H D S P sha T)\<^sup>*\<^sup>* n0 n" and "mset dir = mset (pn_files n)"
  shows "stored (index_messagestore H D S P (Some (map (map_prod id Some) dir))) =
    sort_key (\<lambda>(tid, e). (pe_received e, tid)) (unmark (stored (pn_entries n)))"
proof -
  have "messages_ok H S (index_message H D S P) n0"
    unfolding messages_ok_def assms(2,3)
    by (simp add: no_entries_ok files_match_def hkeys_distinct_def) (simp add: no_entries_def stored_def)
  from index_matching [OF store_run_ok [OF assms(4,1) this] assms(5)] show ?thesis by blast
qed

text \<open>Hexadecimal text read back, for the witnesses.\<close>

definition hex_value :: "char \<Rightarrow> nat option" where
  "hex_value c = (if 48 \<le> (of_char c :: nat) \<and> (of_char c :: nat) \<le> 57 then Some (of_char c - 48)
     else if 97 \<le> (of_char c :: nat) \<and> (of_char c :: nat) \<le> 102 then Some (of_char c - 87) else None)"

fun unhex :: "string \<Rightarrow> bytes option" where
  "unhex [] = Some []"
| "unhex [c] = None"
| "unhex (c # c' # cs) = (case (hex_value c, hex_value c', unhex cs) of
      (Some h, Some l, Some bs) \<Rightarrow> Some (of_nat (16 * h + l) # bs) | _ \<Rightarrow> None)"

lemma hex_digit_read: "n < 16 \<Longrightarrow> hex_value (hex_digit n) = Some n \<and> hex_digit n \<noteq> CHR ''_''"
proof -
  assume "n < 16"
  moreover have "list_all (\<lambda>n. hex_value (hex_digit n) = Some n \<and> hex_digit n \<noteq> CHR ''_'') [0..<16]" by code_simp
  ultimately show ?thesis unfolding list_all_iff by simp
qed

lemma hex_read: "unhex (hex bs) = Some bs \<and> CHR ''_'' \<notin> set (hex bs) \<and> length (hex bs) = 2 * length bs"
proof (induction bs)
  case (Cons b bs)
  have "unat b < 2 ^ LENGTH(8)" by (rule unsigned_less)
  then have "unat b div 16 < 16" by (simp add: less_mult_imp_div_less)
  moreover have "16 * (unat b div 16) + unat b mod 16 = unat b" by simp
  moreover have "of_nat (unat b) = b" by simp
  ultimately show ?case
    using Cons hex_digit_read [of "unat b div 16"] hex_digit_read [of "unat b mod 16"] unfolding hex_def by (auto simp: mult.commute)
qed (simp add: hex_def)

lemma witness_naming: "naming_ok hex unhex (\<lambda>_. ''5'') (\<lambda>_. Some 5) {5}"
  by (simp add: naming_ok_def hex_read)

definition empty_prop_node :: prop_node where
  "empty_prop_node = \<lparr>pn_sync = \<lparr>sn_peers = [], sn_departed = [], sn_entries = no_entries, sn_fresh = [], sn_sends = [],
     sn_record_start = 0, sn_budget = 0, sn_started_at = 0, sn_hold_logged = False, sn_backlog_logged = False\<rparr>,
     pn_files = [], pn_processed = none_processed, pn_received = 0, pn_served = 0, pn_limit = 1000\<rparr>"

definition one_message_node :: prop_node where
  "one_message_node = snd (store_message hex (\<lambda>_. ''5'') (\<lambda>_. replicate 32 9) MessageWritten 5 (replicate 20 7) 3 None None empty_prop_node)"

lemma one_message_stored: "stored (pn_entries one_message_node) = [(replicate 32 9, new_entry (replicate 16 7) 5 20 3)]"
  by code_simp

lemma restart_reads_back_messages_witness:
  "stored (index_messagestore hex unhex (\<lambda>_. ''5'') (\<lambda>_. Some 5) (Some (map (map_prod id Some) (pn_files one_message_node)))) =
    [(replicate 32 9, new_entry (replicate 16 7) 5 20 3)]"
proof -
  have "store_step hex unhex (\<lambda>_. ''5'') (\<lambda>_. Some 5) (\<lambda>_. replicate 32 9) {5} empty_prop_node one_message_node"
    unfolding one_message_node_def by (rule stores) (simp_all add: empty_prop_node_def no_entries_def)
  from restart_reads_back_messages [OF witness_naming _ _ r_into_rtranclp, OF _ _ this, of "pn_files one_message_node"]
  show ?thesis by (simp add: empty_prop_node_def one_message_stored unmark_def)
qed

text \<open>
  A write that fails part way leaves its part under the message's name, and a restart takes it
  for the message: the entry then names the message's id and holds less than the message.
\<close>

lemma torn_write_read_back:
  assumes "naming_ok H D S P T" and "t \<in> T" and "0 < t" and "16 \<le> length part" and "length (sha d) = 32" and "16 \<le> length d"
    and "\<not> contains_key (sha d) (pn_entries n)" and "\<not> processed_contains (sha d) (pn_processed n)"
  shows "let (answer, n') = store_message H S sha (MessageNotWritten (Some part)) t d stamp stamp_data from_peer n;
      name = message_file_name H S (sha d) t stamp
    in answer = None \<and> hget (pn_files n') name = Some part \<and>
       index_message H D S P name (Some part) = Some (sha d, new_entry (take 16 part) t (length part) stamp)"
  using assms index_message_named [OF assms(1,5,2,3,4), of stamp]
  by (simp add: store_message_def hm.get_put)

section \<open>The storage limit\<close>

definition sizes :: "(bytes \<times> propagation_entry) list \<Rightarrow> nat" where
  "sizes xs = sum_list (map (\<lambda>(_, e). pe_size e) xs)"

lemma sizes_remove: "distinct (map fst xs) \<Longrightarrow> map_of xs tid = Some e \<Longrightarrow> sizes (filter (\<lambda>x. fst x \<noteq> tid) xs) + pe_size e = sizes xs"
proof (induction xs)
  case (Cons x xs)
  have "filter (\<lambda>x. fst x \<noteq> fst x') xs = xs" if "fst x' \<notin> fst ` set xs" for x' :: "bytes \<times> propagation_entry"
    using that unfolding filter_id_conv by (metis imageI)
  with Cons show ?case by (cases x) (auto simp: sizes_def split: if_splits)
qed simp

lemma limit_loop_ok:
  assumes "entries_ok (pn_entries n)" and "current = sizes (stored (pn_entries n))"
  shows "\<exists>k. let kept = \<lambda>k. filter (\<lambda>x. fst x \<notin> set (take k (map fst order))) (stored (pn_entries n));
      n' = limit_loop H S rm limit order current n
    in k \<le> length order \<and> entries_ok (pn_entries n') \<and> stored (pn_entries n') = kept k \<and>
       (k < length order \<longrightarrow> sizes (kept k) \<le> limit) \<and> (\<forall>j < k. limit < sizes (kept j))"
  using assms
proof (induction order arbitrary: current n)
  case (Cons y order)
  obtain tid r where x: "y = (tid, r)" by fastforce
  show ?case
  proof (cases "current \<le> limit")
    case True
    then show ?thesis using Cons.prems x by (intro exI [of _ 0]) simp
  next
    case False
    from drop_message_ok [OF Cons.prems(1), of tid H S rm] obtain E where E: "entries_ok E"
      "stored E = filter (\<lambda>x. fst x \<noteq> tid) (stored (pn_entries n))"
      "fst (drop_message H S rm tid n) = map_of (stored (pn_entries n)) tid" "pn_entries (snd (drop_message H S rm tid n)) = E" by auto
    let ?n1 = "snd (drop_message H S rm tid n)"
    define current' where "current' = sizes (stored E)"
    have run: "limit_loop H S rm limit (y # order) current n = limit_loop H S rm limit order current' ?n1"
    proof (cases "map_of (stored (pn_entries n)) tid")
      case None
      then have "stored E = stored (pn_entries n)" using E(2) by (auto simp: map_of_eq_None_iff intro!: filter_True)
      with None False E(3) Cons.prems(2) x show ?thesis by (cases "drop_message H S rm tid n") (simp add: current'_def)
    next
      case (Some e)
      from sizes_remove [OF stored_distinct [OF Cons.prems(1)] Some] have "current - pe_size e = current'"
        using E(2) Cons.prems(2) by (simp add: current'_def)
      with Some False E(3) x show ?thesis by (cases "drop_message H S rm tid n") simp
    qed
    have E1: "entries_ok (pn_entries ?n1)" "current' = sizes (stored (pn_entries ?n1))" using E by (simp_all add: current'_def)
    from Cons.IH [OF E1] obtain k where k: "k \<le> length order"
      "entries_ok (pn_entries (limit_loop H S rm limit order current' ?n1))"
      "stored (pn_entries (limit_loop H S rm limit order current' ?n1)) = filter (\<lambda>x. fst x \<notin> set (take k (map fst order))) (stored E)"
      "k < length order \<longrightarrow> sizes (filter (\<lambda>x. fst x \<notin> set (take k (map fst order))) (stored E)) \<le> limit"
      "\<forall>j < k. limit < sizes (filter (\<lambda>x. fst x \<notin> set (take j (map fst order))) (stored E))"
      unfolding E(4) Let_def by blast
    have kept: "filter (\<lambda>x. fst x \<notin> set (take (Suc j) (map fst (y # order)))) (stored (pn_entries n)) =
        filter (\<lambda>x. fst x \<notin> set (take j (map fst order))) (stored E)" for j
      unfolding E(2) filter_filter x by (rule filter_cong) auto
    have "limit < sizes (filter (\<lambda>x. fst x \<notin> set (take j (map fst (y # order)))) (stored (pn_entries n)))" if "j < Suc k" for j
    proof (cases j)
      case 0
      then show ?thesis using False Cons.prems(2) by simp
    next
      case (Suc i)
      with that k(5) show ?thesis unfolding Suc kept by simp
    qed
    with k run kept show ?thesis by (intro exI [of _ "Suc k"]) (simp add: Let_def)
  qed
qed (simp add: Let_def)

definition oldest_order :: "propagation_entries \<Rightarrow> bytes list" where
  "oldest_order E = map fst (sort_key snd (map (\<lambda>(tid, e). (tid, pe_received e)) (stored E)))"

lemma oldest_order_all: "set (oldest_order E) = fst ` set (stored E)"
  by (force simp: oldest_order_def)

text \<open>
  C22: the storage limit holds after it is enforced, at the cost of the oldest messages and no
  more of them than it takes. The sizes of the messages kept come to at most the limit; the
  messages dropped are the first \<open>k\<close> in the order of their age, and with any fewer of them
  dropped the limit would be passed.
\<close>

theorem storage_limit_enforced:
  assumes "entries_ok (pn_entries n)"
  shows "\<exists>k. let kept = \<lambda>k. filter (\<lambda>(tid, e). tid \<notin> set (take k (oldest_order (pn_entries n)))) (stored (pn_entries n));
      n' = enforce_storage_limit H S rm n
    in stored (pn_entries n') = kept k \<and> total_size (pn_entries n') \<le> pn_limit n \<and>
       (\<forall>j. k \<le> j \<or> pn_limit n < sizes (kept j))"
proof (cases "total_size (pn_entries n) \<le> pn_limit n")
  case True
  then show ?thesis by (intro exI [of _ 0]) (simp add: enforce_storage_limit_def)
next
  case False
  let ?order = "sort_key snd (map (\<lambda>(tid, e). (tid, pe_received e)) (stored (pn_entries n)))"
  let ?kept = "\<lambda>k. filter (\<lambda>x. fst x \<notin> set (take k (oldest_order (pn_entries n)))) (stored (pn_entries n))"
  have run: "enforce_storage_limit H S rm n = limit_loop H S rm (pn_limit n) ?order (total_size (pn_entries n)) n"
    using False by (simp add: enforce_storage_limit_def)
  have ids: "map fst ?order = oldest_order (pn_entries n)" by (simp add: oldest_order_def)
  have size_eq: "total_size (pn_entries n) = sizes (stored (pn_entries n))" by (simp add: total_size_def sizes_def)
  from limit_loop_ok [OF assms size_eq, of ?order H S rm "pn_limit n"] obtain k where k: "k \<le> length ?order"
    "stored (pn_entries (enforce_storage_limit H S rm n)) = ?kept k"
    "k < length ?order \<longrightarrow> sizes (?kept k) \<le> pn_limit n" "\<forall>j < k. pn_limit n < sizes (?kept j)"
    unfolding Let_def ids run by blast
  have "sizes (?kept k) \<le> pn_limit n"
  proof (cases "k < length ?order")
    case False
    then have "take k (oldest_order (pn_entries n)) = oldest_order (pn_entries n)" using k(1) unfolding ids [symmetric] by simp
    then have "?kept k = []" using oldest_order_all [of "pn_entries n"] by (simp add: filter_empty_conv)
    then show ?thesis by (simp add: sizes_def)
  qed (use k(3) in simp)
  then have "total_size (pn_entries (enforce_storage_limit H S rm n)) \<le> pn_limit n" by (simp add: total_size_def sizes_def k(2))
  moreover have "\<forall>j. k \<le> j \<or> pn_limit n < sizes (?kept j)" using k(4) by (meson not_le)
  ultimately show ?thesis
    unfolding Let_def case_prod_unfold using k(2) by (intro exI [of _ k]) simp
qed

definition two_messages_node :: prop_node where
  "two_messages_node = (snd (store_message hex (\<lambda>_. ''5'') (\<lambda>_. replicate 32 8) MessageWritten 6 (replicate 30 7) 3 None None one_message_node))
     \<lparr>pn_limit := 40\<rparr>"

lemma two_messages_ok: "entries_ok (pn_entries two_messages_node)"
proof -
  have empty: "entries_ok (pn_entries empty_prop_node)" by (simp add: empty_prop_node_def no_entries_ok)
  let ?e1 = "new_entry (replicate 16 7) 5 20 3" and ?e2 = "new_entry (replicate 16 7) 6 30 3"
  have "pn_entries two_messages_node = the (run_ops [InsertEntry (replicate 32 9) ?e1, InsertEntry (replicate 32 8) ?e2] no_entries)"
    by code_simp
  moreover have "\<forall>a \<in> set [InsertEntry (replicate 32 9) ?e1, InsertEntry (replicate 32 8) ?e2]. well_typed a" by simp
  ultimately show ?thesis
    using run_ops_ok [OF no_entries_ok, of "[InsertEntry (replicate 32 9) ?e1, InsertEntry (replicate 32 8) ?e2]"]
    by (auto simp: no_entries_def)
qed

lemma storage_limit_enforced_witness:
  "\<exists>k. total_size (pn_entries two_messages_node) = 50 \<and> pn_limit two_messages_node = 40 \<and>
    map fst (stored (pn_entries (enforce_storage_limit hex (\<lambda>_. ''5'') (\<lambda>_. True) two_messages_node))) =
      map fst (filter (\<lambda>(tid, e). tid \<notin> set (take k (oldest_order (pn_entries two_messages_node)))) (stored (pn_entries two_messages_node))) \<and>
    total_size (pn_entries (enforce_storage_limit hex (\<lambda>_. ''5'') (\<lambda>_. True) two_messages_node)) \<le> 40"
proof -
  have "total_size (pn_entries two_messages_node) = 50" by code_simp
  moreover have "pn_limit two_messages_node = 40" by (simp add: two_messages_node_def)
  ultimately show ?thesis
    using storage_limit_enforced [OF two_messages_ok, of hex "\<lambda>_. ''5''" "\<lambda>_. True"] unfolding Let_def by auto
qed

section \<open>Serving and storing\<close>

lemma delete_have_ok:
  assumes "entries_ok (pn_entries n)"
  shows "entries_ok (pn_entries (delete_have H S rm dest v n)) \<and>
    (\<exists>ids. ids \<subseteq> {tid. v = MBin tid \<and> (\<exists>e. (tid, e) \<in> set (stored (pn_entries n)) \<and> pe_destination e = dest)} \<and>
      stored (pn_entries (delete_have H S rm dest v n)) = filter (\<lambda>(tid, e). tid \<notin> ids) (stored (pn_entries n)))"
proof (cases v)
  case (MBin tid)
  show ?thesis
  proof (cases "\<exists>e. map_of (stored (pn_entries n)) tid = Some e \<and> pe_destination e = dest")
    case True
    then obtain e where e: "map_of (stored (pn_entries n)) tid = Some e" "pe_destination e = dest" by blast
    from drop_message_ok [OF assms, of tid H S rm] obtain E where E: "entries_ok E" "stored E = filter (\<lambda>x. fst x \<noteq> tid) (stored (pn_entries n))"
      "pn_entries (snd (drop_message H S rm tid n)) = E" by auto
    have "delete_have H S rm dest v n = snd (drop_message H S rm tid n)"
      using e by (simp add: delete_have_def MBin get_entry_ok [OF assms])
    moreover have "(tid, e) \<in> set (stored (pn_entries n))" using e(1) by (rule map_of_SomeD)
    ultimately show ?thesis using E e(2) MBin
      by (intro conjI exI [of _ "{tid}"]) (auto simp: case_prod_unfold)
  next
    case False
    then have "delete_have H S rm dest v n = n"
      by (auto simp: delete_have_def MBin get_entry_ok [OF assms] split: option.split)
    with assms show ?thesis by (intro conjI exI [of _ "{}"]) auto
  qed
qed (use assms in \<open>auto simp: delete_have_def intro: exI [of _ "{}"]\<close>)

lemma delete_haves_ok:
  assumes "entries_ok (pn_entries n)"
  shows "entries_ok (pn_entries (fold (delete_have H S rm dest) hs n)) \<and>
    (\<exists>ids. ids \<subseteq> {tid. MBin tid \<in> set hs \<and> (\<exists>e. (tid, e) \<in> set (stored (pn_entries n)) \<and> pe_destination e = dest)} \<and>
      stored (pn_entries (fold (delete_have H S rm dest) hs n)) = filter (\<lambda>(tid, e). tid \<notin> ids) (stored (pn_entries n)))"
  using assms
proof (induction hs arbitrary: n)
  case Nil
  then show ?case by (intro conjI exI [of _ "{}"]) auto
next
  case (Cons v hs)
  let ?n1 = "delete_have H S rm dest v n"
  from delete_have_ok [OF Cons.prems, of H S rm dest v] obtain ids where 1: "entries_ok (pn_entries ?n1)"
    "ids \<subseteq> {tid. v = MBin tid \<and> (\<exists>e. (tid, e) \<in> set (stored (pn_entries n)) \<and> pe_destination e = dest)}"
    "stored (pn_entries ?n1) = filter (\<lambda>(tid, e). tid \<notin> ids) (stored (pn_entries n))" by blast
  from Cons.IH [OF 1(1)] obtain ids' where 2: "entries_ok (pn_entries (fold (delete_have H S rm dest) hs ?n1))"
    "ids' \<subseteq> {tid. MBin tid \<in> set hs \<and> (\<exists>e. (tid, e) \<in> set (stored (pn_entries ?n1)) \<and> pe_destination e = dest)}"
    "stored (pn_entries (fold (delete_have H S rm dest) hs ?n1)) = filter (\<lambda>(tid, e). tid \<notin> ids') (stored (pn_entries ?n1))" by blast
  show ?case
  proof (intro conjI exI [of _ "ids \<union> ids'"])
    show "ids \<union> ids' \<subseteq> {tid. MBin tid \<in> set (v # hs) \<and> (\<exists>e. (tid, e) \<in> set (stored (pn_entries n)) \<and> pe_destination e = dest)}"
      using 1(2,3) 2(2) by auto
  qed (use 1 2 in \<open>auto simp: case_prod_unfold intro: filter_cong\<close>)
qed

definition cost :: "bytes list \<Rightarrow> real" where
  "cost ds = sum_list (map (\<lambda>d. real (length d) + 16) ds)"

lemma serve_wants_ok:
  assumes "entries_ok (pn_entries n)"
  shows "\<exists>ds. serve_wants stamp_size H S readable dest limit n vs c = map (\<lambda>d. take (length d - stamp_size) d) ds \<and>
    (\<forall>d \<in> set ds. \<exists>(tid, e) \<in> set (stored (pn_entries n)). MBin tid \<in> set vs \<and> pe_destination e = dest \<and>
       hget (pn_files n) (file_name H S tid e) = Some d) \<and>
    (\<forall>l. limit = Some l \<longrightarrow> ds \<noteq> [] \<longrightarrow> c + cost ds \<le> l)"
proof (induction vs arbitrary: c)
  case (Cons v vs)
  show ?case
  proof (cases "\<exists>tid e d. v = MBin tid \<and> map_of (stored (pn_entries n)) tid = Some e \<and> pe_destination e = dest \<and>
      readable (file_name H S tid e) \<and> hget (pn_files n) (file_name H S tid e) = Some d \<and>
      (\<forall>l. limit = Some l \<longrightarrow> c + real (length d) + 16 \<le> l)")
    case True
    then obtain tid e d where m: "v = MBin tid" "map_of (stored (pn_entries n)) tid = Some e" "pe_destination e = dest"
      "readable (file_name H S tid e)" "hget (pn_files n) (file_name H S tid e) = Some d"
      "\<forall>l. limit = Some l \<longrightarrow> c + real (length d) + 16 \<le> l" by blast
    have served: "serve_wants stamp_size H S readable dest limit n (v # vs) c =
        take (length d - stamp_size) d # serve_wants stamp_size H S readable dest limit n vs (c + real (length d) + 16)"
      using m by (simp add: get_entry_ok [OF assms] Let_def split: option.split)
    have e: "(tid, e) \<in> set (stored (pn_entries n))" using m(2) by (rule map_of_SomeD)
    from Cons.IH [of "c + real (length d) + 16"] obtain ds where ds:
      "serve_wants stamp_size H S readable dest limit n vs (c + real (length d) + 16) = map (\<lambda>d. take (length d - stamp_size) d) ds"
      "\<forall>d \<in> set ds. \<exists>(tid, e) \<in> set (stored (pn_entries n)). MBin tid \<in> set vs \<and> pe_destination e = dest \<and>
        hget (pn_files n) (file_name H S tid e) = Some d"
      "\<forall>l. limit = Some l \<longrightarrow> ds \<noteq> [] \<longrightarrow> c + real (length d) + 16 + cost ds \<le> l" by blast
    show ?thesis
    proof (intro exI [of _ "d # ds"] conjI)
      show "\<forall>d \<in> set (d # ds). \<exists>(tid, e) \<in> set (stored (pn_entries n)). MBin tid \<in> set (v # vs) \<and> pe_destination e = dest \<and>
          hget (pn_files n) (file_name H S tid e) = Some d"
        using ds(2) e m(1,3,5) by fastforce
      show "\<forall>l. limit = Some l \<longrightarrow> d # ds \<noteq> [] \<longrightarrow> c + cost (d # ds) \<le> l"
        using ds(3) m(6) by (cases "ds = []") (auto simp: cost_def add.assoc)
    qed (simp only: served ds list.map)
  next
    case False
    then have "serve_wants stamp_size H S readable dest limit n (v # vs) c = serve_wants stamp_size H S readable dest limit n vs c"
      by (cases v) (auto simp: get_entry_ok [OF assms] Let_def add.assoc split: option.split)
    moreover from Cons.IH [of c] obtain ds where
      "serve_wants stamp_size H S readable dest limit n vs c = map (\<lambda>d. take (length d - stamp_size) d) ds"
      "\<forall>d \<in> set ds. \<exists>(tid, e) \<in> set (stored (pn_entries n)). MBin tid \<in> set vs \<and> pe_destination e = dest \<and>
        hget (pn_files n) (file_name H S tid e) = Some d"
      "\<forall>l. limit = Some l \<longrightarrow> ds \<noteq> [] \<longrightarrow> c + cost ds \<le> l" by blast
    ultimately show ?thesis by (intro exI [of _ ds]) fastforce
  qed
qed simp

text \<open>
  C23: a client is served its own messages, within its limit, and deletes only its own. What
  \<open>/get\<close> returns are the files, less the stamp, of messages stored for the \<open>lxmf.delivery\<close>
  destination of the identity the client proved, each asked for by its id; with a limit given,
  the files and 16 bytes for each come to at most 1000 times the limit less the 24 bytes of the
  answer. The messages that leave the store are the client's own, each named as one it has;
  every other message stays.
\<close>

theorem get_serves_own_within_limit:
  assumes "entries_ok (pn_entries n)"
    and "handle_get stamp_size H S rm readable (Some (Some dest)) (Some request) n = (GetMessages messages, n')"
  shows "(\<exists>ds. messages = map (\<lambda>d. take (length d - stamp_size) d) ds \<and>
      (\<forall>d \<in> set ds. \<exists>(tid, e) \<in> set (stored (pn_entries n')). pe_destination e = dest \<and> hget (pn_files n') (file_name H S tid e) = Some d) \<and>
      (\<forall>l. 2 < length request \<longrightarrow> as_f64 (request ! 2) = Some l \<longrightarrow> ds \<noteq> [] \<longrightarrow> 24 + cost ds \<le> l * 1000)) \<and>
    (\<exists>ids. stored (pn_entries n') = filter (\<lambda>(tid, e). tid \<notin> ids) (stored (pn_entries n)) \<and>
      (\<forall>tid \<in> ids. \<exists>hs e. value_at 1 request = MArr hs \<and> MBin tid \<in> set hs \<and> (tid, e) \<in> set (stored (pn_entries n)) \<and> pe_destination e = dest))"
proof -
  let ?limit = "map_option (\<lambda>v. v * 1000) (if 2 < length request then as_f64 (request ! 2) else None)"
  define n1 where "n1 = (case value_at 1 request of MArr hs \<Rightarrow> fold (delete_have H S rm dest) hs n | _ \<Rightarrow> n)"
  define served where "served = (case value_at 0 request of MArr ws \<Rightarrow> serve_wants stamp_size H S readable dest ?limit n1 ws 24 | _ \<Rightarrow> [])"
  have split: "messages = served" "n' = n1\<lparr>pn_served := pn_served n1 + length served\<rparr>"
    using assms(2) unfolding handle_get_def option.case Let_def n1_def [symmetric] served_def [symmetric]
    by (auto split: if_splits)
  have same: "pn_entries n' = pn_entries n1" "pn_files n' = pn_files n1" by (simp_all add: split)
  have n1: "entries_ok (pn_entries n1) \<and> (\<exists>ids. stored (pn_entries n1) = filter (\<lambda>(tid, e). tid \<notin> ids) (stored (pn_entries n)) \<and>
      (\<forall>tid \<in> ids. \<exists>hs e. value_at 1 request = MArr hs \<and> MBin tid \<in> set hs \<and> (tid, e) \<in> set (stored (pn_entries n)) \<and> pe_destination e = dest))"
  proof (cases "\<exists>hs. value_at 1 request = MArr hs")
    case True
    then obtain hs where hs: "value_at 1 request = MArr hs" by blast
    from delete_haves_ok [OF assms(1), of H S rm dest hs] hs show ?thesis
      unfolding n1_def hs msg_value.case by blast
  next
    case False
    then have "n1 = n" by (auto simp: n1_def split: msg_value.split)
    with assms(1) show ?thesis by (auto intro!: exI [of _ "{}"])
  qed
  have "\<exists>ds. served = map (\<lambda>d. take (length d - stamp_size) d) ds \<and>
      (\<forall>d \<in> set ds. \<exists>(tid, e) \<in> set (stored (pn_entries n1)). pe_destination e = dest \<and> hget (pn_files n1) (file_name H S tid e) = Some d) \<and>
      (\<forall>l. ?limit = Some l \<longrightarrow> ds \<noteq> [] \<longrightarrow> 24 + cost ds \<le> l)"
  proof (cases "\<exists>ws. value_at 0 request = MArr ws")
    case True
    then obtain ws where ws: "value_at 0 request = MArr ws" by blast
    from serve_wants_ok [OF conjunct1 [OF n1], of stamp_size H S readable dest ?limit ws 24] show ?thesis
      unfolding served_def ws msg_value.case by (elim ex_forward) (auto simp: case_prod_unfold)
  next
    case False
    then have "served = []" by (auto simp: served_def split: msg_value.split)
    then show ?thesis by simp
  qed
  with n1 show ?thesis unfolding split(1) same by (auto 0 4)
qed

lemma one_message_ok: "entries_ok (pn_entries one_message_node)"
proof -
  let ?op = "InsertEntry (replicate 32 9) (new_entry (replicate 16 7) 5 20 3)"
  have "pn_entries one_message_node = the (run_op ?op no_entries)" by code_simp
  with run_op_ok [OF no_entries_ok, of ?op] show ?thesis by (auto simp: no_entries_def)
qed

lemma get_serves_own_within_limit_witness:
  "\<exists>messages n'. handle_get 32 hex (\<lambda>_. ''5'') (\<lambda>_. True) (\<lambda>_. True) (Some (Some (replicate 16 7)))
      (Some [MArr [MBin (replicate 32 9)], MNil, MInt 1]) one_message_node = (GetMessages messages, n') \<and> length messages = 1 \<and>
    (\<exists>ds. messages = map (\<lambda>d. take (length d - 32) d) ds \<and> (ds \<noteq> [] \<longrightarrow> 24 + cost ds \<le> 1000))"
proof -
  let ?get = "handle_get 32 hex (\<lambda>_. ''5'') (\<lambda>_. True) (\<lambda>_. True) (Some (Some (replicate 16 7)))
      (Some [MArr [MBin (replicate 32 9)], MNil, MInt 1]) one_message_node"
  have "fst ?get = GetMessages [[]]" by code_simp
  then have get: "?get = (GetMessages [[]], snd ?get)" by (metis prod.collapse)
  have "as_f64 (MInt 1) = Some 1" by simp
  with get_serves_own_within_limit [OF one_message_ok get, THEN conjunct1]
  have "\<exists>ds. [[]] = map (\<lambda>d. take (length d - 32) d) ds \<and> (ds \<noteq> [] \<longrightarrow> 24 + cost ds \<le> 1000)"
    by (elim ex_forward) simp
  with get show ?thesis by (intro exI [of _ "[[]]"] exI [of _ "snd ?get"]) simp
qed

lemma queue_for_slots:
  assumes "entries_ok E" and "map_of (stored E) tid = Some e" and "\<forall>x. \<not> has_slot (pe_handled e) x"
  shows "\<exists>e'. map_of (stored (queue_for from_peer tid (h, p) E)) tid = Some e' \<and> (\<forall>x. \<not> has_slot (pe_handled e') x) \<and>
    (\<forall>x. has_slot (pe_unhandled e') x \<longleftrightarrow> has_slot (pe_unhandled e) x \<or> from_peer \<noteq> Some h \<and> x = pp_slot p)"
proof (cases "from_peer = Some h")
  case False
  from queue_unhandled_ok [OF assms(1), of "pp_slot p" tid] obtain b E' where E': "queue_unhandled (pp_slot p) tid E = Some (b, E')"
    "stored E' = upd tid (\<lambda>e. if has_slot (pe_handled e) (pp_slot p) then e else marked (pp_slot p) False True e) (stored E)" by blast
  obtain changed s where ins: "insert_slot (pp_slot p) (pe_unhandled e) = (changed, s)" by fastforce
  from slot_op_changed [of True "pp_slot p" "pe_unhandled e" changed s] ins
  have "has_slot s x \<longleftrightarrow> x = pp_slot p \<or> has_slot (pe_unhandled e) x" for x by auto
  with False E' assms(2,3) ins show ?thesis
    by (auto simp: queue_for_def map_of_upd marked_def peers_of_def set_peers_def)
qed (use assms in \<open>simp add: queue_for_def\<close>)

lemma queue_peers_slots:
  "entries_ok E \<Longrightarrow> map_of (stored E) tid = Some e \<Longrightarrow> \<forall>x. \<not> has_slot (pe_handled e) x \<Longrightarrow>
   \<exists>e'. map_of (stored (fold (queue_for from_peer tid) peers E)) tid = Some e' \<and>
     (\<forall>x. has_slot (pe_unhandled e') x \<longleftrightarrow> has_slot (pe_unhandled e) x \<or> (\<exists>(h, p) \<in> set peers. from_peer \<noteq> Some h \<and> x = pp_slot p))"
proof (induction peers arbitrary: E e)
  case (Cons y peers)
  obtain h p where y: "y = (h, p)" by fastforce
  from queue_for_slots [OF Cons.prems, of from_peer h p] obtain e1 where e1:
    "map_of (stored (queue_for from_peer tid y E)) tid = Some e1" "\<forall>x. \<not> has_slot (pe_handled e1) x"
    "\<forall>x. has_slot (pe_unhandled e1) x \<longleftrightarrow> has_slot (pe_unhandled e) x \<or> from_peer \<noteq> Some h \<and> x = pp_slot p" unfolding y by blast
  have ok: "entries_ok (queue_for from_peer tid y E)" using queue_for_ok [OF Cons.prems(1)] by blast
  from Cons.IH [OF ok e1(1,2)] e1(3) y show ?case by auto
qed simp



end
