(* ===== verification/NodeConfig.thy ===== *)
theory NodeConfig
  imports RFed_Prelude
begin

text \<open>
  \<open>rfed/src/config.rs\<close>: the tier policies and the configuration of a node, without the paths of
  its files. A \<open>u32\<close> or \<open>usize\<close> setting is a \<^typ>\<open>nat\<close>.
\<close>

record tier_policy =
  tp_stamp_cost :: "nat option"
  tp_stamp_flexibility :: "nat option"
  tp_queue_limit :: nat
  tp_pull_batch :: "nat option"
  tp_allow_notify :: bool
  tp_allow_subscription :: bool
  tp_trusted_backup_only :: bool

definition default_tier :: tier_policy where
  "default_tier = \<lparr>tp_stamp_cost = Some 16, tp_stamp_flexibility = Some 3, tp_queue_limit = 256, tp_pull_batch = None,
     tp_allow_notify = True, tp_allow_subscription = True, tp_trusted_backup_only = False\<rparr>"

definition vip_default :: tier_policy where
  "vip_default = \<lparr>tp_stamp_cost = Some 8, tp_stamp_flexibility = Some 2, tp_queue_limit = 1024, tp_pull_batch = None,
     tp_allow_notify = True, tp_allow_subscription = True, tp_trusted_backup_only = False\<rparr>"

record propagation_inbound =
  pi_from_static_only :: bool
  pi_sequential_validation :: bool
  pi_static_bypass :: bool
  pi_max_syncs :: nat

definition inbound_default :: propagation_inbound where
  "inbound_default = \<lparr>pi_from_static_only = False, pi_sequential_validation = True, pi_static_bypass = True, pi_max_syncs = 3\<rparr>"

record node_config =
  cf_display_name :: string
  cf_announce_interval :: nat
  cf_announce_at_start :: bool
  cf_default :: tier_policy
  cf_vip :: tier_policy
  cf_vips :: "bytes list"
  cf_peering_cost :: "nat option"
  cf_storage_limit :: nat
  cf_transfer_limit :: "nat option"
  cf_sync_limit :: "nat option"
  cf_channel_transfer_limit :: nat
  cf_channel_sync_limit :: nat
  cf_static_peers :: "bytes list"
  cf_from_static_only :: bool
  cf_trusted_backups :: "bytes list"
  cf_primary :: "bytes option"
  cf_secondaries :: "bytes list"
  cf_owner_offline :: secs
  cf_propagation :: bool
  cf_autopeer :: bool
  cf_propagation_peers :: "bytes list"
  cf_inbound :: propagation_inbound

definition policy_for :: "node_config \<Rightarrow> bytes \<Rightarrow> tier_policy" where
  "policy_for cfg sub = (if sub \<in> set (cf_vips cfg) then cf_vip cfg else cf_default cfg)"

end
