(* ===== verification/FedNode.thy ===== *)
theory FedNode
  imports Msgpack NodeConfig Fanout DistroFanout FedSync
begin

text \<open>
  \<open>rfed/src/destinations.rs\<close>: the node (\<open>FedNode\<close>) and the request handlers of its destinations.
  Each handler is one step on the node: its critical sections, one after the other; what the
  Reticulum stack does is in the arguments. A table is \<open>None\<close> when its mutex is poisoned, \<open>nd_poisoned\<close> says so of the node's own.

  \<open>ident_env\<close> bundles \<open>rmpv::decode::read_value\<close>, \<open>Identity::from_public_key\<close>, the hash of an
  identity, its check of a signature, \<open>Destination::new_outbound(\<dots>).hash\<close> and \<open>Destination::hash\<close>;
  \<open>fan_io\<close> what the fan-outs of one handler meet. An answer is the value the handler encodes.
\<close>

section \<open>The node\<close>

record 'w fed_node =
  nd_config :: node_config
  nd_poisoned :: bool
  nd_blobs :: "blob_store option"
  nd_subs :: "subscription_table option"
  nd_distros :: "distro_table option"
  nd_announces :: "announce_store option"
  nd_hooks :: "'w delivery_hook list option"
  nd_notify :: "notify_registry option"
  nd_sync :: "fed_sync option"
  nd_queue :: "deferred_queue option"
  nd_channel_streams :: "(bytes, channel_stream_session) hmap option"
  nd_propagation_streams :: "(bytes, propagation_stream_session) hmap option"
  nd_links :: "(bytes, link_session) hmap option"
  nd_sync_links :: "(bytes, bytes) hmap"
  nd_pending_backups :: "(bytes \<times> bytes) list option"
  nd_selected_backups :: "bytes list"
  nd_world :: 'w

record 'i ident_env =
  ie_read :: "bytes \<Rightarrow> msg_value option"
  ie_from_key :: "bytes \<Rightarrow> 'i option"
  ie_hash :: "'i \<Rightarrow> bytes option"
  ie_validate :: "'i \<Rightarrow> bytes \<Rightarrow> bytes \<Rightarrow> bool"
  ie_out_hash :: "'i \<Rightarrow> string \<Rightarrow> string list \<Rightarrow> bytes option"
  ie_dest_hash :: "bytes option \<Rightarrow> string \<Rightarrow> string list \<Rightarrow> bytes"

definition delivery_of_key :: "'i ident_env \<Rightarrow> bytes \<Rightarrow> bytes option" where
  "delivery_of_key env pubkey = (case ie_from_key env pubkey of
      None \<Rightarrow> None | Some i \<Rightarrow> ie_out_hash env i ''lxmf'' [''delivery''])"

section \<open>Signed payloads\<close>

datatype payload_error = NotMsgpack | NotThree | ValueNotBytes | KeyNotBin | SigNotBin | KeyLength nat | SigLength nat
  | KeyInvalid | SignatureWrong | NoIdentityHash

fun payload_value :: "msg_value \<Rightarrow> bytes option" where
  "payload_value (MBin b) = Some b"
| "payload_value (MStr s) = Some (bytes_of s)"
| "payload_value _ = None"

fun as_bin :: "msg_value \<Rightarrow> bytes option" where
  "as_bin (MBin b) = Some b"
| "as_bin _ = None"

text \<open>The value, the identity hash of the key that signed it and the key.\<close>

definition verify_signed_payload :: "'i ident_env \<Rightarrow> bytes \<Rightarrow> payload_error + bytes \<times> bytes \<times> bytes" where
  "verify_signed_payload env d = (case ie_read env d of
      None \<Rightarrow> Inl NotMsgpack
    | Some (MArr [v, k, s]) \<Rightarrow> (case payload_value v of
        None \<Rightarrow> Inl ValueNotBytes
      | Some payload \<Rightarrow> (case as_bin k of
          None \<Rightarrow> Inl KeyNotBin
        | Some pubkey \<Rightarrow> (case as_bin s of
            None \<Rightarrow> Inl SigNotBin
          | Some signature \<Rightarrow>
              if length pubkey \<noteq> 64 then Inl (KeyLength (length pubkey))
              else if length signature \<noteq> 64 then Inl (SigLength (length signature))
              else (case ie_from_key env pubkey of
                  None \<Rightarrow> Inl KeyInvalid
                | Some i \<Rightarrow> if \<not> ie_validate env i signature payload then Inl SignatureWrong
                    else (case ie_hash env i of
                        None \<Rightarrow> Inl NoIdentityHash
                      | Some h \<Rightarrow> Inr (payload, h, pubkey))))))
    | Some _ \<Rightarrow> Inl NotThree)"

definition encode_ok_reason :: "bool \<Rightarrow> string option \<Rightarrow> msg_value" where
  "encode_ok_reason ok reason = MArr [MBool ok, case reason of Some why \<Rightarrow> MStr why | None \<Rightarrow> MNil]"

definition decode_msgpack_bin :: "'i ident_env \<Rightarrow> bytes \<Rightarrow> bytes" where
  "decode_msgpack_bin env d = (case ie_read env d of Some (MBin b) \<Rightarrow> b | _ \<Rightarrow> [])"

section \<open>Pulls\<close>

definition DEFAULT_PULL_PAGE_SIZE :: nat where "DEFAULT_PULL_PAGE_SIZE = 25"
definition PULL_ERROR_NO_IDENTITY :: int where "PULL_ERROR_NO_IDENTITY = 240"
definition PULL_ERROR_INVALID_DATA :: int where "PULL_ERROR_INVALID_DATA = 244"

definition decode_channel_pull_request :: "'i ident_env \<Rightarrow> bytes \<Rightarrow> nat + bytes" where
  "decode_channel_pull_request env d =
     (if length d = 16 then Inr d
      else (let chan = decode_msgpack_bin env d in if length chan \<noteq> 16 then Inl (length chan) else Inr chan))"

text \<open>\<open>max_efficient\<close> is \<open>Resource::MAX_EFFICIENT_SIZE\<close>.\<close>

definition pull_page_max_bytes :: "nat \<Rightarrow> nat" where
  "pull_page_max_bytes max_efficient = max_efficient - 64"

definition bin_len :: "nat \<Rightarrow> nat" where
  "bin_len n = n + (if n < 256 then 2 else if n < 65536 then 3 else 5)"

definition pull_entry_cost :: "pending_blob \<Rightarrow> nat" where
  "pull_entry_cost e = 1 + bin_len (length (pb_channel e)) + bin_len (length (pb_blob e))"

definition encode_pull_response :: "pending_blob list \<Rightarrow> bool \<Rightarrow> msg_value" where
  "encode_pull_response pending left =
     MArr [MArr (map (\<lambda>e. MArr [MBin (pb_channel e), MBin (pb_blob e)]) pending), MBool left]"

text \<open>\<open>Proven\<close> carries the page whose fate the requester's proof settles.\<close>

datatype proven_answer = PlainAnswer msg_value | ProvenAnswer nat msg_value | NoAnswer

definition pull_answer :: "nat \<Rightarrow> bytes \<Rightarrow> (bytes \<Rightarrow> bool) \<Rightarrow> nat \<Rightarrow> deferred_queue \<Rightarrow> proven_answer \<times> deferred_queue" where
  "pull_answer max_efficient sub wanted page_size q =
     (let ((page, blobs), q') = take_page sub wanted page_size (pull_page_max_bytes max_efficient) pull_entry_cost q;
          d = encode_pull_response blobs (has_pending_matching sub wanted q')
      in (if page = 0 then PlainAnswer d else ProvenAnswer page d, q'))"

datatype page_line = PageProved nat | PageNotProved nat | SettledTwice nat | QueuePoisonedPage nat

text \<open>The \<open>concluded\<close> callback of a proven answer; \<open>dq\<close> is \<open>None\<close> when poisoned.\<close>

definition page_concluded :: "txn \<Rightarrow> nat \<Rightarrow> bool \<Rightarrow> deferred_queue option \<Rightarrow> (log_level \<times> page_line) \<times> deferred_queue option" where
  "page_concluded r page proved dq = (case dq of
      None \<Rightarrow> ((LOG_ERROR, QueuePoisonedPage page), None)
    | Some q \<Rightarrow> (case settle_page r page proved q of
        (Some (_, n), q') \<Rightarrow> (if proved then (LOG_DEBUG, PageProved n) else (LOG_NOTICE, PageNotProved n), Some q')
      | (None, q') \<Rightarrow> ((LOG_WARNING, SettledTwice page), Some q')))"

definition pull_page_size :: "bytes \<Rightarrow> 'w fed_node \<Rightarrow> nat" where
  "pull_page_size sub node = (case tp_pull_batch (policy_for (nd_config node) sub) of
      None \<Rightarrow> DEFAULT_PULL_PAGE_SIZE | Some n \<Rightarrow> n)"

definition pull_from_queue :: "nat \<Rightarrow> bytes \<Rightarrow> (bytes \<Rightarrow> bool) \<Rightarrow> 'w fed_node \<Rightarrow> proven_answer \<times> 'w fed_node" where
  "pull_from_queue max_efficient sub wanted node = (case nd_queue node of
      None \<Rightarrow> (NoAnswer, node)
    | Some q \<Rightarrow> (case pull_answer max_efficient sub wanted (pull_page_size sub node) q of
        (a, q') \<Rightarrow> (a, node\<lparr>nd_queue := Some q'\<rparr>)))"

text \<open>\<open>caller\<close> is the hash of the identity the link proved.\<close>

definition channel_pull :: "'i ident_env \<Rightarrow> nat \<Rightarrow> txn \<Rightarrow> secs \<Rightarrow> bytes option \<Rightarrow> bytes \<Rightarrow> 'w fed_node \<Rightarrow> proven_answer \<times> 'w fed_node" where
  "channel_pull env max_efficient r t caller d node = (case caller of
      None \<Rightarrow> (PlainAnswer (MInt PULL_ERROR_NO_IDENTITY), node)
    | Some sub \<Rightarrow> (case decode_channel_pull_request env d of
        Inl _ \<Rightarrow> (PlainAnswer (MInt PULL_ERROR_INVALID_DATA), node)
      | Inr chan \<Rightarrow>
          if nd_poisoned node then (NoAnswer, node)
          else pull_from_queue max_efficient sub (\<lambda>routing. routing = chan)
                 (node\<lparr>nd_subs := map_option (\<lambda>s. snd (renew r t sub chan s)) (nd_subs node)\<rparr>)))"

definition delivery_pull :: "nat \<Rightarrow> bytes option \<Rightarrow> 'w fed_node \<Rightarrow> proven_answer \<times> 'w fed_node" where
  "delivery_pull max_efficient caller node = (case caller of
      None \<Rightarrow> (PlainAnswer (MInt PULL_ERROR_NO_IDENTITY), node)
    | Some sub \<Rightarrow> if nd_poisoned node then (NoAnswer, node) else pull_from_queue max_efficient sub (\<lambda>_. True) node)"

definition distro_pull :: "nat \<Rightarrow> bytes option \<Rightarrow> 'w fed_node \<Rightarrow> proven_answer \<times> 'w fed_node" where
  "distro_pull max_efficient caller node = (case caller of
      None \<Rightarrow> (PlainAnswer (MInt PULL_ERROR_NO_IDENTITY), node)
    | Some sub \<Rightarrow>
        if nd_poisoned node then (NoAnswer, node)
        else (let distros = (case nd_distros node of Some t \<Rightarrow> registered_distro_hashes t | None \<Rightarrow> {})
              in pull_from_queue max_efficient sub (\<lambda>routing. routing \<in> distros) node))"

section \<open>Notify commands\<close>

datatype notify_kind = NotifyRegister | NotifyUnregister | NotifyClear

record notify_command =
  nc_kind :: notify_kind
  nc_relay :: "string option"
  nc_channel :: "bytes option"

datatype notify_error = UnknownOp string | OpMismatch notify_kind notify_kind | MissingOp
  | EmptyRelay | RelayRejected string | RelayNotHash string | MissingKey | NotifyDenied bytes

fun as_channel :: "msg_value \<Rightarrow> bytes option" where
  "as_channel (MBin b) = (if length b = 16 then Some b else None)"
| "as_channel _ = None"

definition parse_notify_legacy_value :: "'i ident_env \<Rightarrow> bytes \<Rightarrow> string \<times> bytes option" where
  "parse_notify_legacy_value env payload = (case ie_read env payload of
      Some (MArr (relay # chan # _)) \<Rightarrow> ((case relay of MStr s \<Rightarrow> str_or_default s | _ \<Rightarrow> []), as_channel chan)
    | _ \<Rightarrow> (from_utf8_or_default payload, None))"

definition notify_op :: "string \<Rightarrow> notify_kind option" where
  "notify_op s = (if s = ''register'' then Some NotifyRegister
     else if s = ''unregister'' then Some NotifyUnregister
     else if s = ''clear'' then Some NotifyClear else None)"

fun relay_field :: "msg_value \<Rightarrow> string option" where
  "relay_field (MStr s) = (let relay = str_or_default s in if relay = [] then None else Some relay)"
| "relay_field _ = None"

definition legacy_command :: "'i ident_env \<Rightarrow> notify_kind option \<Rightarrow> bytes \<Rightarrow> notify_error + notify_command" where
  "legacy_command env default_kind payload = (case default_kind of
      None \<Rightarrow> Inl MissingOp
    | Some kind \<Rightarrow> (case parse_notify_legacy_value env payload of
        (relay, chan) \<Rightarrow> Inr \<lparr>nc_kind = kind, nc_relay = (if relay = [] then None else Some relay), nc_channel = chan\<rparr>))"

definition parse_notify_command :: "'i ident_env \<Rightarrow> bytes \<Rightarrow> notify_kind option \<Rightarrow> notify_error + notify_command" where
  "parse_notify_command env payload default_kind =
     (if default_kind = Some NotifyClear \<and> payload = []
      then Inr \<lparr>nc_kind = NotifyClear, nc_relay = None, nc_channel = None\<rparr>
      else (case ie_read env payload of
          Some (MArr (MStr s # relay # chan # _)) \<Rightarrow> (case notify_op (str_or_default s) of
              None \<Rightarrow> Inl (UnknownOp (str_or_default s))
            | Some kind \<Rightarrow>
                (case default_kind of
                   Some expected \<Rightarrow> if expected \<noteq> kind then Inl (OpMismatch kind expected)
                     else Inr \<lparr>nc_kind = kind, nc_relay = relay_field relay, nc_channel = as_channel chan\<rparr>
                 | None \<Rightarrow> Inr \<lparr>nc_kind = kind, nc_relay = relay_field relay, nc_channel = as_channel chan\<rparr>))
        | _ \<Rightarrow> legacy_command env default_kind payload))"

definition store_notify_command :: "'i ident_env \<Rightarrow> txn \<Rightarrow> secs \<Rightarrow> notify_command \<Rightarrow> bytes \<Rightarrow> notify_registry \<Rightarrow> notify_registry" where
  "store_notify_command env r t command sub g =
     (let key = notify_key (ie_dest_hash env) sub in case nc_kind command of
        NotifyRegister \<Rightarrow> (case nc_relay command of
            Some relay \<Rightarrow> register_notify r t key (nc_channel command) relay g | None \<Rightarrow> g)
      | NotifyUnregister \<Rightarrow> (case nc_relay command of
            Some relay \<Rightarrow> unregister_notify r key (nc_channel command) relay g | None \<Rightarrow> g)
      | NotifyClear \<Rightarrow> clear_notify r key g)"

text \<open>\<open>u8::from_str_radix\<close> on every two characters.\<close>

definition radix16_digit :: "char \<Rightarrow> nat option" where
  "radix16_digit c = (let n = of_char c :: nat in
     if 48 \<le> n \<and> n \<le> 57 then Some (n - 48) else if 97 \<le> n \<and> n \<le> 102 then Some (n - 87)
     else if 65 \<le> n \<and> n \<le> 70 then Some (n - 55) else None)"

fun radix16_pairs :: "string \<Rightarrow> bytes option" where
  "radix16_pairs [] = Some []"
| "radix16_pairs [c] = None"
| "radix16_pairs (c # c' # cs) = (case radix16_digit c of
      None \<Rightarrow> None
    | Some h \<Rightarrow> (case radix16_digit c' of
        None \<Rightarrow> None
      | Some l \<Rightarrow> map_option (\<lambda>bs. of_nat (16 * h + l) # bs) (radix16_pairs cs)))"

text \<open>What the stack is asked: to remember the relay's key, and for a path to it.\<close>

datatype notify_effect = RememberKey bytes bytes | AskPath bytes

definition with_notify :: "(notify_registry \<Rightarrow> notify_registry) \<Rightarrow> 'w fed_node \<Rightarrow> 'w fed_node" where
  "with_notify f node = (if nd_poisoned node then node else node\<lparr>nd_notify := map_option f (nd_notify node)\<rparr>)"

definition handle_notify_register :: "'i ident_env \<Rightarrow> txn \<Rightarrow> secs \<Rightarrow> notify_command \<Rightarrow> bytes \<Rightarrow> bytes option \<Rightarrow> 'w fed_node \<Rightarrow>
    ((notify_error + unit) \<times> notify_effect list) \<times> 'w fed_node" where
  "handle_notify_register env r t command sub pubkey node = (case nc_relay command of
      None \<Rightarrow> ((Inl EmptyRelay, []), node)
    | Some relay \<Rightarrow> (case validate_relay_hash relay of
        Inl why \<Rightarrow> ((Inl (RelayRejected why), []), node)
      | Inr _ \<Rightarrow> (case radix16_pairs relay of
          None \<Rightarrow> ((Inl (RelayNotHash relay), []), node)
        | Some relay_hash \<Rightarrow>
            if length relay_hash \<noteq> 16 then ((Inl (RelayNotHash relay), []), node)
            else (case pubkey of
                None \<Rightarrow> ((Inl MissingKey, []), node)
              | Some key \<Rightarrow>
                  (let (_, kept) = remember_self_hosted_relay (ie_from_key env)
                         (\<lambda>i app aspect. ie_out_hash env i app [aspect]) relay_hash key;
                       effects = (case kept of Some (h, k) \<Rightarrow> [RememberKey h k] | None \<Rightarrow> []) @ [AskPath relay_hash]
                   in if \<not> nd_poisoned node \<and> \<not> tp_allow_notify (policy_for (nd_config node) sub)
                      then ((Inl (NotifyDenied sub), effects), node)
                      else ((Inr (), effects), with_notify (store_notify_command env r t command sub) node))))))"

definition handle_notify_command :: "'i ident_env \<Rightarrow> txn \<Rightarrow> secs \<Rightarrow> notify_command \<Rightarrow> bytes \<Rightarrow> bytes option \<Rightarrow> 'w fed_node \<Rightarrow>
    ((notify_error + unit) \<times> notify_effect list) \<times> 'w fed_node" where
  "handle_notify_command env r t command sub pubkey node = (case nc_kind command of
      NotifyRegister \<Rightarrow> handle_notify_register env r t command sub pubkey node
    | NotifyUnregister \<Rightarrow>
        if nc_relay command = None then ((Inl EmptyRelay, []), node)
        else ((Inr (), []), with_notify (store_notify_command env r t command sub) node)
    | NotifyClear \<Rightarrow> ((Inr (), []), with_notify (store_notify_command env r t command sub) node))"

text \<open>The requests \<open>/rfed/notify/register\<close>, \<open>unregister\<close> and \<open>clear\<close>, and the signed packet (no kind expected, no answer).\<close>

definition notify_request :: "'i ident_env \<Rightarrow> txn \<Rightarrow> secs \<Rightarrow> notify_kind option \<Rightarrow> bytes \<Rightarrow> 'w fed_node \<Rightarrow>
    (msg_value \<times> notify_effect list) \<times> 'w fed_node" where
  "notify_request env r t kind d node = (case verify_signed_payload env d of
      Inl _ \<Rightarrow> ((MBool False, []), node)
    | Inr (payload, sub, pubkey) \<Rightarrow> (case parse_notify_command env payload kind of
        Inl _ \<Rightarrow> ((MBool False, []), node)
      | Inr command \<Rightarrow> (case handle_notify_command env r t command sub (Some pubkey) node of
          ((Inl _, effects), node') \<Rightarrow> ((MBool False, effects), node')
        | ((Inr _, effects), node') \<Rightarrow> ((MBool True, effects), node'))))"

section \<open>Stream opens\<close>

fun collect_filters :: "msg_value list \<Rightarrow> bytes list \<Rightarrow> bytes list option" where
  "collect_filters [] filters = Some filters"
| "collect_filters (v # vs) filters = (case v of
      MBin h \<Rightarrow> if length h \<noteq> 16 then None
        else collect_filters vs (if h \<in> set filters then filters else filters @ [h])
    | _ \<Rightarrow> None)"

definition decode_channel_stream_filters :: "'i ident_env \<Rightarrow> bytes \<Rightarrow> bytes list option" where
  "decode_channel_stream_filters env payload =
     (if length payload = 16 then Some [payload]
      else (case ie_read env payload of Some (MArr items) \<Rightarrow> collect_filters items [] | _ \<Rightarrow> None))"

text \<open>\<open>iter().all(|c| subs.renew(sub, c))\<close>: stops at the first channel not subscribed.\<close>

fun renew_all :: "(nat \<Rightarrow> txn) \<Rightarrow> (nat \<Rightarrow> secs) \<Rightarrow> nat \<Rightarrow> bytes \<Rightarrow> bytes list \<Rightarrow> subscription_table \<Rightarrow> bool \<times> subscription_table" where
  "renew_all r t n sub [] s = (True, s)"
| "renew_all r t n sub (chan # chans) s = (case renew (r n) (t n) sub chan s of
      (True, s') \<Rightarrow> renew_all r t (Suc n) sub chans s' | (False, s') \<Rightarrow> (False, s'))"

definition channel_stream_open :: "'i ident_env \<Rightarrow> (nat \<Rightarrow> txn) \<Rightarrow> (nat \<Rightarrow> secs) \<Rightarrow> bool \<Rightarrow> bytes option \<Rightarrow> bytes \<Rightarrow> 'w fed_node \<Rightarrow>
    msg_value \<times> 'w fed_node" where
  "channel_stream_open env r t on_rfed_link link d node = (case link of
      None \<Rightarrow> (encode_ok_reason False (Some ''no_link''), node)
    | Some l \<Rightarrow> (case verify_signed_payload env d of
        Inl _ \<Rightarrow> (encode_ok_reason False (Some ''bad_signature''), node)
      | Inr (payload, sub, _) \<Rightarrow> (case decode_channel_stream_filters env payload of
          None \<Rightarrow> (encode_ok_reason False (Some ''bad_channel_config''), node)
        | Some chans \<Rightarrow>
            if nd_poisoned node then (encode_ok_reason False (Some ''internal_error''), node)
            else (case nd_subs node of
                None \<Rightarrow> (encode_ok_reason False (Some ''not_subscribed''), node)
              | Some subs \<Rightarrow> (case renew_all r t 0 sub chans subs of
                  (False, subs') \<Rightarrow> (encode_ok_reason False (Some ''not_subscribed''), node\<lparr>nd_subs := Some subs'\<rparr>)
                | (True, subs') \<Rightarrow>
                    (let node' = node\<lparr>nd_subs := Some subs'\<rparr> in
                     if on_rfed_link then (case nd_links node' of
                         None \<Rightarrow> (encode_ok_reason False (Some ''internal_error''), node')
                       | Some links \<Rightarrow> (encode_ok_reason True None,
                           node'\<lparr>nd_links := Some (snd (configure_channels l sub chans links))\<rparr>))
                     else (case nd_channel_streams node' of
                         None \<Rightarrow> (encode_ok_reason False (Some ''internal_error''), node')
                       | Some streams \<Rightarrow> (encode_ok_reason True None,
                           node'\<lparr>nd_channel_streams := Some (configure_stream l sub chans streams)\<rparr>))))))))"

definition propagation_stream_open :: "'i ident_env \<Rightarrow> bool \<Rightarrow> bytes option \<Rightarrow> bytes \<Rightarrow> 'w fed_node \<Rightarrow> msg_value \<times> 'w fed_node" where
  "propagation_stream_open env on_rfed_link link d node = (case link of
      None \<Rightarrow> (encode_ok_reason False (Some ''no_link''), node)
    | Some l \<Rightarrow> (case verify_signed_payload env d of
        Inl _ \<Rightarrow> (encode_ok_reason False (Some ''bad_signature''), node)
      | Inr (delivery, _, pubkey) \<Rightarrow>
          if length delivery \<noteq> 16 then (encode_ok_reason False (Some ''bad_delivery_hash''), node)
          else (case delivery_of_key env pubkey of
              None \<Rightarrow> (encode_ok_reason False (Some ''bad_pubkey''), node)
            | Some expected \<Rightarrow>
                if expected \<noteq> delivery then (encode_ok_reason False (Some ''delivery_mismatch''), node)
                else if nd_poisoned node then (encode_ok_reason False (Some ''internal_error''), node)
                else if \<not> cf_propagation (nd_config node) then (encode_ok_reason False (Some ''feature_disabled''), node)
                else if on_rfed_link then (case nd_links node of
                    None \<Rightarrow> (encode_ok_reason False (Some ''internal_error''), node)
                  | Some links \<Rightarrow> (encode_ok_reason True None,
                      node\<lparr>nd_links := Some (snd (configure_delivery l delivery links))\<rparr>))
                else (case nd_propagation_streams node of
                    None \<Rightarrow> (encode_ok_reason False (Some ''internal_error''), node)
                  | Some streams \<Rightarrow> (case register_propagation l delivery streams of
                      (Inl code, _) \<Rightarrow> (encode_ok_reason False (Some code), node)
                    | (Inr _, streams') \<Rightarrow> (encode_ok_reason True None,
                        node\<lparr>nd_propagation_streams := Some streams'\<rparr>))))))"

text \<open>The links' closed callbacks.\<close>

definition stream_closed :: "bool \<Rightarrow> bytes \<Rightarrow> 'w fed_node \<Rightarrow> 'w fed_node" where
  "stream_closed on_rfed_link l node =
     (if on_rfed_link then node\<lparr>nd_links := map_option (\<lambda>m. snd (remove_session l m)) (nd_links node)\<rparr>
      else node\<lparr>nd_channel_streams := map_option (\<lambda>m. snd (remove_session l m)) (nd_channel_streams node)\<rparr>)"

definition propagation_stream_closed :: "bytes \<Rightarrow> 'w fed_node \<Rightarrow> 'w fed_node" where
  "propagation_stream_closed l node =
     node\<lparr>nd_propagation_streams := map_option (\<lambda>m. snd (remove_session l m)) (nd_propagation_streams node)\<rparr>"

section \<open>What a routing hash is, and the fan-out for it\<close>

datatype routing_hash_kind = KindDistro "distro_entry list" | KindChannel | KindUnjudged

definition judge_routing_hash :: "bytes \<Rightarrow> 'w fed_node \<Rightarrow> routing_hash_kind" where
  "judge_routing_hash routing node = (case nd_distros node of
      None \<Rightarrow> KindUnjudged
    | Some t \<Rightarrow> if is_distro routing t then KindDistro (devices_snapshot routing t) else KindChannel)"

text \<open>How many channel rows a distro's hash has, for the log.\<close>

definition rows_passed_over :: "bytes \<Rightarrow> 'w fed_node \<Rightarrow> nat" where
  "rows_passed_over distro node = (case nd_subs node of
      None \<Rightarrow> 0 | Some s \<Rightarrow> length (get_subscribers_with_owner distro s))"

definition plan_of :: "(bytes \<times> bytes option) list \<Rightarrow> 'w fed_node \<Rightarrow> fanout_plan" where
  "plan_of subscribers node = \<lparr>pl_subscribers = subscribers,
     pl_limits = fold (\<lambda>(sub, _). hput sub (tp_queue_limit (policy_for (nd_config node) sub))) subscribers [],
     pl_expired = []\<rparr>"

definition channel_rows_plan :: "txn \<Rightarrow> secs \<Rightarrow> bytes \<Rightarrow> 'w fed_node \<Rightarrow> fanout_plan \<times> 'w fed_node" where
  "channel_rows_plan r t chan node = (case nd_subs node of
      None \<Rightarrow> (plan_of [] node, node)
    | Some s \<Rightarrow> (case expire_stale r t chan LOCAL_SUBSCRIPTION_LIFETIME_SECS s of
        (gone, s') \<Rightarrow> ((plan_of (get_subscribers_with_owner chan s') node)\<lparr>pl_expired := gone\<rparr>, node\<lparr>nd_subs := Some s'\<rparr>)))"

definition plan_channel_fanout :: "txn \<Rightarrow> secs \<Rightarrow> bytes \<Rightarrow> 'w fed_node \<Rightarrow> fanout_plan \<times> 'w fed_node" where
  "plan_channel_fanout r t chan node = (case judge_routing_hash chan node of
      KindChannel \<Rightarrow> channel_rows_plan r t chan node
    | KindDistro _ \<Rightarrow> (plan_of [] node, node)
    | KindUnjudged \<Rightarrow> (plan_of [] node, node))"

datatype sync_dispatch = DispatchDistro "distro_entry list" | DispatchChannel fanout_plan | DispatchUnjudged

definition plan_sync_dispatch :: "txn \<Rightarrow> secs \<Rightarrow> bytes \<Rightarrow> 'w fed_node \<Rightarrow> sync_dispatch \<times> 'w fed_node" where
  "plan_sync_dispatch r t routing node = (case judge_routing_hash routing node of
      KindChannel \<Rightarrow> (case channel_rows_plan r t routing node of (plan, node') \<Rightarrow> (DispatchChannel plan, node'))
    | KindDistro devices \<Rightarrow> (DispatchDistro devices, node)
    | KindUnjudged \<Rightarrow> (DispatchUnjudged, node))"

text \<open>
  What one fan-out meets: the stack as the n-th recipient finds it, the transactions and clock
  readings of its hand-offs, and the transactions that drop what expired rows had queued.
\<close>

record 'i fan_io =
  io_fan :: "'i fan_env"
  io_device :: df_env
  io_wake :: "nat \<Rightarrow> 'i wake_env"
  io_hash :: "bytes \<Rightarrow> bytes"
  io_nid :: "deferred_row list \<Rightarrow> int"
  io_txn :: "nat \<Rightarrow> txn"
  io_drop_txn :: "nat \<Rightarrow> txn"
  io_time :: "nat \<Rightarrow> secs"

record 'i fan_report =
  fr_dropped :: "(bytes \<times> nat) list"
  fr_events :: "fan_event list"
  fr_routes :: "device_route list"
  fr_lines :: "(log_level \<times> handoff_line) list"
  fr_actions :: "'i stack_action list"

definition no_report :: "'i fan_report" where
  "no_report = \<lparr>fr_dropped = [], fr_events = [], fr_routes = [], fr_lines = [], fr_actions = []\<rparr>"

definition node_hand :: "'w fed_node \<Rightarrow> 'i hand_state" where
  "node_hand node = \<lparr>hn_queue = nd_queue node, hn_lines = [], hn_actions = []\<rparr>"

text \<open>\<open>plan.run\<close> on the node's registries and queue.\<close>

definition run_channel_plan :: "'i fan_io \<Rightarrow> bytes \<Rightarrow> bytes \<Rightarrow> fanout_plan \<Rightarrow> 'w fed_node \<Rightarrow> 'i fan_report \<times> 'w fed_node" where
  "run_channel_plan io chan blob plan node =
     (case plan_run (io_fan io) (io_wake io) (io_hash io) (io_nid io) (io_txn io) (io_drop_txn io) (io_time io)
        (nd_hooks node) (nd_notify node) chan blob plan
        \<lparr>fn_links = nd_links node, fn_streams = nd_channel_streams node, fn_queue = node_hand node, fn_world = nd_world node\<rparr> of
      (gone, served, st) \<Rightarrow>
        (no_report\<lparr>fr_dropped := gone, fr_events := (case served of Some (_, evs) \<Rightarrow> evs | None \<Rightarrow> []),
           fr_lines := hn_lines (fn_queue st), fr_actions := hn_actions (fn_queue st)\<rparr>,
         node\<lparr>nd_links := fn_links st, nd_channel_streams := fn_streams st, nd_queue := hn_queue (fn_queue st),
           nd_world := fn_world st\<rparr>))"

definition sync_distro_hand :: "'i fan_io \<Rightarrow> bytes \<Rightarrow> bytes \<Rightarrow> 'w fed_node \<Rightarrow> nat \<Rightarrow> unconfirmed \<Rightarrow> 'i hand_state \<Rightarrow>
    hand_off_outcome \<times> 'i hand_state" where
  "sync_distro_hand io routing blob node n rc h =
     (case distro_hand_off (io_wake io n) (io_hash io) (io_nid io) (io_txn io n) (io_time io n)
        (\<lambda>device. tp_queue_limit (policy_for (nd_config node) device)) routing blob Push (nd_notify node) rc (hn_queue h) of
      ((handed, lines, acts), dq) \<Rightarrow> (handed, \<lparr>hn_queue = dq, hn_lines = hn_lines h @ lines, hn_actions = hn_actions h @ acts\<rparr>))"

definition run_distro_fanout :: "'i fan_io \<Rightarrow> bytes \<Rightarrow> bytes \<Rightarrow> distro_entry list \<Rightarrow> 'w fed_node \<Rightarrow> 'i fan_report \<times> 'w fed_node" where
  "run_distro_fanout io routing blob devices node = (case nd_hooks node of
      None \<Rightarrow> (no_report, node)
    | Some hooks \<Rightarrow>
        (case distro_fanout (io_device io) hooks (sync_distro_hand io routing blob node) blob devices
           \<lparr>ds_links = nd_links node, ds_streams = nd_propagation_streams node, ds_queue = node_hand node, ds_world = nd_world node\<rparr> of
         (_, routes, st) \<Rightarrow>
           (no_report\<lparr>fr_routes := routes, fr_lines := hn_lines (ds_queue st), fr_actions := hn_actions (ds_queue st)\<rparr>,
            node\<lparr>nd_links := ds_links st, nd_propagation_streams := ds_streams st, nd_queue := hn_queue (ds_queue st),
              nd_world := ds_world st\<rparr>)))"

definition run_sync_dispatch :: "'i fan_io \<Rightarrow> bytes \<Rightarrow> bytes \<Rightarrow> sync_dispatch \<Rightarrow> 'w fed_node \<Rightarrow> 'i fan_report \<times> 'w fed_node" where
  "run_sync_dispatch io routing blob dispatch node = (case dispatch of
      DispatchChannel plan \<Rightarrow> run_channel_plan io routing blob plan node
    | DispatchDistro devices \<Rightarrow> run_distro_fanout io routing blob devices node
    | DispatchUnjudged \<Rightarrow> (no_report, node))"

section \<open>Subscribing\<close>

datatype subscribe_refusal =
    Unsigned payload_error
  | BadChannelHash nat
  | NodeUnavailable
  | PolicyRefused bytes
  | DistroHash bytes bytes
  | DistroSubscriber bytes bytes
  | DistroTableUnavailable bytes

definition PENDING_BACKUP_CAP :: nat where "PENDING_BACKUP_CAP = 1024"

text \<open>A configured cost of 0 is none.\<close>

definition announced_cost :: "node_config \<Rightarrow> nat option" where
  "announced_cost cfg = (case tp_stamp_cost (cf_default cfg) of Some c \<Rightarrow> if 0 < c then Some c else None | None \<Rightarrow> None)"

definition subscribe_request :: "'i ident_env \<Rightarrow> txn \<Rightarrow> secs \<Rightarrow> secs \<Rightarrow> bytes \<Rightarrow> 'w fed_node \<Rightarrow>
    (subscribe_refusal + nat option) \<times> 'w fed_node" where
  "subscribe_request env r t t' d node = (case verify_signed_payload env d of
      Inl e \<Rightarrow> (Inl (Unsigned e), node)
    | Inr (chan, sub, _) \<Rightarrow>
        if length chan \<noteq> 16 then (Inl (BadChannelHash (length chan)), node)
        else if nd_poisoned node then (Inl NodeUnavailable, node)
        else if \<not> tp_allow_subscription (policy_for (nd_config node) sub) then (Inl (PolicyRefused sub), node)
        else (case nd_distros node of
            None \<Rightarrow> (Inl (DistroTableUnavailable chan), node)
          | Some distros \<Rightarrow>
              if is_distro chan distros then (Inl (DistroHash chan sub), node)
              else if is_distro (ie_dest_hash env (Some sub) ''lxmf'' [''delivery'']) distros
              then (Inl (DistroSubscriber chan sub), node)
              else (Inr (announced_cost (nd_config node)),
                node\<lparr>nd_subs := map_option (subscribe r t t' sub chan) (nd_subs node),
                     nd_pending_backups := map_option (\<lambda>q. if length q < PENDING_BACKUP_CAP then q @ [(sub, chan)] else q)
                       (nd_pending_backups node)\<rparr>)))"

definition subscribe_response :: "'i ident_env \<Rightarrow> txn \<Rightarrow> secs \<Rightarrow> secs \<Rightarrow> bytes \<Rightarrow> 'w fed_node \<Rightarrow> msg_value \<times> 'w fed_node" where
  "subscribe_response env r t t' d node = (case subscribe_request env r t t' d node of
      (Inl _, node') \<Rightarrow> (MBool False, node')
    | (Inr cost, node') \<Rightarrow> (MArr [MBool True, case cost of Some c \<Rightarrow> MInt (int c) | None \<Rightarrow> MNil], node'))"

definition unsubscribe_request :: "'i ident_env \<Rightarrow> txn \<Rightarrow> bytes \<Rightarrow> 'w fed_node \<Rightarrow> msg_value \<times> 'w fed_node" where
  "unsubscribe_request env r d node = (case verify_signed_payload env d of
      Inl _ \<Rightarrow> (MBool False, node)
    | Inr (chan, sub, _) \<Rightarrow> (MBool True, if nd_poisoned node then node
        else node\<lparr>nd_subs := map_option (unsubscribe r sub chan) (nd_subs node)\<rparr>))"

section \<open>Publishing\<close>

text \<open>\<open>LXStamper\<close>: the size of a stamp, the workblock of an id, whether a stamp meets a cost, and the old form of a stamp.\<close>

record stamper =
  sp_size :: nat
  sp_workblock :: "bytes \<Rightarrow> nat \<Rightarrow> bytes"
  sp_valid :: "bytes \<Rightarrow> nat \<Rightarrow> bytes \<Rightarrow> bool"
  sp_legacy :: "bytes \<Rightarrow> bytes \<Rightarrow> nat \<Rightarrow> nat \<Rightarrow> bool"

definition STAMP_EXPAND_ROUNDS :: nat where "STAMP_EXPAND_ROUNDS = 16"

text \<open>The channel and the blob of a send, or why it is refused.\<close>

definition open_channel_send :: "stamper \<Rightarrow> (bytes \<Rightarrow> bytes) \<Rightarrow> nat option \<Rightarrow> nat option \<Rightarrow> bytes \<Rightarrow> string + bytes \<times> bytes" where
  "open_channel_send sp full_hash stamp_cost flexibility d =
     (if length d < 17 then Inl ''too_short''
      else (case stamp_cost of
          None \<Rightarrow> Inr (take 16 d, drop 16 d)
        | Some cost \<Rightarrow>
            if length d < 16 + sp_size sp + 1 then Inl ''stamp_too_short''
            else (let start = length d - sp_size sp;
                      stamp = drop start d; material = take start d;
                      tid = full_hash material;
                      workblock = sp_workblock sp tid STAMP_EXPAND_ROUNDS;
                      min_cost = cost - (case flexibility of Some f \<Rightarrow> f | None \<Rightarrow> 0)
                  in if \<not> sp_valid sp stamp min_cost workblock
                     then Inl (if sp_legacy sp tid stamp min_cost STAMP_EXPAND_ROUNDS then ''stamp_legacy'' else ''stamp_invalid'')
                     else Inr (take 16 d, drop 16 material))))"

text \<open>What the blob store meets when a blob is stored.\<close>

record blob_io =
  bo_random_id :: bytes
  bo_rm :: "bytes \<times> bytes \<Rightarrow> bool"
  bo_write :: file_write
  bo_time :: secs
  bo_time' :: secs

definition store_blob :: "blob_io \<Rightarrow> bytes \<Rightarrow> bytes \<Rightarrow> 'w fed_node \<Rightarrow> bytes option \<times> 'w fed_node" where
  "store_blob bo chan blob node =
     (if nd_poisoned node then (None, node)
      else (case nd_blobs node of
          None \<Rightarrow> (None, node)
        | Some s \<Rightarrow> (case BlobStore.store (bo_random_id bo) (bo_rm bo) (bo_write bo) (bo_time bo) (bo_time' bo) chan blob s of
            (Inl _, s') \<Rightarrow> (None, node\<lparr>nd_blobs := Some s'\<rparr>)
          | (Inr i, s') \<Rightarrow> (Some i, node\<lparr>nd_blobs := Some s'\<rparr>))))"

text \<open>\<open>stamp_cost\<close> and \<open>flexibility\<close> are those read when the destination was wired.\<close>

definition ingest_channel_send :: "stamper \<Rightarrow> blob_io \<Rightarrow> 'i fan_io \<Rightarrow> txn \<Rightarrow> secs \<Rightarrow> nat option \<Rightarrow> nat option \<Rightarrow> bytes \<Rightarrow> 'w fed_node \<Rightarrow>
    (string + 'i fan_report) \<times> 'w fed_node" where
  "ingest_channel_send sp bo io r t stamp_cost flexibility d node =
     (case open_channel_send sp (io_hash io) stamp_cost flexibility d of
        Inl why \<Rightarrow> (Inl why, node)
      | Inr (chan, blob) \<Rightarrow> (case store_blob bo chan blob node of
          (None, node1) \<Rightarrow> (Inl ''store_failed'', node1)
        | (Some _, node1) \<Rightarrow> (case plan_channel_fanout r t chan node1 of
            (plan, node2) \<Rightarrow> (case run_channel_plan io chan blob plan node2 of
              (report, node3) \<Rightarrow> (Inr report, node3)))))"

definition publish_request :: "stamper \<Rightarrow> blob_io \<Rightarrow> 'i fan_io \<Rightarrow> txn \<Rightarrow> secs \<Rightarrow> nat option \<Rightarrow> nat option \<Rightarrow> bytes \<Rightarrow> 'w fed_node \<Rightarrow>
    msg_value \<times> 'w fed_node" where
  "publish_request sp bo io r t stamp_cost flexibility d node =
     (case ingest_channel_send sp bo io r t stamp_cost flexibility d node of
        (Inr _, node') \<Rightarrow> (encode_ok_reason True None, node')
      | (Inl why, node') \<Rightarrow> (encode_ok_reason False (Some why), node'))"

section \<open>Distro requests\<close>

datatype registration_error = BadSignedPayload payload_error | DeviceKeyLength nat | DistroKeyLength nat | BadDistroKey | BadDeviceKey

text \<open>\<open>r\<close> and \<open>r'\<close> are the transactions on the device table and on the announces.\<close>

definition handle_distro_registration :: "'i ident_env \<Rightarrow> txn \<Rightarrow> txn \<Rightarrow> secs \<Rightarrow> bool \<Rightarrow> bytes \<Rightarrow> 'w fed_node \<Rightarrow>
    (registration_error option + bool) \<times> 'w fed_node" where
  "handle_distro_registration env r r' t register d node = (case verify_signed_payload env d of
      Inl e \<Rightarrow> (Inl (Some (BadSignedPayload e)), node)
    | Inr (pubkey, _, distro_key) \<Rightarrow>
        if length pubkey \<noteq> 64 then (Inl (Some (DeviceKeyLength (length pubkey))), node)
        else if length distro_key \<noteq> 64 then (Inl (Some (DistroKeyLength (length distro_key))), node)
        else (case delivery_of_key env distro_key of
            None \<Rightarrow> (Inl (Some BadDistroKey), node)
          | Some distro \<Rightarrow> (case delivery_of_key env pubkey of
              None \<Rightarrow> (Inl (Some BadDeviceKey), node)
            | Some device \<Rightarrow>
                if nd_poisoned node then (Inl None, node)
                else (Inr True, case nd_distros node of
                    None \<Rightarrow> node
                  | Some table \<Rightarrow>
                      if register then node\<lparr>nd_distros := Some (register_device r t distro device pubkey table)\<rparr>
                      else (let table' = unregister_device r distro device table
                        in node\<lparr>nd_distros := Some table', nd_announces :=
                             (if is_distro distro table' then nd_announces node
                              else map_option (announce_remove r' distro) (nd_announces node))\<rparr>)))))"

definition distro_registration_request :: "'i ident_env \<Rightarrow> txn \<Rightarrow> txn \<Rightarrow> secs \<Rightarrow> bool \<Rightarrow> bytes \<Rightarrow> 'w fed_node \<Rightarrow> msg_value \<times> 'w fed_node" where
  "distro_registration_request env r r' t register d node = (case handle_distro_registration env r r' t register d node of
      (Inl _, node') \<Rightarrow> (MBool False, node') | (Inr ok, node') \<Rightarrow> (MBool ok, node'))"

definition distro_list_request :: "'i ident_env \<Rightarrow> bytes \<Rightarrow> 'w fed_node \<Rightarrow> bytes list" where
  "distro_list_request env d node = (case verify_signed_payload env d of
      Inl _ \<Rightarrow> []
    | Inr (_, _, distro_key) \<Rightarrow> (case delivery_of_key env distro_key of
        None \<Rightarrow> []
      | Some distro \<Rightarrow>
          if nd_poisoned node then []
          else (case nd_distros node of None \<Rightarrow> [] | Some table \<Rightarrow> map di_device (devices_snapshot distro table))))"

text \<open>
  \<open>delivery_of\<close> and \<open>validate\<close> are as \<open>verify_distro_announce\<close> takes them. The handler checks that
  the distro has a device and stores the announce in two critical sections: another handler can
  run between \<open>announce_has_device\<close> and \<open>store_distro_announce\<close>. The announce stored is also
  replayed at once; the answer does not depend on that.
\<close>

definition open_distro_announce :: "'i ident_env \<Rightarrow> (bytes \<Rightarrow> (bytes \<times> bytes) option) \<Rightarrow> (bytes \<Rightarrow> bytes \<Rightarrow> bytes \<Rightarrow> bool) \<Rightarrow>
    bytes \<Rightarrow> (bytes \<times> bytes \<times> bool) option" where
  "open_distro_announce env delivery_of validate d = (case verify_signed_payload env d of
      Inl _ \<Rightarrow> None
    | Inr (payload, _, distro_key) \<Rightarrow> (case parse_distro_announce_payload payload of
        Inl _ \<Rightarrow> None
      | Inr (ratchet, ann) \<Rightarrow> (case verify_distro_announce delivery_of validate ann ratchet distro_key of
          Inl _ \<Rightarrow> None
        | Inr distro \<Rightarrow> Some (distro, ann, ratchet))))"

definition announce_has_device :: "bytes \<Rightarrow> 'w fed_node \<Rightarrow> bool" where
  "announce_has_device distro node =
     (\<not> nd_poisoned node \<and> (case nd_distros node of Some table \<Rightarrow> is_distro distro table | None \<Rightarrow> False))"

definition store_distro_announce :: "txn \<Rightarrow> secs \<Rightarrow> bytes \<times> bytes \<times> bool \<Rightarrow> 'w fed_node \<Rightarrow>
    (msg_value \<times> distro_announce option) \<times> 'w fed_node" where
  "store_distro_announce r t ann node = (case ann of (distro, d, ratchet) \<Rightarrow> (case nd_announces node of
      None \<Rightarrow> ((MBool True, None), node)
    | Some held \<Rightarrow> (let held' = announce_put r t distro d ratchet held
        in ((MBool True, announce_get distro held'), node\<lparr>nd_announces := Some held'\<rparr>))))"

definition distro_announce_request :: "'i ident_env \<Rightarrow> (bytes \<Rightarrow> (bytes \<times> bytes) option) \<Rightarrow> (bytes \<Rightarrow> bytes \<Rightarrow> bytes \<Rightarrow> bool) \<Rightarrow>
    txn \<Rightarrow> secs \<Rightarrow> bytes \<Rightarrow> 'w fed_node \<Rightarrow> (msg_value \<times> distro_announce option) \<times> 'w fed_node" where
  "distro_announce_request env delivery_of validate r t d node = (case open_distro_announce env delivery_of validate d of
      None \<Rightarrow> ((MBool False, None), node)
    | Some (distro, ann, ratchet) \<Rightarrow>
        if announce_has_device distro node then store_distro_announce r t (distro, ann, ratchet) node
        else ((MBool False, None), node))"

section \<open>Backups\<close>

definition adopted_pairs_for_chain_extension :: "(bytes \<times> bytes \<times> bytes) list \<Rightarrow> bytes \<Rightarrow> (bytes \<times> bytes) list" where
  "adopted_pairs_for_chain_extension adopted backup =
     List.map_filter (\<lambda>(sub, chan, owner). if owner = backup then None else Some (sub, chan)) adopted"

text \<open>\<open>pairs\<close> decodes the signed value (\<open>rmp_serde\<close>); \<open>r n\<close> and \<open>t n\<close> are those of the n-th pair stored.\<close>

fun store_backup_pairs :: "(nat \<Rightarrow> txn) \<Rightarrow> (nat \<Rightarrow> secs) \<Rightarrow> nat \<Rightarrow> bytes \<Rightarrow> (bytes \<times> bytes) list \<Rightarrow> subscription_table \<Rightarrow> subscription_table" where
  "store_backup_pairs r t n owner [] s = s"
| "store_backup_pairs r t n owner ((sub, chan) # ps) s =
     store_backup_pairs r t (Suc n) owner ps (subscribe_backup (r n) (t n) sub chan owner s)"

definition backup_push_request :: "'i ident_env \<Rightarrow> (bytes \<Rightarrow> (bytes \<times> bytes) list option) \<Rightarrow> (nat \<Rightarrow> txn) \<Rightarrow> (nat \<Rightarrow> secs) \<Rightarrow>
    bytes \<Rightarrow> 'w fed_node \<Rightarrow> msg_value \<times> 'w fed_node" where
  "backup_push_request env pairs r t d node = (case verify_signed_payload env d of
      Inl _ \<Rightarrow> (MBool False, node)
    | Inr (payload, _, pubkey) \<Rightarrow> (case ie_from_key env pubkey of
        None \<Rightarrow> (MBool False, node)
      | Some i \<Rightarrow> (case ie_out_hash env i ''rfed'' [''node''] of
          None \<Rightarrow> (MBool False, node)
        | Some owner \<Rightarrow> (case pairs payload of
            None \<Rightarrow> (MBool False, node)
          | Some ps \<Rightarrow>
              if nd_poisoned node then (MBool False, node)
              else if cf_trusted_backups (nd_config node) \<noteq> [] \<and> owner \<notin> set (cf_trusted_backups (nd_config node))
              then (MBool False, node)
              else (case nd_distros node of
                  None \<Rightarrow> (MBool False, node)
                | Some table \<Rightarrow>
                    (let distros = registered_distro_hashes table;
                         kept = filter (\<lambda>(sub, chan). chan \<notin> distros \<and> ie_dest_hash env (Some sub) ''lxmf'' [''delivery''] \<notin> distros) ps
                     in (MBool True, node\<lparr>nd_subs := map_option (store_backup_pairs r t 0 owner kept) (nd_subs node)\<rparr>)))))))"

text \<open>Grouped by owner, each group in the order of the rows.\<close>

fun group_by_owner :: "(bytes \<times> bytes \<times> bytes) list \<Rightarrow> (bytes, (bytes \<times> bytes) list) hmap \<Rightarrow> (bytes, (bytes \<times> bytes) list) hmap" where
  "group_by_owner [] m = m"
| "group_by_owner ((sub, chan, owner) # rows) m =
     group_by_owner rows (hput owner ((case hget m owner of None \<Rightarrow> [] | Some ps \<Rightarrow> ps) @ [(sub, chan)]) m)"

text \<open>What the tick has gathered: the rows adopted, the wakes owed, and the queue.\<close>

record backup_state =
  bk_adopted :: "(bytes \<times> bytes \<times> bytes) list"
  bk_wakes :: "(notify_registration \<times> bytes) list"
  bk_queue :: "deferred_queue option"

definition channel_blobs :: "bytes \<Rightarrow> blob_store option \<Rightarrow> (bytes \<times> bytes) list" where
  "channel_blobs chan blobs = (case blobs of
      None \<Rightarrow> []
    | Some s \<Rightarrow> List.map_filter (\<lambda>i. map_option (\<lambda>b. (chan, b)) (get_blob i s)) (message_ids_for_channel chan s))"

text \<open>\<open>io sub chan\<close> gives the transactions and clock readings of the enqueues for that row.\<close>

definition backup_row :: "(bytes option \<Rightarrow> string \<Rightarrow> string list \<Rightarrow> bytes) \<Rightarrow> (deferred_row list \<Rightarrow> int) \<Rightarrow> (bytes \<Rightarrow> bytes \<Rightarrow> nat \<Rightarrow> txn \<times> secs) \<Rightarrow>
    'w fed_node \<Rightarrow> bytes \<Rightarrow> bytes \<times> bytes \<Rightarrow> backup_state \<Rightarrow> backup_state" where
  "backup_row dest_hash nid io node owner row b = (case row of (sub, chan) \<Rightarrow>
     if (case bk_queue b of Some q \<Rightarrow> has_pending sub q | None \<Rightarrow> False)
     then b\<lparr>bk_adopted := bk_adopted b @ [(sub, chan, owner)]\<rparr>
     else (let blobs = channel_blobs chan (nd_blobs node) in
       if blobs = [] then b
       else (case bk_queue b of
           None \<Rightarrow> b
         | Some q \<Rightarrow>
             (let offered = map (\<lambda>(n, blob). (io sub chan n, blob)) (enumerate 0 blobs);
                  (_, q') = enqueue_all nid sub offered (tp_queue_limit (policy_for (nd_config node) sub)) tally_default q;
                  regs = (case nd_notify node of
                    Some g \<Rightarrow> map (\<lambda>reg. (reg, chan)) (get_for_channel (notify_key dest_hash sub) (Some chan) g) | None \<Rightarrow> [])
              in b\<lparr>bk_adopted := bk_adopted b @ [(sub, chan, owner)], bk_wakes := bk_wakes b @ regs, bk_queue := Some q'\<rparr>))))"

definition owner_recently_heard :: "secs \<Rightarrow> bytes \<Rightarrow> 'w fed_node \<Rightarrow> bool" where
  "owner_recently_heard t owner node = (case nd_sync node of
      None \<Rightarrow> False
    | Some fs \<Rightarrow> (case hget (fs_peers fs) owner of
        None \<Rightarrow> False | Some p \<Rightarrow> fp_alive p \<and> t - fp_last_heard p < cf_owner_offline (nd_config node)))"

definition backup_owner :: "(bytes option \<Rightarrow> string \<Rightarrow> string list \<Rightarrow> bytes) \<Rightarrow> (deferred_row list \<Rightarrow> int) \<Rightarrow> (bytes \<Rightarrow> bytes \<Rightarrow> nat \<Rightarrow> txn \<times> secs) \<Rightarrow>
    (bytes \<Rightarrow> secs) \<Rightarrow> 'w fed_node \<Rightarrow> bytes \<times> (bytes \<times> bytes) list \<Rightarrow> backup_state \<Rightarrow> backup_state" where
  "backup_owner dest_hash nid io t node owned b = (case owned of (owner, rows) \<Rightarrow>
     if owner_recently_heard (t owner) owner node then b else fold (backup_row dest_hash nid io node owner) rows b)"

definition backup_delivery_tick :: "(bytes option \<Rightarrow> string \<Rightarrow> string list \<Rightarrow> bytes) \<Rightarrow> (deferred_row list \<Rightarrow> int) \<Rightarrow> (bytes \<Rightarrow> bytes \<Rightarrow> nat \<Rightarrow> txn \<times> secs) \<Rightarrow>
    (bytes \<Rightarrow> secs) \<Rightarrow> 'w fed_node \<Rightarrow> backup_state" where
  "backup_delivery_tick dest_hash nid io t node =
     (let none = \<lparr>bk_adopted = [], bk_wakes = [], bk_queue = nd_queue node\<rparr>;
          entries = (case nd_subs node of Some s \<Rightarrow> backup_entries_for_tick s | None \<Rightarrow> [])
      in if entries = [] then none
         else (case nd_distros node of
             None \<Rightarrow> none
           | Some table \<Rightarrow>
               (let distros = registered_distro_hashes table;
                    rows = filter (\<lambda>(_, chan, _). chan \<notin> distros) entries
                in fold (backup_owner dest_hash nid io t node) (group_by_owner rows []) none)))"

section \<open>Choosing a backup node, and the pushes to it\<close>

definition peer_alive :: "fed_sync option \<Rightarrow> bytes \<Rightarrow> bool" where
  "peer_alive sync h = (case sync of
      None \<Rightarrow> False | Some fs \<Rightarrow> (case hget (fs_peers fs) h of Some p \<Rightarrow> fp_alive p | None \<Rightarrow> False))"

definition auto_select :: "fed_sync option \<Rightarrow> bytes list \<Rightarrow> bytes option \<times> bytes list" where
  "auto_select sync selected =
     (if (case selected of h # _ \<Rightarrow> peer_alive sync h | [] \<Rightarrow> False) then (Some (hd selected), selected)
      else (case sync of
          None \<Rightarrow> (None, [])
        | Some fs \<Rightarrow> (case max_by (\<lambda>p p'. fp_last_heard p \<le> fp_last_heard p') (filter fp_alive (map snd (fs_peers fs))) of
            Some p \<Rightarrow> (Some (fp_dest p), [fp_dest p])
          | None \<Rightarrow> (None, []))))"

definition resolve_backup :: "node_config \<Rightarrow> fed_sync option \<Rightarrow> bytes list \<Rightarrow> bytes option \<times> bytes list" where
  "resolve_backup cfg sync selected =
     (if (case cf_primary cfg of Some h \<Rightarrow> peer_alive sync h | None \<Rightarrow> False) then (cf_primary cfg, selected)
      else (case List.find (peer_alive sync) (cf_secondaries cfg) of
          Some h \<Rightarrow> (Some h, selected)
        | None \<Rightarrow> (case cf_primary cfg of
            Some h \<Rightarrow> (Some h, selected)
          | None \<Rightarrow> (case cf_secondaries cfg of
              h # _ \<Rightarrow> (Some h, selected)
            | [] \<Rightarrow> auto_select sync selected))))"

text \<open>
  A push in flight: the node it goes to and its pairs. \<open>opened\<close> says whether the link could be
  opened and the pairs signed; if not they are put back at once.
\<close>

type_synonym backup_push = "bytes \<times> (bytes \<times> bytes) list"

definition requeue_backup_pairs :: "(bytes \<times> bytes) list \<Rightarrow> 'w fed_node \<Rightarrow> 'w fed_node" where
  "requeue_backup_pairs pairs node =
     (if pairs = [] then node else node\<lparr>nd_pending_backups := map_option (\<lambda>q. q @ pairs) (nd_pending_backups node)\<rparr>)"

definition push_subscriptions_to_backup :: "bool \<Rightarrow> bytes \<Rightarrow> (bytes \<times> bytes) list \<Rightarrow> 'w fed_node \<Rightarrow> backup_push list \<times> 'w fed_node" where
  "push_subscriptions_to_backup opened backup pairs node =
     (if opened then ([(backup, pairs)], node) else ([], requeue_backup_pairs pairs node))"

text \<open>What becomes of a push: the answer decodes as \<open>true\<close>, it does not, it fails, it cannot be sent, or its link never comes up.\<close>

datatype push_end = PushAccepted | PushRejected | PushFailed | PushNotSent | LinkNeverUp

definition end_backup_push :: "push_end \<Rightarrow> backup_push \<Rightarrow> 'w fed_node \<Rightarrow> 'w fed_node" where
  "end_backup_push e push node = (case e of
      PushAccepted \<Rightarrow> node
    | LinkNeverUp \<Rightarrow> node
    | PushRejected \<Rightarrow> requeue_backup_pairs (snd push) node
    | PushFailed \<Rightarrow> requeue_backup_pairs (snd push) node
    | PushNotSent \<Rightarrow> requeue_backup_pairs (snd push) node)"

text \<open>The two pushes of the tick: the pairs waiting, and those of the rows adopted.\<close>

definition push_pending :: "bool \<Rightarrow> bytes option \<Rightarrow> 'w fed_node \<Rightarrow> backup_push list \<times> 'w fed_node" where
  "push_pending opened backup node =
     (let pending = (case nd_pending_backups node of Some q \<Rightarrow> q | None \<Rightarrow> []);
          node' = node\<lparr>nd_pending_backups := map_option (\<lambda>_. []) (nd_pending_backups node)\<rparr>
      in if pending = [] then ([], node')
         else (case backup of
             Some h \<Rightarrow> push_subscriptions_to_backup opened h pending node'
           | None \<Rightarrow> ([], requeue_backup_pairs pending node')))"

definition extend_chain :: "bool \<Rightarrow> bytes option \<Rightarrow> (bytes \<times> bytes \<times> bytes) list \<Rightarrow> 'w fed_node \<Rightarrow> backup_push list \<times> 'w fed_node" where
  "extend_chain opened backup adopted node = (case backup of
      None \<Rightarrow> ([], node)
    | Some h \<Rightarrow> (let repush = adopted_pairs_for_chain_extension adopted h in
        if repush = [] then ([], node) else push_subscriptions_to_backup opened h repush node))"

text \<open>\<open>opened n\<close> is whether the n-th push of the tick could be opened, \<open>r\<close> and \<open>now\<close> those of the pruning.\<close>

definition tick_backup_delivery :: "(bytes option \<Rightarrow> string \<Rightarrow> string list \<Rightarrow> bytes) \<Rightarrow> (deferred_row list \<Rightarrow> int) \<Rightarrow> (bytes \<Rightarrow> bytes \<Rightarrow> nat \<Rightarrow> txn \<times> secs) \<Rightarrow>
    (bytes \<Rightarrow> secs) \<Rightarrow> (nat \<Rightarrow> bool) \<Rightarrow> txn \<Rightarrow> secs \<Rightarrow> 'w fed_node \<Rightarrow>
    ((notify_registration \<times> bytes) list \<times> backup_push list) \<times> 'w fed_node" where
  "tick_backup_delivery dest_hash nid io t opened r now node =
     (let (backup, selected) = resolve_backup (nd_config node) (nd_sync node) (nd_selected_backups node);
          (pushes, node1) = push_pending (opened 0) backup (node\<lparr>nd_selected_backups := selected\<rparr>);
          ttl = max (cf_owner_offline (nd_config node) * 2) 90;
          node2 = node1\<lparr>nd_subs := map_option (\<lambda>s. snd (prune_stale_backups r now ttl s)) (nd_subs node1)\<rparr>;
          b = backup_delivery_tick dest_hash nid io t node2;
          (pushes', node3) = extend_chain (opened 1) backup (bk_adopted b) (node2\<lparr>nd_queue := bk_queue b\<rparr>)
      in ((bk_wakes b, pushes @ pushes'), node3))"

section \<open>Channel sync with peers\<close>

text \<open>What the tick finds when it would open a link to a peer; \<open>LinkOpening\<close> carries the link.\<close>

datatype sync_open = NoRouteYet | PeerKeyUnknown | NoPeerDestination | NoLinkMade | NotInitiated | LinkOpening bytes

definition with_sync :: "(fed_sync \<Rightarrow> fed_sync) \<Rightarrow> 'w fed_node \<Rightarrow> 'w fed_node" where
  "with_sync f node = node\<lparr>nd_sync := map_option f (nd_sync node)\<rparr>"

definition retry_soon :: "secs \<Rightarrow> bytes \<Rightarrow> 'w fed_node \<Rightarrow> 'w fed_node" where
  "retry_soon t peer node = with_sync (on_peer peer (\<lambda>p. p\<lparr>fp_next := t + 5\<rparr>)) node"

definition open_sync_link :: "(bytes \<Rightarrow> sync_open) \<Rightarrow> (bytes \<Rightarrow> secs) \<Rightarrow> bytes \<Rightarrow> 'w fed_node \<Rightarrow> 'w fed_node" where
  "open_sync_link reach t peer node =
     (if hget (nd_sync_links node) peer \<noteq> None then node
      else (case reach peer of
          NoRouteYet \<Rightarrow> retry_soon (t peer) peer node
        | PeerKeyUnknown \<Rightarrow> retry_soon (t peer) peer node
        | NoPeerDestination \<Rightarrow> node
        | NoLinkMade \<Rightarrow> node
        | NotInitiated \<Rightarrow> node
        | LinkOpening l \<Rightarrow> (with_sync (sync_started (t peer) peer) node)\<lparr>nd_sync_links := hput peer l (nd_sync_links node)\<rparr>))"

definition tick_channel_sync :: "(bytes \<Rightarrow> bool) \<Rightarrow> (bytes \<Rightarrow> sync_open) \<Rightarrow> secs \<Rightarrow> (bytes \<Rightarrow> secs) \<Rightarrow> 'w fed_node \<Rightarrow> 'w fed_node" where
  "tick_channel_sync alive reach now t node =
     (let node1 = node\<lparr>nd_sync_links := filter (\<lambda>(_, l). alive l) (nd_sync_links node)\<rparr>
      in case nd_sync node1 of
           None \<Rightarrow> node1
         | Some fs \<Rightarrow> (case tick now fs of
             (due_peers, fs') \<Rightarrow> fold (open_sync_link reach t) due_peers (node1\<lparr>nd_sync := Some fs'\<rparr>)))"

definition sync_link_closed :: "bytes \<Rightarrow> 'w fed_node \<Rightarrow> 'w fed_node" where
  "sync_link_closed peer node = (if nd_poisoned node then node else node\<lparr>nd_sync_links := hdel peer (nd_sync_links node)\<rparr>)"

text \<open>
  The session on the link: the ids offered, the ids wanted of what the peer answers, and what
  happens with the blobs. \<open>FedSync\<close> unwraps its locks, so the callbacks return only when the three
  tables they read are not poisoned.
\<close>

definition offered_ids :: "'w fed_node \<Rightarrow> bytes list" where
  "offered_ids node = (if nd_poisoned node then [] else case (nd_sync node, nd_blobs node, nd_subs node, nd_distros node) of
      (Some _, Some b, Some s, Some d) \<Rightarrow> map snd (local_manifest b s d) | _ \<Rightarrow> [])"

datatype session_next = AskFor "bytes list" | SessionOver bool

text \<open>\<open>answer\<close> is \<open>None\<close> without a response, else its pairs (none when they do not decode).\<close>

definition on_offer_answer :: "(bytes \<times> bytes) list option \<Rightarrow> 'w fed_node \<Rightarrow> session_next" where
  "on_offer_answer answer node = (case answer of
      None \<Rightarrow> SessionOver False
    | Some pairs \<Rightarrow>
        (let want = (if nd_poisoned node then [] else case (nd_sync node, nd_blobs node, nd_subs node, nd_distros node) of
            (Some _, Some b, Some s, Some d) \<Rightarrow> gap_from_peer b s d pairs | _ \<Rightarrow> [])
         in if want = [] then SessionOver True else AskFor want))"

definition teardown_sync :: "secs \<Rightarrow> secs \<Rightarrow> bytes \<Rightarrow> bool \<Rightarrow> 'w fed_node \<Rightarrow> 'w fed_node" where
  "teardown_sync t t' peer success node =
     (if nd_poisoned node then node
      else with_sync (if success then sync_ok t t' peer else sync_err t t' peer) node)"

definition plan_all :: "txn \<Rightarrow> secs \<Rightarrow> (bytes \<times> bytes) list \<Rightarrow> 'w fed_node \<Rightarrow> sync_dispatch list \<times> 'w fed_node" where
  "plan_all r t ingested node = fold (\<lambda>(routing, _) (ds, node).
     case plan_sync_dispatch r t routing node of (d, node') \<Rightarrow> (ds @ [d], node')) ingested ([], node)"

text \<open>\<open>io n\<close> is what the fan-out of the n-th blob meets. Every plan is made before the first fan-out runs.\<close>

definition dispatch_all :: "(nat \<Rightarrow> 'i fan_io) \<Rightarrow> (bytes \<times> bytes) list \<Rightarrow> sync_dispatch list \<Rightarrow> 'w fed_node \<Rightarrow> 'i fan_report list \<times> 'w fed_node" where
  "dispatch_all io ingested dispatches node = fold (\<lambda>(n, (routing, blob), d) (reports, node).
     case run_sync_dispatch (io n) routing blob d node of (report, node') \<Rightarrow> (reports @ [report], node'))
       (enumerate 0 (zip ingested dispatches)) ([], node)"

definition on_get_answer :: "(bytes \<Rightarrow> bytes option) \<Rightarrow> (bytes \<times> bytes \<Rightarrow> bool) \<Rightarrow> (bytes \<Rightarrow> file_write \<times> secs \<times> secs) \<Rightarrow>
    (nat \<Rightarrow> 'i fan_io) \<Rightarrow> txn \<Rightarrow> secs \<Rightarrow> secs \<Rightarrow> secs \<Rightarrow> bytes \<Rightarrow> bytes option \<Rightarrow> 'w fed_node \<Rightarrow> 'i fan_report list \<times> 'w fed_node" where
  "on_get_answer unwrap rm files io r t t1 t2 peer answer node =
     (let d = (case answer of None \<Rightarrow> [] | Some d \<Rightarrow> d);
          (ingested, node1) = (if nd_poisoned node then ([], node) else case (nd_sync node, nd_blobs node) of
             (Some _, Some b) \<Rightarrow> (case ingest_message_get_response unwrap rm files d b of (new, b') \<Rightarrow> (new, node\<lparr>nd_blobs := Some b'\<rparr>))
           | _ \<Rightarrow> ([], node));
          (reports, node2) = (if ingested = [] \<or> nd_poisoned node1 then ([], node1)
            else (case plan_all r t ingested node1 of (ds, node') \<Rightarrow> dispatch_all io ingested ds node'))
      in (reports, teardown_sync t1 t2 peer True node2))"

section \<open>Capabilities\<close>

text \<open>The \<open>/rfed/capabilities\<close> map; \<open>build\<close> is the build stamp.\<close>

definition capabilities :: "string \<Rightarrow> node_config \<Rightarrow> (string \<times> msg_value) list" where
  "capabilities build cfg =
     [(''protocol_version'', MInt 1), (''display_name'', MStr (cf_display_name cfg)), (''build'', MStr build),
      (''subscription'', MBool (tp_allow_subscription (cf_default cfg))),
      (''notify'', MBool (tp_allow_notify (cf_default cfg))),
      (''lxmf_propagation'', MBool (cf_propagation cfg)),
      (''channel_stream'', MBool True), (''propagation_stream'', MBool (cf_propagation cfg)),
      (''distro'', MBool True), (''distro_sync'', MBool (cf_propagation cfg)),
      (''backup'', MBool (cf_primary cfg \<noteq> None \<or> cf_secondaries cfg \<noteq> [])),
      (''stamp_cost'', case announced_cost cfg of Some c \<Rightarrow> MInt (int c) | None \<Rightarrow> MNil)]"

end
