(* ===== verification/FedNode_Props.thy ===== *)
theory FedNode_Props
  imports FedNode Fanout_Props DeferredQueue_Props
begin

text \<open>
  What the node's requests promise, each across the components it touches: a distro's hash is
  never treated as a channel, what a subscribe, a pull and a notify registration do, the pairs
  that go to a backup node, and the announces replayed for distros.
\<close>

section \<open>A distro is not a channel\<close>

definition channel_entries :: "bytes \<Rightarrow> deferred_queue \<Rightarrow> (bytes \<times> pending_blob) set" where
  "channel_entries chan q = {x \<in> set (owned q). pb_channel (snd x) = chan}"

lemma renew_elsewhere:
  "c \<noteq> chan \<Longrightarrow> get_subscribers_with_owner chan (snd (renew r t sub c s)) = get_subscribers_with_owner chan s"
proof -
  assume "c \<noteq> chan"
  then have "map (\<lambda>e. (se_subscriber e, se_owner e)) (filter (\<lambda>e. se_channel e = chan)
      (map (\<lambda>e. if due t sub c e then e\<lparr>se_refreshed := t\<rparr> else e) es)) =
      map (\<lambda>e. (se_subscriber e, se_owner e)) (filter (\<lambda>e. se_channel e = chan) es)" for es
    by (induction es) (auto simp: due_def of_pair_def)
  then show ?thesis by (simp add: get_subscribers_with_owner_def renew_def Let_def)
qed

lemma subscribe_elsewhere:
  "c \<noteq> chan \<Longrightarrow> get_subscribers_with_owner chan (subscribe r t t' sub c s) = get_subscribers_with_owner chan s"
  using renew_elsewhere [of c chan r t sub s]
  by (auto simp: subscribe_def Let_def get_subscribers_with_owner_def split: prod.splits)

lemma subscribe_backup_elsewhere:
  assumes "c \<noteq> chan"
  shows "get_subscribers_with_owner chan (subscribe_backup r t sub c owner s) = get_subscribers_with_owner chan s"
proof (cases "position (\<lambda>e. of_pair sub c e \<and> se_owner e = Some owner) (st_entries s)")
  case None
  with assms show ?thesis by (simp add: subscribe_backup_def get_subscribers_with_owner_def Let_def)
next
  case (Some i)
  from position_Some [OF this] have i: "i < length (st_entries s)" "se_channel (st_entries s ! i) = c"
    by (auto simp: of_pair_def)
  have "filter (\<lambda>e. se_channel e = chan) (es[i := e]) = filter (\<lambda>e. se_channel e = chan) es"
    if "i < length es" "se_channel (es ! i) = c" "se_channel e = c" for es :: "subscription_entry list" and e
    using that assms by (induction es arbitrary: i) (auto split: nat.splits)
  with Some i show ?thesis by (simp add: subscribe_backup_def get_subscribers_with_owner_def Let_def)
qed

lemma store_pairs_elsewhere:
  "chan \<notin> snd ` set ps \<Longrightarrow>
    get_subscribers_with_owner chan (store_backup_pairs r t n owner ps s) = get_subscribers_with_owner chan s"
  by (induction ps arbitrary: n s) (auto simp: subscribe_backup_elsewhere)

lemma enqueue_elsewhere:
  assumes keys: "dq_keys q" and enq: "enqueue nid r t sub c blob cap q = (out, q')" and c: "c \<noteq> chan"
  shows "channel_entries chan q' \<subseteq> channel_entries chan q \<and> dq_keys q'"
proof (cases "out = RefusedGlobalLimit")
  case True
  with enqueue_refused [OF _ keys] enq keys show ?thesis by blast
next
  case False
  obtain evicted i where "mset (evicted_entry sub out evicted) + mset (owned q') = mset (owned q) +
      {#(sub, \<lparr>pb_channel = c, pb_blob = blob, pb_enqueued_at = t, pb_id = i, pb_ticket = dq_next_ticket q\<rparr>)#}"
    by (rule enqueue_owned [OF keys enq False]) (rule that, assumption+)
  then have "set (owned q') \<subseteq> insert (sub, \<lparr>pb_channel = c, pb_blob = blob, pb_enqueued_at = t, pb_id = i,
      pb_ticket = dq_next_ticket q\<rparr>) (set (owned q))"
    by (metis add_mset_add_single mset_subset_eq_add_right set_mset_add_mset_insert set_mset_mono set_mset_mset)
  with c have "channel_entries chan q' \<subseteq> channel_entries chan q" by (auto simp: channel_entries_def)
  moreover obtain evicted' m i' where ev: "evict_for_enqueue sub cap q = Some (evicted', out, m)"
      and q': "q' = q\<lparr>dq_queue := hput sub (bucket_of m sub @ [\<lparr>pb_channel = c, pb_blob = blob,
             pb_enqueued_at = t, pb_id = i', pb_ticket = dq_next_ticket q\<rparr>]) m,
           dq_next_ticket := Suc (dq_next_ticket q),
           dq_db := write_all r (\<lambda>rows. insert_row i' sub c blob t
             (case evicted' of Some old \<Rightarrow> if pb_id old \<noteq> 0 then delete_row (pb_id old) rows else rows
              | None \<Rightarrow> rows)) (dq_db q)\<rparr>"
    by (rule enqueue_some [OF keys enq False]) (rule that, assumption+)
  with evict_for_enqueue_some [OF keys ev] keys have "dq_keys q'" by (simp add: dq_keys_def hm.inv_put)
  ultimately show ?thesis by blast
qed

lemma enqueue_all_elsewhere:
  "dq_keys q \<Longrightarrow> chan \<notin> (fst \<circ> snd) ` set bs \<Longrightarrow> enqueue_all nid sub bs cap y q = (y', q') \<Longrightarrow>
    channel_entries chan q' \<subseteq> channel_entries chan q \<and> dq_keys q'"
proof (induction bs arbitrary: y q)
  case (Cons b bs)
  obtain r t c blob where b: "b = ((r, t), c, blob)" by (metis surj_pair)
  obtain out q1 where enq: "enqueue nid r t sub c blob cap q = (out, q1)" by (cases "enqueue nid r t sub c blob cap q")
  from Cons.prems(2) b have "c \<noteq> chan" by auto
  from enqueue_elsewhere [OF Cons.prems(1) enq this]
  have "channel_entries chan q1 \<subseteq> channel_entries chan q" "dq_keys q1" by auto
  moreover from Cons.IH [of q1] this Cons.prems b enq
  have "channel_entries chan q' \<subseteq> channel_entries chan q1 \<and> dq_keys q'" by (simp add: Let_def)
  ultimately show ?case by blast
qed simp

text \<open>What a backup tick may not have done for the channel \<open>chan\<close>.\<close>

definition untouched :: "bytes \<Rightarrow> deferred_queue option \<Rightarrow> backup_state \<Rightarrow> bool" where
  "untouched chan dq b \<longleftrightarrow> chan \<notin> (fst \<circ> snd) ` set (bk_adopted b) \<and> chan \<notin> snd ` set (bk_wakes b) \<and>
     (\<forall>q'. bk_queue b = Some q' \<longrightarrow> dq_keys q' \<and> (\<exists>q. dq = Some q \<and> channel_entries chan q' \<subseteq> channel_entries chan q))"

lemma channel_blobs_channel: "(c, blob) \<in> set (channel_blobs chan blobs) \<Longrightarrow> c = chan"
  by (auto simp: channel_blobs_def List.map_filter_def split: option.splits)

lemma backup_row_untouched:
  assumes ok: "untouched chan dq b" and c: "c \<noteq> chan"
  shows "untouched chan dq (backup_row dest_hash nid io node owner (sub, c) b)"
proof (cases "bk_queue b")
  case None
  with ok c show ?thesis by (auto simp: backup_row_def untouched_def Let_def)
next
  case (Some q)
  let ?offered = "map (\<lambda>(n, blob). (io sub c n, blob)) (enumerate 0 (channel_blobs c (nd_blobs node)))"
  let ?cap = "tp_queue_limit (policy_for (nd_config node) sub)"
  obtain y q' where all: "enqueue_all nid sub ?offered ?cap tally_default q = (y, q')" by fastforce
  have "chan \<notin> (fst \<circ> snd) ` set ?offered"
  proof
    assume "chan \<in> (fst \<circ> snd) ` set ?offered"
    then obtain n c' blob where "(n, c', blob) \<in> set (enumerate 0 (channel_blobs c (nd_blobs node)))" "c' = chan"
      by (auto simp: prod.splits)
    then have "(chan, blob) \<in> set (channel_blobs c (nd_blobs node))"
      by (auto simp: in_set_enumerate_eq intro: nth_mem [of n, THEN back_subst [where P = "\<lambda>x. x \<in> _"]])
    with channel_blobs_channel c show False by blast
  qed
  with enqueue_all_elsewhere [OF _ this all] ok Some
  have q': "channel_entries chan q' \<subseteq> channel_entries chan q" "dq_keys q'" by (auto simp: untouched_def)
  from ok Some obtain q0 where q0: "dq = Some q0" "channel_entries chan q \<subseteq> channel_entries chan q0" "dq_keys q"
    by (auto simp: untouched_def)
  show ?thesis
  proof (cases "has_pending sub q \<or> channel_blobs c (nd_blobs node) = []")
    case True
    with Some ok c show ?thesis by (auto simp: backup_row_def untouched_def Let_def)
  next
    case False
    with Some ok c q' q0 all show ?thesis
      by (auto simp: backup_row_def untouched_def Let_def split: option.splits)
  qed
qed

lemma fold_untouched:
  "untouched chan dq b \<Longrightarrow> (\<And>x b. x \<in> set xs \<Longrightarrow> untouched chan dq b \<Longrightarrow> untouched chan dq (f x b)) \<Longrightarrow>
    untouched chan dq (fold f xs b)"
  by (induction xs arbitrary: b) auto

lemma hput_set: "x \<in> set (hput k v m) \<Longrightarrow> x = (k, v) \<or> x \<in> set m"
  by (induction m) (auto split: if_splits)

lemma group_by_owner_rows:
  assumes "(owner, ps) \<in> set (group_by_owner rows m)" and "(sub, c) \<in> set ps"
  shows "(sub, c, owner) \<in> set rows \<or> (\<exists>ps'. (owner, ps') \<in> set m \<and> (sub, c) \<in> set ps')"
  using assms
proof (induction rows arbitrary: m)
  case (Cons row rows)
  obtain s' c' o' where row: "row = (s', c', o')" by (cases row)
  let ?old = "case hget m o' of None \<Rightarrow> [] | Some ps \<Rightarrow> ps"
  have old: "p \<in> set ?old \<Longrightarrow> \<exists>ps'. (o', ps') \<in> set m \<and> p \<in> set ps'" for p
    by (cases "hget m o'") (auto dest: map_of_SomeD)
  from Cons row have "(sub, c, owner) \<in> set rows \<or>
      (\<exists>ps'. (owner, ps') \<in> set (hput o' (?old @ [(s', c')]) m) \<and> (sub, c) \<in> set ps')" by simp
  then show ?case using old hput_set row by fastforce
qed auto

lemma backup_tick_untouched:
  assumes distro: "nd_distros node = Some table" "is_distro chan table" and keys: "\<And>q. nd_queue node = Some q \<Longrightarrow> dq_keys q"
  shows "untouched chan (nd_queue node) (backup_delivery_tick dest_hash nid io t node)"
proof -
  let ?none = "\<lparr>bk_adopted = [], bk_wakes = [], bk_queue = nd_queue node\<rparr>"
  let ?entries = "case nd_subs node of Some s \<Rightarrow> backup_entries_for_tick s | None \<Rightarrow> []"
  let ?rows = "filter (\<lambda>(_, chan, _). chan \<notin> registered_distro_hashes table) ?entries"
  have none: "untouched chan (nd_queue node) ?none" using keys by (auto simp: untouched_def)
  have "chan \<in> registered_distro_hashes table"
    using distro(2) by (auto simp: is_distro_def registered_distro_hashes_def list_ex_iff)
  then have other: "c \<noteq> chan" if "(owner, ps) \<in> set (group_by_owner ?rows [])" "(sub, c) \<in> set ps" for owner ps sub c
    using group_by_owner_rows [OF that] by auto
  have "untouched chan (nd_queue node) (backup_owner dest_hash nid io t node owned b)"
    if "owned \<in> set (group_by_owner ?rows [])" "untouched chan (nd_queue node) b" for owned b
  proof -
    obtain owner ps where owned: "owned = (owner, ps)" by (cases owned)
    have "untouched chan (nd_queue node) (fold (backup_row dest_hash nid io node owner) ps b)"
    proof (rule fold_untouched [OF that(2)])
      fix row b' assume "row \<in> set ps" "untouched chan (nd_queue node) b'"
      moreover obtain sub c where "row = (sub, c)" by (cases row)
      ultimately show "untouched chan (nd_queue node) (backup_row dest_hash nid io node owner row b')"
        using other [of owner ps sub c] that(1) owned backup_row_untouched by blast
    qed
    with that(2) owned show ?thesis by (simp add: backup_owner_def)
  qed
  with none have "untouched chan (nd_queue node)
      (fold (backup_owner dest_hash nid io t node) (group_by_owner ?rows []) ?none)"
    by (blast intro: fold_untouched)
  with none distro(1) show ?thesis by (simp add: backup_delivery_tick_def Let_def)
qed

text \<open>
  A small node for the witnesses. A request \<open>k # v\<close> is the value \<open>v\<close> signed with the key of 64
  bytes \<open>k\<close>; an identity is its key, its hash the first 16 bytes, also of its destinations.
\<close>

definition demo_env :: "bytes ident_env" where
  "demo_env = \<lparr>ie_read = (\<lambda>d. case d of [] \<Rightarrow> None
       | k # v \<Rightarrow> Some (MArr [MBin v, MBin (replicate 64 k), MBin (replicate 64 0)])),
     ie_from_key = Some, ie_hash = (\<lambda>i. Some (take 16 i)), ie_validate = (\<lambda>_ _ _. True),
     ie_out_hash = (\<lambda>i _ _. Some (take 16 i)), ie_dest_hash = (\<lambda>h _ _. case h of Some b \<Rightarrow> b | None \<Rightarrow> [])\<rparr>"

definition demo_config :: node_config where
  "demo_config = \<lparr>cf_display_name = ''rfed'', cf_announce_interval = 21600, cf_announce_at_start = True,
     cf_default = default_tier, cf_vip = vip_default, cf_vips = [], cf_peering_cost = None, cf_storage_limit = 1000,
     cf_transfer_limit = None, cf_sync_limit = None, cf_channel_transfer_limit = 1000, cf_channel_sync_limit = 1000,
     cf_static_peers = [], cf_from_static_only = False, cf_trusted_backups = [], cf_primary = None, cf_secondaries = [],
     cf_owner_offline = 60, cf_propagation = True, cf_autopeer = False, cf_propagation_peers = [], cf_inbound = inbound_default\<rparr>"

definition addr :: "u8 \<Rightarrow> bytes" where "addr k = replicate 16 k"

definition demo_queue :: deferred_queue where
  "demo_queue = \<lparr>dq_queue = [], dq_held = [], dq_next_page = 1, dq_next_ticket = 1, dq_in_flight = {}, dq_db = None, dq_global_limit = 4096\<rparr>"

text \<open>The distro \<open>addr 7\<close> has the device \<open>addr 8\<close>.\<close>

definition demo_distros :: distro_table where
  "demo_distros = \<lparr>dt_entries = [\<lparr>di_distro = addr 7, di_device = addr 8, di_pubkey = replicate 64 8, di_added = 0,
     di_owner = None, di_refreshed = 0\<rparr>], dt_db = None\<rparr>"

definition demo_fed :: "unit fed_node" where
  "demo_fed = \<lparr>nd_config = demo_config, nd_poisoned = False, nd_blobs = None,
     nd_subs = Some \<lparr>st_entries = [], st_db = None\<rparr>, nd_distros = Some demo_distros,
     nd_announces = Some \<lparr>as_entries = [], as_db = None\<rparr>, nd_hooks = Some [], nd_notify = Some \<lparr>ng_registrations = [], ng_db = None\<rparr>,
     nd_sync = None, nd_queue = Some demo_queue, nd_channel_streams = Some [], nd_propagation_streams = Some [],
     nd_links = Some [], nd_sync_links = [], nd_pending_backups = Some [], nd_selected_backups = [], nd_world = ()\<rparr>"

lemma run_empty_plan: "run_channel_plan io chan blob (plan_of [] node') node = (report, node'') \<Longrightarrow> node'' = node"
  by (cases node) (auto simp: run_channel_plan_def plan_run_def plan_of_def fanout_blob_def node_hand_def Let_def split: option.splits)

lemma store_blob_only: "\<exists>b. snd (store_blob bo chan blob node) = node\<lparr>nd_blobs := b\<rparr>"
proof (cases "nd_poisoned node \<or> nd_blobs node = None")
  case True
  then have "snd (store_blob bo chan blob node) = node\<lparr>nd_blobs := nd_blobs node\<rparr>" by (auto simp: store_blob_def)
  then show ?thesis by blast
next
  case False
  then obtain s where s: "nd_blobs node = Some s" "\<not> nd_poisoned node" by auto
  obtain out s' where "BlobStore.store (bo_random_id bo) (bo_rm bo) (bo_write bo) (bo_time bo) (bo_time' bo) chan blob s = (out, s')"
    by fastforce
  with s have "snd (store_blob bo chan blob node) = node\<lparr>nd_blobs := Some s'\<rparr>"
    by (simp add: store_blob_def split: sum.splits)
  then show ?thesis by blast
qed

lemma plan_for_distro:
  assumes "nd_distros node = Some table" and "is_distro chan table"
  shows "plan_channel_fanout r t chan node = (plan_of [] node, node)"
  using assms by (simp add: plan_channel_fanout_def judge_routing_hash_def)

lemma publish_to_distro:
  assumes distro: "nd_distros node = Some table" "is_distro chan table"
    and opened: "open_channel_send sp (io_hash io) cost flex d = Inr (chan, blob)"
  shows "\<exists>b. snd (ingest_channel_send sp bo io r t cost flex d node) = node\<lparr>nd_blobs := b\<rparr>"
proof -
  obtain b where b: "snd (store_blob bo chan blob node) = node\<lparr>nd_blobs := b\<rparr>" using store_blob_only by blast
  show ?thesis
  proof (cases "fst (store_blob bo chan blob node)")
    case None
    with b opened show ?thesis by (intro exI [of _ b]) (simp add: ingest_channel_send_def case_prod_unfold)
  next
    case (Some i)
    let ?n1 = "node\<lparr>nd_blobs := b\<rparr>"
    have "plan_channel_fanout r t chan ?n1 = (plan_of [] ?n1, ?n1)" using distro by (intro plan_for_distro) simp_all
    moreover obtain report n2 where run: "run_channel_plan io chan blob (plan_of [] ?n1) ?n1 = (report, n2)" by fastforce
    moreover from run_empty_plan [OF run] have "n2 = ?n1" .
    ultimately show ?thesis using Some b opened
      by (intro exI [of _ b]) (simp add: ingest_channel_send_def case_prod_unfold prod_eq_iff)
  qed
qed

lemma subscribe_request_rows:
  assumes "nd_distros node = Some table" and "is_distro chan table"
  shows "map_option (get_subscribers_with_owner chan) (nd_subs (snd (subscribe_request env r t t' d node))) =
    map_option (get_subscribers_with_owner chan) (nd_subs node)"
proof (cases "verify_signed_payload env d")
  case (Inr v)
  obtain c sub key where v: "v = (c, sub, key)" by (cases v)
  show ?thesis
  proof (cases "c = chan")
    case True
    with assms Inr v show ?thesis by (simp add: subscribe_request_def)
  next
    case False
    with subscribe_elsewhere [OF False] assms Inr v show ?thesis
      by (simp add: subscribe_request_def option.map_comp comp_def)
  qed
qed (simp add: subscribe_request_def)

lemma backup_push_rows:
  assumes distro: "nd_distros node = Some table" "is_distro chan table"
  shows "map_option (get_subscribers_with_owner chan) (nd_subs (snd (backup_push_request env pairs r t d node))) =
    map_option (get_subscribers_with_owner chan) (nd_subs node)"
proof -
  have chan: "chan \<in> registered_distro_hashes table"
    using distro(2) by (auto simp: is_distro_def registered_distro_hashes_def list_ex_iff)
  have "get_subscribers_with_owner chan (store_backup_pairs r t 0 owner (filter (\<lambda>(sub, c).
      c \<notin> registered_distro_hashes table \<and> q sub) ps) s) = get_subscribers_with_owner chan s" for owner q ps s
    using chan by (intro store_pairs_elsewhere) auto
  then show ?thesis using distro(1)
    by (auto simp: backup_push_request_def Let_def option.map_comp comp_def split: sum.splits option.splits)
qed

text \<open>
  C19: the hash of a distro registered at the node is never treated as a channel. No channel fan-out
  is planned for it and a blob a peer sent for it goes to the distro's devices; a publish under it
  changes nothing but the blob store; no subscribe and no backup push adds a row under it; and a
  backup tick queues no blob under it for anyone, adopts no row under it and owes it no wake.
\<close>

theorem distro_hash_never_a_channel:
  assumes "nd_distros node = Some table" and "is_distro chan table"
    and "open_channel_send sp (io_hash io) cost flex d = Inr (chan, blob)"
    and "nd_queue node = Some q" and "dq_keys q"
  shows "plan_channel_fanout r t chan node = (plan_of [] node, node) \<and> pl_subscribers (plan_of [] node) = [] \<and>
    plan_sync_dispatch r t chan node = (DispatchDistro (devices_snapshot chan table), node) \<and>
    (\<exists>b. snd (ingest_channel_send sp bo io r t cost flex d node) = node\<lparr>nd_blobs := b\<rparr>) \<and>
    map_option (get_subscribers_with_owner chan) (nd_subs (snd (subscribe_request env r t t' d' node))) =
      map_option (get_subscribers_with_owner chan) (nd_subs node) \<and>
    map_option (get_subscribers_with_owner chan) (nd_subs (snd (backup_push_request env pairs rs ts d' node))) =
      map_option (get_subscribers_with_owner chan) (nd_subs node) \<and>
    untouched chan (Some q) (backup_delivery_tick dest_hash nid bio clock node)"
proof -
  have "plan_sync_dispatch r t chan node = (DispatchDistro (devices_snapshot chan table), node)"
    using assms(1,2) by (simp add: plan_sync_dispatch_def judge_routing_hash_def)
  moreover have "untouched chan (nd_queue node) (backup_delivery_tick dest_hash nid bio clock node)"
    using assms(4,5) by (intro backup_tick_untouched [OF assms(1,2)]) simp
  moreover have "pl_subscribers (plan_of [] node) = []" by (simp add: plan_of_def)
  ultimately show ?thesis
    unfolding assms(4)
    by (intro conjI plan_for_distro [OF assms(1,2)] publish_to_distro [OF assms(1-3)]
        subscribe_request_rows [OF assms(1,2)] backup_push_rows [OF assms(1,2)]) simp_all
qed

text \<open>A stack that reaches nobody, and a proof of work that always counts.\<close>

definition demo_stack :: "nat \<Rightarrow> bytes relay_stack" where
  "demo_stack n = \<lparr>rs_has_path = (\<lambda>_. False), rs_recall = (\<lambda>_. None), rs_send = (\<lambda>_. Inr False), rs_packed = (\<lambda>_. None)\<rparr>"

definition demo_wake :: "nat \<Rightarrow> bytes wake_env" where
  "demo_wake n = \<lparr>we_decode_hex = (\<lambda>_. None), we_derive = (\<lambda>_ _ _. None), we_enc = (\<lambda>_. []), we_stack = demo_stack\<rparr>"

definition demo_io :: "bytes fan_io" where
  "demo_io = \<lparr>io_fan = \<lparr>fe_dest_hash = (\<lambda>h _ _. case h of Some b \<Rightarrow> b | None \<Rightarrow> []), fe_recall_owner = (\<lambda>_ _. False),
       fe_alive = (\<lambda>_ _. False), fe_enc = (\<lambda>_. None), fe_request = (\<lambda>_ _ _ _. False), fe_send_link = (\<lambda>_ _. Inr False),
       fe_recall = (\<lambda>_ _. None), fe_destination = Inr, fe_has_path = (\<lambda>_ _. False), fe_send_packet = (\<lambda>_ _ _. Inr False)\<rparr>,
     io_device = \<lparr>de_alive = (\<lambda>_ _. False), de_enc = (\<lambda>_. None), de_request = (\<lambda>_ _ _ _. False),
       de_send_link = (\<lambda>_ _. Inr False), de_from_public_key = (\<lambda>_. None)\<rparr>,
     io_wake = demo_wake, io_hash = take 16, io_nid = max_rowid, io_txn = (\<lambda>_. Committed), io_drop_txn = (\<lambda>_. Committed),
     io_time = (\<lambda>_. 100)\<rparr>"

definition demo_stamper :: stamper where
  "demo_stamper = \<lparr>sp_size = 32, sp_workblock = (\<lambda>d _. d), sp_valid = (\<lambda>_ _ _. True), sp_legacy = (\<lambda>_ _ _ _. False)\<rparr>"

definition demo_blob_io :: blob_io where
  "demo_blob_io = \<lparr>bo_random_id = replicate 32 1, bo_rm = (\<lambda>_. True), bo_write = Written, bo_time = 100, bo_time' = 100\<rparr>"

lemma demo_keys: "dq_keys demo_queue"
  by (simp add: dq_keys_def demo_queue_def hkeys_distinct_def)

theorem distro_hash_never_a_channel_witness:
  "plan_sync_dispatch Committed 100 (addr 7) demo_fed = (DispatchDistro (dt_entries demo_distros), demo_fed) \<and>
   (\<exists>b. snd (ingest_channel_send demo_stamper demo_blob_io demo_io Committed 100 None None (addr 7 @ [1]) demo_fed)
     = demo_fed\<lparr>nd_blobs := b\<rparr>) \<and>
   map_option (get_subscribers_with_owner (addr 7))
     (nd_subs (snd (subscribe_request demo_env Committed 100 100 (9 # addr 7) demo_fed))) = Some []"
proof -
  have opened: "open_channel_send demo_stamper (io_hash demo_io) None None (addr 7 @ [1]) = Inr (addr 7, [1])"
    by (simp add: open_channel_send_def addr_def)
  have "nd_distros demo_fed = Some demo_distros" "is_distro (addr 7) demo_distros" "nd_queue demo_fed = Some demo_queue"
    by (simp_all add: demo_fed_def demo_distros_def is_distro_def)
  from distro_hash_never_a_channel [OF this(1,2) opened this(3) demo_keys, where bo = demo_blob_io and r = Committed and t = 100
      and t' = 100 and env = demo_env and d' = "9 # addr 7" and pairs = "\<lambda>_. None" and rs = "\<lambda>_. Committed" and ts = "\<lambda>_. 100"
      and dest_hash = "\<lambda>_ _ _. []" and nid = max_rowid and bio = "\<lambda>_ _ _. (Committed, 100)" and clock = "\<lambda>_. 100"]
  show ?thesis by (simp add: devices_snapshot_def demo_distros_def demo_fed_def get_subscribers_with_owner_def)
qed

section \<open>Subscribing\<close>

text \<open>The conditions on a subscribe request, as the subscriber sees them.\<close>

definition subscribe_wanted :: "'i ident_env \<Rightarrow> 'w fed_node \<Rightarrow> bytes \<Rightarrow> (bytes \<times> bytes) option" where
  "subscribe_wanted env node d = (case verify_signed_payload env d of
      Inl _ \<Rightarrow> None
    | Inr (chan, sub, _) \<Rightarrow>
        if length chan = 16 \<and> \<not> nd_poisoned node \<and> tp_allow_subscription (policy_for (nd_config node) sub) \<and>
          (\<exists>table. nd_distros node = Some table \<and> \<not> is_distro chan table \<and>
             \<not> is_distro (ie_dest_hash env (Some sub) ''lxmf'' [''delivery'']) table)
        then Some (chan, sub) else None)"

lemma subscribe_request_wanted:
  "subscribe_request env r t t' d node = (case subscribe_wanted env node d of
      None \<Rightarrow> (fst (subscribe_request env r t t' d node), node)
    | Some (chan, sub) \<Rightarrow> (Inr (announced_cost (nd_config node)),
        node\<lparr>nd_subs := map_option (subscribe r t t' sub chan) (nd_subs node),
             nd_pending_backups := map_option (\<lambda>q. if length q < PENDING_BACKUP_CAP then q @ [(sub, chan)] else q)
               (nd_pending_backups node)\<rparr>))"
  "subscribe_wanted env node d = None \<Longrightarrow> \<exists>why. fst (subscribe_request env r t t' d node) = Inl why"
  by (auto simp: subscribe_request_def subscribe_wanted_def split: sum.splits option.splits)

lemma subscribe_held: "is_subscribed sub chan (subscribe r t t' sub chan s)"
proof -
  have "list_ex (of_pair sub chan) (map (\<lambda>e. if due t sub chan e then e\<lparr>se_refreshed := t\<rparr> else e) es) =
      list_ex (of_pair sub chan) es" for es
    by (induction es) (auto simp: of_pair_def)
  then show ?thesis by (auto simp: subscribe_def renew_def Let_def is_subscribed_def of_pair_def list_ex_iff split: prod.splits)
qed

text \<open>
  A subscribe is answered with a refusal exactly when \<open>subscribe_wanted\<close> finds no channel (not
  signed, not 16 bytes, no policy for it, the distro table unreadable, the channel or the signer a
  distro registered here, the node poisoned), and then the node is left as it was. Otherwise the
  answer carries the stamp cost to pay (none when it is configured 0), the signer is subscribed to
  the channel, the pair is queued for the backup node unless 1024 are waiting, and nothing else
  changes.
\<close>

theorem subscribe_accepts_exactly:
  "case subscribe_wanted env node d of
     None \<Rightarrow> subscribe_response env r t t' d node = (MBool False, node)
   | Some (chan, sub) \<Rightarrow> (\<exists>subs pending.
       subscribe_response env r t t' d node =
         (MArr [MBool True, case tp_stamp_cost (cf_default (nd_config node)) of None \<Rightarrow> MNil
            | Some c \<Rightarrow> if c = 0 then MNil else MInt (int c)],
          node\<lparr>nd_subs := subs, nd_pending_backups := pending\<rparr>) \<and>
       map_option (is_subscribed sub chan) subs = map_option (\<lambda>_. True) (nd_subs node) \<and>
       pending = map_option (\<lambda>q. if length q < 1024 then q @ [(sub, chan)] else q) (nd_pending_backups node))"
proof (cases "subscribe_wanted env node d")
  case None
  with subscribe_request_wanted(2) [OF None, of r t t'] subscribe_request_wanted(1) [of env r t t' d node]
  show ?thesis by (auto simp: subscribe_response_def prod_eq_iff split: sum.splits prod.splits)
next
  case (Some w)
  obtain chan sub where w: "w = (chan, sub)" by (cases w)
  from subscribe_request_wanted(1) [of env r t t' d node] Some w
  have "subscribe_request env r t t' d node = (Inr (announced_cost (nd_config node)),
      node\<lparr>nd_subs := map_option (subscribe r t t' sub chan) (nd_subs node),
           nd_pending_backups := map_option (\<lambda>q. if length q < PENDING_BACKUP_CAP then q @ [(sub, chan)] else q)
             (nd_pending_backups node)\<rparr>)" by simp
  with Some w show ?thesis
    by (auto simp: subscribe_response_def announced_cost_def PENDING_BACKUP_CAP_def option.map_comp comp_def subscribe_held
        split: option.splits intro!: exI [of _ "map_option (subscribe r t t' sub chan) (nd_subs node)"])
qed

section \<open>Pulls\<close>

lemma has_pending_bucket:
  "has_pending_matching sub wanted q \<longleftrightarrow> filter (\<lambda>e. wanted (pb_channel e)) (bucket_of (dq_queue q) sub) \<noteq> []"
  by (auto simp: has_pending_matching_def bucket_of_def list_ex_iff filter_empty_conv split: option.splits)

lemma take_page_id:
  assumes "take_page sub wanted mx budget cost q = ((i, page), q')" and "0 < dq_next_page q"
  shows "i = 0 \<longleftrightarrow> page = []"
  using assms by (auto simp: take_page_def Let_def split: option.splits prod.splits if_splits)

text \<open>
  A channel pull answers with one page of the blobs waiting for the caller under the channel
  asked, the oldest first, no more than the page size of its tier and, when there are several, no
  more bytes than one Resource segment carries; \<open>more\<close> is said exactly when some of them are left;
  the page is held until the caller proves the answer, and no entry is lost or changed, of this
  caller or another.
\<close>

theorem channel_pull_serves_a_page:
  assumes keys: "dq_keys q" and next_page: "0 < dq_next_page q" and queue: "nd_queue node = Some q"
    and "\<not> nd_poisoned node" and "length chan = 16"
    and pull: "channel_pull env max_efficient r t (Some sub) chan node = (a, node')"
  shows "\<exists>page q' i. nd_queue node' = Some q' \<and>
    (let here = \<lambda>q. filter (\<lambda>e. pb_channel e = chan) (bucket_of (dq_queue q) sub);
         answer = MArr [MArr (map (\<lambda>e. MArr [MBin chan, MBin (pb_blob e)]) page), MBool (here q' \<noteq> [])];
         limit = (case tp_pull_batch (policy_for (nd_config node) sub) of None \<Rightarrow> 25 | Some n \<Rightarrow> n)
     in a = (if page = [] then PlainAnswer answer else ProvenAnswer i answer) \<and>
        here q = page @ here q' \<and> length page \<le> limit \<and>
        (length page \<le> 1 \<or> sum_list (map pull_entry_cost page) \<le> max_efficient - 64) \<and>
        (page \<noteq> [] \<longrightarrow> hget (dq_held q') i = Some \<lparr>hp_subscriber = sub, hp_blobs = page\<rparr>)) \<and>
    mset (owned q') = mset (owned q) \<and> (\<forall>s. s \<noteq> sub \<longrightarrow> bucket_of (dq_queue q') s = bucket_of (dq_queue q) s)"
proof -
  let ?W = "\<lambda>routing. routing = chan"
  let ?limit = "pull_page_size sub node"
  obtain i page q' where take: "take_page sub ?W ?limit (pull_page_max_bytes max_efficient) pull_entry_cost q = ((i, page), q')"
    by (metis surj_pair)
  let ?n1 = "node\<lparr>nd_subs := map_option (\<lambda>s. snd (renew r t sub chan s)) (nd_subs node)\<rparr>"
  have size: "pull_page_size sub ?n1 = ?limit" by (simp add: pull_page_size_def)
  have "decode_channel_pull_request env chan = Inr chan" using assms(5) by (simp add: decode_channel_pull_request_def)
  with pull queue assms(4) size take
  have a: "a = (if i = 0 then PlainAnswer (encode_pull_response page (has_pending_matching sub ?W q'))
        else ProvenAnswer i (encode_pull_response page (has_pending_matching sub ?W q')))"
      and node': "nd_queue node' = Some q'"
    by (auto simp: channel_pull_def pull_from_queue_def pull_answer_def Let_def)
  obtain "mset (owned q') = mset (owned q)" "dq_db q' = dq_db q"
      and split: "filter (\<lambda>e. ?W (pb_channel e)) (bucket_of (dq_queue q) sub) =
           page @ filter (\<lambda>e. ?W (pb_channel e)) (bucket_of (dq_queue q') sub)"
      and "\<forall>s. s \<noteq> sub \<longrightarrow> bucket_of (dq_queue q') s = bucket_of (dq_queue q) s"
      and "page \<noteq> [] \<longrightarrow> hget (dq_held q') i = Some \<lparr>hp_subscriber = sub, hp_blobs = page\<rparr>"
      and "length page \<le> ?limit" "length page \<le> 1 \<or> sum_list (map pull_entry_cost page) \<le> pull_page_max_bytes max_efficient"
    by (rule take_page_split [OF keys take]) (rule that, assumption+)
  moreover have "map (\<lambda>e. MArr [MBin (pb_channel e), MBin (pb_blob e)]) page = map (\<lambda>e. MArr [MBin chan, MBin (pb_blob e)]) page"
  proof (rule map_cong [OF refl])
    fix e assume "e \<in> set page"
    then have "e \<in> set (filter (\<lambda>e. ?W (pb_channel e)) (bucket_of (dq_queue q) sub))" unfolding split by simp
    then show "MArr [MBin (pb_channel e), MBin (pb_blob e)] = MArr [MBin chan, MBin (pb_blob e)]" by simp
  qed
  ultimately show ?thesis using a node' take_page_id [OF take next_page]
    unfolding Let_def
    by (intro exI [of _ page] exI [of _ q'] exI [of _ i])
      (auto simp: encode_pull_response_def has_pending_bucket pull_page_size_def pull_page_max_bytes_def
        DEFAULT_PULL_PAGE_SIZE_def split: option.splits)
qed

definition pull_queue :: deferred_queue where
  "pull_queue = demo_queue\<lparr>dq_queue := [(addr 9, [\<lparr>pb_channel = addr 3, pb_blob = [5], pb_enqueued_at = 10, pb_id = 0, pb_ticket = 1\<rparr>])]\<rparr>"

theorem channel_pull_serves_a_page_witness:
  "\<exists>page q'. nd_queue (snd (channel_pull demo_env 1000 Committed 100 (Some (addr 9)) (addr 3) (demo_fed\<lparr>nd_queue := Some pull_queue\<rparr>)))
      = Some q' \<and>
    page @ filter (\<lambda>e. pb_channel e = addr 3) (bucket_of (dq_queue q') (addr 9)) = [\<lparr>pb_channel = addr 3, pb_blob = [5],
      pb_enqueued_at = 10, pb_id = 0, pb_ticket = 1\<rparr>] \<and> length page \<le> 25"
proof -
  let ?node = "demo_fed\<lparr>nd_queue := Some pull_queue\<rparr>"
  obtain a node' where pull: "channel_pull demo_env 1000 Committed 100 (Some (addr 9)) (addr 3) ?node = (a, node')" by fastforce
  have wf: "dq_keys pull_queue" "0 < dq_next_page pull_queue" "nd_queue ?node = Some pull_queue" "\<not> nd_poisoned ?node"
      "length (addr 3) = 16"
    by (simp_all add: dq_keys_def hkeys_distinct_def pull_queue_def demo_queue_def demo_fed_def addr_def)
  have here: "filter (\<lambda>e. pb_channel e = addr 3) (bucket_of (dq_queue pull_queue) (addr 9)) = [\<lparr>pb_channel = addr 3, pb_blob = [5],
      pb_enqueued_at = 10, pb_id = 0, pb_ticket = 1\<rparr>]"
    by (simp add: pull_queue_def)
  have limit: "tp_pull_batch (policy_for (nd_config ?node) (addr 9)) = None"
    by (simp add: demo_fed_def policy_for_def demo_config_def default_tier_def)
  from channel_pull_serves_a_page [OF wf pull] here limit show ?thesis
    unfolding Let_def by (auto simp: pull)
qed

section \<open>The pairs sent to a backup node\<close>

lemma backup_tick_adopts:
  assumes "x \<in> set (bk_adopted (backup_delivery_tick dest_hash nid io t node))"
  shows "\<exists>subs. nd_subs node = Some subs \<and> x \<in> set (backup_entries_for_tick subs)"
proof -
  define es where "es = (case nd_subs node of Some s \<Rightarrow> backup_entries_for_tick s | None \<Rightarrow> [])"
  let ?ok = "\<lambda>b. set (bk_adopted b) \<subseteq> set es"
  have row: "?ok (backup_row dest_hash nid io node owner (sub, c) b)" if "?ok b" "(sub, c, owner) \<in> set es" for sub c owner b
    using that by (auto simp: backup_row_def Let_def split: option.splits prod.splits)
  have rows: "?ok (fold (backup_row dest_hash nid io node owner) ps b)"
    if "?ok b" "\<forall>(sub, c) \<in> set ps. (sub, c, owner) \<in> set es" for owner ps b
    using that
  proof (induction ps arbitrary: b)
    case (Cons p ps)
    obtain sub c where "p = (sub, c)" by (cases p)
    with Cons.prems row [of b sub c owner] Cons.IH [of "backup_row dest_hash nid io node owner p b"] show ?case by simp
  qed simp
  have fold_ok: "?ok (fold (backup_owner dest_hash nid io t node) groups b)"
    if "?ok b" "\<forall>(owner, ps) \<in> set groups. \<forall>(sub, c) \<in> set ps. (sub, c, owner) \<in> set es" for groups b
    using that
  proof (induction groups arbitrary: b)
    case (Cons g groups)
    obtain owner ps where g: "g = (owner, ps)" by (cases g)
    with Cons.prems rows [of b ps owner] have "?ok (backup_owner dest_hash nid io t node g b)" by (simp add: backup_owner_def)
    with Cons show ?case by simp
  qed simp
  have groups: "\<forall>(owner, ps) \<in> set (group_by_owner (filter p es) []). \<forall>(sub, c) \<in> set ps. (sub, c, owner) \<in> set es" for p
    using group_by_owner_rows [where m = "[]"] by fastforce
  have all: "x \<in> set (bk_adopted (fold (backup_owner dest_hash nid io t node) (group_by_owner (filter p es) [])
      \<lparr>bk_adopted = [], bk_wakes = [], bk_queue = nd_queue node\<rparr>)) \<Longrightarrow> x \<in> set es" for p x
    using fold_ok [OF _ groups, of "\<lparr>bk_adopted = [], bk_wakes = [], bk_queue = nd_queue node\<rparr>" p] by auto
  from assms have "x \<in> set es"
    unfolding backup_delivery_tick_def Let_def es_def [symmetric] by (auto split: if_splits option.splits dest: all)
  then show ?thesis by (cases "nd_subs node") (auto simp: es_def)
qed

lemma pruned_entries: "set (backup_entries_for_tick (snd (prune_stale_backups r t ttl s))) \<subseteq> set (backup_entries_for_tick s)"
  by (auto simp: prune_stale_backups_def Let_def backup_entries_for_tick_def List.map_filter_def)

lemma push_or_requeue:
  assumes "push_subscriptions_to_backup opened h pairs node = (pushes, node')" and "nd_pending_backups node = Some pending"
  shows "\<exists>p. node' = node\<lparr>nd_pending_backups := Some p\<rparr> \<and> (\<forall>push \<in> set pushes. fst push = h) \<and>
    mset p + mset (concat (map snd pushes)) = mset pending + mset pairs"
proof (cases opened)
  case True
  with assms have "node' = node\<lparr>nd_pending_backups := Some pending\<rparr>" "pushes = [(h, pairs)]"
    by (auto simp: push_subscriptions_to_backup_def)
  then show ?thesis by (intro exI [of _ pending]) simp
next
  case False
  with assms have "node' = node\<lparr>nd_pending_backups := Some (pending @ pairs)\<rparr>" "pushes = []"
    by (cases "pairs = []"; simp add: push_subscriptions_to_backup_def requeue_backup_pairs_def)+
  then show ?thesis by (intro exI [of _ "pending @ pairs"]) simp
qed

lemma push_pending_keeps:
  assumes "push_pending opened backup node = (pushes, node')" and "nd_pending_backups node = Some pending"
  shows "\<exists>p. node' = node\<lparr>nd_pending_backups := Some p\<rparr> \<and> (\<forall>push \<in> set pushes. backup = Some (fst push)) \<and>
    mset p + mset (concat (map snd pushes)) = mset pending"
proof (cases "pending = [] \<or> backup = None")
  case True
  with assms have "node' = node\<lparr>nd_pending_backups := Some pending\<rparr>" "pushes = []"
    by (auto simp: push_pending_def requeue_backup_pairs_def Let_def split: if_splits)
  then show ?thesis by (intro exI [of _ pending]) simp
next
  case False
  then obtain h where h: "backup = Some h" by auto
  with False assms have push: "push_subscriptions_to_backup opened h pending (node\<lparr>nd_pending_backups := Some []\<rparr>) = (pushes, node')"
    by (simp add: push_pending_def)
  have "nd_pending_backups (node\<lparr>nd_pending_backups := Some []\<rparr>) = Some []" by simp
  from push_or_requeue [OF push this] h show ?thesis by simp metis
qed

lemma extend_chain_keeps:
  assumes "extend_chain opened backup adopted node = (pushes, node')" and "nd_pending_backups node = Some pending"
  shows "\<exists>p extra. node' = node\<lparr>nd_pending_backups := Some p\<rparr> \<and> (\<forall>push \<in> set pushes. backup = Some (fst push)) \<and>
    mset p + mset (concat (map snd pushes)) = mset pending + mset extra \<and>
    (\<forall>(sub, chan) \<in> set extra. \<exists>owner. (sub, chan, owner) \<in> set adopted \<and> backup \<noteq> Some owner)"
proof (cases backup)
  case None
  with assms have "node' = node\<lparr>nd_pending_backups := Some pending\<rparr>" "pushes = []" by (auto simp: extend_chain_def)
  then show ?thesis by (intro exI [of _ pending] exI [of _ "[]"]) simp
next
  case (Some h)
  let ?extra = "adopted_pairs_for_chain_extension adopted h"
  have from_rows: "\<forall>(sub, chan) \<in> set ?extra. \<exists>owner. (sub, chan, owner) \<in> set adopted \<and> backup \<noteq> Some owner"
    using Some by (auto simp: adopted_pairs_for_chain_extension_def List.map_filter_def split: if_splits)
  show ?thesis
  proof (cases "?extra = []")
    case True
    with Some assms have "node' = node\<lparr>nd_pending_backups := Some pending\<rparr>" "pushes = []" by (auto simp: extend_chain_def)
    then show ?thesis by (intro exI [of _ pending] exI [of _ "[]"]) simp
  next
    case False
    with Some assms have "push_subscriptions_to_backup opened h ?extra node = (pushes, node')"
      by (simp add: extend_chain_def Let_def)
    from push_or_requeue [OF this assms(2)] obtain p where "node' = node\<lparr>nd_pending_backups := Some p\<rparr>"
        "\<forall>push \<in> set pushes. fst push = h" "mset p + mset (concat (map snd pushes)) = mset pending + mset ?extra" by blast
    with Some from_rows show ?thesis by (intro exI [of _ p] exI [of _ ?extra] conjI) auto
  qed
qed



text \<open>A push whose link never comes up is dropped with its pairs, which no callback puts back.\<close>

lemma never_established_push_loses_pairs:
  "push_subscriptions_to_backup True h pairs node = ([(h, pairs)], node)"
  "end_backup_push LinkNeverUp (h, pairs) node = node"
  by (simp_all add: push_subscriptions_to_backup_def end_backup_push_def)

section \<open>Streams are opened for subscribers\<close>

lemma renew_all_subscribed:
  "fst (renew_all r t n sub chans s) \<longleftrightarrow> (\<forall>c \<in> set chans. is_subscribed sub c s)"
proof (induction chans arbitrary: n s)
  case (Cons c chans)
  have same: "is_subscribed sub c' (snd (renew (r n) (t n) sub c s)) = is_subscribed sub c' s" for c'
  proof -
    have "list_ex (of_pair sub c') (map (\<lambda>e. if due (t n) sub c e then e\<lparr>se_refreshed := t n\<rparr> else e) es) =
        list_ex (of_pair sub c') es" for es
      by (induction es) (auto simp: of_pair_def)
    then show ?thesis by (simp add: is_subscribed_def renew_def Let_def)
  qed
  have held: "fst (renew (r n) (t n) sub c s) = is_subscribed sub c s" by (simp add: renew_def is_subscribed_def Let_def)
  show ?case
  proof (cases "renew (r n) (t n) sub c s")
    case (Pair ok s')
    with same held Cons.IH [of "Suc n" s'] show ?thesis by (cases ok) auto
  qed
qed simp

text \<open>
  A channel stream is bound only for whom it is meant. An open is granted only on a link, with a
  signed list of channels of 16 bytes the signer is subscribed to, all of them; when it is not
  granted neither session book changes, and when it is the node binds exactly those channels to the
  signer on that link, in the book of the path used.
\<close>

theorem channel_stream_only_for_subscribers:
  assumes "channel_stream_open env r t on_rfed_link link d node = (answer, node')"
  shows "(answer = encode_ok_reason True None \<and>
      (\<exists>l payload sub key chans subs subs'. link = Some l \<and> verify_signed_payload env d = Inr (payload, sub, key) \<and>
        decode_channel_stream_filters env payload = Some chans \<and> nd_subs node = Some subs \<and>
        (\<forall>c \<in> set chans. is_subscribed sub c subs) \<and>
        node' = (if on_rfed_link
          then node\<lparr>nd_subs := Some subs', nd_links := map_option (\<lambda>m. snd (configure_channels l sub chans m)) (nd_links node)\<rparr>
          else node\<lparr>nd_subs := Some subs', nd_channel_streams := map_option (configure_stream l sub chans) (nd_channel_streams node)\<rparr>))) \<or>
    (\<exists>why subs'. answer = encode_ok_reason False (Some why) \<and> node' = node\<lparr>nd_subs := subs'\<rparr>)"
proof (cases "\<exists>l payload sub key chans subs. link = Some l \<and> verify_signed_payload env d = Inr (payload, sub, key) \<and>
    decode_channel_stream_filters env payload = Some chans \<and> \<not> nd_poisoned node \<and> nd_subs node = Some subs")
  case False
  then have "\<exists>why. answer = encode_ok_reason False (Some why) \<and> node' = node"
    using assms by (auto simp: channel_stream_open_def split: option.splits sum.splits prod.splits if_splits)
  then obtain why where "answer = encode_ok_reason False (Some why)" "node' = node\<lparr>nd_subs := nd_subs node\<rparr>" by auto
  then show ?thesis by blast
next
  case True
  then obtain l payload sub key chans subs where open_ok: "link = Some l" "verify_signed_payload env d = Inr (payload, sub, key)"
      "decode_channel_stream_filters env payload = Some chans" "\<not> nd_poisoned node" "nd_subs node = Some subs" by blast
  obtain ok subs' where renewed: "renew_all r t 0 sub chans subs = (ok, subs')" by fastforce
  with renew_all_subscribed [of r t 0 sub chans subs] have ok: "ok \<longleftrightarrow> (\<forall>c \<in> set chans. is_subscribed sub c subs)" by simp
  show ?thesis
  proof (cases ok)
    case False
    with assms open_ok renewed have "answer = encode_ok_reason False (Some ''not_subscribed'')" "node' = node\<lparr>nd_subs := Some subs'\<rparr>"
      by (simp_all add: channel_stream_open_def)
    then show ?thesis by blast
  next
    case granted: True
    show ?thesis
    proof (cases "if on_rfed_link then nd_links node = None else nd_channel_streams node = None")
      case True
      with assms open_ok renewed granted have "answer = encode_ok_reason False (Some ''internal_error'')" "node' = node\<lparr>nd_subs := Some subs'\<rparr>"
        by (auto simp: channel_stream_open_def split: if_splits)
      then show ?thesis by blast
    next
      case False
      with assms open_ok renewed granted have "answer = encode_ok_reason True None" "node' = (if on_rfed_link
          then node\<lparr>nd_subs := Some subs', nd_links := map_option (\<lambda>m. snd (configure_channels l sub chans m)) (nd_links node)\<rparr>
          else node\<lparr>nd_subs := Some subs', nd_channel_streams := map_option (configure_stream l sub chans) (nd_channel_streams node)\<rparr>)"
        by (auto simp: channel_stream_open_def Let_def split: if_splits)
      with open_ok ok granted show ?thesis by blast
    qed
  qed
qed

theorem channel_stream_only_for_subscribers_witness:
  "\<exists>why subs'. channel_stream_open demo_env (\<lambda>_. Committed) (\<lambda>_. 100) True (Some [1]) (9 # addr 3) demo_fed =
    (encode_ok_reason False (Some why), demo_fed\<lparr>nd_subs := subs'\<rparr>)"
proof -
  obtain answer node' where run: "channel_stream_open demo_env (\<lambda>_. Committed) (\<lambda>_. 100) True (Some [1]) (9 # addr 3) demo_fed =
      (answer, node')" by fastforce
  have payload: "verify_signed_payload demo_env (9 # addr 3) = Inr (addr 3, replicate 16 9, replicate 64 9)"
    by (simp add: verify_signed_payload_def demo_env_def)
  have chans: "decode_channel_stream_filters demo_env (addr 3) = Some [addr 3]"
    by (simp add: decode_channel_stream_filters_def addr_def)
  have nobody: "nd_subs demo_fed = Some \<lparr>st_entries = [], st_db = None\<rparr>" by (simp add: demo_fed_def)
  from channel_stream_only_for_subscribers [OF run] show ?thesis
    unfolding run using payload chans nobody by (auto simp: is_subscribed_def)
qed

section \<open>Announces kept for distros\<close>

definition announces_served :: "'w fed_node \<Rightarrow> bool" where
  "announces_served node \<longleftrightarrow> (\<forall>held table. nd_announces node = Some held \<longrightarrow> nd_distros node = Some table \<longrightarrow>
     (\<forall>a \<in> set (as_entries held). is_distro (an_distro a) table))"

lemma register_is_distro: "is_distro d table \<Longrightarrow> is_distro d (register_device r t distro device key table)"
  by (auto simp: is_distro_def register_device_def Let_def)

lemma unregister_is_distro: "d \<noteq> distro \<Longrightarrow> is_distro d (unregister_device r distro device table) = is_distro d table"
  by (auto simp: is_distro_def unregister_device_def Let_def list_ex_iff)

lemma removed_announces: "as_entries (announce_remove r distro held) = filter (\<lambda>a. an_distro a \<noteq> distro) (as_entries held)"
  by (simp add: announce_remove_def Let_def)

lemma registration_announces:
  assumes ok: "announces_served node"
  shows "announces_served (snd (handle_distro_registration env r r' t register d node))"
proof -
  have reg: "announces_served (node\<lparr>nd_distros := Some (register_device r t distro device key table)\<rparr>)"
    if "nd_distros node = Some table" for distro device key table
    using ok that register_is_distro by (auto simp: announces_served_def)
  have unreg: "announces_served (node\<lparr>nd_distros := Some table', nd_announces :=
      (if is_distro distro table' then nd_announces node else map_option (announce_remove r' distro) (nd_announces node))\<rparr>)"
    if "nd_distros node = Some table" "table' = unregister_device r distro device table" for distro device table table'
  proof (cases "is_distro distro table'")
    case True
    with ok that unregister_is_distro show ?thesis by (auto simp: announces_served_def) metis
  next
    case False
    with ok that show ?thesis
      by (auto simp: announces_served_def removed_announces unregister_is_distro)
  qed
  show ?thesis using ok reg unreg
    by (auto simp: handle_distro_registration_def Let_def split: sum.splits option.splits prod.splits)
qed

lemma put_announces: "as_entries (announce_put r t distro d ratchet held) =
    filter (\<lambda>a. an_distro a \<noteq> distro) (as_entries held) @ [\<lparr>an_distro = distro, an_data = d, an_ratchet = ratchet, an_updated = t\<rparr>]"
  by (simp add: announce_put_def Let_def)

lemma announce_request_announces:
  assumes ok: "announces_served node"
  shows "announces_served (snd (distro_announce_request env delivery_of validate r t d node))"
proof (cases "open_distro_announce env delivery_of validate d")
  case (Some opened)
  obtain distro ann ratchet where opened: "opened = (distro, ann, ratchet)" by (cases opened)
  show ?thesis
  proof (cases "announce_has_device distro node")
    case True
    then obtain table where table: "nd_distros node = Some table" "is_distro distro table"
      by (auto simp: announce_has_device_def split: option.splits)
    have "announces_served (node\<lparr>nd_announces := Some (announce_put r t distro ann ratchet held)\<rparr>)"
      if "nd_announces node = Some held" for held
      using ok table that by (auto simp: announces_served_def put_announces)
    with Some opened True ok show ?thesis
      by (auto simp: distro_announce_request_def store_distro_announce_def Let_def split: option.splits)
  next
    case False
    with Some opened ok show ?thesis by (simp add: distro_announce_request_def)
  qed
qed (use ok in \<open>simp add: distro_announce_request_def\<close>)

text \<open>The requests about distros, each run to its end before the next.\<close>

inductive distro_requests :: "'i ident_env \<Rightarrow> 'w fed_node \<Rightarrow> 'w fed_node \<Rightarrow> bool" for env where
  no_request: "distro_requests env node node"
| registration: "distro_requests env node node' \<Longrightarrow>
    distro_requests env node (snd (distro_registration_request env r r' t register d node'))"
| announcement: "distro_requests env node node' \<Longrightarrow>
    distro_requests env node (snd (distro_announce_request env delivery_of validate r t d node'))"

text \<open>
  C32: a node only advertises routes it can serve. Over any registrations, unregistrations and announces
  of distros run one after the other, every announce kept (and replayed) is of a distro that has a
  device registered.
\<close>

theorem announces_have_devices:
  assumes "distro_requests env node node'" and "announces_served node"
  shows "announces_served node'"
  using assms
proof (induction rule: distro_requests.induct)
  case (registration node node' r r' t register d)
  then have "announces_served (snd (handle_distro_registration env r r' t register d node'))"
    by (blast intro: registration_announces)
  moreover have "snd (distro_registration_request env r r' t register d node') = snd (handle_distro_registration env r r' t register d node')"
    by (auto simp: distro_registration_request_def split: prod.splits sum.splits)
  ultimately show ?case by simp
qed (auto intro: announce_request_announces)

text \<open>
  Run at the same time they do not keep this: between the check for a device and the storing of the
  announce the last device can be unregistered, and the announce stays.
\<close>

lemma announce_race:
  "announces_served demo_fed \<and> announce_has_device (addr 7) demo_fed \<and>
   (case handle_distro_registration demo_env Committed Committed 100 False (7 # replicate 64 8) demo_fed of
      (answer, unregistered) \<Rightarrow> answer = Inr True \<and>
        \<not> announces_served (snd (store_distro_announce Committed 100 (addr 7, [1], False) unregistered)))"
proof -
  have keys: "verify_signed_payload demo_env (7 # replicate 64 8) = Inr (replicate 64 8, replicate 16 7, replicate 64 7)"
    by (simp add: verify_signed_payload_def demo_env_def)
  have delivery: "delivery_of_key demo_env (replicate 64 k) = Some (addr k)" for k
    by (simp add: delivery_of_key_def demo_env_def addr_def)
  have "is_distro (addr 7) demo_distros" by (simp add: is_distro_def demo_distros_def)
  moreover have "\<not> is_distro d (unregister_device Committed (addr 7) (addr 8) demo_distros)" for d
    by (simp add: is_distro_def demo_distros_def unregister_device_def Let_def)
  ultimately show ?thesis
    by (simp add: announces_served_def announce_has_device_def handle_distro_registration_def keys delivery demo_fed_def
        store_distro_announce_def put_announces Let_def removed_announces)
qed

theorem announces_have_devices_witness:
  "announces_served (snd (distro_registration_request demo_env Committed Committed 100 False (7 # replicate 64 8) demo_fed))"
  by (rule announces_have_devices [OF registration [OF no_request]]) (simp add: announces_served_def demo_fed_def)

section \<open>Notify registrations\<close>

lemma register_get:
  "\<exists>reg \<in> set (get_for_channel key chan (register_notify x t key chan relay g)). nr_relay reg = relay \<and> nr_registered reg = t"
proof (cases "position (\<lambda>r. reg_key r = (key, chan, relay)) (ng_registrations g)")
  case None
  then show ?thesis by (simp add: register_notify_def get_for_channel_def Let_def)
next
  case (Some i)
  from position_Some [OF this] have i: "i < length (ng_registrations g)" "reg_key (ng_registrations g ! i) = (key, chan, relay)" by auto
  let ?r = "(ng_registrations g ! i)\<lparr>nr_registered := t\<rparr>"
  from i have "?r \<in> set ((ng_registrations g)[i := ?r])" by (simp add: set_update_memI)
  with i(2) Some show ?thesis
    by (intro bexI [of _ ?r]) (auto simp: register_notify_def get_for_channel_def Let_def reg_key_def)
qed

text \<open>
  A notify registration answered \<open>true\<close> is one the wake of a deferred blob finds. The request was
  signed, names a relay of 32 hexadecimal digits and the signer may register; afterwards looking up
  the signer's \<open>lxmf.delivery\<close> hash (the key hand-offs wake by) with the channel named, or none,
  gives a registration with that relay. Any other answer is \<open>false\<close> and leaves the registry alone.
\<close>

theorem notify_registration_found:
  assumes "notify_request env r t (Some NotifyRegister) d node = ((answer, effects), node')"
    and "\<not> nd_poisoned node" and "nd_notify node = Some g"
  shows "(answer = MBool False \<and> node' = node) \<or>
    (answer = MBool True \<and> (\<exists>payload sub key relay chan reg g'. verify_signed_payload env d = Inr (payload, sub, key) \<and>
       tp_allow_notify (policy_for (nd_config node) sub) \<and> validate_relay_hash relay = Inr () \<and>
       nd_notify node' = Some g' \<and> reg \<in> set (get_for_channel (notify_key (ie_dest_hash env) sub) chan g') \<and>
       nr_relay reg = relay \<and> nr_registered reg = t))"
proof (cases "verify_signed_payload env d")
  case (Inl e)
  with assms show ?thesis by (simp add: notify_request_def)
next
  case (Inr v)
  obtain payload sub key where v: "v = (payload, sub, key)" by (cases v)
  show ?thesis
  proof (cases "parse_notify_command env payload (Some NotifyRegister)")
    case (Inl e)
    with assms Inr v show ?thesis by (simp add: notify_request_def)
  next
    case command: (Inr command)
    have kind: "nc_kind command = NotifyRegister"
      using command by (auto simp: parse_notify_command_def legacy_command_def split: if_splits option.splits msg_value.splits list.splits prod.splits)
    obtain result effects' node'' where handled: "handle_notify_register env r t command sub (Some key) node = ((result, effects'), node'')"
      by (metis surj_pair)
    have answer: "answer = MBool (case result of Inl _ \<Rightarrow> False | Inr _ \<Rightarrow> True)" "node' = node''"
      using assms(1) Inr v command kind handled by (auto simp: notify_request_def handle_notify_command_def split: sum.splits)
    show ?thesis
    proof (cases result)
      case (Inl why)
      with handled have "node'' = node"
        by (auto simp: handle_notify_register_def Let_def split: option.splits sum.splits if_splits prod.splits)
      with answer Inl show ?thesis by simp
    next
      case ok: (Inr u)
      from handled ok assms(2) obtain relay where relay: "nc_relay command = Some relay" "validate_relay_hash relay = Inr ()"
          "tp_allow_notify (policy_for (nd_config node) sub)" "node'' = with_notify (store_notify_command env r t command sub) node"
        by (auto simp: handle_notify_register_def Let_def split: option.splits sum.splits if_splits prod.splits)
      let ?g = "register_notify r t (notify_key (ie_dest_hash env) sub) (nc_channel command) relay g"
      have "nd_notify node'' = Some ?g" using relay kind assms(2,3) by (simp add: with_notify_def store_notify_command_def)
      with register_get [of "notify_key (ie_dest_hash env) sub" "nc_channel command" r t relay g] relay answer Inr v ok
      show ?thesis by auto
    qed
  qed
qed

definition notify_env :: "bytes ident_env" where
  "notify_env = demo_env\<lparr>ie_read := (\<lambda>d. if d = [9] then Some (MArr [MBin [1], MBin (replicate 64 9), MBin (replicate 64 0)])
     else Some (MArr [MStr ''register'', MStr (replicate 32 CHR ''a''), MNil]))\<rparr>"

theorem notify_registration_found_witness:
  "\<exists>chan reg g. nd_notify (snd (notify_request notify_env Committed 100 (Some NotifyRegister) [9] demo_fed)) = Some g \<and>
    reg \<in> set (get_for_channel (addr 9) chan g) \<and> nr_registered reg = 100"
proof -
  obtain answer effects node' where run: "notify_request notify_env Committed 100 (Some NotifyRegister) [9] demo_fed = ((answer, effects), node')"
    by (metis surj_pair)
  have payload: "verify_signed_payload notify_env [9] = Inr ([1], addr 9, replicate 64 9)"
    by (simp add: verify_signed_payload_def notify_env_def demo_env_def addr_def)
  have command: "parse_notify_command notify_env [1] (Some NotifyRegister) =
      Inr \<lparr>nc_kind = NotifyRegister, nc_relay = Some (replicate 32 CHR ''a''), nc_channel = None\<rparr>"
    by code_simp
  have relay: "validate_relay_hash (replicate 32 CHR ''a'') = Inr ()" "radix16_pairs (replicate 32 CHR ''a'') = Some (replicate 16 0xAA)"
    by code_simp+
  have "\<not> nd_poisoned demo_fed" "nd_notify demo_fed = Some \<lparr>ng_registrations = [], ng_db = None\<rparr>"
      and allowed: "tp_allow_notify (policy_for (nd_config demo_fed) (addr 9))"
    by (simp_all add: demo_fed_def demo_config_def policy_for_def default_tier_def)
  note found = notify_registration_found [OF run this(1,2)]
  have "answer = MBool True"
    using run by (auto simp: notify_request_def payload command handle_notify_command_def handle_notify_register_def relay allowed
        Let_def split: prod.splits)
  moreover have "notify_key (ie_dest_hash notify_env) (addr 9) = addr 9" by (simp add: notify_key_def notify_env_def demo_env_def)
  ultimately show ?thesis using found payload unfolding run by auto
qed

end
