(* ===== verification/InboundSync.thy ===== *)
theory InboundSync
  imports MessageStore
begin

text \<open>
  The syncs other propagation nodes make to this one (\<open>InboundSyncs\<close> of
  \<open>rfed/src/lxmf_propagation.rs\<close>): the answer to an \<open>/offer\<close>, what its link is remembered for, the
  verdict on a Resource advertised on a link, the mark of a batch being validated, and the links
  cleaned up. \<open>inbound_syncs\<close> has a lock of its own, so each definition here that takes and returns
  one is a critical section other callbacks can run between.

  A node is named by the hash of its \<open>lxmf.propagation\<close> destination (\<open>propagation_hash\<close>, Reticulum's).
\<close>

section \<open>State\<close>

definition OFFER_ACCEPTED :: nat where "OFFER_ACCEPTED = 1"
definition OFFER_TRANSFERRING :: nat where "OFFER_TRANSFERRING = 2"
definition OFFER_VALIDATING :: nat where "OFFER_VALIDATING = 3"
definition P_LINK_MAX_INACTIVITY_SECS :: nat where "P_LINK_MAX_INACTIVITY_SECS = 180"
definition LINKS_CLEAN_INTERVAL_SECS :: secs where "LINKS_CLEAN_INTERVAL_SECS = 4"

text \<open>A \<open>SyncLink\<close> is the hash of the node that offered on the link, once known.\<close>

record inbound_syncs =
  is_throttled :: "(bytes, secs) hmap"
  is_validated :: "bytes set"
  is_accepted :: "(bytes, nat) hmap"
  is_validating :: "(bytes, secs) hmap"
  is_links :: "(bytes, bytes option) hmap"

definition no_inbound :: inbound_syncs where
  "no_inbound = \<lparr>is_throttled = [], is_validated = {}, is_accepted = [], is_validating = [], is_links = []\<rparr>"

text \<open>The settings of the node an offer is judged by.\<close>

record offer_rules =
  or_static_peers :: "bytes list"
  or_static_only :: bool
  or_static_sequential :: bool
  or_sequential_validation :: bool
  or_max_inbound :: nat
  or_peering_cost :: nat
  or_own_hash :: bytes

section \<open>Links\<close>

definition resources_transferring :: "inbound_syncs \<Rightarrow> nat" where
  "resources_transferring I = length (filter (\<lambda>(_, stage). OFFER_ACCEPTED < stage) (is_accepted I))"

definition forget_link :: "bytes \<Rightarrow> inbound_syncs \<Rightarrow> inbound_syncs" where
  "forget_link l I = I\<lparr>is_validated := is_validated I - {l}, is_links := hdel l (is_links I),
     is_accepted := (if hget (is_accepted I) l = Some OFFER_VALIDATING then is_accepted I else hdel l (is_accepted I))\<rparr>"

text \<open>\<open>after_offer\<close> in its two sections: the link is a sync link, and is forgotten when closed by now.\<close>

definition book_sync_link :: "bytes \<Rightarrow> bytes option \<Rightarrow> inbound_syncs \<Rightarrow> inbound_syncs" where
  "book_sync_link l node I =
     (let known = (case hget (is_links I) l of Some n \<Rightarrow> n | None \<Rightarrow> None)
      in I\<lparr>is_links := hput l (case node of Some h \<Rightarrow> Some h | None \<Rightarrow> known) (is_links I)\<rparr>)"

definition forget_link_if_closed :: "bool \<Rightarrow> bytes \<Rightarrow> inbound_syncs \<Rightarrow> inbound_syncs" where
  "forget_link_if_closed alive l I = (if alive then I else forget_link l I)"

definition after_offer :: "bool \<Rightarrow> bytes \<Rightarrow> bytes option \<Rightarrow> inbound_syncs \<Rightarrow> inbound_syncs" where
  "after_offer alive l node I = forget_link_if_closed alive l (book_sync_link l node I)"

text \<open>\<open>ValidationMark\<close>: made when a batch's stamps are to be checked, dropped after.\<close>

definition mark_validating :: "secs \<Rightarrow> bytes \<Rightarrow> bytes \<Rightarrow> inbound_syncs \<Rightarrow> inbound_syncs" where
  "mark_validating t sender l I =
     I\<lparr>is_accepted := hput l OFFER_VALIDATING (is_accepted I), is_validating := hput sender t (is_validating I)\<rparr>"

definition unmark_validating :: "bytes \<Rightarrow> bytes \<Rightarrow> inbound_syncs \<Rightarrow> inbound_syncs" where
  "unmark_validating sender l I =
     I\<lparr>is_validating := hdel sender (is_validating I), is_accepted := hdel l (is_accepted I)\<rparr>"

text \<open>A transfer carried invalid stamps.\<close>

definition throttle_sender :: "secs \<Rightarrow> bytes \<Rightarrow> inbound_syncs \<Rightarrow> inbound_syncs" where
  "throttle_sender t sender I = I\<lparr>is_throttled := hput sender (t + PN_STAMP_THROTTLE_SECS) (is_throttled I)\<rparr>"

definition clean_throttled :: "secs \<Rightarrow> inbound_syncs \<Rightarrow> inbound_syncs" where
  "clean_throttled t I = I\<lparr>is_throttled := filter (\<lambda>(_, until). t \<le> until) (is_throttled I)\<rparr>"

text \<open>\<open>idle l\<close>: the seconds without data of a link that is alive and says so. Gives the links torn down and those forgotten.\<close>

definition clean_links :: "secs \<Rightarrow> (bytes \<Rightarrow> nat option) \<Rightarrow> secs \<Rightarrow> inbound_syncs \<Rightarrow> (secs \<times> bytes list \<times> bytes list) \<times> inbound_syncs" where
  "clean_links t idle last_clean I =
     (if t - last_clean < LINKS_CLEAN_INTERVAL_SECS then ((last_clean, [], []), I)
      else (let links = map fst (is_links I);
                torn = filter (\<lambda>l. case idle l of Some s \<Rightarrow> P_LINK_MAX_INACTIVITY_SECS < s | None \<Rightarrow> False) links;
                gone = filter (\<lambda>l. case idle l of Some s \<Rightarrow> P_LINK_MAX_INACTIVITY_SECS < s | None \<Rightarrow> True) links
            in ((t, torn, gone), fold forget_link gone I)))"

section \<open>An offer\<close>

datatype offer_answer = OfferError nat | OfferWantsNone | OfferWantsAll | OfferWants "bytes list"

text \<open>Whether the node is to come back later; an expired throttle is dropped on the way.\<close>

definition offer_gate :: "offer_rules \<Rightarrow> secs \<Rightarrow> bytes \<Rightarrow> inbound_syncs \<Rightarrow> bool \<times> inbound_syncs" where
  "offer_gate rules t remote I =
     (let bypass = \<not> or_static_sequential rules \<and> remote \<in> set (or_static_peers rules)
      in if \<not> bypass \<and> or_sequential_validation rules \<and> is_validating I \<noteq> [] then (False, I)
         else if \<not> bypass \<and> 0 < or_max_inbound rules \<and> or_max_inbound rules \<le> resources_transferring I then (False, I)
         else (case hget (is_throttled I) remote of
             None \<Rightarrow> (True, I)
           | Some until \<Rightarrow> if 0 < until - t then (False, I) else (True, I\<lparr>is_throttled := hdel remote (is_throttled I)\<rparr>)))"

definition link_validated :: "bytes option \<Rightarrow> inbound_syncs \<Rightarrow> inbound_syncs" where
  "link_validated link I = (case link of None \<Rightarrow> I | Some l \<Rightarrow> I\<lparr>is_validated := insert l (is_validated I)\<rparr>)"

definition offered_ids_of :: "msg_value \<Rightarrow> bytes list" where
  "offered_ids_of v = (case v of
      MArr vs \<Rightarrow> List.map_filter (\<lambda>v. case v of MBin b \<Rightarrow> Some b | _ \<Rightarrow> None) vs | _ \<Rightarrow> [])"

text \<open>The ids not held; \<open>E\<close> are the messages stored.\<close>

definition lacking_ids :: "propagation_entries \<Rightarrow> bytes list \<Rightarrow> bytes list" where
  "lacking_ids E ids = filter (\<lambda>tid. \<not> contains_key tid E) ids"

definition answer_offer :: "bytes option \<Rightarrow> propagation_entries \<Rightarrow> bytes list \<Rightarrow> inbound_syncs \<Rightarrow> offer_answer \<times> inbound_syncs" where
  "answer_offer link E ids I =
     (let wanted = lacking_ids E ids
      in if wanted = [] then (OfferWantsNone, I)
         else if length wanted = length ids then (OfferWantsAll, I)
         else (OfferWants wanted, case link of
             None \<Rightarrow> I | Some l \<Rightarrow> I\<lparr>is_accepted := hput l OFFER_ACCEPTED (is_accepted I)\<rparr>))"

text \<open>
  The sections \<open>offer_gate\<close>, \<open>link_validated\<close> and \<open>answer_offer\<close> take the lock one after the other.
  \<open>remote\<close> is the identity the sender proved: the node's hash and the identity's (empty when it has
  none). \<open>valid_key\<close> is \<open>lx_stamper::validate_peering_key\<close>, \<open>request\<close> what the data decodes to.
\<close>

definition handle_prop_offer :: "offer_rules \<Rightarrow> (bytes \<Rightarrow> bytes \<Rightarrow> nat \<Rightarrow> bool) \<Rightarrow> secs \<Rightarrow> (bytes \<times> bytes) option \<Rightarrow> bytes option \<Rightarrow>
    msg_value option \<Rightarrow> propagation_entries \<Rightarrow> inbound_syncs \<Rightarrow> offer_answer \<times> inbound_syncs" where
  "handle_prop_offer rules valid_key t remote link request E I = (case remote of
      None \<Rightarrow> (OfferError ERROR_NO_IDENTITY, I)
    | Some (node, identity) \<Rightarrow> (case offer_gate rules t node I of
        (False, I') \<Rightarrow> (OfferError ERROR_THROTTLED, I')
      | (True, I') \<Rightarrow>
          if or_static_only rules \<and> node \<notin> set (or_static_peers rules) then (OfferError ERROR_NO_ACCESS, I')
          else (case request of
              Some (MArr (MBin key # ids # _)) \<Rightarrow>
                if \<not> valid_key (or_own_hash rules @ identity) key (or_peering_cost rules) then (OfferError ERROR_INVALID_KEY, I')
                else answer_offer link E (offered_ids_of ids) (link_validated link I')
            | _ \<Rightarrow> (OfferError ERROR_INVALID_DATA, I'))))"

section \<open>A Resource on a link\<close>

text \<open>What the advertisement recorded for the Resource's conclusion.\<close>

record advertised_sender =
  as_identity :: "bytes option"
  as_key_valid :: bool

text \<open>
  The link a Resource is advertised on: \<open>LinkGone\<close> when its actor does not answer any more, else the
  node that identified on it, if one did.
\<close>

datatype advertised_on = NoLink | LinkGone bytes | OnLink bytes "bytes option"

fun sender_of :: "advertised_on \<Rightarrow> bytes option" where
  "sender_of (OnLink _ node) = node"
| "sender_of _ = None"

definition resource_advertised :: "int \<Rightarrow> bytes list option \<Rightarrow> nat \<Rightarrow> advertised_on \<Rightarrow> advertised_sender \<Rightarrow> inbound_syncs \<Rightarrow>
    bool \<times> advertised_sender \<times> inbound_syncs" where
  "resource_advertised sync_limit_kb static_only data_size on recorded I =
     (case on of LinkGone _ \<Rightarrow> (True, recorded, I)
      | _ \<Rightarrow>
        if (case static_only of None \<Rightarrow> False
            | Some peers \<Rightarrow> (case sender_of on of None \<Rightarrow> True | Some h \<Rightarrow> h \<notin> set peers)) then (False, recorded, I)
        else if nat (max sync_limit_kb 0) * 1000 < data_size then (False, recorded, I)
        else (case on of
            OnLink l node \<Rightarrow>
              (True, \<lparr>as_identity = node, as_key_valid = (node \<noteq> None \<and> l \<in> is_validated I)\<rparr>,
               if hget (is_accepted I) l = None then I else I\<lparr>is_accepted := hput l OFFER_TRANSFERRING (is_accepted I)\<rparr>)
          | _ \<Rightarrow> (True, \<lparr>as_identity = None, as_key_valid = False\<rparr>, I)))"

text \<open>After the batch is ingested, however the Resource ended.\<close>

definition resource_concluded :: "bytes \<Rightarrow> inbound_syncs \<Rightarrow> inbound_syncs" where
  "resource_concluded l I = I\<lparr>is_accepted := hdel l (is_accepted I)\<rparr>"

end
