(* ===== verification/InboundSync_Props.thy ===== *)
theory InboundSync_Props
  imports InboundSync
begin

text \<open>
  What the inbound sync state promises: nothing is kept of a link once it is closed, whatever order
  its callbacks run in, and an offer is answered with exactly the ids the node lacks.
\<close>

section \<open>The callbacks of the inbound links\<close>

text \<open>
  Every critical section of an inbound callback is a step, in any order the callbacks allow. The
  state holds the links closed, those whose close callback has still to run, the links of the offers being
  answered, and the batches being validated.
\<close>

record inbound_world =
  iw_syncs :: inbound_syncs
  iw_closed :: "bytes set"
  iw_closing :: "bytes set"
  iw_offers :: "bytes list"
  iw_validations :: "(bytes \<times> bytes) list"

inductive inbound_step :: "inbound_world \<Rightarrow> inbound_world \<Rightarrow> bool" where
  offer_begins: "inbound_step w (w\<lparr>iw_syncs := snd (offer_gate rules t remote (iw_syncs w)), iw_offers := l # iw_offers w\<rparr>)"
| offer_validated: "l \<in> set (iw_offers w) \<Longrightarrow> inbound_step w (w\<lparr>iw_syncs := link_validated (Some l) (iw_syncs w)\<rparr>)"
| offer_answered: "l \<in> set (iw_offers w) \<Longrightarrow> inbound_step w (w\<lparr>iw_syncs := snd (answer_offer (Some l) E ids (iw_syncs w))\<rparr>)"
| offer_booked: "l \<in> set (iw_offers w) \<Longrightarrow> inbound_step w (w\<lparr>iw_syncs := book_sync_link l node (iw_syncs w)\<rparr>)"
| offer_settled: "iw_offers w = ls @ l # ls' \<Longrightarrow>
    inbound_step w (w\<lparr>iw_syncs := forget_link_if_closed (l \<notin> iw_closed w) l (iw_syncs w), iw_offers := ls @ ls'\<rparr>)"
| link_closes: "inbound_step w (w\<lparr>iw_closed := insert l (iw_closed w), iw_closing := insert l (iw_closing w)\<rparr>)"
| close_callback: "l \<in> iw_closing w \<Longrightarrow>
    inbound_step w (w\<lparr>iw_syncs := forget_link l (iw_syncs w), iw_closing := iw_closing w - {l}\<rparr>)"
| advertised: "inbound_step w (w\<lparr>iw_syncs := snd (snd (resource_advertised limit static_only data_size on recorded (iw_syncs w)))\<rparr>)"
| validation_starts: "inbound_step w (w\<lparr>iw_syncs := mark_validating t sender l (iw_syncs w),
    iw_validations := (sender, l) # iw_validations w\<rparr>)"
| validation_ends: "iw_validations w = vs @ (sender, l) # vs' \<Longrightarrow>
    inbound_step w (w\<lparr>iw_syncs := unmark_validating sender l (iw_syncs w), iw_validations := vs @ vs'\<rparr>)"
| concluded: "inbound_step w (w\<lparr>iw_syncs := resource_concluded l (iw_syncs w)\<rparr>)"
| links_cleaned: "inbound_step w (w\<lparr>iw_syncs := snd (clean_links t idle last_clean (iw_syncs w))\<rparr>)"
| sender_throttled: "inbound_step w (w\<lparr>iw_syncs := throttle_sender t sender (iw_syncs w)\<rparr>)"
| throttles_cleaned: "inbound_step w (w\<lparr>iw_syncs := clean_throttled t (iw_syncs w)\<rparr>)"

inductive inbound_run :: "inbound_world \<Rightarrow> inbound_world \<Rightarrow> bool" where
  run_start: "inbound_run w w"
| run_step: "inbound_run w w' \<Longrightarrow> inbound_step w' w'' \<Longrightarrow> inbound_run w w''"

definition quiet_world :: inbound_world where
  "quiet_world = \<lparr>iw_syncs = no_inbound, iw_closed = {}, iw_closing = {}, iw_offers = [], iw_validations = []\<rparr>"

text \<open>
  Only what an operation adds matters for the invariant: \<open>keeps_to L I I'\<close> says that \<open>I'\<close> has entries
  of links outside \<open>L\<close> only where \<open>I\<close> has them, and validations of \<open>I\<close> only.
\<close>

definition keeps_to :: "bytes set \<Rightarrow> inbound_syncs \<Rightarrow> inbound_syncs \<Rightarrow> bool" where
  "keeps_to L I I' \<longleftrightarrow> is_validated I' \<subseteq> is_validated I \<union> L \<and>
     (\<forall>l. l \<notin> L \<longrightarrow> hget (is_links I') l \<noteq> None \<longrightarrow> hget (is_links I) l \<noteq> None) \<and>
     (\<forall>l. l \<notin> L \<longrightarrow> hget (is_accepted I') l \<noteq> None \<longrightarrow> hget (is_accepted I) l \<noteq> None) \<and>
     (\<forall>l. hget (is_accepted I') l = Some OFFER_VALIDATING \<longrightarrow> hget (is_accepted I) l = Some OFFER_VALIDATING) \<and>
     (\<forall>s. hget (is_validating I') s \<noteq> None \<longrightarrow> hget (is_validating I) s \<noteq> None)"

definition settled :: "bytes \<Rightarrow> inbound_world \<Rightarrow> bool" where
  "settled l w \<longleftrightarrow> l \<in> iw_closed w \<and> l \<notin> iw_closing w \<and> l \<notin> set (iw_offers w)"

definition leak_free :: "inbound_world \<Rightarrow> bool" where
  "leak_free w \<longleftrightarrow>
     (\<forall>l. settled l w \<longrightarrow> l \<notin> is_validated (iw_syncs w) \<and> hget (is_links (iw_syncs w)) l = None \<and>
        (hget (is_accepted (iw_syncs w)) l \<noteq> None \<longrightarrow> l \<in> snd ` set (iw_validations w))) \<and>
     (\<forall>l. hget (is_accepted (iw_syncs w)) l = Some OFFER_VALIDATING \<longrightarrow> l \<in> snd ` set (iw_validations w)) \<and>
     (\<forall>s. hget (is_validating (iw_syncs w)) s \<noteq> None \<longrightarrow> s \<in> fst ` set (iw_validations w))"

lemma keeps_to_refl: "keeps_to L I I"
  by (simp add: keeps_to_def)

lemma keeps_toI:
  assumes "is_validated I' \<subseteq> is_validated I \<union> L"
    and "\<And>l. l \<notin> L \<Longrightarrow> hget (is_links I') l \<noteq> None \<Longrightarrow> hget (is_links I) l \<noteq> None"
    and "\<And>l. l \<notin> L \<Longrightarrow> hget (is_accepted I') l \<noteq> None \<Longrightarrow> hget (is_accepted I) l \<noteq> None"
    and "\<And>l. hget (is_accepted I') l = Some OFFER_VALIDATING \<Longrightarrow> hget (is_accepted I) l = Some OFFER_VALIDATING"
    and "\<And>s. hget (is_validating I') s \<noteq> None \<Longrightarrow> hget (is_validating I) s \<noteq> None"
  shows "keeps_to L I I'"
  unfolding keeps_to_def using assms by iprover

lemma keeps_toD:
  assumes "keeps_to L I I'"
  shows "is_validated I' \<subseteq> is_validated I \<union> L"
    and "l \<notin> L \<Longrightarrow> hget (is_links I') l \<noteq> None \<Longrightarrow> hget (is_links I) l \<noteq> None"
    and "l \<notin> L \<Longrightarrow> hget (is_accepted I') l \<noteq> None \<Longrightarrow> hget (is_accepted I) l \<noteq> None"
    and "hget (is_accepted I') l = Some OFFER_VALIDATING \<Longrightarrow> hget (is_accepted I) l = Some OFFER_VALIDATING"
    and "hget (is_validating I') s \<noteq> None \<Longrightarrow> hget (is_validating I) s \<noteq> None"
  using assms unfolding keeps_to_def by iprover+

lemma keeps_to_trans:
  assumes 1: "keeps_to L I I'" and 2: "keeps_to L I' I''"
  shows "keeps_to L I I''"
proof (rule keeps_toI)
  show "is_validated I'' \<subseteq> is_validated I \<union> L" using keeps_toD(1) [OF 1] keeps_toD(1) [OF 2] by blast
  show "hget (is_links I) l \<noteq> None" if "l \<notin> L" "hget (is_links I'') l \<noteq> None" for l
    by (rule keeps_toD(2) [OF 1 that(1) keeps_toD(2) [OF 2 that]])
  show "hget (is_accepted I) l \<noteq> None" if "l \<notin> L" "hget (is_accepted I'') l \<noteq> None" for l
    by (rule keeps_toD(3) [OF 1 that(1) keeps_toD(3) [OF 2 that]])
  show "hget (is_accepted I) l = Some OFFER_VALIDATING" if "hget (is_accepted I'') l = Some OFFER_VALIDATING" for l
    by (rule keeps_toD(4) [OF 1 keeps_toD(4) [OF 2 that]])
  show "hget (is_validating I) s \<noteq> None" if "hget (is_validating I'') s \<noteq> None" for s
    by (rule keeps_toD(5) [OF 1 keeps_toD(5) [OF 2 that]])
qed

lemmas stages = OFFER_ACCEPTED_def OFFER_TRANSFERRING_def OFFER_VALIDATING_def

lemma forget_keeps: "keeps_to {} I (forget_link l I)"
  by (auto simp: keeps_to_def forget_link_def hmap_simps split: if_splits)

lemma keeps_to_mono: "keeps_to {} I I' \<Longrightarrow> keeps_to L I I'"
  by (auto simp: keeps_to_def)

lemma book_keeps: "keeps_to {l} I (book_sync_link l node I)"
  by (auto simp: keeps_to_def book_sync_link_def Let_def hmap_simps)

lemma concluded_keeps: "keeps_to {} I (resource_concluded l I)"
  by (auto simp: keeps_to_def resource_concluded_def hmap_simps split: if_splits)

lemma throttled_keeps: "is_validated I' = is_validated I \<Longrightarrow> is_links I' = is_links I \<Longrightarrow> is_accepted I' = is_accepted I \<Longrightarrow>
    is_validating I' = is_validating I \<Longrightarrow> keeps_to L I I'"
  by (simp add: keeps_to_def)

lemma clean_links_keeps: "keeps_to {} I (snd (clean_links t idle last_clean I))"
proof -
  have "keeps_to {} I (fold forget_link ls I)" for ls
    by (induction ls arbitrary: I) (auto intro: keeps_to_refl keeps_to_trans forget_keeps)
  then show ?thesis by (simp add: clean_links_def Let_def keeps_to_refl)
qed

lemma advertised_keeps: "keeps_to {} I (snd (snd (resource_advertised limit static_only data_size on recorded I)))"
proof (cases on)
  case (OnLink l node)
  have "keeps_to {} I (I\<lparr>is_accepted := hput l OFFER_TRANSFERRING (is_accepted I)\<rparr>)" if "hget (is_accepted I) l \<noteq> None"
    using that by (auto simp: keeps_to_def hmap_simps stages)
  with OnLink show ?thesis by (simp add: resource_advertised_def keeps_to_refl)
qed (simp_all add: resource_advertised_def keeps_to_refl)

lemma gate_keeps: "keeps_to L I (snd (offer_gate rules t remote I))"
  by (auto simp: offer_gate_def Let_def keeps_to_refl intro!: throttled_keeps split: option.split)

lemma answer_keeps: "keeps_to {l} I (snd (answer_offer (Some l) E ids I))"
proof -
  have "keeps_to {l} I (I\<lparr>is_accepted := hput l OFFER_ACCEPTED (is_accepted I)\<rparr>)"
    by (auto simp: keeps_to_def hmap_simps stages)
  then show ?thesis by (simp add: answer_offer_def Let_def keeps_to_refl)
qed

lemma validated_keeps: "keeps_to {l} I (link_validated (Some l) I)"
  by (auto simp: keeps_to_def link_validated_def)

lemma leak_freeI:
  assumes "\<And>l. settled l w \<Longrightarrow> l \<notin> is_validated (iw_syncs w)"
    and "\<And>l. settled l w \<Longrightarrow> hget (is_links (iw_syncs w)) l = None"
    and "\<And>l. settled l w \<Longrightarrow> hget (is_accepted (iw_syncs w)) l \<noteq> None \<Longrightarrow> l \<in> snd ` set (iw_validations w)"
    and "\<And>l. hget (is_accepted (iw_syncs w)) l = Some OFFER_VALIDATING \<Longrightarrow> l \<in> snd ` set (iw_validations w)"
    and "\<And>s. hget (is_validating (iw_syncs w)) s \<noteq> None \<Longrightarrow> s \<in> fst ` set (iw_validations w)"
  shows "leak_free w"
  unfolding leak_free_def using assms by blast

lemma leak_freeD:
  assumes "leak_free w"
  shows "settled l w \<Longrightarrow> l \<notin> is_validated (iw_syncs w)"
    and "settled l w \<Longrightarrow> hget (is_links (iw_syncs w)) l = None"
    and "settled l w \<Longrightarrow> hget (is_accepted (iw_syncs w)) l \<noteq> None \<Longrightarrow> l \<in> snd ` set (iw_validations w)"
    and "hget (is_accepted (iw_syncs w)) l = Some OFFER_VALIDATING \<Longrightarrow> l \<in> snd ` set (iw_validations w)"
    and "hget (is_validating (iw_syncs w)) s \<noteq> None \<Longrightarrow> s \<in> fst ` set (iw_validations w)"
  using assms unfolding leak_free_def by blast+

lemma leak_free_keeps:
  assumes w: "leak_free w" and keeps: "keeps_to L (iw_syncs w) (iw_syncs w')"
    and worlds: "iw_validations w' = iw_validations w" "iw_closed w' = iw_closed w" "iw_closing w' = iw_closing w"
    and offers: "L \<union> set (iw_offers w) \<subseteq> set (iw_offers w')"
  shows "leak_free w'"
proof -
  have settled: "settled l w" "l \<notin> L" if "settled l w'" for l
    using that worlds offers by (auto simp: settled_def)
  show ?thesis
  proof (rule leak_freeI)
    show "l \<notin> is_validated (iw_syncs w')" if "settled l w'" for l
      using settled [OF that] leak_freeD(1) [OF w] keeps_toD(1) [OF keeps] by blast
    show "hget (is_links (iw_syncs w')) l = None" if "settled l w'" for l
      using settled [OF that] leak_freeD(2) [OF w] keeps_toD(2) [OF keeps] by blast
    show "l \<in> snd ` set (iw_validations w')" if "settled l w'" "hget (is_accepted (iw_syncs w')) l \<noteq> None" for l
      unfolding worlds using settled [OF that(1)] leak_freeD(3) [OF w] keeps_toD(3) [OF keeps] that(2) by blast
    show "l \<in> snd ` set (iw_validations w')" if "hget (is_accepted (iw_syncs w')) l = Some OFFER_VALIDATING" for l
      unfolding worlds by (rule leak_freeD(4) [OF w keeps_toD(4) [OF keeps that]])
    show "s \<in> fst ` set (iw_validations w')" if "hget (is_validating (iw_syncs w')) s \<noteq> None" for s
      unfolding worlds by (rule leak_freeD(5) [OF w keeps_toD(5) [OF keeps that]])
  qed
qed

lemma leak_free_forget:
  assumes w: "leak_free w" and I': "iw_syncs w' = forget_link l (iw_syncs w)"
    and worlds: "iw_validations w' = iw_validations w" "iw_closed w' = iw_closed w"
      "iw_closing w \<subseteq> insert l (iw_closing w')" "set (iw_offers w) \<subseteq> insert l (set (iw_offers w'))"
  shows "leak_free w'"
proof -
  have settled: "settled m w" if "settled m w'" "m \<noteq> l" for m
    using that worlds by (auto simp: settled_def)
  note keeps = forget_keeps [of "iw_syncs w" l]
  show ?thesis
  proof (rule leak_freeI)
    show "m \<notin> is_validated (iw_syncs w')" if "settled m w'" for m
      using leak_freeD(1) [OF w settled [OF that]] by (auto simp: I' forget_link_def)
    show "hget (is_links (iw_syncs w')) m = None" if "settled m w'" for m
      using leak_freeD(2) [OF w settled [OF that]] by (auto simp: I' forget_link_def hmap_simps)
    show "m \<in> snd ` set (iw_validations w')" if m: "settled m w'" "hget (is_accepted (iw_syncs w')) m \<noteq> None" for m
    proof (cases "m = l")
      case True
      with m(2) have "hget (is_accepted (iw_syncs w)) m = Some OFFER_VALIDATING"
        by (auto simp: I' forget_link_def hmap_simps split: if_splits)
      from leak_freeD(4) [OF w this] worlds show ?thesis by simp
    next
      case False
      from m(2) I' keeps_toD(3) [OF keeps] have "hget (is_accepted (iw_syncs w)) m \<noteq> None" by auto
      from leak_freeD(3) [OF w settled [OF m(1) False] this] worlds show ?thesis by simp
    qed
    show "m \<in> snd ` set (iw_validations w')" if "hget (is_accepted (iw_syncs w')) m = Some OFFER_VALIDATING" for m
      unfolding worlds using leak_freeD(4) [OF w keeps_toD(4) [OF keeps]] that I' by auto
    show "s \<in> fst ` set (iw_validations w')" if "hget (is_validating (iw_syncs w')) s \<noteq> None" for s
      unfolding worlds using leak_freeD(5) [OF w keeps_toD(5) [OF keeps]] that I' by auto
  qed
qed

lemma leak_free_marked:
  assumes w: "leak_free w"
  shows "leak_free (w\<lparr>iw_syncs := mark_validating t sender l (iw_syncs w), iw_validations := (sender, l) # iw_validations w\<rparr>)"
    (is "leak_free ?w")
proof -
  have settled: "settled m ?w \<longleftrightarrow> settled m w" for m by (simp add: settled_def)
  show ?thesis
  proof (rule leak_freeI)
    show "m \<notin> is_validated (iw_syncs ?w)" if "settled m ?w" for m
      using leak_freeD(1) [OF w] that settled by (simp add: mark_validating_def)
    show "hget (is_links (iw_syncs ?w)) m = None" if "settled m ?w" for m
      using leak_freeD(2) [OF w] that settled by (simp add: mark_validating_def)
    show "m \<in> snd ` set (iw_validations ?w)" if "settled m ?w" "hget (is_accepted (iw_syncs ?w)) m \<noteq> None" for m
      using leak_freeD(3) [OF w] that settled by (auto simp: mark_validating_def hmap_simps split: if_splits)
    show "m \<in> snd ` set (iw_validations ?w)" if "hget (is_accepted (iw_syncs ?w)) m = Some OFFER_VALIDATING" for m
      using leak_freeD(4) [OF w] that by (auto simp: mark_validating_def hmap_simps split: if_splits)
    show "s \<in> fst ` set (iw_validations ?w)" if "hget (is_validating (iw_syncs ?w)) s \<noteq> None" for s
      using leak_freeD(5) [OF w] that by (auto simp: mark_validating_def hmap_simps split: if_splits)
  qed
qed

lemma leak_free_unmarked:
  assumes w: "leak_free w" and vs: "iw_validations w = vs @ (sender, l) # vs'"
  shows "leak_free (w\<lparr>iw_syncs := unmark_validating sender l (iw_syncs w), iw_validations := vs @ vs'\<rparr>)" (is "leak_free ?w")
proof -
  have settled: "settled m ?w \<longleftrightarrow> settled m w" for m by (simp add: settled_def)
  show ?thesis
  proof (rule leak_freeI)
    show "m \<notin> is_validated (iw_syncs ?w)" if "settled m ?w" for m
      using leak_freeD(1) [OF w] that settled by (simp add: unmark_validating_def)
    show "hget (is_links (iw_syncs ?w)) m = None" if "settled m ?w" for m
      using leak_freeD(2) [OF w] that settled by (simp add: unmark_validating_def)
    show "m \<in> snd ` set (iw_validations ?w)" if "settled m ?w" "hget (is_accepted (iw_syncs ?w)) m \<noteq> None" for m
      using leak_freeD(3) [OF w, of m] that settled vs by (auto simp: unmark_validating_def hmap_simps split: if_splits)
    show "m \<in> snd ` set (iw_validations ?w)" if "hget (is_accepted (iw_syncs ?w)) m = Some OFFER_VALIDATING" for m
      using leak_freeD(4) [OF w, of m] that vs by (auto simp: unmark_validating_def hmap_simps split: if_splits)
    show "s \<in> fst ` set (iw_validations ?w)" if "hget (is_validating (iw_syncs ?w)) s \<noteq> None" for s
      using leak_freeD(5) [OF w, of s] that vs by (auto simp: unmark_validating_def hmap_simps split: if_splits)
  qed
qed

lemma leak_free_fewer_settled:
  assumes "leak_free w" and "\<And>m. settled m w' \<Longrightarrow> settled m w"
    and "iw_syncs w' = iw_syncs w" and "iw_validations w' = iw_validations w"
  shows "leak_free w'"
  unfolding leak_free_def assms(3,4) using assms(1,2) unfolding leak_free_def by iprover

lemma leak_free_step:
  assumes "inbound_step w w'" and w: "leak_free w"
  shows "leak_free w'"
  using assms(1)
proof cases
  case (offer_begins rules t remote l)
  then show ?thesis by (intro leak_free_keeps [OF w, of "{}"]) (auto intro: gate_keeps)
next
  case (offer_validated l)
  then show ?thesis by (intro leak_free_keeps [OF w, of "{l}"]) (auto intro: validated_keeps)
next
  case (offer_answered l E ids)
  then show ?thesis by (intro leak_free_keeps [OF w, of "{l}"]) (auto intro: answer_keeps)
next
  case (offer_booked l node)
  from offer_booked book_keeps [of l] show ?thesis by (intro leak_free_keeps [OF w, of "{l}"]) auto
next
  case (offer_settled ls l ls')
  show ?thesis
  proof (cases "l \<in> iw_closed w")
    case True
    with offer_settled show ?thesis by (intro leak_free_forget [OF w, of _ l]) (auto simp: forget_link_if_closed_def)
  next
    case False
    have "settled m w" if "settled m w'" for m using that offer_settled False by (auto simp: settled_def)
    with offer_settled False show ?thesis by (intro leak_free_fewer_settled [OF w]) (auto simp: forget_link_if_closed_def)
  qed
next
  case (link_closes l)
  have "settled m w" if "settled m w'" for m using that link_closes by (auto simp: settled_def)
  with link_closes show ?thesis by (intro leak_free_fewer_settled [OF w]) auto
next
  case (close_callback l)
  then show ?thesis by (intro leak_free_forget [OF w, of _ l]) auto
next
  case (advertised limit static_only data_size on recorded)
  then show ?thesis by (intro leak_free_keeps [OF w, of "{}"]) (auto intro: advertised_keeps)
next
  case (validation_starts t sender l)
  with leak_free_marked [OF w] show ?thesis by simp
next
  case (validation_ends vs sender l vs')
  with leak_free_unmarked [OF w] show ?thesis by simp
next
  case (concluded l)
  then show ?thesis by (intro leak_free_keeps [OF w, of "{}"]) (auto intro: concluded_keeps)
next
  case (links_cleaned t idle last_clean)
  then show ?thesis by (intro leak_free_keeps [OF w, of "{}"]) (auto intro: clean_links_keeps)
next
  case (sender_throttled t sender)
  then show ?thesis by (intro leak_free_keeps [OF w, of "{}"]) (auto intro: throttled_keeps simp: throttle_sender_def)
next
  case (throttles_cleaned t)
  then show ?thesis by (intro leak_free_keeps [OF w, of "{}"]) (auto intro: throttled_keeps simp: clean_throttled_def)
qed

lemma leak_free_run: "inbound_run w w' \<Longrightarrow> leak_free w \<Longrightarrow> leak_free w'"
  by (induction rule: inbound_run.induct) (auto intro: leak_free_step)

lemma quiet_leak_free: "leak_free quiet_world"
  by (simp add: leak_free_def quiet_world_def no_inbound_def settled_def)

text \<open>
  C16: In every state the inbound callbacks can reach, in whatever order they run, nothing is kept of a
  link that is closed once its close callback and the offers on it are through: it counts as neither
  validated nor a sync link, and takes no place among the transfers unless a batch of its is still being
  validated. When no batch is being validated, no sender is marked as validating, so the mark cannot
  keep the node answering every offer with a throttle.
\<close>

theorem closed_link_forgotten:
  assumes "inbound_run quiet_world w"
  shows "(\<forall>l. settled l w \<longrightarrow> l \<notin> is_validated (iw_syncs w) \<and> hget (is_links (iw_syncs w)) l = None \<and>
      (l \<notin> snd ` set (iw_validations w) \<longrightarrow> hget (is_accepted (iw_syncs w)) l = None)) \<and>
    (iw_validations w = [] \<longrightarrow> is_validating (iw_syncs w) = [])"
proof -
  note w = leak_free_run [OF assms quiet_leak_free]
  have "is_validating (iw_syncs w) = []" if "iw_validations w = []"
    using leak_freeD(5) [OF w, of "fst (hd (is_validating (iw_syncs w)))"] that by (cases "is_validating (iw_syncs w)") auto
  moreover have "hget (is_accepted (iw_syncs w)) l = None" if "settled l w" "l \<notin> snd ` set (iw_validations w)" for l
    using leak_freeD(3) [OF w that(1)] that(2) by blast
  ultimately show ?thesis using leak_freeD(1,2) [OF w] by blast
qed

lemma closed_link_forgotten_witness:
  defines "syncs \<equiv> link_validated (Some [1]) no_inbound"
  defines "w \<equiv> \<lparr>iw_syncs = forget_link [1] syncs, iw_closed = {[1 :: 8 word]}, iw_closing = {}, iw_offers = [], iw_validations = []\<rparr>"
  shows "[1] \<in> is_validated syncs \<and> settled [1] w \<and> [1] \<notin> is_validated (iw_syncs w)"
proof -
  let ?rules = "\<lparr>or_static_peers = [], or_static_only = False, or_static_sequential = False, or_sequential_validation = False,
      or_max_inbound = 0, or_peering_cost = 0, or_own_hash = []\<rparr>"
  let ?w1 = "quiet_world\<lparr>iw_offers := [[1]]\<rparr>"
  let ?w2 = "?w1\<lparr>iw_syncs := syncs\<rparr>"
  let ?w3 = "?w2\<lparr>iw_closed := {[1]}, iw_closing := {[1]}\<rparr>"
  let ?w4 = "?w3\<lparr>iw_syncs := forget_link [1] syncs, iw_closing := {}\<rparr>"
  have 1: "inbound_step quiet_world ?w1"
    using offer_begins [where w = quiet_world and rules = ?rules and t = 0 and remote = "[]" and l = "[1]"] by (simp add: quiet_world_def offer_gate_def no_inbound_def)
  have 2: "inbound_step ?w1 ?w2" using offer_validated [where w = ?w1 and l = "[1]"] by (simp add: syncs_def quiet_world_def)
  have 3: "inbound_step ?w2 ?w3" using link_closes [where w = ?w2 and l = "[1]"] by (simp add: quiet_world_def)
  have 4: "inbound_step ?w3 ?w4" using close_callback [where w = ?w3 and l = "[1]"] by (simp add: quiet_world_def)
  have "forget_link [1] (forget_link [1] syncs) = forget_link [1] syncs"
    by (simp add: forget_link_def syncs_def link_validated_def no_inbound_def)
  then have "inbound_step ?w4 w"
    using offer_settled [where w = ?w4 and ls = "[]" and l = "[1]" and ls' = "[]"] by (simp add: quiet_world_def w_def forget_link_if_closed_def)
  from run_step [OF run_step [OF run_step [OF run_step [OF run_step [OF run_start 1] 2] 3] 4] this]
  have "inbound_run quiet_world w" .
  from closed_link_forgotten [OF this] show ?thesis
    by (auto simp: settled_def w_def syncs_def link_validated_def)
qed

text \<open>
  \<open>validating_pn_stamps_from\<close> holds one entry per sender, so a sender with two batches in validation
  loses its mark when the first ends: offers are taken while the second is still being validated.
\<close>

lemma second_batch_unmarked:
  assumes "is_validating I = []"
  shows "is_validating (unmark_validating sender l (mark_validating t' sender l' (mark_validating t sender l I))) = []"
  using assms by (simp add: unmark_validating_def mark_validating_def)

section \<open>An offer\<close>

text \<open>The messages an answer asks for, of those offered.\<close>

fun requested :: "offer_answer \<Rightarrow> bytes list \<Rightarrow> bytes list option" where
  "requested (OfferError _) ids = None"
| "requested OfferWantsNone ids = Some []"
| "requested OfferWantsAll ids = Some ids"
| "requested (OfferWants wanted) ids = Some wanted"

lemma answer_requests: "requested (fst (answer_offer link E ids I)) ids = Some (lacking_ids E ids)"
proof -
  have "lacking_ids E ids = ids" if "length (lacking_ids E ids) = length ids"
  proof -
    from that have "\<not> contains_key tid E" if "tid \<in> set ids" for tid
      using length_filter_less [OF that, of "\<lambda>tid. \<not> contains_key tid E"] by (auto simp: lacking_ids_def)
    then show ?thesis by (simp add: lacking_ids_def)
  qed
  then show ?thesis by (auto simp: answer_offer_def Let_def)
qed

lemma answer_keeps_validated: "is_validated (snd (answer_offer link E ids I)) = is_validated I"
  by (auto simp: answer_offer_def Let_def split: option.split)

lemma gate_opens:
  assumes "offer_gate rules t remote I = (True, I')"
  shows "\<forall>until. hget (is_throttled I) remote = Some until \<longrightarrow> until \<le> t"
    and "(remote \<notin> set (or_static_peers rules) \<or> or_static_sequential rules) \<longrightarrow>
      (or_sequential_validation rules \<longrightarrow> is_validating I = []) \<and> (0 < or_max_inbound rules \<longrightarrow> resources_transferring I < or_max_inbound rules)"
  using assms by (auto simp: offer_gate_def Let_def split: if_splits option.splits)

text \<open>
  C17: When \<open>handle_prop_offer\<close> takes an offer, the sender had identified, was not throttled any more, was a
  static peer where only those may sync, and proved a peering key against both identities at this node's
  cost; a sender that is no static peer (or any, where static peers are not let past) got through only
  with no batch being validated and fewer transfers than \<open>max_inbound_syncs\<close>. The answer then asks for
  exactly the offered messages the node does not hold, in the order offered, and the link counts as
  validated.
\<close>

theorem offer_answered_with_what_is_missing:
  assumes "handle_prop_offer rules valid_key t remote link request E I = (answer, I')" and "answer \<notin> range OfferError"
  obtains node identity key ids more where "remote = Some (node, identity)" and "request = Some (MArr (MBin key # ids # more))"
    and "requested answer (offered_ids_of ids) = Some (filter (\<lambda>tid. \<not> contains_key tid E) (offered_ids_of ids))"
    and "valid_key (or_own_hash rules @ identity) key (or_peering_cost rules)"
    and "or_static_only rules \<longrightarrow> node \<in> set (or_static_peers rules)"
    and "\<forall>until. hget (is_throttled I) node = Some until \<longrightarrow> until \<le> t"
    and "(node \<notin> set (or_static_peers rules) \<or> or_static_sequential rules) \<longrightarrow>
      (or_sequential_validation rules \<longrightarrow> is_validating I = []) \<and> (0 < or_max_inbound rules \<longrightarrow> resources_transferring I < or_max_inbound rules)"
    and "\<forall>l. link = Some l \<longrightarrow> l \<in> is_validated I'"
proof -
  from assms obtain node identity where remote: "remote = Some (node, identity)" by (cases remote) (auto simp: handle_prop_offer_def)
  obtain ok I1 where gate: "offer_gate rules t node I = (ok, I1)" by fastforce
  from assms remote gate have ok: ok by (auto simp: handle_prop_offer_def split: bool.splits)
  from assms remote gate ok have static: "or_static_only rules \<longrightarrow> node \<in> set (or_static_peers rules)"
    by (auto simp: handle_prop_offer_def split: if_splits)
  from assms remote gate ok static obtain key ids more where request: "request = Some (MArr (MBin key # ids # more))"
    by (auto simp: handle_prop_offer_def split: option.splits msg_value.splits list.splits)
  from assms remote gate ok static request have key: "valid_key (or_own_hash rules @ identity) key (or_peering_cost rules)"
    by (auto simp: handle_prop_offer_def split: if_splits)
  have answer: "answer_offer link E (offered_ids_of ids) (link_validated link I1) = (answer, I')"
    using assms(1) remote gate ok static request key by (auto simp: handle_prop_offer_def)
  have asked: "requested answer (offered_ids_of ids) = Some (filter (\<lambda>tid. \<not> contains_key tid E) (offered_ids_of ids))"
    using answer_requests [of link E "offered_ids_of ids" "link_validated link I1"] answer by (simp add: lacking_ids_def)
  have "\<forall>l. link = Some l \<longrightarrow> l \<in> is_validated I'"
    using answer_keeps_validated [of link E "offered_ids_of ids" "link_validated link I1"] answer by (simp add: link_validated_def)
  from that [OF remote request asked key static gate_opens [OF gate [unfolded eqTrueI [OF ok]]] this] show thesis .
qed

lemma offer_answered_with_what_is_missing_witness:
  defines "rules \<equiv> \<lparr>or_static_peers = [], or_static_only = False, or_static_sequential = False, or_sequential_validation = True,
      or_max_inbound = 1, or_peering_cost = 18, or_own_hash = [4]\<rparr>"
    and "E \<equiv> no_entries\<lparr>pr_rows := [Some (replicate 32 1, new_entry [] 0 0 0)], pr_index := [(replicate 32 1, 0)]\<rparr>"
    and "I \<equiv> no_inbound\<lparr>is_throttled := [([9], 5)]\<rparr>"
    and "request \<equiv> Some (MArr [MBin [6], MArr [MBin (replicate 32 1), MBin (replicate 32 2)]])"
  shows "fst (handle_prop_offer rules (\<lambda>m k _. m @ k = [4, 9, 6]) 8 (Some ([9], [9])) (Some [7]) request E I) = OfferWants [replicate 32 2] \<and>
    [7] \<in> is_validated (snd (handle_prop_offer rules (\<lambda>m k _. m @ k = [4, 9, 6]) 8 (Some ([9], [9])) (Some [7]) request E I))"
proof -
  let ?result = "handle_prop_offer rules (\<lambda>m k _. m @ k = [4, 9, 6]) 8 (Some ([9], [9])) (Some [7]) request E I"
  have missing: "\<not> contains_key (replicate 32 2) E" and held: "contains_key (replicate 32 1) E"
    by (simp_all add: E_def contains_key_def row_of_def no_entries_def nth_opt_def)
  have gate: "offer_gate rules 8 [9] I = (True, no_inbound)"
    by (simp add: offer_gate_def rules_def I_def no_inbound_def resources_transferring_def)
  have answer: "fst ?result = OfferWants [replicate 32 2]"
    using gate missing held by (simp add: handle_prop_offer_def request_def rules_def offered_ids_of_def answer_offer_def lacking_ids_def Let_def List.map_filter_def)
  have eq: "?result = (OfferWants [replicate 32 2], snd ?result)" using answer by (simp add: prod_eq_iff)
  have "[7] \<in> is_validated (snd ?result)"
    by (rule offer_answered_with_what_is_missing [OF eq]) auto
  with answer show ?thesis ..
qed

end
