(* ===== verification/Ingest.thy ===== *)
theory Ingest
  imports FedNode InboundSync
begin

text \<open>
  A propagation upload taken in (\<open>ingest_propagation_batch\<close> of \<open>rfed/src/lxmf_propagation.rs\<close>): the
  batch decoded, its sync claims matched, each stamp-valid message stored or, for a distro registered
  here, kept as a blob and fanned out, its recipient pushed to or woken, and what was dropped counted.

  \<open>lx_stamper::validate_pn_stamps\<close> is the argument \<open>validate\<close>; a message it accepts comes back as its
  transient id, the message without its stamp, the stamp's value and the stamp. The claims of a
  batch, their decoding and the check of their signature are \<open>lxmf_rust::distro\<close>'s. The n-th message
  meets the I/O \<open>io n\<close>.
\<close>

section \<open>The batch\<close>

type_synonym validated = "bytes \<times> bytes \<times> 32 word \<times> bytes"

record 'c sync_claims =
  sc_by_id :: "(bytes, 'c) hmap"
  sc_malformed :: nat
  sc_duplicate :: nat
  sc_ignored :: nat

definition no_claims :: "'c sync_claims" where
  "no_claims = \<lparr>sc_by_id = [], sc_malformed = 0, sc_duplicate = 0, sc_ignored = 0\<rparr>"

record 'c propagation_batch =
  pb_entries :: nat
  pb_messages :: "bytes list"
  pb_claims :: "'c sync_claims option"

fun bin_of :: "msg_value \<Rightarrow> bytes option" where
  "bin_of (MBin b) = Some b"
| "bin_of _ = None"

definition decode_propagation_batch :: "(msg_value \<Rightarrow> nat \<Rightarrow> 'c sync_claims) \<Rightarrow> msg_value option \<Rightarrow> 'c propagation_batch option" where
  "decode_propagation_batch decode_sync v = (case v of
      Some (MArr items) \<Rightarrow> (case nth_opt items 1 of
          Some (MArr vs) \<Rightarrow>
            (let messages = List.map_filter bin_of vs
             in Some \<lparr>pb_entries = length vs, pb_messages = messages,
                  pb_claims = map_option (\<lambda>extension. decode_sync extension (length messages)) (nth_opt items 2)\<rparr>)
        | _ \<Rightarrow> None)
    | _ \<Rightarrow> None)"

section \<open>Sync claims\<close>

definition DISTRO_SYNC_ID_LEN :: nat where "DISTRO_SYNC_ID_LEN = 16"

record 'c batch_claims =
  bc_claims :: "'c sync_claims"
  bc_accepted :: nat
  bc_refused :: nat
  bc_not_checked :: nat

definition batch_claims_of :: "'c sync_claims option \<Rightarrow> bool \<Rightarrow> 'c batch_claims" where
  "batch_claims_of claims from_peer =
     \<lparr>bc_claims = (case claims of
          Some c \<Rightarrow> if from_peer then no_claims\<lparr>sc_ignored := 1\<rparr> else c
        | None \<Rightarrow> no_claims),
      bc_accepted = 0, bc_refused = 0, bc_not_checked = 0\<rparr>"

definition claim_id :: "bytes \<Rightarrow> bytes option" where
  "claim_id tid = (if DISTRO_SYNC_ID_LEN \<le> length tid then Some (take DISTRO_SYNC_ID_LEN tid) else None)"

definition take_claim :: "bytes \<Rightarrow> 'c batch_claims \<Rightarrow> 'c option \<times> 'c batch_claims" where
  "take_claim tid bc = (case claim_id tid of
      None \<Rightarrow> (None, bc)
    | Some i \<Rightarrow> (case hget (sc_by_id (bc_claims bc)) i of
        None \<Rightarrow> (None, bc)
      | Some c \<Rightarrow> (Some c, bc\<lparr>bc_claims := (bc_claims bc)\<lparr>sc_by_id := hdel i (sc_by_id (bc_claims bc))\<rparr>\<rparr>)))"

definition verdict_for :: "('c \<Rightarrow> bytes \<Rightarrow> bytes \<Rightarrow> string + unit) \<Rightarrow> bytes \<Rightarrow> bytes \<Rightarrow> 'c batch_claims \<Rightarrow>
    (string + unit) option \<times> 'c batch_claims" where
  "verdict_for verify tid d bc = (case take_claim tid bc of
      (None, bc') \<Rightarrow> (None, bc')
    | (Some c, bc') \<Rightarrow> (case verify c tid d of
        Inr u \<Rightarrow> (Some (Inr u), bc'\<lparr>bc_accepted := bc_accepted bc' + 1\<rparr>)
      | Inl why \<Rightarrow> (Some (Inl why), bc'\<lparr>bc_refused := bc_refused bc' + 1\<rparr>)))"

definition any_open :: "'c batch_claims \<Rightarrow> bool" where
  "any_open bc \<longleftrightarrow> sc_by_id (bc_claims bc) \<noteq> []"

definition not_checked :: "bytes \<Rightarrow> 'c batch_claims \<Rightarrow> 'c batch_claims" where
  "not_checked tid bc = (case take_claim tid bc of
      (None, bc') \<Rightarrow> bc'
    | (Some _, bc') \<Rightarrow> bc'\<lparr>bc_not_checked := bc_not_checked bc' + 1\<rparr>)"

definition claims_summary :: "string \<Rightarrow> 'c batch_claims \<Rightarrow> string option" where
  "claims_summary origin bc =
     (let unmatched = length (sc_by_id (bc_claims bc)); c = bc_claims bc
      in if bc_refused bc + sc_malformed c + sc_duplicate c + bc_not_checked bc + unmatched + sc_ignored c = 0 then None
         else Some (''[distro-sync] batch from '' @ origin @ '': '' @ decimal (bc_accepted bc) @ '' accepted, '' @
           decimal (bc_refused bc) @ '' refused, '' @ decimal (sc_malformed c) @ '' malformed, '' @ decimal (sc_duplicate c) @
           '' duplicate, '' @ decimal (bc_not_checked bc) @ '' not checked, '' @ decimal unmatched @ '' unmatched, '' @
           decimal (sc_ignored c) @ '' ignored''))"

section \<open>Verdict lines\<close>

definition verdict_names :: "(bytes \<Rightarrow> string) \<Rightarrow> bytes \<Rightarrow> bytes \<Rightarrow> string" where
  "verdict_names hexrep tid dest = hexrep (take DISTRO_SYNC_ID_LEN tid) @ '' for '' @ hexrep dest"

definition accepted_verdict_line :: "(bytes \<Rightarrow> string) \<Rightarrow> bytes \<Rightarrow> bytes \<Rightarrow> distro_fanout_counts option \<Rightarrow> string" where
  "accepted_verdict_line hexrep tid dest fanned = (case fanned of
      None \<Rightarrow> ''[distro-sync] '' @ verdict_names hexrep tid dest @ '': proof accepted, already held: no fan-out''
    | Some f \<Rightarrow> ''[distro-sync] '' @ verdict_names hexrep tid dest @ '': proof accepted: '' @ decimal (df_pushed_live f) @
        '' pushed live, '' @ hand_offs_said f @
        (if 0 < df_unkeyed f then '', '' @ decimal (df_unkeyed f) @ '' NOT delivered (invalid key)'' else []))"

definition refused_verdict_line :: "(bytes \<Rightarrow> string) \<Rightarrow> bytes \<Rightarrow> bytes \<Rightarrow> string \<Rightarrow> bool \<Rightarrow> string" where
  "refused_verdict_line hexrep tid dest reason first_sight =
     ''[distro-sync] '' @ verdict_names hexrep tid dest @ '': proof refused ('' @ reason @
     (if first_sight then ''), fanning out with wake'' else ''), already held: no fan-out'')"

section \<open>Dropped messages\<close>

definition DROPPED_IDS_LOGGED :: nat where "DROPPED_IDS_LOGGED = 4"

record dropped_messages =
  dm_too_short :: nat
  dm_too_short_ids :: "bytes list"
  dm_invalid_stamp :: nat
  dm_invalid_stamp_ids :: "bytes list"

definition none_dropped :: dropped_messages where
  "none_dropped = \<lparr>dm_too_short = 0, dm_too_short_ids = [], dm_invalid_stamp = 0, dm_invalid_stamp_ids = []\<rparr>"

text \<open>The stamper's and LXMF's constants: \<open>STAMP_SIZE\<close> and \<open>LXMF_OVERHEAD\<close>.\<close>

record lxmf_sizes =
  lz_stamp :: nat
  lz_overhead :: nat

definition too_short_for_lxmf :: "lxmf_sizes \<Rightarrow> nat" where
  "too_short_for_lxmf z = lz_overhead z + lz_stamp z"

definition sort_dropped :: "lxmf_sizes \<Rightarrow> (bytes \<Rightarrow> bytes) \<Rightarrow> bytes \<Rightarrow> bytes list \<Rightarrow> 'c batch_claims \<Rightarrow> bytes list \<times> 'c batch_claims" where
  "sort_dropped z sha m ids bc =
     (let named = length ids < DROPPED_IDS_LOGGED
      in if \<not> named \<and> \<not> any_open bc then (ids, bc)
         else (let i = sha (take (length m - lz_stamp z) m)
               in (if named then ids @ [i] else ids, not_checked i bc)))"

definition stands_for :: "bytes \<Rightarrow> validated list \<Rightarrow> bool" where
  "stands_for m valid = (case valid of
      [] \<Rightarrow> False
    | (_, d, _, stamp) # _ \<Rightarrow> length m = length d + length stamp \<and> take (length d) m = d \<and> drop (length d) m = stamp)"

fun dropped_loop :: "lxmf_sizes \<Rightarrow> (bytes \<Rightarrow> bytes) \<Rightarrow> bytes list \<Rightarrow> validated list \<Rightarrow> dropped_messages \<Rightarrow> 'c batch_claims \<Rightarrow>
    dropped_messages \<times> 'c batch_claims" where
  "dropped_loop z sha [] valid dm bc = (dm, bc)"
| "dropped_loop z sha (m # ms) valid dm bc =
     (if length m \<le> too_short_for_lxmf z then
        (case sort_dropped z sha m (dm_too_short_ids dm) bc of (ids, bc') \<Rightarrow>
           dropped_loop z sha ms valid (dm\<lparr>dm_too_short := dm_too_short dm + 1, dm_too_short_ids := ids\<rparr>) bc')
      else if stands_for m valid then dropped_loop z sha ms (tl valid) dm bc
      else (case sort_dropped z sha m (dm_invalid_stamp_ids dm) bc of (ids, bc') \<Rightarrow>
           dropped_loop z sha ms valid (dm\<lparr>dm_invalid_stamp := dm_invalid_stamp dm + 1, dm_invalid_stamp_ids := ids\<rparr>) bc'))"

definition dropped_messages_of :: "lxmf_sizes \<Rightarrow> (bytes \<Rightarrow> bytes) \<Rightarrow> bytes list \<Rightarrow> validated list \<Rightarrow> 'c batch_claims \<Rightarrow>
    dropped_messages \<times> 'c batch_claims" where
  "dropped_messages_of z sha ms valid bc = dropped_loop z sha ms valid none_dropped bc"

definition named_ids :: "(bytes \<Rightarrow> string) \<Rightarrow> nat \<Rightarrow> bytes list \<Rightarrow> string" where
  "named_ids hexrep n ids = join '', '' (map hexrep ids @ (if length ids < n then [''and '' @ decimal (n - length ids) @ '' more''] else []))"

definition dropped_messages_line :: "lxmf_sizes \<Rightarrow> (bytes \<Rightarrow> string) \<Rightarrow> dropped_messages \<Rightarrow> nat \<Rightarrow> string \<Rightarrow> string" where
  "dropped_messages_line z hexrep dm min_cost origin =
     ''[lxmf.prop] '' @ decimal (dm_invalid_stamp dm + dm_too_short dm) @ '' message(s) from '' @ origin @
     '' dropped, after the link proved the upload: '' @ join ''; ''
      ((if 0 < dm_invalid_stamp dm
        then [decimal (dm_invalid_stamp dm) @ '' with an invalid stamp (cost '' @ decimal min_cost @ '' required): '' @
              named_ids hexrep (dm_invalid_stamp dm) (dm_invalid_stamp_ids dm)] else []) @
       (if 0 < dm_too_short dm
        then [decimal (dm_too_short dm) @ '' too short to be an LXMF message ('' @ decimal (too_short_for_lxmf z) @
              '' bytes or fewer with its stamp): '' @ named_ids hexrep (dm_too_short dm) (dm_too_short_ids dm)] else []))"

section \<open>Delivery handles\<close>

text \<open>
  \<open>DeliveryHandles\<close>: a registry, table or store is \<open>None\<close> when not set or poisoned, which the code
  treats alike, except the deferred queue, \<open>None\<close> when not set and \<open>Some None\<close> when poisoned.
\<close>

record 'w delivery =
  dl_registry :: "notify_registry option"
  dl_links :: "(bytes, link_session) hmap option"
  dl_streams :: "(bytes, propagation_stream_session) hmap option"
  dl_distros :: "distro_table option"
  dl_blobs :: "blob_store option"
  dl_hooks :: "'w delivery_hook list option"
  dl_queue :: "deferred_queue option option"
  dl_world :: 'w

text \<open>What one message meets: the links, the stack, the disk, the clock, the queue's database, and whether the node's lock can be taken.\<close>

record 'i message_io =
  mi_device :: df_env
  mi_wake :: "nat \<Rightarrow> 'i wake_env"
  mi_nid :: "deferred_row list \<Rightarrow> int"
  mi_txn :: "nat \<Rightarrow> txn"
  mi_time :: "nat \<Rightarrow> secs"
  mi_blob_rm :: "bytes \<times> bytes \<Rightarrow> bool"
  mi_blob_write :: file_write
  mi_lock_ok :: bool
  mi_write :: message_write
  mi_now :: secs

definition notify_recipient :: "'i wake_env \<Rightarrow> (bytes \<Rightarrow> bytes) \<Rightarrow> notify_registry option \<Rightarrow> bytes \<Rightarrow> bool \<times> 'i stack_action list" where
  "notify_recipient env full_hash registry d =
     (if length d < 16 then (False, [])
      else (case registry of
          None \<Rightarrow> (False, [])
        | Some g \<Rightarrow> (let regs = get_for_channel (take 16 d) None g
            in if regs = [] then (False, [])
               else (let (ws, acts) = wake_each env 0 regs None (wake_message full_hash d None)
                     in (0 < length (filter is_sent ws), acts)))))"

definition handles_is_distro :: "bytes \<Rightarrow> 'w delivery \<Rightarrow> bool" where
  "handles_is_distro dest dl = (case dl_distros dl of None \<Rightarrow> False | Some tbl \<Rightarrow> is_distro dest tbl)"

definition DISTRO_DEFERRED_QUEUE_LIMIT :: nat where "DISTRO_DEFERRED_QUEUE_LIMIT = 256"

definition ingest_hand :: "'i message_io \<Rightarrow> (bytes \<Rightarrow> bytes) \<Rightarrow> bytes \<Rightarrow> bytes \<Rightarrow> wake \<Rightarrow> 'w delivery \<Rightarrow> nat \<Rightarrow> unconfirmed \<Rightarrow>
    'i hand_state \<Rightarrow> hand_off_outcome \<times> 'i hand_state" where
  "ingest_hand io full_hash dest d wk dl n rc h = (case dl_queue dl of
      None \<Rightarrow> (\<lparr>ho_queued = False, ho_woken = False, ho_because = None\<rparr>, h)
    | Some _ \<Rightarrow> (case distro_hand_off (mi_wake io n) full_hash (mi_nid io) (mi_txn io n) (mi_time io n)
          (\<lambda>_. DISTRO_DEFERRED_QUEUE_LIMIT) dest d wk (dl_registry dl) rc (hn_queue h) of
        ((handed, lines, acts), dq) \<Rightarrow> (handed, \<lparr>hn_queue = dq, hn_lines = hn_lines h @ lines, hn_actions = hn_actions h @ acts\<rparr>)))"

definition handles_distro_fanout :: "'i message_io \<Rightarrow> (bytes \<Rightarrow> bytes) \<Rightarrow> bytes \<Rightarrow> bytes \<Rightarrow> wake \<Rightarrow> 'w delivery \<Rightarrow>
    (distro_fanout_counts \<times> device_route list \<times> 'i stack_action list) \<times> 'w delivery" where
  "handles_distro_fanout io full_hash dest d wk dl =
     (let devices = (case dl_distros dl of None \<Rightarrow> [] | Some tbl \<Rightarrow> devices_snapshot dest tbl)
      in if devices = [] then ((no_counts 0, [], []), dl)
         else (case distro_fanout (mi_device io) (case dl_hooks dl of None \<Rightarrow> [] | Some hooks \<Rightarrow> hooks)
             (ingest_hand io full_hash dest d wk dl) d devices
             \<lparr>ds_links = dl_links dl, ds_streams = dl_streams dl,
              ds_queue = \<lparr>hn_queue = (case dl_queue dl of None \<Rightarrow> None | Some dq \<Rightarrow> dq), hn_lines = [], hn_actions = []\<rparr>,
              ds_world = dl_world dl\<rparr> of
           (f, routes, st) \<Rightarrow> ((f, routes, hn_actions (ds_queue st)),
              dl\<lparr>dl_links := ds_links st, dl_streams := ds_streams st,
                 dl_queue := map_option (\<lambda>_. hn_queue (ds_queue st)) (dl_queue dl), dl_world := ds_world st\<rparr>)))"

text \<open>The message goes to the client live; a push left without an answer or a proof runs \<open>notify_recipient\<close> later.\<close>

datatype live_outcome = LiveStreamed | LiveNotified | LiveNone

datatype live_push = PushedOnLinks "bytes list" | PushedOnStream "push_outcome option" | NotPushed

definition live_on_links :: "df_env \<Rightarrow> bytes \<Rightarrow> bytes \<Rightarrow> 'w delivery \<Rightarrow> (stream_dispatch_result \<times> bytes list) \<times> 'w delivery" where
  "live_on_links env dest d dl = (case dl_links dl of
      None \<Rightarrow> ((\<lparr>sd_matched = 0, sd_sent = 0\<rparr>, []), dl)
    | Some links \<Rightarrow> (case dispatch_lxmf (de_alive env 0) (de_enc env) (de_request env 0) dest d links of
        (r, links') \<Rightarrow> (r, dl\<lparr>dl_links := Some links'\<rparr>)))"

definition live_on_streams :: "df_env \<Rightarrow> bytes \<Rightarrow> 'w delivery \<Rightarrow> (stream_dispatch_result \<times> push_outcome option) \<times> 'w delivery" where
  "live_on_streams env dest dl = (case dl_streams dl of
      None \<Rightarrow> ((\<lparr>sd_matched = 0, sd_sent = 0\<rparr>, None), dl)
    | Some streams \<Rightarrow> (case dispatch_propagation (de_alive env 0) (de_send_link env 0) dest streams of
        (r, streams') \<Rightarrow> (r, dl\<lparr>dl_streams := Some streams'\<rparr>)))"

definition dispatch_live_or_notify :: "'i message_io \<Rightarrow> (bytes \<Rightarrow> bytes) \<Rightarrow> bytes \<Rightarrow> 'w delivery \<Rightarrow>
    (live_outcome \<times> live_push \<times> 'i stack_action list) \<times> 'w delivery" where
  "dispatch_live_or_notify io full_hash d dl =
     (if length d < 16 then ((LiveNone, NotPushed, []), dl)
      else (case live_on_links (mi_device io) (take 16 d) d dl of ((r, links), dl1) \<Rightarrow>
        if delivered r then ((LiveStreamed, PushedOnLinks links, []), dl1)
        else (case live_on_streams (mi_device io) (take 16 d) dl1 of ((r', out), dl2) \<Rightarrow>
          if delivered r' then ((LiveStreamed, PushedOnStream out, []), dl2)
          else (case notify_recipient (mi_wake io 0) full_hash (dl_registry dl2) d of (woken, acts) \<Rightarrow>
            ((if woken then LiveNotified else LiveNone, NotPushed, acts), dl2)))))"

text \<open>Whether the caller is to fan out, and how many blobs were stored.\<close>

definition ingest_distro_blob :: "'i message_io \<Rightarrow> (bytes \<Rightarrow> bytes) \<Rightarrow> bytes \<Rightarrow> bytes \<Rightarrow> 'w delivery \<Rightarrow> (bool \<times> nat) \<times> 'w delivery" where
  "ingest_distro_blob io truncated_hash dest d dl = (case dl_blobs dl of
      None \<Rightarrow> ((True, 0), dl)
    | Some s \<Rightarrow> (let i = distro_message_id truncated_hash d
        in if hget (bs_index s) i \<noteq> None then ((False, 0), dl)
           else (case store_with_id (mi_blob_rm io) (mi_blob_write io) (mi_now io) (mi_now io) dest i d s of
               (Inr _, s') \<Rightarrow> ((True, 1), dl\<lparr>dl_blobs := Some s'\<rparr>)
             | (Inl _, s') \<Rightarrow> ((True, 0), dl\<lparr>dl_blobs := Some s'\<rparr>))))"

section \<open>One message\<close>

text \<open>
  What the batch is taken in with: \<open>hexrep\<close>, the formatting of seconds and the hashes of the library,
  the check of a claim, and the sender when it is one of the peers.
\<close>

record 'c ingest_env =
  ie_hexrep :: "bytes \<Rightarrow> string"
  ie_show_secs :: "secs \<Rightarrow> string"
  ie_full_hash :: "bytes \<Rightarrow> bytes"
  ie_truncated_hash :: "bytes \<Rightarrow> bytes"
  ie_verify :: "'c \<Rightarrow> bytes \<Rightarrow> bytes \<Rightarrow> string + unit"
  ie_from_peer :: "bytes option"

text \<open>\<open>ir_fanned\<close> are the messages fanned out, in order, with what the fan-out did.\<close>

record ('c, 'i, 'w) ingest_run =
  ir_node :: prop_node
  ir_delivery :: "'w delivery"
  ir_claims :: "'c batch_claims"
  ir_stored :: nat
  ir_streamed :: nat
  ir_notified :: nat
  ir_fanned :: "(bytes \<times> wake \<times> distro_fanout_counts) list"
  ir_lines :: "(log_level \<times> string) list"
  ir_actions :: "'i stack_action list"

definition dest_of :: "bytes \<Rightarrow> bytes" where
  "dest_of d = (if 16 \<le> length d then take 16 d else [])"

definition wake_for_verdict :: "(string + unit) option \<Rightarrow> wake" where
  "wake_for_verdict v = (case v of Some (Inr _) \<Rightarrow> QueueOnly | _ \<Rightarrow> Push)"

definition ingest_distro :: "'c ingest_env \<Rightarrow> 'i message_io \<Rightarrow> bytes \<Rightarrow> bytes \<Rightarrow> ('c, 'i, 'w) ingest_run \<Rightarrow> ('c, 'i, 'w) ingest_run" where
  "ingest_distro env io tid d run =
     (case verdict_for (ie_verify env) tid d (ir_claims run) of (verdict, bc) \<Rightarrow>
        (case ingest_distro_blob io (ie_truncated_hash env) (dest_of d) d (ir_delivery run) of ((first_sight, n), dl) \<Rightarrow>
           (let refused = (case verdict of
                  Some (Inl why) \<Rightarrow> [(LOG_WARNING, refused_verdict_line (ie_hexrep env) tid (dest_of d) why first_sight)] | _ \<Rightarrow> []);
                (fanned, dl') = (if first_sight
                  then (case handles_distro_fanout io (ie_full_hash env) (dest_of d) d (wake_for_verdict verdict) dl of (f, dl') \<Rightarrow> (Some f, dl'))
                  else (None, dl));
                accepted = (case verdict of
                  Some (Inr _) \<Rightarrow> [(LOG_NOTICE, accepted_verdict_line (ie_hexrep env) tid (dest_of d) (map_option fst fanned))] | _ \<Rightarrow> [])
            in run\<lparr>ir_delivery := dl', ir_claims := bc, ir_stored := ir_stored run + n,
                 ir_fanned := ir_fanned run @ (case fanned of None \<Rightarrow> [] | Some (f, _, _) \<Rightarrow> [(d, wake_for_verdict verdict, f)]),
                 ir_lines := ir_lines run @ refused @ accepted,
                 ir_actions := ir_actions run @ (case fanned of None \<Rightarrow> [] | Some (_, _, acts) \<Rightarrow> acts)\<rparr>)))"

definition store_from :: "'c ingest_env \<Rightarrow> 'i message_io \<Rightarrow> validated \<Rightarrow> prop_node \<Rightarrow> bytes option \<times> prop_node" where
  "store_from env io m node = (case m of (tid, d, value, stamp) \<Rightarrow>
     (case store_message (ie_hexrep env) (ie_show_secs env) (ie_full_hash env) (mi_write io) (mi_now io) d value (Some stamp) (ie_from_peer env) node of
        (was_stored, node') \<Rightarrow> (was_stored, case ie_from_peer env of
            None \<Rightarrow> node' | Some peer \<Rightarrow> node'\<lparr>pn_sync := mark_handled_for peer [tid] (pn_sync node')\<rparr>)))"

definition ingest_stored :: "'c ingest_env \<Rightarrow> 'i message_io \<Rightarrow> validated \<Rightarrow> ('c, 'i, 'w) ingest_run \<Rightarrow> ('c, 'i, 'w) ingest_run" where
  "ingest_stored env io m run = (case store_from env io m (ir_node run) of
      (None, node) \<Rightarrow> run\<lparr>ir_node := node\<rparr>
    | (Some _, node) \<Rightarrow> (case dispatch_live_or_notify io (ie_full_hash env) (fst (snd m)) (ir_delivery run) of ((outcome, _, acts), dl) \<Rightarrow>
        run\<lparr>ir_node := node, ir_delivery := dl, ir_stored := ir_stored run + 1,
          ir_streamed := ir_streamed run + (if outcome = LiveStreamed then 1 else 0),
          ir_notified := ir_notified run + (if outcome = LiveNotified then 1 else 0),
          ir_actions := ir_actions run @ acts\<rparr>))"

text \<open>\<open>None\<close> when the node's lock is poisoned, which ends the ingest there.\<close>

definition ingest_one :: "'c ingest_env \<Rightarrow> 'i message_io \<Rightarrow> validated \<Rightarrow> ('c, 'i, 'w) ingest_run \<Rightarrow> ('c, 'i, 'w) ingest_run option" where
  "ingest_one env io m run = (case m of (tid, d, _, _) \<Rightarrow>
     if handles_is_distro (dest_of d) (ir_delivery run) then Some (ingest_distro env io tid d run)
     else if mi_lock_ok io then Some (ingest_stored env io m run) else None)"

fun ingest_messages :: "'c ingest_env \<Rightarrow> (nat \<Rightarrow> 'i message_io) \<Rightarrow> nat \<Rightarrow> validated list \<Rightarrow> ('c, 'i, 'w) ingest_run \<Rightarrow> bool \<times> ('c, 'i, 'w) ingest_run" where
  "ingest_messages env io n [] run = (True, run)"
| "ingest_messages env io n (m # ms) run = (case ingest_one env (io n) m run of
      None \<Rightarrow> (False, run)
    | Some run' \<Rightarrow> ingest_messages env io (Suc n) ms run')"

section \<open>The batch taken in\<close>

text \<open>
  How it came: a Resource with the \<open>lxmf.propagation\<close> hash of the identity its sender proved, whether an
  offer on its link presented a valid peering key, and the link.
\<close>

datatype upload = PacketUpload | ResourceUpload "bytes option" bool bytes

fun sender_hash :: "upload \<Rightarrow> bytes option" where
  "sender_hash PacketUpload = None"
| "sender_hash (ResourceUpload sender _ _) = sender"

definition sending_peer :: "bytes option \<Rightarrow> prop_node \<Rightarrow> bytes option" where
  "sending_peer sender node = (case sender of
      None \<Rightarrow> None | Some h \<Rightarrow> if hget (sn_peers (pn_sync node)) h \<noteq> None then Some h else None)"

definition origin_text :: "(bytes \<Rightarrow> string) \<Rightarrow> bytes option \<Rightarrow> bytes option \<Rightarrow> string" where
  "origin_text hexrep sender from_peer = (case from_peer of
      Some peer \<Rightarrow> ''peer '' @ hexrep peer
    | None \<Rightarrow> (case sender of
        Some h \<Rightarrow> hexrep h @ '' (not a peer)''
      | None \<Rightarrow> ''a sender with no identity (handled as a client's)''))"

definition unkeyed_batch :: "upload \<Rightarrow> nat \<Rightarrow> bool" where
  "unkeyed_batch up entries = (case up of ResourceUpload _ False _ \<Rightarrow> 1 < entries | _ \<Rightarrow> False)"

text \<open>The stamps of an identified sender's Resource are checked under a \<open>ValidationMark\<close>, gone when they are.\<close>

definition mark_upload :: "secs \<Rightarrow> upload \<Rightarrow> inbound_syncs \<Rightarrow> inbound_syncs" where
  "mark_upload t up I = (case up of ResourceUpload (Some h) _ l \<Rightarrow> mark_validating t h l I | _ \<Rightarrow> I)"

definition unmark_upload :: "upload \<Rightarrow> inbound_syncs \<Rightarrow> inbound_syncs" where
  "unmark_upload up I = (case up of ResourceUpload (Some h) _ l \<Rightarrow> unmark_validating h l I | _ \<Rightarrow> I)"

definition punish_upload :: "secs \<Rightarrow> upload \<Rightarrow> inbound_syncs \<Rightarrow> bytes list \<times> inbound_syncs" where
  "punish_upload t up I = (case up of
      PacketUpload \<Rightarrow> ([], I)
    | ResourceUpload sender _ l \<Rightarrow> ([l], case sender of None \<Rightarrow> I | Some h \<Rightarrow> throttle_sender t h I))"

text \<open>What comes of it: the links torn down, the lines and the counts of the messages that were dropped.\<close>

record ('c, 'i, 'w) ingested =
  in_run :: "('c, 'i, 'w) ingest_run"
  in_syncs :: inbound_syncs
  in_torn :: "bytes list"
  in_invalid :: nat
  in_dropped :: "dropped_messages option"
  in_summary :: "string option"

definition first_run :: "bytes option \<Rightarrow> 'c propagation_batch \<Rightarrow> prop_node \<Rightarrow> 'w delivery \<Rightarrow> ('c, 'i, 'w) ingest_run" where
  "first_run from_peer b n dl =
     \<lparr>ir_node = n, ir_delivery = dl, ir_claims = batch_claims_of (pb_claims b) (from_peer \<noteq> None), ir_stored = 0,
      ir_streamed = 0, ir_notified = 0, ir_fanned = [], ir_lines = [], ir_actions = []\<rparr>"

definition count_dropped :: "lxmf_sizes \<Rightarrow> 'c ingest_env \<Rightarrow> bytes list \<Rightarrow> validated list \<Rightarrow> 'c batch_claims \<Rightarrow>
    dropped_messages option \<times> 'c batch_claims" where
  "count_dropped z env ms valid bc =
     (if 0 < length ms - length valid \<and> ie_from_peer env = None
      then (case dropped_messages_of z (ie_full_hash env) ms valid bc of (dm, bc') \<Rightarrow> (Some dm, bc'))
      else (None, bc))"

definition settle_batch :: "lxmf_sizes \<Rightarrow> 'c ingest_env \<Rightarrow> nat \<Rightarrow> string \<Rightarrow> secs \<Rightarrow> upload \<Rightarrow> bytes list \<Rightarrow> validated list \<Rightarrow>
    ('c, 'i, 'w) ingest_run \<Rightarrow> inbound_syncs \<Rightarrow> ('c, 'i, 'w) ingested" where
  "settle_batch z env min_cost origin t up ms valid run I =
     (let invalid = length ms - length valid;
          dropped = count_dropped z env ms valid (ir_claims run);
          punished = (if 0 < invalid then punish_upload t up I else ([], I))
      in \<lparr>in_run = run\<lparr>ir_claims := snd dropped, ir_lines := ir_lines run @
            (case fst dropped of None \<Rightarrow> [] | Some dm \<Rightarrow> [(LOG_WARNING, dropped_messages_line z (ie_hexrep env) dm min_cost origin)])\<rparr>,
          in_syncs = snd punished, in_torn = fst punished, in_invalid = invalid, in_dropped = fst dropped,
          in_summary = claims_summary origin (snd dropped)\<rparr>)"

text \<open>
  \<open>costs\<close> are the node's stamp cost and flexibility, \<open>t\<close> and \<open>t'\<close> the clock when the stamps are checked
  and when the sender is throttled. Gives the links torn down and, unless the batch was refused or empty,
  what came of it.
\<close>

definition ingest_propagation_batch :: "lxmf_sizes \<Rightarrow> (bytes list \<Rightarrow> nat \<Rightarrow> validated list) \<Rightarrow> nat \<times> nat \<Rightarrow> 'c ingest_env \<Rightarrow>
    (nat \<Rightarrow> 'i message_io) \<Rightarrow> secs \<Rightarrow> secs \<Rightarrow> upload \<Rightarrow> 'c propagation_batch option \<Rightarrow> prop_node option \<Rightarrow> 'w delivery \<Rightarrow>
    inbound_syncs \<Rightarrow> bytes list \<times> ('c, 'i, 'w) ingested option" where
  "ingest_propagation_batch z validate costs env io t t' up batch node dl I = (case (batch, node) of
      (Some b, Some n) \<Rightarrow>
        if unkeyed_batch up (pb_entries b) then (case up of ResourceUpload _ _ l \<Rightarrow> [l] | PacketUpload \<Rightarrow> [], None)
        else if pb_messages b = [] then ([], None)
        else (let env' = env\<lparr>ie_from_peer := sending_peer (sender_hash up) n\<rparr>;
                  min_cost = fst costs - snd costs;
                  origin = origin_text (ie_hexrep env) (sender_hash up) (ie_from_peer env');
                  valid = validate (pb_messages b) min_cost;
                  I' = unmark_upload up (mark_upload t up I);
                  run = ingest_messages env' io 0 valid (first_run (ie_from_peer env') b n dl);
                  r = (if fst run then settle_batch z env' min_cost origin t' up (pb_messages b) valid (snd run) I'
                       else \<lparr>in_run = snd run, in_syncs = I', in_torn = [], in_invalid = length (pb_messages b) - length valid,
                             in_dropped = None, in_summary = None\<rparr>)
              in (in_torn r, Some r))
    | _ \<Rightarrow> ([], None))"

end
