(* ===== verification/Ingest_Props.thy ===== *)
theory Ingest_Props
  imports Ingest
begin

text \<open>
  What the ingest of an upload promises: mail to a distro stays out of the messagestore and everything
  else goes in, every sync claim is counted once, every dropped message is counted under its reason, a
  batch of more than one message needs a valid peering key, and a sender of invalid stamps is throttled.
\<close>

section \<open>Claims\<close>

text \<open>The claims of a batch, those still open and those settled.\<close>

definition claims_total :: "'c batch_claims \<Rightarrow> nat" where
  "claims_total bc = length (sc_by_id (bc_claims bc)) + bc_accepted bc + bc_refused bc + bc_not_checked bc"

definition claims_ok :: "nat \<Rightarrow> 'c batch_claims \<Rightarrow> bool" where
  "claims_ok n bc \<longleftrightarrow> hkeys_distinct (sc_by_id (bc_claims bc)) \<and> claims_total bc = n"

lemma hdel_length: "hkeys_distinct m \<Longrightarrow> hget m k = Some v \<Longrightarrow> length m = Suc (length (hdel k m))"
proof (induction m)
  case (Cons x m)
  then show ?case by (cases "fst x = k"; cases x) (auto simp: hkeys_distinct_Cons hdel_absent)
qed simp

lemma take_claim_ok:
  assumes "claims_ok n bc" and "take_claim tid bc = (c, bc')"
  shows "hkeys_distinct (sc_by_id (bc_claims bc')) \<and> claims_total bc' + (if c = None then 0 else 1) = n"
  using assms hdel_length [of "sc_by_id (bc_claims bc)"] hm.inv_del [of "sc_by_id (bc_claims bc)"]
  by (auto simp: take_claim_def claims_ok_def claims_total_def split: option.splits)

lemma verdict_for_ok: "claims_ok n bc \<Longrightarrow> verdict_for verify tid d bc = (v, bc') \<Longrightarrow> claims_ok n bc'"
  by (auto simp: verdict_for_def claims_ok_def claims_total_def split: prod.splits option.splits sum.splits
      dest!: take_claim_ok [unfolded claims_ok_def claims_total_def, rotated])

lemma not_checked_ok: "claims_ok n bc \<Longrightarrow> claims_ok n (not_checked tid bc)"
  by (auto simp: not_checked_def claims_ok_def claims_total_def split: prod.splits option.splits
      dest!: take_claim_ok [unfolded claims_ok_def claims_total_def, rotated])

lemma batch_claims_ok:
  "hkeys_distinct (sc_by_id c) \<Longrightarrow> claims_ok (if from_peer then 0 else length (sc_by_id c)) (batch_claims_of (Some c) from_peer)"
  "claims_ok 0 (batch_claims_of None from_peer)"
  by (simp_all add: claims_ok_def claims_total_def batch_claims_of_def no_claims_def hkeys_distinct_def)

lemma ingest_distro_claims: "ir_claims (ingest_distro env io tid d run) = snd (verdict_for (ie_verify env) tid d (ir_claims run))"
  by (simp add: ingest_distro_def Let_def split: prod.split)

lemma ingest_stored_claims: "ir_claims (ingest_stored env io m run) = ir_claims run"
  by (simp add: ingest_stored_def Let_def split: prod.split option.split)

lemma ingest_messages_claims:
  "claims_ok n (ir_claims run) \<Longrightarrow> claims_ok n (ir_claims (snd (ingest_messages env io i ms run)))"
proof (induction ms arbitrary: i run)
  case (Cons m ms)
  have "claims_ok n (ir_claims run')" if "ingest_one env (io i) m run = Some run'" for run'
  proof -
    obtain tid d v stamp where m: "m = (tid, d, v, stamp)" by (cases m)
    from verdict_for_ok [OF Cons.prems] have "claims_ok n (snd (verdict_for (ie_verify env) tid d (ir_claims run)))"
      by (metis surjective_pairing)
    with that Cons.prems show ?thesis
      by (auto simp: ingest_one_def m ingest_distro_claims ingest_stored_claims split: if_splits)
  qed
  with Cons show ?case by (auto split: option.split)
qed simp

lemma sort_dropped_ok: "claims_ok n bc \<Longrightarrow> claims_ok n (snd (sort_dropped z sha m ids bc))"
  by (simp add: sort_dropped_def Let_def not_checked_ok)

lemma dropped_loop_ok: "claims_ok n bc \<Longrightarrow> claims_ok n (snd (dropped_loop z sha ms valid dm bc))"
proof (induction ms arbitrary: valid dm bc)
  case (Cons m ms)
  obtain ids bc1 where s: "sort_dropped z sha m (dm_too_short_ids dm) bc = (ids, bc1)" by fastforce
  obtain ids' bc2 where i: "sort_dropped z sha m (dm_invalid_stamp_ids dm) bc = (ids', bc2)" by fastforce
  from sort_dropped_ok [OF Cons.prems, of z sha m "dm_too_short_ids dm"] s have "claims_ok n bc1" by simp
  moreover from sort_dropped_ok [OF Cons.prems, of z sha m "dm_invalid_stamp_ids dm"] i have "claims_ok n bc2" by simp
  ultimately show ?case using Cons.IH [OF Cons.prems] Cons.IH by (simp add: s i)
qed simp

lemma count_dropped_ok: "claims_ok n bc \<Longrightarrow> claims_ok n (snd (count_dropped z env ms valid bc))"
  using dropped_loop_ok [of n bc z "ie_full_hash env" ms valid none_dropped]
  by (auto simp: count_dropped_def dropped_messages_of_def split: prod.split)

text \<open>An ingest that gives a result, in its parts.\<close>

lemma ingest_parts:
  assumes "ingest_propagation_batch z validate costs env io t t' up (Some b) (Some n) dl I = (torn, Some r)"
  obtains env' valid run where "env' = env\<lparr>ie_from_peer := sending_peer (sender_hash up) n\<rparr>"
    and "valid = validate (pb_messages b) (fst costs - snd costs)"
    and "run = ingest_messages env' io 0 valid (first_run (ie_from_peer env') b n dl)"
    and "\<not> unkeyed_batch up (pb_entries b)" and "pb_messages b \<noteq> []" and "torn = in_torn r"
    and "r = (if fst run then settle_batch z env' (fst costs - snd costs) (origin_text (ie_hexrep env) (sender_hash up) (ie_from_peer env'))
          t' up (pb_messages b) valid (snd run) (unmark_upload up (mark_upload t up I))
        else \<lparr>in_run = snd run, in_syncs = unmark_upload up (mark_upload t up I), in_torn = [],
          in_invalid = length (pb_messages b) - length valid, in_dropped = None, in_summary = None\<rparr>)"
proof -
  from assms have k: "\<not> unkeyed_batch up (pb_entries b)"
    by (cases "unkeyed_batch up (pb_entries b)") (simp_all add: ingest_propagation_batch_def)
  from assms k have e: "pb_messages b \<noteq> []"
    by (cases "pb_messages b = []") (simp_all add: ingest_propagation_batch_def)
  define env' where "env' = env\<lparr>ie_from_peer := sending_peer (sender_hash up) n\<rparr>"
  define valid where "valid = validate (pb_messages b) (fst costs - snd costs)"
  define run where "run = ingest_messages env' io 0 valid (first_run (ie_from_peer env') b n dl)"
  define r' where "r' = (if fst run then settle_batch z env' (fst costs - snd costs) (origin_text (ie_hexrep env) (sender_hash up) (ie_from_peer env'))
          t' up (pb_messages b) valid (snd run) (unmark_upload up (mark_upload t up I))
        else \<lparr>in_run = snd run, in_syncs = unmark_upload up (mark_upload t up I), in_torn = [],
          in_invalid = length (pb_messages b) - length valid, in_dropped = None, in_summary = None\<rparr>)"
  have "ingest_propagation_batch z validate costs env io t t' up (Some b) (Some n) dl I = (in_torn r', Some r')"
    unfolding r'_def run_def valid_def env'_def using k e by (simp add: ingest_propagation_batch_def Let_def)
  with assms have "(torn, Some r) = (in_torn r', Some r')" by (rule trans [OF sym])
  then have r: "r = r'" and t: "torn = in_torn r" by blast+
  show thesis by (rule that [OF env'_def valid_def run_def k e t r'_def [folded r]])
qed

text \<open>
  Every sync claim of a client's batch is counted exactly once: when the batch has been taken in, the
  claims accepted, refused and not checked and those left unmatched add up to the claims it carried. Of a
  peer's batch none is looked at.
\<close>

theorem claims_counted_once:
  assumes "ingest_propagation_batch z validate costs env io t t' up (Some b) (Some n) dl I = (torn, Some r)"
    and "pb_claims b = Some c" and "hkeys_distinct (sc_by_id c)"
  shows "bc_accepted (ir_claims (in_run r)) + bc_refused (ir_claims (in_run r)) + bc_not_checked (ir_claims (in_run r)) +
      length (sc_by_id (bc_claims (ir_claims (in_run r)))) =
    (if sending_peer (sender_hash up) n = None then length (sc_by_id c) else 0)"
proof -
  let ?n = "if sending_peer (sender_hash up) n \<noteq> None then 0 else length (sc_by_id c)"
  obtain env' valid run where "env' = env\<lparr>ie_from_peer := sending_peer (sender_hash up) n\<rparr>"
    and run: "run = ingest_messages env' io 0 valid (first_run (ie_from_peer env') b n dl)"
    and r: "r = (if fst run then settle_batch z env' (fst costs - snd costs) (origin_text (ie_hexrep env) (sender_hash up) (ie_from_peer env'))
          t' up (pb_messages b) valid (snd run) (unmark_upload up (mark_upload t up I))
        else \<lparr>in_run = snd run, in_syncs = unmark_upload up (mark_upload t up I), in_torn = [],
          in_invalid = length (pb_messages b) - length valid, in_dropped = None, in_summary = None\<rparr>)"
    by (rule ingest_parts [OF assms(1)]) (rule that, assumption+)
  from this(1) batch_claims_ok(1) [OF assms(3), of "sending_peer (sender_hash up) n \<noteq> None"] assms(2)
  have "claims_ok ?n (ir_claims (first_run (ie_from_peer env') b n dl :: ('a, 'b, 'c) ingest_run))" by (simp add: first_run_def)
  from ingest_messages_claims [OF this, of env' io 0 valid] have run_ok: "claims_ok ?n (ir_claims (snd run))" by (simp add: run)
  have "ir_claims (in_run r) = (if fst run then snd (count_dropped z env' (pb_messages b) valid (ir_claims (snd run))) else ir_claims (snd run))"
    by (simp add: r settle_batch_def Let_def)
  with run_ok count_dropped_ok [OF run_ok] have "claims_ok ?n (ir_claims (in_run r))" by simp
  then have "claims_total (ir_claims (in_run r)) = ?n" by (simp add: claims_ok_def)
  then show ?thesis by (cases "sending_peer (sender_hash up) n") (simp_all add: claims_total_def)
qed

section \<open>What goes where\<close>

lemma blob_keeps_distros: "dl_distros (snd (ingest_distro_blob io h dest d dl)) = dl_distros dl"
  by (auto simp: ingest_distro_blob_def Let_def split: option.split prod.split sum.split)

lemma fanout_keeps_distros: "dl_distros (snd (handles_distro_fanout io h dest d w dl)) = dl_distros dl"
  by (auto simp: handles_distro_fanout_def Let_def split: prod.split)

lemma live_keeps_distros: "dl_distros (snd (dispatch_live_or_notify io h d dl)) = dl_distros dl"
  by (auto simp: dispatch_live_or_notify_def live_on_links_def live_on_streams_def split: option.split prod.split)

lemma ingest_distro_keeps:
  "ir_node (ingest_distro env io tid d run) = ir_node run"
  "dl_distros (ir_delivery (ingest_distro env io tid d run)) = dl_distros (ir_delivery run)"
proof -
  obtain v bc where v: "verdict_for (ie_verify env) tid d (ir_claims run) = (v, bc)" by fastforce
  obtain first k dl where b: "ingest_distro_blob io (ie_truncated_hash env) (dest_of d) d (ir_delivery run) = ((first, k), dl)"
    by (metis prod.collapse)
  from blob_keeps_distros [of io "ie_truncated_hash env" "dest_of d" d "ir_delivery run"] b
  have dl: "dl_distros dl = dl_distros (ir_delivery run)" by simp
  show "ir_node (ingest_distro env io tid d run) = ir_node run"
    by (simp add: ingest_distro_def v b Let_def split: prod.split)
  show "dl_distros (ir_delivery (ingest_distro env io tid d run)) = dl_distros (ir_delivery run)"
    using dl fanout_keeps_distros [of io "ie_full_hash env" "dest_of d" d "wake_for_verdict v" dl]
    by (auto simp: ingest_distro_def v b Let_def split: prod.split)
qed

lemma ingest_stored_keeps:
  "ir_node (ingest_stored env io m run) = snd (store_from env io m (ir_node run))"
  "dl_distros (ir_delivery (ingest_stored env io m run)) = dl_distros (ir_delivery run)"
  "ir_fanned (ingest_stored env io m run) = ir_fanned run"
proof -
  obtain s node where s: "store_from env io m (ir_node run) = (s, node)" by fastforce
  obtain p dl where p: "dispatch_live_or_notify io (ie_full_hash env) (fst (snd m)) (ir_delivery run) = (p, dl)" by fastforce
  from live_keeps_distros [of io "ie_full_hash env" "fst (snd m)" "ir_delivery run"] p
  have dl: "dl_distros dl = dl_distros (ir_delivery run)" by simp
  show "ir_node (ingest_stored env io m run) = snd (store_from env io m (ir_node run))"
    "dl_distros (ir_delivery (ingest_stored env io m run)) = dl_distros (ir_delivery run)"
    "ir_fanned (ingest_stored env io m run) = ir_fanned run"
    using dl by (auto simp: ingest_stored_def s p split: option.split prod.split)
qed

text \<open>The messages of a batch that are mail, with their number.\<close>

definition mail_of :: "'w delivery \<Rightarrow> nat \<Rightarrow> validated list \<Rightarrow> (nat \<times> validated) list" where
  "mail_of dl i ms = filter (\<lambda>(_, m). \<not> handles_is_distro (dest_of (fst (snd m))) dl) (enumerate i ms)"

lemma is_distro_cong: "dl_distros dl' = dl_distros dl \<Longrightarrow> handles_is_distro dest dl' = handles_is_distro dest dl"
  by (simp add: handles_is_distro_def)

lemma mail_cong: "dl_distros dl' = dl_distros dl \<Longrightarrow> mail_of dl' i ms = mail_of dl i ms"
  using is_distro_cong [of dl' dl] by (simp add: mail_of_def)

lemma ingest_messages_node:
  assumes "\<forall>i. mi_lock_ok (io i)"
  shows "fst (ingest_messages env io i ms run) \<and>
    ir_node (snd (ingest_messages env io i ms run)) =
      fold (\<lambda>(i, m) n. snd (store_from env (io i) m n)) (mail_of (ir_delivery run) i ms) (ir_node run)"
proof (induction ms arbitrary: i run)
  case (Cons m ms)
  obtain tid d v stamp where m: "m = (tid, d, v, stamp)" by (cases m)
  show ?case
  proof (cases "handles_is_distro (dest_of d) (ir_delivery run)")
    case True
    then have "ingest_one env (io i) m run = Some (ingest_distro env (io i) tid d run)" by (simp add: ingest_one_def m)
    moreover have "mail_of (ir_delivery run) i (m # ms) = mail_of (ir_delivery (ingest_distro env (io i) tid d run)) (Suc i) ms"
      unfolding mail_cong [OF ingest_distro_keeps(2)] using True by (simp add: mail_of_def m)
    ultimately show ?thesis using Cons.IH [of "Suc i" "ingest_distro env (io i) tid d run"] by (simp add: ingest_distro_keeps(1))
  next
    case False
    then have "ingest_one env (io i) m run = Some (ingest_stored env (io i) m run)" using assms by (simp add: ingest_one_def m)
    moreover have "mail_of (ir_delivery run) i (m # ms) = (i, m) # mail_of (ir_delivery (ingest_stored env (io i) m run)) (Suc i) ms"
      unfolding mail_cong [OF ingest_stored_keeps(2)] using False by (simp add: mail_of_def m)
    ultimately show ?thesis using Cons.IH [of "Suc i" "ingest_stored env (io i) m run"] by (simp add: ingest_stored_keeps(1))
  qed
qed (simp add: mail_of_def)


section \<open>Fan-outs without a wake\<close>

lemma take_claim_sub:
  assumes "take_claim tid bc = (c, bc')"
  shows "set (sc_by_id (bc_claims bc')) \<subseteq> set (sc_by_id (bc_claims bc)) \<and>
    (\<forall>x. c = Some x \<longrightarrow> (\<exists>i. claim_id tid = Some i \<and> (i, x) \<in> set (sc_by_id (bc_claims bc))))"
  using assms by (auto simp: take_claim_def set_hdel dest: hget_mem split: option.splits)

lemma verdict_for_sub:
  assumes "verdict_for verify tid d bc = (v, bc')"
  shows "set (sc_by_id (bc_claims bc')) \<subseteq> set (sc_by_id (bc_claims bc)) \<and>
    (wake_for_verdict v = QueueOnly \<longrightarrow> (\<exists>i c. claim_id tid = Some i \<and> (i, c) \<in> set (sc_by_id (bc_claims bc)) \<and> verify c tid d = Inr ()))"
proof -
  obtain c bc1 where t: "take_claim tid bc = (c, bc1)" by fastforce
  from assms take_claim_sub [OF t] show ?thesis
    by (cases c) (auto simp: verdict_for_def t wake_for_verdict_def split: sum.splits)
qed

text \<open>\<open>cs\<close> are the claims of the batch.\<close>

definition quiet_ok :: "('c \<Rightarrow> bytes \<Rightarrow> bytes \<Rightarrow> string + unit) \<Rightarrow> (bytes \<times> 'c) set \<Rightarrow> ('c, 'i, 'w) ingest_run \<Rightarrow> bool" where
  "quiet_ok verify cs run \<longleftrightarrow> set (sc_by_id (bc_claims (ir_claims run))) \<subseteq> cs \<and>
     (\<forall>d f. (d, QueueOnly, f) \<in> set (ir_fanned run) \<longrightarrow> (\<exists>i c tid. claim_id tid = Some i \<and> (i, c) \<in> cs \<and> verify c tid d = Inr ()))"

lemma ingest_distro_quiet:
  assumes "quiet_ok (ie_verify env) cs run"
  shows "quiet_ok (ie_verify env) cs (ingest_distro env io tid d run)"
proof -
  obtain v bc where v: "verdict_for (ie_verify env) tid d (ir_claims run) = (v, bc)" by fastforce
  obtain first k dl where b: "ingest_distro_blob io (ie_truncated_hash env) (dest_of d) d (ir_delivery run) = ((first, k), dl)"
    by (metis prod.collapse)
  obtain f routes acts dl' where fan: "handles_distro_fanout io (ie_full_hash env) (dest_of d) d (wake_for_verdict v) dl = ((f, routes, acts), dl')"
    by (metis prod.collapse)
  have f: "ir_fanned (ingest_distro env io tid d run) = ir_fanned run @ (if first then [(d, wake_for_verdict v, f)] else [])"
    by (cases first) (simp_all add: ingest_distro_def v b fan Let_def)
  from assms verdict_for_sub [OF v] show ?thesis
    unfolding quiet_ok_def f ingest_distro_claims v by (auto split: if_splits)
qed

lemma ingest_messages_quiet:
  "quiet_ok (ie_verify env) cs run \<Longrightarrow> quiet_ok (ie_verify env) cs (snd (ingest_messages env io i ms run))"
proof (induction ms arbitrary: i run)
  case (Cons m ms)
  have "quiet_ok (ie_verify env) cs run'" if "ingest_one env (io i) m run = Some run'" for run'
  proof -
    obtain tid d v stamp where m: "m = (tid, d, v, stamp)" by (cases m)
    have stored: "quiet_ok (ie_verify env) cs (ingest_stored env (io i) m run)"
      using Cons.prems by (simp add: quiet_ok_def ingest_stored_claims ingest_stored_keeps)
    from that have "run' = ingest_distro env (io i) tid d run \<or> run' = ingest_stored env (io i) m run"
      by (auto simp: ingest_one_def m split: if_splits)
    with ingest_distro_quiet [OF Cons.prems] stored show ?thesis by auto
  qed
  with Cons show ?case by (auto split: option.split)
qed simp

text \<open>
  C15: A distro message of an uploaded batch is fanned out without waking the devices it cannot reach live
  only when the batch carried a claim for it whose proof verifies, and never when it came from a peer: no
  one without the proof can keep a distro's devices from being woken.
\<close>

theorem quiet_fanout_needs_proof:
  assumes "ingest_propagation_batch z validate costs env io t t' up (Some b) (Some n) dl I = (torn, Some r)"
    and "(d, QueueOnly, f) \<in> set (ir_fanned (in_run r))"
  shows "sending_peer (sender_hash up) n = None \<and>
    (\<exists>claims c tid. pb_claims b = Some claims \<and> (take 16 tid, c) \<in> set (sc_by_id claims) \<and> ie_verify env c tid d = Inr ())"
proof -
  obtain env' valid run where env': "env' = env\<lparr>ie_from_peer := sending_peer (sender_hash up) n\<rparr>"
    and run: "run = ingest_messages env' io 0 valid (first_run (ie_from_peer env') b n dl)"
    and r: "r = (if fst run then settle_batch z env' (fst costs - snd costs) (origin_text (ie_hexrep env) (sender_hash up) (ie_from_peer env'))
          t' up (pb_messages b) valid (snd run) (unmark_upload up (mark_upload t up I))
        else \<lparr>in_run = snd run, in_syncs = unmark_upload up (mark_upload t up I), in_torn = [],
          in_invalid = length (pb_messages b) - length valid, in_dropped = None, in_summary = None\<rparr>)"
    by (rule ingest_parts [OF assms(1)]) (rule that, assumption+)
  let ?cs = "set (sc_by_id (bc_claims (batch_claims_of (pb_claims b) (sending_peer (sender_hash up) n \<noteq> None))))"
  have "quiet_ok (ie_verify env') ?cs (first_run (ie_from_peer env') b n dl :: ('a, 'b, 'c) ingest_run)"
    by (simp add: quiet_ok_def first_run_def env')
  from ingest_messages_quiet [OF this, of io 0 valid] have quiet: "quiet_ok (ie_verify env) ?cs (snd run)" by (simp add: run env')
  have "ir_fanned (in_run r) = ir_fanned (snd run)" by (simp add: r settle_batch_def Let_def)
  with quiet assms(2) obtain i c tid where c: "claim_id tid = Some i" "(i, c) \<in> ?cs" "ie_verify env c tid d = Inr ()"
    unfolding quiet_ok_def by auto
  from c(1) have "i = take 16 tid" by (simp add: claim_id_def DISTRO_SYNC_ID_LEN_def split: if_splits)
  with c(2,3) show ?thesis
    by (auto simp: batch_claims_of_def no_claims_def split: option.splits if_splits)
qed

section \<open>Senders held to their word\<close>

text \<open>
  C13: A Resource of more than one entry is taken in only when its advertisement came on a link on which
  an identified node had presented a valid peering key; any other is refused whole, nothing stored, and
  its link torn down.
\<close>

theorem unkeyed_batch_refused:
  assumes "resource_advertised limit static_only data_size (OnLink l node) recorded I0 = (True, sender, I1)"
    and "1 < pb_entries b"
    and "ingest_propagation_batch z validate costs env io t t' (ResourceUpload (as_identity sender) (as_key_valid sender) l)
      (Some b) (Some n) dl I = (torn, result)"
    and "node = None \<or> l \<notin> is_validated I0"
  shows "torn = [l] \<and> result = None"
proof -
  from assms(1) have "as_key_valid sender \<longleftrightarrow> node \<noteq> None \<and> l \<in> is_validated I0"
    by (auto simp: resource_advertised_def split: if_splits option.splits)
  with assms(4) have "\<not> as_key_valid sender" by blast
  with assms(2,3) show ?thesis by (simp add: ingest_propagation_batch_def unkeyed_batch_def)
qed

lemma throttled_offer_answered:
  assumes "hget (is_throttled I) h = Some until" and "t < until"
  shows "fst (handle_prop_offer rules valid_key t (Some (h, identity)) link request E I) = OfferError ERROR_THROTTLED"
  using assms by (auto simp: handle_prop_offer_def offer_gate_def Let_def)


section \<open>Dropped messages\<close>

text \<open>
  A check of stamps as the stamper makes it: it returns the messages it accepts in the batch's order, each
  split into message and stamp, and none that is too short.
\<close>

definition checks_in_order :: "lxmf_sizes \<Rightarrow> (bytes \<Rightarrow> validated option) \<Rightarrow> bool" where
  "checks_in_order z check \<longleftrightarrow>
     (\<forall>m tid d v stamp. check m = Some (tid, d, v, stamp) \<longrightarrow> m = d @ stamp \<and> too_short_for_lxmf z < length m)"

lemma checks_in_orderD:
  "checks_in_order z check \<Longrightarrow> check m = Some (tid, d, v, stamp) \<Longrightarrow> m = d @ stamp"
  "checks_in_order z check \<Longrightarrow> check m = Some x \<Longrightarrow> too_short_for_lxmf z < length m"
  unfolding checks_in_order_def by (blast, cases x, blast)

lemma stands_for_checked:
  assumes "checks_in_order z check" and "check m = Some (tid, d, v, stamp)"
  shows "stands_for m ((tid, d, v, stamp) # valid)"
  using checks_in_orderD(1) [OF assms] by (simp add: stands_for_def)

lemma stands_for_bytes: "stands_for m ((tid, d, v, stamp) # valid) \<Longrightarrow> m = d @ stamp"
  unfolding stands_for_def by (simp, metis append_take_drop_id)

lemma stands_for_none:
  assumes "checks_in_order z check" and "check m = None"
  shows "\<not> stands_for m (List.map_filter check ms)"
proof (induction ms)
  case (Cons m' ms)
  show ?case
  proof (cases "check m'")
    case (Some x)
    obtain tid d v stamp where x: "x = (tid, d, v, stamp)" by (cases x)
    show ?thesis
    proof
      assume "stands_for m (List.map_filter check (m' # ms))"
      then have "stands_for m ((tid, d, v, stamp) # List.map_filter check ms)" by (simp add: Some x List.map_filter_simps)
      from stands_for_bytes [OF this] checks_in_orderD(1) [OF assms(1)] Some x have "m = m'" by simp
      with assms(2) Some show False by simp
    qed
  qed (use Cons in \<open>simp add: List.map_filter_simps\<close>)
qed (simp add: stands_for_def List.map_filter_simps)

definition too_shorts :: "lxmf_sizes \<Rightarrow> bytes list \<Rightarrow> bytes list" where
  "too_shorts z ms = filter (\<lambda>m. length m \<le> too_short_for_lxmf z) ms"

definition bad_stamps :: "lxmf_sizes \<Rightarrow> (bytes \<Rightarrow> validated option) \<Rightarrow> bytes list \<Rightarrow> bytes list" where
  "bad_stamps z check ms = filter (\<lambda>m. too_short_for_lxmf z < length m \<and> check m = None) ms"

lemma sort_dropped_ids:
  "fst (sort_dropped z sha m (take DROPPED_IDS_LOGGED ids) bc) = take DROPPED_IDS_LOGGED (ids @ [sha (take (length m - lz_stamp z) m)])"
  by (auto simp: sort_dropped_def Let_def)

definition named :: "lxmf_sizes \<Rightarrow> (bytes \<Rightarrow> bytes) \<Rightarrow> bytes list \<Rightarrow> bytes list" where
  "named z sha ms = map (\<lambda>m. sha (take (length m - lz_stamp z) m)) ms"

lemma dropped_loop_counts:
  assumes "checks_in_order z check"
  shows "fst (dropped_loop z sha ms (List.map_filter check ms)
      \<lparr>dm_too_short = a, dm_too_short_ids = take DROPPED_IDS_LOGGED as, dm_invalid_stamp = b, dm_invalid_stamp_ids = take DROPPED_IDS_LOGGED bs\<rparr> bc) =
    \<lparr>dm_too_short = a + length (too_shorts z ms), dm_too_short_ids = take DROPPED_IDS_LOGGED (as @ named z sha (too_shorts z ms)),
     dm_invalid_stamp = b + length (bad_stamps z check ms), dm_invalid_stamp_ids = take DROPPED_IDS_LOGGED (bs @ named z sha (bad_stamps z check ms))\<rparr>"
proof (induction ms arbitrary: a as b bs bc)
  case (Cons m ms)
  have short: "check m = None" if "length m \<le> too_short_for_lxmf z"
    using checks_in_orderD(2) [OF assms] that by (cases "check m") fastforce+
  consider (short) "length m \<le> too_short_for_lxmf z" | (good) x where "too_short_for_lxmf z < length m" "check m = Some x"
    | (bad) "too_short_for_lxmf z < length m" "check m = None" by (cases "check m") force+
  then show ?case
  proof cases
    case short
    with \<open>length m \<le> too_short_for_lxmf z \<Longrightarrow> check m = None\<close> Cons.IH [of "Suc a" "as @ [sha (take (length m - lz_stamp z) m)]"]
      sort_dropped_ids [of z sha m as bc] show ?thesis
      by (auto simp: List.map_filter_simps too_shorts_def bad_stamps_def named_def split: prod.split)
  next
    case good
    obtain tid d v stamp where x: "x = (tid, d, v, stamp)" by (cases x)
    with good stands_for_checked [OF assms, of m] Cons.IH show ?thesis
      by (simp add: List.map_filter_simps too_shorts_def bad_stamps_def)
  next
    case bad
    with stands_for_none [OF assms bad(2), of ms] Cons.IH [of a as "Suc b" "bs @ [sha (take (length m - lz_stamp z) m)]"]
      sort_dropped_ids [of z sha m bs bc] show ?thesis
      by (auto simp: List.map_filter_simps too_shorts_def bad_stamps_def named_def split: prod.split)
  qed
qed (simp add: List.map_filter_simps too_shorts_def bad_stamps_def named_def)

text \<open>
  The warning for the messages of a client's batch that were dropped tells the truth, as long as the
  stamper keeps the batch's order: it counts as too short exactly the messages that are, as badly stamped
  exactly the others it refused, both together what the batch lost, and names the first four of each kind
  by the transient id LXMF gives them. The walk compares bytes only, so this rests on a message refused
  never having the bytes of one accepted.
\<close>

theorem dropped_messages_counted:
  assumes "checks_in_order z check" and "valid = List.map_filter check ms"
  shows "fst (dropped_messages_of z sha ms valid bc) =
      \<lparr>dm_too_short = length (too_shorts z ms), dm_too_short_ids = take 4 (named z sha (too_shorts z ms)),
       dm_invalid_stamp = length (bad_stamps z check ms), dm_invalid_stamp_ids = take 4 (named z sha (bad_stamps z check ms))\<rparr> \<and>
    length (too_shorts z ms) + length (bad_stamps z check ms) = length ms - length valid"
proof
  show "fst (dropped_messages_of z sha ms valid bc) =
      \<lparr>dm_too_short = length (too_shorts z ms), dm_too_short_ids = take 4 (named z sha (too_shorts z ms)),
       dm_invalid_stamp = length (bad_stamps z check ms), dm_invalid_stamp_ids = take 4 (named z sha (bad_stamps z check ms))\<rparr>"
    using dropped_loop_counts [OF assms(1), of sha ms 0 "[]" 0 "[]" bc] assms(2)
    by (simp add: dropped_messages_of_def none_dropped_def DROPPED_IDS_LOGGED_def)
  have "length (too_shorts z ms) + length (bad_stamps z check ms) + length (List.map_filter check ms) = length ms"
  proof (induction ms)
    case (Cons m ms)
    show ?case
    proof (cases "check m")
      case None
      with Cons show ?thesis by (simp add: too_shorts_def bad_stamps_def List.map_filter_simps)
    next
      case (Some x)
      from checks_in_orderD(2) [OF assms(1) Some] Some Cons show ?thesis by (simp add: too_shorts_def bad_stamps_def List.map_filter_simps)
    qed
  qed (simp add: too_shorts_def bad_stamps_def List.map_filter_simps)
  then show "length (too_shorts z ms) + length (bad_stamps z check ms) = length ms - length valid" by (simp add: assms(2))
qed

section \<open>The claims at concrete inputs\<close>

lemma ingest_some:
  "\<not> unkeyed_batch up (pb_entries b) \<Longrightarrow> pb_messages b \<noteq> [] \<Longrightarrow>
    \<exists>torn r. ingest_propagation_batch z validate costs env io t t' up (Some b) (Some n) dl I = (torn, Some r)"
  by (simp add: ingest_propagation_batch_def Let_def)

lemma ingest_invalid:
  "ingest_propagation_batch z validate costs env io t t' up (Some b) (Some n) dl I = (torn, Some r) \<Longrightarrow>
    in_invalid r = length (pb_messages b) - length (validate (pb_messages b) (fst costs - snd costs))"
  by (erule ingest_parts) (auto simp: settle_batch_def Let_def)

definition demo_sizes :: lxmf_sizes where "demo_sizes = \<lparr>lz_stamp = 2, lz_overhead = 1\<rparr>"

definition demo_ingest_env :: "unit ingest_env" where
  "demo_ingest_env = \<lparr>ie_hexrep = (\<lambda>_. ''''), ie_show_secs = (\<lambda>_. ''''), ie_full_hash = (\<lambda>_. replicate 32 5),
     ie_truncated_hash = (\<lambda>_. replicate 16 5), ie_verify = (\<lambda>_ _ _. Inr ()), ie_from_peer = None\<rparr>"

definition demo_device_env :: df_env where
  "demo_device_env = \<lparr>de_alive = (\<lambda>_ _. True), de_enc = Some, de_request = (\<lambda>_ _ _ _. True), de_send_link = (\<lambda>_ _. Inr True),
     de_from_public_key = Some\<rparr>"

definition demo_wakes :: "nat \<Rightarrow> bytes wake_env" where
  "demo_wakes _ = \<lparr>we_decode_hex = (\<lambda>_. None), we_derive = (\<lambda>_ _ _. None), we_enc = (\<lambda>_. []),
     we_stack = (\<lambda>_. \<lparr>rs_has_path = (\<lambda>_. True), rs_recall = (\<lambda>_. None), rs_send = (\<lambda>_. Inr True), rs_packed = (\<lambda>_. None)\<rparr>)\<rparr>"

definition demo_message_io :: "bytes message_io" where
  "demo_message_io = \<lparr>mi_device = demo_device_env, mi_wake = demo_wakes, mi_nid = (\<lambda>rows. int (length rows)), mi_txn = (\<lambda>_. Committed),
     mi_time = (\<lambda>_. 9), mi_blob_rm = (\<lambda>_. True), mi_blob_write = Written, mi_lock_ok = True, mi_write = MessageWritten, mi_now = 9\<rparr>"

definition demo_delivery :: "unit delivery" where
  "demo_delivery = \<lparr>dl_registry = None, dl_links = None, dl_streams = None,
     dl_distros = Some \<lparr>dt_entries = [\<lparr>di_distro = replicate 16 3, di_device = [2], di_pubkey = [4], di_added = 0, di_owner = None, di_refreshed = 0\<rparr>], dt_db = None\<rparr>,
     dl_blobs = None, dl_hooks = None, dl_queue = None, dl_world = ()\<rparr>"

definition demo_prop_node :: prop_node where
  "demo_prop_node = \<lparr>pn_sync = \<lparr>sn_peers = [], sn_departed = [], sn_entries = no_entries, sn_fresh = [], sn_sends = [],
     sn_record_start = 0, sn_budget = 3, sn_started_at = 0, sn_hold_logged = False, sn_backlog_logged = False\<rparr>,
     pn_files = [], pn_processed = none_processed, pn_received = 0, pn_served = 0, pn_limit = 100\<rparr>"

definition demo_batch :: "unit propagation_batch" where
  "demo_batch = \<lparr>pb_entries = 1, pb_messages = [[1]], pb_claims = Some (no_claims\<lparr>sc_by_id := [(replicate 16 5, ())]\<rparr>)\<rparr>"

abbreviation demo_ingest :: "(bytes list \<Rightarrow> nat \<Rightarrow> validated list) \<Rightarrow> upload \<Rightarrow> unit propagation_batch \<Rightarrow>
    bytes list \<times> (unit, bytes, unit) ingested option" where
  "demo_ingest validate up b \<equiv> ingest_propagation_batch demo_sizes validate (16, 3) demo_ingest_env (\<lambda>_. demo_message_io) 8 9 up
     (Some b) (Some demo_prop_node) demo_delivery no_inbound"

lemma claims_counted_once_witness:
  "\<exists>torn r. demo_ingest (\<lambda>_ _. []) PacketUpload demo_batch = (torn, Some r) \<and>
     bc_accepted (ir_claims (in_run r)) + bc_refused (ir_claims (in_run r)) + bc_not_checked (ir_claims (in_run r)) +
       length (sc_by_id (bc_claims (ir_claims (in_run r)))) = 1"
proof -
  obtain torn r where run: "demo_ingest (\<lambda>_ _. []) PacketUpload demo_batch = (torn, Some r)"
    using ingest_some [of PacketUpload demo_batch] by (force simp: demo_batch_def unkeyed_batch_def)
  have c: "pb_claims demo_batch = Some (no_claims\<lparr>sc_by_id := [(replicate 16 5, ())]\<rparr>)" by (simp add: demo_batch_def)
  from claims_counted_once [OF run c] run show ?thesis by (simp add: hkeys_distinct_def sending_peer_def)
qed


lemma unkeyed_batch_refused_witness:
  "demo_ingest (\<lambda>_ _. []) (ResourceUpload (Some [9]) False [7]) (demo_batch\<lparr>pb_entries := 2\<rparr>) = ([[7]], None)"
proof -
  have advertised: "resource_advertised 1 None 500 (OnLink [7] (Some [9])) \<lparr>as_identity = None, as_key_valid = False\<rparr> no_inbound =
      (True, \<lparr>as_identity = Some [9], as_key_valid = False\<rparr>, no_inbound)"
    by (simp add: resource_advertised_def no_inbound_def)
  obtain torn and result :: "(unit, bytes, unit) ingested option" where
    run: "demo_ingest (\<lambda>_ _. []) (ResourceUpload (Some [9]) False [7]) (demo_batch\<lparr>pb_entries := 2\<rparr>) = (torn, result)" by fastforce
  have "torn = [[7]] \<and> result = None"
    by (rule unkeyed_batch_refused [OF advertised, of "demo_batch\<lparr>pb_entries := 2\<rparr>"]) (use run in \<open>simp_all add: no_inbound_def\<close>)
  with run show ?thesis by simp
qed


lemma dropped_messages_counted_witness:
  defines "check \<equiv> \<lambda>m :: bytes. if 3 < length m \<and> hd m = 1 then Some ([9 :: 8 word], take 2 m, 16 :: 32 word, drop 2 m) else None"
  defines "ms \<equiv> [[1, 1, 1, 1], [0], [2, 2, 2, 2]]"
  shows "checks_in_order demo_sizes check \<and>
    fst (dropped_messages_of demo_sizes (\<lambda>m. m) ms (List.map_filter check ms) (batch_claims_of (None :: unit sync_claims option) False)) =
      \<lparr>dm_too_short = 1, dm_too_short_ids = [[]], dm_invalid_stamp = 1, dm_invalid_stamp_ids = [[2, 2]]\<rparr>"
proof -
  have check: "checks_in_order demo_sizes check"
    by (auto simp: checks_in_order_def check_def demo_sizes_def too_short_for_lxmf_def split: if_splits)
  from dropped_messages_counted [OF check refl, of "\<lambda>m. m" ms "batch_claims_of (None :: unit sync_claims option) False"] check
  show ?thesis by (simp add: ms_def too_shorts_def bad_stamps_def named_def demo_sizes_def too_short_for_lxmf_def check_def)
qed

lemma quiet_fanout_needs_proof_witness:
  defines "valid \<equiv> [(replicate 16 5, replicate 16 3 @ [1], 14, [0, 0])]"
  shows "\<exists>torn r f. demo_ingest (\<lambda>_ _. valid) PacketUpload demo_batch = (torn, Some r) \<and>
    (replicate 16 3 @ [1], QueueOnly, f) \<in> set (ir_fanned (in_run r)) \<and> ie_verify demo_ingest_env () (replicate 16 5) (replicate 16 3 @ [1]) = Inr ()"
proof -
  obtain torn r where run: "demo_ingest (\<lambda>_ _. valid) PacketUpload demo_batch = (torn, Some r)"
    using ingest_some [of PacketUpload demo_batch] by (force simp: demo_batch_def unkeyed_batch_def)
  let ?run0 = "first_run None demo_batch demo_prop_node demo_delivery :: (unit, bytes, unit) ingest_run"
  have verdict: "verdict_for (ie_verify demo_ingest_env) (replicate 16 5) (replicate 16 3 @ [1]) (ir_claims ?run0) =
      (Some (Inr ()), \<lparr>bc_claims = no_claims, bc_accepted = 1, bc_refused = 0, bc_not_checked = 0\<rparr>)"
    by (simp add: verdict_for_def take_claim_def claim_id_def DISTRO_SYNC_ID_LEN_def first_run_def batch_claims_of_def demo_batch_def
        no_claims_def demo_ingest_env_def)
  have distro: "handles_is_distro (dest_of (replicate 16 3 @ [1])) demo_delivery"
    by (simp add: handles_is_distro_def demo_delivery_def is_distro_def dest_of_def)
  have blob: "ingest_distro_blob demo_message_io trunc dest d demo_delivery = ((True, 0), demo_delivery)" for trunc dest d
    by (simp add: ingest_distro_blob_def demo_delivery_def)
  obtain f routes acts dl' where fan: "handles_distro_fanout demo_message_io (ie_full_hash demo_ingest_env) (dest_of (replicate 16 3 @ [1]))
      (replicate 16 3 @ [1]) QueueOnly demo_delivery = ((f, routes, acts), dl')" by (metis prod.collapse)
  have demo_from: "ie_from_peer demo_ingest_env = None" by (simp add: demo_ingest_env_def)
  have env: "demo_ingest_env\<lparr>ie_from_peer := None\<rparr> = demo_ingest_env" by (simp add: demo_ingest_env_def)
  have "(replicate 16 3 @ [1], QueueOnly, f) \<in> set (ir_fanned (snd (ingest_messages demo_ingest_env (\<lambda>_. demo_message_io) 0 valid ?run0)))"
    using distro by (simp add: valid_def ingest_one_def first_run_def ingest_distro_def verdict [unfolded first_run_def, simplified] blob
        wake_for_verdict_def fan Let_def)
  moreover have "ir_fanned (in_run r) = ir_fanned (snd (ingest_messages demo_ingest_env (\<lambda>_. demo_message_io) 0 valid ?run0))"
    by (rule ingest_parts [OF run]) (simp add: settle_batch_def Let_def sending_peer_def env demo_from)
  ultimately have fanned: "(replicate 16 3 @ [1], QueueOnly, f) \<in> set (ir_fanned (in_run r))" by simp
  from quiet_fanout_needs_proof [OF run fanned] have "ie_verify demo_ingest_env () (replicate 16 5) (replicate 16 3 @ [1]) = Inr ()"
    by (simp add: demo_ingest_env_def)
  with run fanned show ?thesis by blast
qed

end
