(* ===== verification/Settings.thy ===== *)
theory Settings
  imports NodeConfig MessageStore FedSync
begin

text \<open>
  The settings of a node: the values of the config file (\<open>rfed/src/ini_config.rs\<close>), the flags of the
  command line and their merge into a \<open>NodeConfig\<close> (\<open>main\<close> of \<open>rfed/src/main.rs\<close>).

  \<open>configparser\<close> reads the text: the file is its map from sections to keys to values, \<open>None\<close> for a
  section or key that is missing, \<open>Some None\<close> for a key without a value. A string is its UTF-8 bytes.
  \<open>parse_secs\<close> is \<open>str::parse::<f64>\<close>, \<open>decode_hex\<close> is \<open>reticulum_rust::decode_hex\<close>.
  A \<open>u64\<close> or \<open>u32\<close> is a \<^typ>\<open>nat\<close> with the wrap-around written out; products of settings wrap as in a
  release build. Paths, the banner and the start of the stack are not modelled.
\<close>

section \<open>Strings\<close>

text \<open>The UTF-8 forms of the characters \<open>char::is_whitespace\<close> accepts.\<close>

definition code_units :: "nat list \<Rightarrow> string" where
  "code_units ns = map char_of ns"

definition WHITESPACE :: "string list" where
  "WHITESPACE = map (\<lambda>n. code_units [n]) [9, 10, 11, 12, 13, 32] @ map (\<lambda>n. code_units [194, n]) [133, 160] @
     [code_units [225, 154, 128]] @ map (\<lambda>n. code_units [226, 128, n]) ([128..<139] @ [168, 169, 175]) @
     [code_units [226, 129, 159], code_units [227, 128, 128]]"

definition starts_with :: "string \<Rightarrow> string \<Rightarrow> bool" where
  "starts_with w s \<longleftrightarrow> take (length w) s = w"

function strip_start :: "string list \<Rightarrow> string \<Rightarrow> string" where
  "strip_start ws s = (case find (\<lambda>w. w \<noteq> [] \<and> s \<noteq> [] \<and> starts_with w s) ws of
      None \<Rightarrow> s | Some w \<Rightarrow> strip_start ws (drop (length w) s))"
  by pat_completeness auto
termination
  by (relation "measure (\<lambda>(ws, s). length s)") (auto simp: find_Some_iff)

declare strip_start.simps [simp del]

definition trim :: "string \<Rightarrow> string" where
  "trim s = rev (strip_start (map rev WHITESPACE) (rev (strip_start WHITESPACE s)))"

text \<open>
  \<open>to_lowercase\<close> on what is compared: no word the code compares with has a \<open>k\<close>, the only ASCII letter that
  another character lowers to.
\<close>

definition lower :: "string \<Rightarrow> string" where
  "lower s = map (\<lambda>c. if 65 \<le> (of_char c :: nat) \<and> (of_char c :: nat) \<le> 90 then char_of ((of_char c :: nat) + 32) else c) s"

text \<open>\<open>parse\<close> to an unsigned integer below \<open>bound\<close>.\<close>

fun read_digits :: "nat \<Rightarrow> nat \<Rightarrow> string \<Rightarrow> nat option" where
  "read_digits bound acc [] = Some acc"
| "read_digits bound acc (c # cs) = (case digit_value c of
      None \<Rightarrow> None
    | Some d \<Rightarrow> if acc * 10 + d < bound then read_digits bound (acc * 10 + d) cs else None)"

definition parse_unsigned :: "nat \<Rightarrow> string \<Rightarrow> nat option" where
  "parse_unsigned bound s = (let ds = (case s of [] \<Rightarrow> [] | c # cs \<Rightarrow> if c = CHR ''+'' then cs else s)
     in if ds = [] then None else read_digits bound 0 ds)"

section \<open>The values of a section\<close>

type_synonym ini_section = "(string, string option) hmap"
type_synonym ini_map = "(string, ini_section) hmap"

datatype config_error =
    BadBoolean string string
  | BadInteger string string
  | BadNumber string string
  | BadHash string string
  | CannotRead
  | NotIni

definition flat_str :: "ini_section option \<Rightarrow> string \<Rightarrow> string option" where
  "flat_str sec key = (case sec of None \<Rightarrow> None | Some s \<Rightarrow> (case hget s key of None \<Rightarrow> None | Some v \<Rightarrow> v))"

definition parse_bool :: "string \<Rightarrow> bool option" where
  "parse_bool s = (let w = lower (trim s)
     in if w \<in> set [''yes'', ''true'', ''1'', ''on''] then Some True
        else if w \<in> set [''no'', ''false'', ''0'', ''off''] then Some False else None)"

definition flat_parsed :: "(string \<Rightarrow> 'a option) \<Rightarrow> (string \<Rightarrow> string \<Rightarrow> config_error) \<Rightarrow> ini_section option \<Rightarrow> string \<Rightarrow> config_error + 'a option" where
  "flat_parsed parse err sec key = (case flat_str sec key of
      None \<Rightarrow> Inr None
    | Some s \<Rightarrow> (case parse s of Some v \<Rightarrow> Inr (Some v) | None \<Rightarrow> Inl (err key s)))"

definition flat_bool :: "ini_section option \<Rightarrow> string \<Rightarrow> config_error + bool option" where
  "flat_bool = flat_parsed parse_bool (\<lambda>key s. BadBoolean key (lower (trim s)))"

definition flat_uint :: "ini_section option \<Rightarrow> string \<Rightarrow> config_error + nat option" where
  "flat_uint = flat_parsed (\<lambda>s. parse_unsigned (2 ^ 64) (trim s)) BadInteger"

definition flat_float :: "(string \<Rightarrow> secs option) \<Rightarrow> ini_section option \<Rightarrow> string \<Rightarrow> config_error + secs option" where
  "flat_float parse_secs = flat_parsed (\<lambda>s. parse_secs (trim s)) BadNumber"

definition flat_csv :: "ini_section option \<Rightarrow> string \<Rightarrow> string list" where
  "flat_csv sec key = (case flat_str sec key of
      None \<Rightarrow> [] | Some s \<Rightarrow> filter (\<lambda>w. w \<noteq> []) (map trim (split_on (CHR '','') s)))"

text \<open>\<open>as u32\<close>.\<close>

definition as_u32 :: "nat \<Rightarrow> nat" where
  "as_u32 n = n mod 2 ^ 32"

section \<open>The config file\<close>

record ini_node =
  in_name :: "string option"
  in_announce_interval :: "nat option"
  in_announce_at_start :: "bool option"
  in_propagation :: "bool option"
  in_autopeer :: "bool option"
  in_from_static_only :: "bool option"
  in_sequential :: "bool option"
  in_static_bypass :: "bool option"
  in_max_inbound :: "nat option"

record ini_storage =
  is_limit :: "nat option"
  is_transfer :: "nat option"
  is_sync :: "nat option"
  is_channel_transfer :: "nat option"
  is_channel_sync :: "nat option"

record ini_peering =
  ip_static_peers :: "string list"
  ip_from_static_only :: "bool option"
  ip_peering_cost :: "nat option"
  ip_trusted_backups :: "string list"
  ip_primary :: "string option"
  ip_secondaries :: "string list"
  ip_owner_offline :: "secs option"
  ip_propagation_peers :: "string list"

record ini_tier =
  it_stamp_cost :: "nat option"
  it_stamp_flexibility :: "nat option"
  it_queue_limit :: "nat option"
  it_pull_batch :: "nat option"
  it_allow_notify :: "bool option"
  it_allow_subscription :: "bool option"
  it_trusted_backup_only :: "bool option"

record ini_config =
  ic_node :: ini_node
  ic_storage :: ini_storage
  ic_peering :: ini_peering
  ic_default :: ini_tier
  ic_vip :: ini_tier
  ic_vips :: "string list"

text \<open>\<open>?\<close>.\<close>

definition and_then :: "'e + 'a \<Rightarrow> ('a \<Rightarrow> 'e + 'b) \<Rightarrow> 'e + 'b" where
  "and_then r f = (case r of Inl e \<Rightarrow> Inl e | Inr x \<Rightarrow> f x)"

definition parse_ini_node :: "ini_section option \<Rightarrow> config_error + ini_node" where
  "parse_ini_node n =
     and_then (flat_uint n ''announce_interval_minutes'') (\<lambda>interval.
     and_then (flat_bool n ''announce_at_start'') (\<lambda>at_start.
     and_then (flat_bool n ''lxmf_propagation'') (\<lambda>propagation.
     and_then (flat_bool n ''lxmf_propagation_autopeer'') (\<lambda>autopeer.
     and_then (flat_bool n ''lxmf_propagation_from_static_only'') (\<lambda>static_only.
     and_then (flat_bool n ''lxmf_propagation_sequential_validation'') (\<lambda>sequential.
     and_then (flat_bool n ''lxmf_propagation_static_peers_bypass_sequential'') (\<lambda>bypass.
     and_then (flat_uint n ''lxmf_propagation_max_inbound_syncs'') (\<lambda>max_inbound.
     Inr \<lparr>in_name = flat_str n ''name'', in_announce_interval = interval, in_announce_at_start = at_start,
          in_propagation = propagation, in_autopeer = autopeer, in_from_static_only = static_only, in_sequential = sequential,
          in_static_bypass = bypass, in_max_inbound = max_inbound\<rparr>))))))))"

definition parse_ini_storage :: "ini_section option \<Rightarrow> config_error + ini_storage" where
  "parse_ini_storage s =
     and_then (flat_uint s ''limit_mb'') (\<lambda>mb.
     and_then (flat_uint s ''transfer_limit_mb'') (\<lambda>transfer.
     and_then (flat_uint s ''sync_limit_mb'') (\<lambda>sync.
     and_then (flat_uint s ''channel_transfer_limit_mb'') (\<lambda>channel_transfer.
     and_then (flat_uint s ''channel_sync_limit_mb'') (\<lambda>channel_sync.
     Inr \<lparr>is_limit = mb, is_transfer = transfer, is_sync = sync, is_channel_transfer = channel_transfer, is_channel_sync = channel_sync\<rparr>)))))"

definition parse_ini_peering :: "(string \<Rightarrow> secs option) \<Rightarrow> ini_section option \<Rightarrow> config_error + ini_peering" where
  "parse_ini_peering parse_secs p =
     and_then (flat_bool p ''from_static_only'') (\<lambda>static_only.
     and_then (flat_uint p ''peering_cost'') (\<lambda>cost.
     and_then (flat_float parse_secs p ''owner_offline_secs'') (\<lambda>offline.
     Inr \<lparr>ip_static_peers = flat_csv p ''static_peers'', ip_from_static_only = static_only, ip_peering_cost = map_option as_u32 cost,
          ip_trusted_backups = flat_csv p ''trusted_backup_peers'', ip_primary = flat_str p ''primary_node'',
          ip_secondaries = flat_csv p ''secondary_nodes'', ip_owner_offline = offline,
          ip_propagation_peers = flat_csv p ''propagation_peers''\<rparr>)))"

definition parse_tier_policy :: "ini_section option \<Rightarrow> config_error + ini_tier" where
  "parse_tier_policy sec =
     and_then (flat_uint sec ''stamp_cost'') (\<lambda>cost.
     and_then (flat_uint sec ''stamp_flexibility'') (\<lambda>flexibility.
     and_then (flat_uint sec ''deferred_queue_limit'') (\<lambda>queue.
     and_then (flat_uint sec ''deferred_pull_batch_limit'') (\<lambda>batch.
     and_then (flat_bool sec ''allow_notify_registration'') (\<lambda>notify.
     and_then (flat_bool sec ''allow_subscription'') (\<lambda>subscription.
     and_then (flat_bool sec ''trusted_backup_only'') (\<lambda>backup.
     Inr \<lparr>it_stamp_cost = map_option as_u32 cost, it_stamp_flexibility = map_option as_u32 flexibility, it_queue_limit = queue,
          it_pull_batch = batch, it_allow_notify = notify, it_allow_subscription = subscription, it_trusted_backup_only = backup\<rparr>)))))))"

definition parse_ini :: "(string \<Rightarrow> secs option) \<Rightarrow> ini_map \<Rightarrow> config_error + ini_config" where
  "parse_ini parse_secs ini =
     and_then (parse_ini_node (hget ini ''node'')) (\<lambda>n.
     and_then (parse_ini_storage (hget ini ''storage'')) (\<lambda>s.
     and_then (parse_ini_peering parse_secs (hget ini ''peering'')) (\<lambda>p.
     and_then (parse_tier_policy (hget ini ''policy.default'')) (\<lambda>d.
     and_then (parse_tier_policy (hget ini ''policy.vip'')) (\<lambda>v.
     Inr \<lparr>ic_node = n, ic_storage = s, ic_peering = p, ic_default = d, ic_vip = v,
          ic_vips = flat_csv (hget ini ''vip'') ''subscribers''\<rparr>)))))"

text \<open>A file that is not there has no setting.\<close>

definition empty_tier :: ini_tier where
  "empty_tier = \<lparr>it_stamp_cost = None, it_stamp_flexibility = None, it_queue_limit = None, it_pull_batch = None,
     it_allow_notify = None, it_allow_subscription = None, it_trusted_backup_only = None\<rparr>"

definition empty_config :: ini_config where
  "empty_config = \<lparr>
     ic_node = \<lparr>in_name = None, in_announce_interval = None, in_announce_at_start = None, in_propagation = None,
       in_autopeer = None, in_from_static_only = None, in_sequential = None, in_static_bypass = None, in_max_inbound = None\<rparr>,
     ic_storage = \<lparr>is_limit = None, is_transfer = None, is_sync = None, is_channel_transfer = None, is_channel_sync = None\<rparr>,
     ic_peering = \<lparr>ip_static_peers = [], ip_from_static_only = None, ip_peering_cost = None, ip_trusted_backups = [],
       ip_primary = None, ip_secondaries = [], ip_owner_offline = None, ip_propagation_peers = []\<rparr>,
     ic_default = empty_tier, ic_vip = empty_tier, ic_vips = []\<rparr>"

text \<open>\<open>text\<close> is what reading the file gave, \<open>read_ini\<close> what \<open>configparser\<close> makes of it.\<close>

definition load_config :: "(string \<Rightarrow> secs option) \<Rightarrow> (string \<Rightarrow> ini_map option) \<Rightarrow> bool \<Rightarrow> string option \<Rightarrow> config_error + ini_config" where
  "load_config parse_secs read_ini present text =
     (if \<not> present then Inr empty_config
      else (case text of None \<Rightarrow> Inl CannotRead
        | Some t \<Rightarrow> (case read_ini t of None \<Rightarrow> Inl NotIni | Some ini \<Rightarrow> parse_ini parse_secs ini)))"

text \<open>\<open>propagation_inbound\<close> and \<open>channel_sync_limits_bytes\<close>.\<close>

definition propagation_inbound_of :: "ini_node \<Rightarrow> propagation_inbound" where
  "propagation_inbound_of n = \<lparr>
     pi_from_static_only = (case in_from_static_only n of Some b \<Rightarrow> b | None \<Rightarrow> pi_from_static_only inbound_default),
     pi_sequential_validation = (case in_sequential n of Some b \<Rightarrow> b | None \<Rightarrow> pi_sequential_validation inbound_default),
     pi_static_bypass = (case in_static_bypass n of Some b \<Rightarrow> b | None \<Rightarrow> pi_static_bypass inbound_default),
     pi_max_syncs = (case in_max_inbound n of Some m \<Rightarrow> min (max m 1) (2 ^ 32 - 1) | None \<Rightarrow> pi_max_syncs inbound_default)\<rparr>"

definition channel_sync_limits_bytes :: "ini_storage \<Rightarrow> nat \<times> nat" where
  "channel_sync_limits_bytes s =
     (let bytes = (\<lambda>mb. min (mb * (1024 * 1024)) (2 ^ 64 - 1))
      in (bytes (case is_channel_transfer s of Some mb \<Rightarrow> mb | None \<Rightarrow> DEFAULT_CHANNEL_TRANSFER_LIMIT_MB),
          bytes (case is_channel_sync s of Some mb \<Rightarrow> mb | None \<Rightarrow> DEFAULT_CHANNEL_SYNC_LIMIT_MB)))"

section \<open>The command line\<close>

text \<open>\<open>windows(2)\<close>: a flag may be the last argument, or the value of another.\<close>

fun arg_value :: "string list \<Rightarrow> string \<Rightarrow> string option" where
  "arg_value (a # b # args) flag = (if a = flag then Some b else arg_value (b # args) flag)"
| "arg_value _ flag = None"

definition has_flag :: "string list \<Rightarrow> string \<Rightarrow> bool" where
  "has_flag args flag \<longleftrightarrow> flag \<in> set args"

text \<open>The loop over the repeatable flags, from index 1; the error is the value that is no hash.\<close>

partial_function (option) repeated :: "(string \<Rightarrow> bytes option) \<Rightarrow> string \<Rightarrow> string list \<Rightarrow> nat \<Rightarrow> bytes list \<Rightarrow> (string + bytes list) option" where
  "repeated decode flag args idx acc =
     (if length args \<le> idx then Some (Inr acc)
      else if args ! idx = flag \<and> idx + 1 < length args
      then (case decode (args ! (idx + 1)) of
          Some b \<Rightarrow> repeated decode flag args (idx + 2) (acc @ [b])
        | None \<Rightarrow> Some (Inl (args ! (idx + 1))))
      else repeated decode flag args (idx + 1) acc)"

text \<open>\<open>decode_hex\<close> of every string, or the first that is no hash.\<close>

fun decode_all :: "(string \<Rightarrow> bytes option) \<Rightarrow> string list \<Rightarrow> string + bytes list" where
  "decode_all decode [] = Inr []"
| "decode_all decode (s # ss) = (case decode s of
      None \<Rightarrow> Inl s | Some b \<Rightarrow> (case decode_all decode ss of Inl e \<Rightarrow> Inl e | Inr bs \<Rightarrow> Inr (b # bs)))"

section \<open>The merge\<close>

text \<open>What a run parses and decodes with; \<open>minutes\<close> is \<open>(m * 60.0).max(1.0) as u64\<close> of the flag's number.\<close>

record settings_env =
  se_parse_secs :: "string \<Rightarrow> secs option"
  se_decode_hex :: "string \<Rightarrow> bytes option"
  se_minutes :: "secs \<Rightarrow> nat"

definition mul_u64 :: "nat \<Rightarrow> nat \<Rightarrow> nat" where
  "mul_u64 a b = a * b mod 2 ^ 64"

definition or_else :: "'a option \<Rightarrow> 'a option \<Rightarrow> 'a option" where
  "or_else a b = (case a of Some x \<Rightarrow> Some x | None \<Rightarrow> b)"

definition or_default :: "'a option \<Rightarrow> 'a \<Rightarrow> 'a" where
  "or_default a d = (case a of Some x \<Rightarrow> x | None \<Rightarrow> d)"

definition cli_parsed :: "(string \<Rightarrow> 'a option) \<Rightarrow> string list \<Rightarrow> string \<Rightarrow> 'a option" where
  "cli_parsed parse args flag = (case arg_value args flag of None \<Rightarrow> None | Some s \<Rightarrow> parse s)"

definition default_tier_of :: "string list \<Rightarrow> ini_tier \<Rightarrow> tier_policy" where
  "default_tier_of args d = \<lparr>
     tp_stamp_cost = or_else (cli_parsed (parse_unsigned (2 ^ 32)) args ''--stamp-cost'') (it_stamp_cost d),
     tp_stamp_flexibility = or_else (cli_parsed (parse_unsigned (2 ^ 32)) args ''--stamp-flexibility'') (it_stamp_flexibility d),
     tp_queue_limit = or_default (it_queue_limit d) 256, tp_pull_batch = it_pull_batch d,
     tp_allow_notify = or_default (it_allow_notify d) True, tp_allow_subscription = or_default (it_allow_subscription d) True,
     tp_trusted_backup_only = or_default (it_trusted_backup_only d) False\<rparr>"

definition vip_tier_of :: "ini_tier \<Rightarrow> tier_policy" where
  "vip_tier_of v = \<lparr>
     tp_stamp_cost = or_else (it_stamp_cost v) (Some 8), tp_stamp_flexibility = or_else (it_stamp_flexibility v) (Some 2),
     tp_queue_limit = or_default (it_queue_limit v) 1024, tp_pull_batch = it_pull_batch v,
     tp_allow_notify = or_default (it_allow_notify v) True, tp_allow_subscription = or_default (it_allow_subscription v) True,
     tp_trusted_backup_only = or_default (it_trusted_backup_only v) False\<rparr>"

definition decode16 :: "(string \<Rightarrow> bytes option) \<Rightarrow> string \<Rightarrow> bytes option" where
  "decode16 decode s = (case decode s of Some b \<Rightarrow> if length b = 16 then Some b else None | None \<Rightarrow> None)"

text \<open>\<open>None\<close> would be a loop that does not return; the strings of an error are what it is about and the value.\<close>

definition hashes_of :: "(string \<Rightarrow> bytes option) \<Rightarrow> string \<Rightarrow> string list \<Rightarrow> config_error + bytes list" where
  "hashes_of decode what ss = (case decode_all decode ss of Inl s \<Rightarrow> Inl (BadHash what s) | Inr bs \<Rightarrow> Inr bs)"

definition flag_hashes :: "(string \<Rightarrow> bytes option) \<Rightarrow> string \<Rightarrow> string list \<Rightarrow> config_error + bytes list" where
  "flag_hashes decode flag args = (case the (repeated decode flag args 1 []) of Inl s \<Rightarrow> Inl (BadHash flag s) | Inr bs \<Rightarrow> Inr bs)"

definition settings_of :: "settings_env \<Rightarrow> string list \<Rightarrow> ini_config \<Rightarrow> config_error + node_config" where
  "settings_of env args cfg =
     (let decode = (\<lambda>s. se_decode_hex env (trim s)); p = ic_peering cfg; st = ic_storage cfg; n = ic_node cfg
      in and_then (hashes_of decode ''VIP subscriber'' (ic_vips cfg)) (\<lambda>vips.
         and_then (hashes_of decode ''trusted_backup_peer'' (ip_trusted_backups p)) (\<lambda>backups.
         and_then (flag_hashes decode ''--static-peer'' args) (\<lambda>cli_peers.
         and_then (if cli_peers = [] then hashes_of decode ''static_peer'' (ip_static_peers p) else Inr cli_peers) (\<lambda>static_peers.
         and_then (flag_hashes decode ''--secondary-node'' args) (\<lambda>cli_secondaries.
         and_then (hashes_of decode ''propagation_peer'' (ip_propagation_peers p)) (\<lambda>propagation_peers.
         Inr \<lparr>cf_display_name = or_default (or_else (arg_value args ''--name'') (in_name n)) ''rfed'',
              cf_announce_interval = or_default (or_else (map_option (se_minutes env) (cli_parsed (se_parse_secs env) args ''--announce-interval''))
                (map_option (\<lambda>m. mul_u64 m 60) (in_announce_interval n))) (360 * 60),
              cf_announce_at_start = (if has_flag args ''--no-announce-at-start'' then False else or_default (in_announce_at_start n) True),
              cf_default = default_tier_of args (ic_default cfg), cf_vip = vip_tier_of (ic_vip cfg), cf_vips = vips,
              cf_peering_cost = or_else (or_else (cli_parsed (parse_unsigned (2 ^ 32)) args ''--peering-cost'') (ip_peering_cost p)) (Some 18),
              cf_storage_limit = mul_u64 (mul_u64 (or_default (or_else (cli_parsed (parse_unsigned (2 ^ 64)) args ''--storage-limit'') (is_limit st)) 2000) 1024) 1024,
              cf_transfer_limit = map_option (\<lambda>m. mul_u64 (mul_u64 m 1024) 1024) (is_transfer st),
              cf_sync_limit = map_option (\<lambda>m. mul_u64 (mul_u64 m 1024) 1024) (is_sync st),
              cf_channel_transfer_limit = fst (channel_sync_limits_bytes st), cf_channel_sync_limit = snd (channel_sync_limits_bytes st),
              cf_static_peers = static_peers, cf_from_static_only = (has_flag args ''--from-static-only'' \<or> or_default (ip_from_static_only p) False),
              cf_trusted_backups = backups,
              cf_primary = (case ip_primary p of None \<Rightarrow> None | Some s \<Rightarrow> decode16 decode s),
              cf_secondaries = (if cli_secondaries \<noteq> [] then cli_secondaries else List.map_filter (decode16 decode) (ip_secondaries p)),
              cf_owner_offline = or_default (or_else (cli_parsed (se_parse_secs env) args ''--owner-offline-secs'') (ip_owner_offline p)) 90,
              cf_propagation = or_default (in_propagation n) False, cf_autopeer = or_default (in_autopeer n) False,
              cf_propagation_peers = propagation_peers, cf_inbound = propagation_inbound_of n\<rparr>)))))))"

end
