(* ===== verification/Settings_Props.thy ===== *)
theory Settings_Props
  imports Settings
begin

text \<open>
  What reading the settings promises: the loops over repeatable flags return, and collect what a plain
  scan of the arguments would; a config file is refused exactly when a key with a type is malformed; what
  the merge leaves unset and what it wraps.
\<close>

section \<open>Repeatable flags\<close>

text \<open>The values of a flag, left to right; a flag's value is not looked at as a flag.\<close>

fun collect :: "(string \<Rightarrow> bytes option) \<Rightarrow> string \<Rightarrow> string list \<Rightarrow> string + bytes list" where
  "collect decode flag (a # b # args) =
     (if a = flag then (case decode b of
          None \<Rightarrow> Inl b | Some h \<Rightarrow> (case collect decode flag args of Inl e \<Rightarrow> Inl e | Inr hs \<Rightarrow> Inr (h # hs)))
      else collect decode flag (b # args))"
| "collect decode flag _ = Inr []"

lemma drop_two: "idx + 1 < length args \<Longrightarrow> drop idx args = args ! idx # args ! (idx + 1) # drop (idx + 2) args"
  by (metis Cons_nth_drop_Suc Suc_eq_plus1 Suc_lessD add_2_eq_Suc')

lemma repeated_collects:
  "repeated decode flag args idx acc =
    Some (case collect decode flag (drop idx args) of Inl e \<Rightarrow> Inl e | Inr hs \<Rightarrow> Inr (acc @ hs))"
proof (induction "length args - idx" arbitrary: idx acc rule: less_induct)
  case less
  consider (over) "length args \<le> idx" | (final) "idx + 1 = length args" | (inside) "idx + 1 < length args" by linarith
  then show ?case
  proof cases
    case over
    then show ?thesis by (subst repeated.simps) simp
  next
    case final
    then have d: "drop idx args = [args ! idx]" by (metis Cons_nth_drop_Suc Suc_eq_plus1 drop_all lessI order_refl)
    from final less [of "idx + 1" acc] show ?thesis by (subst repeated.simps) (simp add: d)
  next
    case inside
    note d = drop_two [OF inside]
    from inside have d1: "drop (idx + 1) args = args ! (idx + 1) # drop (idx + 2) args"
      by (metis Cons_nth_drop_Suc Suc_eq_plus1 add_2_eq_Suc')
    show ?thesis
    proof (cases "args ! idx = flag")
      case True
      show ?thesis
      proof (cases "decode (args ! (idx + 1))")
        case (Some b)
        from inside less [of "idx + 2" "acc @ [b]"] have
          "repeated decode flag args (idx + 2) (acc @ [b]) =
            Some (case collect decode flag (drop (idx + 2) args) of Inl e \<Rightarrow> Inl e | Inr hs \<Rightarrow> Inr ((acc @ [b]) @ hs))" by simp
        with True inside Some show ?thesis by (subst repeated.simps, subst d) (simp split: sum.split)
      qed (use True inside in \<open>subst repeated.simps, subst d, simp\<close>)
    next
      case False
      from inside less [of "idx + 1" acc] have
        "repeated decode flag args (idx + 1) acc =
          Some (case collect decode flag (drop (idx + 1) args) of Inl e \<Rightarrow> Inl e | Inr hs \<Rightarrow> Inr (acc @ hs))" by simp
      with False inside show ?thesis by (subst repeated.simps, subst d) (simp add: d1 del: One_nat_def)
    qed
  qed
qed

text \<open>
  C33: The loop of \<open>main\<close> over a repeatable flag returns for every command line, and with the values a left
  to right scan of the arguments after the program's name gives: each value of the flag in order, or the
  first that is no hash.
\<close>

theorem repeated_flags_collected:
  "repeated decode flag args 1 [] = Some (collect decode flag (tl args))"
  using repeated_collects [of decode flag args 1 "[]"] by (simp add: drop_Suc split: sum.split)

section \<open>Malformed keys\<close>

datatype key_type = BoolKey | UintKey | FloatKey

text \<open>Every key of the file that is read as a boolean or a number.\<close>

definition typed_keys :: "(string \<times> string \<times> key_type) list" where
  "typed_keys =
     [(''node'', ''announce_interval_minutes'', UintKey), (''node'', ''announce_at_start'', BoolKey),
      (''node'', ''lxmf_propagation'', BoolKey), (''node'', ''lxmf_propagation_autopeer'', BoolKey),
      (''node'', ''lxmf_propagation_from_static_only'', BoolKey), (''node'', ''lxmf_propagation_sequential_validation'', BoolKey),
      (''node'', ''lxmf_propagation_static_peers_bypass_sequential'', BoolKey),
      (''node'', ''lxmf_propagation_max_inbound_syncs'', UintKey),
      (''storage'', ''limit_mb'', UintKey), (''storage'', ''transfer_limit_mb'', UintKey), (''storage'', ''sync_limit_mb'', UintKey),
      (''storage'', ''channel_transfer_limit_mb'', UintKey), (''storage'', ''channel_sync_limit_mb'', UintKey),
      (''peering'', ''from_static_only'', BoolKey), (''peering'', ''peering_cost'', UintKey), (''peering'', ''owner_offline_secs'', FloatKey)] @
     concat (map (\<lambda>sec. [(sec, ''stamp_cost'', UintKey), (sec, ''stamp_flexibility'', UintKey), (sec, ''deferred_queue_limit'', UintKey),
        (sec, ''deferred_pull_batch_limit'', UintKey), (sec, ''allow_notify_registration'', BoolKey),
        (sec, ''allow_subscription'', BoolKey), (sec, ''trusted_backup_only'', BoolKey)]) [''policy.default'', ''policy.vip''])"

definition malformed :: "(string \<Rightarrow> secs option) \<Rightarrow> ini_map \<Rightarrow> string \<times> string \<times> key_type \<Rightarrow> bool" where
  "malformed parse_secs ini k = (case k of (sec, key, ty) \<Rightarrow> (case flat_str (hget ini sec) key of
      None \<Rightarrow> False
    | Some s \<Rightarrow> (case ty of
        BoolKey \<Rightarrow> parse_bool s = None
      | UintKey \<Rightarrow> parse_unsigned (2 ^ 64) (trim s) = None
      | FloatKey \<Rightarrow> parse_secs (trim s) = None)))"

lemma isl_and_then: "isl (and_then r f) \<longleftrightarrow> isl r \<or> isl (f (projr r))"
  by (cases r) (simp_all add: and_then_def)

lemma isl_flat:
  "isl (flat_bool (hget ini sec) key) \<longleftrightarrow> malformed parse_secs ini (sec, key, BoolKey)"
  "isl (flat_uint (hget ini sec) key) \<longleftrightarrow> malformed parse_secs ini (sec, key, UintKey)"
  "isl (flat_float parse_secs (hget ini sec) key) \<longleftrightarrow> malformed parse_secs ini (sec, key, FloatKey)"
  by (simp_all add: flat_bool_def flat_uint_def flat_float_def flat_parsed_def malformed_def split: option.split)

lemmas isl_parts = parse_ini_node_def parse_ini_storage_def parse_ini_peering_def parse_tier_policy_def

lemma isl_parse_ini:
  "isl (parse_ini parse_secs ini) \<longleftrightarrow>
    isl (parse_ini_node (hget ini ''node'')) \<or> isl (parse_ini_storage (hget ini ''storage'')) \<or>
    isl (parse_ini_peering parse_secs (hget ini ''peering'')) \<or>
    isl (parse_tier_policy (hget ini ''policy.default'')) \<or> isl (parse_tier_policy (hget ini ''policy.vip''))"
  unfolding parse_ini_def isl_and_then by simp

text \<open>
  A config file is refused exactly when one of its boolean or number keys, of whatever section, has a
  value that does not read as its type: none is silently ignored, a missing one never refuses the file.
\<close>

theorem config_refused_iff_malformed:
  "isl (parse_ini parse_secs ini) \<longleftrightarrow> list_ex (malformed parse_secs ini) typed_keys"
  unfolding isl_parse_ini isl_parts isl_and_then isl_flat [where parse_secs = parse_secs]
  by (simp add: typed_keys_def)

section \<open>What is left unset\<close>

text \<open>A missing file reads as an empty one.\<close>

lemma empty_file: "parse_ini parse_secs [] = Inr empty_config"
  by (simp add: parse_ini_def parse_ini_node_def parse_ini_storage_def parse_ini_peering_def parse_tier_policy_def and_then_def
      flat_bool_def flat_uint_def flat_float_def flat_csv_def flat_parsed_def flat_str_def empty_config_def empty_tier_def)

text \<open>Without a setting the default tier asks for no stamp, and the VIP tier for one of cost 8.\<close>

lemma unset_stamp_costs:
  "tp_stamp_cost (default_tier_of [] empty_tier) = None" "tp_stamp_flexibility (default_tier_of [] empty_tier) = None"
  "tp_stamp_cost (vip_tier_of empty_tier) = Some 8"
  by (simp_all add: default_tier_of_def vip_tier_of_def empty_tier_def or_else_def cli_parsed_def)

text \<open>A configured cost is cut to 32 bits.\<close>

lemma stamp_cost_wraps:
  "parse_unsigned (2 ^ 64) (trim s) = Some n \<Longrightarrow>
    case parse_tier_policy (Some [(''stamp_cost'', Some s)]) of Inr t \<Rightarrow> it_stamp_cost t = Some (n mod 2 ^ 32) | Inl _ \<Rightarrow> False"
  by (simp add: parse_tier_policy_def and_then_def flat_bool_def flat_uint_def flat_parsed_def flat_str_def as_u32_def)

text \<open>A secondary node named by a flag keeps whatever length its hash has.\<close>

lemma short_secondary_from_flag:
  assumes "settings_of env args cfg = Inr c"
    and "collect (\<lambda>s. se_decode_hex env (trim s)) ''--secondary-node'' (tl args) = Inr hs" and "hs \<noteq> []"
  shows "cf_secondaries c = hs"
  using assms repeated_collects [of "\<lambda>s. se_decode_hex env (trim s)" "''--secondary-node''" args 1 "[]"]
  by (auto simp: settings_of_def Let_def and_then_def flag_hashes_def drop_Suc split: sum.splits)

end
