(* ===== verification/BridgeConfig.thy ===== *)
theory BridgeConfig
  imports Settings DistroFanout
begin

text \<open>
  What the two push bridges read from their config files (\<open>apns-bridge/src/config.rs\<close>,
  \<open>fcm-bridge/src/config.rs\<close>) and the Reticulum configuration they choose (\<open>init_reticulum\<close> of their
  \<open>bridge.rs\<close>). The \<open>[bridge]\<close> section and its functions are the same in both. \<open>read_ini\<close> is \<open>configparser\<close>,
  \<open>home\<close> the variable \<open>HOME\<close>; a \<open>u16\<close> or \<open>u64\<close> is a \<^typ>\<open>nat\<close>.
\<close>

record bridge_config =
  bc_file :: string
  bc_identity_path :: string
  bc_db_path :: string
  bc_rns_config :: "string option"
  bc_tcp_host :: "string option"
  bc_tcp_port :: "nat option"
  bc_tcp_endpoints :: "(string \<times> nat) list"
  bc_has_reticulum :: bool
  bc_has_interfaces :: bool

definition has_native_config :: "bridge_config \<Rightarrow> bool" where
  "has_native_config c \<longleftrightarrow> bc_has_reticulum c \<and> bc_has_interfaces c"

definition has_legacy_tcp_config :: "bridge_config \<Rightarrow> bool" where
  "has_legacy_tcp_config c \<longleftrightarrow> bc_tcp_host c \<noteq> None \<or> bc_tcp_port c \<noteq> None \<or> bc_tcp_endpoints c \<noteq> []"

definition legacy_tcp_endpoints :: "bridge_config \<Rightarrow> (string \<times> nat) list" where
  "legacy_tcp_endpoints c = (case (bc_tcp_host c, bc_tcp_port c) of
      (Some host, Some port) \<Rightarrow> (if (host, port) \<in> set (bc_tcp_endpoints c) then bc_tcp_endpoints c
         else bc_tcp_endpoints c @ [(host, port)])
    | _ \<Rightarrow> bc_tcp_endpoints c)"

section \<open>Parsing\<close>

text \<open>\<open>str::lines\<close>.\<close>

definition without_cr :: "string \<Rightarrow> string" where
  "without_cr s = (if s \<noteq> [] \<and> last s = char_of (13 :: nat) then butlast s else s)"

definition lines_of :: "string \<Rightarrow> string list" where
  "lines_of t = (let ls = split_on (char_of (10 :: nat)) t
     in map without_cr (if last ls = [] then butlast ls else ls))"

definition is_section_header :: "string \<Rightarrow> string \<Rightarrow> bool" where
  "is_section_header sec l \<longleftrightarrow> length l = length sec + 2 \<and> hd l = CHR ''['' \<and> last l = CHR '']'' \<and>
     lower (butlast (List.tl l)) = lower sec"

definition has_section_header :: "string \<Rightarrow> string \<Rightarrow> bool" where
  "has_section_header t sec \<longleftrightarrow> list_ex (\<lambda>l. is_section_header sec (trim l)) (lines_of t)"

definition expand_home :: "string option \<Rightarrow> string \<Rightarrow> string" where
  "expand_home home s = (if starts_with ''~/'' s
     then (case home of Some h \<Rightarrow> h @ drop 1 s | None \<Rightarrow> s) else s)"

definition rsplit_once :: "char \<Rightarrow> string \<Rightarrow> (string \<times> string) option" where
  "rsplit_once c s = (if c \<notin> set s then None
     else (let after = rev (takeWhile (\<lambda>d. d \<noteq> c) (rev s)) in Some (take (length s - length after - 1) s, after)))"

definition parse_endpoint :: "string \<Rightarrow> (string \<times> nat) option" where
  "parse_endpoint part = (let p = trim part in
     if p = [] then None
     else (case rsplit_once (CHR '':'') p of
         None \<Rightarrow> None
       | Some (host, port) \<Rightarrow> (case parse_unsigned (2 ^ 16) (trim port) of
             None \<Rightarrow> None
           | Some n \<Rightarrow> if trim host = [] then None else Some (trim host, n))))"

definition parse_endpoints :: "string \<Rightarrow> (string \<times> nat) list" where
  "parse_endpoints raw = List.map_filter parse_endpoint (split_on (CHR '','') raw)"

definition parse_bridge_section :: "string option \<Rightarrow> string \<Rightarrow> string \<Rightarrow> string \<Rightarrow> string \<Rightarrow> ini_section option \<Rightarrow> bridge_config" where
  "parse_bridge_section home default_identity default_db path t sec = \<lparr>
     bc_file = path,
     bc_identity_path = expand_home home (or_default (flat_str sec ''identity_path'') default_identity),
     bc_db_path = expand_home home (or_default (flat_str sec ''db_path'') default_db),
     bc_rns_config = map_option (expand_home home) (flat_str sec ''rns_config''),
     bc_tcp_host = flat_str sec ''rns_tcp_host'',
     bc_tcp_port = (case flat_str sec ''rns_tcp_port'' of None \<Rightarrow> None | Some v \<Rightarrow> parse_unsigned (2 ^ 16) v),
     bc_tcp_endpoints = (case flat_str sec ''rns_tcp_endpoints'' of None \<Rightarrow> [] | Some v \<Rightarrow> parse_endpoints v),
     bc_has_reticulum = has_section_header t ''reticulum'', bc_has_interfaces = has_section_header t ''interfaces''\<rparr>"

datatype bridge_config_error = UnreadableFile | UnparsableFile | MissingKey string

definition required :: "ini_section option \<Rightarrow> string \<Rightarrow> bridge_config_error + string" where
  "required sec key = (case flat_str sec key of None \<Rightarrow> Inl (MissingKey key) | Some v \<Rightarrow> Inr v)"

section \<open>The APNs bridge\<close>

record apns_config =
  ac_key_file :: string
  ac_key_id :: string
  ac_team_id :: string
  ac_bundle_id :: string
  ac_sandbox :: bool
  ac_push_type :: string
  ac_alert_title :: string
  ac_alert_body :: string
  ac_token_ttl :: nat

definition parse_apns_section :: "ini_section option \<Rightarrow> bridge_config_error + apns_config" where
  "parse_apns_section sec =
     and_then (required sec ''key_file'') (\<lambda>key_file.
     and_then (required sec ''key_id'') (\<lambda>key_id.
     and_then (required sec ''team_id'') (\<lambda>team_id.
     and_then (required sec ''bundle_id'') (\<lambda>bundle_id.
     Inr \<lparr>ac_key_file = key_file, ac_key_id = key_id, ac_team_id = team_id, ac_bundle_id = bundle_id,
       ac_sandbox = (case flat_str sec ''sandbox'' of None \<Rightarrow> False | Some v \<Rightarrow> lower (trim v) \<in> set [''true'', ''1'', ''yes'']),
       ac_push_type = or_default (flat_str sec ''push_type'') ''alert'',
       ac_alert_title = or_default (flat_str sec ''alert_title'') ''New message'',
       ac_alert_body = or_default (flat_str sec ''alert_body'') ''You have a new message waiting.'',
       ac_token_ttl = or_default (case flat_str sec ''token_ttl'' of None \<Rightarrow> None | Some v \<Rightarrow> parse_unsigned (2 ^ 64) v) 3000\<rparr>))))"

definition parse_apns_config :: "(string \<Rightarrow> ini_map option) \<Rightarrow> string option \<Rightarrow> string \<Rightarrow> string \<Rightarrow>
    bridge_config_error + (bridge_config \<times> apns_config)" where
  "parse_apns_config read_ini home path t = (case read_ini t of
      None \<Rightarrow> Inl UnparsableFile
    | Some ini \<Rightarrow> and_then (parse_apns_section (hget ini ''apns'')) (\<lambda>a.
        Inr (parse_bridge_section home ''~/.rfed-apns/identity'' ''~/.rfed-apns/tokens.db'' path t (hget ini ''bridge''), a)))"

section \<open>The FCM bridge\<close>

record fcm_config =
  fc_service_account_key :: string
  fc_app_package_name :: string
  fc_token_ttl :: nat

definition parse_fcm_section :: "string option \<Rightarrow> ini_section option \<Rightarrow> bridge_config_error + fcm_config" where
  "parse_fcm_section home sec =
     and_then (required sec ''service_account_key'') (\<lambda>key.
     and_then (required sec ''app_package_name'') (\<lambda>package.
     Inr \<lparr>fc_service_account_key = expand_home home key, fc_app_package_name = package,
       fc_token_ttl = min (max (or_default (case flat_str sec ''token_ttl'' of None \<Rightarrow> None | Some v \<Rightarrow> parse_unsigned (2 ^ 64) v) 3000) 60) 3600\<rparr>))"

definition parse_fcm_config :: "(string \<Rightarrow> ini_map option) \<Rightarrow> string option \<Rightarrow> string \<Rightarrow> string \<Rightarrow>
    bridge_config_error + (bridge_config \<times> fcm_config)" where
  "parse_fcm_config read_ini home path t = (case read_ini t of
      None \<Rightarrow> Inl UnparsableFile
    | Some ini \<Rightarrow> and_then (parse_fcm_section home (hget ini ''fcm'')) (\<lambda>f.
        Inr (parse_bridge_section home ''~/.rfed-fcm/identity'' ''~/.rfed-fcm/tokens.db'' path t (hget ini ''bridge''), f)))"

section \<open>The Reticulum configuration\<close>

text \<open>
  Which directory Reticulum is started on: one given, one written for the old keys with the text here, or
  a copy of the bridge's own file. What the files give is I/O.
\<close>

datatype rns_start =
    ExternalConfig string
  | WrittenConfig string
  | CopiedConfig
  | IncompleteLegacy
  | NoReticulumSections

definition NL :: string where
  "NL = [char_of (10 :: nat)]"

definition interface_text :: "string \<Rightarrow> nat \<Rightarrow> string \<times> nat \<Rightarrow> string" where
  "interface_text name n e = NL @ ''  [['' @ name @ decimal n @ '']]'' @ NL @ ''    type = TCPClientInterface'' @ NL @
     ''    target_host = '' @ fst e @ NL @ ''    target_port = '' @ decimal (snd e) @ NL @ ''    enabled = yes'' @ NL"

definition legacy_config_text :: "string \<Rightarrow> (string \<times> nat) list \<Rightarrow> string" where
  "legacy_config_text name endpoints =
     ''[reticulum]'' @ NL @ ''  enable_transport = false'' @ NL @ ''  share_instance = false'' @ NL @ NL @ ''[interfaces]'' @ NL @
     concat (map (\<lambda>(i, e). interface_text name (i + 1) e) (enumerate 0 endpoints))"

definition init_reticulum :: "string \<Rightarrow> bridge_config \<Rightarrow> rns_start" where
  "init_reticulum name c = (case bc_rns_config c of
      Some dir \<Rightarrow> ExternalConfig dir
    | None \<Rightarrow> (let endpoints = legacy_tcp_endpoints c in
        if has_legacy_tcp_config c
        then (if endpoints = [] then IncompleteLegacy else WrittenConfig (legacy_config_text name endpoints))
        else if \<not> has_native_config c then NoReticulumSections else CopiedConfig))"

end
