(* ===== verification/ApnsBridge.thy ===== *)
theory ApnsBridge
  imports BridgeConfig BlobStore Msgpack Notify
begin

text \<open>
  The APNs push bridge (\<open>apns-bridge/src\<close>): the table of device tokens (\<open>db.rs\<close>), registrations and wakes
  (\<open>bridge.rs\<close>), the push and its provider token (\<open>apns.rs\<close>, \<open>jwt.rs\<close>).

  \<open>read_map\<close> is \<open>rmpv\<close>'s decoding of a map, \<open>http\<close> what a request to Apple comes to, \<open>sign\<close> and \<open>b64url\<close> the
  P-256 signature and the base64 of the libraries; whether a statement of the database succeeds is an
  argument. Nothing panics under the table's lock, so it is not poisoned. Counters are \<^typ>\<open>nat\<close>.
\<close>

section \<open>The token table\<close>

datatype apns_env = Sandbox | Production

fun as_db_str :: "apns_env \<Rightarrow> string" where
  "as_db_str Sandbox = ''sandbox''"
| "as_db_str Production = ''production''"

definition parse_env :: "string \<Rightarrow> apns_env option" where
  "parse_env s = (let w = lower (trim s)
     in if w \<in> set [''sandbox'', ''development'', ''dev''] then Some Sandbox
        else if w \<in> set [''production'', ''prod''] then Some Production else None)"

record apns_row =
  ar_subscriber :: string
  ar_token :: string
  ar_env :: string
  ar_registered :: nat
  ar_updated :: nat

definition apns_register :: "bool \<Rightarrow> nat \<Rightarrow> string \<Rightarrow> string \<Rightarrow> apns_env \<Rightarrow> apns_row list \<Rightarrow> bool \<times> apns_row list" where
  "apns_register ok now sub token env rows =
     (if \<not> ok then (False, rows)
      else (True, upsert ar_subscriber (\<lambda>old new. new\<lparr>ar_registered := ar_registered old\<rparr>)
        \<lparr>ar_subscriber = sub, ar_token = token, ar_env = as_db_str env, ar_registered = now, ar_updated = now\<rparr> rows))"

definition apns_get_token :: "string \<Rightarrow> apns_row list \<Rightarrow> (string \<times> apns_env) option" where
  "apns_get_token sub rows = (case find (\<lambda>r. ar_subscriber r = sub) rows of
      None \<Rightarrow> None
    | Some r \<Rightarrow> Some (ar_token r, case parse_env (ar_env r) of Some e \<Rightarrow> e | None \<Rightarrow> Production))"

text \<open>\<open>None\<close> is an error of the database.\<close>

definition apns_unregister :: "bool \<Rightarrow> string \<Rightarrow> apns_row list \<Rightarrow> bool option \<times> apns_row list" where
  "apns_unregister ok sub rows =
     (if \<not> ok then (None, rows)
      else (let kept = filter (\<lambda>r. ar_subscriber r \<noteq> sub) rows in (Some (length kept < length rows), kept)))"

definition apns_invalidate :: "bool \<Rightarrow> string \<Rightarrow> apns_env \<Rightarrow> apns_row list \<Rightarrow> apns_row list" where
  "apns_invalidate ok token env rows =
     (if \<not> ok then rows else filter (\<lambda>r. \<not> (ar_token r = token \<and> ar_env r = as_db_str env)) rows)"

section \<open>Maps\<close>

type_synonym msg_map = "(msg_value \<times> msg_value) list"

definition as_str :: "msg_value \<Rightarrow> string option" where
  "as_str v = (case v of MStr s \<Rightarrow> (if utf8_ok (bytes_of s) then Some s else None) | _ \<Rightarrow> None)"

definition map_get :: "msg_map \<Rightarrow> string \<Rightarrow> msg_value option" where
  "map_get m key = map_option snd (find (\<lambda>e. as_str (fst e) = Some key) m)"

definition map_get_bin :: "msg_map \<Rightarrow> string \<Rightarrow> bytes option" where
  "map_get_bin m key = (case map_get m key of Some (MBin b) \<Rightarrow> Some b | _ \<Rightarrow> None)"

definition map_get_str :: "msg_map \<Rightarrow> string \<Rightarrow> string option" where
  "map_get_str m key = (case map_get m key of Some v \<Rightarrow> as_str v | None \<Rightarrow> None)"

section \<open>Wakes\<close>

record wake_map =
  wm_receiver :: string
  wm_sender :: "string option"
  wm_channel :: "string option"
  wm_message :: "string option"

definition hash_field :: "msg_map \<Rightarrow> string \<Rightarrow> nat \<Rightarrow> string option" where
  "hash_field m key len = (case map_get_bin m key of
      Some b \<Rightarrow> if length b = len then Some (hex b) else None | None \<Rightarrow> None)"

definition wake_from_map :: "msg_map \<Rightarrow> wake_map option" where
  "wake_from_map m = (case hash_field m ''receiver'' 16 of
      None \<Rightarrow> None
    | Some r \<Rightarrow> Some \<lparr>wm_receiver = r, wm_sender = hash_field m ''sender'' 16, wm_channel = hash_field m ''channel'' 16,
        wm_message = hash_field m ''message'' 32\<rparr>)"

section \<open>The push\<close>

datatype json = JNull | JBool bool | JNum nat | JStr string | JArr "json list" | JObj "(string \<times> json) list"

definition optional_field :: "string \<Rightarrow> string option \<Rightarrow> (string \<times> json) list" where
  "optional_field key v = (case v of None \<Rightarrow> [] | Some s \<Rightarrow> [(key, JStr s)])"

definition rfed_dictionary :: "wake_map \<Rightarrow> json" where
  "rfed_dictionary w = JObj ([(''receiver'', JStr (wm_receiver w))] @ optional_field ''sender'' (wm_sender w) @
     optional_field ''channel'' (wm_channel w) @ optional_field ''message'' (wm_message w))"

definition collapse_id :: "wake_map \<Rightarrow> string option" where
  "collapse_id w = wm_message w"

definition apns_payload :: "apns_config \<Rightarrow> wake_map \<Rightarrow> json" where
  "apns_payload cfg w = JObj [
     (''aps'', JObj [(''alert'', JObj [(''title'', JStr (ac_alert_title cfg)), (''body'', JStr (ac_alert_body cfg))]),
       (''sound'', JStr ''default''), (''mutable-content'', JNum 1)]),
     (''rfed'', rfed_dictionary w)]"

text \<open>The provider token, signed anew when it is older than its time to live.\<close>

record apns_jwt =
  aj_cached :: "string option"
  aj_iat :: "64 word"

definition QUOTE :: string where
  "QUOTE = [char_of (34 :: nat)]"

definition quoted :: "string \<Rightarrow> string" where
  "quoted s = QUOTE @ s @ QUOTE"

definition jwt_text :: "(string \<Rightarrow> string) \<Rightarrow> (string \<Rightarrow> string) \<Rightarrow> apns_config \<Rightarrow> nat \<Rightarrow> string" where
  "jwt_text b64url sign cfg iat =
     (let header = b64url (''{'' @ quoted ''alg'' @ '':'' @ quoted ''ES256'' @ '','' @ quoted ''kid'' @ '':'' @ quoted (ac_key_id cfg) @ ''}'');
          payload = b64url (''{'' @ quoted ''iss'' @ '':'' @ quoted (ac_team_id cfg) @ '','' @ quoted ''iat'' @ '':'' @ decimal iat @ ''}'');
          input = header @ ''.'' @ payload
      in input @ ''.'' @ b64url (sign input))"

definition jwt_get :: "(string \<Rightarrow> string) \<Rightarrow> (string \<Rightarrow> string) \<Rightarrow> apns_config \<Rightarrow> 64 word \<Rightarrow> apns_jwt \<Rightarrow> string \<times> apns_jwt" where
  "jwt_get b64url sign cfg now j = (case aj_cached j of
      Some t \<Rightarrow> (if unat (now - aj_iat j) < ac_token_ttl cfg then (t, j)
        else (jwt_text b64url sign cfg (unat now), \<lparr>aj_cached = Some (jwt_text b64url sign cfg (unat now)), aj_iat = now\<rparr>))
    | None \<Rightarrow> (jwt_text b64url sign cfg (unat now), \<lparr>aj_cached = Some (jwt_text b64url sign cfg (unat now)), aj_iat = now\<rparr>))"

record apns_request =
  aq_url :: string
  aq_headers :: "(string \<times> string) list"
  aq_body :: json

record send_result =
  sr_success :: bool
  sr_code :: nat
  sr_reason :: "string option"

fun apns_host :: "apns_env \<Rightarrow> string" where
  "apns_host Production = ''https://api.push.apple.com''"
| "apns_host Sandbox = ''https://api.sandbox.push.apple.com''"

definition apns_request_for :: "apns_config \<Rightarrow> string \<Rightarrow> string \<Rightarrow> apns_env \<Rightarrow> wake_map \<Rightarrow> apns_request" where
  "apns_request_for cfg jwt token env w = \<lparr>
     aq_url = apns_host env @ ''/3/device/'' @ token,
     aq_headers = [(''Authorization'', ''bearer '' @ jwt), (''apns-topic'', ac_bundle_id cfg), (''apns-push-type'', ac_push_type cfg),
       (''apns-priority'', ''10''), (''Content-Type'', ''application/json'')] @
       (case collapse_id w of None \<Rightarrow> [] | Some i \<Rightarrow> [(''apns-collapse-id'', i)]),
     aq_body = apns_payload cfg w\<rparr>"

definition reason_of :: "json option \<Rightarrow> string option" where
  "reason_of body = (case body of
      Some (JObj kvs) \<Rightarrow> (case hget kvs ''reason'' of Some (JStr s) \<Rightarrow> Some s | _ \<Rightarrow> None) | _ \<Rightarrow> None)"

text \<open>\<open>http\<close> gives an error's text, or the status and the body when it is JSON.\<close>

definition apns_send :: "(apns_request \<Rightarrow> string + (nat \<times> json option)) \<Rightarrow> apns_config \<Rightarrow> string \<Rightarrow> string \<Rightarrow> apns_env \<Rightarrow> wake_map \<Rightarrow> send_result" where
  "apns_send http cfg jwt token env w = (case http (apns_request_for cfg jwt token env w) of
      Inl e \<Rightarrow> \<lparr>sr_success = False, sr_code = 0, sr_reason = Some e\<rparr>
    | Inr (code, body) \<Rightarrow> (if code = 200 then \<lparr>sr_success = True, sr_code = 200, sr_reason = None\<rparr>
        else \<lparr>sr_success = False, sr_code = code, sr_reason = reason_of body\<rparr>))"

definition should_invalidate :: "nat \<Rightarrow> string option \<Rightarrow> bool" where
  "should_invalidate code reason \<longleftrightarrow> code = 410 \<or> (code = 400 \<and> reason = Some ''BadDeviceToken'')"

section \<open>Wakes dispatched\<close>

record bridge_counts =
  bn_notify :: nat
  bn_pushed :: nat
  bn_failed :: nat

datatype wake_end = NotAMap | NoReceiver | NoToken | LookupFailed | PushedTo "(apns_env \<times> send_result) list"

definition gateways :: "apns_env \<Rightarrow> apns_env list" where
  "gateways env = (case env of Sandbox \<Rightarrow> [Sandbox, Production] | Production \<Rightarrow> [Production])"

text \<open>
  One push of the loop. Pushes run on their own threads: \<open>others\<close> is what other handlers made of the table
  while this push was on its way.
\<close>

definition settle_push :: "bool \<Rightarrow> string \<Rightarrow> apns_env \<Rightarrow> apns_env \<Rightarrow> send_result \<Rightarrow> apns_row list \<times> bridge_counts \<Rightarrow> apns_row list \<times> bridge_counts" where
  "settle_push ok token env send_env r s = (case s of (rows, n) \<Rightarrow>
     if sr_success r then (rows, n\<lparr>bn_pushed := bn_pushed n + 1\<rparr>)
     else if should_invalidate (sr_code r) (sr_reason r)
     then (if send_env = env then apns_invalidate ok token env rows else rows, n\<lparr>bn_failed := bn_failed n + 1\<rparr>)
     else (rows, n\<lparr>bn_failed := bn_failed n + 1\<rparr>))"

fun apns_push_loop :: "(apns_env \<Rightarrow> send_result) \<Rightarrow> (apns_env \<Rightarrow> bool) \<Rightarrow> (apns_env \<Rightarrow> apns_row list \<Rightarrow> apns_row list) \<Rightarrow> string \<Rightarrow> apns_env \<Rightarrow>
    apns_env list \<Rightarrow> apns_row list \<times> bridge_counts \<Rightarrow> apns_row list \<times> bridge_counts" where
  "apns_push_loop send ok others token env [] s = s"
| "apns_push_loop send ok others token env (e # es) s =
     apns_push_loop send ok others token env es (settle_push (ok e) token env e (send e) (others e (fst s), snd s))"

text \<open>\<open>read_ok\<close>: the lookup in the table succeeds.\<close>

definition dispatch_wake :: "(bytes \<Rightarrow> msg_map option) \<Rightarrow> (string \<Rightarrow> apns_env \<Rightarrow> wake_map \<Rightarrow> send_result) \<Rightarrow> bool \<Rightarrow> (apns_env \<Rightarrow> bool) \<Rightarrow>
    (apns_env \<Rightarrow> apns_row list \<Rightarrow> apns_row list) \<Rightarrow> bytes \<Rightarrow> apns_row list \<times> bridge_counts \<Rightarrow> wake_end \<times> apns_row list \<times> bridge_counts" where
  "dispatch_wake read_map send read_ok ok others raw s = (case read_map raw of
      None \<Rightarrow> (NotAMap, s)
    | Some m \<Rightarrow> (case wake_from_map m of
        None \<Rightarrow> (NoReceiver, s)
      | Some w \<Rightarrow> (let s' = (fst s, (snd s)\<lparr>bn_notify := bn_notify (snd s) + 1\<rparr>) in
          if \<not> read_ok then (LookupFailed, s')
          else (case apns_get_token (wm_receiver w) (fst s') of
              None \<Rightarrow> (NoToken, s')
            | Some (token, env) \<Rightarrow>
                (PushedTo (map (\<lambda>e. (e, send token e w)) (gateways env)),
                 apns_push_loop (\<lambda>e. send token e w) ok others token env (gateways env) s')))))"

section \<open>Registrations\<close>

datatype register_error = NotMsgpackMap | BadSubscriberHash | BadToken | BadEnv string | RegisterFailed | UnregisterFailed

datatype register_outcome = TokenStored | TokenRemoved bool

definition subscriber_hex :: "msg_map \<Rightarrow> register_error + string" where
  "subscriber_hex m = (case map_get_bin m ''subscriber_hash'' of
      None \<Rightarrow> Inl BadSubscriberHash
    | Some b \<Rightarrow> if length b \<noteq> 16 then Inl BadSubscriberHash else Inr (hex b))"

definition drop_token :: "bool \<Rightarrow> string \<Rightarrow> apns_row list \<Rightarrow> (register_error + register_outcome) \<times> apns_row list" where
  "drop_token ok sub rows = (case apns_unregister ok sub rows of
      (None, rows') \<Rightarrow> (Inl UnregisterFailed, rows') | (Some removed, rows') \<Rightarrow> (Inr (TokenRemoved removed), rows'))"

definition try_handle_unregister :: "(bytes \<Rightarrow> msg_map option) \<Rightarrow> bool \<Rightarrow> bytes \<Rightarrow> apns_row list \<Rightarrow>
    (register_error + register_outcome) \<times> apns_row list" where
  "try_handle_unregister read_map ok data rows = (case read_map data of
      None \<Rightarrow> (Inl NotMsgpackMap, rows)
    | Some m \<Rightarrow> (case subscriber_hex m of Inl e \<Rightarrow> (Inl e, rows) | Inr sub \<Rightarrow> drop_token ok sub rows))"

definition requested_env :: "apns_env \<Rightarrow> msg_map \<Rightarrow> register_error + apns_env" where
  "requested_env default_env m = (case map_get_str m ''env'' of
      None \<Rightarrow> Inr default_env
    | Some s \<Rightarrow> (case parse_env s of None \<Rightarrow> Inl (BadEnv s) | Some e \<Rightarrow> Inr e))"

definition try_handle_register :: "(bytes \<Rightarrow> msg_map option) \<Rightarrow> apns_env \<Rightarrow> bool \<Rightarrow> nat \<Rightarrow> bytes \<Rightarrow> apns_row list \<Rightarrow>
    (register_error + register_outcome) \<times> apns_row list" where
  "try_handle_register read_map default_env ok now data rows = (case read_map data of
      None \<Rightarrow> (Inl NotMsgpackMap, rows)
    | Some m \<Rightarrow> (case subscriber_hex m of
        Inl e \<Rightarrow> (Inl e, rows)
      | Inr sub \<Rightarrow> (case map_get_str m ''apns_token'' of
          None \<Rightarrow> drop_token ok sub rows
        | Some token \<Rightarrow>
            if length token \<noteq> 64 \<or> \<not> list_all is_ascii_hexdigit token then (Inl BadToken, rows)
            else (case requested_env default_env m of
                Inl e \<Rightarrow> (Inl e, rows)
              | Inr env \<Rightarrow> (case apns_register ok now sub (lower token) env rows of
                  (was_stored, rows') \<Rightarrow> (if was_stored then Inr TokenStored else Inl RegisterFailed, rows'))))))"

definition default_env_of :: "apns_config \<Rightarrow> apns_env" where
  "default_env_of cfg = (if ac_sandbox cfg then Sandbox else Production)"

section \<open>Destinations\<close>

datatype token_endpoint = ApnsRegister | ApnsLegacyRegister | ApnsUnregister

datatype apns_endpoint = ApnsRelay | TokenEndpoint token_endpoint

fun apns_name :: "apns_endpoint \<Rightarrow> string \<times> string" where
  "apns_name ApnsRelay = (''apns'', ''relay'')"
| "apns_name (TokenEndpoint ApnsRegister) = (''apns'', ''register'')"
| "apns_name (TokenEndpoint ApnsLegacyRegister) = (''rfed'', ''apns'')"
| "apns_name (TokenEndpoint ApnsUnregister) = (''apns'', ''unregister'')"

text \<open>Announced and published in this order.\<close>

definition APNS_ENDPOINTS :: "apns_endpoint list" where
  "APNS_ENDPOINTS = [ApnsRelay, TokenEndpoint ApnsRegister, TokenEndpoint ApnsLegacyRegister, TokenEndpoint ApnsUnregister]"

text \<open>
  A packet for a token endpoint is handled on the thread that delivers it: \<open>ok\<close> is whether its statement
  succeeds, \<open>now\<close> the clock.
\<close>

type_synonym token_packet = "token_endpoint \<times> bool \<times> nat \<times> bytes"

fun handle_token_packet :: "(bytes \<Rightarrow> msg_map option) \<Rightarrow> apns_env \<Rightarrow> token_packet \<Rightarrow> apns_row list \<Rightarrow> apns_row list" where
  "handle_token_packet read_map default_env (ApnsRegister, ok, now, data) rows = snd (try_handle_register read_map default_env ok now data rows)"
| "handle_token_packet read_map default_env (ApnsLegacyRegister, ok, now, data) rows = snd (try_handle_register read_map default_env ok now data rows)"
| "handle_token_packet read_map default_env (ApnsUnregister, ok, now, data) rows = snd (try_handle_unregister read_map ok data rows)"

text \<open>
  A packet for the relay is a wake, dispatched on a thread of its own. \<open>pi_meanwhile e\<close> are the token packets
  handled after the lookup and while the push to the gateway \<open>e\<close> is under way, before its answer is acted on.
\<close>

record push_io =
  pi_send :: "string \<Rightarrow> apns_env \<Rightarrow> wake_map \<Rightarrow> send_result"
  pi_read_ok :: bool
  pi_purge_ok :: "apns_env \<Rightarrow> bool"
  pi_meanwhile :: "apns_env \<Rightarrow> token_packet list"

datatype apns_packet = RelayPacket push_io bytes | TokenPacket token_packet

fun handle_packet :: "(bytes \<Rightarrow> msg_map option) \<Rightarrow> apns_env \<Rightarrow> apns_packet \<Rightarrow> apns_row list \<times> bridge_counts \<Rightarrow> apns_row list \<times> bridge_counts" where
  "handle_packet read_map default_env (RelayPacket io data) s =
     snd (dispatch_wake read_map (pi_send io) (pi_read_ok io) (pi_purge_ok io)
       (\<lambda>e. fold (handle_token_packet read_map default_env) (pi_meanwhile io e)) data s)"
| "handle_packet read_map default_env (TokenPacket p) s = (handle_token_packet read_map default_env p (fst s), snd s)"

end
