(* ===== verification/FcmBridge.thy ===== *)
theory FcmBridge
  imports ApnsBridge
begin

text \<open>
  The FCM push bridge (\<open>fcm-bridge/src\<close>): the table of registration tokens (\<open>db.rs\<close>), registrations and
  wakes (\<open>bridge.rs\<close>), the push, its OAuth access token and the errors read from answers (\<open>fcm.rs\<close>,
  \<open>jwt.rs\<close>). What it shares word for word with the APNs bridge (the maps, the wake, the counters) is
  defined there. \<open>read_json\<close> is \<open>serde_json\<close>, \<open>exchange\<close> and \<open>http\<close> are requests to Google.
\<close>

section \<open>The token table\<close>

record fcm_row =
  fr_subscriber :: string
  fr_token :: string
  fr_registered :: nat
  fr_updated :: nat

definition fcm_register :: "bool \<Rightarrow> nat \<Rightarrow> string \<Rightarrow> string \<Rightarrow> fcm_row list \<Rightarrow> bool \<times> fcm_row list" where
  "fcm_register ok now sub token rows =
     (if \<not> ok then (False, rows)
      else (True, upsert fr_subscriber (\<lambda>old new. new\<lparr>fr_registered := fr_registered old\<rparr>)
        \<lparr>fr_subscriber = sub, fr_token = token, fr_registered = now, fr_updated = now\<rparr> rows))"

definition fcm_get_token :: "string \<Rightarrow> fcm_row list \<Rightarrow> string option" where
  "fcm_get_token sub rows = map_option fr_token (find (\<lambda>r. fr_subscriber r = sub) rows)"

definition fcm_unregister :: "bool \<Rightarrow> string \<Rightarrow> fcm_row list \<Rightarrow> bool option \<times> fcm_row list" where
  "fcm_unregister ok sub rows =
     (if \<not> ok then (None, rows)
      else (let kept = filter (\<lambda>r. fr_subscriber r \<noteq> sub) rows in (Some (length kept < length rows), kept)))"

definition fcm_invalidate :: "bool \<Rightarrow> string \<Rightarrow> fcm_row list \<Rightarrow> fcm_row list" where
  "fcm_invalidate ok token rows = (if \<not> ok then rows else filter (\<lambda>r. fr_token r \<noteq> token) rows)"

section \<open>The access token\<close>

record access_cache =
  at_token :: "string option"
  at_expires :: nat

datatype exchange_answer = ExchangeFailed string | ExchangeAnswer nat string

text \<open>The first \<open>errorCode\<close> of the details, else the status, else the message.\<close>

definition json_get :: "string \<Rightarrow> json \<Rightarrow> json option" where
  "json_get key j = (case j of JObj kvs \<Rightarrow> hget kvs key | _ \<Rightarrow> None)"

definition json_str :: "json option \<Rightarrow> string option" where
  "json_str j = (case j of Some (JStr s) \<Rightarrow> Some s | _ \<Rightarrow> None)"

definition extract_fcm_error :: "(string \<Rightarrow> json option) \<Rightarrow> string \<Rightarrow> string option" where
  "extract_fcm_error read_json t = (case read_json t of
      None \<Rightarrow> None
    | Some v \<Rightarrow> (case json_get ''error'' v of
        None \<Rightarrow> None
      | Some e \<Rightarrow> or_else (case json_get ''details'' e of
            Some (JArr ds) \<Rightarrow> find_map (\<lambda>d. json_str (json_get ''errorCode'' d)) ds | _ \<Rightarrow> None)
          (or_else (json_str (json_get ''status'' e)) (json_str (json_get ''message'' e)))))"

text \<open>The assertion signed for an access token; \<open>sign\<close> fails with an error.\<close>

definition fcm_assertion :: "(string \<Rightarrow> string) \<Rightarrow> (json \<Rightarrow> string) \<Rightarrow> (string \<Rightarrow> string + string) \<Rightarrow> string \<Rightarrow> string \<Rightarrow> nat \<Rightarrow> nat \<Rightarrow> string + string" where
  "fcm_assertion b64url show_json sign client_email token_uri token_ttl iat =
     (let header = b64url (''{'' @ quoted ''alg'' @ '':'' @ quoted ''RS256'' @ '','' @ quoted ''typ'' @ '':'' @ quoted ''JWT'' @ ''}'');
          payload = b64url (show_json (JObj [(''iss'', JStr client_email), (''sub'', JStr client_email), (''aud'', JStr token_uri),
            (''scope'', JStr ''https://www.googleapis.com/auth/firebase.messaging''), (''iat'', JNum iat),
            (''exp'', JNum (iat + min (max token_ttl 60) 3600))]));
          input = header @ ''.'' @ payload
      in case sign input of Inl e \<Rightarrow> Inl e | Inr sig \<Rightarrow> Inr (input @ ''.'' @ b64url sig))"

text \<open>
  \<open>parse_answer\<close> reads \<open>access_token\<close> and \<open>expires_in\<close> of an answer. The cache is read and written under a
  lock that is not held during the exchange.
\<close>

definition access_exchange :: "(string \<Rightarrow> json option) \<Rightarrow> (string \<Rightarrow> (string \<times> nat) option) \<Rightarrow> string + string \<Rightarrow> (string \<Rightarrow> exchange_answer) \<Rightarrow> nat \<Rightarrow>
    access_cache \<Rightarrow> (string + string) \<times> access_cache" where
  "access_exchange read_json parse_answer assertion exchange now c = (case assertion of
      Inl e \<Rightarrow> (Inl e, c)
    | Inr a \<Rightarrow> (case exchange a of
        ExchangeFailed e \<Rightarrow> (Inl (''oauth token exchange failed: '' @ e), c)
      | ExchangeAnswer code t \<Rightarrow>
          (if code \<noteq> 200
           then (Inl (''oauth token exchange failed: HTTP '' @ decimal code @ '' '' @ or_default (extract_fcm_error read_json t) (trim t)), c)
           else (case parse_answer t of
               None \<Rightarrow> (Inl ''cannot parse oauth token response'', c)
             | Some (token, expires_in) \<Rightarrow> (Inr token, \<lparr>at_token = Some token, at_expires = now + expires_in\<rparr>)))))"

definition access_token :: "(string \<Rightarrow> json option) \<Rightarrow> (string \<Rightarrow> (string \<times> nat) option) \<Rightarrow> string + string \<Rightarrow> (string \<Rightarrow> exchange_answer) \<Rightarrow> nat \<Rightarrow>
    access_cache \<Rightarrow> (string + string) \<times> access_cache" where
  "access_token read_json parse_answer assertion exchange now c = (case at_token c of
      Some t \<Rightarrow> (if now + 60 < at_expires c then (Inr t, c) else access_exchange read_json parse_answer assertion exchange now c)
    | None \<Rightarrow> access_exchange read_json parse_answer assertion exchange now c)"

section \<open>The push\<close>

definition data_map :: "wake_map \<Rightarrow> (string \<times> json) list" where
  "data_map w = [(''receiver'', JStr (wm_receiver w))] @ concat (map (\<lambda>(key, v). optional_field key v)
     [(''sender'', wm_sender w), (''channel'', wm_channel w), (''message'', wm_message w)])"

definition fcm_payload :: "fcm_config \<Rightarrow> string \<Rightarrow> wake_map \<Rightarrow> json" where
  "fcm_payload cfg token w = JObj [(''message'', JObj [
     (''token'', JStr token), (''data'', JObj (data_map w)),
     (''android'', JObj [(''priority'', JStr ''HIGH''), (''restricted_package_name'', JStr (fc_app_package_name cfg)),
       (''ttl'', JStr ''30s'')])])]"

record fcm_request =
  fq_url :: string
  fq_bearer :: string
  fq_body :: json

definition fcm_send :: "(fcm_request \<Rightarrow> string + (nat \<times> string)) \<Rightarrow> (string \<Rightarrow> json option) \<Rightarrow> fcm_config \<Rightarrow> string \<Rightarrow> string + string \<Rightarrow> string \<Rightarrow>
    wake_map \<Rightarrow> send_result" where
  "fcm_send http read_json cfg project access token w = (case access of
      Inl e \<Rightarrow> \<lparr>sr_success = False, sr_code = 0, sr_reason = Some e\<rparr>
    | Inr bearer \<Rightarrow> (case http \<lparr>fq_url = ''https://fcm.googleapis.com/v1/projects/'' @ project @ ''/messages:send'', fq_bearer = bearer,
          fq_body = fcm_payload cfg token w\<rparr> of
        Inl e \<Rightarrow> \<lparr>sr_success = False, sr_code = 0, sr_reason = Some e\<rparr>
      | Inr (code, t) \<Rightarrow> (if code = 200 then \<lparr>sr_success = True, sr_code = 200, sr_reason = None\<rparr>
          else \<lparr>sr_success = False, sr_code = code,
            sr_reason = or_else (extract_fcm_error read_json t) (if trim t = [] then None else Some (trim t))\<rparr>)))"

definition upper :: "string \<Rightarrow> string" where
  "upper s = map (\<lambda>c. if 97 \<le> (of_char c :: nat) \<and> (of_char c :: nat) \<le> 122 then char_of ((of_char c :: nat) - 32) else c) s"

fun contains :: "string \<Rightarrow> string \<Rightarrow> bool" where
  "contains w [] \<longleftrightarrow> w = []"
| "contains w (c # cs) \<longleftrightarrow> starts_with w (c # cs) \<or> contains w cs"

definition fcm_should_invalidate :: "nat \<Rightarrow> string option \<Rightarrow> bool" where
  "fcm_should_invalidate code reason = (case reason of
      None \<Rightarrow> False
    | Some r \<Rightarrow> (code = 400 \<or> code = 404) \<and> (contains ''UNREGISTERED'' (upper r) \<or> contains ''REGISTRATION_TOKEN_NOT_REGISTERED'' (upper r)))"

section \<open>Wakes dispatched\<close>

definition fcm_settle :: "bool \<Rightarrow> string \<Rightarrow> send_result \<Rightarrow> fcm_row list \<times> bridge_counts \<Rightarrow> fcm_row list \<times> bridge_counts" where
  "fcm_settle ok token r s = (case s of (rows, n) \<Rightarrow>
     if sr_success r then (rows, n\<lparr>bn_pushed := bn_pushed n + 1\<rparr>)
     else if fcm_should_invalidate (sr_code r) (sr_reason r) then (fcm_invalidate ok token rows, n\<lparr>bn_failed := bn_failed n + 1\<rparr>)
     else (rows, n\<lparr>bn_failed := bn_failed n + 1\<rparr>))"

datatype fcm_wake_end = FcmNotAMap | FcmNoReceiver | FcmNoToken | FcmLookupFailed | FcmPushed send_result

definition fcm_dispatch_wake :: "(bytes \<Rightarrow> msg_map option) \<Rightarrow> (string \<Rightarrow> wake_map \<Rightarrow> send_result) \<Rightarrow> bool \<Rightarrow> bool \<Rightarrow>
    (fcm_row list \<Rightarrow> fcm_row list) \<Rightarrow> bytes \<Rightarrow> fcm_row list \<times> bridge_counts \<Rightarrow> fcm_wake_end \<times> fcm_row list \<times> bridge_counts" where
  "fcm_dispatch_wake read_map send read_ok ok others raw s = (case read_map raw of
      None \<Rightarrow> (FcmNotAMap, s)
    | Some m \<Rightarrow> (case wake_from_map m of
        None \<Rightarrow> (FcmNoReceiver, s)
      | Some w \<Rightarrow> (let s' = (fst s, (snd s)\<lparr>bn_notify := bn_notify (snd s) + 1\<rparr>) in
          if \<not> read_ok then (FcmLookupFailed, s')
          else (case fcm_get_token (wm_receiver w) (fst s') of
              None \<Rightarrow> (FcmNoToken, s')
            | Some token \<Rightarrow> (FcmPushed (send token w), fcm_settle ok token (send token w) (others (fst s'), snd s'))))))"

section \<open>Registrations\<close>

definition fcm_drop_token :: "bool \<Rightarrow> string \<Rightarrow> fcm_row list \<Rightarrow> (register_error + register_outcome) \<times> fcm_row list" where
  "fcm_drop_token ok sub rows = (case fcm_unregister ok sub rows of
      (None, rows') \<Rightarrow> (Inl UnregisterFailed, rows') | (Some removed, rows') \<Rightarrow> (Inr (TokenRemoved removed), rows'))"

definition fcm_handle_unregister :: "(bytes \<Rightarrow> msg_map option) \<Rightarrow> bool \<Rightarrow> bytes \<Rightarrow> fcm_row list \<Rightarrow> (register_error + register_outcome) \<times> fcm_row list" where
  "fcm_handle_unregister read_map ok data rows = (case read_map data of
      None \<Rightarrow> (Inl NotMsgpackMap, rows)
    | Some m \<Rightarrow> (case subscriber_hex m of Inl e \<Rightarrow> (Inl e, rows) | Inr sub \<Rightarrow> fcm_drop_token ok sub rows))"

definition fcm_handle_register :: "(bytes \<Rightarrow> msg_map option) \<Rightarrow> bool \<Rightarrow> nat \<Rightarrow> bytes \<Rightarrow> fcm_row list \<Rightarrow> (register_error + register_outcome) \<times> fcm_row list" where
  "fcm_handle_register read_map ok now data rows = (case read_map data of
      None \<Rightarrow> (Inl NotMsgpackMap, rows)
    | Some m \<Rightarrow> (case subscriber_hex m of
        Inl e \<Rightarrow> (Inl e, rows)
      | Inr sub \<Rightarrow> (case map_get_str m ''fcm_token'' of
          None \<Rightarrow> fcm_drop_token ok sub rows
        | Some token \<Rightarrow>
            if trim token = [] then (Inl BadToken, rows)
            else (case fcm_register ok now sub (trim token) rows of
                (was_stored, rows') \<Rightarrow> (if was_stored then Inr TokenStored else Inl RegisterFailed, rows')))))"

datatype fcm_endpoint = FcmRelay | FcmRegister | FcmUnregister

fun fcm_name :: "fcm_endpoint \<Rightarrow> string \<times> string" where
  "fcm_name FcmRelay = (''rfed'', ''notify'')"
| "fcm_name FcmRegister = (''fcm'', ''register'')"
| "fcm_name FcmUnregister = (''fcm'', ''unregister'')"

definition FCM_ENDPOINTS :: "fcm_endpoint list" where
  "FCM_ENDPOINTS = [FcmRelay, FcmRegister, FcmUnregister]"

end
