(* ===== verification/Bridges_Props.thy ===== *)
theory Bridges_Props
  imports FcmBridge
begin

text \<open>
  What the push bridges promise: a wake packet of the node is read back by both bridges with the hashes it
  was sent with, the token table of the APNs bridge is the map the requests describe, and a push that Apple
  rejects removes only the registration it was sent for.
\<close>

section \<open>Hexadecimal keys\<close>

lemma hex_digit_inj: "m < 16 \<Longrightarrow> n < 16 \<Longrightarrow> hex_digit m = hex_digit n \<Longrightarrow> m = n"
proof -
  have "distinct ''0123456789abcdef''" "length ''0123456789abcdef'' = 16" by simp_all
  then show "m < 16 \<Longrightarrow> n < 16 \<Longrightarrow> hex_digit m = hex_digit n \<Longrightarrow> m = n"
    unfolding hex_digit_def by (metis nth_eq_iff_index_eq)
qed

lemma byte_digits: "unat (b :: u8) div 16 < 16" "unat (b :: u8) mod 16 < 16"
proof -
  have "unat b < 2 ^ LENGTH(8)" by (rule unsigned_less)
  then have "unat b < 256" by simp
  then show "unat b div 16 < 16" by simp
qed simp

lemma hex_Cons: "hex (b # bs) = hex_digit (unat b div 16) # hex_digit (unat b mod 16) # hex bs"
  by (simp add: hex_def)

lemma hex_inj [simp]: "hex a = hex b \<longleftrightarrow> a = b"
proof (induction a arbitrary: b)
  case Nil
  then show ?case by (cases b) (simp_all add: hex_def)
next
  case (Cons x xs)
  show ?case
  proof (cases b)
    case (Cons y ys)
    have "unat x = unat y" if "hex_digit (unat x div 16) = hex_digit (unat y div 16)" "hex_digit (unat x mod 16) = hex_digit (unat y mod 16)"
      using that byte_digits by (metis div_mult_mod_eq hex_digit_inj)
    with Cons Cons.IH [of ys] show ?thesis by (auto simp: hex_Cons word_eq_iff_unsigned [where 'a = nat, symmetric] intro: unsigned_word_eqI)
  qed (simp add: hex_def)
qed

section \<open>The token table\<close>

lemma find_upsert:
  assumes "\<And>q. key (upd q x) = key x"
  shows "find (\<lambda>r. key r = k) (upsert key upd x xs) =
    (if k = key x then Some (case find (\<lambda>r. key r = k) xs of Some q \<Rightarrow> upd q x | None \<Rightarrow> x) else find (\<lambda>r. key r = k) xs)"
proof (cases "key x \<in> key ` set xs")
  case True
  have "find (\<lambda>r. key r = k) (map (\<lambda>q. if key q = key x then upd q x else q) xs) =
      (if k = key x then map_option (\<lambda>q. upd q x) (find (\<lambda>r. key r = k) xs) else find (\<lambda>r. key r = k) xs)"
    using assms by (induction xs) auto
  moreover from True have "find (\<lambda>r. key r = key x) xs \<noteq> None" by (auto simp: find_None_iff)
  ultimately show ?thesis using True by (auto simp: upsert_def)
next
  case False
  then have "find (\<lambda>r. key r = key x) xs = None" unfolding find_None_iff by (metis imageI)
  moreover have "find (\<lambda>r. key r = k) (xs @ [x]) = (case find (\<lambda>r. key r = k) xs of Some q \<Rightarrow> Some q | None \<Rightarrow> if key x = k then Some x else None)"
    by (induction xs) auto
  ultimately show ?thesis using False by (auto simp: upsert_def split: option.split)
qed

lemma find_filter_key: "find (\<lambda>r. key r = k) (filter (\<lambda>r. key r \<noteq> a) xs) = (if k = a then None else find (\<lambda>r. key r = k) xs)"
  by (induction xs) auto

lemma strip_start_none: "\<forall>w \<in> set ws. \<not> starts_with w s \<Longrightarrow> strip_start ws s = s"
  by (subst strip_start.simps) (auto simp: find_Some_iff split: option.split)

lemma parse_env_db_str [simp]: "parse_env (as_db_str e) = Some e"
proof -
  have "trim (as_db_str e) = as_db_str e"
    unfolding trim_def by (subst (2) strip_start_none, (cases e; simp add: WHITESPACE_def code_units_def starts_with_def char_of_def),
      subst strip_start_none, (cases e; simp add: WHITESPACE_def code_units_def starts_with_def char_of_def), simp)
  then show ?thesis by (cases e) (simp_all add: parse_env_def lower_def)
qed

lemma get_after_register:
  "apns_get_token k (snd (apns_register ok now sub token env rows)) =
    (if ok \<and> k = sub then Some (token, env) else apns_get_token k rows)"
  by (auto simp: apns_register_def apns_get_token_def find_upsert split: option.split)

lemma get_after_drop: "apns_get_token k (snd (drop_token ok sub rows)) = (if ok \<and> k = sub then None else apns_get_token k rows)"
  by (auto simp: drop_token_def apns_unregister_def apns_get_token_def find_filter_key Let_def)

text \<open>A request as what it asks for: nothing, a token for a subscriber, or none for it any more.\<close>

definition asked_token :: "apns_env \<Rightarrow> msg_map \<Rightarrow> (string \<times> apns_env) option option" where
  "asked_token default_env m = (case map_get_str m ''apns_token'' of
      None \<Rightarrow> Some None
    | Some t \<Rightarrow> (if length t = 64 \<and> list_all is_ascii_hexdigit t
        then (case requested_env default_env m of Inr e \<Rightarrow> Some (Some (lower t, e)) | Inl _ \<Rightarrow> None) else None))"

definition asked :: "(bytes \<Rightarrow> msg_map option) \<Rightarrow> apns_env \<Rightarrow> token_packet \<Rightarrow> (bytes \<times> (string \<times> apns_env) option) option" where
  "asked read_map default_env p = (case p of (ep, ok, now, data) \<Rightarrow> (case read_map data of
      None \<Rightarrow> None
    | Some m \<Rightarrow> (case map_get_bin m ''subscriber_hash'' of
        None \<Rightarrow> None
      | Some b \<Rightarrow> (if length b = 16 \<and> ok then map_option (Pair b)
          (case ep of ApnsUnregister \<Rightarrow> Some None | _ \<Rightarrow> asked_token default_env m) else None))))"

definition apply_asked :: "(bytes \<Rightarrow> msg_map option) \<Rightarrow> apns_env \<Rightarrow> token_packet \<Rightarrow> (bytes \<Rightarrow> (string \<times> apns_env) option) \<Rightarrow>
    bytes \<Rightarrow> (string \<times> apns_env) option" where
  "apply_asked read_map default_env p tokens = (case asked read_map default_env p of None \<Rightarrow> tokens | Some (b, t) \<Rightarrow> tokens(b := t))"

definition apns_tokens :: "apns_row list \<Rightarrow> bytes \<Rightarrow> (string \<times> apns_env) option" where
  "apns_tokens rows b = apns_get_token (hex b) rows"

lemma register_refines:
  "apns_tokens (snd (try_handle_register read_map default_env ok now data rows)) =
    apply_asked read_map default_env (ApnsRegister, ok, now, data) (apns_tokens rows)"
proof (cases "read_map data")
  case None
  then show ?thesis by (simp add: try_handle_register_def apply_asked_def asked_def)
next
  case (Some m)
  show ?thesis
  proof (cases "map_get_bin m ''subscriber_hash''")
    case None
    with Some show ?thesis by (simp add: try_handle_register_def subscriber_hex_def apply_asked_def asked_def)
  next
    case (Some b)
    note b = Some
    show ?thesis
    proof (cases "length b = 16")
      case False
      with \<open>read_map data = Some m\<close> b show ?thesis by (simp add: try_handle_register_def subscriber_hex_def apply_asked_def asked_def)
    next
      case True
      note this [simp] and \<open>read_map data = Some m\<close> [simp] and b [simp]
      show ?thesis
      proof (cases "map_get_str m ''apns_token''")
        case None
        then show ?thesis
          by (auto simp: fun_eq_iff try_handle_register_def subscriber_hex_def apply_asked_def asked_def asked_token_def apns_tokens_def get_after_drop)
      next
        case (Some t)
        then show ?thesis
          by (auto simp: fun_eq_iff try_handle_register_def subscriber_hex_def apply_asked_def asked_def asked_token_def apns_tokens_def
              case_prod_beta get_after_register split: sum.split)
      qed
    qed
  qed
qed

lemma unregister_refines:
  "apns_tokens (snd (try_handle_unregister read_map ok data rows)) =
    apply_asked read_map default_env (ApnsUnregister, ok, now, data) (apns_tokens rows)"
  by (auto simp: fun_eq_iff try_handle_unregister_def subscriber_hex_def apply_asked_def asked_def apns_tokens_def get_after_drop
      split: option.split)

lemma packet_refines: "apns_tokens (handle_token_packet read_map default_env p rows) = apply_asked read_map default_env p (apns_tokens rows)"
proof -
  obtain ep ok now data where p: "p = (ep, ok, now, data)" by (cases p)
  have legacy: "apply_asked read_map default_env (ApnsLegacyRegister, ok, now, data) = apply_asked read_map default_env (ApnsRegister, ok, now, data)"
    unfolding fun_eq_iff apply_asked_def asked_def prod.case token_endpoint.case by blast
  show ?thesis by (cases ep) (simp_all add: p register_refines unregister_refines [where now = now] legacy)
qed

lemma packets_refine:
  "apns_tokens (fold (handle_token_packet read_map default_env) ps rows) = fold (apply_asked read_map default_env) ps (apns_tokens rows)"
  by (induction ps arbitrary: rows) (simp_all add: packet_refines)

section \<open>Tables as the bridge writes them\<close>

text \<open>One row a subscriber, each for a gateway.\<close>

definition tokens_ok :: "apns_row list \<Rightarrow> bool" where
  "tokens_ok rows \<longleftrightarrow> distinct (map ar_subscriber rows) \<and> (\<forall>r \<in> set rows. ar_env r \<in> range as_db_str)"

lemma tokens_ok_filter: "tokens_ok rows \<Longrightarrow> tokens_ok (filter P rows)"
  by (auto simp: tokens_ok_def distinct_map_filter)

lemma tokens_ok_register: "tokens_ok rows \<Longrightarrow> tokens_ok (snd (apns_register ok now sub token env rows))"
  unfolding tokens_ok_def apns_register_def
  by (auto intro!: upsert_distinct) (auto simp: upsert_def split: if_splits)

lemma tokens_ok_drop: "tokens_ok rows \<Longrightarrow> tokens_ok (snd (drop_token ok sub rows))"
  by (simp add: drop_token_def apns_unregister_def Let_def tokens_ok_filter)

lemma tokens_ok_token_packet: "tokens_ok rows \<Longrightarrow> tokens_ok (handle_token_packet read_map default_env p rows)"
proof -
  assume ok: "tokens_ok rows"
  have reg: "tokens_ok (snd (try_handle_register read_map default_env ok' now data rows))" for ok' now data
    using ok tokens_ok_drop tokens_ok_register [OF ok]
    by (auto simp: try_handle_register_def case_prod_beta split: option.split sum.split)
  have unreg: "tokens_ok (snd (try_handle_unregister read_map ok' data rows))" for ok' data
    using ok tokens_ok_drop by (auto simp: try_handle_unregister_def split: option.split sum.split)
  obtain ep ok' now data where "p = (ep, ok', now, data)" by (cases p)
  with reg unreg show ?thesis by (cases ep) simp_all
qed

lemma tokens_ok_token_packets: "tokens_ok rows \<Longrightarrow> tokens_ok (fold (handle_token_packet read_map default_env) ps rows)"
  by (induction ps arbitrary: rows) (simp_all add: tokens_ok_token_packet)

section \<open>Wakes and the table\<close>

definition rejected :: "send_result \<Rightarrow> bool" where
  "rejected res \<longleftrightarrow> \<not> sr_success res \<and> should_invalidate (sr_code res) (sr_reason res)"

definition purge_token :: "string \<Rightarrow> apns_env \<Rightarrow> (bytes \<Rightarrow> (string \<times> apns_env) option) \<Rightarrow> bytes \<Rightarrow> (string \<times> apns_env) option" where
  "purge_token token env tokens b = (if tokens b = Some (token, env) then None else tokens b)"

lemma find_filter_distinct: "distinct (map key xs) \<Longrightarrow>
    find (\<lambda>x. key x = k) (filter P xs) = (case find (\<lambda>x. key x = k) xs of Some x \<Rightarrow> if P x then Some x else None | None \<Rightarrow> None)"
proof (induction xs)
  case (Cons x xs)
  have "find (\<lambda>y. key y = k) xs = None" if "key x = k" using Cons.prems that by (auto simp: find_None_iff image_iff)
  with Cons show ?case by (auto split: option.split)
qed simp

lemma as_db_str_inj [simp]: "as_db_str e = as_db_str e' \<longleftrightarrow> e = e'"
  by (cases e; cases e') simp_all

lemma purge_refines:
  assumes "tokens_ok rows"
  shows "apns_tokens (apns_invalidate ok token env rows) = (if ok then purge_token token env (apns_tokens rows) else apns_tokens rows)"
proof (cases ok)
  case True
  have env: "\<exists>e. ar_env r = as_db_str e" if "find (\<lambda>r. ar_subscriber r = k) rows = Some r" for k r
    using assms that unfolding tokens_ok_def find_Some_iff by (metis imageE nth_mem)
  have "apns_get_token k (apns_invalidate True token env rows) =
      (if apns_get_token k rows = Some (token, env) then None else apns_get_token k rows)" for k
  proof (cases "find (\<lambda>r. ar_subscriber r = k) rows")
    case None
    then show ?thesis using assms by (simp add: apns_invalidate_def apns_get_token_def find_filter_distinct tokens_ok_def)
  next
    case (Some r)
    from env [OF this] obtain e where "ar_env r = as_db_str e" by blast
    with Some assms show ?thesis
      by (auto simp: apns_invalidate_def apns_get_token_def find_filter_distinct tokens_ok_def)
  qed
  with True show ?thesis by (simp add: fun_eq_iff apns_tokens_def purge_token_def)
qed (simp add: apns_invalidate_def)

text \<open>
  A wake as what it does to the registrations: none for a packet that is no wake, and none for a subscriber
  without a token; otherwise the registration goes if the gateway it is registered with rejects its token, and
  if it still is that token after what was asked meanwhile.
\<close>

definition apply_wake :: "(bytes \<Rightarrow> msg_map option) \<Rightarrow> apns_env \<Rightarrow> push_io \<Rightarrow> bytes \<Rightarrow> (bytes \<Rightarrow> (string \<times> apns_env) option) \<Rightarrow>
    bytes \<Rightarrow> (string \<times> apns_env) option" where
  "apply_wake read_map default_env io data tokens = (case read_map data of
      None \<Rightarrow> tokens
    | Some m \<Rightarrow> (case (map_get_bin m ''receiver'', wake_from_map m) of
        (Some b, Some w) \<Rightarrow> (case (if pi_read_ok io then tokens b else None) of
            None \<Rightarrow> tokens
          | Some (token, env) \<Rightarrow>
              (let asked_meanwhile = (\<lambda>e. fold (apply_asked read_map default_env) (pi_meanwhile io e));
                   told = asked_meanwhile env tokens;
                   kept = (if pi_purge_ok io env \<and> rejected (pi_send io token env w) then purge_token token env told else told)
               in if env = Sandbox then asked_meanwhile Production kept else kept))
      | _ \<Rightarrow> tokens))"

fun apply_packet :: "(bytes \<Rightarrow> msg_map option) \<Rightarrow> apns_env \<Rightarrow> apns_packet \<Rightarrow> (bytes \<Rightarrow> (string \<times> apns_env) option) \<Rightarrow>
    bytes \<Rightarrow> (string \<times> apns_env) option" where
  "apply_packet read_map default_env (RelayPacket io data) tokens = apply_wake read_map default_env io data tokens"
| "apply_packet read_map default_env (TokenPacket p) tokens = apply_asked read_map default_env p tokens"

lemma settle_refines:
  assumes "tokens_ok (fst s)"
  shows "tokens_ok (fst (settle_push ok token env e res s)) \<and>
    apns_tokens (fst (settle_push ok token env e res s)) =
      (if e = env \<and> ok \<and> rejected res then purge_token token env (apns_tokens (fst s)) else apns_tokens (fst s))"
proof -
  have "tokens_ok (apns_invalidate ok token env (fst s))" using assms by (simp add: apns_invalidate_def tokens_ok_filter)
  then show ?thesis using assms purge_refines [OF assms, of ok token env]
    by (cases s) (auto simp: settle_push_def rejected_def)
qed

lemma wake_refines:
  assumes ok: "tokens_ok (fst s)"
  shows "tokens_ok (fst (handle_packet read_map default_env (RelayPacket io data) s)) \<and>
    apns_tokens (fst (handle_packet read_map default_env (RelayPacket io data) s)) = apply_wake read_map default_env io data (apns_tokens (fst s))"
proof (cases "read_map data")
  case None
  then show ?thesis using ok by (simp add: dispatch_wake_def apply_wake_def)
next
  case (Some m)
  note m = Some
  show ?thesis
  proof (cases "wake_from_map m")
    case None
    then show ?thesis using ok m by (simp add: dispatch_wake_def apply_wake_def split: option.split)
  next
    case (Some w)
    then obtain b where b: "map_get_bin m ''receiver'' = Some b" "wm_receiver w = hex b"
      by (auto simp: wake_from_map_def hash_field_def split: option.splits if_splits)
    show ?thesis
    proof (cases "if pi_read_ok io then apns_tokens (fst s) b else None")
      case None
      then show ?thesis using ok m Some b
        by (auto simp: dispatch_wake_def apply_wake_def apns_tokens_def split: if_splits)
    next
      case (Some t)
      obtain token env where t: "t = (token, env)" by (cases t)
      have look: "pi_read_ok io" "apns_get_token (hex b) (fst s) = Some (token, env)"
        using Some t by (auto simp: apns_tokens_def split: if_splits)
      show ?thesis using m \<open>wake_from_map m = Some w\<close> b look ok
        by (cases env) (simp_all add: Let_def dispatch_wake_def apply_wake_def gateways_def settle_refines tokens_ok_token_packets packets_refine
            apns_tokens_def [of "fst s" b])
    qed
  qed
qed

lemma handle_refines:
  assumes "tokens_ok (fst s)"
  shows "tokens_ok (fst (handle_packet read_map default_env p s)) \<and>
    apns_tokens (fst (handle_packet read_map default_env p s)) = apply_packet read_map default_env p (apns_tokens (fst s))"
proof (cases p)
  case (RelayPacket io data)
  then show ?thesis using wake_refines [OF assms] by simp
next
  case (TokenPacket q)
  then show ?thesis using tokens_ok_token_packet [OF assms] packet_refines by simp
qed

text \<open>
  C25: The token table of the APNs bridge is the map its packets describe: after any packets to its four
  endpoints, whatever they hold and whichever statements of the database fail, the token and gateway found for a
  subscriber are those of the last request for it that was well formed and stored, or none when that one was a
  removal or named no token as a string, or when since then a gateway rejected the very token registered with it
  on a wake of a subscriber that has it, and the removal was written. A refused request changes nothing, no
  request changes another subscriber's token, and a request handled while a wake is being pushed counts as it
  comes: a token registered meanwhile is not removed for the old one. Wakes are handled one after another; the
  table is one the bridge wrote, with one row a subscriber.
\<close>

theorem tokens_refine_requests:
  assumes "tokens_ok rows"
  shows "apns_tokens (fst (fold (handle_packet read_map default_env) ps (rows, n))) =
    fold (apply_packet read_map default_env) ps (apns_tokens rows)"
proof -
  have "apns_tokens (fst (fold (handle_packet read_map default_env) ps s)) = fold (apply_packet read_map default_env) ps (apns_tokens (fst s))"
    if "tokens_ok (fst s)" for s
    using that by (induction ps arbitrary: s) (simp_all add: handle_refines)
  from this [of "(rows, n)"] assms show ?thesis by simp
qed

text \<open>A token that Apple rejects while its device registers the next one: the next one stays.\<close>

definition demo_device :: bytes where
  "demo_device = replicate 16 7"

definition demo_bridge_map :: "bytes \<Rightarrow> msg_map option" where
  "demo_bridge_map data = (case data of
      [k] \<Rightarrow> if k = 0 then Some [(MStr ''receiver'', MBin demo_device)]
        else Some [(MStr ''subscriber_hash'', MBin demo_device), (MStr ''apns_token'', MStr (replicate 64 (if k = 1 then CHR ''a'' else CHR ''b'')))]
    | _ \<Rightarrow> None)"

definition gone_push :: "token_packet list \<Rightarrow> push_io" where
  "gone_push ps = \<lparr>pi_send = (\<lambda>_ _ _. \<lparr>sr_success = False, sr_code = 410, sr_reason = None\<rparr>), pi_read_ok = True,
     pi_purge_ok = (\<lambda>_. True), pi_meanwhile = (\<lambda>_. ps)\<rparr>"

lemma tokens_refine_requests_witness:
  "apns_tokens (fst (fold (handle_packet demo_bridge_map Production)
      [TokenPacket (ApnsRegister, True, 5, [1]), RelayPacket (gone_push [(ApnsRegister, True, 6, [2])]) [0]]
      ([], \<lparr>bn_notify = 0, bn_pushed = 0, bn_failed = 0\<rparr>))) demo_device = Some (replicate 64 (CHR ''b''), Production) \<and>
   apns_tokens (fst (fold (handle_packet demo_bridge_map Production)
      [TokenPacket (ApnsRegister, True, 5, [1]), RelayPacket (gone_push []) [0]]
      ([], \<lparr>bn_notify = 0, bn_pushed = 0, bn_failed = 0\<rparr>))) demo_device = None"
proof -
  have ok: "tokens_ok []" by (simp add: tokens_ok_def)
  have "fold (apply_packet demo_bridge_map Production)
      [TokenPacket (ApnsRegister, True, 5, [1]), RelayPacket (gone_push [(ApnsRegister, True, 6, [2])]) [0]] (apns_tokens []) demo_device =
        Some (replicate 64 (CHR ''b''), Production)"
    "fold (apply_packet demo_bridge_map Production)
      [TokenPacket (ApnsRegister, True, 5, [1]), RelayPacket (gone_push []) [0]] (apns_tokens []) demo_device = None"
    by code_simp+
  then show ?thesis by (simp only: tokens_refine_requests [OF ok] simp_thms)
qed

text \<open>A token that is no string counts as a missing one: the registration is removed.\<close>

lemma binary_token_unregisters:
  assumes "read_map data = Some [(MStr ''subscriber_hash'', MBin b), (MStr ''apns_token'', MBin t)]" and "length b = 16"
  shows "apns_tokens (snd (try_handle_register read_map env True now data rows)) b = None"
  using assms by (simp add: register_refines apply_asked_def asked_def asked_token_def map_get_bin_def map_get_str_def map_get_def as_str_def
      bytes_of_def)

section \<open>Rejected pushes\<close>

text \<open>A row is gone after a push only if it holds the token, for the gateway that rejected it.\<close>

lemma settle_keeps:
  assumes "r \<in> set (fst s)"
  shows "r \<in> set (fst (settle_push ok token env e res s)) \<or>
    (e = env \<and> ar_token r = token \<and> ar_env r = as_db_str env \<and> \<not> sr_success res \<and> should_invalidate (sr_code res) (sr_reason res))"
  using assms by (auto simp: settle_push_def apns_invalidate_def split: prod.splits)

lemma apns_push_loop_keeps:
  assumes "\<And>e rs. r \<in> set rs \<Longrightarrow> r \<in> set (others e rs)" and "r \<in> set (fst s)"
  shows "r \<in> set (fst (apns_push_loop send ok others token env es s)) \<or>
    (env \<in> set es \<and> ar_token r = token \<and> ar_env r = as_db_str env \<and> \<not> sr_success (send env) \<and> should_invalidate (sr_code (send env)) (sr_reason (send env)))"
  using assms(2)
proof (induction es arbitrary: s)
  case (Cons e es)
  have "r \<in> set (fst (others e (fst s), snd s))" using assms(1) Cons.prems by simp
  from settle_keeps [OF this, of "ok e" token env e "send e"] Cons.IH show ?case by fastforce
qed simp

lemma gateways_env: "env \<in> set (gateways env)"
  by (cases env) (simp_all add: gateways_def)

text \<open>
  C26: A wake removes a registration only when the registration holds the token the wake was pushed to, for
  the gateway it is registered with, and that gateway itself answered that the token is invalid. Whatever
  other threads register or remove while the pushes are under way, and whatever the second gateway of a
  sandbox token says, every other registration that they leave in the table stays in it.
\<close>

theorem purge_only_what_was_rejected:
  assumes "dispatch_wake read_map send read_ok ok others raw (rows, n) = (outcome, rows', n')"
    and "\<forall>e rs. r \<in> set rs \<longrightarrow> r \<in> set (others e rs)" and "r \<in> set rows" and "r \<notin> set rows'"
  shows "\<exists>m w env res. read_map raw = Some m \<and> wake_from_map m = Some w \<and> apns_get_token (wm_receiver w) rows = Some (ar_token r, env) \<and>
    ar_env r = as_db_str env \<and> res = send (ar_token r) env w \<and> (\<exists>pushes. outcome = PushedTo pushes \<and> (env, res) \<in> set pushes) \<and>
    \<not> sr_success res \<and> should_invalidate (sr_code res) (sr_reason res)"
proof -
  obtain m where m: "read_map raw = Some m" using assms by (cases "read_map raw") (auto simp: dispatch_wake_def)
  obtain w where w: "wake_from_map m = Some w" using assms m by (cases "wake_from_map m") (auto simp: dispatch_wake_def)
  have "read_ok" using assms m w by (auto simp: dispatch_wake_def Let_def split: if_splits)
  then obtain token env where t: "apns_get_token (wm_receiver w) rows = Some (token, env)"
    using assms m w by (cases "apns_get_token (wm_receiver w) rows") (auto simp: dispatch_wake_def)
  have run: "outcome = PushedTo (map (\<lambda>e. (e, send token e w)) (gateways env))"
    "(rows', n') = apns_push_loop (\<lambda>e. send token e w) ok others token env (gateways env) (rows, n\<lparr>bn_notify := bn_notify n + 1\<rparr>)"
    using assms(1) m w \<open>read_ok\<close> t by (auto simp: dispatch_wake_def)
  from run(2) have "fst (apns_push_loop (\<lambda>e. send token e w) ok others token env (gateways env) (rows, n\<lparr>bn_notify := bn_notify n + 1\<rparr>)) = rows'"
    by (metis fst_conv)
  with apns_push_loop_keeps [where others = others and r = r and s = "(rows, n\<lparr>bn_notify := bn_notify n + 1\<rparr>)" and es = "gateways env"
      and send = "\<lambda>e. send token e w" and ok = ok and token = token and env = env] assms(2,3,4)
  have "ar_token r = token \<and> ar_env r = as_db_str env \<and> \<not> sr_success (send token env w) \<and> should_invalidate (sr_code (send token env w)) (sr_reason (send token env w))"
    by auto
  with m w t run(1) gateways_env [of env] show ?thesis by (intro exI [of _ m] exI [of _ w] exI [of _ env]) auto
qed

section \<open>From the node to the bridge\<close>

lemma map_get_encoded:
  "map_get (map (\<lambda>(k, v). (MStr k, MBin v)) fs) key = map_option MBin (hget (filter (\<lambda>f. utf8_ok (bytes_of (fst f))) fs) key)"
  by (induction fs) (auto simp: map_get_def as_str_def split: if_splits)

lemma wake_fields_utf8: "utf8_ok (bytes_of ''receiver'')" "utf8_ok (bytes_of ''channel'')" "utf8_ok (bytes_of ''message'')"
  by (simp_all add: bytes_of_def)

text \<open>
  C27: The packet the node wakes a relay with is read back by either bridge as the wake it stands for: the
  bridge looks up the token registered for exactly the subscriber of the node's registration, names the
  message and channel in full, and pushes to the gateways of that token once each. The names the bridges
  take wakes under are the two the node sends them to.
\<close>

theorem wake_reaches_bridges:
  assumes codec: "\<And>fs. read_map (enc fs) = Some (map (\<lambda>(k, v). (MStr k, MBin v)) fs)"
    and "length sub = 16" and "\<And>c. chan = Some c \<Longrightarrow> length c = 16" and "\<And>m. message = Some m \<Longrightarrow> length m = 32"
    and w: "w = \<lparr>wm_receiver = hex sub, wm_sender = None, wm_channel = map_option hex chan, wm_message = map_option hex message\<rparr>"
    and apns: "apns_get_token (hex sub) rows = Some (token, env)" and fcm: "fcm_get_token (hex sub) frows = Some ftoken"
  shows "fst (dispatch_wake read_map send True ok others (encode_wake_payload enc sub chan message) (rows, n)) =
      PushedTo (map (\<lambda>e. (e, send token e w)) (gateways env)) \<and>
    fst (fcm_dispatch_wake read_map fsend True fok fothers (encode_wake_payload enc sub chan message) (frows, n)) = FcmPushed (fsend ftoken w) \<and>
    set RELAY_WAKE_NAMES = {apns_name ApnsRelay, fcm_name FcmRelay}"
proof -
  let ?fs = "[(''receiver'', sub)] @ (case chan of None \<Rightarrow> [] | Some c \<Rightarrow> [(''channel'', c)]) @
     (case message of None \<Rightarrow> [] | Some m \<Rightarrow> [(''message'', m)])"
  have "utf8_ok (bytes_of (fst f))" if "f \<in> set ?fs" for f
    using that wake_fields_utf8 by (auto split: option.splits)
  then have "filter (\<lambda>f. utf8_ok (bytes_of (fst f))) ?fs = ?fs" by (intro filter_True) blast
  then have get: "map_get (map (\<lambda>(k, v). (MStr k, MBin v)) ?fs) key = map_option MBin (hget ?fs key)" for key
    by (simp only: map_get_encoded)
  have "wake_from_map (map (\<lambda>(k, v). (MStr k, MBin v)) ?fs) = Some w"
    unfolding wake_from_map_def hash_field_def map_get_bin_def get using assms(2-4) w by (auto split: option.split)
  then obtain m where read: "read_map (encode_wake_payload enc sub chan message) = Some m" "wake_from_map m = Some w"
    by (simp only: encode_wake_payload_def codec)
  have "wm_receiver w = hex sub" using w by simp
  with read apns fcm show ?thesis by (auto simp: dispatch_wake_def fcm_dispatch_wake_def RELAY_WAKE_NAMES_def)
qed

text \<open>A codec that keeps the law: every byte announced by a 1, every list ended by a 0.\<close>

fun enc_bytes :: "bytes \<Rightarrow> bytes" where
  "enc_bytes [] = [0]"
| "enc_bytes (b # bs) = 1 # b # enc_bytes bs"

fun dec_bytes :: "bytes \<Rightarrow> (bytes \<times> bytes) option" where
  "dec_bytes (x # b # r) = (if x = 0 then Some ([], b # r) else map_option (\<lambda>(bs, r). (b # bs, r)) (dec_bytes r))"
| "dec_bytes [x] = Some ([], [])"
| "dec_bytes [] = None"

lemma dec_enc_bytes: "dec_bytes (enc_bytes bs @ r) = Some (bs, r)"
  by (induction bs) (cases r; simp)+

fun enc_fields :: "(string \<times> bytes) list \<Rightarrow> bytes" where
  "enc_fields [] = [0]"
| "enc_fields ((k, v) # fs) = 1 # enc_bytes (bytes_of k) @ enc_bytes v @ enc_fields fs"

fun dec_fields :: "nat \<Rightarrow> bytes \<Rightarrow> msg_map option" where
  "dec_fields (Suc n) (x # r) = (if x = 0 then Some [] else (case dec_bytes r of
      None \<Rightarrow> None
    | Some (k, r) \<Rightarrow> (case dec_bytes r of None \<Rightarrow> None
        | Some (v, r) \<Rightarrow> map_option (Cons (MStr (text_of k), MBin v)) (dec_fields n r))))"
| "dec_fields _ _ = None"

lemma dec_enc_fields: "length fs < n \<Longrightarrow> dec_fields n (enc_fields fs) = Some (map (\<lambda>(k, v). (MStr k, MBin v)) fs)"
proof (induction fs arbitrary: n)
  case Nil
  then show ?case by (cases n) simp_all
next
  case (Cons f fs)
  from Cons.prems obtain m where "n = Suc m" "length fs < m" by (cases n) auto
  with Cons.IH [of m] show ?case by (cases f) (simp add: dec_enc_bytes)
qed

lemma length_enc_fields: "length fs < length (enc_fields fs)"
  by (induction fs rule: enc_fields.induct) auto

definition demo_read_map :: "bytes \<Rightarrow> msg_map option" where
  "demo_read_map d = dec_fields (length d) d"

lemma demo_codec: "demo_read_map (enc_fields fs) = Some (map (\<lambda>(k, v). (MStr k, MBin v)) fs)"
  by (simp add: demo_read_map_def dec_enc_fields length_enc_fields)

definition demo_sub :: bytes where
  "demo_sub = replicate 16 7"

definition demo_wake_map :: wake_map where
  "demo_wake_map = \<lparr>wm_receiver = hex demo_sub, wm_sender = None, wm_channel = None, wm_message = None\<rparr>"

definition demo_row :: apns_row where
  "demo_row = \<lparr>ar_subscriber = hex demo_sub, ar_token = ''t'', ar_env = ''production'', ar_registered = 0, ar_updated = 0\<rparr>"

lemma demo_token: "apns_get_token (hex demo_sub) [demo_row] = Some (''t'', Production)"
proof -
  have "parse_env ''production'' = Some Production" using parse_env_db_str [of Production] by simp
  then show ?thesis by (simp add: apns_get_token_def demo_row_def)
qed

lemma demo_wake_of: "wake_from_map [(MStr ''receiver'', MBin demo_sub)] = Some demo_wake_map"
  by (simp add: wake_from_map_def hash_field_def map_get_bin_def map_get_def as_str_def wake_fields_utf8 demo_wake_map_def demo_sub_def)

definition demo_frow :: fcm_row where
  "demo_frow = \<lparr>fr_subscriber = hex demo_sub, fr_token = ''f'', fr_registered = 0, fr_updated = 0\<rparr>"

theorem wake_reaches_bridges_witness:
  "fst (dispatch_wake demo_read_map (\<lambda>t e w. \<lparr>sr_success = True, sr_code = 200, sr_reason = Some t\<rparr>) True (\<lambda>e. True) (\<lambda>e rs. rs)
      (encode_wake_payload enc_fields demo_sub None None) ([demo_row], \<lparr>bn_notify = 0, bn_pushed = 0, bn_failed = 0\<rparr>)) =
    PushedTo [(Production, \<lparr>sr_success = True, sr_code = 200, sr_reason = Some ''t''\<rparr>)]"
proof -
  have "fcm_get_token (hex demo_sub) [demo_frow] = Some ''f''" by (simp add: fcm_get_token_def demo_frow_def)
  from wake_reaches_bridges [OF demo_codec _ _ _ refl demo_token this, of None None
      "\<lambda>t e w. \<lparr>sr_success = True, sr_code = 200, sr_reason = Some t\<rparr>" "\<lambda>e. True" "\<lambda>e rs. rs" "\<lparr>bn_notify = 0, bn_pushed = 0, bn_failed = 0\<rparr>"]
  show ?thesis by (simp add: gateways_def demo_sub_def)
qed

theorem purge_only_what_was_rejected_witness:
  "\<exists>m w env (res :: send_result). demo_read_map (enc_fields [(''receiver'', demo_sub)]) = Some m \<and> wake_from_map m = Some w \<and>
    apns_get_token (wm_receiver w) [demo_row] = Some (ar_token demo_row, env) \<and> ar_env demo_row = as_db_str env \<and>
    \<not> sr_success res \<and> should_invalidate (sr_code res) (sr_reason res)"
proof -
  let ?send = "\<lambda>t e w. \<lparr>sr_success = False, sr_code = 410, sr_reason = None\<rparr>"
  let ?n = "\<lparr>bn_notify = 0, bn_pushed = 0, bn_failed = 0\<rparr>"
  have tok: "apns_get_token (wm_receiver demo_wake_map) [demo_row] = Some (''t'', Production)"
    using demo_token by (simp add: demo_wake_map_def)
  have run: "dispatch_wake demo_read_map ?send True (\<lambda>e. True) (\<lambda>e rs. rs) (enc_fields [(''receiver'', demo_sub)]) ([demo_row], ?n) =
      (PushedTo [(Production, \<lparr>sr_success = False, sr_code = 410, sr_reason = None\<rparr>)], [],
       \<lparr>bn_notify = 1, bn_pushed = 0, bn_failed = 1\<rparr>)"
    unfolding dispatch_wake_def demo_codec by (simp add: demo_wake_of tok gateways_def settle_push_def should_invalidate_def
      apns_invalidate_def) (simp add: demo_row_def)
  have kept: "\<forall>(e :: apns_env) rs. demo_row \<in> set rs \<longrightarrow> demo_row \<in> set rs" by simp
  have "demo_row \<in> set [demo_row]" "demo_row \<notin> set []" by simp_all
  from purge_only_what_was_rejected [OF run kept this] show ?thesis by blast
qed

end
