(* ===== verification/PeersFile.thy ===== *)
theory PeersFile
  imports Peering MessageStore
begin

text \<open>
  What an \<open>lxmf.propagation\<close> node keeps across a restart (\<open>save_peers\<close>, \<open>load_peers\<close>, \<open>save_locally_processed\<close>,
  \<open>load_locally_processed\<close>, \<open>save_stats\<close>, \<open>load_stats\<close> of \<open>rfed/src/lxmf_propagation.rs\<close>), the start of the node
  (\<open>enable\<close>) and the peering keys it grinds (\<open>spawn_peering_key_gen\<close>).

  A file is what its msgpack decodes to, record by record, with what could not be read said by the record.
  \<open>read_meta\<close> and \<open>show_meta\<close> are \<open>rmpv\<close>'s decoding and encoding of a metadata value. Whether a write and a
  rename succeed are arguments.
\<close>

section \<open>Values\<close>

text \<open>Whole numbers are written as integers, as the reference holds them.\<close>

definition number :: "real \<Rightarrow> msg_value" where
  "number v = (if of_int \<lfloor>v\<rfloor> = v \<and> \<bar>v\<bar> < 9 * 10 ^ 15 then MInt \<lfloor>v\<rfloor> else MFloat v)"

definition opt_value :: "('a \<Rightarrow> msg_value) \<Rightarrow> 'a option \<Rightarrow> msg_value" where
  "opt_value f v = (case v of None \<Rightarrow> MNil | Some x \<Rightarrow> f x)"

definition int_value :: "nat \<Rightarrow> msg_value" where
  "int_value n = MInt (int n)"

definition as_byte :: "msg_value \<Rightarrow> u8 option" where
  "as_byte v = (case v of MInt i \<Rightarrow> if 0 \<le> i \<and> i \<le> 255 then Some (of_int i) else None | _ \<Rightarrow> None)"

text \<open>\<open>iter().map(f).collect::<Option<_>>()\<close>.\<close>

fun all_some :: "'a option list \<Rightarrow> 'a list option" where
  "all_some [] = Some []"
| "all_some (x # xs) = (case x of None \<Rightarrow> None | Some y \<Rightarrow> map_option (Cons y) (all_some xs))"

definition value_bytes :: "msg_value \<Rightarrow> bytes option" where
  "value_bytes v = (case v of MBin b \<Rightarrow> Some b | MArr items \<Rightarrow> all_some (map as_byte items) | _ \<Rightarrow> None)"

definition value_u32 :: "msg_value \<Rightarrow> nat option" where
  "value_u32 v = (case v of
      MInt i \<Rightarrow> if 0 \<le> i \<and> i < 2 ^ 32 then Some (nat i) else None
    | MFloat r \<Rightarrow> if 0 \<le> r \<and> r < 4294967296 then Some (nat \<lfloor>r\<rfloor>) else None
    | _ \<Rightarrow> None)"

definition as_bool :: "msg_value \<Rightarrow> bool option" where
  "as_bool v = (case v of MBool b \<Rightarrow> Some b | _ \<Rightarrow> None)"

definition f64_or_zero :: "msg_value \<Rightarrow> real" where
  "f64_or_zero v = (case as_f64 v of Some r \<Rightarrow> r | None \<Rightarrow> 0)"

text \<open>\<open>f64::trunc\<close>.\<close>

definition trunc :: "real \<Rightarrow> real" where
  "trunc r = (if 0 \<le> r then of_int \<lfloor>r\<rfloor> else of_int \<lceil>r\<rceil>)"

text \<open>An id is 32 bytes as a bin, or as an array of integers.\<close>

definition read_id :: "msg_value \<Rightarrow> bytes option" where
  "read_id v = (case v of
      MBin b \<Rightarrow> if length b = 32 then Some b else None
    | MArr items \<Rightarrow> if length items = 32 then all_some (map as_byte items) else None
    | _ \<Rightarrow> None)"

section \<open>Writing\<close>

definition write_ids :: "(bytes \<times> propagation_entry) list \<Rightarrow> msg_value" where
  "write_ids es = MArr (map (\<lambda>x. MBin (fst x)) es)"

definition key_value :: "bytes \<times> nat \<Rightarrow> msg_value" where
  "key_value k = MArr [MBin (fst k), int_value (snd k)]"

definition write_peer_record :: "(bytes \<Rightarrow> msg_value option) \<Rightarrow> prop_peer \<Rightarrow> propagation_entries \<Rightarrow> (string \<times> msg_value) list" where
  "write_peer_record read_meta p E = [
     (''peering_timebase'', number (pp_timebase p)),
     (''alive'', MBool (pp_alive p)),
     (''metadata'', case pp_metadata p of None \<Rightarrow> MNil | Some b \<Rightarrow> (case read_meta b of None \<Rightarrow> MNil | Some v \<Rightarrow> v)),
     (''last_heard'', number (pp_last_heard p)),
     (''sync_strategy'', MInt 2),
     (''peering_key'', opt_value key_value (pp_peering_key p)),
     (''destination_hash'', MBin (pp_hash p)),
     (''link_establishment_rate'', MInt 0),
     (''sync_transfer_rate'', number (pp_rate p)),
     (''propagation_transfer_limit'', opt_value number (pp_transfer_limit p)),
     (''propagation_sync_limit'', opt_value number (pp_sync_limit p)),
     (''propagation_stamp_cost'', opt_value int_value (pp_stamp_cost p)),
     (''propagation_stamp_cost_flexibility'', opt_value int_value (pp_stamp_flexibility p)),
     (''peering_cost'', opt_value int_value (pp_peering_cost p)),
     (''last_sync_attempt'', number (pp_last_attempt p)),
     (''offered'', MInt 0), (''outgoing'', MInt 0), (''incoming'', MInt 0), (''rx_bytes'', MInt 0), (''tx_bytes'', MInt 0),
     (''handled_ids'', write_ids (handled_messages (pp_slot p) E)),
     (''unhandled_ids'', write_ids (unhandled_messages (pp_slot p) E))]"

section \<open>Reading\<close>

record peer_record =
  pf_hash :: "bytes option"
  pf_alive :: bool
  pf_last_heard :: real
  pf_timebase :: real
  pf_rate :: real
  pf_last_attempt :: real
  pf_transfer_limit :: "real option"
  pf_sync_limit :: "real option"
  pf_stamp_cost :: "nat option"
  pf_stamp_flexibility :: "nat option"
  pf_peering_cost :: "nat option"
  pf_peering_key :: "(bytes \<times> nat) option"
  pf_metadata :: "bytes option"

definition no_record :: peer_record where
  "no_record = \<lparr>pf_hash = None, pf_alive = False, pf_last_heard = 0, pf_timebase = 0, pf_rate = 0, pf_last_attempt = 0,
     pf_transfer_limit = None, pf_sync_limit = None, pf_stamp_cost = None, pf_stamp_flexibility = None, pf_peering_cost = None,
     pf_peering_key = None, pf_metadata = None\<rparr>"

definition RFED_PEER_FIELDS :: "string list" where
  "RFED_PEER_FIELDS = [''destination_hash'', ''alive'', ''last_heard'', ''peering_timebase'', ''propagation_stamp_cost'',
     ''propagation_stamp_flexibility'', ''peering_cost'', ''propagation_transfer_limit'', ''propagation_sync_limit'', ''peering_key'',
     ''metadata'', ''sync_transfer_rate'', ''handled_ids'', ''unhandled_ids'']"

definition read_key :: "msg_value \<Rightarrow> (bytes \<times> nat) option" where
  "read_key v = (case v of
      MArr [k, n] \<Rightarrow> (case value_bytes k of None \<Rightarrow> None | Some b \<Rightarrow> map_option (Pair b) (value_u32 n))
    | _ \<Rightarrow> None)"

text \<open>The fields other than the ids.\<close>

definition read_plain_field :: "(msg_value \<Rightarrow> bytes) \<Rightarrow> bool \<Rightarrow> string \<Rightarrow> msg_value \<Rightarrow> peer_record \<Rightarrow> peer_record" where
  "read_plain_field show_meta rfed_record name v r =
     (if name = ''destination_hash'' then r\<lparr>pf_hash := value_bytes v\<rparr>
      else if name = ''alive'' then r\<lparr>pf_alive := (case as_bool v of Some b \<Rightarrow> b | None \<Rightarrow> False)\<rparr>
      else if name = ''last_heard'' then r\<lparr>pf_last_heard := f64_or_zero v\<rparr>
      else if name = ''peering_timebase'' then r\<lparr>pf_timebase := f64_or_zero v\<rparr>
      else if name = ''sync_transfer_rate'' then r\<lparr>pf_rate := f64_or_zero v\<rparr>
      else if name = ''last_sync_attempt'' then r\<lparr>pf_last_attempt := f64_or_zero v\<rparr>
      else if name = ''propagation_transfer_limit'' then r\<lparr>pf_transfer_limit := as_f64 v\<rparr>
      else if name = ''propagation_sync_limit'' then r\<lparr>pf_sync_limit := map_option trunc (as_f64 v)\<rparr>
      else if name = ''propagation_stamp_cost'' then r\<lparr>pf_stamp_cost := value_u32 v\<rparr>
      else if name = ''propagation_stamp_cost_flexibility'' \<or> name = ''propagation_stamp_flexibility'' then r\<lparr>pf_stamp_flexibility := value_u32 v\<rparr>
      else if name = ''peering_cost'' then r\<lparr>pf_peering_cost := value_u32 v\<rparr>
      else if name = ''peering_key'' then r\<lparr>pf_peering_key := read_key v\<rparr>
      else if name = ''metadata'' \<and> rfed_record then r\<lparr>pf_metadata := value_bytes v\<rparr>
      else if name = ''metadata'' then r\<lparr>pf_metadata := (if v = MNil then None else Some (show_meta v))\<rparr>
      else r)"

definition read_mark :: "nat \<Rightarrow> bool \<Rightarrow> msg_value \<Rightarrow> propagation_entries \<Rightarrow> propagation_entries" where
  "read_mark slot handled v E = (case read_id v of
      None \<Rightarrow> E | Some tid \<Rightarrow> snd (the (if handled then add_handled_message slot tid E else add_unhandled_message slot tid E)))"

definition read_peer_field :: "(msg_value \<Rightarrow> bytes) \<Rightarrow> nat \<Rightarrow> bool \<Rightarrow> string \<times> msg_value \<Rightarrow> peer_record \<times> propagation_entries \<Rightarrow> peer_record \<times> propagation_entries" where
  "read_peer_field show_meta slot rfed_record f s = (case f of (name, v) \<Rightarrow>
     if name = ''handled_ids'' \<or> name = ''unhandled_ids''
     then (case v of MArr ids \<Rightarrow> (fst s, fold (read_mark slot (name = ''handled_ids'')) ids (snd s)) | _ \<Rightarrow> s)
     else (read_plain_field show_meta rfed_record name v (fst s), snd s))"

text \<open>
  A record of the file: its fields as far as they could be read, whether they all could, and whether the
  bytes after it could be reached. A field cut off in the middle of its ids is one with the ids before the cut.
\<close>

datatype record_fields = NamedFields "(string \<times> msg_value) list" | RfedFields "msg_value list" | NoFields

datatype peer_item = PeerItem record_fields bool bool | NotARecord bool | FileEnds

definition named_fields :: "msg_value list \<Rightarrow> (string \<times> msg_value) list" where
  "named_fields vs = map (\<lambda>(i, v). (if i < length RFED_PEER_FIELDS then RFED_PEER_FIELDS ! i else [], v)) (enumerate 0 vs)"

definition read_peer_record :: "(msg_value \<Rightarrow> bytes) \<Rightarrow> nat \<Rightarrow> record_fields \<Rightarrow> bool \<Rightarrow> propagation_entries \<Rightarrow>
    peer_record option \<times> propagation_entries" where
  "read_peer_record show_meta slot body whole E = (case body of
      NamedFields fs \<Rightarrow> (let (r, E') = fold (read_peer_field show_meta slot False) fs (no_record, E) in (if whole then Some r else None, E'))
    | RfedFields vs \<Rightarrow> (let (r, E') = fold (read_peer_field show_meta slot True) (named_fields vs) (no_record, E) in (if whole then Some r else None, E'))
    | NoFields \<Rightarrow> (None, E))"

definition peer_of_record :: "bytes \<Rightarrow> nat \<Rightarrow> peer_record \<Rightarrow> prop_peer" where
  "peer_of_record h slot r = (new_prop_peer h)\<lparr>pp_slot := slot, pp_alive := pf_alive r, pp_last_heard := pf_last_heard r,
     pp_timebase := pf_timebase r, pp_stamp_cost := pf_stamp_cost r, pp_stamp_flexibility := pf_stamp_flexibility r,
     pp_peering_cost := pf_peering_cost r, pp_transfer_limit := pf_transfer_limit r,
     pp_sync_limit := (case pf_sync_limit r of Some l \<Rightarrow> Some l | None \<Rightarrow> pf_transfer_limit r),
     pp_peering_key := pf_peering_key r, pp_metadata := pf_metadata r, pp_rate := pf_rate r, pp_last_attempt := pf_last_attempt r\<rparr>"

definition forget_marks :: "nat \<Rightarrow> sync_node \<Rightarrow> sync_node" where
  "forget_marks slot n = n\<lparr>sn_entries := forget_peer slot (sn_entries n)\<rparr>"

text \<open>A record that was read: one with no hash of 16 bytes is dropped, an earlier peer of the hash replaced.\<close>

definition take_record :: "nat \<Rightarrow> peer_record \<Rightarrow> sync_node \<Rightarrow> sync_node" where
  "take_record slot r n = (case pf_hash r of
      None \<Rightarrow> forget_marks slot n
    | Some h \<Rightarrow>
        if length h \<noteq> 16 then forget_marks slot n
        else (let n' = (case hget (sn_peers n) h of
                  None \<Rightarrow> n | Some old \<Rightarrow> forget_marks (pp_slot old) (n\<lparr>sn_peers := hdel h (sn_peers n)\<rparr>))
              in n'\<lparr>sn_peers := hput h (peer_of_record h slot r) (sn_peers n')\<rparr>))"

fun load_loop :: "(msg_value \<Rightarrow> bytes) \<Rightarrow> peer_item list \<Rightarrow> sync_node \<Rightarrow> sync_node" where
  "load_loop show_meta [] n = n"
| "load_loop show_meta (item # items) n =
     (let (slot, n1) = free_peer_slot n in (case item of
        FileEnds \<Rightarrow> forget_marks slot n1
      | NotARecord skipped \<Rightarrow> (if skipped then load_loop show_meta items (forget_marks slot n1) else forget_marks slot n1)
      | PeerItem body whole reached \<Rightarrow>
          (let (r, E) = read_peer_record show_meta slot body whole (sn_entries n1); n2 = n1\<lparr>sn_entries := E\<rparr>
           in if \<not> reached then forget_marks slot n2
              else load_loop show_meta items (case r of None \<Rightarrow> forget_marks slot n2 | Some r \<Rightarrow> take_record slot r n2))))"

datatype peers_file = NoPeersFile | EmptyFile | NotAList | UnreadablePeers | PeerList "peer_item list"

definition load_peers_file :: "(msg_value \<Rightarrow> bytes) \<Rightarrow> peers_file \<Rightarrow> sync_node \<Rightarrow> sync_node" where
  "load_peers_file show_meta file n = (case file of PeerList items \<Rightarrow> load_loop show_meta items n | _ \<Rightarrow> n)"

definition write_peers_file :: "(bytes \<Rightarrow> msg_value option) \<Rightarrow> sync_node \<Rightarrow> peers_file" where
  "write_peers_file read_meta n = PeerList (map (\<lambda>x. PeerItem (NamedFields (write_peer_record read_meta (snd x) (sn_entries n))) True True) (sn_peers n))"

text \<open>A save goes to a temporary file, which then replaces the last one.\<close>

definition save_over :: "bool \<Rightarrow> bool \<Rightarrow> 'f \<Rightarrow> 'f \<Rightarrow> 'f" where
  "save_over written renamed new old = (if written \<and> renamed then new else old)"

definition save_peers_file :: "(bytes \<Rightarrow> msg_value option) \<Rightarrow> bool \<Rightarrow> bool \<Rightarrow> sync_node \<Rightarrow> peers_file \<Rightarrow> peers_file" where
  "save_peers_file read_meta written renamed n old = save_over written renamed (write_peers_file read_meta n) old"

section \<open>The processed ids\<close>

datatype processed_file = NoProcessedFile | BrokenProcessed | ProcessedMap "(file_key \<times> file_time) list"

definition save_locally_processed :: "bool \<Rightarrow> bool \<Rightarrow> locally_processed \<Rightarrow> processed_file \<Rightarrow> processed_file" where
  "save_locally_processed written renamed L old =
     (if processed_len L = 0 then old else save_over written renamed (ProcessedMap (write_processed L)) old)"

text \<open>What \<open>read_from\<close> gives of the file.\<close>

definition read_processed_file :: "processed_file \<Rightarrow> locally_processed option" where
  "read_processed_file file = (case file of ProcessedMap f \<Rightarrow> Some (fst (read_processed f)) | _ \<Rightarrow> None)"

section \<open>The counters\<close>

definition save_stats :: "nat \<Rightarrow> nat \<Rightarrow> (string \<times> nat) list" where
  "save_stats received served = [(''messages_received'', received), (''messages_served'', served)]"

definition load_stats :: "(string \<times> nat) list option \<Rightarrow> nat \<times> nat \<Rightarrow> nat \<times> nat" where
  "load_stats file s = (case file of
      None \<Rightarrow> s
    | Some stats \<Rightarrow> (case hget stats ''messages_received'' of Some v \<Rightarrow> v | None \<Rightarrow> fst s,
        case hget stats ''messages_served'' of Some v \<Rightarrow> v | None \<Rightarrow> snd s))"

section \<open>Start\<close>

definition activate_static :: "bytes \<Rightarrow> sync_node \<Rightarrow> sync_node" where
  "activate_static h n = (if hget (sn_peers n) h = None then insert_peer (new_prop_peer h) n else n)"

text \<open>
  \<open>enable\<close>: the message files are indexed, then the peers and the processed ids read, then the static peers
  activated, a path to each of which is asked for. \<open>index\<close> is \<open>index_messagestore\<close> on the files listed.
\<close>

definition enable_node :: "(msg_value \<Rightarrow> bytes) \<Rightarrow> secs \<Rightarrow> propagation_entries \<Rightarrow> peers_file \<Rightarrow> processed_file \<Rightarrow> bytes list \<Rightarrow> sync_node \<Rightarrow>
    bytes list \<times> sync_node \<times> locally_processed" where
  "enable_node show_meta t index peers processed static n =
     (let n1 = load_peers_file show_meta peers (n\<lparr>sn_entries := index\<rparr>);
          L = snd (load_locally_processed t (read_processed_file processed) (sn_entries n1))
      in (static, fold activate_static static n1, L))"

section \<open>Peering keys\<close>

text \<open>
  The first half runs under the node lock, the stamp is ground without it, the second half takes the lock
  again. \<open>recall\<close> gives the hash of the peer's identity. What is ground is the pair of hashes.
\<close>

definition begin_key_gen :: "(bytes \<Rightarrow> bytes option) \<Rightarrow> bytes option \<Rightarrow> bytes \<Rightarrow> bytes list \<times> sync_node \<Rightarrow> (nat \<times> bytes \<times> bytes) option \<times> bytes list" where
  "begin_key_gen recall router_hash h s = (case s of (in_flight, n) \<Rightarrow>
     if h \<in> set in_flight then (None, in_flight)
     else (case hget (sn_peers n) h of
         None \<Rightarrow> (None, in_flight)
       | Some p \<Rightarrow> (case pp_peering_cost p of
           None \<Rightarrow> (None, in_flight)
         | Some cost \<Rightarrow>
             if peering_key_ready p then (None, in_flight)
             else (case recall (pp_hash p) of
                 None \<Rightarrow> (None, in_flight)
               | Some identity_hash \<Rightarrow> (case router_hash of
                   None \<Rightarrow> (None, in_flight)
                 | Some rh \<Rightarrow> (Some (cost, identity_hash @ rh, pp_hash p), in_flight @ [pp_hash p]))))))"

definition end_key_gen :: "nat \<Rightarrow> bytes option \<times> nat \<Rightarrow> bytes \<Rightarrow> bytes list \<times> sync_node \<Rightarrow> bytes list \<times> sync_node" where
  "end_key_gen cost ground h s = (case s of (in_flight, n) \<Rightarrow>
     (filter (\<lambda>x. x \<noteq> h) in_flight,
      if cost \<le> snd ground
      then (case fst ground of None \<Rightarrow> n | Some key \<Rightarrow> peer_upd h (\<lambda>p. p\<lparr>pp_peering_key := Some (key, snd ground)\<rparr>) n)
      else n))"

section \<open>Limits and the announce\<close>

definition DEFAULT_TRANSFER_LIMIT_KB :: real where "DEFAULT_TRANSFER_LIMIT_KB = 256"
definition DEFAULT_SYNC_LIMIT_KB :: real where "DEFAULT_SYNC_LIMIT_KB = 10240"

definition propagation_limits_kb :: "nat option \<Rightarrow> nat option \<Rightarrow> real \<times> real" where
  "propagation_limits_kb transfer_bytes sync_bytes =
     (let transfer = (case transfer_bytes of Some b \<Rightarrow> real b / 1000 | None \<Rightarrow> DEFAULT_TRANSFER_LIMIT_KB);
          sync = (case sync_bytes of Some b \<Rightarrow> real b / 1000 | None \<Rightarrow> DEFAULT_SYNC_LIMIT_KB)
      in (transfer, max sync transfer))"

definition announced_limits_kb :: "real \<times> real \<Rightarrow> int \<times> int" where
  "announced_limits_kb l = (\<lfloor>fst l\<rfloor>, \<lfloor>snd l\<rfloor>)"

text \<open>The announce's items; \<open>meta\<close> is its map of the node's name.\<close>

definition build_app_data :: "secs \<Rightarrow> bool \<Rightarrow> real \<times> real \<Rightarrow> nat \<times> nat \<times> nat \<Rightarrow> msg_value \<Rightarrow> msg_value list" where
  "build_app_data t from_static_only limits costs meta = (case costs of (stamp_cost, flexibility, peering_cost) \<Rightarrow>
     [MBool False, MInt \<lfloor>t\<rfloor>, MBool (\<not> from_static_only), MInt (fst (announced_limits_kb limits)), MInt (snd (announced_limits_kb limits)),
      MArr [int_value stamp_cost, int_value flexibility, int_value peering_cost], meta])"

end
