(* ===== verification/PeersFile_Props.thy ===== *)
theory PeersFile_Props
  imports PeersFile Peering_Props PropEntries_Props
begin

text \<open>
  What the peers file promises: a node started on the file it saved has every peer back with what the file
  keeps of it, and every stored message handled or unhandled for it as before. And that one peering key is
  ground for a peer at a time.
\<close>

section \<open>Numbers and bytes\<close>

lemma as_f64_number [simp]: "as_f64 (number v) = Some v"
  by (simp add: number_def)

lemma as_f64_opt [simp]: "as_f64 (opt_value number v) = v"
  by (cases v) (simp_all add: opt_value_def)

lemma f64_number [simp]: "f64_or_zero (number v) = v"
  by (simp add: f64_or_zero_def)

lemma u32_opt: "(\<And>n. v = Some n \<Longrightarrow> n < 2 ^ 32) \<Longrightarrow> value_u32 (opt_value int_value v) = v"
  by (cases v) (auto simp: opt_value_def int_value_def value_u32_def)

lemma read_key_opt: "(\<And>k n. v = Some (k, n) \<Longrightarrow> n < 2 ^ 32) \<Longrightarrow> read_key (opt_value key_value v) = v"
  by (cases v) (auto simp: opt_value_def key_value_def int_value_def read_key_def value_bytes_def value_u32_def)

section \<open>Marks\<close>

text \<open>The stored messages handled (or unhandled) for a slot.\<close>

definition held :: "bool \<Rightarrow> nat \<Rightarrow> propagation_entries \<Rightarrow> bytes set" where
  "held handled slot E = {tid. \<exists>e. (tid, e) \<in> set (stored E) \<and> has_slot (peers_of handled e) slot}"

definition stored_ids_of :: "propagation_entries \<Rightarrow> bytes set" where
  "stored_ids_of E = fst ` set (stored E)"

lemma held_messages: "held True slot E = fst ` set (handled_messages slot E)" "held False slot E = fst ` set (unhandled_messages slot E)"
  by (force simp: held_def handled_messages_def unhandled_messages_def peers_of_def)+

lemma marked_on: "has_slot (peers_of b (marked slot handled True e)) s \<longleftrightarrow> (b = handled \<and> s = slot) \<or> has_slot (peers_of b e) s"
  by (auto simp: marked_def has_insert_slot)

lemma upd_mem: "(t, e') \<in> set (upd tid f xs) \<longleftrightarrow> (\<exists>e. (t, e) \<in> set xs \<and> e' = (if t = tid then f e else e))"
  by (induction xs) (auto simp: upd_def)

lemma stored_id_iff: "t \<in> stored_ids_of E \<longleftrightarrow> (\<exists>e. (t, e) \<in> set (stored E))"
  by (force simp: stored_ids_of_def)

lemma held_upd:
  assumes "stored E' = upd tid (marked slot handled True) (stored E)"
  shows "held b s E' = (if b = handled \<and> s = slot \<and> tid \<in> stored_ids_of E then insert tid (held b s E) else held b s E)"
    and "stored_ids_of E' = stored_ids_of E"
proof -
  have "(t, e') \<in> set (stored E') \<longleftrightarrow> (\<exists>e. (t, e) \<in> set (stored E) \<and> e' = (if t = tid then marked slot handled True e else e))" for t e'
    unfolding assms by (rule upd_mem)
  then have "t \<in> held b s E' \<longleftrightarrow> (\<exists>e. (t, e) \<in> set (stored E) \<and> has_slot (peers_of b (if t = tid then marked slot handled True e else e)) s)" for t
    by (auto simp: held_def)
  moreover have "has_slot (peers_of b (if t = tid then marked slot handled True e else e)) s \<longleftrightarrow>
      (t = tid \<and> b = handled \<and> s = slot) \<or> has_slot (peers_of b e) s" for t e
    by (cases "t = tid") (simp_all add: marked_on)
  ultimately have "t \<in> held b s E' \<longleftrightarrow> t \<in> held b s E \<or> (t = tid \<and> b = handled \<and> s = slot \<and> t \<in> stored_ids_of E)" for t
    unfolding stored_id_iff held_def mem_Collect_eq by blast
  then show "held b s E' = (if b = handled \<and> s = slot \<and> tid \<in> stored_ids_of E then insert tid (held b s E) else held b s E)"
    by auto
  show "stored_ids_of E' = stored_ids_of E"
    unfolding stored_ids_of_def using assms upd_ids by (metis set_map)
qed

lemma read_mark_ok:
  assumes "entries_ok E"
  shows "entries_ok (read_mark slot handled v E) \<and> stored_ids_of (read_mark slot handled v E) = stored_ids_of E \<and>
    held b s (read_mark slot handled v E) =
      held b s E \<union> (if b = handled \<and> s = slot then set_option (read_id v) \<inter> stored_ids_of E else {})"
proof (cases "read_id v")
  case (Some tid)
  from mark_ok [OF assms, of slot tid handled True] obtain c E' where m: "mark slot tid handled True E = Some (c, E')" "entries_ok E'"
    "stored E' = upd tid (marked slot handled True) (stored E)" by blast
  with Some have "read_mark slot handled v E = E'"
    by (cases handled) (simp_all add: read_mark_def add_handled_message_def add_unhandled_message_def)
  with m(2) held_upd [OF m(3)] Some show ?thesis by auto
qed (use assms in \<open>simp add: read_mark_def\<close>)

lemma read_marks_ok:
  "entries_ok E \<Longrightarrow> entries_ok (fold (read_mark slot handled) vs E) \<and> stored_ids_of (fold (read_mark slot handled) vs E) = stored_ids_of E \<and>
    held b s (fold (read_mark slot handled) vs E) =
      held b s E \<union> (if b = handled \<and> s = slot then (\<Union>v \<in> set vs. set_option (read_id v)) \<inter> stored_ids_of E else {})"
proof (induction vs arbitrary: E)
  case (Cons v vs)
  note m = read_mark_ok [OF Cons.prems]
  from Cons.IH [of "read_mark slot handled v E"] m [of slot handled v b s] show ?case by auto
qed simp

section \<open>A record\<close>

text \<open>What the file holds of a peer, put back in a slot.\<close>

definition restored :: "nat \<Rightarrow> prop_peer \<Rightarrow> prop_peer" where
  "restored slot p = (new_prop_peer (pp_hash p))\<lparr>pp_slot := slot, pp_alive := pp_alive p, pp_last_heard := pp_last_heard p,
     pp_timebase := pp_timebase p, pp_stamp_cost := pp_stamp_cost p, pp_stamp_flexibility := pp_stamp_flexibility p,
     pp_peering_cost := pp_peering_cost p, pp_transfer_limit := pp_transfer_limit p,
     pp_sync_limit := (case pp_sync_limit p of Some l \<Rightarrow> Some (trunc l) | None \<Rightarrow> pp_transfer_limit p),
     pp_peering_key := pp_peering_key p, pp_metadata := pp_metadata p, pp_rate := pp_rate p, pp_last_attempt := pp_last_attempt p\<rparr>"

text \<open>The types of the fields, and metadata that is the encoding of a value other than nil, as announces give it.\<close>

definition savable :: "(bytes \<Rightarrow> msg_value option) \<Rightarrow> (msg_value \<Rightarrow> bytes) \<Rightarrow> prop_peer \<Rightarrow> bool" where
  "savable read_meta show_meta p \<longleftrightarrow> length (pp_hash p) = 16 \<and>
     (\<forall>n \<in> set_option (pp_stamp_cost p) \<union> set_option (pp_stamp_flexibility p) \<union> set_option (pp_peering_cost p) \<union>
       snd ` set_option (pp_peering_key p). n < 2 ^ 32) \<and>
     (\<forall>b \<in> set_option (pp_metadata p). \<exists>v. read_meta b = Some v \<and> v \<noteq> MNil \<and> show_meta v = b)"

definition written_ids :: "bool \<Rightarrow> nat \<Rightarrow> propagation_entries \<Rightarrow> msg_value list" where
  "written_ids handled slot E = map (\<lambda>x. MBin (fst x)) (if handled then handled_messages slot E else unhandled_messages slot E)"

lemma written_ids_read:
  assumes "entries_ok E"
  shows "(\<Union>v \<in> set (written_ids handled slot E). set_option (read_id v)) = held handled slot E"
proof -
  have "length (fst x) = 32" if "x \<in> set (if handled then handled_messages slot E else unhandled_messages slot E)" for x
    using assms that by (auto simp: entries_ok_def handled_messages_def unhandled_messages_def split: if_splits)
  then have "set_option (read_id (MBin (fst x))) = {fst x}"
    if "x \<in> set (if handled then handled_messages slot E else unhandled_messages slot E)" for x
    using that by (simp add: read_id_def)
  then show ?thesis by (cases handled) (auto simp: written_ids_def held_messages)
qed

lemma fields_read:
  assumes "savable read_meta show_meta p"
  shows "fold (read_peer_field show_meta slot False) (write_peer_record read_meta p E) (no_record, E1) =
    (\<lparr>pf_hash = Some (pp_hash p), pf_alive = pp_alive p, pf_last_heard = pp_last_heard p, pf_timebase = pp_timebase p, pf_rate = pp_rate p,
       pf_last_attempt = pp_last_attempt p, pf_transfer_limit = pp_transfer_limit p, pf_sync_limit = map_option trunc (pp_sync_limit p),
       pf_stamp_cost = pp_stamp_cost p, pf_stamp_flexibility = pp_stamp_flexibility p, pf_peering_cost = pp_peering_cost p,
       pf_peering_key = pp_peering_key p, pf_metadata = pp_metadata p\<rparr>,
     fold (read_mark slot False) (written_ids False (pp_slot p) E) (fold (read_mark slot True) (written_ids True (pp_slot p) E) E1))"
proof -
  have u32: "value_u32 (opt_value int_value (pp_stamp_cost p)) = pp_stamp_cost p"
    "value_u32 (opt_value int_value (pp_stamp_flexibility p)) = pp_stamp_flexibility p"
    "value_u32 (opt_value int_value (pp_peering_cost p)) = pp_peering_cost p"
    using assms by (intro u32_opt; simp add: savable_def)+
  have key: "read_key (opt_value key_value (pp_peering_key p)) = pp_peering_key p"
    using assms by (intro read_key_opt) (auto simp: savable_def)
  have meta: "(if m = MNil then None else Some (show_meta m)) = pp_metadata p"
    if "m = (case pp_metadata p of None \<Rightarrow> MNil | Some b \<Rightarrow> (case read_meta b of None \<Rightarrow> MNil | Some v \<Rightarrow> v))" for m
    using assms that by (cases "pp_metadata p") (auto simp: savable_def)
  show ?thesis
    unfolding write_peer_record_def
    by (simp add: read_peer_field_def read_plain_field_def no_record_def u32 key meta write_ids_def written_ids_def value_bytes_def as_bool_def)
qed

section \<open>The file\<close>

lemma record_read:
  assumes "savable read_meta show_meta p" and "entries_ok E" and "entries_ok E1"
  obtains r E' where "read_peer_record show_meta slot (NamedFields (write_peer_record read_meta p E)) True E1 = (Some r, E')"
    and "pf_hash r = Some (pp_hash p)" and "peer_of_record (pp_hash p) slot r = restored slot p"
    and "entries_ok E'" and "stored_ids_of E' = stored_ids_of E1"
    and "\<And>b s. held b s E' = held b s E1 \<union> (if s = slot then held b (pp_slot p) E \<inter> stored_ids_of E1 else {})"
proof -
  let ?r = "\<lparr>pf_hash = Some (pp_hash p), pf_alive = pp_alive p, pf_last_heard = pp_last_heard p, pf_timebase = pp_timebase p, pf_rate = pp_rate p,
     pf_last_attempt = pp_last_attempt p, pf_transfer_limit = pp_transfer_limit p, pf_sync_limit = map_option trunc (pp_sync_limit p),
     pf_stamp_cost = pp_stamp_cost p, pf_stamp_flexibility = pp_stamp_flexibility p, pf_peering_cost = pp_peering_cost p,
     pf_peering_key = pp_peering_key p, pf_metadata = pp_metadata p\<rparr>"
  let ?E2 = "fold (read_mark slot True) (written_ids True (pp_slot p) E) E1"
  let ?E3 = "fold (read_mark slot False) (written_ids False (pp_slot p) E) ?E2"
  have read: "read_peer_record show_meta slot (NamedFields (write_peer_record read_meta p E)) True E1 = (Some ?r, ?E3)"
    by (simp add: read_peer_record_def fields_read [OF assms(1)])
  have peer: "peer_of_record (pp_hash p) slot ?r = restored slot p"
    by (simp add: peer_of_record_def restored_def split: option.split)
  note m2 = read_marks_ok [OF assms(3), of slot True "written_ids True (pp_slot p) E", unfolded written_ids_read [OF assms(2)]]
  then have ok2: "entries_ok ?E2" by blast
  note m3 = read_marks_ok [OF ok2, of slot False "written_ids False (pp_slot p) E", unfolded written_ids_read [OF assms(2)]]
  have "held b s ?E3 = held b s E1 \<union> (if s = slot then held b (pp_slot p) E \<inter> stored_ids_of E1 else {})" for b s
    using m2 [of b s] m3 [of b s] by (cases b) auto
  with read peer m2 m3 that show thesis by simp
qed

lemma load_loop_peers:
  assumes "entries_ok E" and "entries_ok (sn_entries n)" and "sn_departed n = []"
    and "\<forall>x \<in> set ps. savable read_meta show_meta (snd x) \<and> pp_hash (snd x) = fst x"
    and "distinct (map fst (sn_peers n) @ map fst ps)" and "distinct (peer_slots n)"
    and "\<And>b s. s \<notin> set (peer_slots n) \<Longrightarrow> held b s (sn_entries n) = {}"
  shows "\<exists>ss. length ss = length ps \<and>
    (let n' = load_loop show_meta (map (\<lambda>x. PeerItem (NamedFields (write_peer_record read_meta (snd x) E)) True True) ps) n
     in sn_peers n' = sn_peers n @ map (\<lambda>(x, s). (fst x, restored s (snd x))) (zip ps ss) \<and> distinct (peer_slots n @ ss) \<and>
       stored_ids_of (sn_entries n') = stored_ids_of (sn_entries n) \<and>
       (\<forall>b s. s \<notin> set ss \<longrightarrow> held b s (sn_entries n') = held b s (sn_entries n)) \<and>
       (\<forall>(x, s) \<in> set (zip ps ss). \<forall>b. held b s (sn_entries n') = held b (pp_slot (snd x)) E \<inter> stored_ids_of (sn_entries n)))"
  using assms(2-7)
proof (induction ps arbitrary: n)
  case Nil
  then show ?case by simp
next
  case (Cons x ps)
  obtain h p where x: "x = (h, p)" by (cases x)
  with Cons.prems(3) have p: "savable read_meta show_meta p" "pp_hash p = h" "length h = 16" by (auto simp: savable_def)
  obtain slot n1 where f: "free_peer_slot n = (slot, n1)" by (cases "free_peer_slot n")
  note fs = free_peer_slot_unheld [OF f]
  from fs(1,2) Cons.prems(2) have n1: "n1 = n" by simp
  from fs(3) n1 Cons.prems(2) have new: "slot \<notin> set (peer_slots n)" by simp
  obtain r E' where rec: "read_peer_record show_meta slot (NamedFields (write_peer_record read_meta p E)) True (sn_entries n) = (Some r, E')"
    "pf_hash r = Some h" "peer_of_record h slot r = restored slot p" "entries_ok E'" "stored_ids_of E' = stored_ids_of (sn_entries n)"
    "\<And>b s. held b s E' = held b s (sn_entries n) \<union> (if s = slot then held b (pp_slot p) E \<inter> stored_ids_of (sn_entries n) else {})"
    using record_read [OF p(1) assms(1) Cons.prems(1), of slot] p(2) by metis
  let ?n2 = "n\<lparr>sn_entries := E', sn_peers := sn_peers n @ [(h, restored slot p)]\<rparr>"
  have "hget (sn_peers n) h = None" using Cons.prems(4) x by (auto simp: map_of_eq_None_iff)
  then have take: "take_record slot r (n\<lparr>sn_entries := E'\<rparr>) = ?n2"
    using rec(2,3) p(3) by (simp add: take_record_def hput_new)
  have step: "load_loop show_meta (map (\<lambda>x. PeerItem (NamedFields (write_peer_record read_meta (snd x) E)) True True) (x # ps)) n =
      load_loop show_meta (map (\<lambda>x. PeerItem (NamedFields (write_peer_record read_meta (snd x) E)) True True) ps) ?n2"
    by (simp add: x f n1 rec(1) take Let_def)
  have slots: "peer_slots ?n2 = peer_slots n @ [slot]" by (simp add: restored_def)
  have fresh: "held b s (sn_entries ?n2) = {}" if "s \<notin> set (peer_slots ?n2)" for b s
    using that rec(6) Cons.prems(6) unfolding slots by simp
  obtain ss where ss: "length ss = length ps"
    "let n' = load_loop show_meta (map (\<lambda>x. PeerItem (NamedFields (write_peer_record read_meta (snd x) E)) True True) ps) ?n2
     in sn_peers n' = sn_peers ?n2 @ map (\<lambda>(x, s). (fst x, restored s (snd x))) (zip ps ss) \<and> distinct (peer_slots ?n2 @ ss) \<and>
       stored_ids_of (sn_entries n') = stored_ids_of (sn_entries ?n2) \<and>
       (\<forall>b s. s \<notin> set ss \<longrightarrow> held b s (sn_entries n') = held b s (sn_entries ?n2)) \<and>
       (\<forall>(x, s) \<in> set (zip ps ss). \<forall>b. held b s (sn_entries n') = held b (pp_slot (snd x)) E \<inter> stored_ids_of (sn_entries ?n2))"
    using Cons.IH [of ?n2] Cons.prems rec(4) new fresh unfolding slots x by auto
  let ?n' = "load_loop show_meta (map (\<lambda>x. PeerItem (NamedFields (write_peer_record read_meta (snd x) E)) True True) ps) ?n2"
  have ss': "sn_peers ?n' = sn_peers ?n2 @ map (\<lambda>(x, s). (fst x, restored s (snd x))) (zip ps ss)" "distinct (peer_slots ?n2 @ ss)"
    "stored_ids_of (sn_entries ?n') = stored_ids_of E'"
    "\<And>b s. s \<notin> set ss \<Longrightarrow> held b s (sn_entries ?n') = held b s E'"
    "\<forall>(x, s) \<in> set (zip ps ss). \<forall>b. held b s (sn_entries ?n') = held b (pp_slot (snd x)) E \<inter> stored_ids_of E'"
    using ss(2) by (simp_all add: Let_def)
  have "slot \<notin> set ss" using ss'(2) unfolding slots by auto
  have mine: "held b slot (sn_entries ?n') = held b (pp_slot p) E \<inter> stored_ids_of (sn_entries n)" for b
    using ss'(4) [OF \<open>slot \<notin> set ss\<close>] rec(6) [of b slot] Cons.prems(6) [OF new] by simp
  have others: "held b s (sn_entries ?n') = held b s (sn_entries n)" if "s \<notin> set (slot # ss)" for b s
    using ss'(4) [of s b] rec(6) [of b s] that by simp
  show ?case
    unfolding step Let_def
    by (rule exI [of _ "slot # ss"], intro conjI)
      (use ss(1) ss'(1,2,3,5) rec(5) mine others slots in \<open>auto simp: x\<close>)
qed

text \<open>
  C24: A node started on the peers file it saved has exactly the peers it had, each with what the file keeps
  of it (its announced limits and costs, its peering key, when it was heard and last synced) and a slot of
  its own; and every message still stored is handled, or unhandled, for a peer exactly when it was before.
  A save that fails leaves the file of the last one.
\<close>

theorem peers_survive_restart:
  assumes "entries_ok (sn_entries n)" and "hkeys_distinct (sn_peers n)"
    and "\<forall>x \<in> set (sn_peers n). savable read_meta show_meta (snd x) \<and> pp_hash (snd x) = fst x"
    and "entries_ok (sn_entries n0)" and "sn_peers n0 = []" and "sn_departed n0 = []"
    and "\<forall>b s. held b s (sn_entries n0) = {}"
    and n': "n' = load_peers_file show_meta (save_peers_file read_meta True True n old) n0"
  shows "map fst (sn_peers n') = map fst (sn_peers n) \<and> distinct (map (\<lambda>(_, p). pp_slot p) (sn_peers n')) \<and>
    stored_ids_of (sn_entries n') = stored_ids_of (sn_entries n0) \<and>
    (\<forall>h p. hget (sn_peers n) h = Some p \<longrightarrow> (\<exists>s. hget (sn_peers n') h = Some (restored s p) \<and>
      (\<forall>b. held b s (sn_entries n') = held b (pp_slot p) (sn_entries n) \<inter> stored_ids_of (sn_entries n0)))) \<and>
    (\<not> (written \<and> renamed) \<longrightarrow> save_peers_file read_meta written renamed n old = old)"
proof -
  have run: "n' = load_loop show_meta (map (\<lambda>x. PeerItem (NamedFields (write_peer_record read_meta (snd x) (sn_entries n))) True True) (sn_peers n)) n0"
    by (simp add: n' load_peers_file_def save_peers_file_def save_over_def write_peers_file_def)
  obtain ss where ss: "length ss = length (sn_peers n)"
    "sn_peers n' = map (\<lambda>(x, s). (fst x, restored s (snd x))) (zip (sn_peers n) ss)" "distinct ss"
    "stored_ids_of (sn_entries n') = stored_ids_of (sn_entries n0)"
    "\<forall>(x, s) \<in> set (zip (sn_peers n) ss). \<forall>b. held b s (sn_entries n') = held b (pp_slot (snd x)) (sn_entries n) \<inter> stored_ids_of (sn_entries n0)"
    using load_loop_peers [OF assms(1) assms(4,6,3)] assms(2,5,7) unfolding run [symmetric]
    by (auto simp: Let_def hkeys_distinct_def)
  have keys: "map fst (sn_peers n') = map fst (sn_peers n)"
    unfolding ss(2) using ss(1) by (auto simp: list_eq_iff_nth_eq)
  have slots: "map (\<lambda>(_, p). pp_slot p) (sn_peers n') = ss"
    unfolding ss(2) using ss(1) by (auto simp: list_eq_iff_nth_eq restored_def)
  have "\<exists>s. hget (sn_peers n') h = Some (restored s p) \<and>
      (\<forall>b. held b s (sn_entries n') = held b (pp_slot p) (sn_entries n) \<inter> stored_ids_of (sn_entries n0))"
    if "hget (sn_peers n) h = Some p" for h p
  proof -
    from hget_mem [OF that] obtain i where i: "i < length (sn_peers n)" "sn_peers n ! i = (h, p)" by (metis in_set_conv_nth)
    with ss(1) have z: "((h, p), ss ! i) \<in> set (zip (sn_peers n) ss)" by (force simp: set_zip)
    then have "(h, restored (ss ! i) p) \<in> set (sn_peers n')" unfolding ss(2) by force
    moreover have "distinct (map fst (sn_peers n'))" unfolding keys using assms(2) by (simp add: hkeys_distinct_def)
    ultimately have "hget (sn_peers n') h = Some (restored (ss ! i) p)" by simp
    with ss(5) z show ?thesis by fastforce
  qed
  with keys ss(3,4) show ?thesis by (auto simp: slots save_peers_file_def save_over_def)
qed

lemma no_slot [simp]: "\<not> has_slot empty_slots s"
  by (simp add: empty_slots_def has_slot_def nth_opt_def)

definition saved_peer :: prop_peer where
  "saved_peer = demo_peer\<lparr>pp_hash := replicate 16 1\<rparr>"

definition saved_node :: sync_node where
  "saved_node = (demo_node saved_peer [])\<lparr>sn_peers := [(replicate 16 1, saved_peer)]\<rparr>"

text \<open>The messages as a restart indexes them, without marks.\<close>

definition indexed_entries :: propagation_entries where
  "indexed_entries = snd (the (insert_entry demo_id (new_entry [7] 2 100 16) no_entries))"

lemma indexed_ok: "entries_ok indexed_entries" "stored indexed_entries = [(demo_id, new_entry [7] 2 100 16)]"
proof -
  have "length demo_id = 32" by (simp add: demo_id_def)
  from insert_entry_ok [OF no_entries_ok this, of "new_entry [7] 2 100 16"]
  obtain E' where "insert_entry demo_id (new_entry [7] 2 100 16) no_entries = Some (True, E')" "entries_ok E'"
    "stored E' = [(demo_id, new_entry [7] 2 100 16)]" by (auto simp: no_entries_def stored_def)
  then show "entries_ok indexed_entries" "stored indexed_entries = [(demo_id, new_entry [7] 2 100 16)]"
    by (simp_all add: indexed_entries_def)
qed

lemma demo_marked: "entries_ok demo_entries" "held False 0 demo_entries = {demo_id}"
proof -
  from queue_unhandled_ok [OF indexed_ok(1), of 0 demo_id] obtain b E' where q: "queue_unhandled 0 demo_id indexed_entries = Some (b, E')"
    "entries_ok E'" "stored E' = upd demo_id (\<lambda>e. if has_slot (pe_handled e) 0 then e else marked 0 False True e) (stored indexed_entries)" by blast
  then have E: "demo_entries = E'" by (simp add: demo_entries_def indexed_entries_def)
  have "\<not> has_slot (pe_handled (new_entry [7] 2 100 16)) 0" by (simp add: new_entry_def)
  with q(3) have "stored demo_entries = upd demo_id (marked 0 False True) (stored indexed_entries)"
    unfolding E indexed_ok(2) by (simp add: upd_def)
  from held_upd(1) [OF this, of False 0] show "held False 0 demo_entries = {demo_id}"
    by (simp add: held_def stored_id_iff indexed_ok(2) peers_of_def new_entry_def)
  from q(2) E show "entries_ok demo_entries" by simp
qed

lemma peers_survive_restart_witness:
  "\<exists>s. held False s (sn_entries (load_peers_file (\<lambda>_. []) (save_peers_file (\<lambda>_. None) True True saved_node NoPeersFile)
      (saved_node\<lparr>sn_peers := [], sn_entries := indexed_entries\<rparr>))) = {demo_id}"
proof -
  have n: "sn_peers saved_node = [(replicate 16 1, saved_peer)]" "sn_entries saved_node = demo_entries" "sn_departed saved_node = []"
    by (simp_all add: saved_node_def demo_node_def)
  have sav: "\<forall>x \<in> set (sn_peers saved_node). savable (\<lambda>_. None) (\<lambda>_. []) (snd x) \<and> pp_hash (snd x) = fst x"
    by (simp add: n savable_def saved_peer_def demo_peer_def new_prop_peer_def)
  have none: "\<forall>b s. held b s indexed_entries = {}"
    by (auto simp: held_def indexed_ok(2) peers_of_def new_entry_def)
  let ?start = "saved_node\<lparr>sn_peers := [], sn_entries := indexed_entries\<rparr>"
  have "entries_ok (sn_entries saved_node)" "hkeys_distinct (sn_peers saved_node)" "entries_ok (sn_entries ?start)"
    "sn_peers ?start = []" "sn_departed ?start = []" "\<forall>b s. held b s (sn_entries ?start) = {}"
    using demo_marked(1) indexed_ok(1) none by (simp_all add: n hkeys_distinct_def)
  note keep = peers_survive_restart [OF this(1,2) sav this(3-6) refl, of NoPeersFile]
  have "hget (sn_peers saved_node) (replicate 16 1) = Some saved_peer" by (simp add: n)
  with keep [THEN conjunct2, THEN conjunct2, THEN conjunct2, THEN conjunct1]
  obtain s where "\<forall>b. held b s (sn_entries (load_peers_file (\<lambda>_. []) (save_peers_file (\<lambda>_. None) True True saved_node NoPeersFile) ?start)) =
      held b (pp_slot saved_peer) (sn_entries saved_node) \<inter> stored_ids_of (sn_entries ?start)" by blast
  moreover have "pp_slot saved_peer = 0" by (simp add: saved_peer_def demo_peer_def new_prop_peer_def)
  ultimately have "held False s (sn_entries (load_peers_file (\<lambda>_. []) (save_peers_file (\<lambda>_. None) True True saved_node NoPeersFile) ?start)) = {demo_id}"
    using demo_marked(2) by (simp add: n stored_id_iff indexed_ok(2))
  then show ?thesis by blast
qed

section \<open>Peering keys\<close>

text \<open>
  The threads grinding keys and the marks, over any threads begun and ended, the node between two steps
  being any whose peers are under their hashes.
\<close>

inductive key_threads :: "bytes list \<Rightarrow> bytes list \<Rightarrow> bool" where
  no_threads: "key_threads [] []"
| spawned: "key_threads ts fl \<Longrightarrow> \<forall>x \<in> set (sn_peers n). pp_hash (snd x) = fst x \<Longrightarrow>
    begin_key_gen recall rh h (fl, n) = (Some (cost, material, h'), fl') \<Longrightarrow> key_threads (ts @ [h']) fl'"
| finished: "key_threads ts fl \<Longrightarrow> h \<in> set ts \<Longrightarrow> end_key_gen cost ground h (fl, n) = (fl', n') \<Longrightarrow> key_threads (remove1 h ts) fl'"

text \<open>One thread grinds for a peer at a time, and a thread that ends, whatever it found, clears its mark.\<close>

lemma one_key_at_a_time: "key_threads ts fl \<Longrightarrow> distinct ts \<and> set ts = set fl"
proof (induction rule: key_threads.induct)
  case (spawned ts fl n recall rh h cost material h' fl')
  from spawned.hyps(3) have "h \<notin> set fl" "fl' = fl @ [h']" and p: "\<exists>p. hget (sn_peers n) h = Some p \<and> h' = pp_hash p"
    by (auto simp: begin_key_gen_def split: if_splits option.splits)
  moreover from p spawned.hyps(2) have "h' = h" by (metis hget_mem fst_conv snd_conv)
  ultimately show ?case using spawned.IH by auto
next
  case (finished ts fl h cost ground n fl' n')
  then have "fl' = filter (\<lambda>x. x \<noteq> h) fl" by (simp add: end_key_gen_def)
  with finished.IH show ?case by auto
qed simp

end
