(* ===== verification/Announces.thy ===== *)
theory Announces
  imports FedNode PeersFile InboundSync
begin

text \<open>
  What the node announces: the \<open>rfed.node\<close> payload (\<open>rfed/src/announce.rs\<close>), the destinations in their
  order and the two steps of the start (\<open>ANNOUNCE_ORDER\<close>, \<open>startup_steps\<close>, \<open>FedNode::announce\<close> and
  \<open>publish_destinations\<close> of \<open>destinations.rs\<close>), and how the announce of a propagation node is read
  (\<open>handle_propagation_announce\<close> of \<open>lxmf_propagation.rs\<close>).

  \<open>enc\<close> and \<open>dec\<close> are \<open>rmpv\<close>'s \<open>write_value\<close> and \<open>read_value\<close>.
\<close>

section \<open>The payload of rfed.node\<close>

record node_announce =
  na_name :: string
  na_cost :: "32 word option"
  na_version :: u8

definition PROTOCOL_VERSION :: nat where "PROTOCOL_VERSION = 1"

definition encode_node_announce :: "(msg_value \<Rightarrow> bytes) \<Rightarrow> string \<Rightarrow> nat option \<Rightarrow> bytes" where
  "encode_node_announce enc name cost = enc (MArr [MBin (bytes_of name), opt_value int_value cost, int_value PROTOCOL_VERSION])"

definition as_u64 :: "msg_value \<Rightarrow> nat option" where
  "as_u64 v = (case v of MInt i \<Rightarrow> if 0 \<le> i \<and> i < 2 ^ 64 then Some (nat i) else None | _ \<Rightarrow> None)"

definition announced_name :: "msg_value option \<Rightarrow> string" where
  "announced_name v = (case v of Some (MBin b) \<Rightarrow> from_utf8_or_default b | Some (MStr s) \<Rightarrow> str_or_default s | _ \<Rightarrow> [])"

text \<open>The casts \<open>as u32\<close> and \<open>as u8\<close> keep the low bits.\<close>

definition decode_node_announce :: "(bytes \<Rightarrow> msg_value option) \<Rightarrow> bytes \<Rightarrow> node_announce option" where
  "decode_node_announce dec d = (case dec d of
      Some (MArr items) \<Rightarrow> Some \<lparr>na_name = announced_name (nth_opt items 0),
        na_cost = map_option of_nat (Option.bind (nth_opt items 1) as_u64),
        na_version = (case Option.bind (nth_opt items 2) as_u64 of Some n \<Rightarrow> of_nat n | None \<Rightarrow> 0)\<rparr>
    | _ \<Rightarrow> None)"

definition node_app_data :: "(msg_value \<Rightarrow> bytes) \<Rightarrow> node_config \<Rightarrow> bytes" where
  "node_app_data enc cfg = encode_node_announce enc (cf_display_name cfg) (announced_cost cfg)"

text \<open>The handler of an \<open>rfed.node\<close> announce; \<open>own\<close> is this node's hash, the three times the clock readings of \<open>peer_heard\<close>.\<close>

definition node_announce_heard :: "(bytes \<Rightarrow> msg_value option) \<Rightarrow> bytes \<Rightarrow> secs \<Rightarrow> secs \<Rightarrow> secs \<Rightarrow> bytes \<Rightarrow> bytes \<Rightarrow> 'w fed_node \<Rightarrow> 'w fed_node" where
  "node_announce_heard dec own t1 t2 t3 h app_data node =
     (let peering_cost = Option.bind (decode_node_announce dec app_data) na_cost
      in if nd_poisoned node \<or> h = own then node
         else (case nd_sync node of None \<Rightarrow> node | Some s \<Rightarrow> node\<lparr>nd_sync := Some (peer_heard t1 t2 t3 h peering_cost s)\<rparr>))"

section \<open>The destinations\<close>

datatype owned_dest =
    Link | DistroRegister | Propagation | Node | Channel | Delivery | Notify | ChannelSubscribe | ChannelUnsubscribe
  | ChannelPublish | ChannelPull | ChannelStream | PropagationStream | NotifyRegister | NotifyUnregister
  | DistroUnregister | DistroList

definition ANNOUNCE_ORDER :: "owned_dest list" where
  "ANNOUNCE_ORDER = [Link, DistroRegister, Propagation, Node, Channel, Delivery, Notify, ChannelSubscribe, ChannelUnsubscribe,
     ChannelPublish, ChannelPull, ChannelStream, PropagationStream, NotifyRegister, NotifyUnregister, DistroUnregister, DistroList]"

datatype startup_step = StepAnnounce | StepPublish

definition startup_steps :: "bool \<Rightarrow> startup_step list" where
  "startup_steps announce_at_start = (if announce_at_start then [StepAnnounce, StepPublish] else [StepPublish])"

definition SERVICE_REFRESH_INTERVAL_SECS :: nat where "SERVICE_REFRESH_INTERVAL_SECS = 6 * 3600"

text \<open>
  What goes to Reticulum, in order: a destination's default application data is set, it is announced with
  or without data, a stored announce is replayed, a destination is published with its refresh and data.
\<close>

datatype announce_act =
    DefaultData owned_dest bytes
  | Announced owned_dest "bytes option"
  | Replayed distro_announce
  | Published owned_dest nat "bytes option"

text \<open>
  The node's view of its destinations: the hash of each, and the propagation node attached, \<open>Some None\<close>
  when its lock is poisoned, else the data of its own announce.
\<close>

record owned_env =
  oe_hash :: "owned_dest \<Rightarrow> bytes"
  oe_propagation :: "bytes option option"
  oe_app_data :: bytes

definition announce_one :: "owned_env \<Rightarrow> owned_dest \<Rightarrow> announce_act list" where
  "announce_one env which =
     (if which = Propagation
      then (case oe_propagation env of Some (Some d) \<Rightarrow> [DefaultData Propagation d, Announced Propagation (Some d)] | _ \<Rightarrow> [])
      else if which \<in> {Node, ChannelPublish, Link}
      then [DefaultData which (oe_app_data env), Announced which (Some (oe_app_data env))]
      else [Announced which None])"

definition publish_one :: "owned_env \<Rightarrow> nat \<Rightarrow> owned_dest \<Rightarrow> announce_act list" where
  "publish_one env node_refresh which =
     (if which = Propagation
      then (case oe_propagation env of Some (Some d) \<Rightarrow> [Published Propagation SERVICE_REFRESH_INTERVAL_SECS (Some d)] | _ \<Rightarrow> [])
      else [Published which (if which = Node then node_refresh else SERVICE_REFRESH_INTERVAL_SECS)
              (if which \<in> {Node, Channel, ChannelPublish, Link} then Some (oe_app_data env) else None)])"

fun announced_hash :: "owned_env \<Rightarrow> announce_act \<Rightarrow> bytes option" where
  "announced_hash env (Announced which _) = Some (oe_hash env which)"
| "announced_hash env (Published which _ _) = Some (oe_hash env which)"
| "announced_hash env _ = None"

definition replay_distro_announces :: "'w fed_node \<Rightarrow> announce_act list" where
  "replay_distro_announces node = (case nd_announces node of None \<Rightarrow> [] | Some s \<Rightarrow> map Replayed (as_entries s))"

text \<open>Both return the hashes in the order they went out.\<close>

definition announce :: "owned_env \<Rightarrow> 'w fed_node \<Rightarrow> announce_act list \<times> bytes list" where
  "announce env node =
     (let acts = concat (map (announce_one env) ANNOUNCE_ORDER)
      in (acts @ replay_distro_announces node, List.map_filter (announced_hash env) acts))"

definition publish_destinations :: "owned_env \<Rightarrow> 'w fed_node \<Rightarrow> announce_act list \<times> bytes list" where
  "publish_destinations env node =
     (let acts = concat (map (publish_one env (cf_announce_interval (nd_config node))) ANNOUNCE_ORDER)
      in (acts, List.map_filter (announced_hash env) acts))"

definition run_startup_step :: "owned_env \<Rightarrow> 'w fed_node \<Rightarrow> startup_step \<Rightarrow> announce_act list \<times> bytes list" where
  "run_startup_step env node step = (case step of StepAnnounce \<Rightarrow> announce env node | StepPublish \<Rightarrow> publish_destinations env node)"

text \<open>The start of \<open>main\<close>: nothing when the node's lock is poisoned.\<close>

definition run_startup :: "owned_env \<Rightarrow> bool \<Rightarrow> 'w fed_node \<Rightarrow> announce_act list" where
  "run_startup env announce_at_start node =
     (if nd_poisoned node then [] else concat (map (\<lambda>step. fst (run_startup_step env node step)) (startup_steps announce_at_start)))"

section \<open>The announce of a propagation node\<close>

definition as_i64_or_zero :: "msg_value \<Rightarrow> int" where
  "as_i64_or_zero v = (case v of MInt i \<Rightarrow> if - (2 ^ 63) \<le> i \<and> i < 2 ^ 63 then i else 0 | _ \<Rightarrow> 0)"

text \<open>\<open>as_i64().unwrap_or(0) as u32\<close>.\<close>

definition cost_of :: "msg_value \<Rightarrow> nat" where
  "cost_of v = nat (as_i64_or_zero v mod 2 ^ 32)"

text \<open>\<open>valid\<close> is \<open>lxmf_rust\<close>'s \<open>pn_announce_data_is_valid\<close>.\<close>

definition read_announce :: "(bytes \<Rightarrow> bool) \<Rightarrow> (bytes \<Rightarrow> msg_value option) \<Rightarrow> (msg_value \<Rightarrow> bytes) \<Rightarrow> bytes \<Rightarrow> announce_config option" where
  "read_announce valid dec enc d =
     (if \<not> valid d then None
      else (case dec d of
          Some (MArr items) \<Rightarrow>
            if length items < 7 then None
            else (let costs = (case items ! 5 of MArr cs \<Rightarrow> if 3 \<le> length cs then map cost_of (take 3 cs) else [0, 0, 0] | _ \<Rightarrow> [0, 0, 0])
                  in Some \<lparr>ac_timebase = of_int (as_i64_or_zero (items ! 1)),
                       ac_enabled = (case as_bool (items ! 2) of Some b \<Rightarrow> b | None \<Rightarrow> False),
                       ac_transfer_limit = f64_or_zero (items ! 3), ac_sync_limit = f64_or_zero (items ! 4),
                       ac_stamp_cost = costs ! 0, ac_stamp_flexibility = costs ! 1, ac_peering_cost = costs ! 2,
                       ac_metadata = enc (items ! 6)\<rparr>)
        | _ \<Rightarrow> None))"

text \<open>The batch of a sync: \<open>pack_sync_batch\<close>.\<close>

definition pack_sync_batch :: "(msg_value \<Rightarrow> bytes) \<Rightarrow> secs \<Rightarrow> bytes list \<Rightarrow> bytes" where
  "pack_sync_batch enc timebase messages = enc (MArr [MFloat timebase, MArr (map MBin messages)])"

end
