(* ===== verification/Announces_Props.thy ===== *)
theory Announces_Props
  imports Announces Peering_Props
begin

text \<open>
  The announces: the order of the start, the stamp policy a sender reads, and the limits a propagation
  node announces against the batches its peers then send it.
\<close>

section \<open>The start\<close>

lemma startup_order:
  assumes "\<not> nd_poisoned node" and "oe_propagation env = Some (Some d)"
  shows "snd (announce env node) = map (oe_hash env) ANNOUNCE_ORDER"
    and "snd (publish_destinations env node) = snd (announce env node)"
    and "run_startup env True node = fst (announce env node) @ run_startup env False node"
    and "run_startup env False node = fst (publish_destinations env node)"
    and "distinct ANNOUNCE_ORDER" and "set ANNOUNCE_ORDER = UNIV"
proof -
  show "snd (announce env node) = map (oe_hash env) ANNOUNCE_ORDER"
    by (simp add: announce_def ANNOUNCE_ORDER_def announce_one_def assms(2) Let_def)
  then show "snd (publish_destinations env node) = snd (announce env node)"
    by (simp add: publish_destinations_def ANNOUNCE_ORDER_def publish_one_def assms(2) Let_def)
  show "run_startup env True node = fst (announce env node) @ run_startup env False node"
    "run_startup env False node = fst (publish_destinations env node)"
    by (simp_all add: run_startup_def startup_steps_def run_startup_step_def assms(1))
  show "distinct ANNOUNCE_ORDER" by (simp add: ANNOUNCE_ORDER_def)
  have "x \<in> set ANNOUNCE_ORDER" for x by (cases x) (simp_all add: ANNOUNCE_ORDER_def)
  then show "set ANNOUNCE_ORDER = UNIV" by blast
qed

text \<open>
  At the start \<open>rfed.channel\<close> is announced without the stamp policy that is published for it: a sender that
  knows only this destination reads the policy at its refresh, six hours on.
\<close>

lemma channel_announced_without_policy:
  assumes "\<not> nd_poisoned node"
  shows "Announced Channel None \<in> set (run_startup env True node)"
    and "Published Channel SERVICE_REFRESH_INTERVAL_SECS (Some (oe_app_data env)) \<in> set (run_startup env True node)"
    and "Announced Channel (Some d) \<notin> set (run_startup env True node)"
  using assms
  by (auto simp: run_startup_def startup_steps_def run_startup_step_def announce_def publish_destinations_def ANNOUNCE_ORDER_def
      announce_one_def publish_one_def replay_distro_announces_def Let_def split: option.splits)

section \<open>The stamp policy\<close>

lemma node_announce_read_back:
  assumes "dec (node_app_data enc cfg) = Some (MArr [MBin (bytes_of (cf_display_name cfg)), opt_value int_value (announced_cost cfg), int_value 1])"
    and "utf8_ok (bytes_of (cf_display_name cfg))" and "\<And>c. announced_cost cfg = Some c \<Longrightarrow> c < 2 ^ 32"
  shows "decode_node_announce dec (node_app_data enc cfg) =
    Some \<lparr>na_name = cf_display_name cfg, na_cost = map_option of_nat (announced_cost cfg), na_version = 1\<rparr>"
proof -
  have "c < 2 ^ 64" if "announced_cost cfg = Some c" for c using assms(3) [OF that] by simp
  then show ?thesis
    by (cases "announced_cost cfg")
      (simp_all add: decode_node_announce_def assms(1,2) announced_name_def from_utf8_or_default_def nth_opt_def as_u64_def
        opt_value_def int_value_def)
qed

section \<open>The limits\<close>

text \<open>What msgpack spends on the values of a batch: nine bytes on a double, five at most on a length.\<close>

definition msgpack_sizes :: "(msg_value \<Rightarrow> bytes) \<Rightarrow> bool" where
  "msgpack_sizes enc \<longleftrightarrow> (\<forall>r. length (enc (MFloat r)) = 9) \<and> (\<forall>b. length (enc (MBin b)) \<le> length b + 5) \<and>
     (\<forall>vs. length (enc (MArr vs)) \<le> 5 + sum_list (map (\<lambda>v. length (enc v)) vs))"

lemma batch_size:
  assumes "msgpack_sizes enc"
  shows "real (length (pack_sync_batch enc t ms)) \<le> BATCH_OVERHEAD + sum_list (map (\<lambda>m. real (length m) + PER_MESSAGE_OVERHEAD) ms)"
proof -
  have arr: "\<And>vs. length (enc (MArr vs)) \<le> 5 + sum_list (map (\<lambda>v. length (enc v)) vs)" and f: "\<And>r. length (enc (MFloat r)) = 9"
    and b: "\<And>b. length (enc (MBin b)) \<le> length b + 5" using assms by (auto simp: msgpack_sizes_def)
  have "sum_list (map (\<lambda>v. length (enc v)) (map MBin ms)) \<le> sum_list (map (\<lambda>m. length m + 5) ms)"
    by (simp add: comp_def b sum_list_mono)
  moreover have "real (sum_list (map (\<lambda>m. length m + 5) ms)) \<le> sum_list (map (\<lambda>m. real (length m) + PER_MESSAGE_OVERHEAD) ms)"
    by (induction ms) (simp_all add: PER_MESSAGE_OVERHEAD_def)
  moreover have "length (pack_sync_batch enc t ms) \<le> 5 + (9 + (5 + sum_list (map (\<lambda>v. length (enc v)) (map MBin ms))))"
    using arr [of "[MFloat t, MArr (map MBin ms)]"] arr [of "map MBin ms"] by (simp add: pack_sync_batch_def f)
  ultimately show ?thesis by (simp add: BATCH_OVERHEAD_def)
qed

text \<open>The limits a peer keeps are those announced, whole kilobytes, and the sync limit is its own or the other.\<close>

lemma announced_peer:
  assumes "valid d" and "dec d = Some (MArr (build_app_data t from_static_only limits (sc, fl, pc) meta))"
    and "sc < 2 ^ 32" and "fl < 2 ^ 32" and "pc \<le> MAX_PEERING_COST"
    and "h \<noteq> own" and "h \<in> set static \<or> autopeer \<and> \<not> path \<and> \<not> from_static_only"
    and "hget (sn_peers n) h = None" and "length (sn_peers n) < MAX_PEERS"
  obtains p where "hget (sn_peers (handle_propagation_announce now own static autopeer h (read_announce valid dec enc d) path n)) h = Some p"
    "pp_transfer_limit p = Some (of_int \<lfloor>fst limits\<rfloor>)"
    "pp_sync_limit p = Some (if \<lfloor>snd limits\<rfloor> > 0 then of_int \<lfloor>snd limits\<rfloor> else of_int \<lfloor>fst limits\<rfloor>)"
    "pp_stamp_cost p = Some sc" "pp_stamp_flexibility p = Some fl" "pp_peering_cost p = Some pc"
proof -
  have cost: "cost_of (int_value c) = c" if "c < 2 ^ 32" for c
    using that by (simp add: cost_of_def int_value_def as_i64_or_zero_def)
  have "pc < 2 ^ 32" using assms(5) by (simp add: MAX_PEERING_COST_def)
  note costs = cost [OF assms(3)] cost [OF assms(4)] cost [OF this]
  obtain c where c: "read_announce valid dec enc d = Some c" "ac_enabled c = (\<not> from_static_only)"
    "ac_transfer_limit c = of_int \<lfloor>fst limits\<rfloor>" "ac_sync_limit c = of_int \<lfloor>snd limits\<rfloor>"
    "ac_stamp_cost c = sc" "ac_stamp_flexibility c = fl" "ac_peering_cost c = pc"
    by (simp add: read_announce_def assms(1,2) build_app_data_def announced_limits_kb_def as_bool_def f64_or_zero_def Let_def costs
        numeral_2_eq_2 numeral_3_eq_3)
  let ?new = "announced now c (new_prop_peer h)"
  have hash: "pp_hash ?new = h" by (simp add: announced_def new_prop_peer_def)
  have "handle_propagation_announce now own static autopeer h (Some c) path n = add_peer now h c n"
    using assms(6,7) c(2) by (auto simp: handle_propagation_announce_def)
  also have "\<dots> = insert_peer ?new n" using assms(5,8,9) c(7) by (simp add: add_peer_def)
  finally have "hget (sn_peers (handle_propagation_announce now own static autopeer h (read_announce valid dec enc d) path n)) h =
      hget (sn_peers (insert_peer ?new n)) h" by (simp only: c(1))
  also have "\<exists>slot. hget (sn_peers (insert_peer ?new n)) h = Some (?new\<lparr>pp_slot := slot\<rparr>)"
    by (auto simp: insert_peer_def hash Let_def case_prod_beta assms(8) hmap_simps split: option.split)
  finally obtain slot where "hget (sn_peers (handle_propagation_announce now own static autopeer h (read_announce valid dec enc d) path n)) h =
      Some (?new\<lparr>pp_slot := slot\<rparr>)" by blast
  with c show thesis by (intro that [of "?new\<lparr>pp_slot := slot\<rparr>"]) (simp_all add: announced_def)
qed

lemma sum_list_subset:
  fixes f :: "'a \<Rightarrow> real"
  assumes "distinct xs" and "distinct ys" and "set xs \<subseteq> set ys" and "\<And>y. 0 \<le> f y"
  shows "sum_list (map f xs) \<le> sum_list (map f ys)"
  using assms by (simp add: sum_list_distinct_conv_sum_set sum_mono2)

text \<open>What is sent of an offer: its size within the estimate, each message within the transfer limit.\<close>

lemma sent_within_plan:
  assumes "msgpack_sizes enc" and "distinct (map oc_tid cs)" and "\<forall>c \<in> set cs. length (content (oc_tid c)) = oc_size c"
    and "distinct sent" and "sent \<noteq> []" and "set sent \<subseteq> set (op_offer (plan_offer rm cs (Some tm) (Some sl) mi))"
  shows "real (length (pack_sync_batch enc t (map content sent))) < sl * 1000"
    and "\<forall>tid \<in> set sent. real (length (content tid)) + PER_MESSAGE_OVERHEAD \<le> tm * 1000"
proof -
  obtain taken where ok: "plan_ok rm (Some tm) (Some sl) mi (sort_key oc_weight cs) taken (plan_offer rm cs (Some tm) (Some sl) mi)"
    using plan_offer_within_limits by blast
  then have offer: "op_offer (plan_offer rm cs (Some tm) (Some sl) mi) = map oc_tid taken" and sub: "subseq taken (sort_key oc_weight cs)"
    and est: "op_estimated (plan_offer rm cs (Some tm) (Some sl) mi) = BATCH_OVERHEAD + sum_list (map transfer_size taken)"
    and fits: "\<forall>c \<in> set taken. \<not> exceeds_transfer (Some tm) c"
    and under: "taken \<noteq> [] \<longrightarrow> op_estimated (plan_offer rm cs (Some tm) (Some sl) mi) < sl * 1000"
    unfolding plan_ok_def by blast+
  have tids: "set sent \<subseteq> set (map oc_tid taken)" using assms(6) unfolding offer .
  with assms(5) have "taken \<noteq> []" by auto
  have sizes: "length (content (oc_tid c)) = oc_size c" if "c \<in> set taken" for c
    using list_emb_set [OF sub that] assms(3) by auto
  have "distinct (map oc_tid taken)"
  proof -
    obtain N where "map oc_tid taken = nths (map oc_tid (sort_key oc_weight cs)) N"
      using subseq_map [OF sub] unfolding subseq_conv_nths by blast
    with assms(2) show ?thesis by (simp add: distinct_map distinct_nthsI)
  qed
  then have "sum_list (map (\<lambda>tid. real (length (content tid)) + PER_MESSAGE_OVERHEAD) sent) \<le>
      sum_list (map (\<lambda>tid. real (length (content tid)) + PER_MESSAGE_OVERHEAD) (map oc_tid taken))"
    using assms(4) tids by (intro sum_list_subset) (simp_all add: PER_MESSAGE_OVERHEAD_def)
  also have "\<dots> = sum_list (map transfer_size taken)" using sizes by (simp add: comp_def cong: map_cong)
  finally have "real (length (pack_sync_batch enc t (map content sent))) \<le> BATCH_OVERHEAD + sum_list (map transfer_size taken)"
    using batch_size [OF assms(1), of t "map content sent"] by (simp add: comp_def)
  also have "\<dots> < sl * 1000" using under est \<open>taken \<noteq> []\<close> by simp
  finally show "real (length (pack_sync_batch enc t (map content sent))) < sl * 1000" .
  show "\<forall>tid \<in> set sent. real (length (content tid)) + PER_MESSAGE_OVERHEAD \<le> tm * 1000"
  proof
    fix tid assume "tid \<in> set sent"
    with tids obtain c where "c \<in> set taken" "tid = oc_tid c" by auto
    with fits sizes show "real (length (content tid)) + PER_MESSAGE_OVERHEAD \<le> tm * 1000" by (simp add: exceeds_transfer_def not_less)
  qed
qed

text \<open>
  C28: The limits a propagation node announces hold the batches of the peers it wins by the announce. A node that
  peers through the announce plans its offers by them; whatever of an offer is then sent, so long as no message
  is sent twice and the files still have the sizes offered, packs into a batch that the announcing node's own
  check of an advertised Resource never refuses for its size, on a link whose sender it takes messages from,
  with every message within its transfer limit. It is true of every setting, of limits under a kilobyte and of
  a sync limit set below the transfer limit. (An answer that names an id twice makes a node send a message
  twice; of such a batch nothing is said.)
\<close>

theorem announced_limits_hold_batches:
  assumes "valid d" and "dec d = Some (MArr (build_app_data t from_static_only limits (sc, fl, pc) meta))"
    and "limits = propagation_limits_kb transfer_bytes sync_bytes" and "sc < 2 ^ 32" and "fl < 2 ^ 32" and "pc \<le> MAX_PEERING_COST"
    and "h \<noteq> own" and "h \<in> set static \<or> autopeer \<and> \<not> path \<and> \<not> from_static_only"
    and "hget (sn_peers n) h = None" and "length (sn_peers n) < MAX_PEERS"
    and "hget (sn_peers (handle_propagation_announce now own static autopeer h (read_announce valid dec enc d) path n)) h = Some p"
    and "msgpack_sizes enc" and "distinct (map oc_tid cs)" and "\<forall>c \<in> set cs. length (content (oc_tid c)) = oc_size c"
    and "distinct sent" and "sent \<noteq> []" and "set sent \<subseteq> set (op_offer (plan_offer rm cs (pp_transfer_limit p) (pp_sync_limit p) mi))"
    and "\<And>peers. static_only = Some peers \<Longrightarrow> \<exists>s \<in> set peers. sender_of on = Some s"
  shows "fst (resource_advertised (snd (announced_limits_kb limits)) static_only
        (length (pack_sync_batch enc timebase (map content sent))) on recorded I) \<and>
    (\<forall>tid \<in> set sent. real (length (content tid)) + PER_MESSAGE_OVERHEAD \<le> fst limits * 1000) \<and> pp_stamp_cost p = Some sc"
proof -
  let ?tm = "of_int \<lfloor>fst limits\<rfloor> :: real" and ?sl = "if \<lfloor>snd limits\<rfloor> > 0 then of_int \<lfloor>snd limits\<rfloor> else of_int \<lfloor>fst limits\<rfloor> :: real"
  have p: "pp_transfer_limit p = Some ?tm" "pp_sync_limit p = Some ?sl" "pp_stamp_cost p = Some sc"
    by (rule announced_peer [where valid = valid and dec = dec and d = d, OF assms(1,2,4-10), of now enc], use assms(11) in simp)+
  have "fst limits \<le> snd limits" by (simp add: assms(3) propagation_limits_kb_def Let_def split: option.split)
  then have "\<lfloor>fst limits\<rfloor> \<le> \<lfloor>snd limits\<rfloor>" by (rule floor_mono)
  then have sl: "?sl \<le> of_int \<lfloor>snd limits\<rfloor>" by auto
    have plan: "set sent \<subseteq> set (op_offer (plan_offer rm cs (Some ?tm) (Some ?sl) mi))" using assms(17) unfolding p(1,2) .
  note sent = sent_within_plan [where cs = cs and content = content, OF assms(12-16) plan]
  have "real (length (pack_sync_batch enc timebase (map content sent))) < ?sl * 1000" by (rule sent(1))
  with sl have "real (length (pack_sync_batch enc timebase (map content sent))) < real_of_int (\<lfloor>snd limits\<rfloor> * 1000)" by simp
  then have "int (length (pack_sync_batch enc timebase (map content sent))) < \<lfloor>snd limits\<rfloor> * 1000"
    by (metis of_int_less_iff of_int_of_nat_eq)
  then have "fst (resource_advertised (snd (announced_limits_kb limits)) static_only
        (length (pack_sync_batch enc timebase (map content sent))) on recorded I)"
    using assms(18) by (auto simp: resource_advertised_def announced_limits_kb_def split: advertised_on.split option.splits)
  moreover have "real (length (content tid)) + PER_MESSAGE_OVERHEAD \<le> fst limits * 1000" if "tid \<in> set sent" for tid
    using sent(2) [THEN bspec, OF that] by linarith
  ultimately show ?thesis using p(3) by blast
qed

text \<open>An encoding with the sizes of msgpack, whatever its bytes.\<close>

fun demo_size :: "msg_value \<Rightarrow> nat" where
  "demo_size (MFloat r) = 9"
| "demo_size (MBin b) = length b + 5"
| "demo_size (MArr vs) = 5 + sum_list (map demo_size vs)"
| "demo_size v = 1"

definition demo_enc :: "msg_value \<Rightarrow> bytes" where
  "demo_enc v = replicate (demo_size v) 0"

definition demo_announce :: "msg_value list" where
  "demo_announce = build_app_data 100 False (propagation_limits_kb None None) (16, 3, 18) (MStr ''rfed'')"

definition demo_candidate :: offer_candidate where
  "demo_candidate = \<lparr>oc_tid = [9], oc_size = 100, oc_weight = 1\<rparr>"

theorem announced_limits_hold_batches_witness:
  "fst (resource_advertised 10240 None (length (pack_sync_batch demo_enc 5 [replicate 100 0])) NoLink
      \<lparr>as_identity = None, as_key_valid = False\<rparr> no_inbound)"
proof -
  let ?limits = "propagation_limits_kb None None" and ?dec = "\<lambda>_. Some (MArr demo_announce)"
  have limits: "?limits = (256, 10240)" by (simp add: propagation_limits_kb_def DEFAULT_TRANSFER_LIMIT_KB_def DEFAULT_SYNC_LIMIT_KB_def)
  have d: "?dec [1 :: u8] = Some (MArr (build_app_data 100 False ?limits (16, 3, 18) (MStr ''rfed'')))" by (simp add: demo_announce_def)
  have sizes: "msgpack_sizes demo_enc" by (simp add: msgpack_sizes_def demo_enc_def)
  have cost: "(16 :: nat) < 2 ^ 32" "(3 :: nat) < 2 ^ 32" "18 \<le> MAX_PEERING_COST" by (simp_all add: MAX_PEERING_COST_def)
  have h: "[2 :: u8] \<noteq> [1]" "[2 :: u8] \<in> set [] \<or> True \<and> \<not> False \<and> \<not> False" by simp_all
  have n: "hget (sn_peers no_peers) [2] = None" "length (sn_peers no_peers) < MAX_PEERS" by (simp_all add: no_peers_def MAX_PEERS_def)
  have valid: "(\<lambda>_. True) [1 :: u8]" by simp
  note heard = announced_peer [where valid = "\<lambda>_. True" and dec = ?dec, OF valid d cost h n, where now = 7 and enc = demo_enc]
  obtain p where p: "hget (sn_peers (handle_propagation_announce 7 [1] [] True [2] (read_announce (\<lambda>_. True) ?dec demo_enc [1]) False no_peers)) [2] = Some p"
    "pp_transfer_limit p = Some 256" "pp_sync_limit p = Some 10240"
    by (rule heard) (simp_all add: limits)
  have plan: "set [[9]] \<subseteq> set (op_offer (plan_offer 1000000 [demo_candidate] (pp_transfer_limit p) (pp_sync_limit p) 10))"
    by (simp add: p plan_offer_def plan_one_def demo_candidate_def PER_MESSAGE_OVERHEAD_def BATCH_OVERHEAD_def Let_def)
  have "announced_limits_kb ?limits = (256, 10240)" by (simp add: announced_limits_kb_def limits)
  with announced_limits_hold_batches [where valid = "\<lambda>_. True" and dec = ?dec and cs = "[demo_candidate]" and content = "\<lambda>_. replicate 100 0" and
      sent = "[[9]]" and static_only = None and timebase = 5, OF valid d refl cost h n p(1) sizes _ _ _ _ plan]
  show ?thesis by (simp add: demo_candidate_def)
qed

end
