(* ===== verification/NodeStart.thy ===== *)
theory NodeStart
  imports FedNode
begin

text \<open>
  The start of the federation node (\<open>FedNode::new\<close> and the peers' part of \<open>destinations::enable\<close> in
  \<open>rfed/src/destinations.rs\<close>): every table is read from its database, which may have failed to open, with
  the file of an earlier version to import beside it.
\<close>

text \<open>A database as it opened, the earlier file, what became of the import, and whether the rows could be read.\<close>

record ('rows, 'old) opened =
  op_rows :: "'rows option"
  op_legacy :: "'old legacy_file"
  op_import :: txn
  op_read :: bool

record node_disk =
  dk_blob_dirs :: "listing option"
  dk_blob_files :: "(bytes \<times> bytes, bytes) hmap"
  dk_subs :: "(subscription_db, subscription_entry list) opened"
  dk_version_read :: bool
  dk_clock :: txn
  dk_distros :: "(distro_entry list, distro_entry list) opened"
  dk_announces :: "(distro_announce list, distro_announce list) opened"
  dk_notify :: "(notify_row list, notify_registration list) opened"
  dk_rekey :: txn
  dk_queue :: "(deferred_row list, deferred_entry list) opened"
  dk_queue_reads :: "nat option"
  dk_peers :: "fed_peer list option"

definition start_subscriptions :: "secs \<Rightarrow> node_disk \<Rightarrow> subscription_table" where
  "start_subscriptions started dk = (let d = dk_subs dk
     in load_subscriptions (op_import d) (dk_version_read dk) (dk_clock dk) started (op_read d) (op_rows d) (op_legacy d))"

text \<open>Channel registrations under an identity hash are moved once the subscriptions are known.\<close>

definition start_notify :: "(bytes option \<Rightarrow> string \<Rightarrow> string list \<Rightarrow> bytes) \<Rightarrow> subscription_table \<Rightarrow> node_disk \<Rightarrow> notify_registry" where
  "start_notify dest_hash subs dk = (let d = dk_notify dk
     in snd (rekey_identity_channel_rows dest_hash (dk_rekey dk) (\<lambda>h. has_subscriber h subs)
          (load_registry (op_import d) (op_read d) (op_rows d) (op_legacy d))))"

definition start_sync :: "secs \<Rightarrow> node_config \<Rightarrow> bytes \<Rightarrow> fed_sync" where
  "start_sync t cfg own = set_local_node_hash own ((new_fed_sync t)\<lparr>fs_static_only := cf_from_static_only cfg,
     fs_static := cf_static_peers cfg, fs_has_state_file := True,
     fs_transfer_limit := cf_channel_transfer_limit cfg, fs_sync_limit := cf_channel_sync_limit cfg\<rparr>)"

definition new_fed_node :: "(bytes option \<Rightarrow> string \<Rightarrow> string list \<Rightarrow> bytes) \<Rightarrow> (deferred_row list \<Rightarrow> int) \<Rightarrow> (string \<Rightarrow> bytes option) \<Rightarrow>
    secs \<Rightarrow> secs \<Rightarrow> node_config \<Rightarrow> bytes \<Rightarrow> node_disk \<Rightarrow> 'w \<Rightarrow> 'w fed_node" where
  "new_fed_node dest_hash nid decode_hex started t cfg own dk world =
     (let subs = start_subscriptions started dk; d = dk_distros dk; a = dk_announces dk; q = dk_queue dk
      in \<lparr>nd_config = cfg, nd_poisoned = False,
          nd_blobs = Some (open_store decode_hex (dk_blob_dirs dk) (cf_storage_limit cfg) (dk_blob_files dk)),
          nd_subs = Some subs,
          nd_distros = Some (load_distro_table (op_import d) (op_read d) (op_rows d) (op_legacy d)),
          nd_announces = Some (load_announces (op_import a) (op_read a) (op_rows a) (op_legacy a)),
          nd_hooks = Some [], nd_notify = Some (start_notify dest_hash subs dk), nd_sync = Some (start_sync t cfg own),
          nd_queue = Some (load nid (op_import q) (dk_queue_reads dk) (op_rows q) (op_legacy q)),
          nd_channel_streams = Some [], nd_propagation_streams = Some [], nd_links = Some [], nd_sync_links = [],
          nd_pending_backups = Some [], nd_selected_backups = [], nd_world = world\<rparr>)"

text \<open>The peers of the last run, then the static ones; a path to each is asked for.\<close>

definition enable_peers :: "node_disk \<Rightarrow> 'w fed_node \<Rightarrow> bytes list \<times> 'w fed_node" where
  "enable_peers dk node =
     (if nd_poisoned node then ([], node)
      else (case nd_sync node of
          None \<Rightarrow> ([], node)
        | Some s \<Rightarrow> (let s' = seed_static_peers (load_peers (dk_peers dk) s)
                     in (map fst (fs_peers s'), node\<lparr>nd_sync := Some s'\<rparr>))))"

end
