(* ===== verification/NodeStart_Props.thy ===== *)
theory NodeStart_Props
  imports NodeStart DeferredQueue_Props Notify_Props FedNode_Props
begin

text \<open>
  The life of a node across restarts: from its first start on empty databases, over any changes of its tables
  and any restarts, each table mirrors its database, so a node started on those databases is the node that
  stopped, as far as it is kept.
\<close>

section \<open>Tables and databases\<close>

text \<open>The tables of a node whose databases open are well formed and hold what their rows say.\<close>

definition subs_sound :: "subscription_table \<Rightarrow> bool" where
  "subs_sound s \<longleftrightarrow> sub_wf s \<and> sub_rows s = Some (map row_of_entry (st_entries s)) \<and>
     (\<exists>db. st_db s = Some db \<and> RENEWAL_CLOCK_VERSION \<le> sd_version db)"

definition devices_sound :: "distro_table \<Rightarrow> bool" where
  "devices_sound d \<longleftrightarrow> dt_wf d \<and> dt_db d = Some (dt_entries d)"

definition announces_sound :: "announce_store \<Rightarrow> bool" where
  "announces_sound a \<longleftrightarrow> as_wf a \<and> as_db a = Some (as_entries a)"

definition registrations_sound :: "notify_registry \<Rightarrow> bool" where
  "registrations_sound g \<longleftrightarrow> reg_wf g \<and> ng_db g = Some (map row_of_registration (ng_registrations g))"

definition queue_sound :: "deferred_queue \<Rightarrow> bool" where
  "queue_sound q \<longleftrightarrow> dq_wf q \<and> dq_mirror q \<and> dq_db q \<noteq> None"

lemmas sound_defs = subs_sound_def devices_sound_def announces_sound_def registrations_sound_def queue_sound_def

definition node_sound :: "'w fed_node \<Rightarrow> bool" where
  "node_sound node \<longleftrightarrow> (\<exists>s d a g q. nd_subs node = Some s \<and> nd_distros node = Some d \<and> nd_announces node = Some a \<and>
     nd_notify node = Some g \<and> nd_queue node = Some q \<and>
     subs_sound s \<and> devices_sound d \<and> announces_sound a \<and> registrations_sound g \<and> queue_sound q)"

text \<open>The disk of a first start, and the one a stopped node leaves; nothing is left to import.\<close>

definition left_open :: "'rows option \<Rightarrow> ('rows, 'old) opened" where
  "left_open rows = \<lparr>op_rows = rows, op_legacy = NoFile, op_import = Committed, op_read = True\<rparr>"

definition disk_with :: "subscription_db option \<Rightarrow> distro_entry list option \<Rightarrow> distro_announce list option \<Rightarrow> notify_row list option \<Rightarrow>
    deferred_row list option \<Rightarrow> listing option \<Rightarrow> (bytes \<times> bytes, bytes) hmap \<Rightarrow> fed_peer list option \<Rightarrow> node_disk" where
  "disk_with s d a g q dirs files peers = \<lparr>dk_blob_dirs = dirs, dk_blob_files = files,
     dk_subs = left_open s, dk_version_read = True, dk_clock = Committed, dk_distros = left_open d, dk_announces = left_open a,
     dk_notify = left_open g, dk_rekey = Committed, dk_queue = left_open q, dk_queue_reads = None, dk_peers = peers\<rparr>"

definition empty_disk :: "listing option \<Rightarrow> (bytes \<times> bytes, bytes) hmap \<Rightarrow> fed_peer list option \<Rightarrow> node_disk" where
  "empty_disk = disk_with (Some \<lparr>sd_rows = [], sd_version = 0\<rparr>) (Some []) (Some []) (Some []) (Some [])"

definition disk_of :: "'w fed_node \<Rightarrow> listing option \<Rightarrow> (bytes \<times> bytes, bytes) hmap \<Rightarrow> fed_peer list option \<Rightarrow> node_disk" where
  "disk_of node = disk_with (Option.bind (nd_subs node) st_db) (Option.bind (nd_distros node) dt_db)
     (Option.bind (nd_announces node) as_db) (Option.bind (nd_notify node) ng_db) (Option.bind (nd_queue node) dq_db)"

section \<open>A start\<close>

lemma load_subs_left: "load_subscriptions Committed True Committed now True (Some db) NoFile =
    \<lparr>st_entries = map entry_of_row (sd_rows (start_renewal_clock True Committed now db)), st_db = Some (start_renewal_clock True Committed now db)\<rparr>"
  by (simp add: load_subscriptions_def read_entries_def Let_def)

lemma new_tables:
  assumes "started = new_fed_node dest_hash nid decode_hex now t cfg own (disk_with (Some sdb) (Some d) (Some a) (Some g) (Some q) dirs files peers) world"
    and "subs = load_subscriptions Committed True Committed now True (Some sdb) NoFile"
  shows "nd_subs started = Some subs" and "nd_distros started = Some \<lparr>dt_entries = d, dt_db = Some d\<rparr>"
    and "nd_announces started = Some \<lparr>as_entries = a, as_db = Some a\<rparr>"
    and "nd_notify started = Some (snd (rekey_identity_channel_rows dest_hash Committed (\<lambda>h. has_subscriber h subs)
      \<lparr>ng_registrations = map registration_of_row g, ng_db = Some g\<rparr>))"
    and "nd_queue started = Some (load nid Committed None (Some q) NoFile)" and "nd_links started = Some []"
  unfolding assms new_fed_node_def disk_with_def left_open_def
  by (simp_all add: start_subscriptions_def start_notify_def load_distro_table_def load_announces_def load_registry_def Let_def)

lemma queue_loads:
  assumes "rowid_spec nid" and "sound_rows (Some rows)"
  shows "queue_sound (load nid Committed None (Some rows) NoFile)"
  using load_mirror [OF assms] load_wf by (simp add: queue_sound_def load_db_Some)

lemma queue_rows: "queue_sound q \<Longrightarrow> sound_rows (dq_db q)"
  by (auto simp: queue_sound_def sound_rows_def dq_mirror_def)

lemma registrations_rekeyed:
  assumes "registrations_sound g" and "\<forall>h. notify_key dest_hash h \<noteq> h"
  shows "registrations_sound (snd (rekey_identity_channel_rows dest_hash Committed p g))"
  using reg_step_wf [OF reg_rekey [OF assms(2)]] reg_step_rows [OF reg_rekey [OF assms(2)]] assms(1)
  by (simp add: registrations_sound_def)

lemma first_start_sound:
  assumes "rowid_spec nid" and "\<forall>h. notify_key dest_hash h \<noteq> h"
  shows "node_sound (new_fed_node dest_hash nid decode_hex now t cfg own (empty_disk dirs files peers) world)"
proof -
  note tables = new_tables [OF refl refl, of dest_hash nid decode_hex now t cfg own "\<lparr>sd_rows = [], sd_version = 0\<rparr>" "[]" "[]" "[]" "[]"
      dirs files peers world]
  have "subs_sound (load_subscriptions Committed True Committed now True (Some \<lparr>sd_rows = [], sd_version = 0\<rparr>) NoFile)"
    by (simp add: load_subs_left start_renewal_clock_def subs_sound_def sub_wf_def sub_rows_def RENEWAL_CLOCK_VERSION_def)
  moreover have "registrations_sound \<lparr>ng_registrations = map registration_of_row [], ng_db = Some []\<rparr>"
    by (simp add: registrations_sound_def reg_wf_def named_channels_def)
  moreover have "queue_sound (load nid Committed None (Some []) NoFile)"
    by (rule queue_loads [OF assms(1)]) (simp add: sound_rows_def)
  ultimately show ?thesis unfolding node_sound_def empty_disk_def tables
    by (auto simp: devices_sound_def announces_sound_def dt_wf_def as_wf_def intro: registrations_rekeyed [OF _ assms(2)])
qed

text \<open>What a node started on the disk of a sound one has.\<close>

lemma restart_tables:
  assumes sound: "node_sound node" "nd_subs node = Some s" "nd_distros node = Some d" "nd_announces node = Some a"
      "nd_notify node = Some g" "nd_queue node = Some q"
    and started: "node' = new_fed_node dest_hash nid decode_hex now t cfg own (disk_of node dirs files peers) world"
  shows "nd_subs node' = Some s" and "nd_distros node' = Some d" and "nd_announces node' = Some a"
    and "nd_notify node' = Some (snd (rekey_identity_channel_rows dest_hash Committed (\<lambda>h. has_subscriber h s) g))"
    and "nd_queue node' = Some (load nid Committed None (dq_db q) NoFile)" and "nd_links node' = Some []"
proof -
  from sound have ok: "subs_sound s" "devices_sound d" "announces_sound a" "registrations_sound g" "queue_sound q"
    by (auto simp: node_sound_def)
  from ok(1) obtain sdb where sdb: "st_db s = Some sdb" "sd_rows sdb = map row_of_entry (st_entries s)" "RENEWAL_CLOCK_VERSION \<le> sd_version sdb"
    by (auto simp: subs_sound_def sub_rows_def)
  from ok(5) obtain rows where rows: "dq_db q = Some rows" by (auto simp: queue_sound_def)
  have "disk_of node dirs files peers = disk_with (Some sdb) (Some (dt_entries d)) (Some (as_entries a))
      (Some (map row_of_registration (ng_registrations g))) (Some rows) dirs files peers"
    using ok by (simp add: disk_of_def sound sdb rows sound_defs)
  note tables = new_tables [OF started [unfolded this] refl]
  have "map entry_of_row (sd_rows sdb) = st_entries s"
    using ok(1) unfolding sdb(2) by (auto simp: subs_sound_def sub_wf_def entry_of_row_of_entry intro!: map_idI)
  then have s: "load_subscriptions Committed True Committed now True (Some sdb) NoFile = s"
    using sdb by (cases s) (simp add: load_subs_left start_renewal_clock_def)
  have g: "\<lparr>ng_registrations = map registration_of_row (map row_of_registration (ng_registrations g)),
      ng_db = Some (map row_of_registration (ng_registrations g))\<rparr> = g"
    using ok(4) by (cases g) (auto simp: registrations_sound_def reg_wf_def named_channels_def row_back intro!: map_idI)
  show "nd_subs node' = Some s" using tables(1) by (simp only: s)
  show "nd_distros node' = Some d" "nd_announces node' = Some a" using tables(2,3) ok(2,3)
    by (cases d, simp add: devices_sound_def, cases a, simp add: announces_sound_def)
  show "nd_notify node' = Some (snd (rekey_identity_channel_rows dest_hash Committed (\<lambda>h. has_subscriber h s) g))"
    using tables(4) by (simp only: s g)
  show "nd_queue node' = Some (load nid Committed None (dq_db q) NoFile)" "nd_links node' = Some []"
    using tables(5,6) by (simp_all add: rows)
qed

section \<open>Runs\<close>

text \<open>
  What happens to the tables of a node: a committed operation of one of them, by whichever handler or job; anything
  that leaves the five alone; and the node stopped and started again on its databases.
\<close>

inductive node_step :: "(bytes option \<Rightarrow> string \<Rightarrow> string list \<Rightarrow> bytes) \<Rightarrow> (deferred_row list \<Rightarrow> int) \<Rightarrow> 'w fed_node \<Rightarrow> 'w fed_node \<Rightarrow> bool"
  for dest_hash nid where
  node_subscriptions: "nd_subs node = Some s \<Longrightarrow> sub_step s s' \<Longrightarrow> node_step dest_hash nid node (node\<lparr>nd_subs := Some s'\<rparr>)"
| node_devices: "nd_distros node = Some d \<Longrightarrow> device_step d d' \<Longrightarrow> node_step dest_hash nid node (node\<lparr>nd_distros := Some d'\<rparr>)"
| node_announces: "nd_announces node = Some a \<Longrightarrow> announce_step a a' \<Longrightarrow> node_step dest_hash nid node (node\<lparr>nd_announces := Some a'\<rparr>)"
| node_registrations: "nd_notify node = Some g \<Longrightarrow> reg_step dest_hash g g' \<Longrightarrow> node_step dest_hash nid node (node\<lparr>nd_notify := Some g'\<rparr>)"
| node_queue: "nd_queue node = Some q \<Longrightarrow> dq_step nid {Committed} q q' \<Longrightarrow> node_step dest_hash nid node (node\<lparr>nd_queue := Some q'\<rparr>)"
| node_elsewhere: "\<lbrakk>nd_subs node' = nd_subs node; nd_distros node' = nd_distros node; nd_announces node' = nd_announces node;
    nd_notify node' = nd_notify node; nd_queue node' = nd_queue node\<rbrakk> \<Longrightarrow> node_step dest_hash nid node node'"
| node_restarted: "node_step dest_hash nid node (new_fed_node dest_hash nid decode_hex now t cfg own (disk_of node dirs files peers) world)"

lemma fold_delete_version: "sd_version (fold (\<lambda>x. delete_where (P x)) xs db) = sd_version db"
  by (induction xs arbitrary: db) (simp_all add: delete_where_def)

lemma put_version [simp]: "sd_version (put_entry e db) = sd_version db" "sd_version (delete_where p db) = sd_version db"
  by (simp_all add: put_entry_def delete_where_def Let_def)

lemma renew_version: "map_option sd_version (st_db (snd (renew Committed t sub chan s))) = map_option sd_version (st_db s)"
  by (cases "st_db s") (simp_all add: renew_def Let_def)

lemma sub_step_version: "sub_step s s' \<Longrightarrow> map_option sd_version (st_db s') = map_option sd_version (st_db s)"
proof (induction rule: sub_step.induct)
  case (sub_subscribe s t t' sub chan)
  show ?case
    by (rule subscribe_cases [of Committed t t' sub chan s])
      (cases "st_db s"; simp add: renew_version)+
next
  case (sub_expire s t chan max_age)
  then show ?case by (cases "st_db s") (simp_all add: expire_stale_def Let_def fold_delete_version)
next
  case (sub_backup owner s t sub chan)
  then show ?case by (cases "st_db s") (simp_all add: subscribe_backup_def Let_def split: option.split)
next
  case (sub_unsubscribe s sub chan)
  then show ?case by (cases "st_db s") (simp_all add: unsubscribe_def Let_def)
next
  case (sub_prune s t max_age)
  then show ?case by (cases "st_db s") (simp_all add: prune_stale_backups_def Let_def)
qed (rule renew_version)

lemma subs_stay: "sub_step s s' \<Longrightarrow> subs_sound s \<Longrightarrow> subs_sound s'"
  using sub_step_wf [of s s'] sub_step_mirror [of s s'] sub_step_version [of s s'] by (auto simp: subs_sound_def)

lemma devices_stay: "device_step d d' \<Longrightarrow> devices_sound d \<Longrightarrow> devices_sound d'"
  using device_step_wf device_rows.mirror_step [of d d'] by (simp add: devices_sound_def)

lemma announces_stay: "announce_step a a' \<Longrightarrow> announces_sound a \<Longrightarrow> announces_sound a'"
  using announce_step_wf announce_rows.mirror_step [of a a'] by (simp add: announces_sound_def)

lemma registrations_stay: "reg_step dest_hash g g' \<Longrightarrow> registrations_sound g \<Longrightarrow> registrations_sound g'"
  using reg_step_wf [of dest_hash g g'] reg_step_rows [of dest_hash g g'] by (simp add: registrations_sound_def)

lemma queue_stays: "dq_step nid {Committed} q q' \<Longrightarrow> rowid_spec nid \<Longrightarrow> queue_sound q \<Longrightarrow> queue_sound q'"
  using step_wf [of nid "{Committed}" q q'] step_mirror [of nid q q'] step_db_None [of nid "{Committed}" q q'] by (simp add: queue_sound_def)

lemma node_step_sound:
  assumes "node_step dest_hash nid node node'" and "rowid_spec nid" and "\<forall>h. notify_key dest_hash h \<noteq> h" and "node_sound node"
  shows "node_sound node'"
  using assms(1,4)
proof (induction rule: node_step.induct)
  case (node_restarted node decode_hex now t cfg own dirs files peers world)
  then obtain s d a g q where parts: "nd_subs node = Some s" "nd_distros node = Some d" "nd_announces node = Some a"
      "nd_notify node = Some g" "nd_queue node = Some q"
    and ok: "subs_sound s" "devices_sound d" "announces_sound a" "registrations_sound g" "queue_sound q"
    by (auto simp: node_sound_def)
  from ok(5) obtain rows where "dq_db q = Some rows" by (auto simp: queue_sound_def)
  with queue_loads [OF assms(2), of rows] queue_rows [OF ok(5)] have "queue_sound (load nid Committed None (dq_db q) NoFile)" by simp
  then show ?case
    unfolding node_sound_def restart_tables [OF node_restarted parts refl] using ok registrations_rekeyed [OF ok(4) assms(3)] by simp
qed (auto simp: node_sound_def subs_stay devices_stay announces_stay registrations_stay queue_stays [OF _ assms(2)])

lemma node_run_sound:
  assumes "(node_step dest_hash nid)\<^sup>*\<^sup>* node node'" and "rowid_spec nid" and "\<forall>h. notify_key dest_hash h \<noteq> h" and "node_sound node"
  shows "node_sound node'"
  using assms by (induction rule: rtranclp_induct) (auto intro: node_step_sound)

section \<open>Restarts\<close>


text \<open>A subscription and a device of the first run, after a restart.\<close>

definition demo_dest_hash :: "bytes option \<Rightarrow> string \<Rightarrow> string list \<Rightarrow> bytes" where
  "demo_dest_hash h app aspects = 1 # (case h of None \<Rightarrow> [] | Some b \<Rightarrow> b)"

definition first_node :: "unit fed_node" where
  "first_node = new_fed_node demo_dest_hash max_rowid (\<lambda>_. None) 0 0 demo_config [1] (empty_disk None [] None) ()"


end
