(* ===== verification/MainLoop.thy ===== *)
theory MainLoop
  imports Announces Settings
begin

text \<open>
  The run of the node: a propagation node made from the configuration (\<open>LxmfPropagationNode::new\<close> and
  \<open>enable\<close>), the main loop of \<open>rfed/src/main.rs\<close> with its timers, its jobs and its watchdog, and the
  shutdown.

  The timers are \<open>Instant\<close>s, so a pass takes its own readings: each timer is read once against its interval
  and once more when its job is through.
\<close>

section \<open>The propagation node\<close>

definition DEFAULT_STAMP_COST :: nat where "DEFAULT_STAMP_COST = 16"
definition DEFAULT_STAMP_FLEXIBILITY :: nat where "DEFAULT_STAMP_FLEXIBILITY = 3"
definition DEFAULT_PEERING_COST :: nat where "DEFAULT_PEERING_COST = 18"
definition DEFAULT_OUTBOUND_SYNC_MSGS_PER_MIN :: nat where "DEFAULT_OUTBOUND_SYNC_MSGS_PER_MIN = 600"
definition TRANSIENT_ID_CLEAN_INTERVAL_SECS :: secs where "TRANSIENT_ID_CLEAN_INTERVAL_SECS = 240"

record prop_settings =
  ps_costs :: "nat \<times> nat \<times> nat"
  ps_limits :: "real \<times> real"
  ps_storage_limit :: nat
  ps_name :: string
  ps_autopeer :: bool
  ps_from_static_only :: bool
  ps_sequential :: bool
  ps_static_sequential :: bool
  ps_max_syncs :: nat
  ps_static :: "bytes list"

definition prop_settings_of :: "node_config \<Rightarrow> prop_settings" where
  "prop_settings_of cfg = \<lparr>
     ps_costs = (or_default (tp_stamp_cost (cf_default cfg)) DEFAULT_STAMP_COST,
       or_default (tp_stamp_flexibility (cf_default cfg)) DEFAULT_STAMP_FLEXIBILITY,
       or_default (cf_peering_cost cfg) DEFAULT_PEERING_COST),
     ps_limits = propagation_limits_kb (cf_transfer_limit cfg) (cf_sync_limit cfg),
     ps_storage_limit = cf_storage_limit cfg, ps_name = cf_display_name cfg, ps_autopeer = cf_autopeer cfg,
     ps_from_static_only = pi_from_static_only (cf_inbound cfg), ps_sequential = pi_sequential_validation (cf_inbound cfg),
     ps_static_sequential = (\<not> pi_static_bypass (cf_inbound cfg)), ps_max_syncs = pi_max_syncs (cf_inbound cfg),
     ps_static = cf_propagation_peers cfg\<rparr>"

text \<open>A node at its start, at the clocks' \<open>t\<close> and \<open>m\<close>; the message files are those of its directory.\<close>

definition new_prop_node :: "secs \<Rightarrow> secs \<Rightarrow> (string, bytes) hmap \<Rightarrow> prop_settings \<Rightarrow> prop_node" where
  "new_prop_node t m files s = \<lparr>
     pn_sync = \<lparr>sn_peers = [], sn_departed = [], sn_entries = no_entries, sn_fresh = [], sn_sends = [], sn_record_start = m,
       sn_budget = DEFAULT_OUTBOUND_SYNC_MSGS_PER_MIN, sn_started_at = t, sn_hold_logged = False, sn_backlog_logged = False\<rparr>,
     pn_files = files, pn_processed = none_processed, pn_received = 0, pn_served = 0, pn_limit = ps_storage_limit s\<rparr>"

text \<open>\<open>new\<close>, then \<open>enable\<close>; \<open>index\<close> is what \<open>index_messagestore\<close> reads.\<close>

definition start_prop_node :: "(msg_value \<Rightarrow> bytes) \<Rightarrow> secs \<Rightarrow> secs \<Rightarrow> secs \<Rightarrow> (string, bytes) hmap \<Rightarrow> propagation_entries \<Rightarrow> peers_file \<Rightarrow>
    processed_file \<Rightarrow> prop_settings \<Rightarrow> bytes list \<times> prop_node" where
  "start_prop_node show_meta t m t' files index peers processed s =
     (let n = new_prop_node t m files s;
          (paths, sync, L) = enable_node show_meta t' index peers processed (ps_static s) (pn_sync n)
      in (paths, n\<lparr>pn_sync := sync, pn_processed := L\<rparr>))"

text \<open>The announced data of a node with its settings; \<open>meta\<close> is its map with the name.\<close>

definition prop_app_data :: "(msg_value \<Rightarrow> bytes) \<Rightarrow> secs \<Rightarrow> msg_value \<Rightarrow> prop_settings \<Rightarrow> bytes" where
  "prop_app_data enc t meta s = enc (MArr (build_app_data t (ps_from_static_only s) (ps_limits s) (ps_costs s) meta))"

text \<open>\<open>clean_transient_id_caches\<close>, with the time of the last cleaning.\<close>

definition clean_transient_id_caches :: "secs \<Rightarrow> secs \<times> prop_node \<Rightarrow> secs \<times> prop_node" where
  "clean_transient_id_caches t s =
     (if t - fst s < TRANSIENT_ID_CLEAN_INTERVAL_SECS then s
      else (t, (snd s)\<lparr>pn_processed := snd (clean t (pn_processed (snd s)))\<rparr>))"

section \<open>The jobs\<close>

definition EVICT_MAX_AGE :: secs where "EVICT_MAX_AGE = 7 * 24 * 3600"

text \<open>
  The hourly eviction: the queue under the node's lock; then, with that released, the lines of what expired,
  under the distro table's lock; then the messages of the propagation node.
\<close>

definition evict_queue_job :: "txn \<Rightarrow> secs \<Rightarrow> 'w fed_node \<Rightarrow> (log_level \<times> expiry_line) list \<times> 'w fed_node" where
  "evict_queue_job r t node =
     (if nd_poisoned node then ([], node)
      else (case nd_queue node of
          None \<Rightarrow> ([], node)
        | Some q \<Rightarrow>
            (let (ex, q') = evict_expired r t EVICT_MAX_AGE q;
                 distros = (case nd_distros node of None \<Rightarrow> {} | Some table \<Rightarrow> registered_distro_hashes table)
             in (expiry_lines ex (\<lambda>routing. routing \<in> distros) EVICT_MAX_AGE, node\<lparr>nd_queue := Some q'\<rparr>))))"

definition evict_messages_job :: "(bytes \<Rightarrow> string) \<Rightarrow> (secs \<Rightarrow> string) \<Rightarrow> (string \<Rightarrow> bool) \<Rightarrow> (string \<Rightarrow> bool) \<Rightarrow> secs \<Rightarrow> prop_node \<Rightarrow> prop_node" where
  "evict_messages_job hexrep show_secs rm rm' t n =
     enforce_storage_limit hexrep show_secs rm' (evict_expired_messages hexrep show_secs rm t n)"

text \<open>
  The backup job: the tick under the node's lock, then a wake for each registration it returned, then the
  status file. A poisoned lock gives no wakes.
\<close>

definition backup_job :: "('w fed_node \<Rightarrow> ((notify_registration \<times> bytes) list \<times> backup_push list) \<times> 'w fed_node) \<Rightarrow>
    'w fed_node \<Rightarrow> (notify_registration \<times> bytes option \<times> bytes option) list \<times> backup_push list \<times> 'w fed_node" where
  "backup_job backup_tick node =
     (if nd_poisoned node then ([], [], node)
      else (let ((wakes, pushes), node') = backup_tick node
            in (map (\<lambda>(reg, chan). (reg, Some chan, None)) wakes, pushes, node')))"

section \<open>The loop\<close>

datatype job =
    TickChannelSync | TickPropagation | CleanLinks | CleanIds | BackupDelivery | WriteStatus | ReplayAnnounces
  | EvictQueue | EvictMessages | Heartbeat | SaveNode | RemoveStatus | SavePropagation

datatype timer = BackupTimer | DistroTimer | EvictTimer | HeartbeatTimer

fun timer_interval :: "timer \<Rightarrow> secs" where
  "timer_interval BackupTimer = 30"
| "timer_interval DistroTimer = real SERVICE_REFRESH_INTERVAL_SECS"
| "timer_interval EvictTimer = 3600"
| "timer_interval HeartbeatTimer = 5 * 60"

text \<open>What a pass reads of the clock: for each timer the time it is checked at and the time it is set to.\<close>

type_synonym readings = "timer \<Rightarrow> secs \<times> secs"

definition timer_due :: "timer \<Rightarrow> readings \<Rightarrow> (timer \<Rightarrow> secs) \<Rightarrow> bool" where
  "timer_due x clock set_at \<longleftrightarrow> timer_interval x \<le> fst (clock x) - set_at x"

definition reset_timers :: "readings \<Rightarrow> (timer \<Rightarrow> secs) \<Rightarrow> timer \<Rightarrow> secs" where
  "reset_timers clock set_at = (\<lambda>x. if timer_due x clock set_at then snd (clock x) else set_at x)"

definition timed_jobs :: "bool \<Rightarrow> timer \<Rightarrow> job list" where
  "timed_jobs propagation x = (case x of
      BackupTimer \<Rightarrow> [BackupDelivery, WriteStatus]
    | DistroTimer \<Rightarrow> [ReplayAnnounces]
    | EvictTimer \<Rightarrow> EvictQueue # (if propagation then [EvictMessages] else [])
    | HeartbeatTimer \<Rightarrow> [Heartbeat])"

definition pass_jobs :: "bool \<Rightarrow> readings \<Rightarrow> (timer \<Rightarrow> secs) \<Rightarrow> job list" where
  "pass_jobs propagation clock set_at =
     TickChannelSync # (if propagation then [TickPropagation, CleanLinks, CleanIds] else []) @
     concat (map (\<lambda>x. if timer_due x clock set_at then timed_jobs propagation x else []) [BackupTimer, DistroTimer, EvictTimer, HeartbeatTimer])"

definition shutdown_jobs :: "bool \<Rightarrow> job list" where
  "shutdown_jobs propagation = [SaveNode, RemoveStatus] @ (if propagation then [SavePropagation] else [])"

text \<open>The loop over its passes: \<open>None\<close> is a pass that finds the interrupt. What it returns is the jobs of each.\<close>

fun main_loop :: "bool \<Rightarrow> readings option list \<Rightarrow> (timer \<Rightarrow> secs) \<Rightarrow> job list list" where
  "main_loop propagation [] set_at = []"
| "main_loop propagation (None # passes) set_at = [shutdown_jobs propagation]"
| "main_loop propagation (Some clock # passes) set_at =
     pass_jobs propagation clock set_at # main_loop propagation passes (reset_timers clock set_at)"

text \<open>The watchdog's look at the section entered last and when: how long it has stood, from 30 s on.\<close>

definition watchdog :: "(string \<times> secs) option \<Rightarrow> secs \<Rightarrow> (string \<times> secs) option" where
  "watchdog section now = (case section of
      None \<Rightarrow> None
    | Some (name, since) \<Rightarrow> if 30 \<le> now - since then Some (name, now - since) else None)"

section \<open>The shutdown\<close>

definition save_node :: "'w fed_node \<Rightarrow> fed_peer list option" where
  "save_node node = (if nd_poisoned node then None else Option.bind (nd_sync node) save_peers)"

definition save_propagation :: "(bytes \<Rightarrow> msg_value option) \<Rightarrow> (bool \<times> bool) \<times> (bool \<times> bool) \<Rightarrow> prop_node \<Rightarrow> peers_file \<times> processed_file \<Rightarrow>
    peers_file \<times> processed_file \<times> (string \<times> nat) list" where
  "save_propagation read_meta io n old =
     (save_peers_file read_meta (fst (fst io)) (snd (fst io)) (pn_sync n) (fst old),
      save_locally_processed (fst (snd io)) (snd (snd io)) (pn_processed n) (snd old),
      save_stats (pn_received n) (pn_served n))"

end
