(* ===== verification/MainLoop_Props.thy ===== *)
theory MainLoop_Props
  imports MainLoop DeferredQueue_Props FedNode_Props
begin

text \<open>
  The main loop: when its timed jobs run and what the hourly eviction takes and says.
\<close>

section \<open>The timers\<close>

fun timer_job :: "timer \<Rightarrow> job" where
  "timer_job BackupTimer = BackupDelivery"
| "timer_job DistroTimer = ReplayAnnounces"
| "timer_job EvictTimer = EvictQueue"
| "timer_job HeartbeatTimer = Heartbeat"

lemma runs_when_due: "timer_job x \<in> set (pass_jobs p clock set_at) \<longleftrightarrow> timer_due x clock set_at"
  by (cases x) (auto simp: pass_jobs_def timed_jobs_def)

text \<open>What the timers stand at when pass \<open>i\<close> begins.\<close>

definition timers_at :: "readings list \<Rightarrow> (timer \<Rightarrow> secs) \<Rightarrow> nat \<Rightarrow> timer \<Rightarrow> secs" where
  "timers_at clocks set_at i = fold reset_timers (take i clocks) set_at"

lemma timers_at_simps [simp]:
  "timers_at clocks set_at 0 = set_at"
  "i < length clocks \<Longrightarrow> timers_at clocks set_at (Suc i) = reset_timers (clocks ! i) (timers_at clocks set_at i)"
  by (simp_all add: timers_at_def take_Suc_conv_app_nth)

lemma main_loop_nth:
  "i < length clocks \<Longrightarrow> main_loop p (map Some clocks @ rest) set_at ! i = pass_jobs p (clocks ! i) (timers_at clocks set_at i)"
proof (induction clocks arbitrary: set_at i)
  case (Cons c cs)
  then show ?case by (cases i) (simp_all add: timers_at_def)
qed simp

text \<open>The clock does not go back: within a pass, and from one pass to the next.\<close>

definition clocks_ok :: "readings list \<Rightarrow> (timer \<Rightarrow> secs) \<Rightarrow> bool" where
  "clocks_ok clocks set_at \<longleftrightarrow> (\<forall>x. (clocks \<noteq> [] \<longrightarrow> set_at x \<le> fst (hd clocks x)) \<and> (\<forall>i < length clocks. fst ((clocks ! i) x) \<le> snd ((clocks ! i) x)) \<and>
     (\<forall>i. Suc i < length clocks \<longrightarrow> snd ((clocks ! i) x) \<le> fst ((clocks ! Suc i) x)))"

lemma timer_not_ahead:
  assumes "clocks_ok clocks set_at" and "i < length clocks"
  shows "timers_at clocks set_at i x \<le> fst ((clocks ! i) x)"
  using assms(2)
proof (induction i)
  case 0
  with assms(1) have "set_at x \<le> fst (hd clocks x)" unfolding clocks_ok_def by auto
  with 0 show ?case by (simp add: hd_conv_nth)
next
  case (Suc i)
  with assms(1) have "fst ((clocks ! i) x) \<le> snd ((clocks ! i) x)" "snd ((clocks ! i) x) \<le> fst ((clocks ! Suc i) x)"
    unfolding clocks_ok_def by auto
  with Suc show ?case by (auto simp: reset_timers_def)
qed

lemma reset_not_back:
  assumes "clocks_ok clocks set_at" and "i < length clocks"
  shows "timers_at clocks set_at i x \<le> timers_at clocks set_at (Suc i) x"
proof -
  have "fst ((clocks ! i) x) \<le> snd ((clocks ! i) x)" using assms unfolding clocks_ok_def by auto
  with timer_not_ahead [OF assms, of x] assms(2) show ?thesis by (auto simp: reset_timers_def)
qed

lemma timers_grow:
  assumes "clocks_ok clocks set_at" and "i \<le> j" and "j \<le> length clocks"
  shows "timers_at clocks set_at i x \<le> timers_at clocks set_at j x"
  using assms(2,3)
proof (induction j rule: dec_induct)
  case (step k)
  with reset_not_back [OF assms(1), of k x] show ?case by simp
qed simp

lemma timers_stay:
  assumes "i \<le> j" and "j \<le> length clocks" and "\<forall>k. i \<le> k \<and> k < j \<longrightarrow> \<not> timer_due x (clocks ! k) (timers_at clocks set_at k)"
  shows "timers_at clocks set_at j x = timers_at clocks set_at i x"
  using assms
proof (induction j rule: dec_induct)
  case (step k)
  then show ?case by (simp add: reset_timers_def)
qed simp

text \<open>
  C35: The timed jobs of the main loop (the backup delivery, the replay of the distro announces, the
  eviction, the heartbeat) run when they should, however long a pass takes: between the end of one run and
  the check that starts the next at least the interval of its timer has gone by, and whenever two passes are
  an interval apart some pass from the first to the second, these two included, runs the job. The interrupt
  ends the loop with the saves, which no pass makes.
\<close>

theorem timed_jobs_run_on_time:
  assumes "clocks_ok clocks set_at" and jobs: "jobs = main_loop propagation (map Some clocks @ None # rest) set_at"
  shows "(\<forall>i j. i < j \<and> j < length clocks \<and> timer_job x \<in> set (jobs ! i) \<and> timer_job x \<in> set (jobs ! j) \<longrightarrow>
        snd ((clocks ! i) x) + timer_interval x \<le> fst ((clocks ! j) x)) \<and>
    (\<forall>i j. i \<le> j \<and> j < length clocks \<and> timer_interval x \<le> fst ((clocks ! j) x) - fst ((clocks ! i) x) \<longrightarrow>
        (\<exists>k. i \<le> k \<and> k \<le> j \<and> timer_job x \<in> set (jobs ! k))) \<and>
    length jobs = Suc (length clocks) \<and> last jobs = shutdown_jobs propagation \<and>
    (\<forall>i < length clocks. SaveNode \<notin> set (jobs ! i) \<and> SavePropagation \<notin> set (jobs ! i))"
proof (intro conjI allI impI)
  have nth: "jobs ! i = pass_jobs propagation (clocks ! i) (timers_at clocks set_at i)" if "i < length clocks" for i
    using main_loop_nth [OF that] jobs by simp
  have runs: "timer_job x \<in> set (jobs ! i) \<longleftrightarrow> timer_due x (clocks ! i) (timers_at clocks set_at i)" if "i < length clocks" for i
    using nth [OF that] runs_when_due by simp
  show "snd ((clocks ! i) x) + timer_interval x \<le> fst ((clocks ! j) x)"
    if "i < j \<and> j < length clocks \<and> timer_job x \<in> set (jobs ! i) \<and> timer_job x \<in> set (jobs ! j)" for i j
  proof -
    from that runs have "timer_due x (clocks ! i) (timers_at clocks set_at i)" and j: "timer_due x (clocks ! j) (timers_at clocks set_at j)" by auto
    then have "timers_at clocks set_at (Suc i) x = snd ((clocks ! i) x)" using that by (simp add: reset_timers_def)
    with timers_grow [OF assms(1), of "Suc i" j x] that j show ?thesis by (simp add: timer_due_def)
  qed
  show "\<exists>k. i \<le> k \<and> k \<le> j \<and> timer_job x \<in> set (jobs ! k)"
    if ij: "i \<le> j \<and> j < length clocks \<and> timer_interval x \<le> fst ((clocks ! j) x) - fst ((clocks ! i) x)" for i j
  proof (cases "\<exists>k. i \<le> k \<and> k < j \<and> timer_job x \<in> set (jobs ! k)")
    case True
    then show ?thesis by auto
  next
    case False
    with ij runs have "timers_at clocks set_at j x = timers_at clocks set_at i x" by (intro timers_stay) auto
    with timer_not_ahead [OF assms(1), of i x] ij have "timer_due x (clocks ! j) (timers_at clocks set_at j)" by (simp add: timer_due_def)
    with ij runs show ?thesis by auto
  qed
  have ends: "main_loop p (map Some cs @ None # rest) s = map (\<lambda>i. main_loop p (map Some cs @ None # rest) s ! i) [0..<length cs] @ [shutdown_jobs p]"
    for p cs s by (induction cs arbitrary: s) (simp_all add: map_upt_Suc del: upt_Suc)
  then show "length jobs = Suc (length clocks)" "last jobs = shutdown_jobs propagation" unfolding jobs
    by (metis length_append_singleton length_map length_upt diff_zero, metis last_snoc)
  show "SaveNode \<notin> set (jobs ! i)" "SavePropagation \<notin> set (jobs ! i)" if "i < length clocks" for i
    using nth [OF that] by (auto simp: pass_jobs_def timed_jobs_def)
qed

text \<open>Passes half a minute apart, over which only the backup timer comes due.\<close>

definition demo_clocks :: "readings list" where
  "demo_clocks = [\<lambda>_. (10, 11), \<lambda>_. (40, 41), \<lambda>_. (71, 72)]"

theorem timed_jobs_run_on_time_witness:
  "\<exists>k \<le> 2. BackupDelivery \<in> set (main_loop True (map Some demo_clocks @ [None]) (\<lambda>_. 0) ! k)"
proof -
  have ok: "clocks_ok demo_clocks (\<lambda>_. 0)" by (auto simp: clocks_ok_def demo_clocks_def nth_Cons' numeral_3_eq_3 less_Suc_eq)
  have "0 \<le> (2 :: nat) \<and> 2 < length demo_clocks \<and>
      timer_interval BackupTimer \<le> fst ((demo_clocks ! 2) BackupTimer) - fst ((demo_clocks ! 0) BackupTimer)"
    by (simp add: demo_clocks_def)
  with timed_jobs_run_on_time [OF ok refl, of BackupTimer True "[]", THEN conjunct2, THEN conjunct1] show ?thesis by fastforce
qed

section \<open>The eviction\<close>

fun line_count :: "expiry_line \<Rightarrow> nat" where
  "line_count (DistroExpired n _ _ _) = n"
| "line_count (BlobsExpired n _ _ _) = n"

fun line_routing :: "expiry_line \<Rightarrow> bytes" where
  "line_routing (DistroExpired _ _ r _) = r"
| "line_routing (BlobsExpired _ _ r _) = r"

text \<open>
  C18: The hourly eviction takes from the queue exactly what waited longer than seven days, and says so:
  nothing younger goes, nothing a pull holds in a page goes, the counts of its lines are, summed, the blobs
  that left, a line is a warning precisely when its routing hash is a distro registered here (a device that
  never pulled), and nothing else of the node changes.
\<close>

theorem eviction_is_accounted:
  assumes "nd_queue node = Some q" and "dq_wf q" and "\<not> nd_poisoned node" and "nd_distros node = Some table"
    and job: "evict_queue_job r t node = (lines, node')"
  shows "\<exists>q'. node' = node\<lparr>nd_queue := Some q'\<rparr> \<and>
    (\<forall>s. \<forall>e \<in> set (bucket_of (dq_queue q') s). t - EVICT_MAX_AGE \<le> pb_enqueued_at e) \<and>
    set (owned q') = {x \<in> set (owned q). t - EVICT_MAX_AGE \<le> pb_enqueued_at (snd x) \<or> x \<in> set (held_owned (dq_held q))} \<and>
    sum_list (map (\<lambda>l. line_count (snd l)) lines) + total_len q' = total_len q \<and>
    (\<forall>l \<in> set lines. fst l = LOG_WARNING \<longleftrightarrow> is_distro (line_routing (snd l)) table)"
proof -
  obtain ex q' where ev: "evict_expired r t EVICT_MAX_AGE q = (ex, q')" by (cases "evict_expired r t EVICT_MAX_AGE q")
  with assms have lines: "lines = expiry_lines ex (\<lambda>routing. routing \<in> registered_distro_hashes table) EVICT_MAX_AGE"
    and node': "node' = node\<lparr>nd_queue := Some q'\<rparr>" by (auto simp: evict_queue_job_def)
  have registered: "routing \<in> registered_distro_hashes table \<longleftrightarrow> is_distro routing table" for routing
    by (auto simp: registered_distro_hashes_def is_distro_def list_ex_iff)
  have counts: "map (\<lambda>l. line_count (snd l)) lines = map ex_count ex" by (simp add: lines expiry_lines_def)
  have warned: "\<forall>l \<in> set lines. fst l = LOG_WARNING \<longleftrightarrow> is_distro (line_routing (snd l)) table"
    by (auto simp: lines expiry_lines_def registered)
  note exact = expiry_exact [OF assms(2) ev]
  show ?thesis unfolding counts
    by (intro exI [of _ q'] conjI node' warned, rule exact [THEN conjunct1], rule exact [THEN conjunct2, THEN conjunct1],
        rule exact [THEN conjunct2, THEN conjunct2, THEN conjunct2])
qed

lemma demo_two_facts: "dq_wf demo_two" by (rule demo_wf(2))

theorem eviction_is_accounted_witness:
  "sum_list (map (\<lambda>l. line_count (snd l)) (fst (evict_queue_job Committed 604820 (demo_fed\<lparr>nd_queue := Some demo_two\<rparr>)))) = 1"
proof -
  let ?node = "demo_fed\<lparr>nd_queue := Some demo_two\<rparr>"
  have node: "nd_queue ?node = Some demo_two" "\<not> nd_poisoned ?node" "nd_distros ?node = Some demo_distros" by (simp_all add: demo_fed_def)
  obtain lines node' where job: "evict_queue_job Committed 604820 ?node = (lines, node')" by (cases "evict_queue_job Committed 604820 ?node")
  from eviction_is_accounted [OF node(1) demo_two_facts node(2,3) job] obtain q' where q': "node' = ?node\<lparr>nd_queue := Some q'\<rparr>"
    "sum_list (map (\<lambda>l. line_count (snd l)) lines) + total_len q' = total_len demo_two" by blast
  have "total_len q' = 1 \<and> total_len demo_two = 2"
    using job unfolding q'(1)
    by (auto simp: evict_queue_job_def demo_fed_def evict_expired_def expired_owned_def EVICT_MAX_AGE_def demo_two_eq demo_defs total_len_def Let_def)
  with q'(2) job show ?thesis by simp
qed

end
