(* ===== verification/ChannelKeys.thy ===== *)
theory ChannelKeys
  imports Msgpack BlobStore
begin

text \<open>
  The keys of a named channel (\<open>rfed/src/channel.rs\<close>), which clients derive from its name. The hash, the two
  key schemes and Reticulum's identity (from its private bundle, encrypting and decrypting) are parameters.
\<close>

record 'i channel_crypto =
  cc_sha :: "bytes \<Rightarrow> bytes"
  cc_x_public :: "bytes \<Rightarrow> bytes"
  cc_ed_public :: "bytes \<Rightarrow> bytes"
  cc_identity :: "bytes \<Rightarrow> string + 'i"
  cc_encrypt :: "'i \<Rightarrow> bytes \<Rightarrow> string + bytes"
  cc_decrypt :: "'i \<Rightarrow> bytes \<Rightarrow> string + bytes"

text \<open>Both secrets are the seed.\<close>

record channel_keypair =
  ck_name :: string
  ck_x_secret :: bytes
  ck_x_public :: bytes
  ck_ed_secret :: bytes
  ck_ed_public :: bytes

definition from_name :: "'i channel_crypto \<Rightarrow> string \<Rightarrow> channel_keypair" where
  "from_name cc name = (let seed = cc_sha cc (bytes_of name) in
     \<lparr>ck_name = name, ck_x_secret = seed, ck_x_public = cc_x_public cc seed, ck_ed_secret = seed, ck_ed_public = cc_ed_public cc seed\<rparr>)"

fun join_dots :: "string list \<Rightarrow> string" where
  "join_dots [] = []"
| "join_dots [s] = s"
| "join_dots (s # t # ss) = s @ ''.'' @ join_dots (t # ss)"

definition from_path :: "'i channel_crypto \<Rightarrow> string list \<Rightarrow> channel_keypair" where
  "from_path cc segments = from_name cc (join_dots segments)"

text \<open>\<open>random\<close> is the 16 bytes drawn.\<close>

definition new_private :: "'i channel_crypto \<Rightarrow> bytes \<Rightarrow> string list \<Rightarrow> channel_keypair" where
  "new_private cc random segments =
     from_name cc (if segments = [] then hex random else hex random @ ''.'' @ join_dots segments)"

definition public_key_bundle :: "channel_keypair \<Rightarrow> bytes" where
  "public_key_bundle k = ck_x_public k @ ck_ed_public k"

definition channel_hash :: "'i channel_crypto \<Rightarrow> channel_keypair \<Rightarrow> bytes" where
  "channel_hash cc k = take 16 (cc_sha cc (public_key_bundle k))"

definition to_identity :: "'i channel_crypto \<Rightarrow> channel_keypair \<Rightarrow> string + 'i" where
  "to_identity cc k = cc_identity cc (ck_x_secret k @ ck_ed_secret k)"

definition channel_encrypt :: "'i channel_crypto \<Rightarrow> channel_keypair \<Rightarrow> bytes \<Rightarrow> string + bytes" where
  "channel_encrypt cc k d = (case to_identity cc k of Inl e \<Rightarrow> Inl e | Inr i \<Rightarrow> cc_encrypt cc i d)"

definition channel_decrypt :: "'i channel_crypto \<Rightarrow> channel_keypair \<Rightarrow> bytes \<Rightarrow> string + bytes" where
  "channel_decrypt cc k d = (case to_identity cc k of Inl e \<Rightarrow> Inl e | Inr i \<Rightarrow> cc_decrypt cc i d)"

section \<open>Names\<close>

lemma join_dots_Cons: "ss \<noteq> [] \<Longrightarrow> join_dots (s # ss) = s @ ''.'' @ join_dots ss"
  by (cases ss) simp_all

lemma dot_prefix:
  assumes "s @ CHR ''.'' # xs = t @ CHR ''.'' # ys" and "CHR ''.'' \<notin> set s" and "CHR ''.'' \<notin> set t"
  shows "s = t \<and> xs = ys"
  using assms
proof (induction s arbitrary: t)
  case Nil
  then show ?case by (cases t) auto
next
  case (Cons a s)
  then show ?case by (cases t) auto
qed

text \<open>A channel made from a path is that of no other path, so long as no segment has a dot in it.\<close>

lemma paths_have_names_of_their_own:
  assumes "join_dots ss = join_dots ts" and "ss \<noteq> []" and "ts \<noteq> []"
    and "\<forall>s \<in> set ss \<union> set ts. CHR ''.'' \<notin> set s"
  shows "ss = ts"
  using assms
proof (induction ss arbitrary: ts)
  case (Cons s ss)
  obtain t ts' where ts: "ts = t # ts'" using Cons.prems(3) by (cases ts) auto
  show ?case
  proof (cases "ss = [] \<or> ts' = []")
    case True
    with Cons.prems ts show ?thesis by (cases ss; cases ts') auto
  next
    case False
    with Cons.prems(1) ts have "s @ CHR ''.'' # join_dots ss = t @ CHR ''.'' # join_dots ts'" by (simp add: join_dots_Cons)
    from dot_prefix [OF this] Cons.prems(4) ts have "s = t" "join_dots ss = join_dots ts'" by auto
    with Cons.IH [of ts'] Cons.prems(4) False ts show ?thesis by auto
  qed
qed simp

text \<open>With dots in them, segments run together.\<close>

lemma dotted_segments_collide: "from_path cc [''a.b'', ''c''] = from_path cc [''a'', ''b.c'']"
  by (simp add: from_path_def)

text \<open>Whoever has the name of a private channel has its keys: the name holds all that was drawn.\<close>

lemma private_name_is_the_channel: "new_private cc random segments = from_name cc (ck_name (new_private cc random segments))"
  by (simp add: new_private_def from_name_def Let_def)

end
