(* ===== verification/SyncWorker.thy ===== *)
theory SyncWorker
  imports PeerBudget
begin

text \<open>
  The worker of outbound peer sync (\<open>start_sync_worker\<close>, \<open>handle_sync_event\<close>, \<open>sync_peer\<close>, \<open>on_offer_response\<close>
  and \<open>on_resource_concluded\<close> of \<open>rfed/src/lxmf_propagation.rs\<close>): one thread takes every event, and
  each event is one or more of the handlers of \<open>PeerSessions\<close>, with the node's lock given up between them.
  Every event is shown to be a run of \<open>sync_step\<close>, so what holds of every run holds of the worker.
\<close>

datatype sync_event =
    StartSync bytes
  | LinkActive bytes bytes
  | LinkDown bytes
  | OfferResponse bytes nat "answer_value option"
  | OfferFailed bytes nat
  | ResourceConcluded bytes nat bool nat

text \<open>
  What an event's handling reads and is answered. \<open>wi_clock k\<close> is the monotonic clock and \<open>wi_others k\<close> what
  other threads have done to the node when the worker takes the lock for the event (0), takes it again for the
  next handler (1) and once more (2).
\<close>

record worker_io =
  wi_clock :: "nat \<Rightarrow> secs"
  wi_others :: "nat \<Rightarrow> sync_node \<Rightarrow> sync_node"
  wi_t :: "nat \<Rightarrow> secs"
  wi_held :: "nat \<Rightarrow> bool"
  wi_held_others :: bool
  wi_active :: "nat \<Rightarrow> bytes option"
  wi_attempt_live :: bool
  wi_path :: "bytes \<Rightarrow> propagation_entry \<Rightarrow> string"
  wi_read :: "string \<Rightarrow> file_read"
  wi_refused :: bool
  wi_identified :: bool
  wi_requested :: bool
  wi_resource_max :: nat

text \<open>\<open>sync_peer\<close>: the offer is planned with the node released.\<close>

definition sync_peer :: "worker_io \<Rightarrow> bytes \<Rightarrow> sync_node \<Rightarrow> sync_act list \<times> sync_node" where
  "sync_peer io h n =
     (let (prepared, acts, n1) = prepare_sync (wi_t io 1) (wi_held io 1) (wi_active io 1) h n
      in case prepared of
           None \<Rightarrow> (acts, n1)
         | Some p \<Rightarrow>
             (let plan = plan_offer (wi_resource_max io) (po_candidates p) (po_transfer_limit p) (po_sync_limit p) MAX_OFFER_IDS;
                  (acts', n2) = send_offer (wi_clock io 2) (wi_t io 2) (wi_held io 2) (wi_identified io) (wi_requested io)
                     h (po_session p) plan (wi_others io 2 n1)
              in (acts @ acts', n2)))"

text \<open>A Resource the link refuses comes back under the lock taken again.\<close>

definition send_resource :: "worker_io \<Rightarrow> bytes \<Rightarrow> nat \<Rightarrow> (bytes \<times> string) list \<Rightarrow> sync_node \<Rightarrow> sync_act list \<times> sync_node" where
  "send_resource io h session files n =
     (let (acts, n1) = send_sync_resource (wi_clock io 1) (wi_t io 1) (wi_path io) (wi_read io) h session files n
      in if wi_refused io \<and> sent_by (wi_clock io 1) acts \<noteq> []
         then (let (acts', n2) = resource_refused h session (wi_others io 2 n1) in (acts @ acts', n2))
         else (acts, n1))"

definition on_offer_response :: "worker_io \<Rightarrow> bytes \<Rightarrow> nat \<Rightarrow> answer_value option \<Rightarrow> sync_node \<Rightarrow> sync_act list \<times> sync_node" where
  "on_offer_response io h session answer n =
     (let (reply, acts, n1) = apply_offer_response (wi_t io 0) (wi_path io) h session answer n
      in case reply of
           OfferDone \<Rightarrow> (acts, n1)
         | OfferResync \<Rightarrow> (let (acts', n2) = sync_peer io h (wi_others io 1 n1) in (acts @ acts', n2))
         | OfferSend files \<Rightarrow> (let (acts', n2) = send_resource io h session files (wi_others io 1 n1) in (acts @ acts', n2)))"

definition then_sync :: "worker_io \<Rightarrow> bytes \<Rightarrow> bool \<times> sync_act list \<times> sync_node \<Rightarrow> sync_act list \<times> sync_node" where
  "then_sync io h r = (case r of (again, acts, n1) \<Rightarrow>
     if again then (let (acts', n2) = sync_peer io h (wi_others io 1 n1) in (acts @ acts', n2)) else (acts, n1))"

definition handle_sync_event :: "worker_io \<Rightarrow> sync_event \<Rightarrow> sync_node \<Rightarrow> sync_act list \<times> sync_node" where
  "handle_sync_event io event n = (case event of
      StartSync h \<Rightarrow> sync_peer io h n
    | LinkActive h link \<Rightarrow> then_sync io h (on_link_active (wi_active io 0) h link n)
    | LinkDown h \<Rightarrow> on_link_down (wi_attempt_live io) (wi_active io 0) h n
    | OfferResponse h session answer \<Rightarrow> on_offer_response io h session answer n
    | OfferFailed h session \<Rightarrow> on_offer_failed h session n
    | ResourceConcluded h session completed bytes_sent \<Rightarrow>
        then_sync io h (apply_resource_outcome (wi_clock io 0) (wi_t io 0) (wi_held io 0) (wi_held_others io) (wi_active io 0)
          h session completed bytes_sent n))"

text \<open>The worker's loop: each event is taken from the channel when the one before it is done.\<close>

fun run_worker :: "(worker_io \<times> sync_event) list \<Rightarrow> sync_node \<Rightarrow> (secs \<times> nat) list \<times> sync_node" where
  "run_worker [] n = ([], n)"
| "run_worker ((io, event) # events) n =
     (let (acts, n1) = handle_sync_event io event (wi_others io 0 n); (sent, n2) = run_worker events n1
      in (sent_by (wi_clock io 1) acts @ sent, n2))"

section \<open>What other threads do meanwhile\<close>

text \<open>
  The ticks, the announces, storing and expiring: a run of steps of their own, which hands no message to a link
  and leaves the messages the worker is about to send alone.
\<close>

definition others_run :: "worker_io \<Rightarrow> nat \<Rightarrow> bool" where
  "others_run io k \<longleftrightarrow> (\<forall>w. sw_clock w \<le> wi_clock io k \<longrightarrow>
     (\<exists>w'. sync_step\<^sup>*\<^sup>* w w' \<and> sw_node w' = wi_others io k (sw_node w) \<and> sw_pending w' = sw_pending w \<and>
        sw_hist w' = sw_hist w \<and> sw_clock w' \<le> wi_clock io k))"

definition event_ids_once :: "sync_event \<Rightarrow> bool" where
  "event_ids_once event = (case event of OfferResponse _ _ answer \<Rightarrow> answer_ids_once answer | _ \<Rightarrow> True)"

fun worker_env :: "secs \<Rightarrow> (worker_io \<times> sync_event) list \<Rightarrow> bool" where
  "worker_env m [] = True"
| "worker_env m ((io, event) # events) \<longleftrightarrow>
     m \<le> wi_clock io 0 \<and> wi_clock io 0 \<le> wi_clock io 1 \<and> wi_clock io 1 \<le> wi_clock io 2 \<and>
     others_run io 0 \<and> others_run io 1 \<and> others_run io 2 \<and> event_ids_once event \<and> worker_env (wi_clock io 2) events"

section \<open>Every event is a run\<close>

text \<open>Steps lead from \<open>w\<close> to the node \<open>n\<close> by the time \<open>m\<close>, with \<open>sent\<close> handed to the links on the way.\<close>

definition took :: "sync_world \<Rightarrow> secs \<Rightarrow> sync_node \<Rightarrow> (bytes \<times> nat \<times> (bytes \<times> string) list) option \<Rightarrow> (secs \<times> nat) list \<Rightarrow> bool" where
  "took w m n pending sent \<longleftrightarrow> (\<exists>w'. sync_step\<^sup>*\<^sup>* w w' \<and> sw_node w' = n \<and> sw_pending w' = pending \<and>
     sw_hist w' = sw_hist w @ sent \<and> sw_clock w' \<le> m)"

lemma took_later: "took w m n pending sent \<Longrightarrow> m \<le> m' \<Longrightarrow> took w m' n pending sent"
  unfolding took_def using order_trans by blast

lemma took_others:
  assumes "took w m n pending sent" and "others_run io k" and "m \<le> wi_clock io k"
  shows "took w (wi_clock io k) (wi_others io k n) pending sent"
proof -
  obtain v where v: "sync_step\<^sup>*\<^sup>* w v" "sw_node v = n" "sw_pending v = pending" "sw_hist v = sw_hist w @ sent" "sw_clock v \<le> m"
    using assms(1) by (auto simp: took_def)
  then obtain u where "sync_step\<^sup>*\<^sup>* v u" "sw_node u = wi_others io k n" "sw_pending u = pending" "sw_hist u = sw_hist v"
      "sw_clock u \<le> wi_clock io k"
    using assms(2,3) unfolding others_run_def by (metis order_trans)
  with v show ?thesis unfolding took_def by (metis rtranclp_trans)
qed

lemma took_step:
  assumes "took w m n pending sent" and "m \<le> m'"
    and "\<And>v. sw_clock v \<le> m' \<Longrightarrow> sw_pending v = pending \<Longrightarrow> sw_node v = n \<Longrightarrow> sync_step v (after m' n' acts pending' v)"
  shows "took w m' n' pending' (sent @ sent_by m' acts)"
proof -
  obtain v where v: "sync_step\<^sup>*\<^sup>* w v" "sw_node v = n" "sw_pending v = pending" "sw_hist v = sw_hist w @ sent" "sw_clock v \<le> m"
    using assms(1) by (auto simp: took_def)
  then have "sync_step v (after m' n' acts pending' v)" using assms(2,3) by simp
  then have "sync_step\<^sup>*\<^sup>* w (after m' n' acts pending' v)" using v(1) by (rule rtranclp.rtrancl_into_rtrancl [rotated])
  with v show ?thesis unfolding took_def by (auto simp: after_def intro!: exI [of _ "after m' n' acts pending' v"])
qed

lemma took_sync_peer:
  assumes at: "took w m n None sent" and clocks: "m \<le> wi_clock io 1" "wi_clock io 1 \<le> wi_clock io 2" and others: "others_run io 2"
  shows "took w (wi_clock io 2) (snd (sync_peer io h n)) None sent \<and> sent_by c (fst (sync_peer io h n)) = []"
proof -
  obtain prepared acts n1 where p: "prepare_sync (wi_t io 1) (wi_held io 1) (wi_active io 1) h n = (prepared, acts, n1)"
    using prod_cases3 by blast
  have quiet: "sent_by x acts = []" for x
    using sent_prepare [of x "wi_t io 1" "wi_held io 1" "wi_active io 1" h n] p by simp
  have one: "took w (wi_clock io 1) n1 None sent"
    using took_step [OF at clocks(1), of n1 acts None] p quiet by (auto intro: sync_step.start)
  show ?thesis
  proof (cases prepared)
    case None
    then show ?thesis using one clocks(2) p quiet by (auto simp: sync_peer_def intro: took_later)
  next
    case (Some q)
    define plan where "plan = plan_offer (wi_resource_max io) (po_candidates q) (po_transfer_limit q) (po_sync_limit q) MAX_OFFER_IDS"
    obtain acts' n2 where s: "send_offer (wi_clock io 2) (wi_t io 2) (wi_held io 2) (wi_identified io) (wi_requested io)
        h (po_session q) plan (wi_others io 2 n1) = (acts', n2)" by (rule prod.exhaust)
    have quiet': "sent_by x acts' = []" for x
      using sent_offer [of x "wi_clock io 2" "wi_t io 2" "wi_held io 2" "wi_identified io" "wi_requested io" h "po_session q" plan
          "wi_others io 2 n1"] s by simp
    have "took w (wi_clock io 2) (wi_others io 2 n1) None sent" by (rule took_others [OF one others clocks(2)])
    then have "took w (wi_clock io 2) n2 None (sent @ sent_by (wi_clock io 2) acts')"
    proof (rule took_step)
      fix v :: sync_world
      assume v: "sw_clock v \<le> wi_clock io 2" "sw_pending v = None" "sw_node v = wi_others io 2 n1"
      show "sync_step v (after (wi_clock io 2) n2 acts' None v)"
        by (rule sync_step.offer [OF v(1,2) s [folded v(3)]])
    qed simp
    then show ?thesis using Some p s quiet quiet' by (simp add: sync_peer_def plan_def)
  qed
qed

lemma took_send_resource:
  assumes at: "took w m n (Some (h, session, files)) sent" and clocks: "m \<le> wi_clock io 1" "wi_clock io 1 \<le> wi_clock io 2"
    and others: "others_run io 2"
  shows "took w (wi_clock io 2) (snd (send_resource io h session files n)) None
    (sent @ sent_by (wi_clock io 1) (fst (send_resource io h session files n)))"
proof -
  obtain acts n1 where s: "send_sync_resource (wi_clock io 1) (wi_t io 1) (wi_path io) (wi_read io) h session files n = (acts, n1)"
    by (rule prod.exhaust)
  obtain acts' n2 where r: "resource_refused h session (wi_others io 2 n1) = (acts', n2)" by (rule prod.exhaust)
  have quiet: "sent_by x acts' = []" for x using sent_links(1) [of x h session "wi_others io 2 n1"] r by simp
  have one: "took w (wi_clock io 1) n1 None (sent @ sent_by (wi_clock io 1) acts)"
    using at clocks(1)
  proof (rule took_step)
    fix v :: sync_world
    assume v: "sw_clock v \<le> wi_clock io 1" "sw_pending v = Some (h, session, files)" "sw_node v = n"
    show "sync_step v (after (wi_clock io 1) n1 acts None v)"
      by (rule sync_step.resource [OF v(1,2) s [folded v(3)]])
  qed
  then have "took w (wi_clock io 2) (wi_others io 2 n1) None (sent @ sent_by (wi_clock io 1) acts)"
    using others clocks(2) by (rule took_others)
  then have "took w (wi_clock io 2) n2 None ((sent @ sent_by (wi_clock io 1) acts) @ sent_by (wi_clock io 2) acts')"
  proof (rule took_step)
    fix v :: sync_world
    assume v: "sw_clock v \<le> wi_clock io 2" "sw_pending v = None" "sw_node v = wi_others io 2 n1"
    show "sync_step v (after (wi_clock io 2) n2 acts' None v)"
      by (rule sync_step.refused [OF v(1,2) r [folded v(3)]])
  qed simp
  then show ?thesis using took_later [OF one clocks(2)] s r quiet by (simp add: send_resource_def)
qed

lemma took_then_sync:
  assumes at: "took w (wi_clock io 0) n1 None sent" and quiet: "\<And>x. sent_by x acts = []"
    and clocks: "wi_clock io 0 \<le> wi_clock io 1" "wi_clock io 1 \<le> wi_clock io 2" and others: "others_run io 1" "others_run io 2"
  shows "took w (wi_clock io 2) (snd (then_sync io h (again, acts, n1))) None
    (sent @ sent_by c (fst (then_sync io h (again, acts, n1))))"
proof (cases again)
  case True
  have "took w (wi_clock io 1) (wi_others io 1 n1) None sent" by (rule took_others [OF at others(1) clocks(1)])
  then have "took w (wi_clock io 2) (snd (sync_peer io h (wi_others io 1 n1))) None sent \<and>
      sent_by c (fst (sync_peer io h (wi_others io 1 n1))) = []" by (rule took_sync_peer) (use clocks others in auto)
  then show ?thesis using True quiet by (simp add: then_sync_def case_prod_beta)
next
  case False
  then show ?thesis using took_later [OF at, of "wi_clock io 2"] clocks quiet by (simp add: then_sync_def)
qed

lemma took_offer_response:
  assumes at: "took w (wi_clock io 0) n None sent" and once: "answer_ids_once answer"
    and clocks: "wi_clock io 0 \<le> wi_clock io 1" "wi_clock io 1 \<le> wi_clock io 2" and others: "others_run io 1" "others_run io 2"
  shows "took w (wi_clock io 2) (snd (on_offer_response io h session answer n)) None
    (sent @ sent_by (wi_clock io 1) (fst (on_offer_response io h session answer n)))"
proof -
  obtain reply acts n1 where a: "apply_offer_response (wi_t io 0) (wi_path io) h session answer n = (reply, acts, n1)"
    using prod_cases3 by blast
  have quiet: "sent_by x acts = []" for x using sent_answer [of x "wi_t io 0" "wi_path io" h session answer n] a by simp
  have "took w (wi_clock io 0) n1 (pending_of h session reply) (sent @ sent_by (wi_clock io 0) acts)"
    using at order_refl
  proof (rule took_step)
    fix v :: sync_world
    assume "sw_clock v \<le> wi_clock io 0" "sw_pending v = None" "sw_node v = n"
    then show "sync_step v (after (wi_clock io 0) n1 acts (pending_of h session reply) v)"
      using once a by (auto intro: sync_step.answer)
  qed
  then have one: "took w (wi_clock io 0) n1 (pending_of h session reply) sent" using quiet by simp
  then have two: "took w (wi_clock io 1) (wi_others io 1 n1) (pending_of h session reply) sent"
    using others(1) clocks(1) by (rule took_others)
  show ?thesis
  proof (cases reply)
    case OfferDone
    then show ?thesis using took_later [OF one, of "wi_clock io 2"] a quiet clocks by (simp add: on_offer_response_def pending_of_def)
  next
    case OfferResync
    then have "took w (wi_clock io 2) (snd (sync_peer io h (wi_others io 1 n1))) None sent \<and>
        sent_by (wi_clock io 1) (fst (sync_peer io h (wi_others io 1 n1))) = []"
      using two clocks(2) others(2) by (intro took_sync_peer) (auto simp: pending_of_def)
    then show ?thesis using OfferResync a quiet by (simp add: on_offer_response_def case_prod_beta)
  next
    case (OfferSend files)
    then have "took w (wi_clock io 2) (snd (send_resource io h session files (wi_others io 1 n1))) None
        (sent @ sent_by (wi_clock io 1) (fst (send_resource io h session files (wi_others io 1 n1))))"
      using two clocks(2) others(2) by (intro took_send_resource) (auto simp: pending_of_def)
    then show ?thesis using OfferSend a quiet by (simp add: on_offer_response_def case_prod_beta)
  qed
qed

lemma took_event:
  assumes at: "took w (wi_clock io 0) n None sent" and once: "event_ids_once event"
    and clocks: "wi_clock io 0 \<le> wi_clock io 1" "wi_clock io 1 \<le> wi_clock io 2" and others: "others_run io 1" "others_run io 2"
  shows "took w (wi_clock io 2) (snd (handle_sync_event io event n)) None
    (sent @ sent_by (wi_clock io 1) (fst (handle_sync_event io event n)))"
proof (cases event)
  case (StartSync h)
  have "took w (wi_clock io 1) n None sent" by (rule took_later [OF at clocks(1)])
  then have "took w (wi_clock io 2) (snd (sync_peer io h n)) None sent \<and> sent_by (wi_clock io 1) (fst (sync_peer io h n)) = []"
    by (rule took_sync_peer) (use clocks others in auto)
  then show ?thesis using StartSync by (simp add: handle_sync_event_def)
next
  case (LinkActive h link)
  obtain again acts n1 where a: "on_link_active (wi_active io 0) h link n = (again, acts, n1)" using prod_cases3 by blast
  have quiet: "sent_by x acts = []" for x using sent_links(3) [of x "wi_active io 0" h link n] a by simp
  have "took w (wi_clock io 0) n1 None (sent @ sent_by (wi_clock io 0) acts)"
    using at order_refl by (rule took_step) (use a in \<open>auto intro: sync_step.link_up\<close>)
  then show ?thesis using took_then_sync [OF _ quiet clocks others] LinkActive a quiet by (simp add: handle_sync_event_def)
next
  case (LinkDown h)
  obtain acts n1 where a: "on_link_down (wi_attempt_live io) (wi_active io 0) h n = (acts, n1)" by (rule prod.exhaust)
  have quiet: "sent_by x acts = []" for x using sent_links(4) [of x "wi_attempt_live io" "wi_active io 0" h n] a by simp
  have "took w (wi_clock io 0) n1 None (sent @ sent_by (wi_clock io 0) acts)"
    using at order_refl by (rule took_step) (use a in \<open>auto intro: sync_step.link_down\<close>)
  then show ?thesis using LinkDown a quiet clocks by (auto simp: handle_sync_event_def intro: took_later)
next
  case (OfferResponse h session answer)
  then show ?thesis using took_offer_response [OF at _ clocks others] once by (simp add: handle_sync_event_def event_ids_once_def)
next
  case (OfferFailed h session)
  obtain acts n1 where a: "on_offer_failed h session n = (acts, n1)" by (rule prod.exhaust)
  have quiet: "sent_by x acts = []" for x using sent_links(2) [of x h session n] a by simp
  have "took w (wi_clock io 0) n1 None (sent @ sent_by (wi_clock io 0) acts)"
    using at order_refl by (rule took_step) (use a in \<open>auto intro: sync_step.offer_failed\<close>)
  then show ?thesis using OfferFailed a quiet clocks by (auto simp: handle_sync_event_def intro: took_later)
next
  case (ResourceConcluded h session completed bytes_sent)
  obtain again acts n1 where a: "apply_resource_outcome (wi_clock io 0) (wi_t io 0) (wi_held io 0) (wi_held_others io)
      (wi_active io 0) h session completed bytes_sent n = (again, acts, n1)" using prod_cases3 by blast
  have quiet: "sent_by x acts = []" for x
    using sent_outcome [of x "wi_clock io 0" "wi_t io 0" "wi_held io 0" "wi_held_others io" "wi_active io 0" h session completed
        bytes_sent n] a by simp
  have "took w (wi_clock io 0) n1 None (sent @ sent_by (wi_clock io 0) acts)"
    using at order_refl by (rule took_step) (use a in \<open>auto intro: sync_step.concluded\<close>)
  then show ?thesis using took_then_sync [OF _ quiet clocks others] ResourceConcluded a quiet by (simp add: handle_sync_event_def)
qed

lemma took_worker:
  assumes "took w m n None sent" and "worker_env m events"
  shows "\<exists>m'. took w m' (snd (run_worker events n)) None (sent @ fst (run_worker events n))"
  using assms
proof (induction events n arbitrary: m sent rule: run_worker.induct)
  case (1 n)
  then show ?case by auto
next
  case (2 io event events n)
  have "took w (wi_clock io 0) (wi_others io 0 n) None sent" using 2(2,3) by (intro took_others) auto
  then have "took w (wi_clock io 2) (snd (handle_sync_event io event (wi_others io 0 n))) None
      (sent @ sent_by (wi_clock io 1) (fst (handle_sync_event io event (wi_others io 0 n))))"
    by (rule took_event) (use 2(3) in auto)
  then show ?case using 2(1) [OF refl prod.collapse] 2(3)
    by (force simp: case_prod_beta)
qed

lemma run_steps: "sync_step\<^sup>*\<^sup>* v u \<Longrightarrow> sync_run w v \<Longrightarrow> sync_run w u"
  by (induction rule: rtranclp_induct) (auto intro: run_step)

section \<open>The worker\<close>

text \<open>
  C11: The sync worker refines the step relation. Take any events, in any order, with no offer answered by a
  list that names an id twice; with the clock of each lock taken not behind the one before; and with other
  threads at the node before each event and every time an event's handling gives the lock up, whose work is
  itself a run of steps that hands no message to a link. Then the node is left where a run of the single steps
  leaves it, no message still to be sent, and the messages that run hands to the links are the worker's. So in
  every 60 seconds the worker hands out at most the node's budget. Without the condition on the answers the
  budget can be exceeded, \<open>duplicate_answer_breaks_budget\<close>.
\<close>

theorem worker_refines_steps:
  assumes "sync_run w v" and "sw_pending v = None" and "worker_env (sw_clock v) events"
    and "run_worker events (sw_node v) = (sent, n)"
  shows "\<exists>u. sync_run w u \<and> sw_node u = n \<and> sw_pending u = None \<and> sw_hist u = sw_hist v @ sent \<and>
    sent_between (T - OUTBOUND_BUDGET_WINDOW_SECS) T sent \<le> sn_budget n"
proof -
  have "took v (sw_clock v) (sw_node v) None []" using assms(2) by (auto simp: took_def)
  from took_worker [OF this assms(3)] obtain m where "took v m n None sent" using assms(4) by auto
  then obtain u where u: "sync_step\<^sup>*\<^sup>* v u" "sw_node u = n" "sw_pending u = None" "sw_hist u = sw_hist v @ sent"
    unfolding took_def by blast
  have run: "sync_run w u" by (rule run_steps [OF u(1) assms(1)])
  have "sent_between (T - OUTBOUND_BUDGET_WINDOW_SECS) T (sw_hist u) \<le> sn_budget n"
    using sync_run_within_budget [OF run] u(2) unfolding within_budget_def by blast
  then have "sent_between (T - OUTBOUND_BUDGET_WINDOW_SECS) T sent \<le> sn_budget n" using u(4) by simp
  then show ?thesis using run u by blast
qed

text \<open>The session of one message, from the tick's choice to the Resource, with nothing else going on.\<close>

definition quiet_io :: "secs \<Rightarrow> secs \<Rightarrow> bytes option \<Rightarrow> worker_io" where
  "quiet_io m t active = \<lparr>wi_clock = (\<lambda>k. m + of_nat k), wi_others = (\<lambda>_ n. n), wi_t = (\<lambda>_. t), wi_held = (\<lambda>_. False),
     wi_held_others = False, wi_active = (\<lambda>_. active), wi_attempt_live = True, wi_path = demo_path,
     wi_read = (\<lambda>_. FileRead [3]), wi_refused = False, wi_identified = True, wi_requested = True, wi_resource_max = 1000000\<rparr>"

definition demo_events :: "(worker_io \<times> sync_event) list" where
  "demo_events = [(quiet_io 89 5000 None, StartSync [1]), (quiet_io 91 5001 (Some [2]), LinkActive [1] [2]),
     (quiet_io 94 5002 (Some [2]), OfferResponse [1] 2 (Some (AnswerBool True)))]"

lemma quiet_others: "others_run (quiet_io m t active) k"
  unfolding others_run_def quiet_io_def by auto

lemma demo_start: "handle_sync_event (quiet_io 89 5000 None) (StartSync [1]) (demo_node demo_peer []) =
    ([OpenLink [1]], demo_node demo_opening [])"
  by (simp add: handle_sync_event_def sync_peer_def quiet_io_def demo_opens)

definition demo_heard :: prop_peer where
  "demo_heard = demo_up\<lparr>pp_alive := True, pp_last_heard := 5001, pp_last_attempt := 5001, pp_backoff := 0\<rparr>"

definition demo_reserved :: prop_peer where
  "demo_reserved = demo_heard\<lparr>pp_identified := Some [2], pp_session := 2, pp_last_offer := [demo_id], pp_reserved := 1,
     pp_state := REQUEST_SENT\<rparr>"

definition demo_granted :: prop_peer where
  "demo_granted = demo_reserved\<lparr>pp_last_offer := [], pp_state := RESOURCE_TRANSFERRING\<rparr>"

definition demo_gone :: prop_peer where
  "demo_gone = demo_granted\<lparr>pp_transferring := Some [demo_id], pp_started := Some 5002, pp_reserved := 0, pp_turn_sent := 1\<rparr>"

lemma demo_prepared:
  "case prepare_sync 5001 False (Some [2]) [1] (demo_node demo_up []) of (prepared, acts, n) \<Rightarrow>
     map_option (\<lambda>p. (po_session p, map (\<lambda>c. (oc_tid c, oc_size c)) (po_candidates p), po_transfer_limit p, po_sync_limit p)) prepared =
       Some (1, [(demo_id, 100)], None, None) \<and> acts = [] \<and> n = demo_node demo_heard []"
  by code_simp

lemma demo_plans:
  assumes "map (\<lambda>c. (oc_tid c, oc_size c)) cs = [(demo_id, 100)]"
  shows "plan_offer 1000000 cs None None MAX_OFFER_IDS = demo_plan\<lparr>op_estimated := BATCH_OVERHEAD + (100 + PER_MESSAGE_OVERHEAD)\<rparr>"
  using assms
  by (auto simp: plan_offer_def plan_one_def map_eq_Cons_conv demo_plan_def MAX_OFFER_IDS_def BATCH_OVERHEAD_def PER_MESSAGE_OVERHEAD_def)

lemma demo_offers_planned:
  "send_offer 93 5001 False True True [1] 1 (demo_plan\<lparr>op_estimated := x\<rparr>) (demo_node demo_heard []) =
    ([Identify [1] [2], RequestOffer [1] [2] 2 [9] [demo_id]], demo_node demo_reserved [])"
  by code_simp
lemma demo_grants: "apply_offer_response 5002 demo_path [1] 2 (Some (AnswerBool True)) (demo_node demo_reserved []) =
    (OfferSend [(demo_id, ''five'')], [], demo_node demo_granted [])"
  by code_simp
lemma demo_goes: "send_sync_resource 95 5002 demo_path (\<lambda>_. FileRead [3]) [1] 2 [(demo_id, ''five'')] (demo_node demo_granted []) =
    ([SendResource [1] [2] 2 [demo_id]], demo_node demo_gone [(95, 1)])"
  by code_simp

lemma demo_link_event: "handle_sync_event (quiet_io 91 5001 (Some [2])) (LinkActive [1] [2]) (demo_node demo_opening []) =
    ([Identify [1] [2], RequestOffer [1] [2] 2 [9] [demo_id]], demo_node demo_reserved [])"
proof -
  obtain p where "prepare_sync 5001 False (Some [2]) [1] (demo_node demo_up []) = (Some p, [], demo_node demo_heard [])"
    and "po_session p = 1" and "map (\<lambda>c. (oc_tid c, oc_size c)) (po_candidates p) = [(demo_id, 100)]"
    and "po_transfer_limit p = None" and "po_sync_limit p = None"
    using demo_prepared by (auto split: prod.splits)
  then show ?thesis using demo_offers_planned [simplified]
    by (simp add: handle_sync_event_def then_sync_def sync_peer_def quiet_io_def demo_link_up demo_plans)
qed

lemma demo_answer_event:
  "handle_sync_event (quiet_io 94 5002 (Some [2])) (OfferResponse [1] 2 (Some (AnswerBool True))) (demo_node demo_reserved []) =
    ([SendResource [1] [2] 2 [demo_id]], demo_node demo_gone [(95, 1)])"
  by (simp add: handle_sync_event_def on_offer_response_def send_resource_def quiet_io_def demo_grants demo_goes)

lemma demo_worker: "run_worker demo_events (demo_node demo_peer []) = ([(95, 1)], demo_node demo_gone [(95, 1)])"
  using demo_start demo_link_event demo_answer_event
  by (simp add: demo_events_def quiet_io_def)

lemma worker_refines_steps_witness:
  "\<exists>u. sync_run demo_world u \<and> sw_node u = demo_node demo_gone [(95, 1)] \<and> sw_pending u = None \<and> sw_hist u = [(95, 1)] \<and>
    sent_between (95 - OUTBOUND_BUDGET_WINDOW_SECS) 95 [(95, 1)] \<le> sn_budget (demo_node demo_gone [(95, 1)])"
proof -
  have run: "sync_run demo_world demo_world"
    by (rule run_start) (simp add: fresh_world_def demo_world_def demo_node_def demo_peer_def new_prop_peer_def hkeys_distinct_def)
  have env: "worker_env (sw_clock demo_world) demo_events"
    by (simp add: demo_events_def quiet_others event_ids_once_def answer_ids_once_def demo_world_def) (simp add: quiet_io_def)
  show ?thesis
    using worker_refines_steps [OF run _ env, of "[(95, 1)]" "demo_node demo_gone [(95, 1)]" 95] demo_worker
    by (simp add: demo_world_def)
qed

end
