(* ===== verification/Spec2Isabelle.thy ===== *)
theory Spec2Isabelle
  imports DeferredQueue_Props FedSync Notify_Props LiveSessions_Props Handoff_Props Fanout_Props DistroFanout
    PropEntries_Props LocallyProcessed_Props Peering_Props MessageStore_Props FedNode_Props InboundSync_Props Ingest_Props
    Settings_Props Bridges_Props PeersFile_Props Announces_Props NodeStart_Props MainLoop_Props ChannelKeys SyncWorker
begin

text \<open>
  A model of RFed: a federation node for Reticulum that keeps and delivers channel posts and messages to
  devices (\<open>rfed/src\<close>), and the two bridges that turn its wakes into push notifications
  (\<open>apns-bridge/src\<close>, \<open>fcm-bridge/src\<close>).

  The program. Clients subscribe to channels and register distros (one address, several devices). A post
  or a message that comes in is stored (\<open>blob_store\<close>, or the messagestore of the \<open>lxmf.propagation\<close>
  node), then fanned out: to each recipient on its live session (\<open>link_session\<close>, \<open>stream_registry\<close>), in
  a packet, or handed off, that is queued (\<open>deferred_queue\<close>) and woken (\<open>notify\<close>, over a relay, to a
  bridge). A recipient pulls what is queued in pages, or gets it when its announce is heard. Nodes sync
  their blobs among them (\<open>sync\<close>) and a backup node stands in for an owner that is away; propagation
  nodes offer each other their messages, within limits and a budget. The node's tables are each behind a
  mutex of their own and written to a database as they change; \<open>main\<close> reads the settings, starts the
  node and runs its timed jobs.

  Theories and code.

  \<^item> \<open>RFed_Prelude\<close> (hash maps, lists, the contracts \<open>key_value_map\<close>, \<open>keyed_table\<close> and
    \<open>mirrored_store\<close>), \<open>Msgpack\<close> (decoded values, UTF-8), \<open>StoreDb\<close> (\<open>store_db.rs\<close>: transactions and the
    import of earlier files).
  \<^item> \<open>DeferredQueue\<close> with \<open>_Inv\<close>, \<open>_Steps\<close>, \<open>_Runs\<close>, \<open>_Props\<close> (\<open>deferred_queue.rs\<close>): the queue, its pages,
    tickets and rows; the invariants of every reachable queue; what each operation moves.
  \<^item> \<open>Subscription\<close> (\<open>subscription.rs\<close>), \<open>DistroTables\<close> (\<open>distro.rs\<close>), \<open>Notify\<close> with \<open>_Props\<close> (\<open>notify/mod.rs\<close>,
    \<open>notify/rns.rs\<close>): the tables. Each interprets \<open>mirrored_store\<close>, which gives that a restart reads back
    what was there. \<open>BlobStore\<close> (\<open>blob_store.rs\<close>), \<open>FedSync\<close> (\<open>sync.rs\<close>): blobs and the sync of nodes.
  \<^item> \<open>PushOutcome\<close>, \<open>LiveSessions\<close> with \<open>_Props\<close> (\<open>stream_registry.rs\<close>, \<open>link_session.rs\<close>): the receipts of a push as
    interleaved atomic steps, and the registries under the one contract \<open>link_binding\<close>. \<open>Handoff\<close>
    (\<open>handoff.rs\<close>), \<open>Fanout\<close> (\<open>fanout.rs\<close>) and \<open>DistroFanout\<close> (\<open>distro.rs\<close>): the routes of a delivery.
  \<^item> \<open>NodeConfig\<close>, \<open>Settings\<close> with \<open>_Props\<close> (\<open>config.rs\<close>, \<open>ini_config.rs\<close>, \<open>main.rs\<close>): the settings and
    their merge. \<open>FedNode\<close> with \<open>_Props\<close> (\<open>destinations.rs\<close>): the node and its request and tick handlers. \<open>NodeStart\<close>,
    \<open>Announces\<close>, \<open>MainLoop\<close>, each with \<open>_Props\<close> (\<open>destinations.rs\<close>, \<open>announce.rs\<close>, \<open>main.rs\<close>): its start from the databases,
    what it announces, its loop and shutdown.
  \<^item> The propagation node, all of \<open>lxmf_propagation.rs\<close>: \<open>PeerSets\<close> (bit sets of peer slots), \<open>PropEntries\<close> (the index
    of messages), \<open>LocallyProcessed\<close> (ids remembered), \<open>MessageStore\<close> (files, expiry, \<open>/get\<close>), \<open>PeerSync\<close>,
    \<open>PeerSessions\<close>, \<open>PeerBudget\<close>, \<open>SyncWorker\<close> and \<open>Peering\<close> (sync sessions with peers, their budget, the worker that
    runs their events, the choice of the next),
    \<open>InboundSync\<close> and \<open>Ingest\<close> (what peers and clients upload), \<open>PeersFile\<close> (what it keeps across a restart).
  \<^item> \<open>BridgeConfig\<close>, \<open>ApnsBridge\<close>, \<open>FcmBridge\<close> and \<open>Bridges_Props\<close>: the bridges. \<open>ChannelKeys\<close>
    (\<open>channel.rs\<close>): the keys clients derive for a channel.

  How the code is translated. A struct is a record, an enum a datatype, a \<open>HashMap\<close> an association list
  with one entry per key (\<open>hget\<close>, \<open>hput\<close>, \<open>hdel\<close>), a byte string a list of 8-bit words, an \<open>f64\<close> a real, an
  unsigned count a natural number; words and casts are kept where the code depends on their width (the
  words of a \<open>PeerSet\<close>, received times, row numbers, \<open>as u32\<close>). A function that locks takes and returns
  what the lock guards, and \<open>None\<close> stands for a poisoned mutex. Where the code gives up a lock and takes
  it again it is two definitions, and a property of both is one of every interleaving: \<open>outcome_step\<close>,
  \<open>sync_step\<close>, \<open>inbound_step\<close>, \<open>link_step\<close>, \<open>dq_step\<close> and the other step relations. Each reading of a
  clock, each transaction's end (\<open>txn\<close>), and what a file or a link answers is an argument, so the
  properties hold of every failure at every point. Code outside the repository (Reticulum, LXMF,
  msgpack, SQLite, HTTP) is a parameter; what a property relies on of it is a hypothesis.

  Fuel and bounds. No definition takes fuel. Recursion is structural but for the binary search, the ingest of
  a synced page and the trimming of a string, each with its measure, and the loop over a repeatable flag,
  which is a \<open>partial_function\<close> and proved to return for every command line. The
  node's own limits (4096 queued blobs, 64 that stay silent, 600 messages a minute, 20 peers) are
  constants of the model with the values of the code.

  What the lemmas show. Invariants of every reachable state (queue, registries, peer slots, inbound syncs,
  backup pairs, announces); that memory and database, or file, agree after any run, so a restart gives
  back the queue, the tables, the messages, the peers and their marks; the verdict of every branch of a fan-out, a
  hand-off, an ingest; refinements of the index, the bit sets and the token table to plain lists, sets
  and maps; the budget and the size limits under every interleaving; and across components, that the
  wake the node sends is the one the bridges read, that a batch planned by announced limits is one the
  announcing node accepts, that the hourly eviction says everything it drops, and that timed jobs are neither
  early nor passed over.

  Not modelled. The wiring of handlers and callbacks to the Reticulum stack and, but for the sync worker, the threads that
  deliver its events (the events are the steps); the text of log lines (their level and figures are kept where they
  count); \<open>status.json\<close>, the banner, directories and paths; the SQL text; the msgpack bytes of the files
  (a file is its decoded records, with what could not be read said by the record); the command lines of the
  bridges; \<open>push/\<close>, which is not compiled; examples, utilities and scripts. Floating-point rounding is not modelled:
  an \<open>f64\<close> is exact.
\<close>

end
